(* ===== verification/Prelude.thy ===== *)
theory Prelude
  imports Main "HOL-Library.AList" "HOL-Library.Sublist"
begin

text \<open>
  Shared material of the development: the theorem collections that carry the component
  proofs, and generic facts about lists and association lists.

  Three idioms of the program's code live here because every component uses them.
  \<^item> \<open>js_set xs\<close> is \<open>Array.from(new Set(xs))\<close>: the elements of \<open>xs\<close> without repetitions, in
    the order of their first occurrence (a JavaScript \<open>Set\<close> iterates in insertion order).
  \<^item> \<open>map_set k v m\<close> is \<open>m.set(k, v)\<close> of a JavaScript \<open>Map\<close> kept as an association list in
    iteration order: a present key keeps its place, a new key goes to the end.
  \<^item> \<open>modify_last f xs\<close> replaces the last element of an array by its image under \<open>f\<close>.
\<close>

named_theorems js_unfold "definitions of library-level helpers, for evaluation"
named_theorems js_clean "facts about trimmed, separator-free tokens"
named_theorems js_keep "what an operation leaves unchanged"

section \<open>Arrays without repetitions\<close>

definition set_add :: "'a list \<Rightarrow> 'a \<Rightarrow> 'a list" where
  "set_add xs x = (if x \<in> set xs then xs else xs @ [x])"

definition js_set :: "'a list \<Rightarrow> 'a list" where
  "js_set xs = foldl set_add [] xs"

lemma set_add_distinct [simp]: "distinct (set_add xs x) = distinct xs"
  by (simp add: set_add_def)

lemma set_set_add [simp]: "set (set_add xs x) = insert x (set xs)"
  by (auto simp: set_add_def)

lemma foldl_set_add_distinct [simp]: "distinct (foldl set_add acc xs) = distinct acc"
  by (induction xs arbitrary: acc) auto

lemma set_foldl_set_add [simp]: "set (foldl set_add acc xs) = set acc \<union> set xs"
  by (induction xs arbitrary: acc) auto

lemma distinct_js_set [simp]: "distinct (js_set xs)"
  by (simp add: js_set_def)

lemma set_js_set [simp]: "set (js_set xs) = set xs"
  by (simp add: js_set_def)

lemma foldl_set_add_id: "distinct (acc @ xs) \<Longrightarrow> foldl set_add acc xs = acc @ xs"
  by (induction xs arbitrary: acc) (auto simp: set_add_def)

lemma js_set_distinct [simp]: "distinct xs \<Longrightarrow> js_set xs = xs"
  using foldl_set_add_id [of "[]" xs] by (simp add: js_set_def)

lemma js_set_Nil [simp]: "js_set [] = []"
  by (simp add: js_set_def)

lemma js_set_idem [simp]: "js_set (js_set xs) = js_set xs"
  by simp

lemma foldl_set_add_prefix: "\<exists>ys. foldl set_add acc xs = acc @ ys"
proof (induction xs arbitrary: acc)
  case Nil
  show ?case by simp
next
  case (Cons x xs)
  obtain ys where "foldl set_add (set_add acc x) xs = set_add acc x @ ys"
    using Cons.IH by blast
  moreover have "\<exists>zs. set_add acc x = acc @ zs" by (simp add: set_add_def)
  ultimately show ?case by auto
qed

lemma length_foldl_set_add: "length (foldl set_add acc xs) \<le> length acc + length xs"
proof (induction xs arbitrary: acc)
  case Nil
  show ?case by simp
next
  case (Cons x xs)
  show ?case using Cons.IH [of "set_add acc x"]
    by (auto simp: set_add_def split: if_splits)
qed

lemma length_js_set_le: "length (js_set xs) \<le> length xs"
  using length_foldl_set_add [of "[]" xs] by (simp add: js_set_def)

lemma js_set_eq_Nil [simp]: "js_set xs = [] \<longleftrightarrow> xs = []"
proof -
  have "js_set xs = [] \<longleftrightarrow> set (js_set xs) = {}" by (simp del: set_js_set)
  then show ?thesis by simp
qed

text \<open>The first occurrence decides the place: a repetition is dropped, never moved.\<close>

lemma js_set_snoc: "js_set (xs @ [x]) = (if x \<in> set xs then js_set xs else js_set xs @ [x])"
proof -
  have "js_set (xs @ [x]) = set_add (js_set xs) x" by (simp add: js_set_def)
  then show ?thesis by (simp add: set_add_def)
qed

section \<open>Insertion-ordered maps\<close>

abbreviation map_set :: "'k \<Rightarrow> 'v \<Rightarrow> ('k \<times> 'v) list \<Rightarrow> ('k \<times> 'v) list" where
  "map_set \<equiv> AList.update"

lemma map_set_lookup [simp]: "map_of (map_set k v m) = (map_of m)(k \<mapsto> v)"
  by (simp add: update_conv')

lemma distinct_map_set: "distinct (map fst m) \<Longrightarrow> distinct (map fst (map_set k v m))"
  by (rule distinct_update)

lemma set_fst_map_set [simp]: "fst ` set (map_set k v m) = insert k (fst ` set m)"
  by (induction m) auto

lemma set_map_set: "set (map_set k v m) \<subseteq> insert (k, v) (set m)"
  by (induction m) auto

lemma map_fst_map_set: "map fst (map_set k v m) = set_add (map fst m) k"
  by (induction m) (auto simp: set_add_def)

section \<open>The last element of an array\<close>

definition modify_last :: "('a \<Rightarrow> 'a) \<Rightarrow> 'a list \<Rightarrow> 'a list" where
  "modify_last f xs = (if xs = [] then [] else butlast xs @ [f (last xs)])"

lemma modify_last_snoc [simp]: "modify_last f (xs @ [x]) = xs @ [f x]"
  by (simp add: modify_last_def)

lemma modify_last_Nil [simp]: "modify_last f [] = []"
  by (simp add: modify_last_def)

lemma length_modify_last [simp]: "length (modify_last f xs) = length xs"
  by (simp add: modify_last_def)

lemma butlast_modify_last [simp]: "butlast (modify_last f xs) = butlast xs"
  by (simp add: modify_last_def)

lemma last_modify_last [simp]: "xs \<noteq> [] \<Longrightarrow> last (modify_last f xs) = f (last xs)"
  by (simp add: modify_last_def)

lemma modify_last_eq_Nil [simp]: "modify_last f xs = [] \<longleftrightarrow> xs = []"
  by (simp add: modify_last_def)

section \<open>Small facts on lists\<close>

lemma dropWhile_hd: "dropWhile P xs = y # ys \<Longrightarrow> \<not> P y"
  by (metis hd_dropWhile list.discI list.sel(1))

lemma takeWhile_append_stop:
  "\<forall>x\<in>set xs. P x \<Longrightarrow> \<not> P y \<Longrightarrow> takeWhile P (xs @ y # ys) = xs"
  by (induction xs) auto

lemma dropWhile_append_stop:
  "\<forall>x\<in>set xs. P x \<Longrightarrow> \<not> P y \<Longrightarrow> dropWhile P (xs @ y # ys) = y # ys"
  by (induction xs) auto

lemma in_set_map_filter: "y \<in> set (List.map_filter f xs) \<longleftrightarrow> (\<exists>x\<in>set xs. f x = Some y)"
  by (force simp: map_filter_def image_iff)

lemma list_all_conv: "list_all P xs \<longleftrightarrow> (\<forall>x\<in>set xs. P x)"
  by (induction xs) auto

section \<open>Simulation\<close>

text \<open>
  The contract between an implementation and its specification: from related states, every operation
  that is \<open>ok\<close> leads to related states. Any sequence of operations then does.
\<close>

locale simulation =
  fixes run :: "'op \<Rightarrow> 's \<Rightarrow> 's"
    and spec :: "'op \<Rightarrow> 'm \<Rightarrow> 'm"
    and rel :: "'s \<Rightarrow> 'm \<Rightarrow> bool"
    and ok :: "'op \<Rightarrow> bool"
  assumes simulates: "ok op \<Longrightarrow> rel s m \<Longrightarrow> rel (run op s) (spec op m)"
begin

lemma run_all: "list_all ok ops \<Longrightarrow> rel s m \<Longrightarrow> rel (fold run ops s) (fold spec ops m)"
  by (induction ops arbitrary: s m) (auto intro: simulates)

end

end
