(* ===== verification/JsString.thy ===== *)
theory JsString
  imports Prelude
begin

text \<open>
  JavaScript strings. A string is the list of its UTF-16 code units (\<open>jstr\<close>), so \<open>length\<close>,
  \<open>slice\<close> and indexing count what the code counts, and characters outside ASCII (the full-width
  comma, the arrow in a message) are ordinary units. \<open>js ''abc''\<close> is the literal \<open>'abc'\<close>.

  The operations are those of \<open>String.prototype\<close> the program calls: \<open>trim\<close> (with the white
  space of ECMAScript, which is also the class \<open>\s\<close> of its regular expressions), \<open>split\<close> on one
  unit, \<open>join\<close>, \<open>includes\<close>, \<open>indexOf\<close>, and decimal printing and reading of whole numbers.
  The locale \<open>csv_codec\<close> is the contract of the comma-separated lists that several components
  parse and print.
\<close>

type_synonym jstr = "nat list"

definition js :: "string \<Rightarrow> jstr" where
  "js s = map of_char s"

lemma js_inject [simp]: "js a = js b \<longleftrightarrow> a = b"
  by (simp add: js_def inj_map_eq_map inj_def)

lemma js_eq_Nil [simp]: "js s = [] \<longleftrightarrow> s = []" "[] = js s \<longleftrightarrow> s = []"
  by (auto simp: js_def)

lemma length_js [simp]: "length (js s) = length s"
  by (simp add: js_def)

lemma js_append: "js (a @ b) = js a @ js b"
  by (simp add: js_def)

declare js_def [js_unfold]

section \<open>White space and trimming\<close>

definition is_ws :: "nat \<Rightarrow> bool" where
  "is_ws c \<longleftrightarrow> (9 \<le> c \<and> c \<le> 13) \<or> c = 32 \<or> c = 160 \<or> c = 0x1680
     \<or> (0x2000 \<le> c \<and> c \<le> 0x200A) \<or> c = 0x2028 \<or> c = 0x2029 \<or> c = 0x202F
     \<or> c = 0x205F \<or> c = 0x3000 \<or> c = 0xFEFF"

declare is_ws_def [js_unfold]

definition trim :: "jstr \<Rightarrow> jstr" where
  "trim s = rev (dropWhile is_ws (rev (dropWhile is_ws s)))"

definition trimmed :: "jstr \<Rightarrow> bool" where
  "trimmed s \<longleftrightarrow> s = [] \<or> \<not> is_ws (hd s) \<and> \<not> is_ws (last s)"

lemma trimmed_trim: "trimmed (trim s)"
proof (cases "trim s = []")
  case True
  then show ?thesis by (simp add: trimmed_def)
next
  case False
  define t where "t = dropWhile is_ws s"
  have tr: "trim s = rev (dropWhile is_ws (rev t))" by (simp add: trim_def t_def)
  with False have ne: "dropWhile is_ws (rev t) \<noteq> []" by simp
  then have l: "\<not> is_ws (last (trim s))"
    by (simp add: tr last_rev hd_dropWhile)
  have "\<exists>ys. rev t = ys @ dropWhile is_ws (rev t)"
    by (metis takeWhile_dropWhile_id)
  then obtain ys where "t = trim s @ rev ys"
    by (metis tr rev_append rev_rev_ident)
  with False have h: "hd (trim s) = hd t" by (metis hd_append2)
  from ne have "t \<noteq> []" by auto
  then have "\<not> is_ws (hd t)" by (simp add: t_def hd_dropWhile)
  with h l show ?thesis by (simp add: trimmed_def)
qed

lemma trim_id: "trimmed s \<Longrightarrow> trim s = s"
proof (cases "s = []")
  case False
  assume t: "trimmed s"
  with False have "\<not> is_ws (hd s)" and l: "\<not> is_ws (last s)" by (auto simp: trimmed_def)
  with False have "dropWhile is_ws s = s" by (cases s) auto
  moreover have "dropWhile is_ws (rev s) = rev s"
    using False l by (cases s rule: rev_cases) auto
  ultimately show ?thesis by (simp add: trim_def)
qed (simp add: trim_def)

lemma trim_trimmed_iff: "trim s = s \<longleftrightarrow> trimmed s"
  using trimmed_trim trim_id by metis

lemma trim_trim [simp]: "trim (trim s) = trim s"
  by (simp add: trim_id trimmed_trim)

lemma trim_Nil [simp]: "trim [] = []"
  by (simp add: trim_def)

lemma set_trim: "set (trim s) \<subseteq> set s"
  by (auto simp: trim_def dest!: set_dropWhileD)

lemma trim_ne_Nil: "trim s \<noteq> [] \<Longrightarrow> s \<noteq> []"
  by auto

lemma no_ws_trimmed: "\<forall>c\<in>set s. \<not> is_ws c \<Longrightarrow> trimmed s"
  by (cases s) (auto simp: trimmed_def)

lemma trim_eq_Nil: "trim s = [] \<longleftrightarrow> (\<forall>c\<in>set s. is_ws c)"
proof -
  have "(\<forall>c\<in>set (dropWhile is_ws s). is_ws c) \<longleftrightarrow> dropWhile is_ws s = []"
  proof (cases "dropWhile is_ws s = []")
    case True
    then show ?thesis by (simp only: list.set ball_simps simp_thms)
  next
    case False
    with hd_dropWhile [OF False] show ?thesis by (metis list.set_sel(1))
  qed
  moreover have "trim s = [] \<longleftrightarrow> (\<forall>c\<in>set (dropWhile is_ws s). is_ws c)"
    by (simp only: trim_def rev_is_Nil_conv dropWhile_eq_Nil_conv set_rev)
  ultimately show ?thesis by (simp only: dropWhile_eq_Nil_conv)
qed

section \<open>Splitting and joining\<close>

fun split_on :: "nat \<Rightarrow> jstr \<Rightarrow> jstr list" where
  "split_on c [] = [[]]"
| "split_on c (x # xs) =
     (if x = c then [] # split_on c xs
      else (case split_on c xs of [] \<Rightarrow> [[x]] | y # ys \<Rightarrow> (x # y) # ys))"

fun join :: "jstr \<Rightarrow> jstr list \<Rightarrow> jstr" where
  "join sep [] = []"
| "join sep [x] = x"
| "join sep (x # y # ys) = x @ sep @ join sep (y # ys)"

lemma split_on_ne [simp]: "split_on c s \<noteq> []"
  by (induction s) (auto split: list.splits)

lemma split_on_no_sep: "c \<notin> set s \<Longrightarrow> split_on c s = [s]"
  by (induction s) auto

lemma split_on_append_sep: "c \<notin> set s \<Longrightarrow> split_on c (s @ c # t) = s # split_on c t"
  by (induction s) auto

lemma split_on_parts: "t \<in> set (split_on c s) \<Longrightarrow> c \<notin> set t \<and> set t \<subseteq> set s"
proof (induction s arbitrary: t)
  case Nil
  then show ?case by simp
next
  case (Cons x s)
  show ?case
  proof (cases "x = c")
    case True
    with Cons show ?thesis by auto
  next
    case False
    obtain y ys where sp: "split_on c s = y # ys"
      by (cases "split_on c s") auto
    with False Cons.prems have "t = x # y \<or> t \<in> set ys" by auto
    moreover have "c \<notin> set y \<and> set y \<subseteq> set s" using Cons.IH [of y] sp by simp
    moreover have "t \<in> set ys \<Longrightarrow> c \<notin> set t \<and> set t \<subseteq> set s" using Cons.IH [of t] sp by simp
    ultimately show ?thesis using False by auto
  qed
qed

lemma join_split_on: "join [c] (split_on c s) = s"
proof (induction s)
  case Nil
  show ?case by simp
next
  case (Cons x s)
  obtain y ys where sp: "split_on c s = y # ys"
    by (cases "split_on c s") auto
  with Cons show ?case by (cases ys) auto
qed

lemma split_on_join:
  "xs \<noteq> [] \<Longrightarrow> \<forall>x\<in>set xs. c \<notin> set x \<Longrightarrow> split_on c (join [c] xs) = xs"
  by (induction "[c]" xs rule: join.induct) (auto simp: split_on_no_sep split_on_append_sep)

lemma join_eq_Nil: "join sep xs = [] \<Longrightarrow> sep \<noteq> [] \<Longrightarrow> xs = [] \<or> xs = [[]]"
  by (induction sep xs rule: join.induct) auto

lemma set_join: "set (join sep xs) \<subseteq> set sep \<union> \<Union>(set ` set xs)"
  by (induction sep xs rule: join.induct) auto

section \<open>Searching\<close>

definition contains :: "jstr \<Rightarrow> jstr \<Rightarrow> bool" where
  "contains s p \<longleftrightarrow> sublist p s"

lemma contains_rec [code]:
  "contains s p \<longleftrightarrow> prefix p s \<or> (case s of [] \<Rightarrow> False | _ # t \<Rightarrow> contains t p)"
  by (cases s) (auto simp: contains_def sublist_Cons_right)

text \<open>\<open>index_of p s\<close> is the offset of the first occurrence of \<open>p\<close> in \<open>s\<close>, \<open>None\<close> for -1.\<close>

fun index_of :: "jstr \<Rightarrow> jstr \<Rightarrow> nat option" where
  "index_of p [] = (if p = [] then Some 0 else None)"
| "index_of p (x # xs) = (if prefix p (x # xs) then Some 0 else map_option Suc (index_of p xs))"

lemma index_of_Some: "index_of p s = Some i \<Longrightarrow> \<exists>t. s = take i s @ p @ t \<and> i + length p \<le> length s"
proof (induction s arbitrary: i)
  case Nil
  then show ?case by (auto split: if_splits)
next
  case (Cons x s)
  show ?case
  proof (cases "prefix p (x # s)")
    case True
    with Cons.prems have "i = 0" by simp
    moreover from True obtain t where "x # s = p @ t" by (auto simp: prefix_def)
    moreover then have "length (x # s) = length p + length t" by (metis length_append)
    ultimately show ?thesis by auto
  next
    case False
    with Cons.prems obtain j where j: "index_of p s = Some j" "i = Suc j" by auto
    with Cons.IH obtain t where "s = take j s @ p @ t" "j + length p \<le> length s" by blast
    with j show ?thesis by auto
  qed
qed

lemma index_of_None: "index_of p s = None \<longleftrightarrow> \<not> contains s p"
  by (induction s) (auto simp: contains_def sublist_Cons_right)

lemma index_of_drop:
  assumes "index_of p s = Some i"
  shows "s = take i s @ p @ drop (i + length p) s"
proof -
  from index_of_Some [OF assms] obtain t where t: "s = take i s @ p @ t" and le: "i + length p \<le> length s"
    by blast
  have "drop (i + length p) s = drop (i + length p) (take i s @ p @ t)"
    by (rule arg_cong [OF t])
  also have "\<dots> = t" using le by simp
  finally show ?thesis using t by simp
qed

lemma index_of_le: "index_of p s = Some i \<Longrightarrow> i + length p \<le> length s"
  using index_of_Some by blast

lemma index_of_take: "index_of p s = Some i \<Longrightarrow> p \<noteq> [] \<Longrightarrow> \<not> contains (take i s) p"
proof (induction s arbitrary: i)
  case Nil
  then show ?case by simp
next
  case (Cons x s)
  show ?case
  proof (cases "prefix p (x # s)")
    case True
    with Cons.prems show ?thesis by (simp add: contains_def)
  next
    case False
    with Cons.prems obtain j where j: "index_of p s = Some j" "i = Suc j" by auto
    have "\<not> prefix p (x # take j s)"
      using False by (metis prefix_order.trans take_Suc_Cons take_is_prefix)
    with j Cons show ?thesis by (auto simp: contains_def sublist_Cons_right)
  qed
qed

section \<open>Decimal numerals\<close>

definition is_digit :: "nat \<Rightarrow> bool" where
  "is_digit c \<longleftrightarrow> 48 \<le> c \<and> c \<le> 57"

declare is_digit_def [js_unfold]

fun dec :: "nat \<Rightarrow> jstr" where
  "dec n = (if n < 10 then [48 + n] else dec (n div 10) @ [48 + n mod 10])"

declare dec.simps [simp del]

definition undec :: "jstr \<Rightarrow> nat" where
  "undec s = foldl (\<lambda>a d. 10 * a + (d - 48)) 0 s"

lemma undec_snoc [simp]: "undec (s @ [d]) = 10 * undec s + (d - 48)"
  by (simp add: undec_def)

lemma undec_Nil [simp]: "undec [] = 0"
  by (simp add: undec_def)

lemma undec_dec [simp]: "undec (dec n) = n"
proof (induction n rule: dec.induct)
  case (1 n)
  show ?case
  proof (cases "n < 10")
    case True
    then show ?thesis by (simp add: dec.simps [of n] undec_def)
  next
    case False
    with 1 show ?thesis by (simp add: dec.simps [of n])
  qed
qed

lemma dec_inject [simp]: "dec a = dec b \<longleftrightarrow> a = b"
  by (metis undec_dec)

lemma dec_ne [simp]: "dec n \<noteq> []"
  by (subst dec.simps) simp

lemma dec_digits: "c \<in> set (dec n) \<Longrightarrow> is_digit c"
proof (induction n rule: dec.induct)
  case (1 n)
  then show ?case
    by (cases "n < 10") (auto simp: dec.simps [of n] is_digit_def)
qed

lemma digit_not_ws: "is_digit c \<Longrightarrow> \<not> is_ws c"
  by (auto simp: is_digit_def is_ws_def)

lemma trimmed_dec: "trimmed (dec n)"
  by (rule no_ws_trimmed) (auto dest: dec_digits digit_not_ws)

section \<open>Comma-separated lists\<close>

text \<open>
  A token is clean when the parser can give it back: not empty, trimmed, and free of the
  separator. \<open>csv_tokens\<close> is the common shape
  \<open>s.split(',').map((t) => t.trim()).filter(Boolean)\<close>.
\<close>

abbreviation comma :: nat where "comma \<equiv> 44"

definition clean_token :: "nat \<Rightarrow> jstr \<Rightarrow> bool" where
  "clean_token c t \<longleftrightarrow> t \<noteq> [] \<and> trimmed t \<and> c \<notin> set t"

definition csv_tokens :: "nat \<Rightarrow> jstr \<Rightarrow> jstr list" where
  "csv_tokens c s = filter (\<lambda>t. t \<noteq> []) (map trim (split_on c s))"

lemma csv_tokens_clean [js_clean]: "t \<in> set (csv_tokens c s) \<Longrightarrow> clean_token c t"
proof -
  assume "t \<in> set (csv_tokens c s)"
  then obtain u where u: "u \<in> set (split_on c s)" "t = trim u" "t \<noteq> []"
    by (auto simp: csv_tokens_def)
  from u(1) have "c \<notin> set u" by (simp add: split_on_parts)
  with u show ?thesis using set_trim [of u] by (auto simp: clean_token_def trimmed_trim)
qed

lemma csv_tokens_join:
  assumes "\<forall>t\<in>set ts. clean_token c t"
  shows "csv_tokens c (join [c] ts) = ts"
proof (cases "ts = []")
  case True
  then show ?thesis by (simp add: csv_tokens_def)
next
  case False
  with assms have "split_on c (join [c] ts) = ts"
    by (auto simp: clean_token_def intro!: split_on_join)
  moreover have "map trim ts = ts"
    using assms by (auto simp: clean_token_def trim_id intro!: map_idI)
  moreover have "filter (\<lambda>t. t \<noteq> []) ts = ts"
    using assms by (auto simp: clean_token_def)
  ultimately show ?thesis by (simp add: csv_tokens_def)
qed

lemma csv_tokens_Nil [simp]: "csv_tokens c [] = []"
  by (simp add: csv_tokens_def)

lemma blank_tokens: "trim s = [] \<Longrightarrow> csv_tokens c s = []"
proof -
  assume "trim s = []"
  then have "trim t = []" if "t \<in> set (split_on c s)" for t
    using split_on_parts [OF that] by (auto simp: trim_eq_Nil)
  then show ?thesis by (auto simp: csv_tokens_def filter_empty_conv)
qed

locale csv_codec =
  fixes parse :: "jstr \<Rightarrow> jstr list"
    and print :: "jstr list \<Rightarrow> jstr"
    and norm :: "jstr list \<Rightarrow> jstr list"
    and sep :: nat
  assumes parse_clean: "t \<in> set (parse s) \<Longrightarrow> clean_token sep t"
    and parse_print: "\<forall>t\<in>set ts. clean_token sep t \<Longrightarrow> parse (print ts) = norm ts"
    and norm_set: "set (norm ts) = set ts"
    and norm_idem: "norm (norm ts) = norm ts"
begin

text \<open>Storing a parsed list and reading it again only normalises it.\<close>

lemma reparse: "parse (print (parse s)) = norm (parse s)"
  by (rule parse_print) (simp add: parse_clean)

lemma reparse_stable: "parse (print (parse (print (parse s)))) = parse (print (parse s))"
proof -
  have "parse (print (norm (parse s))) = norm (norm (parse s))"
    by (rule parse_print) (auto simp: norm_set parse_clean)
  then show ?thesis by (simp add: reparse norm_idem)
qed

lemma reparse_set: "set (parse (print (parse s))) = set (parse s)"
  by (simp add: reparse norm_set)

end

end
