(* ===== verification/StatusCodeRules.thy ===== *)
theory StatusCodeRules
  imports JsString "HOL-Library.Product_Lexorder"
begin

text \<open>
  \<open>src/newapi/web/default/src/lib/http-status-code-rules.ts\<close>: the parser of the retry and
  auto-disable rules an administrator types as \<open>401, 500-503\<close>. It splits the text into tokens,
  parses each token to a range, sorts and merges the ranges, and prints the merged list back.

  The input is \<open>None\<close> for \<open>null\<close> and \<open>undefined\<close> and otherwise the string \<open>toString()\<close> gives.
  A numeral is read as an exact whole number: \<open>Number.parseInt\<close> rounds only above \<open>2^53\<close>, and
  rounding is monotone, so the bounds 100 and 599 accept the same numerals.

  The lemmas show that merging keeps the set of status codes, puts the ranges in a normal
  form (sorted, with a gap between neighbours) and that the normal form is unique, so the
  printed rule depends on the set of codes only; and that the printed rule parses to itself.
\<close>

record StatusCodeRange =
  start_code :: nat
  end_code :: nat

record ParsedHttpStatusCodeRules =
  ok :: bool
  ranges :: "StatusCodeRange list"
  tokens :: "jstr list"
  normalized :: jstr
  invalidTokens :: "jstr list"

section \<open>Operations\<close>

definition isNumber :: "jstr \<Rightarrow> bool" where
  "isNumber s \<longleftrightarrow> s \<noteq> [] \<and> list_all is_digit s"

definition isValidCode :: "nat \<Rightarrow> bool" where
  "isValidCode code \<longleftrightarrow> code \<ge> 100 \<and> code \<le> 599"

text \<open>
  \<open>const [a, b] = cleaned.split('-')\<close> keeps the first two pieces and drops the others; there
  are at least two because \<open>cleaned\<close> contains the dash.
\<close>

abbreviation dash :: nat where "dash \<equiv> 45"

definition parseToken :: "jstr \<Rightarrow> StatusCodeRange option" where
  "parseToken token =
     (let cleaned = filter (\<lambda>c. \<not> is_ws c) (trim token) in
      if cleaned = [] then None
      else if dash \<in> set cleaned then
        (case split_on dash cleaned of
           a # b # _ \<Rightarrow>
             if \<not> isNumber a \<or> \<not> isNumber b then None
             else let s = undec a; e = undec b in
               if \<not> isValidCode s \<or> \<not> isValidCode e \<or> s > e then None
               else Some \<lparr>start_code = s, end_code = e\<rparr>
         | _ \<Rightarrow> None)
      else if \<not> isNumber cleaned then None
      else let code = undec cleaned in
        if \<not> isValidCode code then None
        else Some \<lparr>start_code = code, end_code = code\<rparr>)"

definition merge_step :: "StatusCodeRange list \<Rightarrow> StatusCodeRange \<Rightarrow> StatusCodeRange list" where
  "merge_step merged current =
     (if merged = [] \<or> start_code current > end_code (last merged) + 1
      then merged @ [current]
      else modify_last (\<lambda>l. l\<lparr>end_code := max (end_code l) (end_code current)\<rparr>) merged)"

definition range_key :: "StatusCodeRange \<Rightarrow> nat \<times> nat" where
  "range_key r = (start_code r, end_code r)"

definition mergeRanges :: "StatusCodeRange list \<Rightarrow> StatusCodeRange list" where
  "mergeRanges rs = (if rs = [] then [] else foldl merge_step [] (sort_key range_key rs))"

definition range_token :: "StatusCodeRange \<Rightarrow> jstr" where
  "range_token r =
     (if start_code r = end_code r then dec (start_code r)
      else dec (start_code r) @ [dash] @ dec (end_code r))"

text \<open>The loop over the segments: good ones are parsed, bad ones are collected.\<close>

fun parse_segments :: "jstr list \<Rightarrow> StatusCodeRange list \<times> jstr list" where
  "parse_segments [] = ([], [])"
| "parse_segments (s # ss) =
     (let (rs, bad) = parse_segments ss in
      case parseToken s of None \<Rightarrow> (rs, s # bad) | Some r \<Rightarrow> (r # rs, bad))"

text \<open>The full-width comma counts as a comma before the text is cut into tokens.\<close>

definition rule_segments :: "jstr \<Rightarrow> jstr list" where
  "rule_segments raw = csv_tokens comma (map (\<lambda>c. if c = 0xFF0C then comma else c) raw)"

definition parseHttpStatusCodeRules :: "jstr option \<Rightarrow> ParsedHttpStatusCodeRules" where
  "parseHttpStatusCodeRules input =
     (let raw = trim (case input of None \<Rightarrow> [] | Some s \<Rightarrow> s) in
      if raw = [] then
        \<lparr>ok = True, ranges = [], tokens = [], normalized = [], invalidTokens = []\<rparr>
      else
        let (rs, bad) = parse_segments (rule_segments raw) in
        if bad \<noteq> [] then
          \<lparr>ok = False, ranges = [], tokens = [], normalized = raw, invalidTokens = bad\<rparr>
        else
          let merged = mergeRanges rs; toks = map range_token merged in
          \<lparr>ok = True, ranges = merged, tokens = toks, normalized = join [comma] toks,
           invalidTokens = []\<rparr>)"

lemmas rule_eval = js_unfold parseHttpStatusCodeRules_def rule_segments_def csv_tokens_def trim_def
  parseToken_def isNumber_def isValidCode_def undec_def mergeRanges_def merge_step_def
  range_key_def range_token_def modify_last_def dec.simps Let_def

section \<open>The codes a rule denotes\<close>

definition range_codes :: "StatusCodeRange \<Rightarrow> nat set" where
  "range_codes r = {start_code r..end_code r}"

definition codes :: "StatusCodeRange list \<Rightarrow> nat set" where
  "codes rs = \<Union>(range_codes ` set rs)"

definition proper :: "StatusCodeRange \<Rightarrow> bool" where
  "proper r \<longleftrightarrow> start_code r \<le> end_code r"

definition separated :: "StatusCodeRange list \<Rightarrow> bool" where
  "separated rs \<longleftrightarrow> list_all proper rs \<and> sorted_wrt (\<lambda>a b. end_code a + 1 < start_code b) rs"

lemma codes_simps [simp]:
  "codes [] = {}" "codes (r # rs) = range_codes r \<union> codes rs"
  "codes (rs @ ss) = codes rs \<union> codes ss"
  by (auto simp: codes_def)

lemma parseToken_valid:
  "parseToken t = Some r \<Longrightarrow> proper r \<and> range_codes r \<subseteq> {100..599}"
  by (auto simp: parseToken_def Let_def proper_def range_codes_def isValidCode_def
      split: if_splits list.splits)

section \<open>Merging\<close>

lemma sorted_start: "sorted (map range_key (r # rs)) \<Longrightarrow> x \<in> set rs \<Longrightarrow> start_code r \<le> start_code x"
  by (auto simp: range_key_def less_eq_prod_def)

lemma last_start_separated: "separated rs \<Longrightarrow> x \<in> set (butlast rs) \<Longrightarrow> end_code x + 1 < start_code (last rs)"
  by (cases rs rule: rev_cases) (auto simp: separated_def sorted_wrt_append)

lemma merge_step_separated:
  assumes "separated merged" "proper c"
    and "merged \<noteq> [] \<Longrightarrow> start_code (last merged) \<le> start_code c"
  shows "separated (merge_step merged c) \<and> codes (merge_step merged c) = codes merged \<union> range_codes c
    \<and> merge_step merged c \<noteq> [] \<and> start_code (last (merge_step merged c)) \<le> start_code c"
proof (cases merged rule: rev_cases)
  case Nil
  with assms show ?thesis by (simp add: merge_step_def separated_def)
next
  case (snoc xs l)
  show ?thesis
  proof (cases "start_code c > end_code l + 1")
    case True
    with snoc assms have "\<forall>x\<in>set xs. end_code x + 1 < start_code c"
      by (fastforce simp: separated_def sorted_wrt_append proper_def)
    with True snoc assms show ?thesis
      by (auto simp: merge_step_def separated_def sorted_wrt_append)
  next
    case False
    with snoc assms have "range_codes (l\<lparr>end_code := max (end_code l) (end_code c)\<rparr>) = range_codes l \<union> range_codes c"
      by (auto simp: range_codes_def proper_def separated_def)
    with False snoc assms show ?thesis
      by (auto simp: merge_step_def separated_def sorted_wrt_append proper_def)
  qed
qed

lemma merge_fold:
  assumes "separated merged" "list_all proper rs" "sorted (map range_key rs)"
    and "merged \<noteq> [] \<Longrightarrow> \<forall>r\<in>set rs. start_code (last merged) \<le> start_code r"
  shows "separated (foldl merge_step merged rs) \<and> codes (foldl merge_step merged rs) = codes merged \<union> codes rs"
  using assms
proof (induction rs arbitrary: merged)
  case Nil
  then show ?case by simp
next
  case (Cons r rs)
  from Cons.prems have step: "separated (merge_step merged r)"
    "codes (merge_step merged r) = codes merged \<union> range_codes r"
    "start_code (last (merge_step merged r)) \<le> start_code r"
    using merge_step_separated [of merged r] by auto
  have "\<forall>x\<in>set rs. start_code (last (merge_step merged r)) \<le> start_code x"
    using step(3) sorted_start [OF Cons.prems(3)] by fastforce
  with step Cons.prems show ?case using Cons.IH [of "merge_step merged r"] by auto
qed

lemma mergeRanges_normal:
  assumes "list_all proper rs"
  shows "separated (mergeRanges rs)" "codes (mergeRanges rs) = codes rs"
proof -
  have "list_all proper (sort_key range_key rs)" using assms by (simp add: list_all_iff)
  moreover have "codes (sort_key range_key rs) = codes rs" by (simp add: codes_def)
  ultimately show "separated (mergeRanges rs)" "codes (mergeRanges rs) = codes rs"
    using merge_fold [of "[]" "sort_key range_key rs"]
    by (simp_all add: mergeRanges_def separated_def)
qed

text \<open>A separated list is the only separated list with its codes.\<close>

lemma separated_Cons: "separated (r # rs) \<longleftrightarrow> proper r \<and> separated rs \<and> (\<forall>x\<in>set rs. end_code r + 1 < start_code x)"
  by (auto simp: separated_def)

lemma separated_tail_codes: "separated (r # rs) \<Longrightarrow> n \<in> codes rs \<Longrightarrow> end_code r + 1 < n"
  by (force simp: separated_Cons codes_def range_codes_def)

lemma separated_start_min: "separated (r # rs) \<Longrightarrow> n \<in> codes (r # rs) \<Longrightarrow> start_code r \<le> n"
  using separated_tail_codes [of r rs n] by (auto simp: separated_Cons proper_def range_codes_def)

lemma separated_end_le:
  assumes "separated (x # xs)" "separated (y # ys)" "codes (x # xs) = codes (y # ys)"
    and "start_code x = start_code y"
  shows "end_code y \<le> end_code x"
proof (rule ccontr)
  assume "\<not> end_code y \<le> end_code x"
  then have "end_code x + 1 \<in> range_codes y"
    using assms by (auto simp: range_codes_def separated_Cons proper_def)
  then have "end_code x + 1 \<in> codes (x # xs)" using assms(3) by auto
  then show False using separated_tail_codes [OF assms(1)] by (auto simp: range_codes_def)
qed

lemma separated_unique: "separated xs \<Longrightarrow> separated ys \<Longrightarrow> codes xs = codes ys \<Longrightarrow> xs = ys"
proof (induction xs arbitrary: ys)
  case Nil
  then show ?case by (cases ys) (auto simp: range_codes_def separated_Cons proper_def)
next
  case (Cons x xs)
  from Cons.prems obtain y zs where ys: "ys = y # zs"
    by (cases ys) (auto simp: range_codes_def separated_Cons proper_def)
  note sep = Cons.prems(1) Cons.prems(2) [unfolded ys]
  note eq = Cons.prems(3) [unfolded ys]
  have "start_code x \<in> codes (x # xs)" "start_code y \<in> codes (y # zs)"
    using sep by (auto simp: range_codes_def separated_Cons proper_def)
  with eq sep have st: "start_code x = start_code y"
    by (metis order_antisym separated_start_min)
  moreover have "end_code x = end_code y"
    using separated_end_le [OF sep eq st] separated_end_le [OF sep(2,1) eq [symmetric] st [symmetric]]
    by simp
  ultimately have xy: "x = y" by simp
  have disj: "range_codes x \<inter> codes xs = {}" "range_codes y \<inter> codes zs = {}"
    using separated_tail_codes [OF sep(1)] separated_tail_codes [OF sep(2)]
    by (force simp: range_codes_def)+
  from eq xy disj have "codes xs = codes zs" by auto
  with sep Cons.IH [of zs] have "xs = zs" by (auto simp: separated_Cons)
  with xy ys show ?case by simp
qed

lemma mergeRanges_separated: "separated rs \<Longrightarrow> mergeRanges rs = rs"
proof (rule separated_unique)
  assume sep: "separated rs"
  then have "list_all proper rs" by (simp add: separated_def)
  with sep show "separated (mergeRanges rs)" "codes (mergeRanges rs) = codes rs" "separated rs"
    by (simp_all add: mergeRanges_normal)
qed

section \<open>Reading and printing\<close>

lemma parse_segments_ok:
  "snd (parse_segments ss) = [] \<Longrightarrow>
   (\<forall>s\<in>set ss. parseToken s \<noteq> None) \<and> fst (parse_segments ss) = map (\<lambda>s. the (parseToken s)) ss"
  by (induction ss) (auto simp: Let_def split: prod.splits option.splits)

lemma parse_segments_map:
  "\<forall>r\<in>set rs. parseToken (f r) = Some r \<Longrightarrow> parse_segments (map f rs) = (rs, [])"
  by (induction rs) auto

lemma parse_segments_bad: "snd (parse_segments ss) = filter (\<lambda>s. parseToken s = None) ss"
  by (induction ss) (auto simp: Let_def split: prod.splits option.splits)

lemma isNumber_dec: "isNumber (dec n)"
  by (auto simp: isNumber_def list_all_iff dest: dec_digits)

lemma dash_not_dec: "dash \<notin> set (dec n)"
  by (auto simp: is_digit_def dest: dec_digits)

lemma filter_ws_dec: "filter (\<lambda>c. \<not> is_ws c) (dec n) = dec n"
  by (auto simp: filter_id_conv dest: dec_digits digit_not_ws)

lemma range_token_chars: "c \<in> set (range_token r) \<Longrightarrow> is_digit c \<or> c = dash"
  by (auto simp: range_token_def split: if_splits dest: dec_digits)

lemma rule_char_not_ws: "is_digit c \<or> c = dash \<or> c = comma \<Longrightarrow> \<not> is_ws c"
  using digit_not_ws [of c] by (elim disjE) (simp_all, simp_all add: is_ws_def)

lemma range_token_clean: "clean_token comma (range_token r)"
proof -
  have "\<forall>c\<in>set (range_token r). \<not> is_ws c \<and> c \<noteq> comma"
    using range_token_chars rule_char_not_ws by (fastforce simp: is_digit_def)
  moreover have "range_token r \<noteq> []" by (simp add: range_token_def)
  ultimately show ?thesis by (auto simp: clean_token_def no_ws_trimmed)
qed

lemma parseToken_range_token:
  assumes "proper r" "range_codes r \<subseteq> {100..599}"
  shows "parseToken (range_token r) = Some r"
proof -
  from assms have valid: "isValidCode (start_code r)" "isValidCode (end_code r)" "\<not> end_code r < start_code r"
    by (auto simp: proper_def range_codes_def isValidCode_def)
  have tr: "trim (range_token r) = range_token r"
    using range_token_clean by (simp add: clean_token_def trim_id)
  have cl: "filter (\<lambda>c. \<not> is_ws c) (range_token r) = range_token r"
    using range_token_chars rule_char_not_ws by (simp add: filter_id_conv) blast
  have sp: "split_on dash (dec (start_code r) @ dash # dec (end_code r)) = [dec (start_code r), dec (end_code r)]"
    by (simp add: split_on_append_sep split_on_no_sep dash_not_dec)
  show ?thesis
  proof (cases "start_code r = end_code r")
    case True
    then have "range_token r = dec (end_code r)" by (simp add: range_token_def)
    with tr cl True valid show ?thesis
      by (cases r) (simp add: parseToken_def Let_def dash_not_dec isNumber_dec)
  next
    case False
    then have rt: "range_token r = dec (start_code r) @ dash # dec (end_code r)"
      by (simp add: range_token_def)
    with tr cl sp valid show ?thesis
      by (cases r) (simp add: parseToken_def Let_def isNumber_dec)
  qed
qed

lemma parse_tokens:
  assumes "separated rs" "codes rs \<subseteq> {100..599}" "rs \<noteq> []"
  shows "parseHttpStatusCodeRules (Some (join [comma] (map range_token rs))) =
    \<lparr>ok = True, ranges = rs, tokens = map range_token rs,
     normalized = join [comma] (map range_token rs), invalidTokens = []\<rparr>"
proof -
  define tx where "tx = join [comma] (map range_token rs)"
  have chars: "\<forall>c\<in>set tx. is_digit c \<or> c = dash \<or> c = comma"
    using set_join [of "[comma]" "map range_token rs"] by (auto simp: tx_def dest: range_token_chars)
  then have "trimmed tx" by (intro no_ws_trimmed) (use rule_char_not_ws in blast)
  moreover have "map (\<lambda>c. if c = 0xFF0C then comma else c) tx = tx"
    using chars by (intro map_idI) (auto simp: is_digit_def)
  moreover have "csv_tokens comma tx = map range_token rs"
    unfolding tx_def by (rule csv_tokens_join) (auto simp: range_token_clean)
  moreover have "parse_segments (map range_token rs) = (rs, [])"
    using assms by (intro parse_segments_map) (auto simp: codes_def separated_def list_all_iff intro!: parseToken_range_token)
  moreover have "tx \<noteq> []"
    using assms(3) join_eq_Nil [of "[comma]" "map range_token rs"] range_token_clean
    by (auto simp: tx_def clean_token_def)
  ultimately show ?thesis
    using assms(1) by (simp add: parseHttpStatusCodeRules_def trim_id tx_def mergeRanges_separated rule_segments_def Let_def)
qed

lemma parse_ok_cases:
  assumes "ok (parseHttpStatusCodeRules input)"
  obtains (empty) "parseHttpStatusCodeRules input =
      \<lparr>ok = True, ranges = [], tokens = [], normalized = [], invalidTokens = []\<rparr>"
  | (merged) rs where "list_all proper rs" "codes rs \<subseteq> {100..599}"
      "parseHttpStatusCodeRules input =
        \<lparr>ok = True, ranges = mergeRanges rs, tokens = map range_token (mergeRanges rs),
         normalized = join [comma] (map range_token (mergeRanges rs)), invalidTokens = []\<rparr>"
proof -
  define raw where "raw = trim (case input of None \<Rightarrow> [] | Some s \<Rightarrow> s)"
  define segs where "segs = rule_segments raw"
  obtain rs bad where rb: "parse_segments segs = (rs, bad)" by force
  show thesis
  proof (cases "raw = []")
    case True
    then show thesis
      by (intro empty) (simp add: parseHttpStatusCodeRules_def raw_def Let_def)
  next
    case False
    with assms rb have nobad: "bad = []"
      by (auto simp: parseHttpStatusCodeRules_def raw_def segs_def Let_def split: if_splits prod.splits)
    from rb nobad have rs: "\<forall>s\<in>set segs. parseToken s \<noteq> None" "rs = map (\<lambda>s. the (parseToken s)) segs"
      using parse_segments_ok [of segs] by auto
    have "\<forall>r\<in>set rs. proper r \<and> range_codes r \<subseteq> {100..599}"
    proof
      fix r assume "r \<in> set rs"
      with rs obtain t where "parseToken t = Some r" by auto
      then show "proper r \<and> range_codes r \<subseteq> {100..599}" by (rule parseToken_valid)
    qed
    then have "list_all proper rs" "codes rs \<subseteq> {100..599}"
      by (auto simp: list_all_iff codes_def)
    with False rb nobad show thesis
      by (intro merged [of rs])
         (simp_all add: parseHttpStatusCodeRules_def raw_def segs_def Let_def)
  qed
qed

section \<open>Properties\<close>

text \<open>
  C39. A rule text that is accepted yields ranges in normal form (each range ordered, each one
  starting more than one code after the previous one ends), and only codes from 100 to 599.
\<close>

theorem parse_ranges_normal_form:
  assumes "ok (parseHttpStatusCodeRules input)"
  shows "separated (ranges (parseHttpStatusCodeRules input))
    \<and> codes (ranges (parseHttpStatusCodeRules input)) \<subseteq> {100..599}"
  using assms
  by (cases input rule: parse_ok_cases) (simp_all add: mergeRanges_normal, simp add: separated_def)

theorem parse_ranges_normal_form_witness:
  "separated (ranges (parseHttpStatusCodeRules (Some (js ''503, 500-502''))))
    \<and> codes (ranges (parseHttpStatusCodeRules (Some (js ''503, 500-502'')))) \<subseteq> {100..599}"
  by (rule parse_ranges_normal_form) (simp add: rule_eval)

text \<open>
  Merging loses nothing and adds nothing: the accepted ranges cover exactly the codes of
  the ranges the tokens were parsed to.
\<close>

theorem mergeRanges_codes:
  "list_all proper rs \<Longrightarrow> codes (mergeRanges rs) = codes rs"
  by (rule mergeRanges_normal)

theorem mergeRanges_codes_witness:
  "codes (mergeRanges [\<lparr>start_code = 500, end_code = 503\<rparr>, \<lparr>start_code = 401, end_code = 401\<rparr>]) =
   codes [\<lparr>start_code = 500, end_code = 503\<rparr>, \<lparr>start_code = 401, end_code = 401\<rparr>]"
  by (rule mergeRanges_codes) (simp add: proper_def)

text \<open>
  C22. The printed rule is canonical: two accepted texts that denote the same codes are
  normalised to the same text, however their tokens were ordered, overlapped or split.
\<close>

theorem normalized_canonical:
  assumes "ok (parseHttpStatusCodeRules a)" "ok (parseHttpStatusCodeRules b)"
    and "codes (ranges (parseHttpStatusCodeRules a)) = codes (ranges (parseHttpStatusCodeRules b))"
  shows "normalized (parseHttpStatusCodeRules a) = normalized (parseHttpStatusCodeRules b)"
proof -
  have norm: "normalized (parseHttpStatusCodeRules x) =
      join [comma] (map range_token (ranges (parseHttpStatusCodeRules x)))
      \<and> separated (ranges (parseHttpStatusCodeRules x))"
    if "ok (parseHttpStatusCodeRules x)" for x
    using that by (cases x rule: parse_ok_cases) (simp_all add: mergeRanges_normal, simp add: separated_def)
  from norm [OF assms(1)] norm [OF assms(2)] assms(3) show ?thesis
    using separated_unique by metis
qed

theorem normalized_canonical_witness:
  "normalized (parseHttpStatusCodeRules (Some (js ''500-502,503''))) =
   normalized (parseHttpStatusCodeRules (Some (js ''502-503 , 500 - 502'')))"
  by (rule normalized_canonical) (simp_all add: rule_eval codes_def range_codes_def)

text \<open>
  Round trip: saving the normalised text and parsing it again gives the same result.
\<close>

theorem normalized_roundtrip:
  assumes "ok (parseHttpStatusCodeRules input)"
  shows "parseHttpStatusCodeRules (Some (normalized (parseHttpStatusCodeRules input))) =
    parseHttpStatusCodeRules input"
  using assms
proof (cases input rule: parse_ok_cases)
  case empty
  then show ?thesis by (simp add: parseHttpStatusCodeRules_def)
next
  case (merged rs)
  show ?thesis
  proof (cases "mergeRanges rs = []")
    case True
    with merged show ?thesis by (simp add: parseHttpStatusCodeRules_def)
  next
    case False
    have "separated (mergeRanges rs)" "codes (mergeRanges rs) \<subseteq> {100..599}"
      using merged by (simp_all add: mergeRanges_normal)
    from parse_tokens [OF this False] merged show ?thesis by simp
  qed
qed

theorem normalized_roundtrip_witness:
  "parseHttpStatusCodeRules (Some (normalized (parseHttpStatusCodeRules (Some (js ''503,401''))))) =
    parseHttpStatusCodeRules (Some (js ''503,401''))"
  by (rule normalized_roundtrip) (simp add: rule_eval)

text \<open>
  Errors are complete and keep the text: the input is refused exactly when some token does
  not parse, the refused tokens are listed in order, nothing else is returned, and the text
  stays as typed (trimmed).
\<close>

theorem parse_refused:
  "ok (parseHttpStatusCodeRules (Some s)) = (filter (\<lambda>t. parseToken t = None) (rule_segments (trim s)) = [])
   \<and> (parseHttpStatusCodeRules (Some s) =
        \<lparr>ok = False, ranges = [], tokens = [], normalized = trim s,
         invalidTokens = filter (\<lambda>t. parseToken t = None) (rule_segments (trim s))\<rparr>)
     = (filter (\<lambda>t. parseToken t = None) (rule_segments (trim s)) \<noteq> [])"
proof -
  obtain rs bad where rb: "parse_segments (rule_segments (trim s)) = (rs, bad)" by force
  then have "bad = filter (\<lambda>t. parseToken t = None) (rule_segments (trim s))"
    using parse_segments_bad [of "rule_segments (trim s)"] by simp
  with rb show ?thesis
    by (cases "trim s = []") (auto simp: parseHttpStatusCodeRules_def Let_def rule_segments_def)
qed

end
