(* ===== verification/JsNumber.thy ===== *)
theory JsNumber
  imports JsString "HOL-Library.Log_Nat"
begin

text \<open>
  JavaScript numbers: IEEE 754 binary64 values. A finite value is the rational it denotes, so
  every operation of the language is the exact operation followed by \<open>rnd\<close>, rounding to nearest
  with ties to even, with overflow to an infinity and gradual underflow. The two zeros are one
  value here: the program never divides by a zero it computed with a sign, nor prints or
  compares one, in the parts modelled.

  \<open>num_to_string\<close> is \<open>Number::toString\<close>. Whole numbers up to \<open>2^53\<close> print as their decimal
  digits; other values take the shortest digit string that rounds back to the value (at most
  17 digits), as ECMAScript prescribes. \<open>decimal_value\<close> is the value of a decimal literal.
\<close>

datatype jsnum = NaN | Infinity bool | Fin rat

section \<open>Rounding\<close>

definition pow2 :: "int \<Rightarrow> rat" where
  "pow2 k = (if 0 \<le> k then 2 ^ nat k else 1 / 2 ^ nat (- k))"

definition pow10 :: "int \<Rightarrow> rat" where
  "pow10 k = (if 0 \<le> k then 10 ^ nat k else 1 / 10 ^ nat (- k))"

text \<open>The exponent \<open>e\<close> with \<open>2^e \<le> q < 2^(e+1)\<close>, for positive \<open>q\<close>.\<close>

definition exponent :: "rat \<Rightarrow> int" where
  "exponent q =
     (let (n, d) = quotient_of q; e = bitlen n - bitlen d in
      if pow2 e \<le> q then e else e - 1)"

definition round_half_even :: "rat \<Rightarrow> int" where
  "round_half_even q =
     (let f = \<lfloor>q\<rfloor>; r = q - of_int f in
      if r < 1/2 then f else if r > 1/2 then f + 1 else if even f then f else f + 1)"

definition rnd_abs :: "rat \<Rightarrow> rat" where
  "rnd_abs q =
     (let ulp = pow2 (max (exponent q - 52) (- 1074)) in
      of_int (round_half_even (q / ulp)) * ulp)"

definition rnd :: "rat \<Rightarrow> jsnum" where
  "rnd q =
     (if q = 0 then Fin 0
      else let v = rnd_abs \<bar>q\<bar> in
        if v \<ge> 2 ^ 1024 then Infinity (q < 0)
        else Fin (if q < 0 then - v else v))"

lemma round_half_even_of_int [simp]: "round_half_even (of_int n) = n"
  by (simp add: round_half_even_def)

lemma pow2_pos [simp]: "0 < pow2 k"
  by (simp add: pow2_def)

lemma pow2_mono: "a \<le> b \<Longrightarrow> pow2 a \<le> pow2 b"
proof -
  assume ab: "a \<le> b"
  consider "0 \<le> a" | "a < 0" "0 \<le> b" | "b < 0" by linarith
  then show ?thesis
  proof cases
    case 1
    with ab show ?thesis by (simp add: pow2_def power_increasing)
  next
    case 2
    have "(1 :: rat) \<le> 2 ^ nat (- a)" by simp
    then have "1 / 2 ^ nat (- a) \<le> (1 :: rat)" by simp
    also have "\<dots> \<le> 2 ^ nat b" by simp
    finally show ?thesis using 2 by (simp add: pow2_def)
  next
    case 3
    with ab have "(2 :: rat) ^ nat (- b) \<le> 2 ^ nat (- a)" by (intro power_increasing) auto
    with 3 ab show ?thesis by (simp add: pow2_def frac_le)
  qed
qed

lemma quotient_of_nat: "quotient_of (rat_of_int n) = (n, 1)"
  by (simp add: quotient_of_int)

lemma bitlen_53: "0 < n \<Longrightarrow> n \<le> 2 ^ 53 \<Longrightarrow> bitlen n \<le> 54"
proof -
  assume "0 < n" "n \<le> 2 ^ 53"
  then have "bitlen n \<le> bitlen (2 ^ 53)" by (simp add: bitlen_def floorlog_mono)
  also have "\<dots> = bitlen 1 + int 53" using bitlen_pow2 [of 1 53] by simp
  also have "bitlen 1 = 1" by (simp add: bitlen_def floorlog_def)
  finally show ?thesis by simp
qed

lemma exponent_of_int_le:
  assumes "0 < n" "n \<le> 2 ^ 53"
  shows "exponent (rat_of_int n) \<le> 53 \<and> (exponent (rat_of_int n) = 53 \<longrightarrow> n = 2 ^ 53)"
proof -
  have "bitlen n = 54 \<Longrightarrow> n = 2 ^ 53"
    using assms bitlen_ge_iff_power [of 54 n] by simp
  moreover have "bitlen 1 = 1" by (simp add: bitlen_def floorlog_def)
  ultimately show ?thesis using bitlen_53 [OF assms]
    by (auto simp: exponent_def quotient_of_nat Let_def)
qed

lemma rnd_abs_of_int:
  assumes "0 < n" "n \<le> 2 ^ 53"
  shows "rnd_abs (of_int n) = of_int n"
proof (cases "exponent (rat_of_int n) = 53")
  case True
  with exponent_of_int_le [OF assms] have n: "n = 2 ^ 53" by simp
  have "rat_of_int n / 2 = rat_of_int (2 ^ 52)" by (simp add: n)
  then have "round_half_even (rat_of_int n / 2) = 2 ^ 52"
    by (simp only: round_half_even_of_int)
  with True show ?thesis by (simp add: rnd_abs_def pow2_def Let_def n)
next
  case False
  define k where "k = max (exponent (rat_of_int n) - 52) (- 1074)"
  with False exponent_of_int_le [OF assms] have k: "k \<le> 0" by auto
  define m where "m = nat (- k)"
  have ulp: "pow2 k = 1 / 2 ^ m" using k by (auto simp: pow2_def m_def)
  have "rat_of_int n / (1 / 2 ^ m) = rat_of_int (n * 2 ^ m)" by simp
  then have "round_half_even (rat_of_int n / (1 / 2 ^ m)) = n * 2 ^ m"
    by (simp only: round_half_even_of_int)
  then show ?thesis unfolding rnd_abs_def Let_def k_def [symmetric] ulp by simp
qed

lemma rnd_of_int:
  assumes "\<bar>n\<bar> \<le> 2 ^ 53"
  shows "rnd (of_int n) = Fin (of_int n)"
proof (cases "n = 0")
  case True
  then show ?thesis by (simp add: rnd_def)
next
  case False
  have "\<bar>rat_of_int n\<bar> = rat_of_int \<bar>n\<bar>" by simp
  then have r: "rnd_abs \<bar>rat_of_int n\<bar> = rat_of_int \<bar>n\<bar>"
    using False assms rnd_abs_of_int [of "\<bar>n\<bar>"] by simp
  have "rat_of_int \<bar>n\<bar> \<le> rat_of_int (2 ^ 53)" using assms by (simp only: of_int_le_iff)
  also have "\<dots> < 2 ^ 1024" by simp
  finally have "\<not> rat_of_int \<bar>n\<bar> \<ge> 2 ^ 1024" by simp
  with False r show ?thesis by (auto simp: rnd_def Let_def)
qed

section \<open>Arithmetic and comparison\<close>

fun num_add :: "jsnum \<Rightarrow> jsnum \<Rightarrow> jsnum" where
  "num_add (Fin a) (Fin b) = rnd (a + b)"
| "num_add (Infinity s) (Infinity t) = (if s = t then Infinity s else NaN)"
| "num_add (Infinity s) (Fin _) = Infinity s"
| "num_add (Fin _) (Infinity s) = Infinity s"
| "num_add _ _ = NaN"

fun num_mul :: "jsnum \<Rightarrow> jsnum \<Rightarrow> jsnum" where
  "num_mul (Fin a) (Fin b) = rnd (a * b)"
| "num_mul (Infinity s) (Infinity t) = Infinity (s \<noteq> t)"
| "num_mul (Infinity s) (Fin b) = (if b = 0 then NaN else Infinity (s \<noteq> (b < 0)))"
| "num_mul (Fin a) (Infinity s) = (if a = 0 then NaN else Infinity (s \<noteq> (a < 0)))"
| "num_mul _ _ = NaN"

text \<open>Division by a whole number greater than zero, the only divisor the modelled code uses.\<close>

fun num_div_pos :: "jsnum \<Rightarrow> nat \<Rightarrow> jsnum" where
  "num_div_pos (Fin a) n = rnd (a / of_nat n)"
| "num_div_pos (Infinity s) n = Infinity s"
| "num_div_pos NaN n = NaN"

fun num_lt :: "jsnum \<Rightarrow> jsnum \<Rightarrow> bool" where
  "num_lt (Fin a) (Fin b) = (a < b)"
| "num_lt (Infinity s) (Infinity t) = (s \<and> \<not> t)"
| "num_lt (Infinity s) (Fin _) = s"
| "num_lt (Fin _) (Infinity s) = (\<not> s)"
| "num_lt _ _ = False"

definition num_eq :: "jsnum \<Rightarrow> jsnum \<Rightarrow> bool" where
  "num_eq a b \<longleftrightarrow> a \<noteq> NaN \<and> a = b"

definition num_le :: "jsnum \<Rightarrow> jsnum \<Rightarrow> bool" where
  "num_le a b \<longleftrightarrow> num_lt a b \<or> num_eq a b"

fun num_is_integer :: "jsnum \<Rightarrow> bool" where
  "num_is_integer (Fin q) = (of_int \<lfloor>q\<rfloor> = q)"
| "num_is_integer _ = False"

definition num_of_nat :: "nat \<Rightarrow> jsnum" where
  "num_of_nat n = rnd (of_nat n)"

lemma num_of_nat_small: "n \<le> 2 ^ 53 \<Longrightarrow> num_of_nat n = Fin (of_nat n)"
proof -
  assume "n \<le> 2 ^ 53"
  then have "\<bar>int n\<bar> \<le> 2 ^ 53" by simp
  from rnd_of_int [OF this] show ?thesis by (simp add: num_of_nat_def)
qed

section \<open>Decimal literals and printing\<close>

definition decimal_value :: "bool \<Rightarrow> jstr \<Rightarrow> jstr \<Rightarrow> int \<Rightarrow> jsnum" where
  "decimal_value neg int_part fpart ex =
     (let v = of_nat (undec (int_part @ fpart)) * pow10 (ex - int (length fpart)) in
      rnd (if neg then - v else v))"

definition zeros :: "nat \<Rightarrow> jstr" where
  "zeros n = replicate n 48"

text \<open>
  \<open>digits_at x n k\<close>: a \<open>k\<close>-digit numeral \<open>s\<close> with \<open>s * 10^(n-k)\<close> rounding to \<open>x\<close>, the
  nearer one first. \<open>decade\<close> is the \<open>n\<close> with \<open>10^(n-1) \<le> x < 10^n\<close>, searched downwards from
  309, the largest a finite value can have.
\<close>

fun decade :: "nat \<Rightarrow> int \<Rightarrow> rat \<Rightarrow> int" where
  "decade 0 n x = n"
| "decade (Suc m) n x = (if pow10 (n - 1) \<le> x then n else decade m (n - 1) x)"

definition digits_at :: "rat \<Rightarrow> int \<Rightarrow> nat \<Rightarrow> nat option" where
  "digits_at x n k =
     (let t = x / pow10 (n - int k); lo = nat \<lfloor>t\<rfloor>; hi = lo + 1;
          good = (\<lambda>s. rnd (of_nat s * pow10 (n - int k)) = Fin x);
          (a, b) = (if t - of_nat lo < of_nat hi - t \<or> (t - of_nat lo = of_nat hi - t \<and> even lo)
                    then (lo, hi) else (hi, lo)) in
      if good a then Some a else if good b then Some b else None)"

fun shortest :: "nat \<Rightarrow> rat \<Rightarrow> int \<Rightarrow> nat \<Rightarrow> nat \<times> nat" where
  "shortest 0 x n k = (nat \<lfloor>x / pow10 (n - int k)\<rfloor>, k)"
| "shortest (Suc m) x n k =
     (case digits_at x n k of Some s \<Rightarrow> (s, k) | None \<Rightarrow> shortest m x n (Suc k))"

definition exp_suffix :: "int \<Rightarrow> jstr" where
  "exp_suffix e = js ''e'' @ (if e < 0 then js ''-'' else js ''+'') @ dec (nat \<bar>e\<bar>)"

text \<open>The layout of \<open>Number::toString\<close>, for digits \<open>ds\<close> and decimal point position \<open>n\<close>.\<close>

definition layout :: "jstr \<Rightarrow> int \<Rightarrow> jstr" where
  "layout ds n =
     (let k = int (length ds) in
      if k \<le> n \<and> n \<le> 21 then ds @ zeros (nat (n - k))
      else if 0 < n \<and> n \<le> 21 then take (nat n) ds @ js ''.'' @ drop (nat n) ds
      else if - 6 < n \<and> n \<le> 0 then js ''0.'' @ zeros (nat (- n)) @ ds
      else if k = 1 then ds @ exp_suffix (n - 1)
      else take 1 ds @ js ''.'' @ drop 1 ds @ exp_suffix (n - 1))"

definition pos_to_string :: "rat \<Rightarrow> jstr" where
  "pos_to_string x =
     (if of_int \<lfloor>x\<rfloor> = x \<and> x \<le> 2 ^ 53 then dec (nat \<lfloor>x\<rfloor>)
      else let n = decade 640 309 x; (s, k) = shortest 17 x n 1; ds = dec s in
        if length ds > k then layout (js ''1'') (n + 1) else layout ds n)"

fun num_to_string :: "jsnum \<Rightarrow> jstr" where
  "num_to_string NaN = js ''NaN''"
| "num_to_string (Infinity s) = (if s then js ''-Infinity'' else js ''Infinity'')"
| "num_to_string (Fin q) =
     (if q < 0 then js ''-'' @ pos_to_string (- q) else pos_to_string q)"

text \<open>
  \<open>toFixed\<close>: the nearest multiple of \<open>10^-d\<close>, the larger of two equally near ones, with all its
  \<open>d\<close> decimals; from \<open>10^21\<close> on it is the ordinary conversion.
\<close>

definition fixed_digits :: "nat \<Rightarrow> rat \<Rightarrow> jstr" where
  "fixed_digits d q =
     (let ds = dec (nat \<lfloor>q * 10 ^ d + 1 / 2\<rfloor>); ds = zeros (Suc d - length ds) @ ds; k = length ds - d in
      if d = 0 then ds else take k ds @ js ''.'' @ drop k ds)"

fun to_fixed :: "nat \<Rightarrow> jsnum \<Rightarrow> jstr" where
  "to_fixed d (Fin q) =
     (if \<bar>q\<bar> \<ge> 10 ^ 21 then num_to_string (Fin q)
      else if q < 0 then js ''-'' @ fixed_digits d (- q)
      else fixed_digits d q)"
| "to_fixed d x = num_to_string x"

lemma num_to_string_nat: "n \<le> 2 ^ 53 \<Longrightarrow> num_to_string (Fin (of_nat n)) = dec n"
proof -
  assume n: "n \<le> 2 ^ 53"
  then have "rat_of_nat n \<le> rat_of_nat (2 ^ 53)" by (simp only: of_nat_le_iff)
  moreover have "of_int \<lfloor>rat_of_nat n\<rfloor> = rat_of_nat n" by simp
  ultimately show ?thesis by (simp add: pos_to_string_def)
qed

section \<open>The literal 0.7 as a binary64 value\<close>

lemma pow10_mono: "a \<le> b \<Longrightarrow> pow10 a \<le> pow10 b"
proof -
  assume "a \<le> b"
  moreover have "pow10 i = 10 powi i" for i by (simp add: pow10_def power_int_def power_one_over inverse_eq_divide)
  ultimately show ?thesis by (simp add: power_int_increasing)
qed

lemma decade_eq:
  "pow10 (n - 1) \<le> x \<Longrightarrow> x < pow10 n \<Longrightarrow> n \<le> k \<Longrightarrow> nat (k - n) \<le> m \<Longrightarrow> decade m k x = n"
proof (induction m arbitrary: k)
  case 0
  then show ?case by simp
next
  case (Suc m)
  show ?case
  proof (cases "k = n")
    case True
    with Suc show ?thesis by simp
  next
    case False
    from False Suc.prems have "n \<le> k - 1" by simp
    with pow10_mono [of n "k - 1"] Suc.prems have "\<not> pow10 (k - 1) \<le> x" by linarith
    with Suc False show ?thesis by simp
  qed
qed

definition seven_tenths :: rat where "seven_tenths = 6305039478318694 / 2 ^ 53"

lemma quot7: "quotient_of (7/10) = (7, 10)"
proof -
  have "(7/10 :: rat) = Fract 7 10" by (simp add: Fract_of_int_quotient)
  then have "quotient_of (7/10) = quotient_of (Fract 7 10)" by (rule arg_cong)
  moreover have "gcd 7 10 = (1::int)" by (simp add: gcd_non_0_int)
  ultimately show ?thesis by (simp add: quotient_of_Fract Rat.normalize_def Let_def)
qed

lemma exp7: "exponent (7/10) = -1"
proof -
  have "bitlen 7 = 3" "bitlen 10 = 4" by (simp_all add: bitlen_def compute_floorlog)
  then show ?thesis
  by (simp add: exponent_def quot7 pow2_def)
qed

lemma floor7: "round_half_even (7 * 2 ^ 53 / 10) = 6305039478318694"
proof -
  have "\<lfloor>7 * 2 ^ 53 / 10 :: rat\<rfloor> = 6305039478318694" by (simp add: floor_eq_iff)
  then show ?thesis by (simp add: round_half_even_def)
qed

lemma rnd7: "rnd (7/10) = Fin seven_tenths"
proof -
  have u: "pow2 (max (exponent (7/10) - 52) (- 1074)) = 1 / 2 ^ 53" unfolding exp7 by (simp add: pow2_def)
  have "(7/10) / (1 / 2 ^ 53) = (7 * 2 ^ 53 / 10 :: rat)" by simp
  then have "rnd_abs (7/10) = seven_tenths" unfolding rnd_abs_def Let_def u seven_tenths_def
    using floor7 by simp
  then show ?thesis by (simp add: rnd_def seven_tenths_def)
qed

lemma seven_tenths_string: "num_to_string (Fin seven_tenths) = js ''0.7''"
proof -
  have "decade 640 309 seven_tenths = 0"
    by (rule decade_eq) (simp_all add: pow10_def seven_tenths_def)
  moreover have "shortest 17 seven_tenths 0 1 = (7, 1)"
  proof -
    have f: "\<lfloor>seven_tenths / pow10 (- 1)\<rfloor> = 6" by (simp add: floor_eq_iff seven_tenths_def pow10_def)
    have "digits_at seven_tenths 0 1 = Some 7"
      using rnd7 f by (simp add: digits_at_def Let_def) (simp add: seven_tenths_def pow10_def)
    moreover have "(17::nat) = Suc 16" by simp
    ultimately show ?thesis by (simp only: shortest.simps) simp
  qed
  moreover have "\<lfloor>seven_tenths\<rfloor> = 0" by (simp add: floor_eq_iff seven_tenths_def)
  ultimately show ?thesis
    by (simp add: pos_to_string_def layout_def dec.simps js_def zeros_def) (simp add: seven_tenths_def)
qed

section \<open>What a printed number consists of\<close>

lemma string_number_units: "c \<in> set (num_to_string (Fin q)) \<Longrightarrow> is_digit c \<or> c \<in> {43, 45, 46, 101}"
proof -
  have d: "c \<in> set (dec n) \<Longrightarrow> is_digit c" for n by (rule dec_digits)
  have z: "c \<in> set (zeros n) \<Longrightarrow> is_digit c" for n by (auto simp: zeros_def is_digit_def)
  have e: "c \<in> set (exp_suffix n) \<Longrightarrow> is_digit c \<or> c \<in> {43, 45, 101}" for n
    using d by (auto simp: exp_suffix_def js_def split: if_splits)
  have l: "c \<in> set (layout ds n) \<Longrightarrow> \<forall>x\<in>set ds. is_digit x \<Longrightarrow> is_digit c \<or> c \<in> {43, 45, 46, 101}" for ds n
    using z e by (auto simp: layout_def Let_def js_def is_digit_def split: if_splits dest!: in_set_takeD in_set_dropD)
  have one: "\<forall>x\<in>set (js ''1''). is_digit x" by (simp add: js_def is_digit_def)
  have p: "c \<in> set (pos_to_string x) \<Longrightarrow> is_digit c \<or> c \<in> {43, 45, 46, 101}" for x
    using d l one dec_digits by (auto simp: pos_to_string_def Let_def split: if_splits prod.splits)
  assume "c \<in> set (num_to_string (Fin q))"
  then show ?thesis using p by (auto simp: js_def split: if_splits)
qed

end
