(* ===== verification/JsValue.thy ===== *)
theory JsValue
  imports JsNumber
begin

text \<open>
  JavaScript values as the program sees them after \<open>JSON.parse\<close>, and \<open>JSON\<close> itself.

  An object is the list of its own properties in enumeration order: keys that are array
  indices first, in ascending order, then the others in the order they were created
  (\<open>obj_wf\<close>). \<open>obj_set\<close> is assignment to a property and keeps that order; \<open>obj_delete\<close> is
  \<open>delete\<close>. \<open>get_prop k v\<close> reads a property of a value that is neither \<open>null\<close> nor \<open>undefined\<close>;
  where the code may read a property of those it throws, and the models say so.

  \<open>json_parse\<close> is \<open>JSON.parse\<close>, a recursive-descent parser; \<open>None\<close> is the \<open>SyntaxError\<close>.
  Its fuel is twice the length of the text plus two; \<open>fuel_enough\<close> shows that more fuel never
  changes a result, so running out of fuel is never the reason for a \<open>None\<close>.
  \<open>json_stringify\<close> is \<open>JSON.stringify\<close>, and \<open>json_roundtrip\<close> shows that a printed value
  parses to itself.
\<close>

datatype jsval =
    JUndef
  | JNull
  | JBool bool
  | JNum jsnum
  | JStr jstr
  | JArr "jsval list"
  | JObj "(jstr \<times> jsval) list"

section \<open>Kinds, truth and conversion to string\<close>

fun truthy :: "jsval \<Rightarrow> bool" where
  "truthy JUndef = False"
| "truthy JNull = False"
| "truthy (JBool b) = b"
| "truthy (JNum x) = (x \<noteq> NaN \<and> x \<noteq> Fin 0)"
| "truthy (JStr s) = (s \<noteq> [])"
| "truthy (JArr _) = True"
| "truthy (JObj _) = True"

text \<open>\<open>typeof v === 'object'\<close> also holds for \<open>null\<close> and for arrays.\<close>

fun is_object :: "jsval \<Rightarrow> bool" where
  "is_object JNull = True"
| "is_object (JArr _) = True"
| "is_object (JObj _) = True"
| "is_object _ = False"

fun is_array :: "jsval \<Rightarrow> bool" where
  "is_array (JArr _) = True"
| "is_array _ = False"

fun is_string :: "jsval \<Rightarrow> bool" where
  "is_string (JStr _) = True"
| "is_string _ = False"

fun is_nullish :: "jsval \<Rightarrow> bool" where
  "is_nullish JUndef = True"
| "is_nullish JNull = True"
| "is_nullish _ = False"

fun to_str :: "jsval \<Rightarrow> jstr" where
  "to_str JUndef = js ''undefined''"
| "to_str JNull = js ''null''"
| "to_str (JBool b) = (if b then js ''true'' else js ''false'')"
| "to_str (JNum x) = num_to_string x"
| "to_str (JStr s) = s"
| "to_str (JArr vs) = join (js '','') (map (\<lambda>v. if is_nullish v then [] else to_str v) vs)"
| "to_str (JObj _) = js ''[object Object]''"

definition js_or :: "jsval \<Rightarrow> jsval \<Rightarrow> jsval" where
  "js_or a b = (if truthy a then a else b)"

section \<open>Objects\<close>

definition is_index_key :: "jstr \<Rightarrow> bool" where
  "is_index_key k \<longleftrightarrow> k \<noteq> [] \<and> list_all is_digit k \<and> (hd k = 48 \<longrightarrow> length k = 1) \<and> undec k < 4294967295"

definition key_before :: "jstr \<Rightarrow> jstr \<Rightarrow> bool" where
  "key_before a b \<longleftrightarrow> (is_index_key b \<longrightarrow> is_index_key a \<and> undec a < undec b)"

definition obj_wf :: "(jstr \<times> 'v) list \<Rightarrow> bool" where
  "obj_wf ps \<longleftrightarrow> distinct (map fst ps) \<and> sorted_wrt (\<lambda>a b. key_before (fst a) (fst b)) ps"

definition obj_get :: "jstr \<Rightarrow> (jstr \<times> jsval) list \<Rightarrow> jsval" where
  "obj_get k ps = (case map_of ps k of None \<Rightarrow> JUndef | Some v \<Rightarrow> v)"

fun obj_insert :: "jstr \<Rightarrow> 'v \<Rightarrow> (jstr \<times> 'v) list \<Rightarrow> (jstr \<times> 'v) list" where
  "obj_insert k v [] = [(k, v)]"
| "obj_insert k v (p # ps) =
     (if key_before (fst p) k then p # obj_insert k v ps else (k, v) # p # ps)"

definition obj_set :: "jstr \<Rightarrow> 'v \<Rightarrow> (jstr \<times> 'v) list \<Rightarrow> (jstr \<times> 'v) list" where
  "obj_set k v ps = (if k \<in> fst ` set ps then AList.update k v ps else obj_insert k v ps)"

definition obj_delete :: "jstr \<Rightarrow> (jstr \<times> 'v) list \<Rightarrow> (jstr \<times> 'v) list" where
  "obj_delete k ps = filter (\<lambda>p. fst p \<noteq> k) ps"

definition obj_has :: "jstr \<Rightarrow> (jstr \<times> 'v) list \<Rightarrow> bool" where
  "obj_has k ps \<longleftrightarrow> k \<in> fst ` set ps"

fun get_prop :: "jstr \<Rightarrow> jsval \<Rightarrow> jsval" where
  "get_prop k (JObj ps) = obj_get k ps"
| "get_prop k (JArr vs) =
     (if is_index_key k \<and> undec k < length vs then vs ! undec k
      else if k = js ''length'' then JNum (num_of_nat (length vs)) else JUndef)"
| "get_prop k (JStr s) =
     (if is_index_key k \<and> undec k < length s then JStr [s ! undec k]
      else if k = js ''length'' then JNum (num_of_nat (length s)) else JUndef)"
| "get_prop k _ = JUndef"

text \<open>\<open>Object.entries\<close>: of an array the elements under their indices, of a string its units.\<close>

fun entries :: "jsval \<Rightarrow> (jstr \<times> jsval) list" where
  "entries (JObj ps) = ps"
| "entries (JArr vs) = zip (map dec [0..<length vs]) vs"
| "entries (JStr s) = zip (map dec [0..<length s]) (map (\<lambda>c. JStr [c]) s)"
| "entries _ = []"

lemma fst_set_AList_update: "k \<in> fst ` set ps \<Longrightarrow> map fst (AList.update k v ps) = map fst ps"
  by (induction ps) auto

lemma map_of_obj_insert: "k \<notin> fst ` set ps \<Longrightarrow> map_of (obj_insert k v ps) = (map_of ps)(k \<mapsto> v)"
  by (induction ps) (auto simp: fun_eq_iff)

lemma map_of_obj_set [simp]: "map_of (obj_set k v ps) = (map_of ps)(k \<mapsto> v)"
  by (simp add: obj_set_def map_of_obj_insert)

lemma obj_get_set [simp]: "obj_get k (obj_set k' v ps) = (if k = k' then v else obj_get k ps)"
  by (simp add: obj_get_def)

lemma obj_get_delete [simp]: "obj_get k (obj_delete k' ps) = (if k = k' then JUndef else obj_get k ps)"
  by (induction ps) (auto simp: obj_get_def obj_delete_def)

lemma keys_obj_set [simp]: "fst ` set (obj_set k v ps) = insert k (fst ` set ps)"
proof -
  have "dom (map_of (obj_set k v ps)) = insert k (dom (map_of ps))" by simp
  then show ?thesis by (simp only: dom_map_of_conv_image_fst)
qed

lemma obj_has_set [simp]: "obj_has k (obj_set k' v ps) \<longleftrightarrow> k = k' \<or> obj_has k ps"
  by (simp add: obj_has_def del: keys_obj_set) (use keys_obj_set in \<open>auto\<close>)

lemma obj_has_delete [simp]: "obj_has k (obj_delete k' ps) \<longleftrightarrow> k \<noteq> k' \<and> obj_has k ps"
  by (auto simp: obj_has_def obj_delete_def)

lemma obj_has_get: "\<not> obj_has k ps \<Longrightarrow> obj_get k ps = JUndef"
proof -
  assume "\<not> obj_has k ps"
  then have "map_of ps k = None" by (simp add: obj_has_def map_of_eq_None_iff)
  then show ?thesis by (simp add: obj_get_def)
qed

text \<open>Building an object property by property gives back a well-formed property list.\<close>

lemma obj_insert_all_before: "\<forall>p\<in>set ps. key_before (fst p) k \<Longrightarrow> obj_insert k v ps = ps @ [(k, v)]"
  by (induction ps) auto

lemma obj_set_snoc: "obj_wf (ps @ [(k, v)]) \<Longrightarrow> obj_set k v ps = ps @ [(k, v)]"
  by (auto simp: obj_wf_def sorted_wrt_append obj_set_def obj_insert_all_before)

lemma obj_set_append: "\<not> is_index_key k \<Longrightarrow> \<not> obj_has k ps \<Longrightarrow> obj_set k v ps = ps @ [(k, v)]"
  by (auto simp: obj_has_def obj_set_def key_before_def intro!: obj_insert_all_before)

lemma foldl_obj_set_wf:
  "obj_wf (acc @ ps) \<Longrightarrow> foldl (\<lambda>m p. obj_set (fst p) (snd p) m) acc ps = acc @ ps"
proof (induction ps arbitrary: acc)
  case Nil
  show ?case by simp
next
  case (Cons p ps)
  have "obj_wf (acc @ [p])" using Cons.prems
    by (auto simp: obj_wf_def sorted_wrt_append)
  then have "obj_set (fst p) (snd p) acc = acc @ [p]"
    using obj_set_snoc [of acc "fst p" "snd p"] by simp
  with Cons show ?case by simp
qed

lemma obj_wf_delete: "obj_wf ps \<Longrightarrow> obj_wf (obj_delete k ps)"
  by (auto simp: obj_wf_def obj_delete_def distinct_map inj_on_def intro: sorted_wrt_filter)

lemma obj_wf_update: "obj_wf ps \<Longrightarrow> k \<in> fst ` set ps \<Longrightarrow> obj_wf (AList.update k v ps)"
  by (auto simp: obj_wf_def distinct_update fst_set_AList_update
      simp flip: sorted_wrt_map [where f = fst])

text \<open>An index key is the canonical numeral of its value, so distinct index keys have distinct values.\<close>

lemma dec_undec_digits:
  "list_all is_digit s \<Longrightarrow> s \<noteq> [] \<Longrightarrow> (hd s = 48 \<longrightarrow> length s = 1) \<Longrightarrow> dec (undec s) = s"
proof (induction s rule: rev_induct)
  case Nil
  then show ?case by simp
next
  case (snoc d s)
  have d: "48 \<le> d" "d \<le> 57" using snoc.prems(1) by (auto simp: is_digit_def)
  show ?case
  proof (cases "s = []")
    case True
    with d show ?thesis by (simp add: undec_def dec.simps)
  next
    case False
    with snoc.prems have "hd s \<noteq> 48" by auto
    with snoc False have ih: "dec (undec s) = s" by auto
    have "undec s \<noteq> 0"
    proof
      assume "undec s = 0"
      with ih have "s = [48]" by (simp add: dec.simps)
      with \<open>hd s \<noteq> 48\<close> show False by simp
    qed
    then have step: "dec (undec (s @ [d])) = dec ((10 * undec s + (d - 48)) div 10) @ [48 + (10 * undec s + (d - 48)) mod 10]"
      using d by (subst dec.simps) auto
    define e where "e = d - 48"
    then have "d = 48 + e" "e < 10" using d by auto
    then have "(10 * undec s + (d - 48)) div 10 = undec s" "(10 * undec s + (d - 48)) mod 10 = d - 48"
      by auto
    with step ih d show ?thesis by simp
  qed
qed

lemma index_key_inject: "is_index_key a \<Longrightarrow> is_index_key b \<Longrightarrow> undec a = undec b \<Longrightarrow> a = b"
  by (metis dec_undec_digits is_index_key_def)

lemma set_obj_insert: "set (obj_insert k v ps) = insert (k, v) (set ps)"
  by (induction ps) auto

lemma obj_wf_insert: "obj_wf ps \<Longrightarrow> k \<notin> fst ` set ps \<Longrightarrow> obj_wf (obj_insert k v ps)"
proof (induction ps)
  case Nil
  show ?case by (simp add: obj_wf_def)
next
  case (Cons p ps)
  have tail: "obj_wf ps" "\<forall>q\<in>set ps. key_before (fst p) (fst q)" "fst p \<notin> fst ` set ps"
    using Cons.prems(1) by (auto simp: obj_wf_def)
  show ?case
  proof (cases "key_before (fst p) k")
    case True
    with Cons tail show ?thesis
      by (auto simp: obj_wf_def set_obj_insert image_iff)
  next
    case False
    then have k: "is_index_key k" "is_index_key (fst p) \<Longrightarrow> undec k \<le> undec (fst p)"
      by (auto simp: key_before_def)
    have "key_before k (fst q)" if "q = p \<or> q \<in> set ps" for q
    proof -
      have "is_index_key (fst q) \<Longrightarrow> is_index_key (fst p) \<and> undec (fst p) \<le> undec (fst q)"
        using that tail(2) by (auto simp: key_before_def dest!: bspec)
      moreover have "fst q \<noteq> k" using that Cons.prems(2) by auto
      ultimately show ?thesis using k index_key_inject [of k "fst q"]
        unfolding key_before_def by (metis le_trans nat_less_le)
    qed
    with False Cons.prems show ?thesis by (auto simp: obj_wf_def image_iff)
  qed
qed

lemma obj_wf_set: "obj_wf ps \<Longrightarrow> obj_wf (obj_set k v ps)"
  by (simp add: obj_set_def obj_wf_update obj_wf_insert)

lemma set_obj_set: "set (obj_set k v ps) \<subseteq> insert (k, v) (set ps)"
  using set_map_set [of k v ps] by (auto simp: obj_set_def set_obj_insert)

text \<open>\<open>{ ...base, ...v }\<close>: the own enumerable properties of \<open>v\<close> are assigned one after the other.\<close>

definition spread :: "(jstr \<times> jsval) list \<Rightarrow> jsval \<Rightarrow> (jstr \<times> jsval) list" where
  "spread base v = foldl (\<lambda>m p. obj_set (fst p) (snd p) m) base (entries v)"

lemma spread_wf: "obj_wf base \<Longrightarrow> obj_wf (spread base v)"
proof -
  have "obj_wf b \<Longrightarrow> obj_wf (foldl (\<lambda>m p. obj_set (fst p) (snd p) m) b ps)" for b ps
    by (induction ps arbitrary: b) (simp_all add: obj_wf_set)
  then show "obj_wf base \<Longrightarrow> ?thesis" by (simp add: spread_def)
qed

lemma map_of_fold_assign:
  "distinct (map fst ps) \<Longrightarrow> map_of (foldl (\<lambda>m p. obj_set (fst p) (snd p) m) b ps) = map_of b ++ map_of ps"
proof (induction ps arbitrary: b)
  case (Cons p ps)
  have "map_of ps (fst p) = None" using Cons.prems by (simp add: map_of_eq_None_iff)
  with Cons show ?case by (auto simp: fun_eq_iff map_add_def split: option.splits)
qed simp

lemma map_of_spread: "obj_wf ps \<Longrightarrow> map_of (spread base (JObj ps)) = map_of base ++ map_of ps"
  by (simp add: spread_def obj_wf_def map_of_fold_assign)

lemma spread_id: "obj_wf ps \<Longrightarrow> spread [] (JObj ps) = ps"
  using foldl_obj_set_wf [of "[]" ps] by (simp add: spread_def)

text \<open>\<open>own k v\<close> is the own property \<open>k\<close> of \<open>v\<close>, what spreading \<open>v\<close> copies under that name.\<close>

definition own :: "jstr \<Rightarrow> jsval \<Rightarrow> jsval" where
  "own k v = obj_get k (entries v)"

lemma own_object [simp]: "own k (JObj ps) = obj_get k ps"
  by (simp add: own_def)

lemma obj_has_map_of: "obj_has k ps \<longleftrightarrow> map_of ps k \<noteq> None"
  by (simp add: obj_has_def map_of_eq_None_iff)

lemma obj_get_spread:
  assumes "distinct (map fst (entries v))"
  shows "obj_get k (spread base v) = (if obj_has k (entries v) then own k v else obj_get k base)"
  unfolding spread_def own_def obj_get_def map_of_fold_assign [OF assms]
  by (cases "map_of (entries v) k") (simp_all add: obj_has_map_of map_add_def)

text \<open>A value as a program can hold it: every object in it is a list of different keys in order.\<close>

fun value_wf :: "jsval \<Rightarrow> bool" where
  "value_wf (JArr vs) = (\<forall>v\<in>set vs. value_wf v)"
| "value_wf (JObj ps) = (obj_wf ps \<and> (\<forall>p\<in>set ps. value_wf (snd p)))"
| "value_wf _ = True"

lemma entries_distinct: "value_wf v \<Longrightarrow> distinct (map fst (entries v))"
  by (cases v) (simp_all add: obj_wf_def distinct_map inj_on_def map_fst_zip)

lemma value_wf_get: "value_wf v \<Longrightarrow> value_wf (get_prop k v)"
proof (cases v)
  case (JObj ps)
  moreover assume "value_wf v"
  ultimately show ?thesis by (cases "map_of ps k") (auto simp: obj_get_def dest!: map_of_SomeD)
qed auto

lemma obj_set_same: "obj_wf ps \<Longrightarrow> obj_has k ps \<Longrightarrow> obj_get k ps = v \<Longrightarrow> obj_set k v ps = ps"
proof -
  have "AList.update k v ps = ps" if "distinct (map fst ps)" "map_of ps k = Some v"
    using that by (induction ps) (auto split: if_splits)
  moreover assume "obj_wf ps" "obj_has k ps" "obj_get k ps = v"
  ultimately show ?thesis by (auto simp: obj_set_def obj_has_map_of obj_get_def obj_wf_def image_iff
        dest: map_of_SomeD split: option.splits)
qed

section \<open>Printing JSON\<close>

definition hexd :: "nat \<Rightarrow> nat" where
  "hexd n = (if n < 10 then 48 + n else 87 + n)"

definition u_escape :: "nat \<Rightarrow> jstr" where
  "u_escape c = [92, 117, hexd (c div 4096 mod 16), hexd (c div 256 mod 16), hexd (c div 16 mod 16), hexd (c mod 16)]"

definition esc_unit :: "nat \<Rightarrow> jstr" where
  "esc_unit c =
     (if c = 34 then [92, 34] else if c = 92 then [92, 92]
      else if c = 8 then [92, 98] else if c = 12 then [92, 102]
      else if c = 10 then [92, 110] else if c = 13 then [92, 114]
      else if c = 9 then [92, 116] else if c < 32 then u_escape c else [c])"

definition high_surrogate :: "nat \<Rightarrow> bool" where
  "high_surrogate c \<longleftrightarrow> 0xD800 \<le> c \<and> c \<le> 0xDBFF"

definition low_surrogate :: "nat \<Rightarrow> bool" where
  "low_surrogate c \<longleftrightarrow> 0xDC00 \<le> c \<and> c \<le> 0xDFFF"

text \<open>A surrogate pair is printed as it is, a lone surrogate as a \<open>\u\<close> escape.\<close>

fun esc :: "jstr \<Rightarrow> jstr" where
  "esc [] = []"
| "esc [c] = (if high_surrogate c \<or> low_surrogate c then u_escape c else esc_unit c)"
| "esc (c # d # s) =
     (if high_surrogate c \<and> low_surrogate d then c # d # esc s
      else (if high_surrogate c \<or> low_surrogate c then u_escape c else esc_unit c) @ esc (d # s))"

definition json_quote :: "jstr \<Rightarrow> jstr" where
  "json_quote s = 34 # esc s @ [34]"

fun ser :: "jsval \<Rightarrow> jstr" where
  "ser JUndef = js ''null''"
| "ser JNull = js ''null''"
| "ser (JBool b) = (if b then js ''true'' else js ''false'')"
| "ser (JNum x) = (case x of Fin _ \<Rightarrow> num_to_string x | _ \<Rightarrow> js ''null'')"
| "ser (JStr s) = json_quote s"
| "ser (JArr vs) = 91 # join [44] (map ser vs) @ [93]"
| "ser (JObj ps) =
     123 # join [44] (map (\<lambda>(k, u, t). json_quote k @ 58 # t)
       (filter (\<lambda>(k, u, t). \<not> u) (map (\<lambda>(k, v). (k, v = JUndef, ser v)) ps))) @ [125]"

definition json_stringify :: "jsval \<Rightarrow> jstr option" where
  "json_stringify v = (if v = JUndef then None else Some (ser v))"

section \<open>Parsing JSON\<close>

definition is_json_ws :: "nat \<Rightarrow> bool" where
  "is_json_ws c \<longleftrightarrow> c = 32 \<or> c = 9 \<or> c = 10 \<or> c = 13"

definition skip_ws :: "jstr \<Rightarrow> jstr" where
  "skip_ws s = dropWhile is_json_ws s"

definition hexval :: "nat \<Rightarrow> nat option" where
  "hexval c =
     (if is_digit c then Some (c - 48)
      else if 97 \<le> c \<and> c \<le> 102 then Some (c - 87)
      else if 65 \<le> c \<and> c \<le> 70 then Some (c - 55) else None)"

definition hex4 :: "jstr \<Rightarrow> (nat \<times> jstr) option" where
  "hex4 s =
     (case s of
        a # b # c # d # t \<Rightarrow>
          (case (hexval a, hexval b, hexval c, hexval d) of
             (Some x, Some y, Some z, Some w) \<Rightarrow> Some (((x * 16 + y) * 16 + z) * 16 + w, t)
           | _ \<Rightarrow> None)
      | _ \<Rightarrow> None)"

definition simple_escape :: "nat \<Rightarrow> nat option" where
  "simple_escape e =
     (if e = 34 \<or> e = 92 \<or> e = 47 then Some e
      else if e = 98 then Some 8 else if e = 102 then Some 12 else if e = 110 then Some 10
      else if e = 114 then Some 13 else if e = 116 then Some 9 else None)"

lemma hex4_shorter: "hex4 s = Some (n, t) \<Longrightarrow> length t < length s"
  by (auto simp: hex4_def split: list.splits option.splits)

text \<open>The body of a string literal, after its opening quote.\<close>

function pstr :: "jstr \<Rightarrow> (jstr \<times> jstr) option" where
  "pstr [] = None"
| "pstr (c # s) =
     (if c = 34 then Some ([], s)
      else if c = 92 then
        (case s of
           [] \<Rightarrow> None
         | e # s' \<Rightarrow>
             if e = 117 then
               (case hex4 s' of
                  None \<Rightarrow> None
                | Some (n, t) \<Rightarrow> map_option (apfst ((#) n)) (pstr t))
             else
               (case simple_escape e of
                  None \<Rightarrow> None
                | Some n \<Rightarrow> map_option (apfst ((#) n)) (pstr s')))
      else if c < 32 then None
      else map_option (apfst ((#) c)) (pstr s))"
  by pat_completeness auto
termination
  by (relation "measure length") (auto dest!: hex4_shorter)

definition exp_part :: "jstr \<Rightarrow> (int \<times> jstr) option" where
  "exp_part s =
     (case s of
        c # t \<Rightarrow>
          if c = 101 \<or> c = 69 then
            let (neg, u) = (case t of d # w \<Rightarrow> if d = 45 then (True, w) else if d = 43 then (False, w) else (False, t)
                                    | [] \<Rightarrow> (False, t));
                ds = takeWhile is_digit u in
            if ds = [] then None
            else Some (if neg then - int (undec ds) else int (undec ds), dropWhile is_digit u)
          else Some (0, s)
      | [] \<Rightarrow> Some (0, s))"

definition frac_part :: "jstr \<Rightarrow> (jstr \<times> jstr) option" where
  "frac_part s =
     (case s of
        c # t \<Rightarrow>
          if c = 46 then
            (if takeWhile is_digit t = [] then None else Some (takeWhile is_digit t, dropWhile is_digit t))
          else Some ([], s)
      | [] \<Rightarrow> Some ([], s))"

definition int_part :: "jstr \<Rightarrow> (jstr \<times> jstr) option" where
  "int_part s =
     (case s of
        c # t \<Rightarrow>
          if c = 48 then Some ([48], t)
          else if is_digit c then Some (takeWhile is_digit s, dropWhile is_digit s)
          else None
      | [] \<Rightarrow> None)"

definition pnum :: "jstr \<Rightarrow> (jsnum \<times> jstr) option" where
  "pnum s =
     (let (neg, s1) = (case s of c # t \<Rightarrow> if c = 45 then (True, t) else (False, s) | [] \<Rightarrow> (False, s)) in
      Option.bind (int_part s1) (\<lambda>(ip, s2).
      Option.bind (frac_part s2) (\<lambda>(fp, s3).
      Option.bind (exp_part s3) (\<lambda>(ex, s4).
      Some (decimal_value neg ip fp ex, s4)))))"

fun pval :: "nat \<Rightarrow> jstr \<Rightarrow> (jsval \<times> jstr) option"
  and pelems :: "nat \<Rightarrow> jstr \<Rightarrow> (jsval list \<times> jstr) option"
  and pmembers :: "nat \<Rightarrow> (jstr \<times> jsval) list \<Rightarrow> jstr \<Rightarrow> ((jstr \<times> jsval) list \<times> jstr) option" where
  "pval 0 s = None"
| "pval (Suc n) s =
     (case skip_ws s of
        [] \<Rightarrow> None
      | c # r \<Rightarrow>
          if c = 123 then
            (if prefix [125] (skip_ws r) then Some (JObj [], tl (skip_ws r))
             else map_option (apfst JObj) (pmembers n [] r))
          else if c = 91 then
            (if prefix [93] (skip_ws r) then Some (JArr [], tl (skip_ws r))
             else map_option (apfst JArr) (pelems n r))
          else if c = 34 then map_option (apfst JStr) (pstr r)
          else if prefix (js ''true'') (c # r) then Some (JBool True, drop 4 (c # r))
          else if prefix (js ''false'') (c # r) then Some (JBool False, drop 5 (c # r))
          else if prefix (js ''null'') (c # r) then Some (JNull, drop 4 (c # r))
          else map_option (apfst JNum) (pnum (c # r)))"
| "pelems 0 s = None"
| "pelems (Suc n) s =
     (case pval n s of
        None \<Rightarrow> None
      | Some (v, t) \<Rightarrow>
          (case skip_ws t of
             [] \<Rightarrow> None
           | c # r \<Rightarrow>
               if c = 44 then map_option (apfst ((#) v)) (pelems n r)
               else if c = 93 then Some ([v], r) else None))"
| "pmembers 0 acc s = None"
| "pmembers (Suc n) acc s =
     (case skip_ws s of
        [] \<Rightarrow> None
      | c # r \<Rightarrow>
          if c \<noteq> 34 then None
          else (case pstr r of
             None \<Rightarrow> None
           | Some (k, t) \<Rightarrow>
               (case skip_ws t of
                  [] \<Rightarrow> None
                | c2 # r2 \<Rightarrow>
                    if c2 \<noteq> 58 then None
                    else (case pval n r2 of
                       None \<Rightarrow> None
                     | Some (v, t2) \<Rightarrow>
                         (case skip_ws t2 of
                            [] \<Rightarrow> None
                          | c3 # r3 \<Rightarrow>
                              if c3 = 44 then pmembers n (obj_set k v acc) r3
                              else if c3 = 125 then Some (obj_set k v acc, r3) else None)))))"

definition json_parse :: "jstr \<Rightarrow> jsval option" where
  "json_parse s =
     (case pval (2 * length s + 2) s of
        Some (v, r) \<Rightarrow> if skip_ws r = [] then Some v else None
      | None \<Rightarrow> None)"

lemma json_parse_not_undef: "json_parse s \<noteq> Some JUndef"
proof -
  have "pval n s \<noteq> Some (JUndef, r)" for n r
    by (cases n) (auto split: list.split)
  then show ?thesis
    by (auto simp: json_parse_def simp del: pval.simps split: option.splits prod.splits if_splits)
qed

text \<open>What the parser returns is well formed throughout; it refuses a blank text.\<close>

fun json_wf :: "jsval \<Rightarrow> bool" where
  "json_wf JUndef = False"
| "json_wf (JArr vs) = (\<forall>v\<in>set vs. json_wf v)"
| "json_wf (JObj ps) = (obj_wf ps \<and> (\<forall>p\<in>set ps. json_wf (snd p)))"
| "json_wf _ = True"

lemma json_value_wf: "json_wf v \<Longrightarrow> value_wf v"
  by (induction v) (auto elim!: snds.cases)

lemma json_wf_set: "json_wf (JObj ps) \<Longrightarrow> json_wf v \<Longrightarrow> json_wf (JObj (obj_set k v ps))"
  using set_obj_set [of k v ps] by (auto simp: obj_wf_set)

lemma parsed_wf:
  "pval n s = Some (v, r) \<Longrightarrow> json_wf v"
  "pelems n s = Some (vs, r) \<Longrightarrow> json_wf (JArr vs)"
  "json_wf (JObj acc) \<Longrightarrow> pmembers n acc s = Some (ps, r) \<Longrightarrow> json_wf (JObj ps)"
proof (induction n s and n s and n acc s arbitrary: v r and vs r and ps r
    rule: pval_pelems_pmembers.induct)
  case (2 n s)
  have "json_wf (JObj [])" by (simp add: obj_wf_def)
  with 2 show ?case by (fastforce simp del: pelems.simps pmembers.simps split: list.splits if_splits)
next
  case (4 n s)
  then show ?case by (fastforce simp del: pval.simps split: list.splits if_splits option.splits prod.splits)
next
  case (6 n acc s)
  obtain x where x: "skip_ws s = 34 # x" using 6(4) by (auto simp del: pval.simps split: list.splits if_splits)
  obtain k t where k: "pstr x = Some (k, t)" using 6(4) x by (auto simp del: pval.simps split: list.splits if_splits option.splits)
  obtain y where y: "skip_ws t = 58 # y" using 6(4) x k by (auto simp del: pval.simps split: list.splits if_splits option.splits)
  obtain w t2 where w: "pval n y = Some (w, t2)" using 6(4) x k y by (auto simp del: pval.simps split: list.splits if_splits option.splits)
  have "json_wf w" using 6(1) x k y w by simp
  then have set: "json_wf (JObj (obj_set k w acc))" using 6(3) by (rule json_wf_set [rotated])
  obtain c z where z: "skip_ws t2 = c # z" using 6(4) x k y w by (auto simp del: pval.simps split: list.splits if_splits option.splits)
  show ?case
  proof (cases "c = 44")
    case True
    with 6(4) x k y w z have p: "pmembers n (obj_set k w acc) z = Some (ps, r)" by (simp del: pval.simps)
    show ?thesis by (rule 6(2) [OF x _ k refl y _ w refl z True set p]) simp_all
  next
    case False
    with 6(4) x k y w z set show ?thesis by (auto simp del: pval.simps json_wf.simps split: if_splits)
  qed
qed (simp_all)

lemma json_parse_wf: "json_parse s = Some v \<Longrightarrow> json_wf v"
  by (auto simp: json_parse_def simp del: pval.simps json_wf.simps dest: parsed_wf(1) split: option.splits prod.splits if_splits)

lemma json_parse_blank: "trim t = [] \<Longrightarrow> json_parse t = None"
proof -
  assume "trim t = []"
  then have ws: "\<forall>c\<in>set t. is_ws c" by (simp add: trim_eq_Nil)
  show ?thesis
  proof (cases "skip_ws t")
    case Nil
    then show ?thesis by (simp add: json_parse_def)
  next
    case (Cons c r)
    then have "c \<in> set t" by (metis skip_ws_def list.set_intros(1) set_dropWhileD)
    with ws have "is_ws c" by blast
    then have "c \<notin> {123, 91, 34, 45, 48}" "\<not> is_digit c" "c \<noteq> 116" "c \<noteq> 102" "c \<noteq> 110"
      by (auto simp: is_ws_def is_digit_def)
    then have "pval (Suc n) t = None" for n
      by (simp add: Cons js_def pnum_def int_part_def)
    then show ?thesis by (simp add: json_parse_def del: pval.simps)
  qed
qed

subsection \<open>The parser consumes its input, and its fuel is enough\<close>

lemma skip_ws_le: "length (skip_ws s) \<le> length s"
  by (simp add: skip_ws_def length_dropWhile_le)

lemma skip_ws_Cons: "skip_ws s = c # r \<Longrightarrow> length r < length s"
  using skip_ws_le [of s] by simp

lemma pstr_shorter: "pstr s = Some (k, t) \<Longrightarrow> length t < length s"
proof (induction s arbitrary: k t rule: pstr.induct)
  case 1
  then show ?case by simp
next
  case (2 c s)
  then show ?case
    by (force split: if_splits list.splits option.splits prod.splits dest!: hex4_shorter)
qed

lemma int_part_le: "int_part s = Some (a, t) \<Longrightarrow> length t < length s"
  by (auto simp: int_part_def split: list.splits if_splits intro!: le_imp_less_Suc length_dropWhile_le)

lemma frac_part_le: "frac_part s = Some (b, t) \<Longrightarrow> length t \<le> length s"
  by (cases s) (auto simp: frac_part_def split: if_splits intro: le_SucI length_dropWhile_le)

lemma exp_part_le: "exp_part s = Some (e, t) \<Longrightarrow> length t \<le> length s"
  by (cases s) (auto simp: exp_part_def Let_def split: if_splits list.splits prod.splits
      intro: le_SucI length_dropWhile_le)

lemma pnum_shorter: "pnum s = Some (x, t) \<Longrightarrow> length t < length s"
  by (cases s) (fastforce simp: pnum_def Let_def bind_eq_Some_conv
      dest!: int_part_le frac_part_le exp_part_le split: if_splits)+

lemma parse_shorter:
  "pval n s = Some (v, t) \<Longrightarrow> length t < length s"
  "pelems n s = Some (vs, t) \<Longrightarrow> length t < length s"
  "pmembers n acc s = Some (ps, t) \<Longrightarrow> length t < length s"
proof (induction n s and n s and n acc s arbitrary: v t and vs t and ps t rule: pval_pelems_pmembers.induct)
  case (2 n s)
  obtain c r where cr: "skip_ws s = c # r" using 2(3) by (cases "skip_ws s") auto
  note len = skip_ws_Cons [OF cr] and len2 = skip_ws_le [of r]
  show ?case using 2 cr len len2
    by (auto split: if_splits dest!: pstr_shorter pnum_shorter)
       (force simp: less_Suc_eq_le dest: pstr_shorter pnum_shorter)+
next
  case (4 n s)
  then show ?case
    by (fastforce split: option.splits list.splits if_splits dest!: skip_ws_Cons)
next
  case (6 n acc s)
  then show ?case
    by (fastforce split: option.splits list.splits if_splits dest!: skip_ws_Cons pstr_shorter)
qed simp_all

lemma parse_fuel:
  "2 * length s + 1 \<le> n \<Longrightarrow> pval (Suc n) s = pval n s"
  "2 * length s + 2 \<le> n \<Longrightarrow> pelems (Suc n) s = pelems n s"
  "2 * length s + 2 \<le> n \<Longrightarrow> pmembers (Suc n) acc s = pmembers n acc s"
proof (induction n arbitrary: s acc)
  case (Suc n)
  { case 1
    then show ?case
    proof (cases "skip_ws s")
      case (Cons c r)
      then have "length r < length s" by (rule skip_ws_Cons)
      with 1 have "2 * length r + 2 \<le> n" by simp
      with Suc.IH(2,3) have "pelems (Suc n) r = pelems n r" "pmembers (Suc n) [] r = pmembers n [] r" by blast+
      with Cons show ?thesis by (simp del: pelems.simps pmembers.simps)
    qed simp
  next
    case 2
    then have pv: "pval (Suc n) s = pval n s" by (intro Suc.IH) simp
    show ?case
    proof (cases "pval n s")
      case (Some p)
      obtain v t where p: "p = (v, t)" by force
      have "pelems (Suc n) r = pelems n r" if "skip_ws t = c # r" for c r
      proof -
        have "length r < length t" "length t < length s"
          using skip_ws_Cons [OF that] parse_shorter(1) Some p by auto
        with 2 show ?thesis by (intro Suc.IH) simp
      qed
      with Some p pv show ?thesis
        by (auto simp del: pval.simps split: list.splits)
    qed (use pv in \<open>simp del: pval.simps\<close>)
  next
    case 3
    have pv: "pval (Suc n) r = pval n r" if "length r < length s" for r
      using 3 that by (intro Suc.IH) simp
    have pm: "pmembers (Suc n) acc' r = pmembers n acc' r" if "length r < length s" for acc' r
      using 3 that by (intro Suc.IH) simp
    note unf = pmembers.simps(2) [of n acc s] pmembers.simps(2) [of "Suc n" acc s]
    show ?case
    proof (cases "skip_ws s")
      case (Cons c r)
      note l1 = skip_ws_Cons [OF this]
      show ?thesis
      proof (cases "pstr r")
        case (Some p)
        obtain k t where p: "p = (k, t)" by force
        have l2: "length t < length r" using Some p pstr_shorter by auto
        show ?thesis
        proof (cases "skip_ws t")
          case t: (Cons c2 r2)
          have l3: "length r2 < length s" using skip_ws_Cons [OF t] l1 l2 by simp
          have l4: "length r3 < length s" if "pval n r2 = Some (v, t2)" "skip_ws t2 = c3 # r3" for v t2 c3 r3
            using parse_shorter(1) [OF that(1)] skip_ws_Cons [OF that(2)] l3 by simp
          show ?thesis unfolding unf using Cons Some p t pv [OF l3] pm l4
            by (auto simp del: pval.simps pmembers.simps split: option.splits list.splits)
        qed (use Cons Some p unf in \<open>simp del: pval.simps pmembers.simps\<close>)
      qed (use Cons unf in \<open>simp del: pval.simps pmembers.simps\<close>)
    qed (use unf in \<open>simp del: pval.simps pmembers.simps\<close>)
  }
qed simp_all
lemma pval_fuel_enough: "2 * length s + 1 \<le> n \<Longrightarrow> pval n s = pval (2 * length s + 1) s"
proof (induction n)
  case (Suc n)
  show ?case
  proof (cases "2 * length s + 1 \<le> n")
    case True
    with Suc.IH parse_fuel(1) [OF True] show ?thesis by simp
  next
    case False
    with Suc.prems have "Suc n = 2 * length s + 1" by simp
    then show ?thesis by simp
  qed
qed simp

section \<open>A printed value parses to itself\<close>

lemma hexval_hexd: "n < 16 \<Longrightarrow> hexval (hexd n) = Some n"
  by (auto simp: hexd_def hexval_def is_digit_def)

lemma hex4_digits:
  "c < 65536 \<Longrightarrow>
   hex4 (hexd (c div 4096 mod 16) # hexd (c div 256 mod 16) # hexd (c div 16 mod 16) # hexd (c mod 16) # t) = Some (c, t)"
proof -
  assume c: "c < 65536"
  have d: "c div 256 = c div 16 div 16" "c div 4096 = c div 16 div 16 div 16"
    by (simp_all add: div_mult2_eq [symmetric])
  have "c div 16 div 16 div 16 < 16" using c by (simp add: div_mult2_eq [symmetric] less_mult_imp_div_less)
  then have "((c div 4096 mod 16 * 16 + c div 256 mod 16) * 16 + c div 16 mod 16) * 16 + c mod 16 = c"
    unfolding d by (simp only: mod_less div_mult_mod_eq)
  moreover have "c div 4096 < 16" using c by (simp add: less_mult_imp_div_less)
  ultimately show ?thesis by (simp add: hex4_def hexval_hexd)
qed

lemma pstr_u_escape:
  "c < 65536 \<Longrightarrow> pstr (u_escape c @ s) = map_option (apfst ((#) c)) (pstr s)"
  using hex4_digits [of c s] by (simp add: u_escape_def)

lemma pstr_esc_unit: "pstr (esc_unit c @ s) = map_option (apfst ((#) c)) (pstr s)"
  by (auto simp: esc_unit_def simple_escape_def pstr_u_escape)

lemma pstr_plain: "32 \<le> c \<Longrightarrow> c \<noteq> 34 \<Longrightarrow> c \<noteq> 92 \<Longrightarrow> pstr (c # s) = map_option (apfst ((#) c)) (pstr s)"
  by simp

lemma pstr_esc: "pstr (esc s @ 34 # r) = Some (s, r)"
  by (induction s rule: esc.induct)
     (auto simp: pstr_u_escape pstr_esc_unit pstr_plain high_surrogate_def low_surrogate_def simp del: pstr.simps(2)
       simp add: pstr.simps(2) [of 34])

definition num_stop :: "jstr \<Rightarrow> bool" where
  "num_stop r \<longleftrightarrow> r = [] \<or> \<not> is_digit (hd r) \<and> hd r \<noteq> 46 \<and> hd r \<noteq> 101 \<and> hd r \<noteq> 69"

definition num_ok :: "jsnum \<Rightarrow> bool" where
  "num_ok x \<longleftrightarrow> (\<exists>q. x = Fin q) \<and>
     (\<forall>r. num_stop r \<longrightarrow> pnum (num_to_string x @ r) = Some (x, r))"

fun json_ok :: "jsval \<Rightarrow> bool" where
  "json_ok JUndef = False"
| "json_ok JNull = True"
| "json_ok (JBool _) = True"
| "json_ok (JNum x) = num_ok x"
| "json_ok (JStr _) = True"
| "json_ok (JArr vs) = (\<forall>v\<in>set vs. json_ok v)"
| "json_ok (JObj ps) = (obj_wf ps \<and> (\<forall>p\<in>set ps. json_ok (snd p)))"

lemma json_ok_obj_set: "json_ok (JObj ps) \<Longrightarrow> json_ok v \<Longrightarrow> json_ok (JObj (obj_set k v ps))"
  using set_obj_set [of k v ps] by (auto simp: obj_wf_set)

lemma num_ok_hd:
  assumes "num_ok x"
  obtains c t where "ser (JNum x) = c # t" "num_to_string x = c # t" "c = 45 \<or> is_digit c"
proof -
  from assms have "pnum (num_to_string x @ []) = Some (x, [])" and x: "\<exists>q. x = Fin q"
    by (auto simp: num_ok_def num_stop_def)
  then have "pnum (num_to_string x) = Some (x, [])" by simp
  then obtain c t where "num_to_string x = c # t" "c = 45 \<or> is_digit c"
    by (cases "num_to_string x")
       (auto simp: pnum_def Let_def int_part_def is_digit_def bind_eq_Some_conv split: if_splits)
  with x show thesis by (intro that) auto
qed

lemma json_ok_ser_hd:
  assumes "json_ok v"
  shows "ser v \<noteq> [] \<and> \<not> is_json_ws (hd (ser v)) \<and> hd (ser v) \<noteq> 93 \<and> hd (ser v) \<noteq> 125"
proof (cases v)
  case (JNum x)
  with assms have "num_ok x" by simp
  then obtain c t where "ser (JNum x) = c # t" "c = 45 \<or> is_digit c" by (rule num_ok_hd)
  with JNum show ?thesis by (auto simp: is_json_ws_def is_digit_def)
qed (use assms in \<open>auto simp: is_json_ws_def json_quote_def js_def\<close>)

lemma skip_ws_id: "s = [] \<or> \<not> is_json_ws (hd s) \<Longrightarrow> skip_ws s = s"
  by (cases s) (auto simp: skip_ws_def)

lemma skip_ws_ser: "json_ok v \<Longrightarrow> skip_ws (ser v @ r) = ser v @ r"
  using json_ok_ser_hd [of v] by (intro skip_ws_id) auto

definition obj_body :: "(jstr \<times> jsval) list \<Rightarrow> jstr" where
  "obj_body ps = join [44] (map (\<lambda>p. json_quote (fst p) @ 58 # ser (snd p)) ps)"

lemma filter_defined:
  "\<forall>p\<in>set ps. json_ok (snd p) \<Longrightarrow>
   map (\<lambda>(k, u, t). json_quote k @ 58 # t)
       (filter (\<lambda>(k, u, t). \<not> u) (map (\<lambda>(k, v). (k, v = JUndef, ser v)) ps))
   = map (\<lambda>p. json_quote (fst p) @ 58 # ser (snd p)) ps"
  by (induction ps) auto

lemma ser_JObj: "\<forall>p\<in>set ps. json_ok (snd p) \<Longrightarrow> ser (JObj ps) = 123 # obj_body ps @ [125]"
  by (simp only: ser.simps filter_defined obj_body_def)

lemma num_stop_sep [simp]: "num_stop (44 # r)" "num_stop (93 # r)" "num_stop (125 # r)" "num_stop []"
  by (auto simp: num_stop_def is_digit_def)

lemma is_json_ws_sep [simp]:
  "\<not> is_json_ws 44" "\<not> is_json_ws 93" "\<not> is_json_ws 125" "\<not> is_json_ws 58" "\<not> is_json_ws 34" "\<not> is_json_ws 123" "\<not> is_json_ws 91"
  by (auto simp: is_json_ws_def)

lemma skip_ws_sep [simp]: "\<not> is_json_ws c \<Longrightarrow> skip_ws (c # r) = c # r"
  by (simp add: skip_ws_def)

definition parses_back :: "jsval \<Rightarrow> bool" where
  "parses_back v \<longleftrightarrow> (\<forall>r n. num_stop r \<longrightarrow> 2 * length (ser v @ r) + 1 \<le> n \<longrightarrow> pval n (ser v @ r) = Some (v, r))"

lemma pelems_back:
  assumes "vs \<noteq> []" "\<forall>v\<in>set vs. parses_back v" "2 * length (join [44] (map ser vs) @ 93 # r) + 2 \<le> n"
  shows "pelems n (join [44] (map ser vs) @ 93 # r) = Some (vs, r)"
  using assms
proof (induction vs arbitrary: n)
  case (Cons v vs)
  then obtain m where n: "n = Suc m" by (cases n) auto
  show ?case
  proof (cases vs)
    case Nil
    with Cons.prems n have "pval m (ser v @ 93 # r) = Some (v, 93 # r)"
      by (auto simp: parses_back_def)
    with Nil n show ?thesis by simp
  next
    case (Cons w ws)
    define t where "t = join [44] (map ser (w # ws)) @ 93 # r"
    have j: "join [44] (map ser (v # vs)) @ 93 # r = ser v @ 44 # t"
      by (simp add: Cons t_def)
    have "pval m (ser v @ 44 # t) = Some (v, 44 # t)"
      using Cons.prems n arg_cong [OF j, of length] by (auto simp: parses_back_def)
    moreover have "pelems m t = Some (vs, r)"
      using Cons.IH [of m] Cons.prems n j unfolding t_def \<open>vs = w # ws\<close> by simp
    ultimately show ?thesis unfolding n j by simp
  qed
qed simp

lemma pmembers_back:
  assumes "ps \<noteq> []" "\<forall>p\<in>set ps. parses_back (snd p) \<and> json_ok (snd p)"
    and "2 * length (obj_body ps @ 125 # r) + 2 \<le> n"
  shows "pmembers n acc (obj_body ps @ 125 # r) =
    Some (foldl (\<lambda>m p. obj_set (fst p) (snd p) m) acc ps, r)"
  using assms
proof (induction ps arbitrary: n acc)
  case (Cons p ps)
  obtain k v where p: "p = (k, v)" by force
  from Cons.prems obtain m where n: "n = Suc m" by (cases n) auto
  define rest where "rest = (if ps = [] then 125 # r else 44 # obj_body ps @ 125 # r)"
  have b: "obj_body (p # ps) @ 125 # r = 34 # esc k @ 34 # 58 # ser v @ rest"
    by (cases ps) (simp_all add: obj_body_def rest_def p json_quote_def)
  have st: "num_stop rest" "skip_ws rest = rest" by (simp_all add: rest_def)
  have pv: "pval m (ser v @ rest) = Some (v, rest)"
    using Cons.prems st(1) n unfolding b by (auto simp: parses_back_def p)
  show ?case
  proof (cases "ps = []")
    case True
    with pv st show ?thesis unfolding b n by (simp add: pstr_esc p rest_def)
  next
    case False
    have "pmembers m (obj_set k v acc) (obj_body ps @ 125 # r) =
        Some (foldl (\<lambda>m p. obj_set (fst p) (snd p) m) (obj_set k v acc) ps, r)"
      using False Cons.prems n unfolding b by (intro Cons.IH) (auto simp: rest_def)
    with False pv st show ?thesis unfolding b n by (simp add: pstr_esc p rest_def)
  qed
qed simp

lemma json_ok_parses_back: "json_ok v \<Longrightarrow> parses_back v"
proof (induction v)
  case (JArr vs)
  show ?case unfolding parses_back_def
  proof (intro allI impI)
    fix r n assume len: "2 * length (ser (JArr vs) @ r) + 1 \<le> n"
    then obtain m where n: "n = Suc m" by (cases n) auto
    show "pval n (ser (JArr vs) @ r) = Some (JArr vs, r)"
    proof (cases vs)
      case Nil
      then show ?thesis by (simp add: n)
    next
      case (Cons w ws)
      have "pelems m (join [44] (map ser vs) @ 93 # r) = Some (vs, r)"
        using JArr len n Cons by (intro pelems_back) auto
      moreover have "\<not> prefix [93] (skip_ws (join [44] (map ser vs) @ 93 # r))"
        using JArr.prems json_ok_ser_hd [of w] skip_ws_id [of "join [44] (map ser vs) @ 93 # r"]
        unfolding Cons by (cases ws; cases "ser w") auto
      ultimately show ?thesis by (simp add: n)
    qed
  qed
next
  case (JObj ps)
  then have ok: "\<forall>p\<in>set ps. parses_back (snd p) \<and> json_ok (snd p)" by (fastforce elim: snds.cases)
  show ?case unfolding parses_back_def
  proof (intro allI impI)
    fix r n assume len: "2 * length (ser (JObj ps) @ r) + 1 \<le> n"
    then obtain m where n: "n = Suc m" by (cases n) auto
    have so: "ser (JObj ps) @ r = 123 # obj_body ps @ 125 # r" using ok by (simp add: ser_JObj del: ser.simps)
    show "pval n (ser (JObj ps) @ r) = Some (JObj ps, r)"
    proof (cases "ps = []")
      case True
      then show ?thesis unfolding so n by (simp add: obj_body_def)
    next
      case False
      have "pmembers m [] (obj_body ps @ 125 # r) = Some (ps, r)"
        using False ok len JObj.prems foldl_obj_set_wf [of "[]" ps] unfolding so n
        by (subst pmembers_back) auto
      moreover have "\<not> prefix [125] (skip_ws (obj_body ps @ 125 # r))"
        using False by (cases ps; cases "tl ps") (auto simp: obj_body_def json_quote_def)
      ultimately show ?thesis unfolding so n by simp
    qed
  qed
next
  case (JNum x)
  then have nx: "num_ok x" by simp
  then obtain c t where c: "ser (JNum x) = c # t" "num_to_string x = c # t" "c = 45 \<or> is_digit c"
    by (rule num_ok_hd)
  show ?case unfolding parses_back_def
  proof (intro allI impI)
    fix r n assume st: "num_stop r" and "2 * length (ser (JNum x) @ r) + 1 \<le> n"
    then obtain m where n: "n = Suc m" by (cases n) auto
    from nx st c have "pnum (c # t @ r) = Some (x, r)" by (force simp: num_ok_def)
    moreover have "\<not> is_json_ws c" "c \<notin> {123, 91, 34, 116, 102, 110}"
      using c(3) by (auto simp: is_json_ws_def is_digit_def)
    ultimately show "pval n (ser (JNum x) @ r) = Some (JNum x, r)"
      unfolding c(1) n by (simp add: js_def)
  qed
next
  case (JStr s)
  show ?case unfolding parses_back_def
  proof (intro allI impI)
    fix r n assume "2 * length (ser (JStr s) @ r) + 1 \<le> n"
    then obtain m where n: "n = Suc m" by (cases n) auto
    show "pval n (ser (JStr s) @ r) = Some (JStr s, r)"
      by (simp add: n json_quote_def pstr_esc)
  qed
next
  case (JBool b)
  show ?case unfolding parses_back_def
  proof (intro allI impI)
    fix r n assume "2 * length (ser (JBool b) @ r) + 1 \<le> n"
    then obtain m where n: "n = Suc m" by (cases n) auto
    show "pval n (ser (JBool b) @ r) = Some (JBool b, r)"
      by (cases b) (simp_all add: n js_def is_json_ws_def)
  qed
next
  case JNull
  show ?case unfolding parses_back_def
  proof (intro allI impI)
    fix r n assume "2 * length (ser JNull @ r) + 1 \<le> n"
    then obtain m where n: "n = Suc m" by (cases n) auto
    show "pval n (ser JNull @ r) = Some (JNull, r)"
      by (simp add: n js_def is_json_ws_def)
  qed
qed simp

lemma json_roundtrip: "json_ok v \<Longrightarrow> json_parse (ser v) = Some v"
proof -
  assume "json_ok v"
  then have "pval (2 * length (ser v) + 2) (ser v @ []) = Some (v, [])"
    using json_ok_parses_back [of v] unfolding parses_back_def by (metis (no_types, lifting)
        append_Nil2 num_stop_sep(4) add_le_cancel_left one_le_numeral)
  then show ?thesis by (simp add: json_parse_def skip_ws_def)
qed


lemma dec_hd: "0 < n \<Longrightarrow> hd (dec n) \<noteq> 48"
proof (induction n rule: dec.induct)
  case (1 n)
  then show ?case by (cases "n < 10") (auto simp: dec.simps [of n] hd_append)
qed

lemma num_stop_digits:
  "num_stop r \<Longrightarrow> takeWhile is_digit (dec n @ r) = dec n \<and> dropWhile is_digit (dec n @ r) = r"
proof -
  assume r: "num_stop r"
  have d: "\<forall>c\<in>set (dec n). is_digit c" by (auto dest: dec_digits)
  from r have "takeWhile is_digit r = []" "dropWhile is_digit r = r"
    by (cases r; simp add: num_stop_def)+
  with d show ?thesis by (simp add: takeWhile_append2 dropWhile_append2)
qed

lemma int_part_dec: "num_stop r \<Longrightarrow> int_part (dec n @ r) = Some (dec n, r)"
proof (cases "n = 0")
  case True
  then show ?thesis by (simp add: int_part_def dec.simps)
next
  case False
  assume r: "num_stop r"
  obtain c t where ct: "dec n = c # t" by (cases "dec n") auto
  with False have "c \<noteq> 48" "is_digit c" using dec_hd [of n] dec_digits [of c n] by auto
  with num_stop_digits [OF r, of n] ct show ?thesis by (simp add: int_part_def)
qed

lemma num_ok_nat:
  assumes "n \<le> 2 ^ 53"
  shows "num_ok (Fin (of_nat n))"
proof -
  have ns: "num_to_string (Fin (of_nat n)) = dec n" using assms by (rule num_to_string_nat)
  have v: "decimal_value False (dec n) [] 0 = Fin (of_nat n)"
    using num_of_nat_small [OF assms] by (simp add: decimal_value_def pow10_def num_of_nat_def)
  have "pnum (dec n @ r) = Some (Fin (of_nat n), r)" if "num_stop r" for r
  proof -
    obtain c t where ct: "dec n = c # t" by (cases "dec n") auto
    then have "c \<noteq> 45" using dec_digits [of c n] by (auto simp: is_digit_def)
    moreover have "frac_part r = Some ([], r)" "exp_part r = Some (0, r)"
      using that by (auto simp: frac_part_def exp_part_def num_stop_def split: list.splits)
    ultimately show ?thesis
      using int_part_dec [OF that, of n] ct v by (simp add: pnum_def)
  qed
  with ns show ?thesis by (simp add: num_ok_def)
qed

lemma json_ok_nat: "n \<le> 2 ^ 53 \<Longrightarrow> json_ok (JNum (Fin (of_nat n)))"
  using num_ok_nat by simp

lemma num_ok_seven_tenths: "num_ok (decimal_value False (js ''0'') (js ''7'') 0)"
proof -
  have v: "decimal_value False [48] [55] 0 = Fin seven_tenths"
    by (simp add: decimal_value_def undec_def pow10_def rnd7)
  have "pnum (js ''0.7'' @ r) = Some (Fin seven_tenths, r)" if "num_stop r" for r
  proof -
    have "takeWhile is_digit r = []" "dropWhile is_digit r = r" using that by (cases r; simp add: num_stop_def)+
    moreover have "exp_part r = Some (0, r)"
      using that by (auto simp: exp_part_def num_stop_def split: list.splits)
    ultimately show ?thesis
      by (simp add: pnum_def int_part_def frac_part_def js_def is_digit_def v)
  qed
  then show ?thesis using seven_tenths_string by (simp add: num_ok_def v js_def del: num_to_string.simps)
qed

section \<open>Number(text)\<close>

text \<open>
  \<open>Number\<close> of a string: white space around it is dropped, the empty text is 0, a numeral without
  sign may be hexadecimal, octal or binary, and everything that is not a numeral is \<open>NaN\<close>.
\<close>

definition unsigned_decimal :: "bool \<Rightarrow> jstr \<Rightarrow> jsnum" where
  "unsigned_decimal neg s =
     (if s = js ''Infinity'' then Infinity neg
      else
        let ip = takeWhile is_digit s; r = dropWhile is_digit s;
            dot = prefix [46] r;
            fp = (if dot then takeWhile is_digit (tl r) else []);
            r2 = (if dot then dropWhile is_digit (tl r) else r) in
        if ip = [] \<and> fp = [] then NaN
        else case exp_part r2 of
          Some (ex, []) \<Rightarrow> decimal_value neg ip fp ex
        | _ \<Rightarrow> NaN)"

definition radix_value :: "nat \<Rightarrow> jstr \<Rightarrow> jsnum" where
  "radix_value b s =
     (if s \<noteq> [] \<and> list_all (\<lambda>c. case hexval c of None \<Rightarrow> False | Some d \<Rightarrow> d < b) s
      then num_of_nat (foldl (\<lambda>a c. b * a + (case hexval c of None \<Rightarrow> 0 | Some d \<Rightarrow> d)) 0 s)
      else NaN)"

definition js_Number :: "jstr \<Rightarrow> jsnum" where
  "js_Number s =
     (case trim s of
        [] \<Rightarrow> Fin 0
      | c # t \<Rightarrow>
          if c = 45 then unsigned_decimal True t
          else if c = 43 then unsigned_decimal False t
          else if c = 48 \<and> t \<noteq> [] \<and> hd t \<in> {120, 88} then radix_value 16 (tl t)
          else if c = 48 \<and> t \<noteq> [] \<and> hd t \<in> {111, 79} then radix_value 8 (tl t)
          else if c = 48 \<and> t \<noteq> [] \<and> hd t \<in> {98, 66} then radix_value 2 (tl t)
          else unsigned_decimal False (c # t))"

end
