(* ===== verification/JsStorage.thy ===== *)
theory JsStorage
  imports JsValue
begin

text \<open>
  The browser's storage. \<open>Storage\<close> is \<open>localStorage\<close>: its items, whether the page may use it at
  all (reading throws when not), and the quota rule, which decides whether a write throws.

  A component that keeps one value under one key obeys the contract \<open>storage_slot\<close>: what is
  saved is what is loaded, and a save touches no other key. \<open>two_slots\<close> extends it to two keys.
\<close>

section \<open>Browser storage\<close>

record Storage =
  items :: "(jstr \<times> jstr) list"
  readable :: bool
  accepts :: "jstr \<Rightarrow> jstr \<Rightarrow> bool"

definition get_item :: "jstr \<Rightarrow> Storage \<Rightarrow> jstr option option" where
  "get_item k s = (if readable s then Some (map_of (items s) k) else None)"

definition set_item :: "jstr \<Rightarrow> jstr \<Rightarrow> Storage \<Rightarrow> Storage option" where
  "set_item k v s = (if accepts s k v then Some (s\<lparr>items := map_set k v (items s)\<rparr>) else None)"

definition remove_item :: "jstr \<Rightarrow> Storage \<Rightarrow> Storage option" where
  "remove_item k s =
     (if readable s then Some (s\<lparr>items := filter (\<lambda>p. fst p \<noteq> k) (items s)\<rparr>) else None)"

text \<open>A write inside \<open>try { ... } catch { log }\<close>: a refused write leaves the storage as it was.\<close>

definition try_set :: "jstr \<Rightarrow> jstr \<Rightarrow> Storage \<Rightarrow> Storage" where
  "try_set k v s = (case set_item k v s of None \<Rightarrow> s | Some s' \<Rightarrow> s')"

definition json_text :: "jsval \<Rightarrow> jstr" where
  "json_text v = (case json_stringify v of None \<Rightarrow> js ''undefined'' | Some t \<Rightarrow> t)"

section \<open>The contract of a slot\<close>

text \<open>
  \<open>load (save x s)\<close> is \<open>view x\<close>: what a later visit of the page sees of \<open>x\<close>. The laws hold for
  storage that works and values \<open>ok\<close> that survive JSON.
\<close>

definition open_storage :: "Storage \<Rightarrow> bool" where
  "open_storage s \<longleftrightarrow> readable s \<and> (\<forall>k v. accepts s k v)"

locale storage_slot =
  fixes key :: jstr
    and save :: "'a \<Rightarrow> Storage \<Rightarrow> Storage"
    and load :: "Storage \<Rightarrow> 'b"
    and view :: "'a \<Rightarrow> 'b"
    and ok :: "'a \<Rightarrow> bool"
  assumes load_save: "open_storage s \<Longrightarrow> ok x \<Longrightarrow> load (save x s) = view x"
    and save_other: "k \<noteq> key \<Longrightarrow> map_of (items (save x s)) k = map_of (items s) k"
    and save_open: "open_storage s \<Longrightarrow> open_storage (save x s)"
    and load_local: "open_storage s \<Longrightarrow> open_storage t \<Longrightarrow>
       map_of (items s) key = map_of (items t) key \<Longrightarrow> load s = load t"
begin

lemma last_save_wins: "open_storage s \<Longrightarrow> ok x \<Longrightarrow> load (save x (save y s)) = view x"
  by (rule load_save) (rule save_open)

lemma load_frame:
  "open_storage s \<Longrightarrow> open_storage t \<Longrightarrow> (\<And>k. k \<noteq> other \<Longrightarrow> map_of (items t) k = map_of (items s) k) \<Longrightarrow>
   other \<noteq> key \<Longrightarrow> load t = load s"
  by (rule load_local) simp_all

end

locale two_slots = A: storage_slot key1 save1 load1 view1 ok1 + B: storage_slot key2 save2 load2 view2 ok2
  for key1 save1 load1 view1 ok1 key2 save2 load2 view2 ok2 +
  assumes keys_differ: "key1 \<noteq> key2"
begin

lemma other_slot_kept:
  "open_storage s \<Longrightarrow> load1 (save2 y s) = load1 s" "open_storage s \<Longrightarrow> load2 (save1 x s) = load2 s"
  using keys_differ A.load_frame [of s "save2 y s" key2] B.load_frame [of s "save1 x s" key1]
    A.save_open B.save_open A.save_other B.save_other by auto

end

lemma try_set_open: "open_storage s \<Longrightarrow> open_storage (try_set k v s)"
  by (simp add: open_storage_def try_set_def set_item_def split: option.splits)

lemma try_set_other: "k' \<noteq> k \<Longrightarrow> map_of (items (try_set k v s)) k' = map_of (items s) k'"
  by (simp add: try_set_def set_item_def split: option.splits)

lemma get_try_set: "open_storage s \<Longrightarrow> get_item k (try_set k v s) = Some (Some v)"
  by (simp add: open_storage_def try_set_def set_item_def get_item_def)

lemma get_item_local:
  "open_storage s \<Longrightarrow> open_storage t \<Longrightarrow> map_of (items s) k = map_of (items t) k \<Longrightarrow> get_item k s = get_item k t"
  by (simp add: open_storage_def get_item_def)

end
