(* ===== verification/PlaygroundMessage.thy ===== *)
theory PlaygroundMessage
  imports JsValue
begin

text \<open>
  The playground's messages: \<open>features/playground/types.ts\<close>, \<open>constants.ts\<close> and
  \<open>lib/message-utils.ts\<close>. A message has a list of versions of which the code uses the first,
  an optional reasoning text, a status, and flags the view reads.

  An optional field is an \<open>option\<close>; \<open>errorCode\<close> keeps the JavaScript value (absent, \<open>null\<close>, or
  whatever the server sent). \<open>nanoid()\<close> is a third-party source of identifiers, so a function
  that calls it takes the identifiers as arguments, in the order of the calls.

  The lemmas give the meaning of the \<open><think>\<close> parser (it splits every text into plain pieces
  and reasoning pieces and loses nothing), and what each update leaves unchanged.
\<close>

section \<open>Types and constants\<close>

datatype MessageRole = User | Assistant | System
datatype MessageStatus = Loading | Streaming | Complete | Failed

record MessageVersion =
  version_id :: jstr
  content :: jstr

record Reasoning =
  reasoning_text :: jstr
  duration :: jsnum

record Message =
  message_key :: jstr
  sender :: MessageRole
  versions :: "MessageVersion list"
  sources :: "(jstr \<times> jstr) list option"
  reasoning :: "Reasoning option"
  isReasoningStreaming :: "bool option"
  isReasoningComplete :: "bool option"
  isContentComplete :: "bool option"
  status :: "MessageStatus option"
  errorCode :: jsval

record ContentPart =
  part_type :: jstr
  part_text :: "jstr option"
  part_image_url :: "jstr option"

datatype MessageContent = PlainText jstr | Parts "ContentPart list"

record ChatCompletionMessage =
  role :: MessageRole
  body :: MessageContent

definition API_REQUEST_ERROR :: jstr where "API_REQUEST_ERROR = js ''Request error occurred''"
definition PARSE_ERROR :: jstr where "PARSE_ERROR = js ''Error parsing response data''"
definition STREAM_START_ERROR :: jstr where "STREAM_START_ERROR = js ''Error establishing connection''"
definition CONNECTION_CLOSED :: jstr where "CONNECTION_CLOSED = js ''Connection closed''"
definition INTERRUPTED :: jstr where "INTERRUPTED = js ''Generation was interrupted''"

section \<open>Building and reading messages\<close>

definition createMessageVersion :: "jstr \<Rightarrow> jstr \<Rightarrow> MessageVersion" where
  "createMessageVersion nid c = \<lparr>version_id = nid, content = c\<rparr>"

definition getCurrentVersion :: "Message \<Rightarrow> MessageVersion" where
  "getCurrentVersion m =
     (case versions m of v # _ \<Rightarrow> v | [] \<Rightarrow> \<lparr>version_id = js ''default'', content = []\<rparr>)"

definition updateCurrentVersionContent :: "Message \<Rightarrow> jstr \<Rightarrow> Message" where
  "updateCurrentVersionContent m c = m\<lparr>versions := [(getCurrentVersion m)\<lparr>content := c\<rparr>]\<rparr>"

definition createUserMessage :: "jstr \<Rightarrow> jstr \<Rightarrow> jstr \<Rightarrow> Message" where
  "createUserMessage nid1 nid2 c =
     \<lparr>message_key = nid1, sender = User, versions = [createMessageVersion nid2 c], sources = None,
      reasoning = None, isReasoningStreaming = None, isReasoningComplete = None,
      isContentComplete = None, status = None, errorCode = JUndef\<rparr>"

definition createLoadingAssistantMessage :: "jstr \<Rightarrow> jstr \<Rightarrow> Message" where
  "createLoadingAssistantMessage nid1 nid2 =
     \<lparr>message_key = nid1, sender = Assistant, versions = [createMessageVersion nid2 []], sources = None,
      reasoning = None, isReasoningStreaming = Some False, isReasoningComplete = Some False,
      isContentComplete = Some False, status = Some Loading, errorCode = JUndef\<rparr>"

definition buildMessageContent :: "jstr \<Rightarrow> jstr list \<Rightarrow> MessageContent" where
  "buildMessageContent txt imageUrls =
     (let validImages = filter (\<lambda>u. trim u \<noteq> []) imageUrls in
      if validImages = [] then PlainText txt
      else Parts
        (\<lparr>part_type = js ''text'', part_text = Some txt, part_image_url = None\<rparr>
         # map (\<lambda>u. \<lparr>part_type = js ''image_url'', part_text = None, part_image_url = Some (trim u)\<rparr>) validImages))"

definition getTextContent :: "MessageContent \<Rightarrow> jstr" where
  "getTextContent c =
     (case c of
        PlainText s \<Rightarrow> s
      | Parts ps \<Rightarrow>
          (case find (\<lambda>p. part_type p = js ''text'') ps of
             None \<Rightarrow> []
           | Some p \<Rightarrow> (case part_text p of None \<Rightarrow> [] | Some s \<Rightarrow> s)))"

definition formatMessageForAPI :: "Message \<Rightarrow> ChatCompletionMessage" where
  "formatMessageForAPI m = \<lparr>role = sender m, body = PlainText (content (getCurrentVersion m))\<rparr>"

definition isValidMessage :: "Message \<Rightarrow> bool" where
  "isValidMessage m =
     (case versions m of
        [] \<Rightarrow> False
      | v # _ \<Rightarrow> \<not> (sender m = Assistant \<and> trim (content v) = []))"

section \<open>Think tags\<close>

abbreviation open_tag :: jstr where "open_tag \<equiv> js ''<think>''"
abbreviation close_tag :: jstr where "close_tag \<equiv> js ''</think>''"

text \<open>\<open>s.indexOf(p, from)\<close>, with \<open>None\<close> for -1.\<close>

definition index_from :: "jstr \<Rightarrow> jstr \<Rightarrow> nat \<Rightarrow> nat option" where
  "index_from p s from = map_option (\<lambda>i. from + i) (index_of p (drop from s))"

definition substring :: "jstr \<Rightarrow> nat \<Rightarrow> nat \<Rightarrow> jstr" where
  "substring s a b = take (b - a) (drop a s)"

lemma index_from_bound: "index_from p s from = Some i \<Longrightarrow> p \<noteq> [] \<Longrightarrow> from \<le> i \<and> i + length p \<le> length s"
proof -
  assume a: "index_from p s from = Some i" and p: "p \<noteq> []"
  then obtain j where j: "index_of p (drop from s) = Some j" "i = from + j"
    by (auto simp: index_from_def)
  from index_of_le [OF j(1)] p j(2) show ?thesis by (cases p) auto
qed

function think_loop :: "jstr \<Rightarrow> nat \<Rightarrow> jstr list \<Rightarrow> jstr list \<Rightarrow> jstr list \<times> jstr list \<times> bool" where
  "think_loop cont pos vis rea =
     (case index_from open_tag cont pos of
        None \<Rightarrow> (if pos < length cont then vis @ [drop pos cont] else vis, rea, False)
      | Some openPos \<Rightarrow>
          let vis' = (if openPos > pos then vis @ [substring cont pos openPos] else vis) in
          (case index_from close_tag cont (openPos + 7) of
             None \<Rightarrow> (vis', rea @ [drop (openPos + 7) cont], True)
           | Some closePos \<Rightarrow>
               think_loop cont (closePos + 8) vis' (rea @ [substring cont (openPos + 7) closePos])))"
  by pat_completeness auto
termination
  by (relation "measure (\<lambda>(cont, pos, vis, rea). length cont - pos)")
     (auto dest!: index_from_bound)

declare think_loop.simps [simp del]

record ThinkParts =
  visibleContent :: jstr
  reasoningPart :: jstr
  hasUnclosedTag :: bool

definition parseThinkTags :: "jstr \<Rightarrow> ThinkParts" where
  "parseThinkTags cont =
     (if \<not> contains cont open_tag
      then \<lparr>visibleContent = cont, reasoningPart = [], hasUnclosedTag = False\<rparr>
      else let (vis, rea, unclosed) = think_loop cont 0 [] [] in
        \<lparr>visibleContent = trim (join [] vis), reasoningPart = trim (join [10, 10] rea),
         hasUnclosedTag = unclosed\<rparr>)"

section \<open>Updating messages\<close>

definition updateLastAssistantMessage :: "Message list \<Rightarrow> (Message \<Rightarrow> Message) \<Rightarrow> Message list" where
  "updateLastAssistantMessage messages updater =
     (if messages = [] then messages
      else if sender (last messages) \<noteq> Assistant then messages
      else modify_last updater messages)"

text \<open>\<open>errorCode || null\<close>; the message is printed into a template string.\<close>

definition updateAssistantMessageWithError :: "Message list \<Rightarrow> jsval \<Rightarrow> jsval \<Rightarrow> Message list" where
  "updateAssistantMessageWithError messages errorMessage code =
     updateLastAssistantMessage messages
       (\<lambda>m. (updateCurrentVersionContent m (API_REQUEST_ERROR @ js '': '' @ to_str errorMessage))
          \<lparr>status := Some Failed, isReasoningStreaming := Some False, errorCode := js_or code JNull\<rparr>)"

definition processStreamingContent :: "Message \<Rightarrow> jsval \<Rightarrow> Message" where
  "processStreamingContent m chunk =
     (let cur = getCurrentVersion m;
          full = (if truthy chunk then content cur @ to_str chunk else content cur);
          parsed = parseThinkTags full;
          final = (if reasoningPart parsed \<noteq> []
                   then Some \<lparr>reasoning_text = reasoningPart parsed, duration = Fin 0\<rparr> else reasoning m) in
      (updateCurrentVersionContent m full)
        \<lparr>reasoning := final, isReasoningStreaming := Some (hasUnclosedTag parsed)\<rparr>)"

definition num_or_zero :: "jsnum \<Rightarrow> jsnum" where
  "num_or_zero x = (if x = NaN then Fin 0 else x)"

definition finalizeMessage :: "Message \<Rightarrow> jsval \<Rightarrow> Message" where
  "finalizeMessage m apiReasoning =
     (let parsed = parseThinkTags (content (getCurrentVersion m));
          final = (if truthy apiReasoning then to_str apiReasoning
                   else case reasoning m of
                     Some r \<Rightarrow> (if reasoning_text r \<noteq> [] then reasoning_text r else reasoningPart parsed)
                   | None \<Rightarrow> reasoningPart parsed) in
      (updateCurrentVersionContent m (visibleContent parsed))
        \<lparr>reasoning :=
           (if final \<noteq> []
            then Some \<lparr>reasoning_text = final,
                       duration = (case reasoning m of None \<Rightarrow> Fin 0 | Some r \<Rightarrow> num_or_zero (duration r))\<rparr>
            else None),
         isReasoningStreaming := Some False\<rparr>)"

definition is_stuck :: "Message \<Rightarrow> bool" where
  "is_stuck m \<longleftrightarrow> sender m = Assistant \<and> (status m = Some Loading \<or> status m = Some Streaming)"

text \<open>The loop \<open>for (let i = n - 1; i >= 0; i--)\<close> that stops at the first hit.\<close>

fun scan_down :: "('a \<Rightarrow> bool) \<Rightarrow> 'a list \<Rightarrow> nat \<Rightarrow> nat option" where
  "scan_down P xs 0 = None"
| "scan_down P xs (Suc i) = (if P (xs ! i) then Some i else scan_down P xs i)"

definition sanitize_one :: "Message \<Rightarrow> Message" where
  "sanitize_one m =
     (let f = finalizeMessage m JUndef;
          hasContent = (trim (content (getCurrentVersion f)) \<noteq> []);
          hasReasoning = (case reasoning f of None \<Rightarrow> False | Some r \<Rightarrow> trim (reasoning_text r) \<noteq> []) in
      if hasContent \<or> hasReasoning
      then f\<lparr>status := Some Complete, isReasoningStreaming := Some False\<rparr>
      else (updateCurrentVersionContent f (API_REQUEST_ERROR @ js '': '' @ INTERRUPTED))
        \<lparr>status := Some Failed, isReasoningStreaming := Some False\<rparr>)"

definition sanitizeMessagesOnLoad :: "Message list \<Rightarrow> Message list" where
  "sanitizeMessagesOnLoad messages =
     (case scan_down is_stuck messages (length messages) of
        None \<Rightarrow> messages
      | Some i \<Rightarrow> messages[i := sanitize_one (messages ! i)])"

section \<open>What the think parser computes\<close>

text \<open>
  \<open>render ps t\<close> is the text in which every pair of \<open>ps\<close> contributes a plain piece and a
  reasoning piece between tags, with \<open>t\<close> behind them.
\<close>

definition render :: "(jstr \<times> jstr) list \<Rightarrow> jstr \<Rightarrow> jstr" where
  "render ps t = concat (map (\<lambda>(v, r). v @ open_tag @ r @ close_tag) ps) @ t"

definition tag_free :: "(jstr \<times> jstr) list \<Rightarrow> bool" where
  "tag_free ps \<longleftrightarrow> (\<forall>(v, r)\<in>set ps. \<not> contains v open_tag \<and> \<not> contains r close_tag)"

lemma prefix_take: "prefix p (v @ w) \<Longrightarrow> length p \<le> length v \<Longrightarrow> prefix p v"
  by (metis append_eq_append_conv_if append_take_drop_id prefix_def)

lemma no_overlap:
  assumes "prefix (c # q) (v @ (c # q) @ t)" "c \<notin> set q" "v \<noteq> []"
  shows "length (c # q) \<le> length v"
proof (rule ccontr)
  assume a: "\<not> length (c # q) \<le> length v"
  from assms(1) obtain z where z: "v @ (c # q) @ t = (c # q) @ z" by (auto simp: prefix_def)
  have "((c # q) @ z) ! length v = c" using z [symmetric] by (simp add: nth_append)
  moreover have "((c # q) @ z) ! length v = q ! (length v - 1)"
    using a assms(3) by (cases v) (auto simp: nth_append)
  moreover have "length v - 1 < length q" using a assms(3) by (cases v) auto
  ultimately show False using assms(2) nth_mem by metis
qed

lemma index_of_first:
  "c \<notin> set q \<Longrightarrow> \<not> contains v (c # q) \<Longrightarrow> index_of (c # q) (v @ (c # q) @ t) = Some (length v)"
proof (induction v)
  case Nil
  show ?case by simp
next
  case (Cons x v)
  have "\<not> contains v (c # q)" using Cons.prems(2) by (auto simp: contains_def sublist_Cons_right)
  with Cons have "index_of (c # q) (v @ (c # q) @ t) = Some (length v)" by blast
  moreover have "\<not> prefix (c # q) ((x # v) @ (c # q) @ t)"
  proof
    assume p: "prefix (c # q) ((x # v) @ (c # q) @ t)"
    from no_overlap [OF this Cons.prems(1)] have "length (c # q) \<le> length (x # v)" by simp
    with p have "prefix (c # q) (x # v)" by (rule prefix_take)
    with Cons.prems(2) show False by (simp add: contains_def prefix_imp_sublist)
  qed
  ultimately show ?case by simp
qed

lemma tags_unfold: "open_tag = 60 # js ''think>''" "60 \<notin> set (js ''think>'')"
  "close_tag = 60 # js ''/think>''" "60 \<notin> set (js ''/think>'')"
  by (simp_all add: js_def)

lemma index_open: "\<not> contains v open_tag \<Longrightarrow> index_of open_tag (v @ open_tag @ t) = Some (length v)"
  using index_of_first [of 60 "js ''think>''" v t] by (simp add: tags_unfold)

lemma index_close: "\<not> contains v close_tag \<Longrightarrow> index_of close_tag (v @ close_tag @ t) = Some (length v)"
  using index_of_first [of 60 "js ''/think>''" v t] by (simp add: tags_unfold)

lemma index_from_drop: "drop pos c = w \<Longrightarrow> index_from p c pos = map_option (\<lambda>i. pos + i) (index_of p w)"
  by (simp add: index_from_def)

definition add_visible :: "jstr list \<Rightarrow> jstr \<Rightarrow> jstr list" where
  "add_visible vis v = (if v = [] then vis else vis @ [v])"

text \<open>One turn of the loop, read off the text that is left at its position.\<close>

lemma think_loop_plain:
  assumes "\<not> contains (drop pos c) open_tag"
  shows "think_loop c pos vis rea = (add_visible vis (drop pos c), rea, False)"
  using assms by (simp add: think_loop.simps [of c pos] index_from_def index_of_None [THEN iffD2] add_visible_def)

lemma think_loop_unclosed:
  assumes "drop pos c = v @ open_tag @ r" "\<not> contains v open_tag" "\<not> contains r close_tag"
  shows "think_loop c pos vis rea = (add_visible vis v, rea @ [r], True)"
proof -
  have o: "index_from open_tag c pos = Some (pos + length v)"
    by (simp add: index_from_drop [OF assms(1)] index_open assms(2))
  have d: "drop (pos + length v + 7) c = r"
    using arg_cong [OF assms(1), of "drop (length v + 7)"] by (simp add: ac_simps)
  have "index_from close_tag c (pos + length v + 7) = None"
    using assms(3) by (simp add: index_from_drop [OF d] index_of_None)
  moreover have "substring c pos (pos + length v) = v" by (simp add: substring_def assms(1))
  ultimately show ?thesis using o d
    by (cases "v = []") (simp_all add: think_loop.simps [of c pos] add_visible_def)
qed

lemma think_loop_step:
  assumes "drop pos c = v @ open_tag @ r @ close_tag @ w" "\<not> contains v open_tag" "\<not> contains r close_tag"
  shows "think_loop c pos vis rea = think_loop c (pos + length v + 7 + length r + 8) (add_visible vis v) (rea @ [r])
    \<and> drop (pos + length v + 7 + length r + 8) c = w"
proof -
  have o: "index_from open_tag c pos = Some (pos + length v)"
    by (simp add: index_from_drop [OF assms(1)] index_open assms(2))
  have d: "drop (pos + length v + 7) c = r @ close_tag @ w"
    using arg_cong [OF assms(1), of "drop (length v + 7)"] by (simp add: ac_simps)
  have cl: "index_from close_tag c (pos + length v + 7) = Some (pos + length v + 7 + length r)"
    using assms(3) by (simp add: index_from_drop [OF d] index_close)
  have "substring c pos (pos + length v) = v" by (simp add: substring_def assms(1))
  moreover have "substring c (pos + length v + 7) (pos + length v + 7 + length r) = r"
    by (simp add: substring_def d)
  moreover have "drop (pos + length v + 7 + length r + 8) c = w"
    using arg_cong [OF d, of "drop (length r + 8)"] by (simp add: ac_simps)
  ultimately show ?thesis using o cl
    by (cases "v = []") (simp_all add: think_loop.simps [of c pos] add_visible_def ac_simps)
qed

definition visible_pieces :: "jstr list \<Rightarrow> jstr list" where
  "visible_pieces vs = filter (\<lambda>v. v \<noteq> []) vs"

lemma think_loop_render:
  assumes "tag_free ps" "drop pos c = render ps t"
  shows "\<exists>pos'. think_loop c pos vis rea =
      think_loop c pos' (vis @ visible_pieces (map fst ps)) (rea @ map snd ps) \<and> drop pos' c = t"
  using assms
proof (induction ps arbitrary: pos vis rea)
  case Nil
  then show ?case by (auto simp: render_def visible_pieces_def)
next
  case (Cons p ps)
  obtain v r where p: "p = (v, r)" by force
  from Cons.prems have d: "drop pos c = v @ open_tag @ r @ close_tag @ render ps t"
    "\<not> contains v open_tag" "\<not> contains r close_tag" "tag_free ps"
    by (auto simp: render_def p tag_free_def)
  note st = think_loop_step [OF d(1,2,3), of vis rea]
  from Cons.IH [OF d(4), of "pos + length v + 7 + length r + 8" "add_visible vis v" "rea @ [r]"] st
  show ?case by (auto simp: p add_visible_def visible_pieces_def)
qed

lemma join_empty_sep: "join [] xs = concat xs"
  by (induction "[] :: jstr" xs rule: join.induct) auto

lemma concat_visible_pieces: "concat (visible_pieces vs) = concat vs"
  by (induction vs) (auto simp: visible_pieces_def)

lemma contains_open_render: "ps \<noteq> [] \<Longrightarrow> contains (render ps t) open_tag"
proof -
  assume "ps \<noteq> []"
  then obtain v r qs where "ps = (v, r) # qs" by (cases ps) auto
  then have "render ps t = v @ open_tag @ (r @ close_tag @ render qs t)" by (simp add: render_def)
  then show ?thesis unfolding contains_def sublist_def by blast
qed

lemma render_decompose:
  "\<exists>ps t. tag_free ps \<and> c = render ps t \<and>
     (\<not> contains t open_tag \<or> (\<exists>v r. t = v @ open_tag @ r \<and> \<not> contains v open_tag \<and> \<not> contains r close_tag))"
proof (induction "length c" arbitrary: c rule: less_induct)
  case less
  show ?case
  proof (cases "index_of open_tag c")
    case None
    then show ?thesis by (intro exI [of _ "[]"] exI [of _ c]) (simp add: tag_free_def render_def index_of_None)
  next
    case (Some i)
    define v where "v = take i c"
    define w where "w = drop (i + 7) c"
    from index_of_drop [OF Some] have c: "c = v @ open_tag @ w"
      by (simp add: v_def w_def eval_nat_numeral)
    have v: "\<not> contains v open_tag" using index_of_take [OF Some] by (simp add: v_def)
    show ?thesis
    proof (cases "index_of close_tag w")
      case None
      with c v show ?thesis
        by (intro exI [of _ "[]"] exI [of _ c]) (auto simp: tag_free_def render_def index_of_None)
    next
      case (Some j)
      define r where "r = take j w"
      define u where "u = drop (j + 8) w"
      from index_of_drop [OF Some] have w: "w = r @ close_tag @ u"
        by (simp add: r_def u_def eval_nat_numeral)
      have r: "\<not> contains r close_tag" using index_of_take [OF Some] by (simp add: r_def)
      have "length u < length c" by (simp add: c w)
      from less [OF this] obtain ps t where ih: "tag_free ps" "u = render ps t"
        "\<not> contains t open_tag \<or> (\<exists>v r. t = v @ open_tag @ r \<and> \<not> contains v open_tag \<and> \<not> contains r close_tag)"
        by blast
      with c w v r show ?thesis
        by (intro exI [of _ "(v, r) # ps"] exI [of _ t]) (auto simp: tag_free_def render_def)
    qed
  qed
qed

lemma parseThinkTags_closed:
  assumes "tag_free ps" "\<not> contains t open_tag" "ps \<noteq> []"
  shows "parseThinkTags (render ps t) =
    \<lparr>visibleContent = trim (concat (map fst ps) @ t), reasoningPart = trim (join [10, 10] (map snd ps)),
     hasUnclosedTag = False\<rparr>"
proof -
  obtain pos where "think_loop (render ps t) 0 [] [] =
      think_loop (render ps t) pos (visible_pieces (map fst ps)) (map snd ps)" "drop pos (render ps t) = t"
    using think_loop_render [OF assms(1), of 0 "render ps t" t "[]" "[]"] by auto
  with assms(2) have "think_loop (render ps t) 0 [] [] =
      (add_visible (visible_pieces (map fst ps)) t, map snd ps, False)"
    using think_loop_plain [of pos "render ps t"] by simp
  moreover have "contains (render ps t) open_tag" using assms(3) by (rule contains_open_render)
  ultimately show ?thesis
    by (simp add: parseThinkTags_def join_empty_sep add_visible_def concat_visible_pieces)
qed

lemma parseThinkTags_open:
  assumes "tag_free ps" "\<not> contains v open_tag" "\<not> contains r close_tag"
  shows "parseThinkTags (render ps (v @ open_tag @ r)) =
    \<lparr>visibleContent = trim (concat (map fst ps) @ v), reasoningPart = trim (join [10, 10] (map snd ps @ [r])),
     hasUnclosedTag = True\<rparr>"
proof -
  define c where "c = render ps (v @ open_tag @ r)"
  obtain pos where "think_loop c 0 [] [] = think_loop c pos (visible_pieces (map fst ps)) (map snd ps)"
      "drop pos c = v @ open_tag @ r"
    using think_loop_render [OF assms(1), of 0 c "v @ open_tag @ r" "[]" "[]"] by (auto simp: c_def)
  then have "think_loop c 0 [] [] = (add_visible (visible_pieces (map fst ps)) v, map snd ps @ [r], True)"
    using think_loop_unclosed [OF _ assms(2,3)] by simp
  moreover have "contains c open_tag"
    unfolding contains_def sublist_def c_def render_def by (metis append.assoc)
  ultimately show ?thesis
    by (simp add: parseThinkTags_def join_empty_sep add_visible_def concat_visible_pieces flip: c_def)
qed

section \<open>What the updates leave unchanged\<close>

lemma getCurrentVersion_update [simp]:
  "content (getCurrentVersion (updateCurrentVersionContent m c)) = c"
  by (simp add: getCurrentVersion_def updateCurrentVersionContent_def)

lemma updateCurrentVersionContent_keeps [simp]:
  "message_key (updateCurrentVersionContent m c) = message_key m"
  "sender (updateCurrentVersionContent m c) = sender m"
  "reasoning (updateCurrentVersionContent m c) = reasoning m"
  "status (updateCurrentVersionContent m c) = status m"
  by (simp_all add: updateCurrentVersionContent_def)

lemma getCurrentVersion_versions:
  "versions a = versions b \<Longrightarrow> getCurrentVersion a = getCurrentVersion b"
  by (simp add: getCurrentVersion_def)

lemma processStreamingContent_keeps [simp]:
  "message_key (processStreamingContent m c) = message_key m"
  "sender (processStreamingContent m c) = sender m"
  "status (processStreamingContent m c) = status m"
  by (simp_all add: processStreamingContent_def Let_def)

lemma finalizeMessage_keeps [simp]:
  "message_key (finalizeMessage m a) = message_key m"
  "sender (finalizeMessage m a) = sender m"
  "status (finalizeMessage m a) = status m"
  by (simp_all add: finalizeMessage_def Let_def)

lemma sanitize_one_keeps [simp]:
  "message_key (sanitize_one m) = message_key m" "sender (sanitize_one m) = sender m"
  by (simp_all add: sanitize_one_def Let_def)

lemma sanitize_one_settled: "\<not> is_stuck (sanitize_one m)"
  by (simp add: sanitize_one_def Let_def is_stuck_def)

lemma scan_down_Some:
  "scan_down P xs n = Some i \<Longrightarrow> i < n \<and> P (xs ! i) \<and> (\<forall>j. i < j \<and> j < n \<longrightarrow> \<not> P (xs ! j))"
  by (induction n) (auto simp: less_Suc_eq split: if_splits)

lemma scan_down_None: "scan_down P xs n = None \<longleftrightarrow> (\<forall>j<n. \<not> P (xs ! j))"
  by (induction n) (auto simp: less_Suc_eq)

lemma filter_update_drop:
  "i < length xs \<Longrightarrow> P (xs ! i) \<Longrightarrow> \<not> P y \<Longrightarrow>
   length (filter P (xs[i := y])) = length (filter P xs) - 1"
proof -
  assume i: "i < length xs" and P: "P (xs ! i)" "\<not> P y"
  have "xs = take i xs @ xs ! i # drop (Suc i) xs" using i by (simp add: id_take_nth_drop)
  then have "length (filter P xs) = length (filter P (take i xs @ xs ! i # drop (Suc i) xs))" by simp
  also have "\<dots> = Suc (length (filter P (take i xs)) + length (filter P (drop (Suc i) xs)))"
    using P by simp
  finally show ?thesis using i P by (simp add: upd_conv_take_nth_drop)
qed

section \<open>Properties\<close>

text \<open>
  C21. The think parser is total and loses nothing: every text is a sequence of plain and
  reasoning pieces around well-matched tags, followed by a plain rest or by a plain piece and
  an unclosed tag. The visible content is the plain pieces in order, the reasoning is the
  reasoning pieces, and the flag says whether the last tag is unclosed.
\<close>

theorem parseThinkTags_spec:
  "\<exists>ps t. tag_free ps \<and> c = render ps t \<and>
     (\<not> contains t open_tag \<and>
        parseThinkTags c = (if ps = [] then \<lparr>visibleContent = c, reasoningPart = [], hasUnclosedTag = False\<rparr>
          else \<lparr>visibleContent = trim (concat (map fst ps) @ t),
                reasoningPart = trim (join [10, 10] (map snd ps)), hasUnclosedTag = False\<rparr>)
      \<or> (\<exists>v r. t = v @ open_tag @ r \<and> \<not> contains v open_tag \<and> \<not> contains r close_tag \<and>
          parseThinkTags c =
            \<lparr>visibleContent = trim (concat (map fst ps) @ v),
             reasoningPart = trim (join [10, 10] (map snd ps @ [r])), hasUnclosedTag = True\<rparr>))"
proof -
  obtain ps t where d: "tag_free ps" "c = render ps t"
    "\<not> contains t open_tag \<or> (\<exists>v r. t = v @ open_tag @ r \<and> \<not> contains v open_tag \<and> \<not> contains r close_tag)"
    using render_decompose by blast
  have plain: "parseThinkTags (render [] t) = \<lparr>visibleContent = t, reasoningPart = [], hasUnclosedTag = False\<rparr>"
    if "\<not> contains t open_tag" using that by (simp add: parseThinkTags_def render_def)
  from d(3) show ?thesis
  proof
    assume t: "\<not> contains t open_tag"
    have "parseThinkTags c = (if ps = [] then \<lparr>visibleContent = c, reasoningPart = [], hasUnclosedTag = False\<rparr>
          else \<lparr>visibleContent = trim (concat (map fst ps) @ t),
                reasoningPart = trim (join [10, 10] (map snd ps)), hasUnclosedTag = False\<rparr>)"
      using plain [OF t] parseThinkTags_closed [OF d(1) t] d(2)
      by (cases "ps = []") (simp_all add: render_def [of "[]"])
    with d t show ?thesis by blast
  next
    assume "\<exists>v r. t = v @ open_tag @ r \<and> \<not> contains v open_tag \<and> \<not> contains r close_tag"
    then obtain v r where t: "t = v @ open_tag @ r" "\<not> contains v open_tag" "\<not> contains r close_tag"
      by blast
    have "parseThinkTags c = \<lparr>visibleContent = trim (concat (map fst ps) @ v),
        reasoningPart = trim (join [10, 10] (map snd ps @ [r])), hasUnclosedTag = True\<rparr>"
      using parseThinkTags_open [OF d(1) t(2,3)] d(2) t(1) by simp
    with d(1,2) t show ?thesis by blast
  qed
qed

definition stream_chunks :: "jstr list \<Rightarrow> Message \<Rightarrow> Message" where
  "stream_chunks cs m = foldl (\<lambda>m c. processStreamingContent m (JStr c)) m cs"

lemma content_process [simp]:
  "content (getCurrentVersion (processStreamingContent m (JStr c))) = content (getCurrentVersion m) @ c"
  by (simp add: processStreamingContent_def Let_def updateCurrentVersionContent_def getCurrentVersion_def)

lemma stream_chunks_content:
  "content (getCurrentVersion (stream_chunks cs m)) = content (getCurrentVersion m) @ concat cs"
  by (induction cs arbitrary: m) (simp_all add: stream_chunks_def)

text \<open>
  Streaming loses no text: after any sequence of content chunks the stored raw content is
  the content before followed by the chunks, and the unclosed-tag flag is that of the whole text.
\<close>

theorem streaming_keeps_text:
  "content (getCurrentVersion (stream_chunks (cs @ [c]) m)) = content (getCurrentVersion m) @ concat cs @ c
   \<and> isReasoningStreaming (stream_chunks (cs @ [c]) m) =
       Some (hasUnclosedTag (parseThinkTags (content (getCurrentVersion m) @ concat cs @ c)))"
proof
  show "content (getCurrentVersion (stream_chunks (cs @ [c]) m)) = content (getCurrentVersion m) @ concat cs @ c"
    by (simp add: stream_chunks_content)
  have "stream_chunks (cs @ [c]) m = processStreamingContent (stream_chunks cs m) (JStr c)"
    by (simp add: stream_chunks_def)
  then show "isReasoningStreaming (stream_chunks (cs @ [c]) m) =
       Some (hasUnclosedTag (parseThinkTags (content (getCurrentVersion m) @ concat cs @ c)))"
    by (simp add: processStreamingContent_def Let_def stream_chunks_content)
qed

text \<open>
  Loading stored messages settles exactly one stuck message, the last one: the count of
  messages left loading or streaming drops by one, and every other message is unchanged.
\<close>

theorem sanitizeMessagesOnLoad_settles:
  "length (filter is_stuck (sanitizeMessagesOnLoad ms)) = length (filter is_stuck ms) - 1
   \<and> map message_key (sanitizeMessagesOnLoad ms) = map message_key ms
   \<and> (\<forall>j. j < length ms \<and> \<not> is_stuck (ms ! j) \<longrightarrow> sanitizeMessagesOnLoad ms ! j = ms ! j)"
proof (cases "scan_down is_stuck ms (length ms)")
  case None
  then have "filter is_stuck ms = []" by (auto simp: scan_down_None in_set_conv_nth filter_empty_conv)
  with None show ?thesis by (simp add: sanitizeMessagesOnLoad_def)
next
  case (Some i)
  from scan_down_Some [OF this] have i: "i < length ms" "is_stuck (ms ! i)" by auto
  have "length (filter is_stuck (ms[i := sanitize_one (ms ! i)])) = length (filter is_stuck ms) - 1"
    using i by (rule filter_update_drop) (rule sanitize_one_settled)
  moreover have "(map message_key ms)[i := message_key (ms ! i)] = map message_key ms"
    using i by (metis list_update_id nth_map)
  ultimately show ?thesis using i Some
    by (auto simp: sanitizeMessagesOnLoad_def map_update nth_list_update)
qed

theorem sanitizeMessagesOnLoad_settles_witness:
  "sanitizeMessagesOnLoad [createUserMessage [1] [2] [3], createLoadingAssistantMessage [4] [5]] ! 0
   = createUserMessage [1] [2] [3]"
proof -
  have "\<not> is_stuck ([createUserMessage [1] [2] [3], createLoadingAssistantMessage [4] [5]] ! 0)"
    by (simp add: is_stuck_def createUserMessage_def)
  with sanitizeMessagesOnLoad_settles
    [of "[createUserMessage [1] [2] [3], createLoadingAssistantMessage [4] [5]]"]
  show ?thesis by force
qed

lemmas think_eval = js_unfold stream_chunks_def processStreamingContent_def finalizeMessage_def
  parseThinkTags_def think_loop.simps index_from_def substring_def contains_rec trim_def
  updateCurrentVersionContent_def getCurrentVersion_def createLoadingAssistantMessage_def
  createMessageVersion_def Let_def

text \<open>
  What the reader finally sees depends on how the network cut the text: an empty reasoning
  block that arrives whole leaves no reasoning, and the same text cut inside its closing tag
  leaves the fragment of the tag as the message's reasoning for good.
\<close>

theorem reasoning_depends_on_chunks:
  "reasoning (finalizeMessage (stream_chunks [js ''<think>'', js ''</'', js ''think>Hi'']
      (createLoadingAssistantMessage (js ''k'') (js ''v''))) JUndef)
     = Some \<lparr>reasoning_text = js ''</'', duration = Fin 0\<rparr>
   \<and> reasoning (finalizeMessage (stream_chunks [js ''<think></think>Hi'']
      (createLoadingAssistantMessage (js ''k'') (js ''v''))) JUndef) = None"
  by (simp add: think_eval num_or_zero_def)

end
