(* ===== verification/PlaygroundStore.thy ===== *)
theory PlaygroundStore
  imports JsStorage PlaygroundMessage "HOL-Library.Monad_Syntax"
begin

text \<open>
  The playground's state and its copy in the browser's storage: \<open>lib/storage.ts\<close>,
  \<open>lib/payload-builder.ts\<close>, \<open>hooks/use-playground-state.ts\<close> and the defaults of \<open>constants.ts\<close>.

  The three slots of the playground in \<open>localStorage\<close> obey one contract, the locale
  \<open>storage_slot\<close> of the storage theory: what is saved is what is loaded, and a save touches no
  other slot.

  A stored message list is trusted by the code: the array is cast to \<open>Message[]\<close>. Here the
  cast is \<open>message_of_json\<close>; an array with an element that has not the shape of a message is
  the result \<open>Unchecked\<close>, about which nothing more is said.
\<close>

section \<open>Keys and defaults\<close>

definition CONFIG_KEY :: jstr where "CONFIG_KEY = js ''playground_config''"
definition MESSAGES_KEY :: jstr where "MESSAGES_KEY = js ''playground_messages''"
definition PARAMETER_ENABLED_KEY :: jstr where "PARAMETER_ENABLED_KEY = js ''playground_parameter_enabled''"

definition DEFAULT_CONFIG :: "(jstr \<times> jsval) list" where
  "DEFAULT_CONFIG =
     [(js ''model'', JStr (js ''gpt-4o'')),
      (js ''group'', JStr (js ''default'')),
      (js ''temperature'', JNum (decimal_value False (js ''0'') (js ''7'') 0)),
      (js ''top_p'', JNum (Fin 1)),
      (js ''max_tokens'', JNum (Fin 4096)),
      (js ''frequency_penalty'', JNum (Fin 0)),
      (js ''presence_penalty'', JNum (Fin 0)),
      (js ''seed'', JNull),
      (js ''stream'', JBool True)]"

definition DEFAULT_PARAMETER_ENABLED :: "(jstr \<times> jsval) list" where
  "DEFAULT_PARAMETER_ENABLED =
     [(js ''temperature'', JBool True), (js ''top_p'', JBool True), (js ''max_tokens'', JBool False),
      (js ''frequency_penalty'', JBool True), (js ''presence_penalty'', JBool True), (js ''seed'', JBool False)]"

section \<open>Messages as JSON\<close>

definition role_name :: "MessageRole \<Rightarrow> jstr" where
  "role_name r = (case r of User \<Rightarrow> js ''user'' | Assistant \<Rightarrow> js ''assistant'' | System \<Rightarrow> js ''system'')"

definition status_name :: "MessageStatus \<Rightarrow> jstr" where
  "status_name s = (case s of Loading \<Rightarrow> js ''loading'' | Streaming \<Rightarrow> js ''streaming''
                      | Complete \<Rightarrow> js ''complete'' | Failed \<Rightarrow> js ''error'')"

text \<open>\<open>JSON.stringify\<close> leaves out the properties whose value is \<open>undefined\<close>.\<close>

definition defined :: "(jstr \<times> jsval) list \<Rightarrow> (jstr \<times> jsval) list" where
  "defined ps = filter (\<lambda>p. snd p \<noteq> JUndef) ps"

definition opt_json :: "('a \<Rightarrow> jsval) \<Rightarrow> 'a option \<Rightarrow> jsval" where
  "opt_json f x = (case x of None \<Rightarrow> JUndef | Some y \<Rightarrow> f y)"

definition version_json :: "MessageVersion \<Rightarrow> jsval" where
  "version_json v = JObj [(js ''id'', JStr (version_id v)), (js ''content'', JStr (content v))]"

definition source_json :: "jstr \<times> jstr \<Rightarrow> jsval" where
  "source_json p = JObj [(js ''href'', JStr (fst p)), (js ''title'', JStr (snd p))]"

definition reasoning_json :: "Reasoning \<Rightarrow> jsval" where
  "reasoning_json r = JObj [(js ''content'', JStr (reasoning_text r)), (js ''duration'', JNum (duration r))]"

definition message_json :: "Message \<Rightarrow> jsval" where
  "message_json m = JObj (defined
     [(js ''key'', JStr (message_key m)),
      (js ''from'', JStr (role_name (sender m))),
      (js ''versions'', JArr (map version_json (versions m))),
      (js ''sources'', opt_json (\<lambda>ps. JArr (map source_json ps)) (sources m)),
      (js ''reasoning'', opt_json reasoning_json (reasoning m)),
      (js ''isReasoningStreaming'', opt_json JBool (isReasoningStreaming m)),
      (js ''isReasoningComplete'', opt_json JBool (isReasoningComplete m)),
      (js ''isContentComplete'', opt_json JBool (isContentComplete m)),
      (js ''status'', opt_json (\<lambda>s. JStr (status_name s)) (status m)),
      (js ''errorCode'', errorCode m)])"

fun as_str :: "jsval \<Rightarrow> jstr option" where
  "as_str (JStr s) = Some s"
| "as_str _ = None"

fun as_bool :: "jsval \<Rightarrow> bool option" where
  "as_bool (JBool b) = Some b"
| "as_bool _ = None"

fun as_num :: "jsval \<Rightarrow> jsnum option" where
  "as_num (JNum x) = Some x"
| "as_num _ = None"

fun as_arr :: "jsval \<Rightarrow> jsval list option" where
  "as_arr (JArr vs) = Some vs"
| "as_arr _ = None"

definition as_opt :: "(jsval \<Rightarrow> 'a option) \<Rightarrow> jsval \<Rightarrow> 'a option option" where
  "as_opt f v = (if v = JUndef then Some None else map_option Some (f v))"

definition as_list :: "(jsval \<Rightarrow> 'a option) \<Rightarrow> jsval \<Rightarrow> 'a list option" where
  "as_list f v = do { vs \<leftarrow> as_arr v; those (map f vs) }"

definition role_of :: "jsval \<Rightarrow> MessageRole option" where
  "role_of v =
     (if v = JStr (js ''user'') then Some User else if v = JStr (js ''assistant'') then Some Assistant
      else if v = JStr (js ''system'') then Some System else None)"

definition status_of :: "jsval \<Rightarrow> MessageStatus option" where
  "status_of v =
     (if v = JStr (js ''loading'') then Some Loading else if v = JStr (js ''streaming'') then Some Streaming
      else if v = JStr (js ''complete'') then Some Complete else if v = JStr (js ''error'') then Some Failed
      else None)"

definition version_of_json :: "jsval \<Rightarrow> MessageVersion option" where
  "version_of_json v = do {
     i \<leftarrow> as_str (get_prop (js ''id'') v); c \<leftarrow> as_str (get_prop (js ''content'') v);
     Some \<lparr>version_id = i, content = c\<rparr> }"

definition source_of_json :: "jsval \<Rightarrow> (jstr \<times> jstr) option" where
  "source_of_json v = do {
     h \<leftarrow> as_str (get_prop (js ''href'') v); t \<leftarrow> as_str (get_prop (js ''title'') v); Some (h, t) }"

definition reasoning_of_json :: "jsval \<Rightarrow> Reasoning option" where
  "reasoning_of_json v = do {
     c \<leftarrow> as_str (get_prop (js ''content'') v); d \<leftarrow> as_num (get_prop (js ''duration'') v);
     Some \<lparr>reasoning_text = c, duration = d\<rparr> }"

definition message_of_json :: "jsval \<Rightarrow> Message option" where
  "message_of_json v = do {
     k \<leftarrow> as_str (get_prop (js ''key'') v);
     f \<leftarrow> role_of (get_prop (js ''from'') v);
     vs \<leftarrow> as_list version_of_json (get_prop (js ''versions'') v);
     so \<leftarrow> as_opt (as_list source_of_json) (get_prop (js ''sources'') v);
     r \<leftarrow> as_opt reasoning_of_json (get_prop (js ''reasoning'') v);
     rs \<leftarrow> as_opt as_bool (get_prop (js ''isReasoningStreaming'') v);
     rc \<leftarrow> as_opt as_bool (get_prop (js ''isReasoningComplete'') v);
     cc \<leftarrow> as_opt as_bool (get_prop (js ''isContentComplete'') v);
     st \<leftarrow> as_opt status_of (get_prop (js ''status'') v);
     Some \<lparr>message_key = k, sender = f, versions = vs, sources = so, reasoning = r,
           isReasoningStreaming = rs, isReasoningComplete = rc, isContentComplete = cc,
           status = st, errorCode = get_prop (js ''errorCode'') v\<rparr> }"

section \<open>Loading and saving\<close>

definition load_json :: "jstr \<Rightarrow> Storage \<Rightarrow> jsval" where
  "load_json k s =
     (case get_item k s of
        Some (Some saved) \<Rightarrow>
          (if saved = [] then JObj [] else case json_parse saved of Some v \<Rightarrow> v | None \<Rightarrow> JObj [])
      | _ \<Rightarrow> JObj [])"

definition loadConfig :: "Storage \<Rightarrow> jsval" where
  "loadConfig s = load_json CONFIG_KEY s"

definition saveConfig :: "(jstr \<times> jsval) list \<Rightarrow> Storage \<Rightarrow> Storage" where
  "saveConfig c s = try_set CONFIG_KEY (json_text (JObj c)) s"

definition loadParameterEnabled :: "Storage \<Rightarrow> jsval" where
  "loadParameterEnabled s = load_json PARAMETER_ENABLED_KEY s"

definition saveParameterEnabled :: "(jstr \<times> jsval) list \<Rightarrow> Storage \<Rightarrow> Storage" where
  "saveParameterEnabled p s = try_set PARAMETER_ENABLED_KEY (json_text (JObj p)) s"

definition saveMessages :: "Message list \<Rightarrow> Storage \<Rightarrow> Storage" where
  "saveMessages ms s = try_set MESSAGES_KEY (json_text (JArr (map message_json ms))) s"

datatype LoadedMessages = NoMessages | Loaded "Message list" | Unchecked "jsval list"

text \<open>\<open>sanitized !== parsed\<close> holds exactly when a stuck message was found and replaced.\<close>

definition loadMessages :: "Storage \<Rightarrow> LoadedMessages \<times> Storage" where
  "loadMessages s =
     (case get_item MESSAGES_KEY s of
        Some (Some saved) \<Rightarrow>
          (if saved = [] then (NoMessages, s)
           else case json_parse saved of
             Some (JArr vs) \<Rightarrow>
               (case those (map message_of_json vs) of
                  None \<Rightarrow> (Unchecked vs, s)
                | Some ms \<Rightarrow>
                    (Loaded (sanitizeMessagesOnLoad ms),
                     if scan_down is_stuck ms (length ms) \<noteq> None
                     then saveMessages (sanitizeMessagesOnLoad ms) s else s))
           | _ \<Rightarrow> (NoMessages, s))
      | _ \<Rightarrow> (NoMessages, s))"

definition clearPlaygroundData :: "Storage \<Rightarrow> Storage" where
  "clearPlaygroundData s =
     (case remove_item CONFIG_KEY s of None \<Rightarrow> s
      | Some s1 \<Rightarrow> (case remove_item PARAMETER_ENABLED_KEY s1 of None \<Rightarrow> s1
      | Some s2 \<Rightarrow> (case remove_item MESSAGES_KEY s2 of None \<Rightarrow> s2 | Some s3 \<Rightarrow> s3)))"

section \<open>The request payload\<close>

definition parameterKeys :: "jstr list" where
  "parameterKeys = [js ''temperature'', js ''top_p'', js ''max_tokens'', js ''frequency_penalty'',
     js ''presence_penalty'', js ''seed'']"

definition content_part_json :: "ContentPart \<Rightarrow> jsval" where
  "content_part_json p = JObj (defined
     [(js ''type'', JStr (part_type p)), (js ''text'', opt_json JStr (part_text p)),
      (js ''image_url'', opt_json (\<lambda>u. JObj [(js ''url'', JStr u)]) (part_image_url p))])"

definition chat_message_json :: "ChatCompletionMessage \<Rightarrow> jsval" where
  "chat_message_json m = JObj
     [(js ''role'', JStr (role_name (role m))),
      (js ''content'', case body m of PlainText t \<Rightarrow> JStr t | Parts ps \<Rightarrow> JArr (map content_part_json ps))]"

definition add_parameter :: "(jstr \<times> jsval) list \<Rightarrow> (jstr \<times> jsval) list \<Rightarrow> jstr \<Rightarrow>
    (jstr \<times> jsval) list \<Rightarrow> (jstr \<times> jsval) list" where
  "add_parameter cfg enabled k payload =
     (if truthy (obj_get k enabled) \<and> \<not> is_nullish (obj_get k cfg)
      then obj_set k (obj_get k cfg) payload else payload)"

definition buildChatCompletionPayload ::
    "Message list \<Rightarrow> (jstr \<times> jsval) list \<Rightarrow> (jstr \<times> jsval) list \<Rightarrow> (jstr \<times> jsval) list" where
  "buildChatCompletionPayload ms cfg enabled =
     fold (add_parameter cfg enabled) parameterKeys
       [(js ''model'', obj_get (js ''model'') cfg),
        (js ''group'', obj_get (js ''group'') cfg),
        (js ''messages'', JArr (map (\<lambda>m. chat_message_json (formatMessageForAPI m)) (filter isValidMessage ms))),
        (js ''stream'', obj_get (js ''stream'') cfg)]"

section \<open>The state hook\<close>

record playground =
  config :: "(jstr \<times> jsval) list"
  parameterEnabled :: "(jstr \<times> jsval) list"
  messages :: "Message list"
  storage :: Storage

text \<open>The first render. \<open>None\<close>: the stored array is not one of messages.\<close>

definition usePlaygroundState :: "Storage \<Rightarrow> playground option" where
  "usePlaygroundState s =
     (case loadMessages s of (l, s') \<Rightarrow>
        (case l of
           Unchecked _ \<Rightarrow> None
         | NoMessages \<Rightarrow> Some \<lparr>config = spread DEFAULT_CONFIG (loadConfig s),
             parameterEnabled = spread DEFAULT_PARAMETER_ENABLED (loadParameterEnabled s),
             messages = [], storage = s'\<rparr>
         | Loaded ms \<Rightarrow> Some \<lparr>config = spread DEFAULT_CONFIG (loadConfig s),
             parameterEnabled = spread DEFAULT_PARAMETER_ENABLED (loadParameterEnabled s),
             messages = ms, storage = s'\<rparr>))"

definition updateConfig :: "jstr \<Rightarrow> jsval \<Rightarrow> ('a) playground_scheme \<Rightarrow> 'a playground_scheme" where
  "updateConfig k v st =
     (let updated = obj_set k v (config st) in
      st\<lparr>config := updated, storage := saveConfig updated (storage st)\<rparr>)"

definition updateParameterEnabled :: "jstr \<Rightarrow> bool \<Rightarrow> 'a playground_scheme \<Rightarrow> 'a playground_scheme" where
  "updateParameterEnabled k b st =
     (let updated = obj_set k (JBool b) (parameterEnabled st) in
      st\<lparr>parameterEnabled := updated, storage := saveParameterEnabled updated (storage st)\<rparr>)"

definition updateMessages :: "(Message list \<Rightarrow> Message list) \<Rightarrow> 'a playground_scheme \<Rightarrow> 'a playground_scheme" where
  "updateMessages f st =
     (let new = f (messages st) in
      st\<lparr>messages := new, storage := saveMessages new (storage st)\<rparr>)"

definition clearMessages :: "'a playground_scheme \<Rightarrow> 'a playground_scheme" where
  "clearMessages st = updateMessages (\<lambda>_. []) st"

definition resetConfig :: "'a playground_scheme \<Rightarrow> 'a playground_scheme" where
  "resetConfig st = st\<lparr>config := DEFAULT_CONFIG, parameterEnabled := DEFAULT_PARAMETER_ENABLED,
     storage := saveParameterEnabled DEFAULT_PARAMETER_ENABLED (saveConfig DEFAULT_CONFIG (storage st))\<rparr>"

section \<open>The three slots\<close>

lemma load_json_try_set:
  "open_storage s \<Longrightarrow> json_ok v \<Longrightarrow> load_json k (try_set k (json_text v) s) = v"
  using json_ok_ser_hd [of v] json_roundtrip [of v]
  by (auto simp: load_json_def get_try_set json_text_def json_stringify_def)

lemma loadMessages_local:
  "open_storage s \<Longrightarrow> open_storage t \<Longrightarrow> map_of (items s) MESSAGES_KEY = map_of (items t) MESSAGES_KEY \<Longrightarrow>
   fst (loadMessages s) = fst (loadMessages t)"
proof -
  assume "open_storage s" "open_storage t" "map_of (items s) MESSAGES_KEY = map_of (items t) MESSAGES_KEY"
  then have "get_item MESSAGES_KEY s = get_item MESSAGES_KEY t" by (rule get_item_local)
  then show ?thesis
    by (simp add: loadMessages_def split: option.split jsval.split)
qed

subsection \<open>Messages survive JSON\<close>

lemma obj_get_defined: "distinct (map fst ps) \<Longrightarrow> obj_get k (defined ps) = obj_get k ps"
proof (induction ps)
  case (Cons p ps)
  then have "obj_get k (defined ps) = obj_get k ps" "fst p = k \<Longrightarrow> map_of ps k = None"
    by (auto simp: map_of_eq_None_iff image_iff)
  then show ?case by (cases p) (auto simp: defined_def obj_get_def)
qed (simp add: defined_def)

lemma plain_keys_wf:
  "distinct (map fst ps) \<Longrightarrow> \<forall>p\<in>set ps. \<not> is_index_key (fst p) \<Longrightarrow> obj_wf ps"
  by (induction ps) (auto simp: obj_wf_def key_before_def)

lemma distinct_fst_filter: "distinct (map fst ps) \<Longrightarrow> distinct (map fst (filter P ps))"
  by (simp add: distinct_map_filter)

lemma defined_json_ok:
  "distinct (map fst ps) \<Longrightarrow> \<forall>p\<in>set ps. \<not> is_index_key (fst p) \<Longrightarrow>
   \<forall>p\<in>set ps. snd p = JUndef \<or> json_ok (snd p) \<Longrightarrow> json_ok (JObj (defined ps))"
  by (auto simp: defined_def distinct_fst_filter intro!: plain_keys_wf)

definition message_ok :: "Message \<Rightarrow> bool" where
  "message_ok m \<longleftrightarrow> (errorCode m = JUndef \<or> json_ok (errorCode m)) \<and>
     (case reasoning m of None \<Rightarrow> True | Some r \<Rightarrow> num_ok (duration r))"

lemmas key_facts = is_index_key_def js_def is_digit_def

lemma version_roundtrip: "version_of_json (version_json v) = Some v"
  by (simp add: version_of_json_def version_json_def obj_get_def)

lemma source_roundtrip: "source_of_json (source_json p) = Some p"
  by (simp add: source_of_json_def source_json_def obj_get_def)

lemma reasoning_roundtrip: "reasoning_of_json (reasoning_json r) = Some r"
  by (simp add: reasoning_of_json_def reasoning_json_def obj_get_def)

lemma as_list_roundtrip:
  assumes "\<And>x. f (g x) = Some x"
  shows "as_list f (JArr (map g xs)) = Some xs"
proof -
  have "those (map f (map g xs)) = Some xs" by (induction xs) (simp_all add: assms)
  then show ?thesis by (simp add: as_list_def)
qed

lemma as_opt_roundtrip:
  "(\<And>x. f (g x) = Some x) \<Longrightarrow> (\<And>x. g x \<noteq> JUndef) \<Longrightarrow> as_opt f (opt_json g x) = Some x"
  by (cases x) (simp_all add: as_opt_def opt_json_def)

lemma role_roundtrip: "role_of (JStr (role_name r)) = Some r"
  by (cases r) (simp_all add: role_of_def role_name_def)

lemma status_roundtrip: "status_of (JStr (status_name s)) = Some s"
  by (cases s) (simp_all add: status_of_def status_name_def)

lemma message_roundtrip: "message_of_json (message_json m) = Some m"
proof -
  have "as_opt (as_list source_of_json) (opt_json (\<lambda>ps. JArr (map source_json ps)) (sources m)) = Some (sources m)"
    by (rule as_opt_roundtrip) (simp_all add: as_list_roundtrip source_roundtrip)
  moreover have "as_opt reasoning_of_json (opt_json reasoning_json (reasoning m)) = Some (reasoning m)"
    by (rule as_opt_roundtrip) (simp_all add: reasoning_roundtrip, simp add: reasoning_json_def)
  moreover have "as_opt as_bool (opt_json JBool b) = Some b" for b
    by (rule as_opt_roundtrip) simp_all
  moreover have "as_opt status_of (opt_json (\<lambda>s. JStr (status_name s)) (status m)) = Some (status m)"
    by (rule as_opt_roundtrip) (simp_all add: status_roundtrip)
  ultimately show ?thesis
    by (simp add: message_of_json_def message_json_def obj_get_defined)
       (simp add: obj_get_def role_roundtrip as_list_roundtrip version_roundtrip)
qed

lemma opt_json_ok: "(\<And>y. x = Some y \<Longrightarrow> json_ok (f y)) \<Longrightarrow> opt_json f x = JUndef \<or> json_ok (opt_json f x)"
  by (cases x) (simp_all add: opt_json_def)

lemma parts_json_ok:
  "json_ok (version_json v)" "json_ok (source_json p)" "num_ok (duration r) \<Longrightarrow> json_ok (reasoning_json r)"
  by (auto simp: version_json_def source_json_def reasoning_json_def key_facts intro!: plain_keys_wf)

lemma message_json_ok:
  assumes "message_ok m"
  shows "json_ok (message_json m)"
proof -
  have "opt_json (\<lambda>ps. JArr (map source_json ps)) (sources m) = JUndef
      \<or> json_ok (opt_json (\<lambda>ps. JArr (map source_json ps)) (sources m))"
    by (rule opt_json_ok) (simp add: parts_json_ok)
  moreover have "opt_json reasoning_json (reasoning m) = JUndef \<or> json_ok (opt_json reasoning_json (reasoning m))"
    using assms by (intro opt_json_ok parts_json_ok) (simp add: message_ok_def)
  moreover have "opt_json JBool b = JUndef \<or> json_ok (opt_json JBool b)" for b
    by (rule opt_json_ok) simp
  moreover have "opt_json (\<lambda>s. JStr (status_name s)) t = JUndef \<or> json_ok (opt_json (\<lambda>s. JStr (status_name s)) t)" for t
    by (rule opt_json_ok) simp
  moreover have "errorCode m = JUndef \<or> json_ok (errorCode m)" using assms by (simp add: message_ok_def)
  ultimately show ?thesis
    unfolding message_json_def
    by (intro defined_json_ok) (simp_all add: key_facts parts_json_ok)
qed

lemma those_messages: "those (map (message_of_json \<circ> message_json) ms) = Some ms"
  by (induction ms) (simp_all add: message_roundtrip)

lemma load_saved_messages:
  assumes "open_storage s" "\<forall>m\<in>set ms. message_ok m"
  shows "fst (loadMessages (saveMessages ms s)) = Loaded (sanitizeMessagesOnLoad ms)"
proof -
  have ok: "json_ok (JArr (map message_json ms))" using assms(2) by (auto simp: message_json_ok)
  then have "json_parse (ser (JArr (map message_json ms))) = Some (JArr (map message_json ms))"
    by (rule json_roundtrip)
  moreover have "json_text (JArr (map message_json ms)) = ser (JArr (map message_json ms))"
    by (simp add: json_text_def json_stringify_def)
  moreover have "ser (JArr (map message_json ms)) \<noteq> []" using json_ok_ser_hd [OF ok] by blast
  ultimately show ?thesis using assms(1)
    by (simp add: loadMessages_def saveMessages_def get_try_set those_messages del: ser.simps)
qed

interpretation configSlot: storage_slot CONFIG_KEY saveConfig loadConfig JObj "\<lambda>c. json_ok (JObj c)"
  by unfold_locales
    (auto simp: saveConfig_def loadConfig_def load_json_try_set try_set_other try_set_open
      simp del: json_ok.simps, simp add: load_json_def get_item_def open_storage_def)

interpretation enabledSlot: storage_slot PARAMETER_ENABLED_KEY saveParameterEnabled loadParameterEnabled
    JObj "\<lambda>c. json_ok (JObj c)"
  by unfold_locales
    (auto simp: saveParameterEnabled_def loadParameterEnabled_def load_json_try_set try_set_other try_set_open
      simp del: json_ok.simps, simp add: load_json_def get_item_def open_storage_def)

interpretation messageSlot: storage_slot MESSAGES_KEY saveMessages "\<lambda>s. fst (loadMessages s)"
    "\<lambda>ms. Loaded (sanitizeMessagesOnLoad ms)" "\<lambda>ms. \<forall>m\<in>set ms. message_ok m"
  by unfold_locales
    (auto simp: load_saved_messages intro: loadMessages_local, simp_all add: saveMessages_def try_set_other try_set_open)

interpretation configEnabled: two_slots CONFIG_KEY saveConfig loadConfig JObj "\<lambda>c. json_ok (JObj c)"
    PARAMETER_ENABLED_KEY saveParameterEnabled loadParameterEnabled JObj "\<lambda>c. json_ok (JObj c)"
  by unfold_locales (simp add: CONFIG_KEY_def PARAMETER_ENABLED_KEY_def)

interpretation configMessages: two_slots CONFIG_KEY saveConfig loadConfig JObj "\<lambda>c. json_ok (JObj c)"
    MESSAGES_KEY saveMessages "\<lambda>s. fst (loadMessages s)"
    "\<lambda>ms. Loaded (sanitizeMessagesOnLoad ms)" "\<lambda>ms. \<forall>m\<in>set ms. message_ok m"
  by unfold_locales (simp add: CONFIG_KEY_def MESSAGES_KEY_def)

interpretation enabledMessages: two_slots PARAMETER_ENABLED_KEY saveParameterEnabled loadParameterEnabled JObj
    "\<lambda>c. json_ok (JObj c)" MESSAGES_KEY saveMessages "\<lambda>s. fst (loadMessages s)"
    "\<lambda>ms. Loaded (sanitizeMessagesOnLoad ms)" "\<lambda>ms. \<forall>m\<in>set ms. message_ok m"
  by unfold_locales (simp add: PARAMETER_ENABLED_KEY_def MESSAGES_KEY_def)

section \<open>The page and its stored copy\<close>

text \<open>
  \<open>visited st\<close>: the states a page can be in, from a first visit with empty storage, through the
  hook's actions and through reloads. The storage works, and what the actions are given can be
  written as JSON.
\<close>

datatype state_action =
    SetConfig jstr jsval | SetEnabled jstr bool | SetMessages "Message list" | ClearMessages | ResetConfig

fun apply_action :: "state_action \<Rightarrow> playground \<Rightarrow> playground" where
  "apply_action (SetConfig k v) st = updateConfig k v st"
| "apply_action (SetEnabled k b) st = updateParameterEnabled k b st"
| "apply_action (SetMessages ms) st = updateMessages (\<lambda>_. ms) st"
| "apply_action ClearMessages st = clearMessages st"
| "apply_action ResetConfig st = resetConfig st"

fun action_ok :: "state_action \<Rightarrow> bool" where
  "action_ok (SetConfig k v) = json_ok v"
| "action_ok (SetMessages ms) = (\<forall>m\<in>set ms. message_ok m)"
| "action_ok _ = True"

inductive visited :: "playground \<Rightarrow> bool" where
  first: "open_storage s \<Longrightarrow> items s = [] \<Longrightarrow> usePlaygroundState s = Some st \<Longrightarrow> visited st"
| act: "visited st \<Longrightarrow> action_ok a \<Longrightarrow> visited (apply_action a st)"
| reload: "visited st \<Longrightarrow> usePlaygroundState (storage st) = Some st' \<Longrightarrow> visited st'"

definition obj_ok :: "(jstr \<times> jsval) list \<Rightarrow> (jstr \<times> jsval) list \<Rightarrow> jsval \<Rightarrow> bool" where
  "obj_ok dflt cur saved \<longleftrightarrow> json_ok (JObj cur) \<and> fst ` set dflt \<subseteq> fst ` set cur \<and>
     (saved = JObj [] \<and> cur = dflt \<or> (\<exists>ps. saved = JObj ps \<and> json_ok (JObj ps) \<and> map_of dflt ++ map_of ps = map_of cur))"

definition messages_ok :: "Message list \<Rightarrow> LoadedMessages \<Rightarrow> bool" where
  "messages_ok ms l \<longleftrightarrow> (\<forall>m\<in>set ms. message_ok m) \<and>
     (l = NoMessages \<and> ms = [] \<or> l = Loaded (sanitizeMessagesOnLoad ms))"

definition page_ok :: "playground \<Rightarrow> bool" where
  "page_ok st \<longleftrightarrow> open_storage (storage st)
     \<and> obj_ok DEFAULT_CONFIG (config st) (loadConfig (storage st))
     \<and> obj_ok DEFAULT_PARAMETER_ENABLED (parameterEnabled st) (loadParameterEnabled (storage st))
     \<and> messages_ok (messages st) (fst (loadMessages (storage st)))"

lemma json_ok_spread:
  assumes "json_ok (JObj base)" "json_ok (JObj ps)"
  shows "json_ok (JObj (spread base (JObj ps)))"
proof -
  have "json_ok (JObj b) \<Longrightarrow> \<forall>p\<in>set qs. json_ok (snd p) \<Longrightarrow>
      json_ok (JObj (foldl (\<lambda>m p. obj_set (fst p) (snd p) m) b qs))" for b qs
    by (induction qs arbitrary: b) (simp_all add: json_ok_obj_set del: json_ok.simps(7))
  with assms show ?thesis by (auto simp: spread_def simp del: json_ok.simps(7) simp add: json_ok.simps(7) [of ps])
qed

lemma defaults_ok: "json_ok (JObj DEFAULT_CONFIG)" "json_ok (JObj DEFAULT_PARAMETER_ENABLED)"
proof -
  have "num_ok (Fin 1)" "num_ok (Fin 4096)" "num_ok (Fin 0)"
    using num_ok_nat [of 1] num_ok_nat [of 4096] num_ok_nat [of 0] by simp_all
  then show "json_ok (JObj DEFAULT_CONFIG)"
    by (auto simp: DEFAULT_CONFIG_def num_ok_seven_tenths intro!: plain_keys_wf)
       (simp_all add: key_facts)
  show "json_ok (JObj DEFAULT_PARAMETER_ENABLED)"
    by (auto simp: DEFAULT_PARAMETER_ENABLED_def intro!: plain_keys_wf) (simp_all add: key_facts)
qed

lemma map_add_cover: "fst ` set d \<subseteq> fst ` set c \<Longrightarrow> map_of d ++ map_of c = map_of c"
proof -
  assume "fst ` set d \<subseteq> fst ` set c"
  then have "dom (map_of d) \<subseteq> dom (map_of c)" by (simp add: dom_map_of_conv_image_fst)
  then show ?thesis by (auto simp: fun_eq_iff map_add_def dom_def split: option.splits)
qed

lemma obj_ok_saved:
  "json_ok (JObj cur) \<Longrightarrow> fst ` set d \<subseteq> fst ` set cur \<Longrightarrow> obj_ok d cur (JObj cur)"
  by (auto simp: obj_ok_def map_add_cover simp del: json_ok.simps)

lemma obj_ok_spread:
  assumes "obj_ok d cur saved" "json_ok (JObj d)"
  shows "map_of (spread d saved) = map_of cur" "obj_ok d (spread d saved) saved"
proof -
  from assms(1) consider "saved = JObj []" "cur = d"
    | ps where "saved = JObj ps" "json_ok (JObj ps)" "map_of d ++ map_of ps = map_of cur"
    by (auto simp: obj_ok_def simp del: json_ok.simps)
  then have "map_of (spread d saved) = map_of cur \<and> obj_ok d (spread d saved) saved"
  proof cases
    case 1
    with assms show ?thesis by (simp add: spread_def)
  next
    case 2
    then have m: "map_of (spread d saved) = map_of d ++ map_of ps" by (simp add: map_of_spread)
    then have "dom (map_of d) \<subseteq> dom (map_of (spread d saved))" by auto
    moreover have "fst ` set (spread d saved) = fst ` set cur"
      using m 2(3) by (metis dom_map_of_conv_image_fst)
    ultimately show ?thesis using 2 m json_ok_spread [OF assms(2) 2(2)]
      by (simp add: obj_ok_def dom_map_of_conv_image_fst del: json_ok.simps)
  qed
  then show "map_of (spread d saved) = map_of cur" "obj_ok d (spread d saved) saved" by auto
qed

lemma sanitize_message_ok: "\<forall>m\<in>set ms. message_ok m \<Longrightarrow> \<forall>m\<in>set (sanitizeMessagesOnLoad ms). message_ok m"
proof -
  assume ok: "\<forall>m\<in>set ms. message_ok m"
  have one: "message_ok (sanitize_one m)" if "message_ok m" for m
  proof -
    have "num_ok (Fin 0)" using num_ok_nat [of 0] by simp
    with that show ?thesis
      by (auto simp: message_ok_def sanitize_one_def finalizeMessage_def updateCurrentVersionContent_def
          Let_def num_or_zero_def split: option.splits)
  qed
  show ?thesis
  proof (cases "scan_down is_stuck ms (length ms)")
    case None
    with ok show ?thesis by (simp add: sanitizeMessagesOnLoad_def)
  next
    case (Some i)
    from scan_down_Some [OF this] ok have "message_ok (ms ! i)" by simp
    with Some ok one set_update_subset_insert [of ms i "sanitize_one (ms ! i)"]
    show ?thesis by (auto simp: sanitizeMessagesOnLoad_def)
  qed
qed

lemma sanitize_settled: "scan_down is_stuck ms (length ms) = None \<Longrightarrow> sanitizeMessagesOnLoad ms = ms"
  by (simp add: sanitizeMessagesOnLoad_def)

lemma loadMessages_effect:
  assumes "loadMessages s = (l, s')" "open_storage s" "messages_ok ms l"
  shows "open_storage s'" "loadConfig s' = loadConfig s" "loadParameterEnabled s' = loadParameterEnabled s"
    "messages_ok (case l of Loaded xs \<Rightarrow> xs | _ \<Rightarrow> []) (fst (loadMessages s'))"
proof -
  from assms(1) have l: "fst (loadMessages s) = l" by simp
  have san: "l = Loaded xs \<Longrightarrow> \<forall>m\<in>set xs. message_ok m" for xs
    using assms(3) sanitize_message_ok by (auto simp: messages_ok_def)
  have eff: "s' = s \<and> (\<forall>xs. l = Loaded xs \<longrightarrow> sanitizeMessagesOnLoad xs = xs)
      \<or> (\<exists>xs. l = Loaded xs \<and> s' = saveMessages xs s)"
    using assms(1) by (auto simp: loadMessages_def sanitize_settled split: option.splits if_splits jsval.splits)
  then show "open_storage s'" "loadConfig s' = loadConfig s" "loadParameterEnabled s' = loadParameterEnabled s"
    using assms(2) messageSlot.save_open configMessages.other_slot_kept enabledMessages.other_slot_kept by auto
  show "messages_ok (case l of Loaded xs \<Rightarrow> xs | _ \<Rightarrow> []) (fst (loadMessages s'))"
    using eff
  proof
    assume "s' = s \<and> (\<forall>xs. l = Loaded xs \<longrightarrow> sanitizeMessagesOnLoad xs = xs)"
    with l san assms(3) show ?thesis by (auto simp: messages_ok_def)
  next
    assume "\<exists>xs. l = Loaded xs \<and> s' = saveMessages xs s"
    with assms(2) san show ?thesis by (auto simp: messages_ok_def load_saved_messages)
  qed
qed

lemma page_reload:
  assumes "page_ok st"
  shows "\<exists>st'. usePlaygroundState (storage st) = Some st' \<and> page_ok st'
    \<and> map_of (config st') = map_of (config st)
    \<and> map_of (parameterEnabled st') = map_of (parameterEnabled st)
    \<and> messages st' = sanitizeMessagesOnLoad (messages st)"
proof -
  obtain l s' where lm: "loadMessages (storage st) = (l, s')" by force
  have ok: "open_storage (storage st)" "messages_ok (messages st) l"
    "obj_ok DEFAULT_CONFIG (config st) (loadConfig (storage st))"
    "obj_ok DEFAULT_PARAMETER_ENABLED (parameterEnabled st) (loadParameterEnabled (storage st))"
    using assms lm by (simp_all add: page_ok_def)
  note eff = loadMessages_effect [OF lm ok(1,2)]
  note cfg = obj_ok_spread [OF ok(3) defaults_ok(1)]
  note par = obj_ok_spread [OF ok(4) defaults_ok(2)]
  define xs where "xs = (case l of Loaded xs \<Rightarrow> xs | _ \<Rightarrow> [])"
  have xs: "xs = sanitizeMessagesOnLoad (messages st)" "l = NoMessages \<and> xs = [] \<or> l = Loaded xs"
    using ok(2) by (auto simp: messages_ok_def xs_def sanitizeMessagesOnLoad_def)
  define st' where "st' = \<lparr>config = spread DEFAULT_CONFIG (loadConfig (storage st)),
     parameterEnabled = spread DEFAULT_PARAMETER_ENABLED (loadParameterEnabled (storage st)),
     messages = xs, storage = s'\<rparr>"
  have "usePlaygroundState (storage st) = Some st'"
    using xs(2) lm by (auto simp: usePlaygroundState_def st'_def)
  moreover have "page_ok st'"
    using eff cfg(2) par(2) by (simp add: page_ok_def st'_def flip: xs_def)
  ultimately show ?thesis using cfg(1) par(1) xs(1) by (auto simp: st'_def)
qed

lemma page_first: "open_storage s \<Longrightarrow> items s = [] \<Longrightarrow> usePlaygroundState s = Some st \<Longrightarrow> page_ok st"
  using defaults_ok
  by (auto simp: usePlaygroundState_def loadMessages_def loadConfig_def loadParameterEnabled_def load_json_def
      get_item_def open_storage_def page_ok_def obj_ok_def messages_ok_def spread_def simp del: json_ok.simps)

lemma page_act:
  assumes "page_ok st" "action_ok a"
  shows "page_ok (apply_action a st)"
proof -
  have op: "open_storage (storage st)" using assms(1) by (simp add: page_ok_def)
  note slots = configEnabled.other_slot_kept configMessages.other_slot_kept enabledMessages.other_slot_kept
    configSlot.save_open enabledSlot.save_open messageSlot.save_open
    configSlot.load_save enabledSlot.load_save messageSlot.load_save
  have c: "json_ok (JObj (config st))" "fst ` set DEFAULT_CONFIG \<subseteq> fst ` set (config st)"
    and e: "json_ok (JObj (parameterEnabled st))"
      "fst ` set DEFAULT_PARAMETER_ENABLED \<subseteq> fst ` set (parameterEnabled st)"
    using assms(1) by (simp_all add: page_ok_def obj_ok_def del: json_ok.simps)
  show ?thesis
  proof (cases a)
    case (SetConfig k v)
    with assms(2) c have n: "json_ok (JObj (obj_set k v (config st)))" by (simp add: json_ok_obj_set del: json_ok.simps(7))
    have "obj_ok DEFAULT_CONFIG (obj_set k v (config st)) (JObj (obj_set k v (config st)))"
      using n c(2) by (intro obj_ok_saved) auto
    with SetConfig assms(1) n op show ?thesis
      by (simp add: page_ok_def updateConfig_def Let_def slots del: json_ok.simps)
  next
    case (SetEnabled k b)
    have n: "json_ok (JObj (obj_set k (JBool b) (parameterEnabled st)))" using e by (intro json_ok_obj_set) simp_all
    have "obj_ok DEFAULT_PARAMETER_ENABLED (obj_set k (JBool b) (parameterEnabled st))
        (JObj (obj_set k (JBool b) (parameterEnabled st)))"
      using n e(2) by (intro obj_ok_saved) auto
    with SetEnabled assms(1) n op show ?thesis
      by (simp add: page_ok_def updateParameterEnabled_def Let_def slots del: json_ok.simps)
  next
    case (SetMessages ms)
    with assms op show ?thesis
      by (simp add: page_ok_def updateMessages_def Let_def slots messages_ok_def)
  next
    case ClearMessages
    with assms op show ?thesis
      by (simp add: page_ok_def clearMessages_def updateMessages_def Let_def slots messages_ok_def)
  next
    case ResetConfig
    with assms op defaults_ok show ?thesis
      by (simp add: page_ok_def resetConfig_def slots obj_ok_saved del: json_ok.simps)
  qed
qed

lemma visited_page_ok: "visited st \<Longrightarrow> page_ok st"
  by (induction rule: visited.induct) (use page_first page_act page_reload in \<open>fastforce+\<close>)

section \<open>Properties\<close>

text \<open>
  C13. Reloading the page loses nothing: from every state the page can be in, a new visit
  starts with the same configuration and the same parameter switches, and with the same messages,
  of which at most the last stuck one was settled.
\<close>

theorem reload_keeps_state:
  "visited st \<Longrightarrow> \<exists>st'. usePlaygroundState (storage st) = Some st'
     \<and> (\<forall>k. obj_get k (config st') = obj_get k (config st))
     \<and> (\<forall>k. obj_get k (parameterEnabled st') = obj_get k (parameterEnabled st))
     \<and> messages st' = sanitizeMessagesOnLoad (messages st)"
  using page_reload [OF visited_page_ok] by (fastforce simp: obj_get_def)

definition blank_storage :: Storage where
  "blank_storage = \<lparr>items = [], readable = True, accepts = (\<lambda>_ _. True)\<rparr>"

definition first_page :: playground where
  "first_page = \<lparr>config = DEFAULT_CONFIG, parameterEnabled = DEFAULT_PARAMETER_ENABLED, messages = [],
     storage = blank_storage\<rparr>"

lemma visited_first_page: "visited first_page"
  by (rule visited.first [of blank_storage])
     (simp_all add: blank_storage_def first_page_def open_storage_def usePlaygroundState_def loadMessages_def
       loadConfig_def loadParameterEnabled_def load_json_def get_item_def spread_def)

theorem reload_keeps_state_witness:
  "\<exists>st'. usePlaygroundState (storage (apply_action (SetConfig (js ''model'') (JStr (js ''m''))) first_page)) = Some st'
     \<and> obj_get (js ''model'') (config st') = JStr (js ''m'')"
proof -
  have "visited (apply_action (SetConfig (js ''model'') (JStr (js ''m''))) first_page)"
    by (rule visited.act [OF visited_first_page]) simp
  from reload_keeps_state [OF this] show ?thesis by (auto simp: updateConfig_def Let_def)
qed

lemma fold_add_parameter:
  "obj_get k (fold (add_parameter cfg en) ks p) =
     (if k \<in> set ks \<and> truthy (obj_get k en) \<and> \<not> is_nullish (obj_get k cfg) then obj_get k cfg else obj_get k p)"
  by (induction ks arbitrary: p) (auto simp: add_parameter_def)

text \<open>
  The request body: every message sent is a message of the conversation, in order, with its
  role and text; assistant placeholders and other empty assistant messages are not sent. An
  optional parameter is present exactly when it is switched on and set, with the set value.
\<close>

theorem payload_contents:
  "obj_get (js ''messages'') (buildChatCompletionPayload ms cfg en) =
     JArr (map (\<lambda>m. JObj [(js ''role'', JStr (role_name (sender m))),
                          (js ''content'', JStr (content (getCurrentVersion m)))])
       (filter (\<lambda>m. versions m \<noteq> [] \<and> (sender m = Assistant \<longrightarrow> trim (content (getCurrentVersion m)) \<noteq> [])) ms))
   \<and> (\<forall>k\<in>set parameterKeys. obj_get k (buildChatCompletionPayload ms cfg en) =
        (if truthy (obj_get k en) \<and> \<not> is_nullish (obj_get k cfg) then obj_get k cfg else JUndef))"
proof -
  have valid: "isValidMessage = (\<lambda>m. versions m \<noteq> [] \<and> (sender m = Assistant \<longrightarrow> trim (content (getCurrentVersion m)) \<noteq> []))"
    by (auto simp: fun_eq_iff isValidMessage_def getCurrentVersion_def split: list.splits)
  have keys: "js ''messages'' \<notin> set parameterKeys"
    "\<forall>k\<in>set parameterKeys. k \<notin> {js ''model'', js ''group'', js ''messages'', js ''stream''}"
    by (simp_all add: parameterKeys_def)
  have api: "chat_message_json (formatMessageForAPI m) = JObj [(js ''role'', JStr (role_name (sender m))),
      (js ''content'', JStr (content (getCurrentVersion m)))]" for m
    by (simp add: chat_message_json_def formatMessageForAPI_def)
  have "obj_get k (buildChatCompletionPayload ms cfg en) =
      (if truthy (obj_get k en) \<and> \<not> is_nullish (obj_get k cfg) then obj_get k cfg else JUndef)"
    if "k \<in> set parameterKeys" for k
  proof -
    from keys(2) that have "k \<noteq> js ''model''" "k \<noteq> js ''group''" "k \<noteq> js ''messages''" "k \<noteq> js ''stream''"
      by blast+
    with that show ?thesis
      by (simp only: buildChatCompletionPayload_def fold_add_parameter) (simp add: obj_get_def)
  qed
  moreover have "obj_get (js ''messages'') (buildChatCompletionPayload ms cfg en) =
      JArr (map (\<lambda>m. chat_message_json (formatMessageForAPI m)) (filter isValidMessage ms))"
    using keys(1) by (simp only: buildChatCompletionPayload_def fold_add_parameter) (simp add: obj_get_def)
  ultimately show ?thesis unfolding api valid by blast
qed

theorem payload_contents_witness:
  "obj_get (js ''temperature'') (buildChatCompletionPayload [] DEFAULT_CONFIG DEFAULT_PARAMETER_ENABLED)
     = obj_get (js ''temperature'') DEFAULT_CONFIG
   \<and> obj_get (js ''seed'') (buildChatCompletionPayload [] DEFAULT_CONFIG DEFAULT_PARAMETER_ENABLED) = JUndef"
proof -
  have "js ''temperature'' \<in> set parameterKeys" "js ''seed'' \<in> set parameterKeys"
    by (simp_all add: parameterKeys_def)
  with payload_contents [of "[]" DEFAULT_CONFIG DEFAULT_PARAMETER_ENABLED] show ?thesis
    by (simp add: DEFAULT_CONFIG_def DEFAULT_PARAMETER_ENABLED_def obj_get_def)
qed

end
