(* ===== verification/PlaygroundChat.thy ===== *)
theory PlaygroundChat
  imports PlaygroundStore
begin

text \<open>
  A playground conversation as it runs: \<open>hooks/use-stream-request.ts\<close> (the event source),
  \<open>hooks/use-chat-handler.ts\<close> (what its events do to the messages), and the handlers of
  \<open>index.tsx\<close> (send, regenerate, edit, delete).

  A source is a number; \<open>source_ref\<close> is \<open>sseSourceRef.current\<close>, \<open>stream_complete\<close> is
  \<open>isStreamCompleteRef.current\<close>, \<open>open_sources\<close> are the sources the code has opened and not yet
  closed. \<open>pending\<close> counts non-streaming requests that have not been answered. The \<open>SSE\<close> class
  and the HTTP client are third-party: what they deliver is an \<open>event\<close> of the model, with the
  \<open>readyState\<close> and \<open>status\<close> the handler reads at that time. Only open sources deliver events.

  \<open>step\<close> is one turn of the page: a user action, guarded as the view guards it, or an event.
  \<open>reachable\<close> are the states of a page after any number of turns.
\<close>

section \<open>State\<close>

record chat = playground +
  source_ref :: "nat option"
  stream_complete :: bool
  open_sources :: "nat list"
  next_source :: nat
  pending :: nat
  editing_key :: "jstr option"
  toasts :: "jsval list"
  sent :: "(jstr \<times> jsval) list list"

definition isGenerating :: "chat \<Rightarrow> bool" where
  "isGenerating st \<longleftrightarrow> source_ref st \<noteq> None"

section \<open>What an event does to the messages\<close>

datatype update_kind = ReasoningChunk | ContentChunk

definition stream_update :: "update_kind \<Rightarrow> jsval \<Rightarrow> Message \<Rightarrow> Message" where
  "stream_update kind chunk m =
     (if status m = Some Failed then m
      else case kind of
        ReasoningChunk \<Rightarrow>
          m\<lparr>reasoning := Some \<lparr>reasoning_text =
                (case reasoning m of None \<Rightarrow> [] | Some r \<Rightarrow> reasoning_text r) @ to_str chunk, duration = Fin 0\<rparr>,
            isReasoningStreaming := Some True, status := Some Streaming\<rparr>
      | ContentChunk \<Rightarrow> (processStreamingContent m chunk)\<lparr>status := Some Streaming\<rparr>)"

definition stream_finish :: "Message \<Rightarrow> Message" where
  "stream_finish m =
     (if status m = Some Complete \<or> status m = Some Failed then m
      else (finalizeMessage m JUndef)\<lparr>status := Some Complete\<rparr>)"

definition stop_finish :: "Message \<Rightarrow> Message" where
  "stop_finish m =
     (if status m = Some Loading \<or> status m = Some Streaming
      then (finalizeMessage m JUndef)\<lparr>status := Some Complete\<rparr> else m)"

text \<open>
  The answer of a non-streaming request. \<open>{ ...message.versions[0], content }\<close> keeps the
  identifier of the first version; a message without versions gets one without identifier.
  The API's \<open>content\<close> is a string.
\<close>

definition response_finish :: "jsval \<Rightarrow> Message \<Rightarrow> Message" where
  "response_finish choice m =
     (let msg = get_prop (js ''message'') choice;
          c = (if truthy (get_prop (js ''content'') msg) then to_str (get_prop (js ''content'') msg) else []);
          vid = (case versions m of v # _ \<Rightarrow> version_id v | [] \<Rightarrow> []) in
      (finalizeMessage (m\<lparr>versions := [\<lparr>version_id = vid, content = c\<rparr>]\<rparr>)
         (get_prop (js ''reasoning_content'') msg))
        \<lparr>status := Some Complete\<rparr>)"

definition onMessageUpdate :: "(Message list \<Rightarrow> Message list) \<Rightarrow> chat \<Rightarrow> chat" where
  "onMessageUpdate f st = updateMessages f st"

definition handleStreamUpdate :: "update_kind \<Rightarrow> jsval \<Rightarrow> chat \<Rightarrow> chat" where
  "handleStreamUpdate kind chunk st =
     onMessageUpdate (\<lambda>prev. updateLastAssistantMessage prev (stream_update kind chunk)) st"

definition handleStreamComplete :: "chat \<Rightarrow> chat" where
  "handleStreamComplete st = onMessageUpdate (\<lambda>prev. updateLastAssistantMessage prev stream_finish) st"

definition handleStreamError :: "jsval \<Rightarrow> jsval \<Rightarrow> chat \<Rightarrow> chat" where
  "handleStreamError err code st =
     onMessageUpdate (\<lambda>prev. updateAssistantMessageWithError prev err code) (st\<lparr>toasts := toasts st @ [err]\<rparr>)"

section \<open>The event source\<close>

definition closeSource :: "nat \<Rightarrow> chat \<Rightarrow> chat" where
  "closeSource i st = st\<lparr>open_sources := filter (\<lambda>j. j \<noteq> i) (open_sources st), source_ref := None\<rparr>"

definition handleError :: "nat \<Rightarrow> jsval \<Rightarrow> jsval \<Rightarrow> chat \<Rightarrow> chat" where
  "handleError i err code st =
     (if stream_complete st then st else closeSource i (handleStreamError err code st))"

definition DONE :: jstr where "DONE = js ''[DONE]''"

text \<open>\<open>chunk.choices?.[0]?.delta\<close>; reading \<open>choices\<close> of \<open>null\<close> throws.\<close>

definition chunk_delta :: "jsval \<Rightarrow> jsval option" where
  "chunk_delta chunk =
     (if is_nullish chunk then None
      else Some (get_prop (js ''delta'') (get_prop (js ''0'') (get_prop (js ''choices'') chunk))))"

definition on_message :: "nat \<Rightarrow> jstr \<Rightarrow> chat \<Rightarrow> chat" where
  "on_message i data st =
     (if data = DONE then handleStreamComplete (closeSource i (st\<lparr>stream_complete := True\<rparr>))
      else case Option.bind (json_parse data) chunk_delta of
        None \<Rightarrow> handleError i (JStr PARSE_ERROR) JUndef st
      | Some delta \<Rightarrow>
          (if truthy delta
           then let r = get_prop (js ''reasoning_content'') delta;
                    c = get_prop (js ''content'') delta;
                    st1 = (if truthy r then handleStreamUpdate ReasoningChunk r st else st) in
                if truthy c then handleStreamUpdate ContentChunk c st1 else st1
           else st))"

text \<open>The message and the code the \<open>error\<close> listener takes from the event's data (\<open>''\<close> when absent).\<close>

definition error_details :: "jstr \<Rightarrow> jsval \<times> jsval" where
  "error_details data =
     (if data = [] then (JStr API_REQUEST_ERROR, JUndef)
      else case json_parse data of
        None \<Rightarrow> (JStr data, JUndef)
      | Some parsed \<Rightarrow>
          let e = get_prop (js ''error'') parsed in
          if truthy e
          then (js_or (get_prop (js ''message'') e) (JStr data), js_or (get_prop (js ''code'') e) JUndef)
          else (JStr data, JUndef))"

definition on_error :: "nat \<Rightarrow> nat \<Rightarrow> jstr \<Rightarrow> chat \<Rightarrow> chat" where
  "on_error i readyState data st =
     (if readyState \<noteq> 2
      then case error_details data of (err, code) \<Rightarrow> handleError i err code st
      else st)"

definition on_readystatechange :: "nat \<Rightarrow> nat option \<Rightarrow> nat option \<Rightarrow> chat \<Rightarrow> chat" where
  "on_readystatechange i readyState http_status st =
     (case (readyState, http_status) of
        (Some r, Some s) \<Rightarrow>
          (if r \<ge> 2 \<and> s \<noteq> 200
           then handleError i (JStr (js ''HTTP '' @ dec s @ js '': '' @ CONNECTION_CLOSED)) JUndef st
           else st)
      | _ \<Rightarrow> st)"

text \<open>\<open>starts\<close>: whether \<open>source.stream()\<close> returns or throws.\<close>

definition sendStreamRequest :: "bool \<Rightarrow> (jstr \<times> jsval) list \<Rightarrow> chat \<Rightarrow> chat" where
  "sendStreamRequest starts payload st =
     (let st1 = st\<lparr>source_ref := Some (next_source st), next_source := Suc (next_source st),
                   stream_complete := False\<rparr> in
      if starts then st1\<lparr>open_sources := open_sources st @ [next_source st], sent := sent st @ [payload]\<rparr>
      else (handleStreamError (JStr STREAM_START_ERROR) JUndef st1)\<lparr>source_ref := None\<rparr>)"

definition stopStream :: "chat \<Rightarrow> chat" where
  "stopStream st =
     (case source_ref st of
        None \<Rightarrow> st
      | Some i \<Rightarrow> st\<lparr>open_sources := filter (\<lambda>j. j \<noteq> i) (open_sources st), source_ref := None\<rparr>)"

section \<open>Sending and receiving\<close>

definition sendStreamingChat :: "bool \<Rightarrow> Message list \<Rightarrow> chat \<Rightarrow> chat" where
  "sendStreamingChat starts ms st =
     sendStreamRequest starts (buildChatCompletionPayload ms (config st) (parameterEnabled st)) st"

text \<open>A non-streaming request up to its \<open>await\<close>, and the two ways it resumes.\<close>

definition sendNonStreamingChat :: "Message list \<Rightarrow> chat \<Rightarrow> chat" where
  "sendNonStreamingChat ms st =
     st\<lparr>pending := Suc (pending st),
        sent := sent st @ [buildChatCompletionPayload ms (config st) (parameterEnabled st)]\<rparr>"

definition request_failed :: "jsval \<Rightarrow> chat \<Rightarrow> chat" where
  "request_failed err st =
     (let data = get_prop (js ''data'') (get_prop (js ''response'') err) in
      handleStreamError
        (js_or (get_prop (js ''message'') data)
          (js_or (get_prop (js ''message'') err) (JStr API_REQUEST_ERROR)))
        (js_or (get_prop (js ''code'') (get_prop (js ''error'') data)) JUndef) st)"

text \<open>\<open>type_error\<close> is the \<open>TypeError\<close> the engine throws when the response is \<open>null\<close> or \<open>undefined\<close>.\<close>

definition request_answered :: "jsval \<Rightarrow> jsval \<Rightarrow> chat \<Rightarrow> chat" where
  "request_answered type_error response st =
     (if is_nullish response then request_failed type_error st
      else let choice = get_prop (js ''0'') (get_prop (js ''choices'') response) in
        if \<not> truthy choice then st
        else onMessageUpdate (\<lambda>prev. updateLastAssistantMessage prev (response_finish choice)) st)"

definition sendChat :: "bool \<Rightarrow> Message list \<Rightarrow> chat \<Rightarrow> chat" where
  "sendChat starts ms st =
     (if truthy (obj_get (js ''stream'') (config st)) then sendStreamingChat starts ms st
      else sendNonStreamingChat ms st)"

definition stopGeneration :: "chat \<Rightarrow> chat" where
  "stopGeneration st =
     onMessageUpdate (\<lambda>prev. updateLastAssistantMessage prev stop_finish) (stopStream st)"

section \<open>The page's handlers\<close>

text \<open>\<open>n1 \<dots> n4\<close> are the identifiers \<open>nanoid()\<close> yields.\<close>

definition handleSendMessage :: "bool \<Rightarrow> jstr \<times> jstr \<times> jstr \<times> jstr \<Rightarrow> jstr \<Rightarrow> chat \<Rightarrow> chat" where
  "handleSendMessage starts ids txt st =
     (case ids of (n1, n2, n3, n4) \<Rightarrow>
        let newMessages = messages st @ [createUserMessage n1 n2 txt, createLoadingAssistantMessage n3 n4] in
        sendChat starts newMessages (updateMessages (\<lambda>_. newMessages) st))"

definition find_index :: "jstr \<Rightarrow> Message list \<Rightarrow> nat option" where
  "find_index k ms = map_option fst (find (\<lambda>p. message_key (snd p) = k) (zip [0..<length ms] ms))"

definition handleRegenerateMessage :: "bool \<Rightarrow> jstr \<times> jstr \<Rightarrow> jstr \<Rightarrow> chat \<Rightarrow> chat" where
  "handleRegenerateMessage starts ids key st =
     (case find_index key (messages st) of
        None \<Rightarrow> st
      | Some i \<Rightarrow>
          let newMessages = take i (messages st) @ [createLoadingAssistantMessage (fst ids) (snd ids)] in
          sendChat starts newMessages (updateMessages (\<lambda>_. newMessages) st))"

definition handleEditMessage :: "jstr \<Rightarrow> chat \<Rightarrow> chat" where
  "handleEditMessage key st = st\<lparr>editing_key := Some key\<rparr>"

definition handleEditOpenChange :: "bool \<Rightarrow> chat \<Rightarrow> chat" where
  "handleEditOpenChange opened st = (if \<not> opened then st\<lparr>editing_key := None\<rparr> else st)"

definition edit_message :: "jstr \<Rightarrow> Message \<Rightarrow> Message" where
  "edit_message newContent m =
     m\<lparr>versions := [\<lparr>version_id = (case versions m of v # _ \<Rightarrow> version_id v | [] \<Rightarrow> []), content = newContent\<rparr>]\<rparr>"

definition applyEdit :: "bool \<Rightarrow> jstr \<times> jstr \<Rightarrow> jstr \<Rightarrow> bool \<Rightarrow> chat \<Rightarrow> chat" where
  "applyEdit starts ids newContent submit st =
     (case editing_key st of
        None \<Rightarrow> st
      | Some k \<Rightarrow>
          if k = [] then st
          else case find_index k (messages st) of
            None \<Rightarrow> st
          | Some i \<Rightarrow>
              let updated = map (\<lambda>m. if message_key m = k then edit_message newContent m else m) (messages st);
                  st1 = st\<lparr>editing_key := None\<rparr> in
              if \<not> submit \<or> sender (updated ! i) \<noteq> User then updateMessages (\<lambda>_. updated) st1
              else let toSubmit = take (Suc i) updated @ [createLoadingAssistantMessage (fst ids) (snd ids)] in
                sendChat starts toSubmit (updateMessages (\<lambda>_. toSubmit) st1))"

definition handleDeleteMessage :: "jstr \<Rightarrow> chat \<Rightarrow> chat" where
  "handleDeleteMessage key st =
     updateMessages (\<lambda>_. filter (\<lambda>m. message_key m \<noteq> key) (messages st)) st"

text \<open>The two effects that keep the chosen model and group available.\<close>

definition pick_model :: "jstr list \<Rightarrow> chat \<Rightarrow> chat" where
  "pick_model available st =
     (if available \<noteq> [] \<and> obj_get (js ''model'') (config st) \<notin> JStr ` set available
      then updateConfig (js ''model'') (JStr (hd available)) st else st)"

definition pick_group :: "jstr list \<Rightarrow> chat \<Rightarrow> chat" where
  "pick_group available st =
     (if obj_get (js ''group'') (config st) \<notin> JStr ` set available \<and> available \<noteq> []
      then updateConfig (js ''group'')
        (JStr (if js ''default'' \<in> set available then js ''default'' else hd available)) st
      else st)"

section \<open>Turns of the page\<close>

text \<open>
  What the view lets the user do (\<open>components/playground-input.tsx\<close>, \<open>message-actions.tsx\<close>,
  \<open>playground-chat.tsx\<close>): the text field refuses while a source is referenced and refuses blank
  text; the message actions refuse while a source is referenced; a suggestion and the two save
  buttons of an open edit are not guarded by it.
\<close>

inductive step :: "chat \<Rightarrow> chat \<Rightarrow> bool" where
  submit: "\<not> isGenerating st \<Longrightarrow> trim txt \<noteq> [] \<Longrightarrow> step st (handleSendMessage starts ids txt st)"
| suggestion: "step st (handleSendMessage starts ids txt st)"
| regenerate: "\<not> isGenerating st \<Longrightarrow> step st (handleRegenerateMessage starts ids2 key st)"
| edit: "\<not> isGenerating st \<Longrightarrow> step st (handleEditMessage key st)"
| close_edit: "step st (handleEditOpenChange opened st)"
| save_edit: "trim txt \<noteq> [] \<Longrightarrow> step st (applyEdit starts ids2 txt submits st)"
| delete: "\<not> isGenerating st \<Longrightarrow> step st (handleDeleteMessage key st)"
| stop: "isGenerating st \<Longrightarrow> step st (stopGeneration st)"
| models: "step st (pick_model available st)"
| groups: "step st (pick_group available st)"
| message: "i \<in> set (open_sources st) \<Longrightarrow> step st (on_message i data st)"
| error: "i \<in> set (open_sources st) \<Longrightarrow> step st (on_error i ready data st)"
| readystate: "i \<in> set (open_sources st) \<Longrightarrow> step st (on_readystatechange i r s st)"
| answered: "0 < pending st \<Longrightarrow> step st (request_answered te resp (st\<lparr>pending := pending st - 1\<rparr>))"
| failed: "0 < pending st \<Longrightarrow> step st (request_failed err (st\<lparr>pending := pending st - 1\<rparr>))"

definition new_chat :: "playground \<Rightarrow> chat" where
  "new_chat p = playground.extend p
     \<lparr>source_ref = None, stream_complete = False, open_sources = [], next_source = 0, pending = 0,
      editing_key = None, toasts = [], sent = []\<rparr>"

inductive reachable :: "playground \<Rightarrow> chat \<Rightarrow> bool" for p where
  start: "reachable p (new_chat p)"
| turn: "reachable p st \<Longrightarrow> step st st' \<Longrightarrow> reachable p st'"

section \<open>The contract of an update\<close>

text \<open>
  Every event handler obeys one contract: it changes no message but the last, and that one only
  if it is the assistant's; keys and senders stay.
\<close>

definition only_last :: "Message list \<Rightarrow> Message list \<Rightarrow> bool" where
  "only_last ms ms' \<longleftrightarrow> map message_key ms' = map message_key ms \<and> map sender ms' = map sender ms
     \<and> butlast ms' = butlast ms \<and> ((ms = [] \<or> sender (last ms) \<noteq> Assistant) \<longrightarrow> ms' = ms)"

lemma only_last_kept:
  assumes "only_last ms ms'" "j < length ms" "Suc j < length ms \<or> sender (ms ! j) = User"
  shows "length ms' = length ms \<and> ms' ! j = ms ! j"
proof
  show len: "length ms' = length ms" using assms(1) by (metis length_map only_last_def)
  show "ms' ! j = ms ! j"
  proof (cases "Suc j < length ms")
    case True
    then have "ms' ! j = butlast ms' ! j" "ms ! j = butlast ms ! j" by (simp_all add: nth_butlast len)
    with assms(1) show ?thesis by (simp add: only_last_def)
  next
    case False
    with assms(2,3) have "j = length ms - 1" "ms \<noteq> []" "sender (ms ! j) = User" by auto
    then have "sender (last ms) \<noteq> Assistant" by (simp add: last_conv_nth)
    with assms(1) show ?thesis by (simp add: only_last_def)
  qed
qed

locale assistant_updater =
  fixes f :: "chat \<Rightarrow> chat"
  assumes updates: "only_last (messages st) (messages (f st))"
begin

lemma keys: "map message_key (messages (f st)) = map message_key (messages st)"
  using updates [of st] by (simp add: only_last_def)

lemma kept: "j < length (messages st) \<Longrightarrow> Suc j < length (messages st) \<or> sender (messages st ! j) = User \<Longrightarrow>
    length (messages (f st)) = length (messages st) \<and> messages (f st) ! j = messages st ! j"
  using updates by (rule only_last_kept)

end

lemma only_last_refl [simp]: "only_last ms ms"
  by (simp add: only_last_def)

lemma only_last_trans: "only_last a b \<Longrightarrow> only_last b c \<Longrightarrow> only_last a c"
proof -
  assume ab: "only_last a b" and bc: "only_last b c"
  show ?thesis
  proof (cases "a = [] \<or> sender (last a) \<noteq> Assistant")
    case True
    with ab have "b = a" by (simp add: only_last_def)
    with bc show ?thesis by simp
  next
    case False
    with ab bc show ?thesis by (auto simp: only_last_def)
  qed
qed

definition keeps_identity :: "(Message \<Rightarrow> Message) \<Rightarrow> bool" where
  "keeps_identity u \<longleftrightarrow> (\<forall>m. message_key (u m) = message_key m \<and> sender (u m) = sender m)"

lemma only_last_update:
  assumes "keeps_identity u"
  shows "only_last ms (updateLastAssistantMessage ms u)"
proof (cases ms rule: rev_cases)
  case Nil
  then show ?thesis by (simp add: updateLastAssistantMessage_def)
next
  case (snoc xs x)
  with assms show ?thesis
    by (auto simp: updateLastAssistantMessage_def only_last_def keeps_identity_def)
qed

lemma updaters_keep_identity [simp]:
  "keeps_identity (stream_update kind chunk)" "keeps_identity stream_finish" "keeps_identity stop_finish"
  "keeps_identity (response_finish choice)"
  "keeps_identity (\<lambda>m. (updateCurrentVersionContent m c)\<lparr>status := s, isReasoningStreaming := b, errorCode := e\<rparr>)"
  by (simp_all add: keeps_identity_def stream_update_def stream_finish_def stop_finish_def response_finish_def
      Let_def split: update_kind.split)

lemma messages_onMessageUpdate [simp]: "messages (onMessageUpdate f st) = f (messages st)"
  by (simp add: onMessageUpdate_def updateMessages_def Let_def)

lemma onMessageUpdate_keeps [simp]:
  "source_ref (onMessageUpdate f st) = source_ref st"
  "stream_complete (onMessageUpdate f st) = stream_complete st"
  "open_sources (onMessageUpdate f st) = open_sources st"
  "next_source (onMessageUpdate f st) = next_source st"
  "pending (onMessageUpdate f st) = pending st"
  "config (onMessageUpdate f st) = config st"
  "parameterEnabled (onMessageUpdate f st) = parameterEnabled st"
  "editing_key (onMessageUpdate f st) = editing_key st"
  "sent (onMessageUpdate f st) = sent st"
  by (simp_all add: onMessageUpdate_def updateMessages_def Let_def)

lemma messages_closeSource [simp]: "messages (closeSource i st) = messages st"
  by (simp add: closeSource_def)

lemma messages_stopStream [simp]: "messages (stopStream st) = messages st"
  by (simp add: stopStream_def split: option.split)

lemma messages_handleStreamError:
  "messages (handleStreamError err code st) = updateAssistantMessageWithError (messages st) err code"
  by (simp add: handleStreamError_def)

lemma only_last_error: "only_last ms (updateAssistantMessageWithError ms err code)"
  unfolding updateAssistantMessageWithError_def by (rule only_last_update) simp

lemma only_last_handleError: "only_last (messages st) (messages (handleError i err code st))"
  by (simp add: handleError_def messages_handleStreamError only_last_error)

interpretation updateU: assistant_updater "handleStreamUpdate kind chunk"
  by unfold_locales (simp add: handleStreamUpdate_def only_last_update)

interpretation messageU: assistant_updater "on_message i data"
proof
  fix st :: chat
  have up: "only_last (messages st) (messages (handleStreamUpdate k c st))" for k c and st :: chat
    by (rule updateU.updates)
  show "only_last (messages st) (messages (on_message i data st))"
    by (auto simp: on_message_def Let_def handleStreamComplete_def only_last_update only_last_handleError
        intro: up only_last_trans [OF up up] split: option.split)
qed

interpretation errorU: assistant_updater "on_error i ready data"
  by unfold_locales (simp add: on_error_def only_last_handleError split: prod.split)

interpretation readyU: assistant_updater "on_readystatechange i r s"
  by unfold_locales (simp add: on_readystatechange_def only_last_handleError split: option.split)

interpretation stopU: assistant_updater stopGeneration
  by unfold_locales (simp add: stopGeneration_def only_last_update)

interpretation failedU: assistant_updater "request_failed err"
  by unfold_locales (simp add: request_failed_def Let_def messages_handleStreamError only_last_error)

interpretation answeredU: assistant_updater "request_answered te resp"
  by unfold_locales
    (simp add: request_answered_def Let_def failedU.updates only_last_update)

section \<open>Two phases\<close>

text \<open>
  While requests are started one at a time and answers are streamed, the page is in one of two
  phases: idle, with no source and no message left loading or streaming, or busy, with exactly one
  source, which is the referenced one, and only the last message possibly unsettled.
\<close>

definition no_stuck :: "Message list \<Rightarrow> bool" where
  "no_stuck ms \<longleftrightarrow> (\<forall>m\<in>set ms. \<not> is_stuck m)"

definition streaming_on :: "'a playground_scheme \<Rightarrow> bool" where
  "streaming_on st \<longleftrightarrow> truthy (obj_get (js ''stream'') (config st))"

definition idle :: "chat \<Rightarrow> bool" where
  "idle st \<longleftrightarrow> source_ref st = None \<and> open_sources st = [] \<and> no_stuck (messages st)"

definition busy :: "chat \<Rightarrow> bool" where
  "busy st \<longleftrightarrow> (\<exists>i. source_ref st = Some i \<and> open_sources st = [i]) \<and> \<not> stream_complete st
     \<and> messages st \<noteq> [] \<and> sender (last (messages st)) = Assistant \<and> no_stuck (butlast (messages st))"

definition phased :: "chat \<Rightarrow> bool" where
  "phased st \<longleftrightarrow> streaming_on st \<and> pending st = 0 \<and> (idle st \<or> busy st)"

text \<open>Runs in which a request is started only while no source is referenced.\<close>

inductive exclusive :: "playground \<Rightarrow> chat \<Rightarrow> bool" for p where
  start: "exclusive p (new_chat p)"
| turn: "exclusive p st \<Longrightarrow> step st st' \<Longrightarrow> source_ref st = None \<or> next_source st' = next_source st \<Longrightarrow>
    exclusive p st'"

lemma exclusive_reachable: "exclusive p st \<Longrightarrow> reachable p st"
  by (induction rule: exclusive.induct) (auto intro: reachable.intros)

definition settles :: "(Message \<Rightarrow> Message) \<Rightarrow> bool" where
  "settles u \<longleftrightarrow> (\<forall>m. \<not> is_stuck (u m))"

lemma settles_simps [simp]:
  "settles stream_finish" "settles stop_finish"
  "settles (\<lambda>m. (updateCurrentVersionContent m c)\<lparr>status := Some Failed, isReasoningStreaming := b, errorCode := e\<rparr>)"
  by (auto simp: settles_def is_stuck_def stream_finish_def stop_finish_def)

lemma settled_update:
  assumes "settles u" "ms \<noteq> []" "sender (last ms) = Assistant" "no_stuck (butlast ms)"
  shows "no_stuck (updateLastAssistantMessage ms u)"
  using assms by (cases ms rule: rev_cases) (auto simp: no_stuck_def settles_def updateLastAssistantMessage_def)

lemma busy_update:
  "busy st \<Longrightarrow> only_last (messages st) ms \<Longrightarrow> ms \<noteq> [] \<and> sender (last ms) = Assistant \<and> no_stuck (butlast ms)"
proof -
  assume b: "busy st" and o: "only_last (messages st) ms"
  from o have s: "map sender ms = map sender (messages st)" "butlast ms = butlast (messages st)"
    by (simp_all add: only_last_def)
  from b have ne: "messages st \<noteq> []" "sender (last (messages st)) = Assistant" by (simp_all add: busy_def)
  with s(1) have "ms \<noteq> []" by auto
  moreover have "sender (last ms) = Assistant"
    using s(1) ne \<open>ms \<noteq> []\<close> by (metis last_map)
  ultimately show ?thesis using s(2) b by (simp add: busy_def)
qed

lemma no_stuck_butlast: "no_stuck ms \<Longrightarrow> no_stuck (butlast ms)"
  by (auto simp: no_stuck_def dest: in_set_butlastD)

lemma phased_onMessageUpdate_busy:
  "phased st \<Longrightarrow> busy st \<Longrightarrow> keeps_identity u \<Longrightarrow>
   phased (onMessageUpdate (\<lambda>prev. updateLastAssistantMessage prev u) st)
   \<and> busy (onMessageUpdate (\<lambda>prev. updateLastAssistantMessage prev u) st)"
  using busy_update [OF _ only_last_update]
  by (auto simp: phased_def busy_def streaming_on_def)

lemma handleStreamUpdate_phased:
  "phased st \<Longrightarrow> busy st \<Longrightarrow> phased (handleStreamUpdate k c st) \<and> busy (handleStreamUpdate k c st)"
  by (simp add: handleStreamUpdate_def phased_onMessageUpdate_busy)

lemma handleError_settles:
  assumes "phased st" "busy st" "i \<in> set (open_sources st)"
  shows "phased (handleError i err code st)" "idle (handleError i err code st)"
proof -
  have "no_stuck (updateAssistantMessageWithError (messages st) err code)"
    using assms(2) unfolding updateAssistantMessageWithError_def
    by (intro settled_update) (simp_all add: busy_def)
  with assms show "idle (handleError i err code st)"
    by (auto simp: handleError_def busy_def idle_def closeSource_def handleStreamError_def)
  then show "phased (handleError i err code st)"
    using assms by (auto simp: phased_def handleError_def closeSource_def handleStreamError_def streaming_on_def)
qed

lemma done_settles:
  assumes "phased st" "busy st" "i \<in> set (open_sources st)"
  shows "phased (on_message i DONE st)" "idle (on_message i DONE st)"
proof -
  have "no_stuck (updateLastAssistantMessage (messages st) stream_finish)"
    using assms(2) by (intro settled_update) (simp_all add: busy_def)
  with assms show "idle (on_message i DONE st)"
    by (auto simp: on_message_def idle_def busy_def closeSource_def handleStreamComplete_def)
  then show "phased (on_message i DONE st)"
    using assms by (auto simp: phased_def on_message_def closeSource_def handleStreamComplete_def streaming_on_def)
qed

lemma stop_settles:
  assumes "phased st" "busy st"
  shows "phased (stopGeneration st)" "idle (stopGeneration st)"
proof -
  have "no_stuck (updateLastAssistantMessage (messages st) stop_finish)"
    using assms(2) by (intro settled_update) (simp_all add: busy_def)
  with assms show "idle (stopGeneration st)"
    by (auto simp: stopGeneration_def idle_def busy_def stopStream_def)
  then show "phased (stopGeneration st)"
    using assms by (auto simp: phased_def stopGeneration_def stopStream_def streaming_on_def split: option.split)
qed

lemma on_message_phased:
  assumes "phased st" "busy st" "i \<in> set (open_sources st)"
  shows "phased (on_message i data st)"
proof (cases "data = DONE")
  case True
  with done_settles [OF assms] show ?thesis by simp
next
  case False
  with assms handleError_settles [OF assms] handleStreamUpdate_phased show ?thesis
    by (auto simp: on_message_def Let_def split: option.split)
qed

lemma on_error_phased:
  "phased st \<Longrightarrow> busy st \<Longrightarrow> i \<in> set (open_sources st) \<Longrightarrow> phased (on_error i ready data st)"
  by (auto simp: on_error_def handleError_settles split: prod.split)

lemma on_readystatechange_phased:
  "phased st \<Longrightarrow> busy st \<Longrightarrow> i \<in> set (open_sources st) \<Longrightarrow> phased (on_readystatechange i r s st)"
  by (auto simp: on_readystatechange_def handleError_settles split: option.split)

lemma updateMessages_simps [simp]:
  "messages (updateMessages f st) = f (messages st)" "config (updateMessages f st) = config st"
  by (simp_all add: updateMessages_def Let_def)

lemma updateMessages_chat [simp]:
  "source_ref (updateMessages f st) = source_ref st" "open_sources (updateMessages f st) = open_sources st"
  "next_source (updateMessages f st) = next_source st" "pending (updateMessages f st) = pending st"
  "stream_complete (updateMessages f st) = stream_complete st" "editing_key (updateMessages f st) = editing_key st"
  by (simp_all add: updateMessages_def Let_def)

lemma sendChat_phased:
  assumes "streaming_on st" "pending st = 0" "source_ref st = None" "open_sources st = []"
    "messages st = xs @ [createLoadingAssistantMessage n1 n2]" "no_stuck xs"
  shows "phased (sendChat starts ms st)"
proof (cases starts)
  case True
  with assms show ?thesis
    by (auto simp: phased_def sendChat_def sendStreamingChat_def sendStreamRequest_def streaming_on_def busy_def
        createLoadingAssistantMessage_def Let_def)
next
  case False
  have "no_stuck (updateAssistantMessageWithError (messages st) e c)" for e c
    using assms(5,6) unfolding updateAssistantMessageWithError_def
    by (intro settled_update) (simp_all add: createLoadingAssistantMessage_def)
  with False assms show ?thesis
    by (auto simp: phased_def sendChat_def sendStreamingChat_def sendStreamRequest_def streaming_on_def idle_def
        handleStreamError_def Let_def)
qed

lemma no_stuck_take: "no_stuck ms \<Longrightarrow> no_stuck (take i ms)"
  by (auto simp: no_stuck_def dest: in_set_takeD)

lemma is_stuck_edit [simp]: "is_stuck (edit_message c m) = is_stuck m"
  by (simp add: is_stuck_def edit_message_def)

lemma no_stuck_edited: "no_stuck ms \<Longrightarrow> no_stuck (map (\<lambda>m. if P m then edit_message c m else m) ms)"
  by (auto simp: no_stuck_def)

lemma phased_idle: "phased st \<Longrightarrow> source_ref st = None \<Longrightarrow> idle st"
  by (auto simp: phased_def busy_def)

lemma send_phased:
  assumes "phased st" "source_ref st = None"
  shows "phased (handleSendMessage starts ids txt st)"
proof -
  obtain n1 n2 n3 n4 where ids: "ids = (n1, n2, n3, n4)" by (cases ids)
  define new where "new = (messages st @ [createUserMessage n1 n2 txt]) @ [createLoadingAssistantMessage n3 n4]"
  have "no_stuck (messages st @ [createUserMessage n1 n2 txt])"
    using phased_idle [OF assms] by (auto simp: idle_def no_stuck_def is_stuck_def createUserMessage_def)
  then have "phased (sendChat starts new (updateMessages (\<lambda>_. new) st))"
    using assms phased_idle [OF assms] unfolding new_def
    by (intro sendChat_phased) (auto simp: phased_def idle_def streaming_on_def)
  then show ?thesis by (simp add: handleSendMessage_def ids Let_def new_def)
qed

lemma regenerate_phased:
  assumes "phased st" "source_ref st = None"
  shows "phased (handleRegenerateMessage starts ids key st)"
proof (cases "find_index key (messages st)")
  case None
  with assms show ?thesis by (simp add: handleRegenerateMessage_def)
next
  case (Some i)
  define new where "new = take i (messages st) @ [createLoadingAssistantMessage (fst ids) (snd ids)]"
  have "phased (sendChat starts new (updateMessages (\<lambda>_. new) st))"
    using assms phased_idle [OF assms] unfolding new_def
    by (intro sendChat_phased) (auto simp: phased_def idle_def streaming_on_def no_stuck_take)
  with Some show ?thesis by (simp add: handleRegenerateMessage_def Let_def new_def)
qed

lemma next_source_sendChat: "streaming_on st \<Longrightarrow> next_source (sendChat starts ms st) = Suc (next_source st)"
  by (simp add: sendChat_def sendStreamingChat_def sendStreamRequest_def streaming_on_def Let_def handleStreamError_def)

lemma sender_edit [simp]: "sender (edit_message c m) = sender m"
  by (simp add: edit_message_def)

lemma applyEdit_phased:
  assumes "phased st" "source_ref st = None \<or> next_source (applyEdit starts ids txt submits st) = next_source st"
  shows "phased (applyEdit starts ids txt submits st)"
proof (cases "\<exists>k i. editing_key st = Some k \<and> k \<noteq> [] \<and> find_index k (messages st) = Some i")
  case False
  with assms show ?thesis by (auto simp: applyEdit_def split: option.split)
next
  case True
  then obtain k i where k: "editing_key st = Some k" "k \<noteq> []" "find_index k (messages st) = Some i" by blast
  define upd where "upd = map (\<lambda>m. if message_key m = k then edit_message txt m else m) (messages st)"
  define new where "new = take (Suc i) upd @ [createLoadingAssistantMessage (fst ids) (snd ids)]"
  have s: "map sender upd = map sender (messages st)" by (auto simp: upd_def)
  show ?thesis
  proof (cases "\<not> submits \<or> sender (upd ! i) \<noteq> User")
    case True
    then have a: "applyEdit starts ids txt submits st = updateMessages (\<lambda>_. upd) (st\<lparr>editing_key := None\<rparr>)"
      using k by (simp add: applyEdit_def upd_def Let_def)
    have "idle st \<Longrightarrow> no_stuck upd" unfolding upd_def by (intro no_stuck_edited) (simp add: idle_def)
    moreover have "busy st \<Longrightarrow> no_stuck (butlast upd)" unfolding upd_def map_butlast [symmetric]
      by (intro no_stuck_edited) (simp add: busy_def)
    moreover have "upd = [] \<longleftrightarrow> messages st = []" by (simp add: upd_def)
    moreover have "messages st \<noteq> [] \<Longrightarrow> sender (last upd) = sender (last (messages st))"
      using s by (metis last_map map_is_Nil_conv)
    ultimately show ?thesis using assms(1) unfolding a
      by (auto simp: phased_def streaming_on_def idle_def busy_def)
  next
    case False
    then have a: "applyEdit starts ids txt submits st = sendChat starts new (updateMessages (\<lambda>_. new) (st\<lparr>editing_key := None\<rparr>))"
      using k by (simp add: applyEdit_def upd_def new_def Let_def)
    have on: "streaming_on (updateMessages (\<lambda>_. new) (st\<lparr>editing_key := None\<rparr>))"
      using assms(1) by (simp add: phased_def streaming_on_def)
    with assms(2) have r: "source_ref st = None" by (auto simp: a next_source_sendChat)
    have i: "idle st" using phased_idle [OF assms(1) r] .
    then have "no_stuck (take (Suc i) upd)"
      unfolding upd_def by (intro no_stuck_take no_stuck_edited) (simp add: idle_def)
    then show ?thesis unfolding a using assms(1) i
      by (intro sendChat_phased [where xs = "take (Suc i) upd"])
         (auto simp: phased_def idle_def streaming_on_def new_def)
  qed
qed

lemma phased_updateConfig:
  "phased st \<Longrightarrow> k \<noteq> js ''stream'' \<Longrightarrow> phased (updateConfig k v st)"
  by (auto simp: phased_def streaming_on_def updateConfig_def idle_def busy_def Let_def)

lemma phased_step:
  assumes "step st st'" "phased st" "source_ref st = None \<or> next_source st' = next_source st"
  shows "phased st'"
proof -
  have busyI: "busy st" if "i \<in> set (open_sources st)" for i
    using assms(2) that by (auto simp: phased_def idle_def)
  have send: "source_ref st = None" if "st' = handleSendMessage starts ids c st" for starts ids c
    using assms(2,3) that next_source_sendChat [of "updateMessages (\<lambda>_. x) st" for x]
    by (cases ids) (auto simp: handleSendMessage_def Let_def phased_def streaming_on_def)
  from assms(1) show ?thesis
  proof cases
    case (submit c starts ids)
    with assms send show ?thesis by (simp add: send_phased)
  next
    case (suggestion starts ids c)
    with assms send show ?thesis by (simp add: send_phased)
  next
    case (regenerate starts ids2 key)
    with assms show ?thesis by (simp add: regenerate_phased isGenerating_def)
  next
    case (edit key)
    with assms show ?thesis by (auto simp: handleEditMessage_def phased_def idle_def busy_def streaming_on_def)
  next
    case (close_edit opened)
    with assms show ?thesis by (auto simp: handleEditOpenChange_def phased_def idle_def busy_def streaming_on_def)
  next
    case (save_edit c starts ids2 submits)
    with assms applyEdit_phased show ?thesis by blast
  next
    case (delete key)
    with assms have "idle st" by (auto simp: isGenerating_def intro: phased_idle)
    with delete assms show ?thesis
      by (auto simp: handleDeleteMessage_def phased_def idle_def streaming_on_def no_stuck_def)
  next
    case stop
    with assms have "busy st" by (auto simp: isGenerating_def phased_def idle_def)
    with stop assms stop_settles show ?thesis by simp
  next
    case (models available)
    with assms show ?thesis by (auto simp: pick_model_def intro: phased_updateConfig)
  next
    case (groups available)
    with assms show ?thesis by (auto simp: pick_group_def intro: phased_updateConfig)
  next
    case (message i data)
    with assms busyI show ?thesis by (simp add: on_message_phased)
  next
    case (error i ready data)
    with assms busyI show ?thesis by (simp add: on_error_phased)
  next
    case (readystate i r s)
    with assms busyI show ?thesis by (simp add: on_readystatechange_phased)
  next
    case (answered te resp)
    with assms show ?thesis by (simp add: phased_def)
  next
    case (failed err)
    with assms show ?thesis by (simp add: phased_def)
  qed
qed

lemma new_chat_simps [simp]:
  "messages (new_chat p) = messages p" "config (new_chat p) = config p" "source_ref (new_chat p) = None"
  "open_sources (new_chat p) = []" "pending (new_chat p) = 0" "next_source (new_chat p) = 0"
  "stream_complete (new_chat p) = False" "editing_key (new_chat p) = None"
  by (simp_all add: new_chat_def playground.defs)

lemma exclusive_phased: "exclusive p st \<Longrightarrow> no_stuck (messages p) \<Longrightarrow> streaming_on p \<Longrightarrow> phased st"
proof (induction rule: exclusive.induct)
  case start
  then show ?case by (auto simp: phased_def idle_def streaming_on_def)
next
  case (turn st st')
  with phased_step show ?case by blast
qed

section \<open>A streamed answer\<close>

text \<open>The event data of one content chunk: \<open>{"choices":[{"delta":{"content":c}}]}\<close>.\<close>

definition content_event :: "jstr \<Rightarrow> jstr" where
  "content_event c = json_text (JObj [(js ''choices'',
     JArr [JObj [(js ''delta'', JObj [(js ''content'', JStr c)])]])])"

lemma content_event_parse:
  "json_parse (content_event c) = Some (JObj [(js ''choices'',
     JArr [JObj [(js ''delta'', JObj [(js ''content'', JStr c)])]])])"
proof -
  have one: "obj_wf [(k, v)]" for k :: jstr and v :: jsval by (simp add: obj_wf_def)
  then have "json_ok (JObj [(js ''choices'', JArr [JObj [(js ''delta'', JObj [(js ''content'', JStr c)])]])])"
    by simp
  from json_roundtrip [OF this] show ?thesis
    by (simp add: content_event_def json_text_def json_stringify_def del: ser.simps)
qed

lemma content_event_not_done: "content_event c \<noteq> DONE"
  by (simp add: content_event_def json_text_def json_stringify_def DONE_def js_def)

lemma on_message_content:
  assumes "messages st = xs @ [m]" "sender m = Assistant" "status m \<noteq> Some Failed"
  shows "messages (on_message i (content_event c) st) =
    xs @ [if c = [] then m else (processStreamingContent m (JStr c))\<lparr>status := Some Streaming\<rparr>]"
proof -
  have z: "is_index_key [48]" "undec [48] = 0" by (simp_all add: is_index_key_def is_digit_def undec_def)
  have "js ''0'' = [48]" by (simp add: js_def)
  with z have "chunk_delta (JObj [(js ''choices'', JArr [JObj [(js ''delta'', JObj [(js ''content'', JStr c)])]])])
      = Some (JObj [(js ''content'', JStr c)])"
    by (simp add: chunk_delta_def obj_get_def)
  with assms show ?thesis
    by (simp add: on_message_def content_event_not_done content_event_parse obj_get_def handleStreamUpdate_def
        updateLastAssistantMessage_def stream_update_def)
qed

lemma stream_contents:
  assumes "messages st = xs @ [m]" "sender m = Assistant" "status m \<in> {Some Loading, Some Streaming}"
  shows "\<exists>m'. messages (foldl (\<lambda>s c. on_message i (content_event c) s) st cs) = xs @ [m'] \<and> sender m' = Assistant
    \<and> status m' \<in> {Some Loading, Some Streaming} \<and> message_key m' = message_key m
    \<and> content (getCurrentVersion m') = content (getCurrentVersion m) @ concat cs"
  using assms
proof (induction cs arbitrary: st m)
  case Nil
  then show ?case by simp
next
  case (Cons c cs)
  define m1 where "m1 = (if c = [] then m else (processStreamingContent m (JStr c))\<lparr>status := Some Streaming\<rparr>)"
  have "messages (on_message i (content_event c) st) = xs @ [m1]"
    unfolding m1_def using Cons.prems by (intro on_message_content) auto
  moreover have "sender m1 = Assistant" "status m1 \<in> {Some Loading, Some Streaming}" "message_key m1 = message_key m"
    using Cons.prems by (auto simp: m1_def)
  moreover have "content (getCurrentVersion m1) = content (getCurrentVersion m) @ c"
    using content_process [of m c] by (simp add: m1_def getCurrentVersion_def)
  ultimately show ?case using Cons.IH [of "on_message i (content_event c) st" m1] by simp
qed

lemma on_message_done:
  assumes "messages st = xs @ [m]" "sender m = Assistant" "status m \<in> {Some Loading, Some Streaming}"
  shows "messages (on_message i DONE st) = xs @ [(finalizeMessage m JUndef)\<lparr>status := Some Complete\<rparr>]"
  using assms by (auto simp: on_message_def handleStreamComplete_def updateLastAssistantMessage_def stream_finish_def
      closeSource_def)

lemma content_finalize [simp]:
  "content (getCurrentVersion (finalizeMessage m a)) = visibleContent (parseThinkTags (content (getCurrentVersion m)))"
  by (simp add: finalizeMessage_def Let_def updateCurrentVersionContent_def getCurrentVersion_def)

lemma messages_handleSend:
  "streaming_on st \<Longrightarrow> messages (handleSendMessage True (n1, n2, n3, n4) c st) =
     messages st @ [createUserMessage n1 n2 c, createLoadingAssistantMessage n3 n4]"
  by (simp add: handleSendMessage_def Let_def sendChat_def sendStreamingChat_def sendStreamRequest_def streaming_on_def)

section \<open>Properties\<close>

text \<open>
  C1. With streaming switched on, on a page opened without a message that is still loading, and while
  requests are started one at a time, the page is never left waiting without a source: a message is
  loading or streaming only if it is the last one and a source is referenced, and there is at most one
  open source, open exactly while the page shows that it is generating. (With streaming switched off
  this fails: \<open>empty_answer_waits_forever\<close>.)
\<close>

theorem waiting_means_generating:
  assumes "exclusive p st" "no_stuck (messages p)" "streaming_on p"
  shows "(\<forall>j<length (messages st). is_stuck (messages st ! j) \<longrightarrow> Suc j = length (messages st) \<and> isGenerating st)
    \<and> (isGenerating st \<longleftrightarrow> open_sources st \<noteq> []) \<and> length (open_sources st) \<le> 1"
proof -
  from exclusive_phased [OF assms] consider "idle st" | "busy st" by (auto simp: phased_def)
  then show ?thesis
  proof cases
    case 1
    then show ?thesis by (auto simp: idle_def isGenerating_def no_stuck_def)
  next
    case 2
    have "Suc j = length (messages st)" if "j < length (messages st)" "is_stuck (messages st ! j)" for j
    proof (rule ccontr)
      assume "Suc j \<noteq> length (messages st)"
      with that(1) have "messages st ! j \<in> set (butlast (messages st))"
        by (metis Suc_lessI in_set_conv_nth length_butlast less_diff_conv nth_butlast Suc_eq_plus1)
      with 2 that(2) show False by (auto simp: busy_def no_stuck_def)
    qed
    with 2 show ?thesis by (auto simp: busy_def isGenerating_def)
  qed
qed

lemma streaming_on_first_page: "streaming_on first_page"
  by (simp add: streaming_on_def first_page_def DEFAULT_CONFIG_def obj_get_def)

lemma no_stuck_first_page: "no_stuck (messages first_page)"
  by (simp add: no_stuck_def first_page_def)

lemma exclusive_first_send: "exclusive first_page (handleSendMessage True ([1], [2], [3], [4]) [104] (new_chat first_page))"
  by (rule exclusive.turn [OF exclusive.start]) (simp_all add: step.suggestion)

theorem waiting_means_generating_witness:
  "isGenerating (handleSendMessage True ([1], [2], [3], [4]) [104] (new_chat first_page))"
proof -
  define st where "st = handleSendMessage True ([1], [2], [3], [4]) [104] (new_chat first_page)"
  have ms: "messages st = [createUserMessage [1] [2] [104], createLoadingAssistantMessage [3] [4]]"
    using streaming_on_first_page by (simp add: st_def messages_handleSend streaming_on_def first_page_def)
  have "is_stuck (messages st ! 1)" by (simp add: ms is_stuck_def createLoadingAssistantMessage_def)
  moreover have "1 < length (messages st)" by (simp add: ms)
  ultimately show ?thesis
    using waiting_means_generating [OF exclusive_first_send no_stuck_first_page streaming_on_first_page]
    unfolding st_def [symmetric] by blast
qed

text \<open>
  C18. How a stream ends, on a page opened with streaming switched on and settled messages, while requests
  are started one at a time. The end marker, a transport error, a closed connection with a status other
  than 200 and the stop button settle the conversation: the page is not generating, no message is
  loading or streaming, and none was added or removed. A connection closed with status 200 before the
  end marker is not noticed: nothing changes, and the page goes on generating.
\<close>

theorem stream_end_settles:
  assumes "exclusive p st" "no_stuck (messages p)" "streaming_on p" "i \<in> set (open_sources st)"
    and "st' = on_message i DONE st \<or> (\<exists>r data. r \<noteq> 2 \<and> st' = on_error i r data st)
      \<or> (\<exists>r s. 2 \<le> r \<and> s \<noteq> 200 \<and> st' = on_readystatechange i (Some r) (Some s) st) \<or> st' = stopGeneration st"
  shows "\<not> isGenerating st' \<and> no_stuck (messages st') \<and> map message_key (messages st') = map message_key (messages st)
    \<and> on_readystatechange i (Some r) (Some 200) st = st \<and> isGenerating st"
proof -
  have ph: "phased st" "busy st"
    using exclusive_phased [OF assms(1,2,3)] assms(4) by (auto simp: phased_def idle_def)
  from assms(5) have "idle st'"
    using done_settles [OF ph assms(4)] handleError_settles [OF ph assms(4)] stop_settles [OF ph]
    by (auto simp: on_error_def on_readystatechange_def split: prod.split)
  moreover have "map message_key (messages st') = map message_key (messages st)"
    using assms(5) messageU.keys errorU.keys readyU.keys stopU.keys by auto
  moreover have "isGenerating st" using ph(2) by (auto simp: busy_def isGenerating_def)
  ultimately show ?thesis by (simp add: idle_def isGenerating_def on_readystatechange_def)
qed

theorem stream_end_settles_witness:
  "no_stuck (messages (stopGeneration (handleSendMessage True ([1], [2], [3], [4]) [104] (new_chat first_page))))"
proof -
  have "0 \<in> set (open_sources (handleSendMessage True ([1], [2], [3], [4]) [104] (new_chat first_page)))"
    using streaming_on_first_page
    by (simp add: handleSendMessage_def Let_def sendChat_def sendStreamingChat_def sendStreamRequest_def streaming_on_def)
  from stream_end_settles [OF exclusive_first_send no_stuck_first_page streaming_on_first_page this]
  show ?thesis by blast
qed

text \<open>
  C27. A streamed answer arrives whole: with streaming on, after a message is sent, the chunks of the answer and the
  end marker leave exactly two new messages, the user's and a completed assistant message whose
  content is the visible part of the concatenated chunks.
\<close>

theorem streamed_answer:
  assumes "streaming_on st" "st' = on_message (next_source st) DONE
    (foldl (\<lambda>s c. on_message (next_source st) (content_event c) s) (handleSendMessage True (n1, n2, n3, n4) q st) cs)"
  shows "\<exists>m. messages st' = messages st @ [createUserMessage n1 n2 q, m] \<and> message_key m = n3 \<and> sender m = Assistant
    \<and> status m = Some Complete \<and> content (getCurrentVersion m) = visibleContent (parseThinkTags (concat cs))"
proof -
  define xs where "xs = messages st @ [createUserMessage n1 n2 q]"
  have "messages (handleSendMessage True (n1, n2, n3, n4) q st) = xs @ [createLoadingAssistantMessage n3 n4]"
    using assms(1) by (simp add: messages_handleSend xs_def)
  from stream_contents [OF this] obtain m where m:
    "messages (foldl (\<lambda>s c. on_message (next_source st) (content_event c) s) (handleSendMessage True (n1, n2, n3, n4) q st) cs) = xs @ [m]"
    "sender m = Assistant" "status m \<in> {Some Loading, Some Streaming}" "message_key m = n3"
    "content (getCurrentVersion m) = concat cs"
    by (auto simp: createLoadingAssistantMessage_def getCurrentVersion_def createMessageVersion_def)
  have "content (getCurrentVersion ((finalizeMessage m JUndef)\<lparr>status := Some Complete\<rparr>)) =
      content (getCurrentVersion (finalizeMessage m JUndef))"
    by (simp add: getCurrentVersion_def)
  with on_message_done [OF m(1,2,3)] m show ?thesis unfolding assms(2) xs_def
    by (intro exI [of _ "(finalizeMessage m JUndef)\<lparr>status := Some Complete\<rparr>"]) simp
qed

theorem streamed_answer_witness:
  "\<exists>m. messages (on_message 0 DONE (foldl (\<lambda>s c. on_message 0 (content_event c) s)
       (handleSendMessage True ([1], [2], [3], [4]) [104] (new_chat first_page)) [js ''Hel'', js ''lo'']))
     = [createUserMessage [1] [2] [104], m] \<and> status m = Some Complete"
proof -
  have "streaming_on (new_chat first_page)" using streaming_on_first_page by (simp add: streaming_on_def)
  from streamed_answer [OF this refl, of "[1]" "[2]" "[3]" "[4]" "[104]" "[js ''Hel'', js ''lo'']"]
  show ?thesis by (auto simp: first_page_def)
qed

text \<open>
  No event rewrites history: whatever a source or a request delivers, and whatever state the
  page is in, the messages of the user and all messages but the last stay as they are.
\<close>

theorem events_keep_history:
  assumes "st' \<in> {on_message i data st, on_error i ready data st, on_readystatechange i r s st,
      request_answered te resp st, request_failed te st, stopGeneration st}"
    and "j < length (messages st)" "Suc j < length (messages st) \<or> sender (messages st ! j) = User"
  shows "length (messages st') = length (messages st) \<and> messages st' ! j = messages st ! j"
proof -
  have "only_last (messages st) (messages st')"
    using assms(1) unfolding insert_iff empty_iff
    by (elim disjE FalseE)
       (simp_all only: messageU.updates errorU.updates readyU.updates answeredU.updates failedU.updates stopU.updates)
  from only_last_kept [OF this assms(2,3)] show ?thesis .
qed

theorem events_keep_history_witness:
  "messages (on_error 0 1 [] (handleSendMessage True ([1], [2], [3], [4]) [104] (new_chat first_page))) ! 0
     = createUserMessage [1] [2] [104]"
proof -
  define st where "st = handleSendMessage True ([1], [2], [3], [4]) [104] (new_chat first_page)"
  have ms: "messages st = [createUserMessage [1] [2] [104], createLoadingAssistantMessage [3] [4]]"
    using streaming_on_first_page by (simp add: st_def messages_handleSend streaming_on_def first_page_def)
  from events_keep_history [of "on_error 0 1 [] st" 0 "[]" st 1 None None JUndef JUndef 0]
  show ?thesis unfolding st_def [symmetric] by (simp add: ms)
qed

text \<open>
  A suggestion clicked while an answer is streaming breaks the page: the first source stays
  open unreferenced, its end marker completes the second answer before any of its text arrived,
  and the first answer is loading for ever while the page shows that nothing is being generated.
\<close>

theorem suggestion_while_streaming:
  "\<exists>st. reachable first_page st \<and> \<not> isGenerating st \<and> open_sources st \<noteq> []
     \<and> length (messages st) = 4 \<and> status (messages st ! 1) = Some Loading \<and> status (messages st ! 3) = Some Complete
     \<and> content (getCurrentVersion (messages st ! 3)) = []"
proof -
  define s1 where "s1 = handleSendMessage True ([1], [2], [3], [4]) [104] (new_chat first_page)"
  define s2 where "s2 = handleSendMessage True ([5], [6], [7], [8]) [105] s1"
  define s3 where "s3 = on_message 0 DONE s2"
  note defs = handleSendMessage_def Let_def sendChat_def sendStreamingChat_def sendStreamRequest_def streaming_on_def
  have on: "streaming_on (new_chat first_page)" using streaming_on_first_page by (simp add: streaming_on_def)
  then have on1: "streaming_on s1" by (simp add: s1_def defs)
  have o1: "open_sources s1 = [0]" "next_source s1 = 1" using on by (simp_all add: s1_def defs)
  then have o2: "open_sources s2 = [0, 1]" using on1 by (simp add: s2_def defs)
  have m1: "messages s1 = [createUserMessage [1] [2] [104], createLoadingAssistantMessage [3] [4]]"
    using on by (simp add: s1_def messages_handleSend, simp add: first_page_def)
  then have m2: "messages s2 = [createUserMessage [1] [2] [104], createLoadingAssistantMessage [3] [4],
      createUserMessage [5] [6] [105]] @ [createLoadingAssistantMessage [7] [8]]"
    using on1 by (simp add: s2_def messages_handleSend)
  have m3: "messages s3 = [createUserMessage [1] [2] [104], createLoadingAssistantMessage [3] [4],
      createUserMessage [5] [6] [105]] @ [(finalizeMessage (createLoadingAssistantMessage [7] [8]) JUndef)\<lparr>status := Some Complete\<rparr>]"
    unfolding s3_def by (rule on_message_done [OF m2]) (simp_all add: createLoadingAssistantMessage_def)
  have "reachable first_page s2"
    unfolding s2_def s1_def by (intro reachable.turn [OF _ step.suggestion] reachable.start)
  then have "reachable first_page s3"
    unfolding s3_def by (rule reachable.turn) (rule step.message, simp add: o2)
  moreover have "source_ref s3 = None" "open_sources s3 = [1]"
    by (simp_all add: s3_def on_message_def handleStreamComplete_def closeSource_def o2)
  moreover have "content (getCurrentVersion ((finalizeMessage (createLoadingAssistantMessage [7] [8]) JUndef)\<lparr>status := Some Complete\<rparr>)) = []"
    by (simp add: finalizeMessage_def createLoadingAssistantMessage_def getCurrentVersion_def createMessageVersion_def
        updateCurrentVersionContent_def parseThinkTags_def contains_def Let_def)
  ultimately show ?thesis
    by (intro exI [of _ s3]) (simp add: m3 isGenerating_def createLoadingAssistantMessage_def)
qed

text \<open>
  With streaming switched off, an answer without choices is dropped: the assistant's message
  is left loading although no request is pending and the page shows that nothing is generated.
\<close>

theorem empty_answer_waits_forever:
  "\<exists>st. reachable (updateConfig (js ''stream'') (JBool False) first_page) st \<and> pending st = 0
     \<and> \<not> isGenerating st \<and> open_sources st = [] \<and> messages st \<noteq> [] \<and> status (last (messages st)) = Some Loading"
proof -
  define p where "p = updateConfig (js ''stream'') (JBool False) first_page"
  have off: "\<not> truthy (obj_get (js ''stream'') (config p))"
    by (simp add: p_def updateConfig_def Let_def)
  define s1 where "s1 = handleSendMessage True ([1], [2], [3], [4]) [104] (new_chat p)"
  define s2 where "s2 = request_answered JUndef (JObj [(js ''choices'', JArr [])]) (s1\<lparr>pending := pending s1 - 1\<rparr>)"
  note defs = handleSendMessage_def Let_def sendChat_def sendNonStreamingChat_def
  have s1: "pending s1 = 1" "source_ref s1 = None" "open_sources s1 = []"
    "messages s1 = messages p @ [createUserMessage [1] [2] [104], createLoadingAssistantMessage [3] [4]]"
    using off by (simp_all add: s1_def defs)
  have "is_index_key (js ''0'')" "undec (js ''0'') = 0"
    by (simp_all add: is_index_key_def is_digit_def undec_def js_def)
  then have s2: "s2 = s1\<lparr>pending := 0\<rparr>" by (simp add: s2_def request_answered_def obj_get_def s1(1))
  have "reachable p s1" unfolding s1_def by (intro reachable.turn [OF _ step.suggestion] reachable.start)
  then have "reachable p s2" unfolding s2_def by (rule reachable.turn) (rule step.answered, simp add: s1(1))
  then show ?thesis using s1
    by (intro exI [of _ s2]) (simp add: s2 p_def isGenerating_def createLoadingAssistantMessage_def)
qed

end
