(* ===== verification/JsRegex.thy ===== *)
theory JsRegex
  imports JsNumber
begin

text \<open>
  The regular expressions of the program, matched the way ECMAScript does: by backtracking, in
  priority order. \<open>rm r c\<close> is the list of all ways \<open>r\<close> can match at configuration \<open>c\<close>, the
  preferred one first; a configuration is the unit before the position (for \<open>\b\<close>), the text from
  the position on, and the captures. Quantifiers are greedy, and a turn of a star that consumes
  nothing is refused. No expression of the program captures inside a star, so captures are never
  reset.

  The lemmas describe the head of that list for the shapes the program uses: a literal, a run of a
  character class before something that cannot start with the class, the greedy \<open>(.+)\<close>.
\<close>

type_synonym cfg = "nat option \<times> jstr \<times> (nat \<times> jstr) list"

datatype re =
    Lit jstr
  | Chr "nat \<Rightarrow> bool"
  | Seq re re
  | Alt re re
  | Star re
  | Opt re
  | Group nat re
  | BackRef nat
  | EOL
  | WordB

definition cat :: "re list \<Rightarrow> re" where
  "cat rs = foldr Seq rs (Lit [])"

definition alts :: "re list \<Rightarrow> re" where
  "alts rs = foldr Alt (butlast rs) (last rs)"

definition Plus :: "re \<Rightarrow> re" where
  "Plus r = Seq r (Star r)"

definition after :: "nat option \<Rightarrow> jstr \<Rightarrow> nat option" where
  "after p x = (if x = [] then p else Some (last x))"

fun eat :: "jstr \<Rightarrow> cfg \<Rightarrow> cfg list" where
  "eat l (p, s, cs) = (if prefix l s then [(after p l, drop (length l) s, cs)] else [])"

fun unit_in :: "(nat \<Rightarrow> bool) \<Rightarrow> cfg \<Rightarrow> cfg list" where
  "unit_in P (p, [], cs) = []"
| "unit_in P (p, x # xs, cs) = (if P x then [(Some x, xs, cs)] else [])"

fun star_iter :: "(cfg \<Rightarrow> cfg list) \<Rightarrow> nat \<Rightarrow> cfg \<Rightarrow> cfg list" where
  "star_iter f 0 c = [c]"
| "star_iter f (Suc n) c =
     concat (map (star_iter f n) (filter (\<lambda>d. length (fst (snd d)) < length (fst (snd c))) (f c))) @ [c]"

definition is_word :: "nat \<Rightarrow> bool" where
  "is_word c \<longleftrightarrow> is_digit c \<or> (65 \<le> c \<and> c \<le> 90) \<or> (97 \<le> c \<and> c \<le> 122) \<or> c = 95"

definition at_word_boundary :: "nat option \<Rightarrow> jstr \<Rightarrow> bool" where
  "at_word_boundary p s \<longleftrightarrow>
     (case p of None \<Rightarrow> False | Some c \<Rightarrow> is_word c) \<noteq> (case s of [] \<Rightarrow> False | c # _ \<Rightarrow> is_word c)"

primrec rm :: "re \<Rightarrow> cfg \<Rightarrow> cfg list" where
  "rm (Lit l) c = eat l c"
| "rm (Chr P) c = unit_in P c"
| "rm (Seq a b) c = concat (map (rm b) (rm a c))"
| "rm (Alt a b) c = rm a c @ rm b c"
| "rm (Star a) c = star_iter (rm a) (length (fst (snd c))) c"
| "rm (Opt a) c = rm a c @ [c]"
| "rm (Group i a) c =
     map (\<lambda>d. (fst d, fst (snd d), (i, take (length (fst (snd c)) - length (fst (snd d))) (fst (snd c))) # snd (snd d)))
       (rm a c)"
| "rm (BackRef i) c = (case map_of (snd (snd c)) i of None \<Rightarrow> [c] | Some t \<Rightarrow> eat t c)"
| "rm EOL c = (if fst (snd c) = [] then [c] else [])"
| "rm WordB c = (if at_word_boundary (fst c) (fst (snd c)) then [c] else [])"

lemma rm_Chr [simp]: "rm (Chr P) = unit_in P"
  by (rule ext) simp

text \<open>\<open>s.match(/^...$/)\<close>, and \<open>test\<close>.\<close>

definition re_match :: "re \<Rightarrow> jstr \<Rightarrow> (nat \<times> jstr) list option" where
  "re_match r s = (case rm r (None, s, []) of [] \<Rightarrow> None | c # _ \<Rightarrow> Some (snd (snd c)))"

definition re_test :: "re \<Rightarrow> jstr \<Rightarrow> bool" where
  "re_test r s \<longleftrightarrow> re_match r s \<noteq> None"

text \<open>The text of a capture; a group that took no part in the match is \<open>undefined\<close>.\<close>

definition cap :: "nat \<Rightarrow> (nat \<times> jstr) list \<Rightarrow> jstr option" where
  "cap i cs = map_of cs i"

definition cap_str :: "nat \<Rightarrow> (nat \<times> jstr) list \<Rightarrow> jstr" where
  "cap_str i cs = (case map_of cs i of None \<Rightarrow> [] | Some t \<Rightarrow> t)"

text \<open>
  \<open>exec\<close> in a loop with the flag \<open>g\<close>: the matches from left to right, each search starting where
  the last match ended. The fuel is one more than the text's length: every match consumes.
\<close>

fun re_search :: "re \<Rightarrow> nat option \<Rightarrow> jstr \<Rightarrow> cfg option" where
  "re_search r p s =
     (case rm r (p, s, []) of
        c # _ \<Rightarrow> Some c
      | [] \<Rightarrow> (case s of [] \<Rightarrow> None | x # xs \<Rightarrow> re_search r (Some x) xs))"

fun re_all :: "nat \<Rightarrow> re \<Rightarrow> nat option \<Rightarrow> jstr \<Rightarrow> (nat \<times> jstr) list list" where
  "re_all 0 r p s = []"
| "re_all (Suc n) r p s =
     (case re_search r p s of
        None \<Rightarrow> []
      | Some (q, t, cs) \<Rightarrow> cs # re_all n r q t)"

definition re_matches :: "re \<Rightarrow> jstr \<Rightarrow> (nat \<times> jstr) list list" where
  "re_matches r s = re_all (Suc (length s)) r None s"

text \<open>\<open>s.split(/sep/)\<close> and \<open>s.replace(/r/g, t)\<close> for expressions that never match the empty text.\<close>

fun re_split :: "re \<Rightarrow> nat option \<Rightarrow> jstr \<Rightarrow> nat \<Rightarrow> jstr \<Rightarrow> jstr list" where
  "re_split r p cur 0 s = [cur @ s]"
| "re_split r p cur (Suc n) s =
     (case s of
        [] \<Rightarrow> [cur]
      | x # xs \<Rightarrow>
          (case rm r (p, s, []) of
             [] \<Rightarrow> re_split r (Some x) (cur @ [x]) n xs
           | (q, t, _) # _ \<Rightarrow> cur # re_split r q [] n t))"

definition re_splits :: "re \<Rightarrow> jstr \<Rightarrow> jstr list" where
  "re_splits r s = re_split r None [] (Suc (length s)) s"

definition re_replace :: "re \<Rightarrow> jstr \<Rightarrow> jstr \<Rightarrow> jstr" where
  "re_replace r t s = join t (re_splits r s)"

section \<open>Classes\<close>

definition is_line_end :: "nat \<Rightarrow> bool" where
  "is_line_end c \<longleftrightarrow> c = 10 \<or> c = 13 \<or> c = 0x2028 \<or> c = 0x2029"

abbreviation ws_star :: re where "ws_star \<equiv> Star (Chr is_ws)"
abbreviation ws_plus :: re where "ws_plus \<equiv> Plus (Chr is_ws)"
abbreviation digit :: re where "digit \<equiv> Chr is_digit"
abbreviation any :: re where "any \<equiv> Chr (\<lambda>_. True)"
abbreviation dot :: re where "dot \<equiv> Chr (\<lambda>c. \<not> is_line_end c)"
abbreviation not_quote :: re where "not_quote \<equiv> Chr (\<lambda>c. c \<noteq> 34)"

section \<open>What a match consumes\<close>

text \<open>\<open>alphabet r\<close>: the units \<open>r\<close> can consume (any, for a back reference).\<close>

primrec alphabet :: "re \<Rightarrow> nat \<Rightarrow> bool" where
  "alphabet (Lit l) = (\<lambda>c. c \<in> set l)"
| "alphabet (Chr P) = P"
| "alphabet (Seq a b) = (\<lambda>c. alphabet a c \<or> alphabet b c)"
| "alphabet (Alt a b) = (\<lambda>c. alphabet a c \<or> alphabet b c)"
| "alphabet (Star a) = alphabet a"
| "alphabet (Opt a) = alphabet a"
| "alphabet (Group i a) = alphabet a"
| "alphabet (BackRef i) = (\<lambda>_. True)"
| "alphabet EOL = (\<lambda>_. False)"
| "alphabet WordB = (\<lambda>_. False)"

definition consumes :: "(nat \<Rightarrow> bool) \<Rightarrow> cfg \<Rightarrow> cfg \<Rightarrow> bool" where
  "consumes A c d \<longleftrightarrow> (\<exists>x. fst (snd c) = x @ fst (snd d) \<and> (\<forall>u\<in>set x. A u))"

lemma consumes_refl [simp]: "consumes A c c"
  by (simp add: consumes_def)

lemma consumes_trans: "consumes A c d \<Longrightarrow> consumes A d e \<Longrightarrow> consumes A c e"
proof -
  assume "consumes A c d" "consumes A d e"
  then obtain x y where "fst (snd c) = x @ fst (snd d)" "fst (snd d) = y @ fst (snd e)"
    "\<forall>u\<in>set x. A u" "\<forall>u\<in>set y. A u" by (auto simp: consumes_def)
  then have "fst (snd c) = (x @ y) @ fst (snd e)" "\<forall>u\<in>set (x @ y). A u" by auto
  then show ?thesis unfolding consumes_def by blast
qed

lemma consumes_mono: "consumes A c d \<Longrightarrow> (\<And>u. A u \<Longrightarrow> B u) \<Longrightarrow> consumes B c d"
  by (auto simp: consumes_def)

lemma star_consumes:
  "(\<And>c d. d \<in> set (f c) \<Longrightarrow> consumes A c d) \<Longrightarrow> d \<in> set (star_iter f n c) \<Longrightarrow> consumes A c d"
proof (induction n arbitrary: c)
  case 0
  then show ?case by simp
next
  case (Suc n)
  from Suc.prems(2) consider "d = c" | e where "e \<in> set (f c)" "d \<in> set (star_iter f n e)" by auto
  then show ?case
  proof cases
    case 2
    from Suc.prems(1) [OF 2(1)] Suc.IH [OF Suc.prems(1) 2(2)] show ?thesis by (rule consumes_trans)
  qed simp
qed

lemma eat_consumes: "d \<in> set (eat l c) \<Longrightarrow> consumes (\<lambda>u. u \<in> set l) c d"
  by (cases c) (auto simp: consumes_def prefix_def split: if_splits)

lemma rm_consumes: "d \<in> set (rm r c) \<Longrightarrow> consumes (alphabet r) c d"
proof (induction r arbitrary: c d)
  case (Lit l)
  then show ?case using eat_consumes by simp
next
  case (Chr P)
  then obtain x where "fst (snd c) = x # fst (snd d)" "P x"
    by (cases "(P, c)" rule: unit_in.cases) (auto split: if_splits)
  then have "fst (snd c) = [x] @ fst (snd d) \<and> (\<forall>u\<in>set [x]. P u)" by simp
  then show ?case unfolding consumes_def alphabet.simps by blast
next
  case (Seq a b)
  then obtain e where "e \<in> set (rm a c)" "d \<in> set (rm b e)" by auto
  with Seq.IH have "consumes (alphabet a) c e" "consumes (alphabet b) e d" by blast+
  then show ?case by (auto intro: consumes_trans [of _ c e] consumes_mono)
next
  case (Alt a b)
  then have "d \<in> set (rm a c) \<or> d \<in> set (rm b c)" by simp
  with Alt.IH have "consumes (alphabet a) c d \<or> consumes (alphabet b) c d" by blast
  then show ?case by (auto intro: consumes_mono)
next
  case (Star a)
  from star_consumes [of "rm a" "alphabet a", OF Star.IH] Star.prems show ?case by simp
next
  case (Opt a)
  then have "d \<in> set (rm a c) \<or> d = c" by auto
  with Opt.IH [of d c] show ?case by auto
next
  case (Group i a)
  then obtain e where "e \<in> set (rm a c)" "fst (snd d) = fst (snd e)" by auto
  with Group.IH [of e c] show ?case by (simp add: consumes_def)
next
  case (BackRef i)
  then show ?case by (auto split: option.splits dest!: eat_consumes intro: consumes_mono)
qed (auto split: if_splits)

text \<open>A successful test of an expression that ends in \<open>$\<close> bounds the whole text.\<close>

lemma re_test_alphabet:
  assumes "re_test (Seq r EOL) s" "c \<in> set s"
  shows "alphabet r c"
proof -
  have "\<exists>d\<in>set (rm r (None, s, [])). fst (snd d) = []"
  proof (rule ccontr)
    assume "\<not> ?thesis"
    then have "rm (Seq r EOL) (None, s, []) = []" by (auto simp: concat_eq_Nil_conv)
    with assms(1) show False by (simp add: re_test_def re_match_def del: rm.simps)
  qed
  then obtain d where "d \<in> set (rm r (None, s, []))" "fst (snd d) = []" by blast
  with rm_consumes [of d r] assms(2) show ?thesis by (auto simp: consumes_def)
qed

section \<open>Deterministic steps\<close>

lemma cat_Nil [simp]: "rm (cat []) c = [c]"
  by (cases c) (simp add: cat_def after_def)

lemma cat_Cons [simp]: "rm (cat (r # rs)) c = concat (map (rm (cat rs)) (rm r c))"
  by (simp add: cat_def)

lemma after_after [simp]: "after (after p x) y = after p (x @ y)"
  by (simp add: after_def)

lemma eat_append [simp]: "eat l (p, l @ t, cs) = [(after p l, t, cs)]"
  by simp

text \<open>
  A run of a class before a continuation \<open>g\<close> that fails on every unit of the class: the run takes
  all it can, and giving units back never helps.
\<close>

lemma run_star:
  assumes "\<forall>u\<in>set x. P u" "t = [] \<or> \<not> P (hd t)" "length (x @ t) \<le> n"
    and "\<And>p u s. P u \<Longrightarrow> g (p, u # s, cs) = []"
  shows "concat (map g (star_iter (unit_in P) n (p, x @ t, cs))) = g (after p x, t, cs)"
  using assms(1,3)
proof (induction x arbitrary: p n)
  case Nil
  have "unit_in P (p, t, cs) = []" using assms(2) by (cases t) auto
  then show ?case by (cases n) (auto simp: after_def)
next
  case (Cons a x)
  then obtain m where n: "n = Suc m" by (cases n) auto
  have "concat (map g (star_iter (unit_in P) m (Some a, x @ t, cs))) = g (after (Some a) x, t, cs)"
    using Cons n by (intro Cons.IH) auto
  moreover have "after (Some a) x = after p (a # x)" by (simp add: after_def)
  ultimately show ?case using Cons.prems n assms(4) by simp
qed

lemma run_plus:
  assumes "x \<noteq> []" "\<forall>u\<in>set x. P u" "t = [] \<or> \<not> P (hd t)" "\<And>p u s. P u \<Longrightarrow> g (p, u # s, cs) = []"
  shows "concat (map g (rm (Plus (Chr P)) (p, x @ t, cs))) = g (after p x, t, cs)"
proof -
  obtain a y where x: "x = a # y" using assms(1) by (cases x) auto
  have "concat (map g (star_iter (unit_in P) (length (y @ t)) (Some a, y @ t, cs))) = g (after (Some a) y, t, cs)"
    using assms(2,3) unfolding x by (intro run_star assms(4)) auto
  moreover have "after (Some a) y = after p (a # y)" by (simp add: after_def)
  ultimately show ?thesis using assms(2) by (simp add: Plus_def x)
qed

definition refuses :: "(nat \<Rightarrow> bool) \<Rightarrow> re \<Rightarrow> bool" where
  "refuses P k \<longleftrightarrow> (\<forall>p u s cs. P u \<longrightarrow> rm k (p, u # s, cs) = [])"

lemma refuses_lit [simp]: "\<not> P c \<Longrightarrow> refuses P (cat (Lit (c # l) # rs))"
  by (auto simp: refuses_def prefix_def)

lemma refuses_eol [simp]: "refuses P (cat (EOL # rs))"
  by (simp add: refuses_def)

lemma rm_group: "concat (map g (rm (Group i a) (p, s, cs))) =
    concat (map (\<lambda>d. g (fst d, fst (snd d), (i, take (length s - length (fst (snd d))) s) # snd (snd d))) (rm a (p, s, cs)))"
  by (simp add: comp_def)

lemma cat_group_run:
  assumes "x \<noteq> []" "\<forall>u\<in>set x. P u" "t = [] \<or> \<not> P (hd t)" "refuses P (cat rs)"
  shows "rm (cat (Group i (Plus (Chr P)) # rs)) (p, x @ t, cs) = rm (cat rs) (after p x, t, (i, x) # cs)"
proof -
  have "concat (map (\<lambda>d. rm (cat rs) (fst d, fst (snd d), (i, take (length (x @ t) - length (fst (snd d))) (x @ t)) # snd (snd d)))
      (rm (Plus (Chr P)) (p, x @ t, cs)))
    = rm (cat rs) (fst (after p x, t, cs), fst (snd (after p x, t, cs)),
        (i, take (length (x @ t) - length (fst (snd (after p x, t, cs)))) (x @ t)) # snd (snd (after p x, t, cs)))"
    using assms(4) by (intro run_plus assms(1,2,3)) (simp add: refuses_def)
  then show ?thesis unfolding cat_Cons rm_group by simp
qed

lemma cat_run:
  assumes "x \<noteq> []" "\<forall>u\<in>set x. P u" "t = [] \<or> \<not> P (hd t)" "refuses P (cat rs)"
  shows "rm (cat (Plus (Chr P) # rs)) (p, x @ t, cs) = rm (cat rs) (after p x, t, cs)"
  unfolding cat_Cons using assms(4) by (intro run_plus assms(1,2,3)) (simp add: refuses_def)

lemma cat_run_fails:
  assumes "s = [] \<or> \<not> P (hd s)"
  shows "rm (cat (Plus (Chr P) # rs)) (p, s, cs) = []" "rm (cat (Group i (Plus (Chr P)) # rs)) (p, s, cs) = []"
  using assms by (cases s; simp add: Plus_def)+

lemma cat_lit: "rm (cat (Lit l # rs)) (p, l @ t, cs) = rm (cat rs) (after p l, t, cs)"
  by simp

lemma cat_lit_fails: "\<not> prefix l s \<Longrightarrow> rm (cat (Lit l # rs)) (p, s, cs) = []"
  by simp

text \<open>The greedy \<open>(.+)\<close>: the last place where the rest can match wins.\<close>

lemma greedy_star_fails:
  assumes "\<And>p u v. t = u @ v \<Longrightarrow> u \<noteq> [] \<Longrightarrow> g (p, v, cs) = []"
  shows "concat (map g (star_iter (unit_in P) n (p, t, cs))) = g (p, t, cs)"
  using assms
proof (induction n arbitrary: p t)
  case 0
  show ?case by simp
next
  case (Suc n)
  show ?case
  proof (cases t)
    case Nil
    then show ?thesis by simp
  next
    case (Cons a s)
    have f: "g (q, v, cs) = []" if "s = u @ v" for q u v
      using Suc.prems [of "a # u" v q] that Cons by simp
    have "concat (map g (star_iter (unit_in P) n (Some a, s, cs))) = g (Some a, s, cs)"
      by (rule Suc.IH) (rule f)
    also have "\<dots> = []" using f [of "[]" s] by simp
    finally have "concat (map g (star_iter (unit_in P) n (Some a, s, cs))) = []" .
    with Cons show ?thesis by simp
  qed
qed

lemma greedy_star_head:
  assumes "\<forall>u\<in>set x. P u" "length (x @ t) \<le> n" "\<And>p u v. t = u @ v \<Longrightarrow> u \<noteq> [] \<Longrightarrow> g (p, v, cs) = []"
    and "g (after p x, t, cs) = d # ds"
  shows "\<exists>es. concat (map g (star_iter (unit_in P) n (p, x @ t, cs))) = d # es"
  using assms(1,2,4)
proof (induction x arbitrary: p n)
  case Nil
  then have "g (p, t, cs) = d # ds" by (simp add: after_def)
  moreover have "concat (map g (star_iter (unit_in P) n (p, t, cs))) = g (p, t, cs)"
    by (rule greedy_star_fails) (rule assms(3))
  ultimately show ?case by simp
next
  case (Cons a x)
  then obtain m where n: "n = Suc m" by (cases n) auto
  have "\<exists>es. concat (map g (star_iter (unit_in P) m (Some a, x @ t, cs))) = d # es"
    using Cons n by (intro Cons.IH) (auto simp: after_def)
  then show ?case using Cons.prems(1) n by auto
qed

lemma cat_group_greedy:
  assumes "x \<noteq> []" "\<forall>u\<in>set x. P u"
    and "\<And>p u v y. t = u @ v \<Longrightarrow> u \<noteq> [] \<Longrightarrow> rm (cat rs) (p, v, (i, y) # cs) = []"
    and "rm (cat rs) (after p x, t, (i, x) # cs) = d # ds"
  shows "\<exists>es. rm (cat (Group i (Plus (Chr P)) # rs)) (p, x @ t, cs) = d # es"
proof -
  obtain a y where x: "x = a # y" using assms(1) by (cases x) auto
  define g where "g = (\<lambda>d. rm (cat rs) (fst d, fst (snd d), (i, take (length (x @ t) - length (fst (snd d))) (x @ t)) # snd (snd d)))"
  have "\<exists>es. concat (map g (star_iter (unit_in P) (length (y @ t)) (Some a, y @ t, cs))) = d # es"
  proof (rule greedy_star_head)
    show "\<forall>u\<in>set y. P u" using assms(2) x by simp
    show "g (q, v, cs) = []" if "t = u @ v" "u \<noteq> []" for q u v
      using assms(3) [OF that] by (simp add: g_def)
    have "after (Some a) y = after p x" by (simp add: after_def x)
    with assms(4) x show "g (after (Some a) y, t, cs) = d # ds" by (simp add: g_def)
  qed simp
  moreover have "rm (Plus (Chr P)) (p, x @ t, cs) = star_iter (unit_in P) (length (y @ t)) (Some a, y @ t, cs)"
    using assms(2) by (simp add: Plus_def x)
  ultimately show ?thesis unfolding cat_Cons rm_group g_def by simp
qed

end
