(* ===== verification/BillingExpr.thy ===== *)
theory BillingExpr
  imports JsRegex JsValue
begin

text \<open>
  Billing expressions, \<open>features/pricing/lib/billing-expr.ts\<close>: the registry of variables, the
  parser of tiers, the parser and the printer of request rules, and the functions that split a
  stored expression into its price part and its rules and put them together again.

  A parser's result is \<open>Parsed x\<close>, \<open>NoParse\<close> for \<open>null\<close>, or \<open>Threw\<close> when \<open>JSON.parse\<close> throws
  inside it (the code has no handler there).

  The lemmas show that what the printer writes for a canonical rule the parser reads back, for
  every rule whose texts are free of quotes, backslashes, parentheses and the operators, and that
  a comparison of a request parameter never reads back.
\<close>

section \<open>The variables\<close>

datatype VarSide = SideInput | SideOutput | SideCondition

record BillingVar =
  var_key :: jstr
  field :: "jstr option"
  tierField :: "jstr option"
  label :: jstr
  shortLabel :: jstr
  side :: VarSide
  isBase :: bool
  isConditionOnly :: bool
  group :: "jstr option"

definition BILLING_VARS :: "BillingVar list" where
  "BILLING_VARS =
     [\<lparr>var_key = js ''p'', field = Some (js ''inputPrice''), tierField = Some (js ''input_unit_cost''),
       label = js ''Input price'', shortLabel = js ''Input'', side = SideInput, isBase = True,
       isConditionOnly = False, group = None\<rparr>,
      \<lparr>var_key = js ''c'', field = Some (js ''outputPrice''), tierField = Some (js ''output_unit_cost''),
       label = js ''Completion price'', shortLabel = js ''Output'', side = SideOutput, isBase = True,
       isConditionOnly = False, group = None\<rparr>,
      \<lparr>var_key = js ''len'', field = None, tierField = None,
       label = js ''Input length'', shortLabel = js ''Length'', side = SideCondition, isBase = False,
       isConditionOnly = True, group = None\<rparr>,
      \<lparr>var_key = js ''cr'', field = Some (js ''cacheReadPrice''), tierField = Some (js ''cache_read_unit_cost''),
       label = js ''Cache read price'', shortLabel = js ''Cache Read'', side = SideInput, isBase = False,
       isConditionOnly = False, group = Some (js ''cache'')\<rparr>,
      \<lparr>var_key = js ''cc'', field = Some (js ''cacheCreatePrice''), tierField = Some (js ''cache_create_unit_cost''),
       label = js ''Cache create price'', shortLabel = js ''Cache Write'', side = SideInput, isBase = False,
       isConditionOnly = False, group = Some (js ''cache'')\<rparr>,
      \<lparr>var_key = js ''cc1h'', field = Some (js ''cacheCreate1hPrice''), tierField = Some (js ''cache_create_1h_unit_cost''),
       label = js ''Cache create (1h) price'', shortLabel = js ''Cache Write (1h)'', side = SideInput, isBase = False,
       isConditionOnly = False, group = Some (js ''cache'')\<rparr>,
      \<lparr>var_key = js ''img'', field = Some (js ''imagePrice''), tierField = Some (js ''image_unit_cost''),
       label = js ''Image input price'', shortLabel = js ''Image In'', side = SideInput, isBase = False,
       isConditionOnly = False, group = Some (js ''media'')\<rparr>,
      \<lparr>var_key = js ''img_o'', field = Some (js ''imageOutputPrice''), tierField = Some (js ''image_output_unit_cost''),
       label = js ''Image output price'', shortLabel = js ''Image Out'', side = SideOutput, isBase = False,
       isConditionOnly = False, group = Some (js ''media'')\<rparr>,
      \<lparr>var_key = js ''ai'', field = Some (js ''audioInputPrice''), tierField = Some (js ''audio_input_unit_cost''),
       label = js ''Audio input price'', shortLabel = js ''Audio In'', side = SideInput, isBase = False,
       isConditionOnly = False, group = Some (js ''media'')\<rparr>,
      \<lparr>var_key = js ''ao'', field = Some (js ''audioOutputPrice''), tierField = Some (js ''audio_output_unit_cost''),
       label = js ''Audio output price'', shortLabel = js ''Audio Out'', side = SideOutput, isBase = False,
       isConditionOnly = False, group = Some (js ''media'')\<rparr>]"

definition BILLING_PRICING_VARS :: "BillingVar list" where
  "BILLING_PRICING_VARS = filter (\<lambda>v. \<not> isConditionOnly v) BILLING_VARS"

definition BILLING_CONDITION_VARS :: "jstr list" where
  "BILLING_CONDITION_VARS = map var_key (filter (\<lambda>v. isBase v \<or> isConditionOnly v) BILLING_VARS)"

definition BILLING_VAR_KEY_TO_FIELD :: "(jstr \<times> jstr) list" where
  "BILLING_VAR_KEY_TO_FIELD =
     map (\<lambda>v. (var_key v, case field v of Some f \<Rightarrow> f | None \<Rightarrow> js ''null'')) BILLING_PRICING_VARS"

definition BILLING_EXTRA_VARS :: "BillingVar list" where
  "BILLING_EXTRA_VARS = filter (\<lambda>v. \<not> isBase v \<and> \<not> isConditionOnly v) BILLING_VARS"

definition BILLING_CACHE_VAR_MAP :: "(jstr \<times> jstr) list" where
  "BILLING_CACHE_VAR_MAP =
     map (\<lambda>v. (case tierField v of Some f \<Rightarrow> f | None \<Rightarrow> js ''null'', var_key v)) BILLING_EXTRA_VARS"

definition num_unit :: "nat \<Rightarrow> bool" where
  "num_unit c \<longleftrightarrow> is_digit c \<or> c = 46 \<or> c = 101 \<or> c = 69 \<or> c = 43 \<or> c = 45"

abbreviation num_run :: re where "num_run \<equiv> Plus (Chr num_unit)"

definition BILLING_VAR_REGEX :: re where
  "BILLING_VAR_REGEX =
     cat [WordB, Group 1 (alts (map (\<lambda>v. Lit (var_key v)) BILLING_PRICING_VARS)), ws_star, Lit (js ''*''),
          ws_star, Group 2 num_run]"

section \<open>Request rules: constants and types\<close>

definition MATCH_EQ :: jstr where "MATCH_EQ = js ''eq''"
definition MATCH_CONTAINS :: jstr where "MATCH_CONTAINS = js ''contains''"
definition MATCH_GT :: jstr where "MATCH_GT = js ''gt''"
definition MATCH_GTE :: jstr where "MATCH_GTE = js ''gte''"
definition MATCH_LT :: jstr where "MATCH_LT = js ''lt''"
definition MATCH_LTE :: jstr where "MATCH_LTE = js ''lte''"
definition MATCH_EXISTS :: jstr where "MATCH_EXISTS = js ''exists''"
definition MATCH_RANGE :: jstr where "MATCH_RANGE = js ''range''"

lemmas match_defs = MATCH_EQ_def MATCH_CONTAINS_def MATCH_GT_def MATCH_GTE_def MATCH_LT_def MATCH_LTE_def
  MATCH_EXISTS_def MATCH_RANGE_def

definition TIME_FUNCS :: "jstr list" where
  "TIME_FUNCS = [js ''hour'', js ''minute'', js ''weekday'', js ''month'', js ''day'']"

text \<open>\<open>/^-?(?:\d+\.?\d*|\.\d+)(?:[eE][+-]?\d+)?$/\<close>\<close>

definition NUMERIC_LITERAL_REGEX :: re where
  "NUMERIC_LITERAL_REGEX =
     Seq (cat [Opt (Lit [45]),
               Alt (cat [Plus digit, Opt (Lit [46]), Star digit]) (cat [Lit [46], Plus digit]),
               Opt (cat [Chr (\<lambda>c. c = 101 \<or> c = 69), Opt (Chr (\<lambda>c. c = 43 \<or> c = 45)), Plus digit])])
         EOL"

datatype PHSource = SParam | SHeader

record ParamHeaderCondition =
  ph_source :: PHSource
  path :: jstr
  ph_mode :: jstr
  ph_value :: jstr

record TimeCondition =
  timeFunc :: jstr
  timezone :: jstr
  t_mode :: jstr
  t_value :: jstr
  rangeStart :: jstr
  rangeEnd :: jstr

datatype RequestCondition = PHCond ParamHeaderCondition | TimeCond TimeCondition

record RequestRuleGroup =
  conditions :: "RequestCondition list"
  multiplier :: jstr

datatype 'a parsed = Threw | NoParse | Parsed 'a

section \<open>Tiers\<close>

datatype CondVar = Vp | Vc | Vlen
datatype CondOp = OpLt | OpLe | OpGt | OpGe

record TierCondition =
  tc_var :: CondVar
  tc_op :: CondOp
  tc_value :: jsnum

record ParsedTier =
  tier_label :: jstr
  tier_conditions :: "TierCondition list"
  prices :: "(jstr \<times> jsnum) list"

text \<open>\<open>/^v(\d+):([\s\S]*)$/\<close>\<close>

definition VERSION_REGEX :: re where
  "VERSION_REGEX = cat [Lit (js ''v''), Group 1 (Plus digit), Lit (js '':''), Group 2 (Star any), EOL]"

definition stripExprVersion :: "jstr \<Rightarrow> jsnum \<times> jstr" where
  "stripExprVersion s =
     (if s = [] then (Fin 1, [])
      else case re_match VERSION_REGEX s of
        Some cs \<Rightarrow> (js_Number (cap_str 1 cs), cap_str 2 cs)
      | None \<Rightarrow> (Fin 1, s))"

fun collect_coeffs :: "(nat \<times> jstr) list list \<Rightarrow> (jstr \<times> jsnum) list \<Rightarrow> (jstr \<times> jsnum) list" where
  "collect_coeffs [] acc = acc"
| "collect_coeffs (m # ms) acc =
     collect_coeffs ms
       (if cap_str 1 m \<in> fst ` set acc then acc else acc @ [(cap_str 1 m, js_Number (cap_str 2 m))])"

definition num_or0 :: "jsnum option \<Rightarrow> jsnum" where
  "num_or0 x = (case x of Some (Fin q) \<Rightarrow> Fin q | Some (Infinity b) \<Rightarrow> Infinity b | _ \<Rightarrow> Fin 0)"

definition parseTierBody :: "jstr \<Rightarrow> (jstr \<times> jsnum) list" where
  "parseTierBody s =
     (let coeffs = collect_coeffs (re_matches BILLING_VAR_REGEX s) [] in
      map (\<lambda>(v, f). (f, num_or0 (map_of coeffs v))) BILLING_VAR_KEY_TO_FIELD)"

abbreviation cond_var_re :: re where "cond_var_re \<equiv> alts [Lit (js ''p''), Lit (js ''c''), Lit (js ''len'')]"
abbreviation cond_op_re :: re where
  "cond_op_re \<equiv> alts [Lit (js ''<''), Lit (js ''<=''), Lit (js ''>''), Lit (js ''>='')]"

text \<open>The class \<open>[\d.eE+]\<close>: without the minus sign.\<close>

definition pos_num_unit :: "nat \<Rightarrow> bool" where
  "pos_num_unit c \<longleftrightarrow> is_digit c \<or> c = 46 \<or> c = 101 \<or> c = 69 \<or> c = 43"

definition cond_group_re :: re where
  "cond_group_re =
     Group 1 (cat [cond_var_re, ws_star, cond_op_re, ws_star, Plus (Chr pos_num_unit),
       Star (cat [ws_star, Lit (js ''&&''), ws_star, cond_var_re, ws_star, cond_op_re, ws_star, Plus (Chr pos_num_unit)])])"

definition TIER_REGEX :: re where
  \<open>TIER_REGEX =
     cat [Opt (cat [cond_group_re, ws_star, Lit (js ''?''), ws_star]),
          Lit (js ''tier("''), Group 2 (Star not_quote), Lit (js ''",''), ws_star,
          Group 3 (Plus (Chr (\<lambda>c. c \<noteq> 41))), Lit (js '')'')]\<close>

definition AND_REGEX :: re where "AND_REGEX = cat [ws_star, Lit (js ''&&''), ws_star]"

definition COND_REGEX :: re where
  "COND_REGEX = cat [Group 1 cond_var_re, ws_star, Group 2 cond_op_re, ws_star, Group 3 (Plus (Chr pos_num_unit)), EOL]"

definition cond_var_of :: "jstr \<Rightarrow> CondVar" where
  "cond_var_of s = (if s = js ''p'' then Vp else if s = js ''c'' then Vc else Vlen)"

definition cond_op_of :: "jstr \<Rightarrow> CondOp" where
  "cond_op_of s = (if s = js ''<'' then OpLt else if s = js ''<='' then OpLe else if s = js ''>'' then OpGt else OpGe)"

definition parse_tier_conditions :: "jstr \<Rightarrow> TierCondition list" where
  "parse_tier_conditions condStr =
     (if condStr = [] then []
      else concat (map (\<lambda>cp. case re_match COND_REGEX (trim cp) of
          Some cs \<Rightarrow> [\<lparr>tc_var = cond_var_of (cap_str 1 cs), tc_op = cond_op_of (cap_str 2 cs),
                       tc_value = js_Number (cap_str 3 cs)\<rparr>]
        | None \<Rightarrow> []) (re_splits AND_REGEX condStr)))"

definition parseTiersFromExpr :: "jstr \<Rightarrow> ParsedTier list" where
  "parseTiersFromExpr s =
     (if s = [] then []
      else map (\<lambda>m. \<lparr>tier_label = cap_str 2 m, tier_conditions = parse_tier_conditions (cap_str 1 m),
                     prices = parseTierBody (cap_str 3 m)\<rparr>)
        (re_matches TIER_REGEX (snd (stripExprVersion s))))"

text \<open>
  \<open>/<[=\<open>U+FF1D\<close>]?|\<open>U+2264\<close>|\<open>U+FF1C\<close>[=\<open>U+FF1D\<close>]?/g\<close> and its mirror image. \<open>lower\<close> is
  \<open>String.prototype.toLowerCase\<close>, the Unicode case map.
\<close>

definition less_re :: re where
  "less_re = alts [cat [Lit [60], Opt (Chr (\<lambda>c. c = 61 \<or> c = 0xFF1D))], Lit [0x2264],
     cat [Lit [0xFF1C], Opt (Chr (\<lambda>c. c = 61 \<or> c = 0xFF1D))]]"

definition greater_re :: re where
  "greater_re = alts [cat [Lit [62], Opt (Chr (\<lambda>c. c = 61 \<or> c = 0xFF1D))], Lit [0x2265],
     cat [Lit [0xFF1E], Opt (Chr (\<lambda>c. c = 61 \<or> c = 0xFF1D))]]"

definition normalizeTierLabel :: "(jstr \<Rightarrow> jstr) \<Rightarrow> jstr option \<Rightarrow> jstr" where
  "normalizeTierLabel lower lbl =
     (case lbl of
        None \<Rightarrow> []
      | Some s \<Rightarrow>
          if s = [] then []
          else lower (re_replace ws_plus []
                 (re_replace greater_re (js ''>'') (re_replace less_re (js ''<'') s))))"

section \<open>Splitting at the top level\<close>

definition paren_depth :: "int \<Rightarrow> nat \<Rightarrow> int" where
  "paren_depth d c = (if c = 40 then d + 1 else if c = 41 then d - 1 else d)"

text \<open>
  The scan with the position's depth and the part collected since \<open>start\<close>. \<open>split_top\<close> is the
  common shape of the two splitters, which differ in their separator.
\<close>

function split_scan :: "jstr \<Rightarrow> int \<Rightarrow> jstr \<Rightarrow> jstr \<Rightarrow> jstr list" where
  "split_scan sep d cur [] = [trim cur]"
| "split_scan sep d cur (c # cs) =
     (let d' = paren_depth d c in
      if d' = 0 \<and> prefix sep (c # cs)
      then trim cur # split_scan sep d' [] (drop (length sep - 1) cs)
      else split_scan sep d' (cur @ [c]) cs)"
  by pat_completeness auto
termination by (relation "measure (\<lambda>(sep, d, cur, s). length s)") auto

definition split_top :: "jstr \<Rightarrow> jstr \<Rightarrow> jstr list" where
  "split_top sep s = filter (\<lambda>t. t \<noteq> []) (split_scan sep 0 [] s)"

definition splitTopLevelMultiply :: "jstr \<Rightarrow> jstr list" where
  "splitTopLevelMultiply s = split_top (js '' * '') s"

definition splitTopLevelAnd :: "jstr \<Rightarrow> jstr list" where
  "splitTopLevelAnd s = split_top (js '' && '') s"

section \<open>Parsing request rules\<close>

definition parseExprLiteral :: "jstr \<Rightarrow> jsval" where
  "parseExprLiteral raw =
     (let s = trim raw in
      if s = js ''true'' \<or> s = js ''false'' then JStr s
      else if re_test NUMERIC_LITERAL_REGEX s then JStr s
      else case json_parse s of Some v \<Rightarrow> v | None \<Rightarrow> JNull)"

abbreviation time_func_re :: re where "time_func_re \<equiv> alts (map Lit TIME_FUNCS)"

definition range_res :: "re list" where
  \<open>range_res = [Group 1 time_func_re, Lit (js ''("''), Group 2 (Plus not_quote), Lit (js ''") >= ''), Group 3 num_run,
     Lit (js '' || ''), BackRef 1, Lit (js ''("''), BackRef 2, Lit (js ''") < ''), Group 4 num_run]\<close>

definition RANGE_REGEX :: re where "RANGE_REGEX = cat (range_res @ [EOL])"
definition PAREN_RANGE_REGEX :: re where
  "PAREN_RANGE_REGEX = cat (Lit (js ''('') # range_res @ [Lit (js '')''), EOL])"

definition TIME_REGEX :: re where
  \<open>TIME_REGEX = cat [Group 1 time_func_re, Lit (js ''("''), Group 2 (Plus not_quote), Lit (js ''") ''),
     Group 3 (alts [Lit (js ''==''), Lit (js ''>=''), Lit (js ''<'')]), Lit (js '' ''), Group 4 num_run, EOL]\<close>

definition range_condition :: "(nat \<times> jstr) list \<Rightarrow> TimeCondition" where
  "range_condition m = \<lparr>timeFunc = cap_str 1 m, timezone = cap_str 2 m, t_mode = MATCH_RANGE, t_value = [],
     rangeStart = cap_str 3 m, rangeEnd = cap_str 4 m\<rparr>"

definition tryParseTimeCondition :: "jstr \<Rightarrow> TimeCondition option" where
  "tryParseTimeCondition s =
     (case re_match RANGE_REGEX s of
        Some m \<Rightarrow> Some (range_condition m)
      | None \<Rightarrow>
     (case re_match PAREN_RANGE_REGEX s of
        Some m \<Rightarrow> Some (range_condition m)
      | None \<Rightarrow>
     (case re_match TIME_REGEX s of
        Some m \<Rightarrow> Some \<lparr>timeFunc = cap_str 1 m, timezone = cap_str 2 m,
          t_mode = (if cap_str 3 m = js ''=='' then MATCH_EQ else if cap_str 3 m = js ''>='' then MATCH_GTE
                    else if cap_str 3 m = js ''<'' then MATCH_LT else MATCH_EQ),
          t_value = cap_str 4 m, rangeStart = [], rangeEnd = []\<rparr>
      | None \<Rightarrow> None)))"

abbreviation json_string_re :: re where
  "json_string_re \<equiv> cat [Lit [34], Star (Alt (Chr (\<lambda>c. c \<noteq> 34 \<and> c \<noteq> 92)) (cat [Lit [92], dot])), Lit [34]]"

definition HEADER_EXISTS_REGEX :: re where
  \<open>HEADER_EXISTS_REGEX = cat [Lit (js ''header("''), Group 1 (Plus not_quote), Lit (js ''") != ""''), EOL]\<close>
definition PARAM_EXISTS_REGEX :: re where
  \<open>PARAM_EXISTS_REGEX = cat [Lit (js ''param("''), Group 1 (Plus not_quote), Lit (js ''") != nil''), EOL]\<close>
definition HEADER_HAS_REGEX :: re where
  \<open>HEADER_HAS_REGEX = cat [Lit (js ''has(header("''), Group 1 (Plus not_quote), Lit (js ''"), ''),
     Group 2 json_string_re, Lit (js '')''), EOL]\<close>
definition PARAM_HAS_REGEX :: re where
  \<open>PARAM_HAS_REGEX = cat [Lit (js ''param("''), Group 1 (Plus not_quote), Lit (js ''") != nil && has(param("''),
     Group 2 (Plus not_quote), Lit (js ''"), ''), Group 3 json_string_re, Lit (js '')''), EOL]\<close>
definition PARAM_CMP_REGEX :: re where
  \<open>PARAM_CMP_REGEX = cat [Lit (js ''param("''), Group 1 (Plus not_quote), Lit (js ''") != nil && param("''),
     Group 2 (Plus not_quote), Lit (js ''") ''),
     Group 3 (alts [Lit (js ''>''), Lit (js ''>=''), Lit (js ''<''), Lit (js ''<='')]), Lit (js '' ''),
     Group 4 num_run, EOL]\<close>
definition EQ_REGEX :: re where
  \<open>EQ_REGEX = cat [Group 1 (alts [Lit (js ''param''), Lit (js ''header'')]), Lit (js ''("''), Group 2 (Plus not_quote),
     Lit (js ''") == ''), Group 3 (Plus dot), EOL]\<close>

definition ph_cond :: "PHSource \<Rightarrow> jstr \<Rightarrow> jstr \<Rightarrow> jstr \<Rightarrow> RequestCondition" where
  "ph_cond s p m v = PHCond \<lparr>ph_source = s, path = p, ph_mode = m, ph_value = v\<rparr>"

text \<open>\<open>JSON.parse(...)\<close> without a handler around it.\<close>

definition with_json :: "jstr \<Rightarrow> (jsval \<Rightarrow> 'a parsed) \<Rightarrow> 'a parsed" where
  "with_json s f = (case json_parse s of None \<Rightarrow> Threw | Some v \<Rightarrow> f v)"

definition comparison_mode :: "jstr \<Rightarrow> jstr" where
  "comparison_mode op = (if op = js ''>'' then MATCH_GT else if op = js ''>='' then MATCH_GTE
     else if op = js ''<'' then MATCH_LT else MATCH_LTE)"

definition parse_equality :: "jstr \<Rightarrow> RequestCondition parsed" where
  "parse_equality s =
     (case re_match EQ_REGEX s of
        None \<Rightarrow> NoParse
      | Some m \<Rightarrow>
          let v = parseExprLiteral (cap_str 3 m) in
          if v = JNull then NoParse
          else Parsed (ph_cond (if cap_str 1 m = js ''param'' then SParam else SHeader) (cap_str 2 m) MATCH_EQ (to_str v)))"

definition parse_param_comparison :: "jstr \<Rightarrow> RequestCondition option" where
  "parse_param_comparison s =
     (case re_match PARAM_CMP_REGEX s of
        None \<Rightarrow> None
      | Some m \<Rightarrow> if cap_str 1 m = cap_str 2 m
          then Some (ph_cond SParam (cap_str 1 m) (comparison_mode (cap_str 3 m)) (cap_str 4 m)) else None)"

definition param_has_match :: "jstr \<Rightarrow> (nat \<times> jstr) list option" where
  "param_has_match s =
     (case re_match PARAM_HAS_REGEX s of
        None \<Rightarrow> None
      | Some m \<Rightarrow> if cap_str 1 m = cap_str 2 m then Some m else None)"

definition tryParseRequestCondition :: "jstr \<Rightarrow> RequestCondition parsed" where
  "tryParseRequestCondition s =
     (case tryParseTimeCondition s of Some tc \<Rightarrow> Parsed (TimeCond tc) | None \<Rightarrow>
     (case re_match HEADER_EXISTS_REGEX s of Some m \<Rightarrow> Parsed (ph_cond SHeader (cap_str 1 m) MATCH_EXISTS []) | None \<Rightarrow>
     (case re_match PARAM_EXISTS_REGEX s of Some m \<Rightarrow> Parsed (ph_cond SParam (cap_str 1 m) MATCH_EXISTS []) | None \<Rightarrow>
     (case re_match HEADER_HAS_REGEX s of
        Some m \<Rightarrow> with_json (cap_str 2 m) (\<lambda>v. Parsed (ph_cond SHeader (cap_str 1 m) MATCH_CONTAINS (to_str v)))
      | None \<Rightarrow>
     (case param_has_match s of
        Some m \<Rightarrow> with_json (cap_str 3 m) (\<lambda>v. Parsed (ph_cond SParam (cap_str 1 m) MATCH_CONTAINS (to_str v)))
      | None \<Rightarrow>
     (case parse_param_comparison s of Some c \<Rightarrow> Parsed c | None \<Rightarrow> parse_equality s))))))"

text \<open>\<open>/^\((.+) \? ([\d.eE+-]+) : 1\)$/s\<close>\<close>

definition FACTOR_REGEX :: re where
  "FACTOR_REGEX = cat [Lit (js ''(''), Group 1 (Plus any), Lit (js '' ? ''), Group 2 num_run, Lit (js '' : 1)''), EOL]"

text \<open>The loop over the parts, which stops at the first that does not parse (or throws).\<close>

fun parse_all :: "('a \<Rightarrow> 'b parsed) \<Rightarrow> 'a list \<Rightarrow> 'b list parsed" where
  "parse_all f [] = Parsed []"
| "parse_all f (x # xs) =
     (case f x of
        Parsed y \<Rightarrow> (case parse_all f xs of Parsed ys \<Rightarrow> Parsed (y # ys) | NoParse \<Rightarrow> NoParse | Threw \<Rightarrow> Threw)
      | NoParse \<Rightarrow> NoParse
      | Threw \<Rightarrow> Threw)"

definition tryParseRuleGroupFactor :: "jstr \<Rightarrow> RequestRuleGroup parsed" where
  "tryParseRuleGroupFactor part =
     (case re_match FACTOR_REGEX part of
        None \<Rightarrow> NoParse
      | Some m \<Rightarrow>
          (case parse_all (\<lambda>ap. tryParseRequestCondition (trim ap)) (splitTopLevelAnd (cap_str 1 m)) of
             Parsed cs \<Rightarrow> if cs = [] then NoParse else Parsed \<lparr>conditions = cs, multiplier = cap_str 2 m\<rparr>
           | NoParse \<Rightarrow> NoParse
           | Threw \<Rightarrow> Threw))"

definition tryParseRequestRuleExpr :: "jstr \<Rightarrow> RequestRuleGroup list parsed" where
  "tryParseRequestRuleExpr s =
     (let t = trim s in
      if t = [] then Parsed [] else parse_all tryParseRuleGroupFactor (splitTopLevelMultiply t))"

section \<open>Splitting and combining a stored expression\<close>

fun outer_scan :: "int \<Rightarrow> jstr \<Rightarrow> bool" where
  "outer_scan d [] = (d = 0)"
| "outer_scan d (c # cs) =
     (let d' = paren_depth d c in if d' = 0 \<and> cs \<noteq> [] then False else outer_scan d' cs)"

definition hasFullOuterParens :: "jstr \<Rightarrow> bool" where
  "hasFullOuterParens s \<longleftrightarrow> prefix [40] s \<and> suffix [41] s \<and> outer_scan 0 s"

lemma length_trim_le: "length (trim s) \<le> length s"
  unfolding trim_def using length_dropWhile_le [of is_ws s] length_dropWhile_le [of is_ws "rev (dropWhile is_ws s)"]
  by simp

function unwrap_loop :: "jstr \<Rightarrow> jstr" where
  "unwrap_loop cur = (if hasFullOuterParens cur then unwrap_loop (trim (butlast (tl cur))) else cur)"
  by auto
termination
proof (relation "measure length")
  fix cur assume "hasFullOuterParens cur"
  then have "cur \<noteq> []" by (auto simp: hasFullOuterParens_def)
  then have "length (butlast (tl cur)) < length cur" by (cases cur) auto
  with length_trim_le [of "butlast (tl cur)"] show "(trim (butlast (tl cur)), cur) \<in> measure length" by simp
qed simp

declare unwrap_loop.simps [simp del]

definition unwrapOuterParens :: "jstr \<Rightarrow> jstr" where
  "unwrapOuterParens s = unwrap_loop (trim s)"

definition is_rule_part :: "jstr \<Rightarrow> bool parsed" where
  "is_rule_part part =
     (case tryParseRequestRuleExpr part of
        Threw \<Rightarrow> Threw
      | NoParse \<Rightarrow> Parsed False
      | Parsed gs \<Rightarrow> Parsed (gs \<noteq> []))"

text \<open>The two texts \<open>billingExpr\<close> and \<open>requestRuleExpr\<close>.\<close>

definition splitBillingExprAndRequestRules :: "jstr \<Rightarrow> (jstr \<times> jstr) parsed" where
  "splitBillingExprAndRequestRules s =
     (let t = trim s in
      if t = [] then Parsed ([], [])
      else let parts = splitTopLevelMultiply t in
        if length parts \<le> 1 then Parsed (t, [])
        else case parse_all is_rule_part parts of
          Parsed flags \<Rightarrow>
            (let ruleParts = map fst (filter snd (zip parts flags));
                 baseParts = map fst (filter (\<lambda>p. \<not> snd p) (zip parts flags)) in
             if ruleParts = [] \<or> length baseParts \<noteq> 1 then Parsed (t, [])
             else Parsed (unwrapOuterParens (hd baseParts), join (js '' * '') ruleParts))
        | NoParse \<Rightarrow> NoParse
        | Threw \<Rightarrow> Threw)"

definition combineBillingExpr :: "jstr \<Rightarrow> jstr \<Rightarrow> jstr" where
  "combineBillingExpr baseExpr requestRuleExpr =
     (let base = trim baseExpr; rules = trim requestRuleExpr in
      if base = [] then []
      else if rules = [] then base
      else js ''('' @ base @ js '') * '' @ rules)"

section \<open>The rule editor\<close>

definition createEmptyCondition :: ParamHeaderCondition where
  "createEmptyCondition = \<lparr>ph_source = SParam, path = [], ph_mode = MATCH_EQ, ph_value = []\<rparr>"

definition createEmptyTimeCondition :: TimeCondition where
  "createEmptyTimeCondition = \<lparr>timeFunc = js ''hour'', timezone = js ''Asia/Shanghai'', t_mode = MATCH_GTE,
     t_value = [], rangeStart = [], rangeEnd = []\<rparr>"

definition createEmptyRuleGroup :: RequestRuleGroup where
  "createEmptyRuleGroup = \<lparr>conditions = [PHCond createEmptyCondition], multiplier = []\<rparr>"

definition createEmptyTimeRuleGroup :: RequestRuleGroup where
  "createEmptyTimeRuleGroup = \<lparr>conditions = [TimeCond createEmptyTimeCondition], multiplier = []\<rparr>"

definition getRequestRuleMatchOptions :: "jstr \<Rightarrow> (jstr \<times> jstr) list" where
  "getRequestRuleMatchOptions source =
     (if source = js ''time''
      then [(MATCH_EQ, js ''Equals''), (MATCH_GTE, js ''Greater than or equal''), (MATCH_LT, js ''Less than''),
            (MATCH_RANGE, js ''Overnight range'')]
      else
        let base = [(MATCH_EQ, js ''Equals''), (MATCH_CONTAINS, js ''Contains''), (MATCH_EXISTS, js ''Exists'')] in
        if source = js ''header'' then base
        else base @ [(MATCH_GT, js ''Greater than''), (MATCH_GTE, js ''Greater than or equal''),
                     (MATCH_LT, js ''Less than''), (MATCH_LTE, js ''Less than or equal'')])"

definition isTimeFunc :: "jsval \<Rightarrow> bool" where
  "isTimeFunc v \<longleftrightarrow> v \<in> JStr ` set TIME_FUNCS"

text \<open>\<open>x == null ? '' : String(x)\<close>, and \<open>x || d\<close> of an optional string.\<close>

definition text_of :: "jsval \<Rightarrow> jstr" where
  "text_of v = (if is_nullish v then [] else to_str v)"

definition str_or :: "jsval \<Rightarrow> jstr \<Rightarrow> jstr" where
  "str_or v d = (if truthy v then to_str v else d)"

definition mode_or :: "jsval \<Rightarrow> jstr \<Rightarrow> jstr \<Rightarrow> jstr" where
  "mode_or v source d = (if v \<in> JStr ` fst ` set (getRequestRuleMatchOptions source) then to_str v else d)"

definition normalizeTime :: "jsval \<Rightarrow> TimeCondition" where
  "normalizeTime cond =
     \<lparr>timeFunc = (if isTimeFunc (get_prop (js ''timeFunc'') cond) then to_str (get_prop (js ''timeFunc'') cond) else js ''hour''),
      timezone = str_or (get_prop (js ''timezone'') cond) (js ''Asia/Shanghai''),
      t_mode = mode_or (get_prop (js ''mode'') cond) (js ''time'') MATCH_GTE,
      t_value = text_of (get_prop (js ''value'') cond),
      rangeStart = text_of (get_prop (js ''rangeStart'') cond),
      rangeEnd = text_of (get_prop (js ''rangeEnd'') cond)\<rparr>"

definition source_name :: "PHSource \<Rightarrow> jstr" where
  "source_name s = (case s of SParam \<Rightarrow> js ''param'' | SHeader \<Rightarrow> js ''header'')"

definition normalizeParamHeader :: "PHSource \<Rightarrow> jsval \<Rightarrow> ParamHeaderCondition" where
  "normalizeParamHeader s cond =
     \<lparr>ph_source = s, path = str_or (get_prop (js ''path'') cond) [],
      ph_mode = mode_or (get_prop (js ''mode'') cond) (source_name s) MATCH_EQ,
      ph_value = text_of (get_prop (js ''value'') cond)\<rparr>"

definition normalizeCondition :: "jsval \<Rightarrow> RequestCondition" where
  "normalizeCondition cond =
     (if get_prop (js ''source'') cond = JStr (js ''time'') then TimeCond (normalizeTime cond)
      else if get_prop (js ''source'') cond = JStr (js ''header'') then PHCond (normalizeParamHeader SHeader cond)
      else PHCond (normalizeParamHeader SParam cond))"

text \<open>A typed condition as the object the editor hands over.\<close>

definition time_value :: "TimeCondition \<Rightarrow> jsval" where
  "time_value c = JObj [(js ''source'', JStr (js ''time'')), (js ''timeFunc'', JStr (timeFunc c)),
     (js ''timezone'', JStr (timezone c)), (js ''mode'', JStr (t_mode c)), (js ''value'', JStr (t_value c)),
     (js ''rangeStart'', JStr (rangeStart c)), (js ''rangeEnd'', JStr (rangeEnd c))]"

definition ph_object :: "ParamHeaderCondition \<Rightarrow> jsval" where
  "ph_object c = JObj [(js ''source'', JStr (source_name (ph_source c))), (js ''path'', JStr (path c)),
     (js ''mode'', JStr (ph_mode c)), (js ''value'', JStr (ph_value c))]"

definition buildExprLiteral :: "jstr \<Rightarrow> jstr \<Rightarrow> jstr" where
  "buildExprLiteral mode v =
     (let t = trim v in
      if mode = MATCH_CONTAINS then json_quote t
      else if t = js ''true'' \<or> t = js ''false'' then t
      else if re_test NUMERIC_LITERAL_REGEX t then t
      else json_quote t)"

definition buildTimeConditionExpr :: "TimeCondition \<Rightarrow> jstr" where
  "buildTimeConditionExpr cond =
     (let n = normalizeTime (time_value cond);
          fn = timeFunc n @ js ''('' @ json_quote (timezone n) @ js '')'' in
      if t_mode n = MATCH_RANGE
      then let s = trim (rangeStart n); e = trim (rangeEnd n) in
        if \<not> re_test NUMERIC_LITERAL_REGEX s \<or> \<not> re_test NUMERIC_LITERAL_REGEX e then []
        else fn @ js '' >= '' @ s @ js '' || '' @ fn @ js '' < '' @ e
      else let v = trim (t_value n) in
        if \<not> re_test NUMERIC_LITERAL_REGEX v then []
        else fn @ js '' '' @ (if t_mode n = MATCH_GTE then js ''>='' else if t_mode n = MATCH_LT then js ''<''
                              else js ''=='') @ js '' '' @ v)"

definition comparison_op :: "jstr \<Rightarrow> jstr" where
  "comparison_op m = (if m = MATCH_GT then js ''>'' else if m = MATCH_GTE then js ''>=''
     else if m = MATCH_LT then js ''<'' else js ''<='')"

definition buildRequestConditionExpr :: "RequestCondition \<Rightarrow> jstr" where
  \<open>buildRequestConditionExpr cond =
     (case cond of
        TimeCond c \<Rightarrow> buildTimeConditionExpr c
      | PHCond c \<Rightarrow>
          let n = normalizeParamHeader (ph_source c) (ph_object c); p = trim (path n) in
          if p = [] then []
          else
            let src = source_name (ph_source n) @ js ''('' @ json_quote p @ js '')'' in
            if ph_mode n = MATCH_EXISTS
            then src @ (if ph_source n = SHeader then js '' != ""'' else js '' != nil'')
            else if ph_mode n = MATCH_CONTAINS
            then (if ph_source n = SHeader
                  then js ''has('' @ src @ js '', '' @ buildExprLiteral (ph_mode n) (ph_value n) @ js '')''
                  else src @ js '' != nil && has('' @ src @ js '', '' @ buildExprLiteral (ph_mode n) (ph_value n) @ js '')'')
            else if ph_mode n \<in> {MATCH_GT, MATCH_GTE, MATCH_LT, MATCH_LTE}
            then let t = trim (ph_value n) in
              if \<not> re_test NUMERIC_LITERAL_REGEX t then []
              else src @ js '' != nil && '' @ src @ js '' '' @ comparison_op (ph_mode n) @ js '' '' @ t
            else src @ js '' == '' @ buildExprLiteral (ph_mode n) (ph_value n))\<close>

definition buildRuleGroupFactor :: "RequestRuleGroup \<Rightarrow> jstr" where
  "buildRuleGroupFactor g =
     (let mult = trim (multiplier g) in
      if \<not> re_test NUMERIC_LITERAL_REGEX mult then []
      else
        let condExprs = filter (\<lambda>e. e \<noteq> []) (map buildRequestConditionExpr (conditions g)) in
        if condExprs = [] then []
        else
          let combined = (if length condExprs = 1 then hd condExprs
              else join (js '' && '') (map (\<lambda>e. if contains e (js '' || '') then js ''('' @ e @ js '')'' else e) condExprs)) in
          js ''('' @ combined @ js '' ? '' @ mult @ js '' : 1)'')"

definition buildRequestRuleExpr :: "RequestRuleGroup list \<Rightarrow> jstr" where
  "buildRequestRuleExpr gs = join (js '' * '') (filter (\<lambda>e. e \<noteq> []) (map buildRuleGroupFactor gs))"

end
