(* ===== verification/BillingRules.thy ===== *)
theory BillingRules
  imports BillingExpr
begin

text \<open>
  Request rules read back: every canonical rule group is printed to a text that the parser turns
  into the same group. A condition is canonical when the editor's normalisation leaves it as it
  is, its texts are \<open>plain\<close>, that is free of quotes, backslashes, control units, parentheses and the
  units \<open>& * |\<close> of the operators, which the splitters would take for structure, and the printer does not
  guard it: comparing a request parameter by \<open>>\<close> and the like, or searching in it, is not canonical,
  because such a rule is not read back (\<open>guarded_rules_lost\<close>).
\<close>

section \<open>Plain texts and numerals\<close>

definition plain_unit :: "nat \<Rightarrow> bool" where
  "plain_unit c \<longleftrightarrow> 32 \<le> c \<and> c < 0xD800 \<and> c \<notin> {34, 38, 40, 41, 42, 92, 124} \<and> \<not> is_line_end c"

definition plain :: "jstr \<Rightarrow> bool" where
  "plain s \<longleftrightarrow> (\<forall>c\<in>set s. plain_unit c)"

definition numeral_text :: "jstr \<Rightarrow> bool" where
  "numeral_text s \<longleftrightarrow> re_test NUMERIC_LITERAL_REGEX s"

lemma plain_append [simp]: "plain (x @ y) \<longleftrightarrow> plain x \<and> plain y"
  by (auto simp: plain_def)

lemma plain_not_quote: "plain s \<Longrightarrow> \<forall>u\<in>set s. u \<noteq> 34"
  by (auto simp: plain_def plain_unit_def)

lemma esc_plain: "plain s \<Longrightarrow> esc s = s"
  by (induction s rule: esc.induct)
     (auto simp: plain_def plain_unit_def esc_unit_def high_surrogate_def low_surrogate_def)

lemma json_quote_plain: "plain s \<Longrightarrow> json_quote s = 34 # s @ [34]"
  by (simp add: json_quote_def esc_plain)

lemma numeral_units: "numeral_text s \<Longrightarrow> c \<in> set s \<Longrightarrow> num_unit c"
proof -
  assume "numeral_text s" "c \<in> set s"
  then have "alphabet (cat [Opt (Lit [45]),
      Alt (cat [Plus digit, Opt (Lit [46]), Star digit]) (cat [Lit [46], Plus digit]),
      Opt (cat [Chr (\<lambda>c. c = 101 \<or> c = 69), Opt (Chr (\<lambda>c. c = 43 \<or> c = 45)), Plus digit])]) c"
    unfolding numeral_text_def NUMERIC_LITERAL_REGEX_def by (rule re_test_alphabet)
  then show "num_unit c" by (auto simp: cat_def Plus_def num_unit_def)
qed

lemma numeral_ne: "numeral_text s \<Longrightarrow> s \<noteq> []"
  by (auto simp: numeral_text_def re_test_def re_match_def NUMERIC_LITERAL_REGEX_def Plus_def)

lemma num_unit_plain: "num_unit c \<Longrightarrow> plain_unit c \<and> \<not> is_ws c"
  by (auto simp: num_unit_def plain_unit_def is_digit_def is_line_end_def is_ws_def)

lemma numeral_plain: "numeral_text s \<Longrightarrow> plain s"
  using numeral_units num_unit_plain by (auto simp: plain_def)

lemma numeral_trimmed: "numeral_text s \<Longrightarrow> trimmed s"
  using numeral_units num_unit_plain by (intro no_ws_trimmed) auto

lemma numeral_trim [simp]: "numeral_text s \<Longrightarrow> trim s = s"
  by (simp add: numeral_trimmed trim_id)

section \<open>The splitter on solid parts\<close>

text \<open>\<open>scan m d s\<close>: the depth behind \<open>s\<close>, provided the mark \<open>m\<close> never occurs at depth 0.\<close>

fun scan :: "nat \<Rightarrow> int \<Rightarrow> jstr \<Rightarrow> int option" where
  "scan m d [] = Some d"
| "scan m d (c # cs) =
     (if paren_depth d c = 0 \<and> c = m then None else scan m (paren_depth d c) cs)"

lemma scan_append: "scan m d (x @ y) = (case scan m d x of None \<Rightarrow> None | Some d' \<Rightarrow> scan m d' y)"
  by (induction x arbitrary: d) auto

lemma scan_plain: "m = 38 \<or> m = 42 \<Longrightarrow> plain x \<Longrightarrow> scan m d x = Some d"
  by (induction x arbitrary: d) (auto simp: plain_def plain_unit_def paren_depth_def)

lemma split_scan_solid:
  assumes "m \<notin> {40, 41}" "y = [] \<or> hd y \<noteq> m" "scan m d x = Some e"
  shows "split_scan (32 # m # r) d cur (x @ y) = split_scan (32 # m # r) e (cur @ x) y"
  using assms(3)
proof (induction x arbitrary: d cur)
  case Nil
  then show ?case by simp
next
  case (Cons c x)
  have "\<not> (paren_depth d c = 0 \<and> prefix (32 # m # r) (c # x @ y))"
  proof
    assume a: "paren_depth d c = 0 \<and> prefix (32 # m # r) (c # x @ y)"
    then have n: "c = 32" "x @ y \<noteq> []" "hd (x @ y) = m" by (cases "x @ y"; auto simp: prefix_def)+
    show False
    proof (cases x)
      case Nil
      with n assms(2) show False by simp
    next
      case (Cons b z)
      with n a assms(1) Cons.prems show False by (auto simp: paren_depth_def split: if_splits)
    qed
  qed
  with Cons show ?case by (auto simp: Let_def split: if_splits)
qed

lemma split_scan_join:
  assumes "m \<notin> {40, 41, 32}" "ps \<noteq> []" "\<forall>p\<in>set ps. scan m 0 p = Some 0 \<and> trimmed p"
  shows "split_scan (32 # m # r) 0 [] (join (32 # m # r) ps) = ps"
  using assms(2,3)
proof (induction "32 # m # r" ps rule: join.induct)
  case 1
  then show ?case by simp
next
  case (2 x)
  with split_scan_solid [of m "[]" 0 x 0 r "[]"] assms(1) show ?case by (simp add: trim_id)
next
  case (3 x y ys)
  define rest where "rest = join (32 # m # r) (y # ys)"
  have "split_scan (32 # m # r) 0 [] (x @ (32 # m # r) @ rest) = split_scan (32 # m # r) 0 x ((32 # m # r) @ rest)"
    using split_scan_solid [of m "(32 # m # r) @ rest" 0 x 0 r "[]"] assms(1) 3 by auto
  also have "\<dots> = trim x # split_scan (32 # m # r) 0 [] rest"
    by (simp add: paren_depth_def)
  finally show ?case using 3 by (simp add: trim_id rest_def)
qed

lemma split_top_join:
  assumes "m \<notin> {40, 41, 32}" "ps \<noteq> []" "\<forall>p\<in>set ps. scan m 0 p = Some 0 \<and> trimmed p \<and> p \<noteq> []"
  shows "split_top (32 # m # r) (join (32 # m # r) ps) = ps"
proof -
  have "split_scan (32 # m # r) 0 [] (join (32 # m # r) ps) = ps"
    using assms by (intro split_scan_join) auto
  moreover have "filter (\<lambda>t. t \<noteq> []) ps = ps" using assms(3) by (simp add: filter_id_conv)
  ultimately show ?thesis by (simp add: split_top_def)
qed

section \<open>Matching steps on printed conditions\<close>

lemma refuses_js: "\<not> P (of_char c) \<Longrightarrow> refuses P (cat (Lit (js (c # l)) # rs))"
  by (simp add: js_def)

lemma cat_lit_end: "rm (cat (Lit l # rs)) (p, l, cs) = rm (cat rs) (after p l, [], cs)"
  by simp

lemma cat_eol_end: "rm (cat [EOL]) (p, [], cs) = [(p, [], cs)]"
  by simp

definition opens_quote :: "jstr \<Rightarrow> bool" where
  "opens_quote l \<longleftrightarrow> prefix [34] l"

lemma opens_quote_js [simp]: "opens_quote (js (c # l)) \<longleftrightarrow> c = CHR 0x22" "opens_quote (34 # l')"
proof -
  have "of_char c = (34 :: nat) \<longleftrightarrow> c = CHR 0x22"
    using of_char_eq_iff [of c "CHR 0x22", where 'a = nat] by simp
  then show "opens_quote (js (c # l)) \<longleftrightarrow> c = CHR 0x22" by (auto simp: opens_quote_def js_def)
  show "opens_quote (34 # l')" by (simp add: opens_quote_def)
qed

lemma opens_quote_append [simp]: "opens_quote l \<Longrightarrow> opens_quote (l @ t)"
  by (auto simp: opens_quote_def prefix_def)

lemma opens_quoteE: "opens_quote l \<Longrightarrow> (\<And>l'. l = 34 # l' \<Longrightarrow> P) \<Longrightarrow> P"
  by (auto simp: opens_quote_def prefix_def)

lemma cat_quoted_text:
  assumes "x \<noteq> []" "plain x" "opens_quote l" "opens_quote t"
  shows "rm (cat (Group i (Plus not_quote) # Lit l # rs)) (p, x @ t, cs) =
    rm (cat (Lit l # rs)) (after p x, t, (i, x) # cs)"
proof -
  obtain l' t' where "l = 34 # l'" "t = 34 # t'" using assms(3,4) by (elim opens_quoteE)
  then show ?thesis using assms(1,2) plain_not_quote by (intro cat_group_run) auto
qed

lemma cat_number:
  assumes "numeral_text x" "t = [] \<or> \<not> num_unit (hd t)" "refuses num_unit (cat rs)"
  shows "rm (cat (Group i num_run # rs)) (p, x @ t, cs) = rm (cat rs) (after p x, t, (i, x) # cs)"
  using numeral_units [OF assms(1)] numeral_ne [OF assms(1)] assms(2,3) by (intro cat_group_run) auto

lemma cat_time_func:
  assumes "f \<in> set TIME_FUNCS"
  shows \<open>rm (cat (Group 1 time_func_re # rs)) (p, f @ js ''("'' @ t, cs) =
    rm (cat rs) (after p f, js ''("'' @ t, (1, f) # cs)\<close>
proof -
  from assms consider "f = js ''hour''" | "f = js ''minute''" | "f = js ''weekday''" | "f = js ''month''" | "f = js ''day''"
    by (auto simp: TIME_FUNCS_def)
  then show ?thesis
    by cases (simp_all add: TIME_FUNCS_def alts_def js_def after_def)
qed

lemma cat_time_func_fails:
  assumes "prefix (js ''header('') s \<or> prefix (js ''param('') s \<or> prefix (js ''has('') s \<or> prefix (js ''('') s"
  shows "rm (cat (Group 1 time_func_re # rs)) (p, s, cs) = []"
  using assms by (auto simp: TIME_FUNCS_def alts_def js_def prefix_def)

lemma not_time:
  assumes "prefix (js ''header('') s \<or> prefix (js ''param('') s \<or> prefix (js ''has('') s"
  shows "tryParseTimeCondition s = None"
proof -
  have "rm (cat (Group 1 time_func_re # rs)) (p, s, cs) = []" for rs p cs
    using assms by (intro cat_time_func_fails) blast
  then have "re_match RANGE_REGEX s = None" "re_match TIME_REGEX s = None"
    by (simp_all add: re_match_def RANGE_REGEX_def range_res_def TIME_REGEX_def del: cat_Cons One_nat_def)
  moreover have "re_match PAREN_RANGE_REGEX s = None"
    using assms cat_lit_fails [of "js ''(''" s]
    by (auto simp: re_match_def PAREN_RANGE_REGEX_def prefix_def js_def simp del: cat_Cons)
  ultimately show ?thesis by (simp add: tryParseTimeCondition_def)
qed

text \<open>A JSON string literal as the regular expressions match it.\<close>

lemma run_star_step:
  assumes "\<forall>u\<in>set x. \<forall>p s. f (p, u # s, cs) = [(Some u, s, cs)] \<and> g (p, u # s, cs) = []"
    and "\<forall>p. f (p, t, cs) = []" "length (x @ t) \<le> n"
  shows "concat (map g (star_iter f n (p, x @ t, cs))) = g (after p x, t, cs)"
  using assms(1,3)
proof (induction x arbitrary: p n)
  case Nil
  then show ?case using assms(2) by (cases n) (auto simp: after_def)
next
  case (Cons a x)
  then obtain m where n: "n = Suc m" by (cases n) auto
  have "concat (map g (star_iter f m (Some a, x @ t, cs))) = g (after (Some a) x, t, cs)"
    using Cons n by (intro Cons.IH) auto
  moreover have "after (Some a) x = after p (a # x)" by (simp add: after_def)
  ultimately show ?case using Cons.prems n by simp
qed

lemma json_string_match:
  assumes "plain v"
  shows "rm json_string_re (p, json_quote v @ t, cs) = [(Some 34, t, cs)]"
proof -
  define A where "A = Alt (Chr (\<lambda>c. c \<noteq> 34 \<and> c \<noteq> 92)) (cat [Lit [92], dot])"
  have run: "concat (map (rm (cat [Lit [34]])) (star_iter (rm A) (length (v @ 34 # t)) (Some 34, v @ 34 # t, cs)))
      = rm (cat [Lit [34]]) (after (Some 34) v, 34 # t, cs)"
  proof (rule run_star_step)
    show "\<forall>u\<in>set v. \<forall>p s. rm A (p, u # s, cs) = [(Some u, s, cs)] \<and> rm (cat [Lit [34]]) (p, u # s, cs) = []"
      using assms by (auto simp: A_def plain_def plain_unit_def)
  qed (simp_all add: A_def)
  have "rm (cat [Lit [34], Star A, Lit [34]]) (p, [34] @ v @ 34 # t, cs) = rm (cat [Star A, Lit [34]]) (after p [34], v @ 34 # t, cs)"
    by (rule cat_lit)
  also have "\<dots> = concat (map (rm (cat [Lit [34]])) (star_iter (rm A) (length (v @ 34 # t)) (Some 34, v @ 34 # t, cs)))"
    unfolding cat_Cons [of "Star A"] by (simp add: after_def del: cat_Cons)
  also have "\<dots> = rm (cat [Lit [34]]) (after (Some 34) v, 34 # t, cs)" by (rule run)
  also have "\<dots> = [(Some 34, t, cs)]" by (simp add: after_def)
  finally show ?thesis using assms by (simp add: json_quote_plain A_def del: cat_Cons)
qed

lemma cat_json_string:
  assumes "plain v"
  shows "rm (cat (Group i json_string_re # rs)) (p, json_quote v @ t, cs) = rm (cat rs) (Some 34, t, (i, json_quote v) # cs)"
  unfolding cat_Cons [of "Group i json_string_re"] rm_group json_string_match [OF assms] by simp

lemma cat_source:
  "rm (cat (Group 1 (alts [Lit (js ''param''), Lit (js ''header'')]) # rs)) (p, source_name s @ t, cs) =
     rm (cat rs) (after p (source_name s), t, (1, source_name s) # cs)"
  by (cases s) (auto simp: alts_def source_name_def js_def)

lemma cat_dots:
  assumes "x \<noteq> []" "\<forall>u\<in>set x. \<not> is_line_end u"
  shows "rm (cat [Group i (Plus dot), EOL]) (p, x, cs) = [(after p x, [], (i, x) # cs)]"
  using cat_group_run [of x "\<lambda>c. \<not> is_line_end c" "[]" "[EOL]" i p cs] assms by simp

lemma prefix_js [simp]:
  "prefix (js (c # a)) (js (d # b) @ t) \<longleftrightarrow> c = d \<and> prefix (js a) (js b @ t)"
  "prefix (js (c # a)) (js [] @ t) \<longleftrightarrow> prefix (js (c # a)) t"
  "prefix (js (c # a)) (js (d # b)) \<longleftrightarrow> c = d \<and> prefix (js a) (js b)"
  "prefix (js (c # a)) (js []) \<longleftrightarrow> False" "prefix (js []) x \<longleftrightarrow> True"
  using of_char_eq_iff [of c d, where 'a = nat] by (auto simp: js_def)

lemmas match_steps = re_match_def cat_lit cat_lit_end cat_eol_end cat_quoted_text cat_lit_fails cat_json_string
  cat_dots

lemma header_exists_back:
  assumes "P \<noteq> []" "plain P"
  shows \<open>tryParseRequestCondition (js ''header("'' @ P @ js ''") != ""'') = Parsed (ph_cond SHeader P MATCH_EXISTS [])\<close>
proof -
  have \<open>tryParseTimeCondition (js ''header("'' @ P @ js ''") != ""'') = None\<close>
    by (rule not_time) simp
  moreover have \<open>re_match HEADER_EXISTS_REGEX (js ''header("'' @ P @ js ''") != ""'') = Some [(1, P)]\<close>
    using assms by (simp add: match_steps HEADER_EXISTS_REGEX_def del: cat_Cons One_nat_def)
  ultimately show ?thesis by (simp add: tryParseRequestCondition_def cap_str_def)
qed

lemma param_exists_back:
  assumes "P \<noteq> []" "plain P"
  shows \<open>tryParseRequestCondition (js ''param("'' @ P @ js ''") != nil'') = Parsed (ph_cond SParam P MATCH_EXISTS [])\<close>
proof -
  let ?t = \<open>js ''param("'' @ P @ js ''") != nil''\<close>
  have "tryParseTimeCondition ?t = None" by (rule not_time) simp
  moreover have "re_match HEADER_EXISTS_REGEX ?t = None"
    by (simp add: match_steps HEADER_EXISTS_REGEX_def del: cat_Cons One_nat_def)
  moreover have "re_match PARAM_EXISTS_REGEX ?t = Some [(1, P)]"
    using assms by (simp add: match_steps PARAM_EXISTS_REGEX_def del: cat_Cons One_nat_def)
  ultimately show ?thesis by (simp add: tryParseRequestCondition_def cap_str_def)
qed

lemma header_contains_back:
  assumes "P \<noteq> []" "plain P" "plain v"
  shows \<open>tryParseRequestCondition (js ''has(header("'' @ P @ js ''"), '' @ json_quote v @ js '')'') =
    Parsed (ph_cond SHeader P MATCH_CONTAINS v)\<close>
proof -
  let ?t = \<open>js ''has(header("'' @ P @ js ''"), '' @ json_quote v @ js '')''\<close>
  have "tryParseTimeCondition ?t = None" by (rule not_time) simp
  moreover have "re_match HEADER_EXISTS_REGEX ?t = None" "re_match PARAM_EXISTS_REGEX ?t = None"
    by (simp_all add: match_steps HEADER_EXISTS_REGEX_def PARAM_EXISTS_REGEX_def del: cat_Cons One_nat_def)
  moreover have "re_match HEADER_HAS_REGEX ?t = Some [(2, json_quote v), (1, P)]"
    using assms by (simp add: match_steps HEADER_HAS_REGEX_def del: cat_Cons One_nat_def)
  moreover have "json_parse (json_quote v) = Some (JStr v)"
    using json_roundtrip [of "JStr v"] by simp
  ultimately show ?thesis by (simp add: tryParseRequestCondition_def cap_str_def with_json_def)
qed

definition literal_text :: "jstr \<Rightarrow> jstr" where
  "literal_text v = (if v = js ''true'' \<or> v = js ''false'' \<or> numeral_text v then v else json_quote v)"

lemma literal_facts:
  assumes "plain v"
  shows "literal_text v \<noteq> []" "\<forall>u\<in>set (literal_text v). \<not> is_line_end u" "trimmed (literal_text v)"
proof -
  have q: "json_quote v = 34 # v @ [34]" using assms by (rule json_quote_plain)
  show "literal_text v \<noteq> []" using numeral_ne q by (auto simp: literal_text_def)
  show "\<forall>u\<in>set (literal_text v). \<not> is_line_end u"
    using assms by (auto simp: literal_text_def q plain_def plain_unit_def is_line_end_def)
  show "trimmed (literal_text v)"
    using numeral_trimmed by (auto simp: literal_text_def q trimmed_def is_ws_def js_def)
qed

lemma parse_literal:
  assumes "plain v"
  shows "parseExprLiteral (literal_text v) = JStr v"
proof -
  have q: "json_quote v = 34 # v @ [34]" using assms by (rule json_quote_plain)
  have "\<not> numeral_text (json_quote v)"
  proof
    assume "numeral_text (json_quote v)"
    from numeral_units [OF this, of 34] show False by (simp add: q num_unit_def is_digit_def)
  qed
  moreover have "json_parse (json_quote v) = Some (JStr v)" using json_roundtrip [of "JStr v"] by simp
  moreover have "json_quote v \<noteq> js ''true''" "json_quote v \<noteq> js ''false''" by (simp_all add: q js_def)
  ultimately show ?thesis
    using literal_facts(3) [OF assms] by (auto simp: parseExprLiteral_def Let_def trim_id literal_text_def numeral_text_def)
qed

definition source_call :: "PHSource \<Rightarrow> jstr" where
  \<open>source_call s = (case s of SParam \<Rightarrow> js ''param("'' | SHeader \<Rightarrow> js ''header("'')\<close>

lemma equality_back:
  assumes "P \<noteq> []" "plain P" "plain v"
  shows \<open>tryParseRequestCondition (source_name s @ js ''("'' @ P @ js ''") == '' @ literal_text v) =
    Parsed (ph_cond s P MATCH_EQ v)\<close>
proof -
  let ?t = \<open>source_name s @ js ''("'' @ P @ js ''") == '' @ literal_text v\<close>
  have form: \<open>?t = source_call s @ P @ js ''") == '' @ literal_text v\<close>
    by (cases s) (simp_all add: source_name_def source_call_def js_def)
  have "tryParseTimeCondition ?t = None"
    unfolding form by (rule not_time) (cases s, simp_all add: source_call_def)
  moreover have "re_match HEADER_EXISTS_REGEX ?t = None" "re_match PARAM_EXISTS_REGEX ?t = None"
    "re_match HEADER_HAS_REGEX ?t = None" "re_match PARAM_HAS_REGEX ?t = None" "re_match PARAM_CMP_REGEX ?t = None"
    unfolding form using assms
    by (cases s; simp add: source_call_def match_steps HEADER_EXISTS_REGEX_def PARAM_EXISTS_REGEX_def HEADER_HAS_REGEX_def
        PARAM_HAS_REGEX_def PARAM_CMP_REGEX_def del: cat_Cons One_nat_def)+
  moreover have "re_match EQ_REGEX ?t = Some [(3, literal_text v), (2, P), (1, source_name s)]"
    using assms literal_facts [OF assms(3)]
    by (simp add: match_steps cat_source EQ_REGEX_def del: cat_Cons One_nat_def)
  moreover have "source_name s = js ''param'' \<longleftrightarrow> s = SParam" by (cases s) (simp_all add: source_name_def)
  ultimately show ?thesis
    using parse_literal [OF assms(3)]
    by (cases s) (simp_all add: tryParseRequestCondition_def param_has_match_def parse_param_comparison_def
        parse_equality_def cap_str_def)
qed

text \<open>Conditions on the time of day.\<close>

lemma num_not_space: "\<not> num_unit 32" "\<not> num_unit 41"
  by (simp_all add: num_unit_def is_digit_def)

lemma cat_number_end:
  assumes "numeral_text x" "refuses num_unit (cat rs)"
  shows "rm (cat (Group i num_run # rs)) (p, x, cs) = rm (cat rs) (after p x, [], (i, x) # cs)"
  using cat_number [OF assms(1) _ assms(2), of "[]" i p cs] by simp

lemma cat_number_js:
  assumes "numeral_text x" "refuses num_unit (cat rs)"
  shows "\<not> num_unit (of_char c) \<Longrightarrow> rm (cat (Group i num_run # rs)) (p, x @ js (c # l) @ t, cs) =
      rm (cat rs) (after p x, js (c # l) @ t, (i, x) # cs)"
    "\<not> num_unit (of_char c) \<Longrightarrow> rm (cat (Group i num_run # rs)) (p, x @ js (c # l), cs) =
      rm (cat rs) (after p x, js (c # l), (i, x) # cs)"
  by (intro cat_number assms; simp add: js_def)+

lemma cat_backref: "map_of cs i = Some y \<Longrightarrow> rm (cat (BackRef i # rs)) (p, y @ s, cs) = rm (cat rs) (after p y, s, cs)"
  by simp

lemma cat_time_op:
  assumes "op \<in> {js ''=='', js ''>='', js ''<''}"
  shows "rm (cat (Group 3 (alts [Lit (js ''==''), Lit (js ''>=''), Lit (js ''<'')]) # rs)) (p, op @ js '' '' @ t, cs) =
    rm (cat rs) (after p op, js '' '' @ t, (3, op) # cs)"
  using assms by (auto simp: alts_def js_def)

lemmas time_steps = re_match_def cat_lit cat_lit_end cat_eol_end cat_quoted_text cat_lit_fails cat_time_func
  cat_number_end cat_number_js cat_backref cat_time_op refuses_js num_not_space

lemma not_paren_range: "f \<in> set TIME_FUNCS \<Longrightarrow> re_match PAREN_RANGE_REGEX (f @ t) = None"
  by (auto simp: re_match_def PAREN_RANGE_REGEX_def TIME_FUNCS_def cat_lit_fails simp del: cat_Cons)

lemma not_range:
  assumes "f \<in> set TIME_FUNCS" "tz \<noteq> []" "plain tz" "numeral_text v"
  shows \<open>re_match RANGE_REGEX (f @ js ''("'' @ tz @ js ''") >= '' @ v) = None\<close>
    \<open>re_match RANGE_REGEX (f @ js ''("'' @ tz @ js ''") == '' @ v) = None\<close>
    \<open>re_match RANGE_REGEX (f @ js ''("'' @ tz @ js ''") < '' @ v) = None\<close>
  using assms by (simp_all add: RANGE_REGEX_def range_res_def time_steps del: cat_Cons One_nat_def)

lemma op_literals:
  \<open>js ''") >= '' = js ''") '' @ js ''>='' @ js '' ''\<close> \<open>js ''") == '' = js ''") '' @ js ''=='' @ js '' ''\<close>
  \<open>js ''") < '' = js ''") '' @ js ''<'' @ js '' ''\<close>
  by (simp_all flip: js_append)

lemma time_match:
  assumes "f \<in> set TIME_FUNCS" "tz \<noteq> []" "plain tz" "numeral_text v" "op \<in> {js ''=='', js ''>='', js ''<''}"
  shows \<open>re_match TIME_REGEX (f @ js ''("'' @ tz @ js ''") '' @ op @ js '' '' @ v) =
    Some [(4, v), (3, op), (2, tz), (1, f)]\<close>
  using assms by (simp add: TIME_REGEX_def time_steps del: cat_Cons One_nat_def)

lemma time_back:
  assumes "f \<in> set TIME_FUNCS" "tz \<noteq> []" "plain tz" "numeral_text v" "op \<in> {js ''=='', js ''>='', js ''<''}"
  shows \<open>tryParseTimeCondition (f @ js ''("'' @ tz @ js ''") '' @ op @ js '' '' @ v) =
    Some \<lparr>timeFunc = f, timezone = tz,
          t_mode = (if op = js ''=='' then MATCH_EQ else if op = js ''>='' then MATCH_GTE else MATCH_LT),
          t_value = v, rangeStart = [], rangeEnd = []\<rparr>\<close>
proof -
  have \<open>re_match RANGE_REGEX (f @ js ''("'' @ tz @ js ''") '' @ op @ js '' '' @ v) = None\<close>
    using assms(5) not_range [OF assms(1-4)] by (auto simp: op_literals)
  with time_match [OF assms] not_paren_range [OF assms(1)] assms(5) show ?thesis
    by (auto simp: tryParseTimeCondition_def cap_str_def)
qed

definition range_text :: "jstr \<Rightarrow> jstr \<Rightarrow> jstr \<Rightarrow> jstr \<Rightarrow> jstr" where
  \<open>range_text f tz a b = f @ js ''("'' @ tz @ js ''") >= '' @ a @ js '' || '' @ f @ js ''("'' @ tz @ js ''") < '' @ b\<close>

lemma range_match:
  assumes "f \<in> set TIME_FUNCS" "tz \<noteq> []" "plain tz" "numeral_text a" "numeral_text b"
  shows "re_match RANGE_REGEX (range_text f tz a b) = Some [(4, b), (3, a), (2, tz), (1, f)]"
    "re_match PAREN_RANGE_REGEX (js ''('' @ range_text f tz a b @ js '')'') = Some [(4, b), (3, a), (2, tz), (1, f)]"
  using assms
  by (simp_all add: range_text_def RANGE_REGEX_def PAREN_RANGE_REGEX_def range_res_def time_steps del: cat_Cons One_nat_def)

lemma range_back:
  assumes "f \<in> set TIME_FUNCS" "tz \<noteq> []" "plain tz" "numeral_text a" "numeral_text b"
  shows "tryParseTimeCondition (range_text f tz a b) = Some \<lparr>timeFunc = f, timezone = tz, t_mode = MATCH_RANGE,
      t_value = [], rangeStart = a, rangeEnd = b\<rparr>"
    "tryParseTimeCondition (js ''('' @ range_text f tz a b @ js '')'') = Some \<lparr>timeFunc = f, timezone = tz, t_mode = MATCH_RANGE,
      t_value = [], rangeStart = a, rangeEnd = b\<rparr>"
proof -
  have "rm (cat (Group 1 time_func_re # rs)) (None, js ''('' @ t, []) = []" for rs t
    by (rule cat_time_func_fails) simp
  then have "re_match RANGE_REGEX (js ''('' @ range_text f tz a b @ js '')'') = None"
    by (simp add: RANGE_REGEX_def range_res_def re_match_def del: cat_Cons One_nat_def)
  with range_match [OF assms] show
    "tryParseTimeCondition (range_text f tz a b) = Some \<lparr>timeFunc = f, timezone = tz, t_mode = MATCH_RANGE,
      t_value = [], rangeStart = a, rangeEnd = b\<rparr>"
    "tryParseTimeCondition (js ''('' @ range_text f tz a b @ js '')'') = Some \<lparr>timeFunc = f, timezone = tz, t_mode = MATCH_RANGE,
      t_value = [], rangeStart = a, rangeEnd = b\<rparr>"
    by (simp_all add: tryParseTimeCondition_def range_condition_def cap_str_def)
qed

section \<open>Canonical rules\<close>

fun canonical :: "RequestCondition \<Rightarrow> bool" where
  "canonical (PHCond c) \<longleftrightarrow> path c \<noteq> [] \<and> plain (path c) \<and> trimmed (path c) \<and> plain (ph_value c) \<and> trimmed (ph_value c)
     \<and> (ph_mode c = MATCH_EQ \<or> ph_mode c = MATCH_EXISTS \<and> ph_value c = []
        \<or> ph_mode c = MATCH_CONTAINS \<and> ph_source c = SHeader)"
| "canonical (TimeCond c) \<longleftrightarrow> timeFunc c \<in> set TIME_FUNCS \<and> timezone c \<noteq> [] \<and> plain (timezone c)
     \<and> (t_mode c \<in> {MATCH_EQ, MATCH_GTE, MATCH_LT} \<and> numeral_text (t_value c) \<and> rangeStart c = [] \<and> rangeEnd c = []
        \<or> t_mode c = MATCH_RANGE \<and> t_value c = [] \<and> numeral_text (rangeStart c) \<and> numeral_text (rangeEnd c))"

definition canonical_group :: "RequestRuleGroup \<Rightarrow> bool" where
  "canonical_group g \<longleftrightarrow> conditions g \<noteq> [] \<and> (\<forall>c\<in>set (conditions g). canonical c) \<and> numeral_text (multiplier g)"

lemma normalizeTime_canonical: "canonical (TimeCond c) \<Longrightarrow> normalizeTime (time_value c) = c"
proof -
  assume c: "canonical (TimeCond c)"
  then have "JStr (t_mode c) \<in> JStr ` fst ` set (getRequestRuleMatchOptions (js ''time''))"
    by (auto simp: getRequestRuleMatchOptions_def)
  with c show ?thesis
    by (cases c) (auto simp: normalizeTime_def time_value_def obj_get_def isTimeFunc_def mode_or_def str_or_def text_of_def)
qed

lemma normalizeParamHeader_canonical:
  "canonical (PHCond c) \<Longrightarrow> normalizeParamHeader (ph_source c) (ph_object c) = c"
proof -
  assume c: "canonical (PHCond c)"
  then have "JStr (ph_mode c) \<in> JStr ` fst ` set (getRequestRuleMatchOptions (source_name (ph_source c)))"
    by (cases "ph_source c") (auto simp: getRequestRuleMatchOptions_def source_name_def Let_def)
  with c show ?thesis
    by (cases c) (auto simp: normalizeParamHeader_def ph_object_def obj_get_def mode_or_def str_or_def text_of_def)
qed

text \<open>What the splitters need of a printed part: no operator unit, and parentheses that balance.\<close>

definition net :: "jstr \<Rightarrow> int" where
  "net s = foldl paren_depth 0 s"

lemma paren_depth_add: "paren_depth (d + e) c = d + paren_depth e c"
  by (simp add: paren_depth_def)

lemma foldl_paren_depth: "foldl paren_depth d s = d + net s"
proof -
  have "foldl paren_depth (d + e) s = d + foldl paren_depth e s" for e
    by (induction s arbitrary: e) (simp_all add: paren_depth_add)
  from this [of 0] show ?thesis by (simp add: net_def)
qed

lemma net_simps [simp]:
  "net [] = 0" "net (c # s) = paren_depth 0 c + net s" "net (x @ y) = net x + net y"
  using foldl_paren_depth [of "paren_depth 0 c" s] foldl_paren_depth [of "net x" y]
  by (simp_all add: net_def)

lemma net_plain [simp]: "plain x \<Longrightarrow> net x = 0"
  by (induction x) (auto simp: plain_def plain_unit_def paren_depth_def)

lemma scan_net: "m \<notin> set s \<Longrightarrow> scan m d s = Some (d + net s)"
proof (induction s arbitrary: d)
  case (Cons c s)
  have "paren_depth d c = d + paren_depth 0 c" by (simp add: paren_depth_def)
  with Cons show ?case by auto
qed simp

definition solid :: "jstr \<Rightarrow> bool" where
  "solid e \<longleftrightarrow> e \<noteq> [] \<and> trimmed e \<and> 38 \<notin> set e \<and> 42 \<notin> set e \<and> net e = 0"

lemma plain_units: "plain x \<Longrightarrow> 38 \<notin> set x \<and> 42 \<notin> set x \<and> 124 \<notin> set x"
  by (auto simp: plain_def plain_unit_def)

lemma trimmed_ends: "x \<noteq> [] \<Longrightarrow> y \<noteq> [] \<Longrightarrow> \<not> is_ws (hd x) \<Longrightarrow> \<not> is_ws (last y) \<Longrightarrow> trimmed (x @ z @ y)"
  by (auto simp: trimmed_def)

lemma trimmed_last: "trimmed x \<Longrightarrow> x \<noteq> [] \<Longrightarrow> \<not> is_ws (hd x) \<and> \<not> is_ws (last x)"
  by (simp add: trimmed_def)

lemma literal_units:
  assumes "plain v"
  shows "38 \<notin> set (literal_text v) \<and> 42 \<notin> set (literal_text v) \<and> 124 \<notin> set (literal_text v) \<and> net (literal_text v) = 0"
proof (cases "v = js ''true'' \<or> v = js ''false'' \<or> numeral_text v")
  case True
  then have "literal_text v = v" by (simp add: literal_text_def)
  with assms plain_units show ?thesis by simp
next
  case False
  then have "literal_text v = 34 # v @ [34]" using assms by (simp add: literal_text_def json_quote_plain)
  with assms plain_units [OF assms] show ?thesis by (simp add: paren_depth_def)
qed

definition ph_text :: "ParamHeaderCondition \<Rightarrow> jstr" where
  \<open>ph_text c =
     (if ph_mode c = MATCH_EXISTS
      then (case ph_source c of SHeader \<Rightarrow> js ''header("'' @ path c @ js ''") != ""''
                              | SParam \<Rightarrow> js ''param("'' @ path c @ js ''") != nil'')
      else if ph_mode c = MATCH_CONTAINS
      then js ''has(header("'' @ path c @ js ''"), '' @ json_quote (ph_value c) @ js '')''
      else source_name (ph_source c) @ js ''("'' @ path c @ js ''") == '' @ literal_text (ph_value c))\<close>

lemma build_ph: "canonical (PHCond c) \<Longrightarrow> buildRequestConditionExpr (PHCond c) = ph_text c"
proof -
  assume c: "canonical (PHCond c)"
  then have n: "normalizeParamHeader (ph_source c) (ph_object c) = c" by (rule normalizeParamHeader_canonical)
  from c have tr: "trim (path c) = path c" "trim (ph_value c) = ph_value c" "path c \<noteq> []"
    "json_quote (path c) = 34 # path c @ [34]"
    by (auto simp: trim_id json_quote_plain)
  have lit: "buildExprLiteral MATCH_EQ (ph_value c) = literal_text (ph_value c)"
    "buildExprLiteral MATCH_CONTAINS (ph_value c) = json_quote (ph_value c)"
    using tr(2) by (simp_all add: buildExprLiteral_def Let_def literal_text_def numeral_text_def match_defs)
  have d: "MATCH_EQ \<notin> {MATCH_EXISTS, MATCH_CONTAINS, MATCH_GT, MATCH_GTE, MATCH_LT, MATCH_LTE}" "MATCH_CONTAINS \<noteq> MATCH_EXISTS"
    by (simp_all add: match_defs)
  from c consider "ph_mode c = MATCH_EQ" | "ph_mode c = MATCH_EXISTS" | "ph_mode c = MATCH_CONTAINS" "ph_source c = SHeader"
    by auto
  then show ?thesis
  proof cases
    case 1
    with n tr lit d show ?thesis
      by (simp add: buildRequestConditionExpr_def ph_text_def) (simp add: js_def)
  next
    case 2
    with n tr show ?thesis
      by (cases "ph_source c") (simp_all add: buildRequestConditionExpr_def ph_text_def source_name_def, simp_all add: js_def)
  next
    case 3
    with n tr lit d show ?thesis
      by (simp add: buildRequestConditionExpr_def ph_text_def source_name_def) (simp add: js_def)
  qed
qed

definition op_text :: "jstr \<Rightarrow> jstr" where
  "op_text m = (if m = MATCH_GTE then js ''>='' else if m = MATCH_LT then js ''<'' else js ''=='')"

definition time_text :: "TimeCondition \<Rightarrow> jstr" where
  \<open>time_text c = (if t_mode c = MATCH_RANGE then range_text (timeFunc c) (timezone c) (rangeStart c) (rangeEnd c)
     else timeFunc c @ js ''("'' @ timezone c @ js ''") '' @ op_text (t_mode c) @ js '' '' @ t_value c)\<close>

lemma build_time: "canonical (TimeCond c) \<Longrightarrow> buildRequestConditionExpr (TimeCond c) = time_text c"
proof -
  assume c: "canonical (TimeCond c)"
  then have n: "normalizeTime (time_value c) = c" by (rule normalizeTime_canonical)
  from c have q: "json_quote (timezone c) = 34 # timezone c @ [34]" by (auto simp: json_quote_plain)
  show ?thesis
  proof (cases "t_mode c = MATCH_RANGE")
    case True
    with c have "numeral_text (rangeStart c)" "numeral_text (rangeEnd c)" by (auto simp: match_defs)
    with True n q show ?thesis
      by (simp add: buildRequestConditionExpr_def buildTimeConditionExpr_def time_text_def range_text_def
          flip: numeral_text_def) (simp add: js_def)
  next
    case False
    with c have "numeral_text (t_value c)" by auto
    with False n q show ?thesis
      by (simp add: buildRequestConditionExpr_def buildTimeConditionExpr_def time_text_def op_text_def
          flip: numeral_text_def) (simp add: js_def)
  qed
qed

lemma time_func_units:
  "f \<in> set TIME_FUNCS \<Longrightarrow> plain f \<and> f \<noteq> [] \<and> \<not> is_ws (hd f)"
  by (auto simp: TIME_FUNCS_def plain_def plain_unit_def js_def is_line_end_def is_ws_def)

lemma not_contains_bars: "124 \<notin> set e \<Longrightarrow> \<not> contains e (js '' || '')"
  by (auto simp: contains_def sublist_def js_def)

lemma ph_solid:
  assumes "canonical (PHCond c)"
  shows "solid (ph_text c)" "\<not> contains (ph_text c) (js '' || '')"
proof -
  have P: "plain (path c)" "38 \<notin> set (path c) \<and> 42 \<notin> set (path c) \<and> 124 \<notin> set (path c)"
    using assms plain_units by auto
  have V: "plain (ph_value c)" "38 \<notin> set (ph_value c) \<and> 42 \<notin> set (ph_value c) \<and> 124 \<notin> set (ph_value c)"
    using assms plain_units by auto
  have L: "literal_text (ph_value c) \<noteq> []" "\<not> is_ws (last (literal_text (ph_value c)))"
    using literal_facts [OF V(1)] trimmed_last by auto
  have w: "\<not> is_ws 104" "\<not> is_ws 112" "\<not> is_ws 34" "\<not> is_ws 108" "\<not> is_ws 41" by (simp_all add: is_ws_def)
  note u = literal_units [OF V(1)]
  consider "ph_mode c = MATCH_EXISTS" | "ph_mode c \<noteq> MATCH_EXISTS" "ph_mode c = MATCH_CONTAINS"
    | "ph_mode c \<noteq> MATCH_EXISTS" "ph_mode c \<noteq> MATCH_CONTAINS" by blast
  then have "solid (ph_text c) \<and> 124 \<notin> set (ph_text c)"
  proof cases
    case 1
    with P w show ?thesis
      by (cases "ph_source c") (simp_all add: ph_text_def solid_def trimmed_def js_def paren_depth_def)
  next
    case 2
    with P V w show ?thesis
      by (simp add: ph_text_def solid_def trimmed_def js_def paren_depth_def json_quote_plain)
  next
    case 3
    with P u L w show ?thesis
      by (cases "ph_source c") (simp_all add: ph_text_def solid_def trimmed_def js_def paren_depth_def source_name_def)
  qed
  then show "solid (ph_text c)" "\<not> contains (ph_text c) (js '' || '')" by (simp_all add: not_contains_bars)
qed

lemma op_text_cases: "op_text m \<in> {js ''=='', js ''>='', js ''<''}"
  by (simp add: op_text_def)

lemma time_solid:
  assumes "canonical (TimeCond c)"
  shows "solid (time_text c)" "t_mode c \<noteq> MATCH_RANGE \<Longrightarrow> \<not> contains (time_text c) (js '' || '')"
proof -
  have f: "plain (timeFunc c)" "timeFunc c \<noteq> []" "\<not> is_ws (hd (timeFunc c))"
    "38 \<notin> set (timeFunc c) \<and> 42 \<notin> set (timeFunc c) \<and> 124 \<notin> set (timeFunc c)"
    using assms time_func_units [of "timeFunc c"] plain_units [of "timeFunc c"] by auto
  have z: "plain (timezone c)" "38 \<notin> set (timezone c) \<and> 42 \<notin> set (timezone c) \<and> 124 \<notin> set (timezone c)"
    using assms plain_units by auto
  have num: "plain v \<and> v \<noteq> [] \<and> \<not> is_ws (last v) \<and> 38 \<notin> set v \<and> 42 \<notin> set v \<and> 124 \<notin> set v" if "numeral_text v" for v
    using numeral_plain [OF that] numeral_ne [OF that] trimmed_last [OF numeral_trimmed [OF that]] plain_units by auto
  have "solid (time_text c) \<and> (t_mode c \<noteq> MATCH_RANGE \<longrightarrow> 124 \<notin> set (time_text c))"
  proof (cases "t_mode c = MATCH_RANGE")
    case True
    with assms have "numeral_text (rangeStart c)" "numeral_text (rangeEnd c)" by (auto simp: match_defs)
    with True f z num [of "rangeStart c"] num [of "rangeEnd c"] show ?thesis
      by (simp add: time_text_def range_text_def solid_def trimmed_def js_def paren_depth_def)
  next
    case False
    with assms have "numeral_text (t_value c)" by auto
    with False f z num [of "t_value c"] op_text_cases [of "t_mode c"] show ?thesis
      by (auto simp: time_text_def solid_def trimmed_def js_def paren_depth_def)
  qed
  then show "solid (time_text c)" "t_mode c \<noteq> MATCH_RANGE \<Longrightarrow> \<not> contains (time_text c) (js '' || '')"
    by (simp_all add: not_contains_bars)
qed

lemma ph_back:
  assumes "canonical (PHCond c)"
  shows "tryParseRequestCondition (ph_text c) = Parsed (PHCond c)"
proof -
  have P: "path c \<noteq> []" "plain (path c)" "plain (ph_value c)" using assms by auto
  have d: "MATCH_EQ \<noteq> MATCH_EXISTS" "MATCH_EQ \<noteq> MATCH_CONTAINS" "MATCH_CONTAINS \<noteq> MATCH_EXISTS"
    by (simp_all add: match_defs)
  from assms consider "ph_mode c = MATCH_EQ" | "ph_mode c = MATCH_EXISTS" "ph_value c = []"
    | "ph_mode c = MATCH_CONTAINS" "ph_source c = SHeader" by auto
  then show ?thesis
  proof cases
    case 1
    with d equality_back [OF P, of "ph_source c"] show ?thesis
      by (cases c) (simp add: ph_text_def ph_cond_def)
  next
    case 2
    with header_exists_back [OF P(1,2)] param_exists_back [OF P(1,2)] show ?thesis
      by (cases c; cases "ph_source c") (simp_all add: ph_text_def ph_cond_def)
  next
    case 3
    with d header_contains_back [OF P] show ?thesis
      by (cases c) (simp add: ph_text_def ph_cond_def)
  qed
qed

lemma time_text_back:
  assumes "canonical (TimeCond c)"
  shows "tryParseRequestCondition (time_text c) = Parsed (TimeCond c)"
    "t_mode c = MATCH_RANGE \<Longrightarrow> tryParseRequestCondition (js ''('' @ time_text c @ js '')'') = Parsed (TimeCond c)"
proof -
  have T: "timeFunc c \<in> set TIME_FUNCS" "timezone c \<noteq> []" "plain (timezone c)" using assms by auto
  have m: "MATCH_EQ \<noteq> MATCH_GTE" "MATCH_EQ \<noteq> MATCH_LT" "MATCH_GTE \<noteq> MATCH_LT"
    "MATCH_RANGE \<noteq> MATCH_GTE" "MATCH_RANGE \<noteq> MATCH_LT" "MATCH_RANGE \<noteq> MATCH_EQ" by (simp_all add: match_defs)
  have "tryParseTimeCondition (time_text c) = Some c \<and>
      (t_mode c = MATCH_RANGE \<longrightarrow> tryParseTimeCondition (js ''('' @ time_text c @ js '')'') = Some c)"
  proof (cases "t_mode c = MATCH_RANGE")
    case True
    with assms m have n: "numeral_text (rangeStart c)" "numeral_text (rangeEnd c)" "t_value c = []" by auto
    with True range_back [OF T n(1,2)] show ?thesis by (cases c) (simp add: time_text_def)
  next
    case False
    with assms have n: "numeral_text (t_value c)" "rangeStart c = []" "rangeEnd c = []"
      "t_mode c \<in> {MATCH_EQ, MATCH_GTE, MATCH_LT}" by auto
    from time_back [OF T n(1) op_text_cases, of "t_mode c"] False n m show ?thesis
      by (cases c) (auto simp: time_text_def op_text_def)
  qed
  then show "tryParseRequestCondition (time_text c) = Parsed (TimeCond c)"
    "t_mode c = MATCH_RANGE \<Longrightarrow> tryParseRequestCondition (js ''('' @ time_text c @ js '')'') = Parsed (TimeCond c)"
    by (simp_all add: tryParseRequestCondition_def)
qed

definition wrap :: "jstr \<Rightarrow> jstr" where
  "wrap e = (if contains e (js '' || '') then js ''('' @ e @ js '')'' else e)"

lemma solid_paren: "solid e \<Longrightarrow> solid (js ''('' @ e @ js '')'')"
  by (simp add: solid_def trimmed_def js_def paren_depth_def is_ws_def)

lemma printed_condition:
  assumes "canonical c"
  shows "solid (buildRequestConditionExpr c)" "tryParseRequestCondition (buildRequestConditionExpr c) = Parsed c"
    "solid (wrap (buildRequestConditionExpr c))" "tryParseRequestCondition (wrap (buildRequestConditionExpr c)) = Parsed c"
proof -
  show 1: "solid (buildRequestConditionExpr c)" "tryParseRequestCondition (buildRequestConditionExpr c) = Parsed c"
    using assms by (cases c; simp add: build_ph build_time ph_solid time_solid ph_back time_text_back del: canonical.simps)+
  then show "solid (wrap (buildRequestConditionExpr c))" by (simp add: wrap_def solid_paren)
  show "tryParseRequestCondition (wrap (buildRequestConditionExpr c)) = Parsed c"
  proof (cases c)
    case (PHCond d)
    with assms 1(2) show ?thesis by (simp add: wrap_def build_ph ph_solid del: canonical.simps)
  next
    case (TimeCond d)
    with assms 1(2) time_solid(2) [of d] time_text_back(2) [of d] show ?thesis
      by (auto simp: wrap_def build_time simp del: canonical.simps)
  qed
qed

section \<open>Groups\<close>

lemma factor_match:
  assumes "C \<noteq> []" "numeral_text m"
  shows "\<exists>cs. re_match FACTOR_REGEX (js ''('' @ C @ js '' ? '' @ m @ js '' : 1)'') = Some cs \<and> cap_str 1 cs = C \<and> cap_str 2 cs = m"
proof -
  define rs where "rs = [Lit (js '' ? ''), Group 2 num_run, Lit (js '' : 1)''), EOL]"
  define t where "t = js '' ? '' @ m @ js '' : 1)''"
  have "63 \<notin> set m" using numeral_units [OF assms(2), of 63] by (auto simp: num_unit_def is_digit_def)
  have no: "rm (cat rs) (p, v, (1, y) # [])= []" if s: "t = u @ v" "u \<noteq> []" for p u v y
  proof -
    have "\<not> prefix (js '' ? '') v"
    proof
      assume "prefix (js '' ? '') v"
      then obtain w where v: "v = 32 # 63 # 32 # w" by (auto simp: prefix_def js_def)
      obtain a u' where u: "u = a # u'" using s(2) by (cases u) auto
      have "js ''? '' @ m @ js '' : 1)'' = u' @ v" using s(1) by (simp add: t_def js_def u)
      then have "63 # 32 # m @ js '' : 1)'' = u' @ 32 # 63 # 32 # w" by (simp add: js_def v)
      then have "63 \<in> set (32 # m @ js '' : 1)'')" by (cases u') auto
      with \<open>63 \<notin> set m\<close> show False by (simp add: js_def)
    qed
    then show ?thesis unfolding rs_def by (rule cat_lit_fails)
  qed
  have yes: "rm (cat rs) (after (Some 40) C, t, [(1, C)]) = [(after (after (Some 40) C) t, [], [(2, m), (1, C)])]"
    using assms(2) by (simp add: rs_def t_def time_steps del: cat_Cons One_nat_def)
  have "\<exists>es. rm (cat (Group 1 (Plus any) # rs)) (Some 40, C @ t, []) = (after (after (Some 40) C) t, [], [(2, m), (1, C)]) # es"
    using assms(1) no yes by (intro cat_group_greedy) auto
  moreover have "rm FACTOR_REGEX (None, js ''('' @ C @ t, []) = rm (cat (Group 1 (Plus any) # rs)) (Some 40, C @ t, [])"
    unfolding FACTOR_REGEX_def rs_def [symmetric] by (subst cat_lit) (simp add: after_def js_def)
  ultimately show ?thesis by (auto simp: re_match_def t_def cap_str_def)
qed

definition combined :: "jstr list \<Rightarrow> jstr" where
  "combined es = (if length es = 1 then hd es else join (js '' && '') (map wrap es))"

lemma parse_all_map: "(\<And>x. x \<in> set xs \<Longrightarrow> f (g x) = Parsed x) \<Longrightarrow> parse_all f (map g xs) = Parsed xs"
  by (induction xs) auto

lemma combined_back:
  assumes "cs \<noteq> []" "\<forall>c\<in>set cs. canonical c"
  shows "parse_all (\<lambda>ap. tryParseRequestCondition (trim ap)) (splitTopLevelAnd (combined (map buildRequestConditionExpr cs))) = Parsed cs"
    "combined (map buildRequestConditionExpr cs) \<noteq> []"
proof -
  define W where "W = (if length cs = 1 then (\<lambda>e. e) else wrap)"
  have good: "solid (W (buildRequestConditionExpr c)) \<and> tryParseRequestCondition (W (buildRequestConditionExpr c)) = Parsed c"
    if "c \<in> set cs" for c using that assms(2) printed_condition by (simp add: W_def)
  have comb: "combined (map buildRequestConditionExpr cs) = join (js '' && '') (map (\<lambda>c. W (buildRequestConditionExpr c)) cs)"
  proof (cases "length cs = 1")
    case True
    then obtain c where "cs = [c]" by (cases cs) auto
    then show ?thesis by (simp add: combined_def W_def)
  next
    case False
    then show ?thesis by (simp add: combined_def W_def comp_def)
  qed
  have amp: "js '' && '' = 32 # 38 # js ''& ''" by (simp add: js_def)
  have "split_top (32 # 38 # js ''& '') (join (32 # 38 # js ''& '') (map (\<lambda>c. W (buildRequestConditionExpr c)) cs))
      = map (\<lambda>c. W (buildRequestConditionExpr c)) cs"
    using assms(1) good by (intro split_top_join) (auto simp: solid_def scan_net)
  then have "splitTopLevelAnd (combined (map buildRequestConditionExpr cs)) = map (\<lambda>c. W (buildRequestConditionExpr c)) cs"
    by (simp add: splitTopLevelAnd_def comb amp)
  moreover have "parse_all (\<lambda>ap. tryParseRequestCondition (trim ap)) (map (\<lambda>c. W (buildRequestConditionExpr c)) cs) = Parsed cs"
    using good by (intro parse_all_map) (auto simp: solid_def trim_id)
  ultimately show "parse_all (\<lambda>ap. tryParseRequestCondition (trim ap)) (splitTopLevelAnd (combined (map buildRequestConditionExpr cs))) = Parsed cs"
    by simp
  obtain c cs' where "cs = c # cs'" using assms(1) by (cases cs) auto
  with good [of c] show "combined (map buildRequestConditionExpr cs) \<noteq> []"
    unfolding comb by (cases cs') (auto simp: solid_def)
qed

lemma printed_factor:
  assumes "canonical_group g"
  shows "buildRuleGroupFactor g = js ''('' @ combined (map buildRequestConditionExpr (conditions g)) @ js '' ? '' @ multiplier g @ js '' : 1)''"
proof -
  have "filter (\<lambda>e. e \<noteq> []) (map buildRequestConditionExpr (conditions g)) = map buildRequestConditionExpr (conditions g)"
    using assms printed_condition by (auto simp: canonical_group_def filter_id_conv solid_def)
  moreover have "numeral_text (multiplier g)" "conditions g \<noteq> []" using assms by (simp_all add: canonical_group_def)
  ultimately show ?thesis
    by (simp add: buildRuleGroupFactor_def combined_def wrap_def [abs_def] flip: numeral_text_def)
qed

lemma factor_back:
  assumes "canonical_group g"
  shows "tryParseRuleGroupFactor (buildRuleGroupFactor g) = Parsed g"
proof -
  have g: "conditions g \<noteq> []" "\<forall>c\<in>set (conditions g). canonical c" "numeral_text (multiplier g)"
    using assms by (simp_all add: canonical_group_def)
  obtain cs where "re_match FACTOR_REGEX (buildRuleGroupFactor g) = Some cs"
    "cap_str 1 cs = combined (map buildRequestConditionExpr (conditions g))" "cap_str 2 cs = multiplier g"
    using factor_match [OF combined_back(2) [OF g(1,2)] g(3)] printed_factor [OF assms] by auto
  with combined_back(1) [OF g(1,2)] g(1) show ?thesis
    by (cases g) (simp add: tryParseRuleGroupFactor_def)
qed

lemma set_join_subset: "c \<in> set (join sep xs) \<Longrightarrow> c \<in> set sep \<or> (\<exists>x\<in>set xs. c \<in> set x)"
  using set_join [of sep xs] by auto

lemma net_join: "\<forall>x\<in>set xs. net x = 0 \<Longrightarrow> net sep = 0 \<Longrightarrow> net (join sep xs) = 0"
  by (induction sep xs rule: join.induct) auto

lemma factor_solid:
  assumes "canonical_group g"
  shows "42 \<notin> set (buildRuleGroupFactor g)" "net (buildRuleGroupFactor g) = 0" "trimmed (buildRuleGroupFactor g)"
    "buildRuleGroupFactor g \<noteq> []"
proof -
  define es where "es = map buildRequestConditionExpr (conditions g)"
  have so: "solid e \<and> solid (wrap e)" if "e \<in> set es" for e
    using that assms printed_condition by (auto simp: es_def canonical_group_def)
  have m: "plain (multiplier g)" "42 \<notin> set (multiplier g)"
    using assms numeral_plain plain_units by (auto simp: canonical_group_def)
  have ne: "es \<noteq> []" using assms by (simp add: es_def canonical_group_def)
  have "42 \<notin> set (combined es) \<and> net (combined es) = 0"
  proof (cases "length es = 1")
    case True
    with ne so show ?thesis by (cases es) (auto simp: combined_def solid_def)
  next
    case False
    have "net (join (js '' && '') (map wrap es)) = 0"
      using so by (intro net_join) (auto simp: solid_def js_def paren_depth_def)
    moreover have "42 \<notin> set (join (js '' && '') (map wrap es))"
      using so by (auto dest!: set_join_subset simp: js_def solid_def)
    ultimately show ?thesis using False by (simp add: combined_def)
  qed
  with m show "42 \<notin> set (buildRuleGroupFactor g)" "net (buildRuleGroupFactor g) = 0" "trimmed (buildRuleGroupFactor g)"
    "buildRuleGroupFactor g \<noteq> []"
    unfolding printed_factor [OF assms] es_def [symmetric]
    by (simp_all add: js_def paren_depth_def trimmed_def is_ws_def)
qed

section \<open>Properties of the rule parser\<close>

lemma star_literal: "js '' * '' = 32 # 42 # js '' ''"
  by (simp add: js_def)

lemma split_factors:
  assumes "\<forall>p\<in>set ps. scan 42 0 p = Some 0 \<and> trimmed p \<and> p \<noteq> []" "ps \<noteq> []"
  shows "splitTopLevelMultiply (join (js '' * '') ps) = ps"
  unfolding splitTopLevelMultiply_def star_literal using assms by (intro split_top_join) auto

lemma trimmed_join:
  assumes "\<forall>p\<in>set ps. trimmed p \<and> p \<noteq> []"
  shows "trimmed (join sep ps) \<and> (ps \<noteq> [] \<longrightarrow> join sep ps \<noteq> [] \<and> hd (join sep ps) = hd (hd ps) \<and> last (join sep ps) = last (last ps))"
  using assms
proof (induction sep ps rule: join.induct)
  case (1 sep)
  then show ?case by (simp add: trimmed_def)
next
  case (2 sep x)
  then show ?case by simp
next
  case (3 sep x y ys)
  define j where "j = join sep (y # ys)"
  have j: "trimmed j" "j \<noteq> []" "last j = last (last (y # ys))" using 3 by (simp_all add: j_def)
  have x: "trimmed x" "x \<noteq> []" using 3 by simp_all
  have "trimmed (x @ sep @ j)"
    using trimmed_last [OF j(1,2)] trimmed_last [OF x] by (intro trimmed_ends j(2) x(2)) simp_all
  with j x show ?case by (simp flip: j_def)
qed

lemma build_rules: "\<forall>g\<in>set gs. canonical_group g \<Longrightarrow> buildRequestRuleExpr gs = join (js '' * '') (map buildRuleGroupFactor gs)"
proof -
  assume "\<forall>g\<in>set gs. canonical_group g"
  then have "filter (\<lambda>e. e \<noteq> []) (map buildRuleGroupFactor gs) = map buildRuleGroupFactor gs"
    using factor_solid by (auto simp: filter_id_conv)
  then show ?thesis by (simp add: buildRequestRuleExpr_def)
qed

lemma factors_ok:
  "\<forall>g\<in>set gs. canonical_group g \<Longrightarrow>
   \<forall>p\<in>set (map buildRuleGroupFactor gs). scan 42 0 p = Some 0 \<and> trimmed p \<and> p \<noteq> []"
  using factor_solid by (auto simp: scan_net)

lemma rules_back:
  assumes "\<forall>g\<in>set gs. canonical_group g"
  shows "tryParseRequestRuleExpr (buildRequestRuleExpr gs) = Parsed gs"
proof (cases "gs = []")
  case True
  then show ?thesis by (simp add: buildRequestRuleExpr_def tryParseRequestRuleExpr_def)
next
  case False
  note tj = trimmed_join [of "map buildRuleGroupFactor gs" "js '' * ''"]
  have "trim (buildRequestRuleExpr gs) = buildRequestRuleExpr gs" "buildRequestRuleExpr gs \<noteq> []"
    using tj factors_ok [OF assms] False by (auto simp: build_rules [OF assms] trim_id)
  moreover have "splitTopLevelMultiply (buildRequestRuleExpr gs) = map buildRuleGroupFactor gs"
    unfolding build_rules [OF assms] using factors_ok [OF assms] False by (intro split_factors) auto
  moreover have "parse_all tryParseRuleGroupFactor (map buildRuleGroupFactor gs) = Parsed gs"
    using assms factor_back by (intro parse_all_map) auto
  ultimately show ?thesis by (simp add: tryParseRequestRuleExpr_def)
qed

text \<open>
  C7. Request rules survive being stored: the text printed for any list of canonical rule groups
  parses back to exactly that list.
\<close>

theorem rules_roundtrip:
  assumes "\<forall>g\<in>set gs. canonical_group g"
  shows "tryParseRequestRuleExpr (buildRequestRuleExpr gs) = Parsed gs"
  using assms by (rule rules_back)

lemma numeral_two: "numeral_text (js ''2'')"
  by (simp add: numeral_text_def re_test_def re_match_def NUMERIC_LITERAL_REGEX_def cat_def Plus_def js_def is_digit_def after_def)

definition sample_group :: RequestRuleGroup where
  "sample_group = \<lparr>conditions = [ph_cond SHeader (js ''x'') MATCH_EQ (js ''v''),
     TimeCond \<lparr>timeFunc = js ''hour'', timezone = js ''UTC'', t_mode = MATCH_RANGE, t_value = [],
       rangeStart = js ''2'', rangeEnd = js ''2''\<rparr>], multiplier = js ''2''\<rparr>"

lemma sample_canonical: "canonical_group sample_group"
  using numeral_two
  by (simp add: canonical_group_def sample_group_def ph_cond_def match_defs TIME_FUNCS_def)
     (simp add: plain_def plain_unit_def trimmed_def is_line_end_def is_ws_def js_def)

theorem rules_roundtrip_witness:
  "tryParseRequestRuleExpr (buildRequestRuleExpr [sample_group, sample_group]) = Parsed [sample_group, sample_group]"
  by (rule rules_roundtrip) (simp add: sample_canonical)

definition guarded_modes :: "jstr set" where
  "guarded_modes = {MATCH_GT, MATCH_GTE, MATCH_LT, MATCH_LTE, MATCH_CONTAINS}"

definition second_half :: "jstr \<Rightarrow> jstr \<Rightarrow> jstr \<Rightarrow> jstr" where
  \<open>second_half P m v = (if m = MATCH_CONTAINS then js ''has(param("'' @ P @ js ''"), '' @ json_quote v @ js '')''
     else js ''param("'' @ P @ js ''") '' @ comparison_op m @ js '' '' @ v)\<close>

lemma comparison_cases:
  "comparison_op m \<in> {js ''>'', js ''>='', js ''<'', js ''<=''}"
  by (simp add: comparison_op_def)

lemma not_equality_ops:
  "op \<in> {js ''>'', js ''>='', js ''<'', js ''<=''} \<Longrightarrow> c \<noteq> CHR ''>'' \<Longrightarrow> c \<noteq> CHR ''<'' \<Longrightarrow> \<not> prefix (js (c # l)) (op @ t)"
  by auto

lemma second_half_no_condition:
  assumes "P \<noteq> []" "plain P" "plain v"
  shows "tryParseRequestCondition (second_half P m v) = NoParse"
proof (cases "m = MATCH_CONTAINS")
  case True
  let ?t = \<open>js ''has(param("'' @ P @ js ''"), '' @ json_quote v @ js '')''\<close>
  have "tryParseTimeCondition ?t = None" by (rule not_time) simp
  moreover have "re_match HEADER_EXISTS_REGEX ?t = None" "re_match PARAM_EXISTS_REGEX ?t = None"
    "re_match HEADER_HAS_REGEX ?t = None" "re_match PARAM_HAS_REGEX ?t = None" "re_match PARAM_CMP_REGEX ?t = None"
    by (simp_all add: match_steps HEADER_EXISTS_REGEX_def PARAM_EXISTS_REGEX_def HEADER_HAS_REGEX_def
        PARAM_HAS_REGEX_def PARAM_CMP_REGEX_def del: cat_Cons One_nat_def)
  moreover have "re_match EQ_REGEX ?t = None"
    by (simp add: re_match_def EQ_REGEX_def alts_def)
  ultimately show ?thesis
    by (simp add: True second_half_def tryParseRequestCondition_def param_has_match_def parse_param_comparison_def parse_equality_def)
next
  case False
  define op where "op = comparison_op m"
  have op: "op \<in> {js ''>'', js ''>='', js ''<'', js ''<=''}" unfolding op_def by (rule comparison_cases)
  let ?t = \<open>js ''param("'' @ P @ js ''") '' @ op @ js '' '' @ v\<close>
  have "tryParseTimeCondition ?t = None" by (rule not_time) simp
  moreover have "re_match HEADER_EXISTS_REGEX ?t = None" "re_match PARAM_EXISTS_REGEX ?t = None"
    "re_match HEADER_HAS_REGEX ?t = None" "re_match PARAM_HAS_REGEX ?t = None" "re_match PARAM_CMP_REGEX ?t = None"
    using assms op
    by (simp_all add: match_steps not_equality_ops HEADER_EXISTS_REGEX_def PARAM_EXISTS_REGEX_def HEADER_HAS_REGEX_def
        PARAM_HAS_REGEX_def PARAM_CMP_REGEX_def del: cat_Cons One_nat_def)
  moreover have \<open>?t = source_name SParam @ js ''("'' @ P @ js ''") '' @ op @ js '' '' @ v\<close>
    by (simp add: source_name_def js_def)
  moreover have \<open>re_match EQ_REGEX (source_name SParam @ js ''("'' @ P @ js ''") '' @ op @ js '' '' @ v) = None\<close>
    using assms op by (simp add: match_steps cat_source not_equality_ops EQ_REGEX_def del: cat_Cons One_nat_def)
  ultimately show ?thesis
    by (simp add: False second_half_def tryParseRequestCondition_def param_has_match_def parse_param_comparison_def
        parse_equality_def flip: op_def)
qed

lemma guarded_build:
  assumes "P \<noteq> []" "plain P" "trimmed P" "plain v" "trimmed v" "mode \<in> guarded_modes"
    "mode \<noteq> MATCH_CONTAINS \<longrightarrow> numeral_text v"
  shows \<open>buildRequestConditionExpr (ph_cond SParam P mode v) =
    js ''param("'' @ P @ js ''") != nil'' @ js '' && '' @ second_half P mode v\<close>
proof -
  have md: "JStr mode \<in> JStr ` fst ` set (getRequestRuleMatchOptions (source_name SParam))"
    using assms(6) by (auto simp: guarded_modes_def getRequestRuleMatchOptions_def source_name_def Let_def)
  have n: "normalizeParamHeader SParam (ph_object \<lparr>ph_source = SParam, path = P, ph_mode = mode, ph_value = v\<rparr>)
      = \<lparr>ph_source = SParam, path = P, ph_mode = mode, ph_value = v\<rparr>"
    using md assms(1) by (auto simp: normalizeParamHeader_def ph_object_def obj_get_def mode_or_def str_or_def text_of_def)
  have tr: "trim P = P" "trim v = v" "json_quote P = 34 # P @ [34]" "json_quote v = 34 # v @ [34]"
    using assms(2-5) by (simp_all add: trim_id json_quote_plain)
  have ne: "mode \<noteq> MATCH_EXISTS" using assms(6) by (auto simp: guarded_modes_def match_defs)
  show ?thesis
  proof (cases "mode = MATCH_CONTAINS")
    case True
    with n tr assms(1) ne show ?thesis
      by (simp add: ph_cond_def buildRequestConditionExpr_def second_half_def source_name_def buildExprLiteral_def)
         (simp add: js_def)
  next
    case False
    with assms(6,7) have "mode \<in> {MATCH_GT, MATCH_GTE, MATCH_LT, MATCH_LTE}" "numeral_text v"
      by (auto simp: guarded_modes_def)
    with False n tr assms(1) ne show ?thesis
      by (simp add: ph_cond_def buildRequestConditionExpr_def second_half_def source_name_def flip: numeral_text_def)
         (simp add: js_def)
  qed
qed

lemma second_half_solid:
  assumes "plain P" "plain v" "mode \<noteq> MATCH_CONTAINS \<longrightarrow> numeral_text v"
  shows "solid (second_half P mode v)"
proof (cases "mode = MATCH_CONTAINS")
  case True
  with assms plain_units [of P] plain_units [of v] show ?thesis
    by (simp add: second_half_def solid_def trimmed_def js_def paren_depth_def json_quote_plain is_ws_def)
next
  case False
  then have "v \<noteq> []" "\<not> is_ws (last v)"
    using assms(3) numeral_ne [of v] trimmed_last [of v] numeral_trimmed [of v] by auto
  moreover have "38 \<notin> set (comparison_op mode)" "42 \<notin> set (comparison_op mode)" "net (comparison_op mode) = 0"
    by (simp_all add: comparison_op_def js_def paren_depth_def)
  moreover have "\<not> is_ws 112" by (simp add: is_ws_def)
  ultimately show ?thesis using False assms plain_units [of P] plain_units [of v]
    by (simp add: second_half_def solid_def trimmed_def js_def paren_depth_def)
qed

text \<open>
  A rule that compares a request parameter or searches in it is lost to the editor: the
  printer guards it with \<open>param(...) != nil && ...\<close>, the parser splits the text at that operator
  before it looks for the guarded form, and the second half is no condition on its own.
\<close>

theorem guarded_rules_lost:
  assumes "P \<noteq> []" "plain P" "trimmed P" "plain v" "trimmed v" "mode \<in> guarded_modes"
    "mode \<noteq> MATCH_CONTAINS \<longrightarrow> numeral_text v" "numeral_text mult"
  shows "tryParseRequestRuleExpr (buildRequestRuleExpr
      [\<lparr>conditions = [ph_cond SParam P mode v], multiplier = mult\<rparr>]) = NoParse"
proof -
  define first where \<open>first = js ''param("'' @ P @ js ''") != nil''\<close>
  define snd_half where "snd_half = second_half P mode v"
  define C where "C = first @ js '' && '' @ snd_half"
  define F where "F = js ''('' @ C @ js '' ? '' @ mult @ js '' : 1)''"
  have so: "solid first" "solid snd_half"
    using assms(2) plain_units [OF assms(2)]
    by (simp add: first_def solid_def trimmed_def js_def paren_depth_def is_ws_def)
       (simp add: snd_half_def second_half_solid [OF assms(2,4,7)])
  have "buildRequestConditionExpr (ph_cond SParam P mode v) = C"
    using guarded_build [OF assms(1-7)] by (simp add: C_def first_def snd_half_def)
  moreover have "C \<noteq> []" by (simp add: C_def)
  ultimately have bF: "buildRequestRuleExpr [\<lparr>conditions = [ph_cond SParam P mode v], multiplier = mult\<rparr>] = F"
    using assms(8) by (simp add: buildRequestRuleExpr_def buildRuleGroupFactor_def F_def flip: numeral_text_def)
  have m: "plain mult" "42 \<notin> set mult" using assms(8) numeral_plain plain_units by auto
  have tF: "trimmed F" by (simp add: F_def trimmed_def js_def is_ws_def)
  have "42 \<notin> set F" "net F = 0"
    using so m by (simp_all add: F_def C_def solid_def js_def paren_depth_def)
  then have "splitTopLevelMultiply (join (js '' * '') [F]) = [F]"
    using tF by (intro split_factors) (auto simp: scan_net F_def)
  moreover obtain cs where cs: "re_match FACTOR_REGEX F = Some cs" "cap_str 1 cs = C" "cap_str 2 cs = mult"
    using factor_match [OF \<open>C \<noteq> []\<close> assms(8)] unfolding F_def by blast
  moreover have "splitTopLevelAnd C = [first, snd_half]"
  proof -
    have amp: "js '' && '' = 32 # 38 # js ''& ''" by (simp add: js_def)
    have "split_top (32 # 38 # js ''& '') (join (32 # 38 # js ''& '') [first, snd_half]) = [first, snd_half]"
      using so by (intro split_top_join) (auto simp: solid_def scan_net)
    then show ?thesis by (simp add: splitTopLevelAnd_def C_def amp)
  qed
  moreover have "tryParseRequestCondition first = Parsed (ph_cond SParam P MATCH_EXISTS [])"
    unfolding first_def by (rule param_exists_back [OF assms(1,2)])
  moreover have "tryParseRequestCondition snd_half = NoParse"
    unfolding snd_half_def by (rule second_half_no_condition [OF assms(1,2,4)])
  ultimately have "tryParseRuleGroupFactor F = NoParse"
    using so by (simp add: tryParseRuleGroupFactor_def trim_id solid_def)
  moreover have "F \<noteq> []" by (simp add: F_def)
  ultimately show ?thesis
    using \<open>splitTopLevelMultiply (join (js '' * '') [F]) = [F]\<close> tF
    by (simp add: bF tryParseRequestRuleExpr_def trim_id)
qed

theorem guarded_rules_lost_witness:
  "tryParseRequestRuleExpr (buildRequestRuleExpr
     [\<lparr>conditions = [ph_cond SParam (js ''n'') MATCH_GT (js ''2'')], multiplier = js ''2''\<rparr>]) = NoParse"
  by (rule guarded_rules_lost)
     (simp_all add: numeral_two guarded_modes_def, simp_all add: plain_def plain_unit_def trimmed_def is_line_end_def is_ws_def js_def)

section \<open>Splitting a stored expression\<close>

fun nested :: "int \<Rightarrow> jstr \<Rightarrow> bool" where
  "nested d [] = (d = 0)"
| "nested d (c # cs) = (0 \<le> paren_depth d c \<and> nested (paren_depth d c) cs)"

lemma paren_depth_Suc: "paren_depth (d + 1) c = paren_depth d c + 1"
  by (simp add: paren_depth_def)

lemma nested_scan: "nested d x \<Longrightarrow> 0 \<le> d \<Longrightarrow> scan m (d + 1) x = Some 1"
  by (induction x arbitrary: d) (auto simp: paren_depth_Suc)

lemma nested_outer: "nested d x \<Longrightarrow> 0 \<le> d \<Longrightarrow> outer_scan (d + 1) (x @ [41])"
proof (induction x arbitrary: d)
  case Nil
  then show ?case by (simp add: paren_depth_def)
next
  case (Cons c x)
  then show ?case by (auto simp: paren_depth_Suc Let_def)
qed

lemma concat_nested: "concat (map (\<lambda>d. concat (map f (g d))) xs) = concat (map f (concat (map g xs)))"
  by (induction xs) auto

lemma rm_cat_append: "rm (cat (a @ b)) c = concat (map (rm (cat b)) (rm (cat a) c))"
proof (induction a arbitrary: c)
  case (Cons r a)
  have "rm (cat (a @ b)) = (\<lambda>d. concat (map (rm (cat b)) (rm (cat a) d)))" by (rule ext) (rule Cons.IH)
  then have "rm (cat ((r # a) @ b)) c = concat (map (\<lambda>d. concat (map (rm (cat b)) (rm (cat a) d))) (rm r c))"
    by simp
  then show ?case unfolding concat_nested by simp
qed simp

text \<open>A text that does not end in \<open>" : 1)"\<close> is no rule.\<close>

lemma factor_suffix: "re_match FACTOR_REGEX s = Some cs \<Longrightarrow> suffix (js '' : 1)'') s"
proof -
  define front where "front = [Lit (js ''(''), Group 1 (Plus any), Lit (js '' ? ''), Group 2 num_run]"
  assume "re_match FACTOR_REGEX s = Some cs"
  moreover have "FACTOR_REGEX = cat (front @ [Lit (js '' : 1)''), EOL])" by (simp add: FACTOR_REGEX_def front_def)
  ultimately have "rm (cat (front @ [Lit (js '' : 1)''), EOL])) (None, s, []) \<noteq> []"
    by (auto simp: re_match_def)
  then obtain d where d: "d \<in> set (rm (cat front) (None, s, []))" "rm (cat [Lit (js '' : 1)''), EOL]) d \<noteq> []"
    unfolding rm_cat_append by (auto simp: concat_eq_Nil_conv)
  obtain p r ks where dd: "d = (p, r, ks)" by (cases d)
  have "r = js '' : 1)''"
    using d(2) unfolding dd by (auto simp: concat_eq_Nil_conv prefix_def split: if_splits)
  moreover obtain x where "s = x @ r"
    using rm_consumes [OF d(1)] by (auto simp: consumes_def dd)
  ultimately show ?thesis by (auto simp: suffix_def)
qed

lemma not_a_rule:
  assumes "scan 42 0 s = Some 0" "trimmed s" "s \<noteq> []" "\<not> suffix (js '' : 1)'') s"
  shows "is_rule_part s = Parsed False"
proof -
  have "splitTopLevelMultiply (join (js '' * '') [s]) = [s]"
    using assms(1,2,3) by (intro split_factors) auto
  moreover have "re_match FACTOR_REGEX s = None" using factor_suffix [of s] assms(4) by (cases "re_match FACTOR_REGEX s") auto
  ultimately show ?thesis
    using assms(2,3) by (simp add: is_rule_part_def tryParseRequestRuleExpr_def trim_id tryParseRuleGroupFactor_def)
qed

lemma is_a_rule: "canonical_group g \<Longrightarrow> is_rule_part (buildRuleGroupFactor g) = Parsed True"
proof -
  assume g: "canonical_group g"
  have "buildRequestRuleExpr [g] = buildRuleGroupFactor g" using factor_solid(4) [OF g] by (simp add: buildRequestRuleExpr_def)
  with rules_back [of "[g]"] g show ?thesis by (simp add: is_rule_part_def)
qed

lemma parse_all_const: "(\<And>x. x \<in> set xs \<Longrightarrow> f x = Parsed y) \<Longrightarrow> parse_all f xs = Parsed (replicate (length xs) y)"
  by (induction xs) auto

lemma zip_flags: "map fst (filter snd (zip xs (replicate (length xs) True))) = xs"
  "filter (\<lambda>p. \<not> snd p) (zip xs (replicate (length xs) True)) = []"
  by (induction xs) auto

lemma unwrap_single:
  assumes "nested 0 base" "trimmed base" "\<not> hasFullOuterParens base"
  shows "unwrapOuterParens (js ''('' @ base @ js '')'') = base"
proof -
  have w: "js ''('' @ base @ js '')'' = 40 # base @ [41]" by (simp add: js_def)
  have "outer_scan 0 (40 # base @ [41])"
    using nested_outer [OF assms(1)] by (cases base) (simp_all add: paren_depth_def)
  then have "hasFullOuterParens (40 # base @ [41])"
    by (simp add: hasFullOuterParens_def suffix_def)
  then have "unwrap_loop (40 # base @ [41]) = unwrap_loop base"
    using assms(2) by (subst unwrap_loop.simps) (simp add: trim_id butlast_append)
  moreover have "unwrap_loop base = base" using assms(3) by (subst unwrap_loop.simps) simp
  moreover have "trimmed (40 # base @ [41])" by (simp add: trimmed_def is_ws_def)
  ultimately show ?thesis unfolding w by (simp add: unwrapOuterParens_def trim_id)
qed

lemma combined_splits:
  assumes "trimmed base" "base \<noteq> []" "nested 0 base" "\<not> hasFullOuterParens base" "\<not> suffix (js '' : 1'') base"
    and "gs \<noteq> []" "\<forall>g\<in>set gs. canonical_group g"
  shows "splitBillingExprAndRequestRules (combineBillingExpr base (buildRequestRuleExpr gs)) =
    Parsed (base, buildRequestRuleExpr gs)"
proof -
  define fs where "fs = map buildRuleGroupFactor gs"
  define b where "b = js ''('' @ base @ js '')''"
  have fs: "\<forall>p\<in>set fs. scan 42 0 p = Some 0 \<and> trimmed p \<and> p \<noteq> []" "fs \<noteq> []"
    using factors_ok [OF assms(7)] assms(6) by (simp_all add: fs_def)
  have rules: "buildRequestRuleExpr gs = join (js '' * '') fs" unfolding fs_def by (rule build_rules [OF assms(7)])
  have tr: "trimmed (join (js '' * '') fs)" "join (js '' * '') fs \<noteq> []"
    using trimmed_join [of fs "js '' * ''"] fs by auto
  have b: "scan 42 0 b = Some 0" "trimmed b" "b \<noteq> []"
    using nested_scan [OF assms(3), of 42]
    by (simp_all add: b_def js_def scan_append paren_depth_def trimmed_def is_ws_def)
  have nb: "\<not> suffix (js '' : 1)'') b"
  proof
    assume "suffix (js '' : 1)'') b"
    then have "suffix (js '' : 1'' @ [41]) (40 # base @ [41])" by (simp add: b_def js_def)
    then obtain x where "40 # base = x @ js '' : 1''" by (auto simp: suffix_def)
    with assms(5) show False by (cases x) (auto simp: suffix_def js_def)
  qed
  have comb: "combineBillingExpr base (buildRequestRuleExpr gs) = join (js '' * '') (b # fs)"
    using assms(1,2) tr fs(2) by (cases fs) (simp_all add: combineBillingExpr_def rules trim_id b_def Let_def, simp_all add: js_def)
  have parts: "splitTopLevelMultiply (join (js '' * '') (b # fs)) = b # fs"
    using fs b by (intro split_factors) auto
  have whole: "trimmed (join (js '' * '') (b # fs))" "join (js '' * '') (b # fs) \<noteq> []"
    using trimmed_join [of "b # fs" "js '' * ''"] fs b by auto
  have flags: "parse_all is_rule_part (b # fs) = Parsed (False # replicate (length fs) True)"
  proof -
    have "parse_all is_rule_part fs = Parsed (replicate (length fs) True)"
      using is_a_rule assms(7) by (intro parse_all_const) (auto simp: fs_def)
    with not_a_rule [OF b nb] show ?thesis by simp
  qed
  define s where "s = join (js '' * '') (b # fs)"
  have "trim s = s" "s \<noteq> []" "splitTopLevelMultiply s = b # fs"
    unfolding s_def by (rule trim_id [OF whole(1)], rule whole(2), rule parts)
  moreover have "map fst (filter snd (zip (b # fs) (False # replicate (length fs) True))) = fs"
    "map fst (filter (\<lambda>p. \<not> snd p) (zip (b # fs) (False # replicate (length fs) True))) = [b]"
    using zip_flags [of fs] by simp_all
  moreover have "\<not> length (b # fs) \<le> 1" using fs(2) by simp
  moreover have "unwrapOuterParens b = base" unfolding b_def by (rule unwrap_single [OF assms(3,1,4)])
  ultimately have "splitBillingExprAndRequestRules s = Parsed (base, join (js '' * '') fs)"
    using flags fs(2) unfolding splitBillingExprAndRequestRules_def Let_def
    by (simp del: zip_Cons_Cons filter.simps list.map parse_all.simps)
  then show ?thesis unfolding s_def comb [symmetric] rules [symmetric] .
qed

lemma split_no_rules:
  assumes "ps \<noteq> []" "\<forall>p\<in>set ps. scan 42 0 p = Some 0 \<and> trimmed p \<and> p \<noteq> [] \<and> \<not> suffix (js '' : 1)'') p"
  shows "splitBillingExprAndRequestRules (join (js '' * '') ps) = Parsed (join (js '' * '') ps, [])"
proof -
  let ?s = "join (js '' * '') ps"
  have s: "trimmed ?s" "?s \<noteq> []" using trimmed_join [of ps "js '' * ''"] assms by auto
  have parts: "splitTopLevelMultiply ?s = ps" using assms by (intro split_factors) auto
  have "parse_all is_rule_part ps = Parsed (replicate (length ps) False)"
    using assms(2) by (intro parse_all_const not_a_rule) auto
  moreover have "filter snd (zip ps (replicate (length ps) False)) = []" by (auto simp: filter_empty_conv dest: set_zip_rightD)
  ultimately show ?thesis
    using s by (simp add: splitBillingExprAndRequestRules_def trim_id parts Let_def)
qed

text \<open>
  C38. Splitting undoes combining: a trimmed, balanced price expression that is not itself wrapped in
  parentheses and does not end like a rule comes back unchanged beside the text of its rules, if the
  rules are canonical. A wrapped expression loses its parentheses, and a guarded rule stays part of the
  price.
\<close>

theorem split_combine:
  assumes "trimmed base" "base \<noteq> []" "nested 0 base" "\<not> hasFullOuterParens base" "\<not> suffix (js '' : 1'') base"
    and "gs \<noteq> []" "\<forall>g\<in>set gs. canonical_group g"
  shows "splitBillingExprAndRequestRules (combineBillingExpr base (buildRequestRuleExpr gs)) =
    Parsed (base, buildRequestRuleExpr gs)"
  using assms by (rule combined_splits)

theorem split_combine_witness:
  "splitBillingExprAndRequestRules (combineBillingExpr (js ''tier(x)'') (buildRequestRuleExpr [sample_group])) =
     Parsed (js ''tier(x)'', buildRequestRuleExpr [sample_group])"
  by (rule split_combine)
     (simp_all add: sample_canonical, simp_all add: js_def trimmed_def is_ws_def paren_depth_def hasFullOuterParens_def suffix_def)

end
