(* ===== verification/ModelMapping.thy ===== *)
theory ModelMapping
  imports JsValue
begin

text \<open>
  \<open>src/newapi/web/default/src/features/channels/lib/model-mapping-validation.ts\<close>: a channel
  has a comma-separated list of models and a JSON object that maps a requested model to the one
  sent upstream. The functions read both texts, find the mapped models that the list lacks and
  the targets that it exposes, and check the mapping.

  \<open>JSON.parse\<close> is \<open>json_parse\<close>; its \<open>None\<close> is the exception that the code catches. A value is a
  mapping when it is an object and neither \<open>null\<close> nor an array (\<open>as_mapping\<close>). A JavaScript
  \<open>Set\<close> is the list of its elements in insertion order.

  The lemmas show that the list of models survives printing and parsing, that the missing models
  are exactly the mapped ones that the list lacks, and that adding them, printing the list and
  reading it back leaves none missing as long as no model name contains a comma.
\<close>

section \<open>The list of models\<close>

definition parseModelsString :: "jstr \<Rightarrow> jstr list" where
  "parseModelsString modelsStr = (if modelsStr \<noteq> [] then csv_tokens comma modelsStr else [])"

definition formatModelsArray :: "jstr list \<Rightarrow> jstr" where
  "formatModelsArray models = join [comma] (js_set models)"

definition normalizeModelName :: "jstr \<Rightarrow> jstr" where
  "normalizeModelName model = trim model"

lemma parseModelsString_csv: "parseModelsString s = csv_tokens comma s"
  by (simp add: parseModelsString_def)

interpretation models: csv_codec parseModelsString formatModelsArray js_set comma
proof
  fix t s
  show "t \<in> set (parseModelsString s) \<Longrightarrow> clean_token comma t"
    by (simp add: parseModelsString_csv csv_tokens_clean)
next
  fix ts :: "jstr list"
  show "\<forall>t\<in>set ts. clean_token comma t \<Longrightarrow> parseModelsString (formatModelsArray ts) = js_set ts"
    by (simp add: parseModelsString_csv formatModelsArray_def csv_tokens_join)
qed simp_all

section \<open>The mapping\<close>

fun as_mapping :: "jsval \<Rightarrow> (jstr \<times> jsval) list option" where
  "as_mapping (JObj ps) = Some ps"
| "as_mapping _ = None"

definition read_mapping :: "jstr \<Rightarrow> (jstr \<times> jsval) list option" where
  "read_mapping s = Option.bind (json_parse s) as_mapping"

definition extractMappingSourceModels :: "jstr \<Rightarrow> jstr list" where
  "extractMappingSourceModels modelMapping =
     (let trimmed = trim modelMapping in
      if trimmed = [] then []
      else case read_mapping trimmed of
        None \<Rightarrow> []
      | Some parsed \<Rightarrow> js_set (filter (\<lambda>k. k \<noteq> []) (map (trim \<circ> fst) parsed)))"

fun trimmed_value :: "jsval \<Rightarrow> jstr option" where
  "trimmed_value (JStr s) = Some (trim s)"
| "trimmed_value _ = None"

definition extractRedirectModels :: "jstr \<Rightarrow> jstr list" where
  "extractRedirectModels modelMapping =
     (let trimmed = trim modelMapping in
      if trimmed = [] then []
      else case read_mapping trimmed of
        None \<Rightarrow> []
      | Some parsed \<Rightarrow>
          js_set (filter (\<lambda>v. v \<noteq> []) (List.map_filter (trimmed_value \<circ> snd) parsed)))"

definition hasModelConfigChanged :: "jstr list \<Rightarrow> jstr \<Rightarrow> jstr list \<Rightarrow> jstr \<Rightarrow> bool" where
  "hasModelConfigChanged currentModels currentModelMapping initialModels initialModelMapping =
     (if length initialModels = 0 \<and> initialModelMapping = [] then True
      else if length currentModels \<noteq> length initialModels then True
      else if list_ex (\<lambda>i. currentModels ! i \<noteq> initialModels ! i) [0..<length currentModels] then True
      else trim currentModelMapping \<noteq> trim initialModelMapping)"

definition findMissingModelsInMapping :: "jstr \<Rightarrow> jstr list \<Rightarrow> jstr list" where
  "findMissingModelsInMapping modelMapping currentModels =
     (if modelMapping = [] \<or> trim modelMapping = [] then []
      else case read_mapping modelMapping of
        None \<Rightarrow> []
      | Some parsedMapping \<Rightarrow>
          let modelSet = set (map normalizeModelName currentModels) in
          js_set (filter (\<lambda>key. key \<noteq> [] \<and> key \<notin> modelSet)
            (map (normalizeModelName \<circ> fst) parsedMapping)))"

record MappingCheck =
  valid :: bool
  check_error :: "jstr option"

definition validateModelMappingJson :: "jstr \<Rightarrow> MappingCheck" where
  "validateModelMappingJson modelMapping =
     (if modelMapping = [] \<or> trim modelMapping = [] then \<lparr>valid = True, check_error = None\<rparr>
      else case json_parse modelMapping of
        None \<Rightarrow> \<lparr>valid = False, check_error = Some (js ''Model mapping must be valid JSON format'')\<rparr>
      | Some v \<Rightarrow>
          (case as_mapping v of
             None \<Rightarrow> \<lparr>valid = False, check_error = Some (js ''Model mapping must be a valid JSON object'')\<rparr>
           | Some parsed \<Rightarrow>
               if list_ex (\<lambda>p. \<not> is_string (snd p)) parsed
               then \<lparr>valid = False, check_error = Some (js ''Model mapping values must be strings'')\<rparr>
               else \<lparr>valid = True, check_error = None\<rparr>))"

definition findExposedTargetModels :: "jstr \<Rightarrow> jstr list \<Rightarrow> jstr list" where
  "findExposedTargetModels modelMapping currentModels =
     (let redirectModels = extractRedirectModels modelMapping in
      if length redirectModels = 0 then []
      else let modelSet = set (map normalizeModelName currentModels) in
        filter (\<lambda>m. normalizeModelName m \<in> modelSet) redirectModels)"

record CategorizedModels =
  normalizedCurrentModels :: "jstr list"
  normalizedRedirectModels :: "jstr list"
  classificationSet :: "jstr list"
  redirectOnlySet :: "jstr list"

definition categorizeModelsWithRedirect :: "jstr list \<Rightarrow> jstr list \<Rightarrow> CategorizedModels" where
  "categorizeModelsWithRedirect currentModels redirectModels =
     (let cur = js_set (filter (\<lambda>m. m \<noteq> []) (map normalizeModelName currentModels));
          red = js_set (filter (\<lambda>m. m \<noteq> []) (map normalizeModelName redirectModels)) in
      \<lparr>normalizedCurrentModels = cur, normalizedRedirectModels = red,
       classificationSet = js_set (cur @ red),
       redirectOnlySet = js_set (filter (\<lambda>m. m \<notin> set cur) red)\<rparr>)"

section \<open>What the functions compute\<close>

definition mapped_models :: "jstr \<Rightarrow> jstr set" where
  "mapped_models modelMapping =
     (case read_mapping modelMapping of
        None \<Rightarrow> {}
      | Some ps \<Rightarrow> (trim ` fst ` set ps) - {[]})"

lemma set_findMissing:
  "set (findMissingModelsInMapping mm ms) =
     (if trim mm = [] then {} else mapped_models mm - trim ` set ms)"
  by (auto simp: findMissingModelsInMapping_def mapped_models_def normalizeModelName_def
      image_image split: option.splits)

lemma distinct_findMissing: "distinct (findMissingModelsInMapping mm ms)"
  by (simp add: findMissingModelsInMapping_def Let_def split: option.splits)

lemma mapped_clean:
  "\<forall>k\<in>mapped_models mm. comma \<notin> set k \<Longrightarrow> k \<in> mapped_models mm \<Longrightarrow> clean_token comma k"
  by (auto simp: mapped_models_def clean_token_def trimmed_trim split: option.splits)

lemma trim_parsed: "trim ` set (parseModelsString t) = set (parseModelsString t)"
  using models.parse_clean [of _ t] by (force simp: clean_token_def trim_id image_iff)

lemma trim_mapped: "trim ` mapped_models mm = mapped_models mm"
proof -
  have "trim k = k" if "k \<in> mapped_models mm" for k
    using that by (auto simp: mapped_models_def split: option.splits)
  then show ?thesis by (auto simp: image_iff)
qed

lemma set_eq_Nil: "set xs = {} \<Longrightarrow> xs = []" by simp

lemma add_missing:
  assumes "\<forall>k\<in>mapped_models mm. comma \<notin> set k"
  shows "set (parseModelsString (formatModelsArray (parseModelsString s @
            findMissingModelsInMapping mm (parseModelsString s)))) =
         set (parseModelsString s) \<union> set (findMissingModelsInMapping mm (parseModelsString s))"
proof -
  let ?new = "findMissingModelsInMapping mm (parseModelsString s)"
  have "\<forall>t\<in>set (parseModelsString s @ ?new). clean_token comma t"
    using assms mapped_clean [of mm] by (auto simp: set_findMissing models.parse_clean split: if_splits)
  then have "parseModelsString (formatModelsArray (parseModelsString s @ ?new)) =
      js_set (parseModelsString s @ ?new)"
    by (rule models.parse_print)
  then show ?thesis by simp
qed

text \<open>
  Every text of models, once parsed and printed, is read back as the same models without
  repetitions, and reading and printing again changes nothing any more.
\<close>

theorem models_text_stable:
  "parseModelsString (formatModelsArray (parseModelsString s)) = js_set (parseModelsString s) \<and>
   formatModelsArray (parseModelsString (formatModelsArray (parseModelsString s))) =
     formatModelsArray (parseModelsString s)"
  by (simp add: models.reparse) (simp add: formatModelsArray_def)

text \<open>
  C36. The models reported missing are exactly the non-blank keys of the mapping that the list
  lacks; and once they are added to the list, the list printed into the form and read back, none is
  missing, provided that no key of the mapping contains a comma.
\<close>

theorem missing_models_added:
  assumes "\<forall>k\<in>mapped_models mm. comma \<notin> set k" and "trim mm \<noteq> []"
  shows "set (findMissingModelsInMapping mm (parseModelsString s)) =
           mapped_models mm - set (parseModelsString s) \<and>
         findMissingModelsInMapping mm (parseModelsString (formatModelsArray
           (parseModelsString s @ findMissingModelsInMapping mm (parseModelsString s)))) = []"
proof
  show s: "set (findMissingModelsInMapping mm (parseModelsString s)) =
      mapped_models mm - set (parseModelsString s)"
    using assms(2) by (simp add: set_findMissing trim_parsed)
  show "findMissingModelsInMapping mm (parseModelsString (formatModelsArray
      (parseModelsString s @ findMissingModelsInMapping mm (parseModelsString s)))) = []"
    by (rule set_eq_Nil)
       (simp add: set_findMissing [of mm "parseModelsString (formatModelsArray _)"] trim_parsed
          add_missing [OF assms(1)] s image_Un trim_mapped)
qed

lemma missing_models_added_witness:
  \<open>set (findMissingModelsInMapping (js ''{"a":"c"}'') (parseModelsString (js ''b''))) = {js ''a''}\<close>
proof -
  have p: \<open>read_mapping (js ''{"a":"c"}'') = Some [(js ''a'', JStr (js ''c''))]\<close>
    using json_roundtrip [of "JObj [(js ''a'', JStr (js ''c''))]"]
    by (simp add: read_mapping_def obj_wf_def json_quote_def esc_unit_def high_surrogate_def low_surrogate_def js_def)
  have m: \<open>mapped_models (js ''{"a":"c"}'') = {js ''a''}\<close>
    by (simp add: mapped_models_def p) (simp add: js_def trim_def is_ws_def)
  have b: "parseModelsString (js ''b'') = [js ''b'']"
    by (simp add: parseModelsString_def csv_tokens_def js_def trim_def is_ws_def)
  show ?thesis
    using missing_models_added [of \<open>js ''{"a":"c"}''\<close> "js ''b''"]
    unfolding m b by (simp add: trim_def is_ws_def js_def)
qed

text \<open>
  A mapping text is accepted exactly when it is blank or a JSON object all of whose values
  are strings; the message of a refusal tells which of the three conditions fails.
\<close>

theorem validateModelMappingJson_spec:
  "validateModelMappingJson mm =
     (if trim mm = [] \<or> (\<exists>ps. json_parse mm = Some (JObj ps) \<and> list_all (\<lambda>p. is_string (snd p)) ps)
      then \<lparr>valid = True, check_error = None\<rparr>
      else \<lparr>valid = False, check_error = Some
        (if json_parse mm = None then js ''Model mapping must be valid JSON format''
         else if read_mapping mm = None then js ''Model mapping must be a valid JSON object''
         else js ''Model mapping values must be strings'')\<rparr>)"
proof (cases "mm = [] \<or> trim mm = []")
  case True
  then show ?thesis by (auto simp: validateModelMappingJson_def)
next
  case False
  show ?thesis
  proof (cases "json_parse mm")
    case None
    with False show ?thesis by (simp add: validateModelMappingJson_def)
  next
    case (Some v)
    with False show ?thesis
      by (cases v) (auto simp: validateModelMappingJson_def read_mapping_def list_ex_iff list_all_iff)
  qed
qed

lemma redirect_trimmed: "m \<in> set (extractRedirectModels mm) \<Longrightarrow> trim m = m"
proof -
  assume m: "m \<in> set (extractRedirectModels mm)"
  then have ne: "trim mm \<noteq> []" by (auto simp: extractRedirectModels_def)
  show ?thesis
  proof (cases "read_mapping (trim mm)")
    case None
    with m ne show ?thesis by (simp add: extractRedirectModels_def)
  next
    case (Some ps)
    with m ne obtain p where "trimmed_value (snd p) = Some m"
      by (auto simp: extractRedirectModels_def map_filter_def)
    then show ?thesis by (cases "snd p") auto
  qed
qed

lemma set_exposed:
  "set (findExposedTargetModels mm ms) = set (extractRedirectModels mm) \<inter> trim ` set ms"
  using redirect_trimmed [of _ mm]
  by (auto simp: findExposedTargetModels_def normalizeModelName_def Let_def)

text \<open>
  The exposed targets are exactly the listed models that the mapping redirects to, and
  removing them from the list leaves no target exposed.
\<close>

theorem exposed_targets_removed:
  "set (findExposedTargetModels mm ms) = set (extractRedirectModels mm) \<inter> trim ` set ms \<and>
   findExposedTargetModels mm (filter (\<lambda>m. trim m \<notin> set (findExposedTargetModels mm ms)) ms) = []"
proof -
  have "set (findExposedTargetModels mm (filter (\<lambda>m. trim m \<notin> set (findExposedTargetModels mm ms)) ms)) = {}"
    unfolding set_exposed by auto
  then show ?thesis using set_exposed [of mm ms] by simp
qed

lemma some_index_differs:
  "length xs = length ys \<Longrightarrow> list_ex (\<lambda>i. xs ! i \<noteq> ys ! i) [0..<length xs] \<longleftrightarrow> xs \<noteq> ys"
  unfolding list_ex_iff using nth_equalityI [of xs ys] by fastforce

lemma hasModelConfigChanged_iff:
  "hasModelConfigChanged cm cmm im imm \<longleftrightarrow>
     (im = [] \<and> imm = []) \<or> cm \<noteq> im \<or> trim cmm \<noteq> trim imm"
proof (cases "length cm = length im")
  case True
  show ?thesis
    unfolding hasModelConfigChanged_def some_index_differs [OF True] by (simp only: True length_0_conv) argo
next
  case False
  then have "cm \<noteq> im" by blast
  with False show ?thesis unfolding hasModelConfigChanged_def by simp
qed

lemma categorized:
  "set (classificationSet (categorizeModelsWithRedirect cur red)) = trim ` (set cur \<union> set red) - {[]}"
  "set (redirectOnlySet (categorizeModelsWithRedirect cur red)) = trim ` set red - trim ` set cur - {[]}"
  by (auto simp: categorizeModelsWithRedirect_def normalizeModelName_def Let_def)

end
