(* ===== verification/JsConvert.thy ===== *)
theory JsConvert
  imports JsValue
begin

text \<open>
  Conversion of values that come from outside. \<open>String(v)\<close> and \<open>Number(v)\<close> of an object look for
  its \<open>toString\<close>; one that has an own property of that name throws, because a value that was read
  from JSON or from a database is never callable. \<open>as_string\<close> and \<open>as_number\<close> are the conversions,
  \<open>None\<close> is the exception. \<open>js_to_number\<close> is the number where nothing throws.
\<close>

fun conversion_throws :: "jsval \<Rightarrow> bool" where
  "conversion_throws (JObj ps) = obj_has (js ''toString'') ps"
| "conversion_throws (JArr vs) = list_ex conversion_throws vs"
| "conversion_throws _ = False"

definition as_string :: "jsval \<Rightarrow> jstr option" where
  "as_string v = (if conversion_throws v then None else Some (to_str v))"

fun js_to_number :: "jsval \<Rightarrow> jsnum" where
  "js_to_number JUndef = NaN"
| "js_to_number JNull = Fin 0"
| "js_to_number (JBool b) = (if b then Fin 1 else Fin 0)"
| "js_to_number (JNum x) = x"
| "js_to_number (JStr s) = js_Number s"
| "js_to_number (JArr vs) = js_Number (to_str (JArr vs))"
| "js_to_number (JObj _) = NaN"

definition as_number :: "jsval \<Rightarrow> jsnum option" where
  "as_number v = (if conversion_throws v then None else Some (js_to_number v))"

text \<open>\<open>v?.k\<close>.\<close>

definition optional_prop :: "jstr \<Rightarrow> jsval \<Rightarrow> jsval" where
  "optional_prop k v = (if is_nullish v then JUndef else get_prop k v)"

text \<open>
  \<open>toLowerCase\<close> and \<open>toUpperCase\<close> on the ASCII letters, for texts that are compared with words of
  ASCII letters only. No unit outside ASCII has a lower case among the letters of \<open>true\<close>, \<open>false\<close> and
  \<open>header\<close>, or an upper case among those of \<open>AND\<close> and \<open>OR\<close>, so nothing else of the Unicode maps matters.
\<close>

definition ascii_lower :: "jstr \<Rightarrow> jstr" where
  "ascii_lower s = map (\<lambda>c. if 65 \<le> c \<and> c \<le> 90 then c + 32 else c) s"

definition ascii_upper :: "jstr \<Rightarrow> jstr" where
  "ascii_upper s = map (\<lambda>c. if 97 \<le> c \<and> c \<le> 122 then c - 32 else c) s"

lemma as_string_str [simp]: "as_string (JStr s) = Some s"
  by (simp add: as_string_def)

lemma as_number_num [simp]: "as_number (JNum x) = Some x"
  by (simp add: as_number_def)

end
