(* ===== verification/StatusCodeGuard.thy ===== *)
theory StatusCodeGuard
  imports JsConvert "HOL-Library.List_Lexorder"
begin

text \<open>
  \<open>src/newapi/web/default/src/features/channels/lib/status-code-risk-guard.ts\<close>: a channel may map
  an upstream status code to another one, in a JSON object such as \<open>{"400": 500}\<close>. The guard reports
  the entries that are no such mapping and the redirections of the codes 504 and 524, which the
  administrator has to confirm when they are new.

  The input is \<open>None\<close> for \<open>undefined\<close> and \<open>null\<close>. The sort without a comparison function orders
  strings by their code units (\<open>List_Lexorder\<close>). A value is printed into a message by the
  conversion to a string, which may throw (\<open>message_text\<close> is \<open>None\<close>).
\<close>

section \<open>Operations\<close>

definition NON_REDIRECTABLE_STATUS_CODES :: "nat list" where
  "NON_REDIRECTABLE_STATUS_CODES = [504, 524]"

text \<open>The test \<open>/^[1-5]\d{2}$/\<close>.\<close>

fun three_digits :: "jstr \<Rightarrow> bool" where
  "three_digits [a, b, c] = (49 \<le> a \<and> a \<le> 53 \<and> is_digit b \<and> is_digit c)"
| "three_digits _ = False"

definition parseStatusCodeKey :: "jstr \<Rightarrow> nat option" where
  "parseStatusCodeKey rawKey =
     (let normalized = trim rawKey in
      if \<not> three_digits normalized then None else Some (undec normalized))"

definition code_in_range :: "nat \<Rightarrow> nat option" where
  "code_in_range n = (if n \<ge> 100 \<and> n \<le> 599 then Some n else None)"

fun parseStatusCodeMappingTarget :: "jsval \<Rightarrow> nat option" where
  "parseStatusCodeMappingTarget (JNum x) =
     (case x of
        Fin q \<Rightarrow> if num_is_integer (Fin q) then (if q \<ge> 100 \<and> q \<le> 599 then Some (nat \<lfloor>q\<rfloor>) else None) else None
      | _ \<Rightarrow> None)"
| "parseStatusCodeMappingTarget (JStr s) =
     (let normalized = trim s in
      if \<not> three_digits normalized then None else code_in_range (undec normalized))"
| "parseStatusCodeMappingTarget _ = None"

definition message_text :: "jstr \<Rightarrow> jsval \<Rightarrow> jstr option" where
  "message_text rawKey rawValue =
     (if conversion_throws rawValue then None
      else Some (rawKey @ [32, 0x2192, 32] @ to_str rawValue))"

text \<open>What both collectors read first: the entries of the mapping, none for a text that is blank,
  not JSON or not an object.\<close>

definition mapping_entries :: "jstr option \<Rightarrow> (jstr \<times> jsval) list" where
  "mapping_entries str =
     (case str of
        None \<Rightarrow> []
      | Some s \<Rightarrow>
          if trim s = [] then []
          else case json_parse s of Some (JObj ps) \<Rightarrow> ps | _ \<Rightarrow> [])"

definition is_invalid_entry :: "jstr \<times> jsval \<Rightarrow> bool" where
  "is_invalid_entry e \<longleftrightarrow>
     parseStatusCodeKey (fst e) = None \<or> parseStatusCodeMappingTarget (snd e) = None"

fun invalid_loop :: "jstr list \<Rightarrow> (jstr \<times> jsval) list \<Rightarrow> jstr list option" where
  "invalid_loop invalid [] = Some invalid"
| "invalid_loop invalid (e # es) =
     (if is_invalid_entry e then
        (case message_text (fst e) (snd e) of
           None \<Rightarrow> None
         | Some m \<Rightarrow> invalid_loop (invalid @ [m]) es)
      else invalid_loop invalid es)"

definition collectInvalidStatusCodeEntries :: "jstr option \<Rightarrow> jstr list option" where
  "collectInvalidStatusCodeEntries statusCodeMappingStr =
     invalid_loop [] (mapping_entries statusCodeMappingStr)"

definition redirect_text :: "nat \<Rightarrow> nat \<Rightarrow> jstr" where
  "redirect_text a b = dec a @ js '' -> '' @ dec b"

fun risky_loop :: "(jstr \<times> jsval) list \<Rightarrow> jstr list" where
  "risky_loop [] = []"
| "risky_loop ((rawFrom, rawTo) # es) =
     (case (parseStatusCodeKey rawFrom, parseStatusCodeMappingTarget rawTo) of
        (Some fromCode, Some toCode) \<Rightarrow>
          if fromCode \<notin> set NON_REDIRECTABLE_STATUS_CODES then risky_loop es
          else if fromCode = toCode then risky_loop es
          else redirect_text fromCode toCode # risky_loop es
      | _ \<Rightarrow> risky_loop es)"

definition collectDisallowedStatusCodeRedirects :: "jstr option \<Rightarrow> jstr list" where
  "collectDisallowedStatusCodeRedirects statusCodeMappingStr =
     sort (js_set (risky_loop (mapping_entries statusCodeMappingStr)))"

definition collectNewDisallowedStatusCodeRedirects :: "jstr option \<Rightarrow> jstr option \<Rightarrow> jstr list" where
  "collectNewDisallowedStatusCodeRedirects originalStr currentStr =
     (let currentRisky = collectDisallowedStatusCodeRedirects currentStr in
      if length currentRisky = 0 then []
      else
        let originalRiskySet = js_set (collectDisallowedStatusCodeRedirects originalStr) in
        filter (\<lambda>m. m \<notin> set originalRiskySet) currentRisky)"

section \<open>What the guard reports\<close>

definition redirects :: "jstr option \<Rightarrow> (nat \<times> nat) set" where
  "redirects str = {(a, b). \<exists>e\<in>set (mapping_entries str).
     parseStatusCodeKey (fst e) = Some a \<and> parseStatusCodeMappingTarget (snd e) = Some b \<and> a \<noteq> b}"

lemma three_digits_range: "three_digits s \<Longrightarrow> 100 \<le> undec s \<and> undec s \<le> 599"
  by (auto simp: undec_def is_digit_def elim!: three_digits.elims)

lemma parsed_key_range: "parseStatusCodeKey k = Some a \<Longrightarrow> 100 \<le> a \<and> a \<le> 599"
  by (auto simp: parseStatusCodeKey_def Let_def three_digits_range split: if_splits)

lemma parsed_target_range: "parseStatusCodeMappingTarget v = Some b \<Longrightarrow> 100 \<le> b \<and> b \<le> 599"
proof (cases v)
  case (JNum x)
  assume "parseStatusCodeMappingTarget v = Some b"
  with JNum show ?thesis by (fastforce split: jsnum.splits if_splits simp: le_floor_iff floor_le_iff)
qed (auto simp: Let_def code_in_range_def split: if_splits)

definition risky_pairs :: "jstr \<times> jsval \<Rightarrow> (nat \<times> nat) set" where
  "risky_pairs e =
     (case (parseStatusCodeKey (fst e), parseStatusCodeMappingTarget (snd e)) of
        (Some a, Some b) \<Rightarrow> if (a = 504 \<or> a = 524) \<and> a \<noteq> b then {(a, b)} else {}
      | _ \<Rightarrow> {})"

lemma set_risky_loop:
  "set (risky_loop es) = (\<lambda>p. redirect_text (fst p) (snd p)) ` (\<Union>e\<in>set es. risky_pairs e)"
proof (induction es)
  case (Cons e es)
  have "set (risky_loop (e # es)) =
      (\<lambda>p. redirect_text (fst p) (snd p)) ` risky_pairs e \<union> set (risky_loop es)"
    by (cases e) (simp add: risky_pairs_def NON_REDIRECTABLE_STATUS_CODES_def split: option.split)
  then show ?case by (simp add: Cons.IH image_Un)
qed simp

lemma in_risky_pairs:
  "(a, b) \<in> risky_pairs e \<longleftrightarrow> parseStatusCodeKey (fst e) = Some a \<and>
     parseStatusCodeMappingTarget (snd e) = Some b \<and> a \<noteq> b \<and> (a = 504 \<or> a = 524)"
  by (auto simp: risky_pairs_def split: option.splits if_splits)

lemma risky_eq:
  "set (collectDisallowedStatusCodeRedirects str) =
     (\<lambda>p. redirect_text (fst p) (snd p)) ` {p \<in> redirects str. fst p = 504 \<or> fst p = 524}"
proof -
  have "p \<in> (\<Union>e\<in>set (mapping_entries str). risky_pairs e) \<longleftrightarrow>
      p \<in> {p \<in> redirects str. fst p = 504 \<or> fst p = 524}" for p
  proof -
    obtain a b where p: "p = (a, b)" by force
    show ?thesis unfolding p redirects_def UN_iff in_risky_pairs by auto
  qed
  then have "(\<Union>e\<in>set (mapping_entries str). risky_pairs e) =
      {p \<in> redirects str. fst p = 504 \<or> fst p = 524}" by blast
  then show ?thesis by (simp add: collectDisallowedStatusCodeRedirects_def set_risky_loop)
qed

lemma redirect_text_inject [simp]: "redirect_text a b = redirect_text c d \<longleftrightarrow> a = c \<and> b = d"
proof -
  have t: "takeWhile is_digit (redirect_text a b) = dec a" for a b
    using takeWhile_append_stop [of "dec a" is_digit 32] dec_digits [of _ a]
    by (simp add: redirect_text_def js_def is_digit_def)
  have "redirect_text a b = redirect_text c d \<Longrightarrow> a = c"
    using t [of a b] t [of c d] by simp
  then show ?thesis by (auto simp: redirect_text_def)
qed

lemma redirects_range: "redirects str \<subseteq> {(a, b). a \<noteq> b \<and> a \<in> {100..599} \<and> b \<in> {100..599}}"
  by (auto simp: redirects_def dest: parsed_key_range parsed_target_range)

lemma set_new_risky:
  "set (collectNewDisallowedStatusCodeRedirects old new) =
     (\<lambda>p. redirect_text (fst p) (snd p)) ` {p \<in> redirects new - redirects old. fst p = 504 \<or> fst p = 524}"
proof -
  have inj: "inj (\<lambda>p. redirect_text (fst p) (snd p))" by (rule injI) (auto simp: prod_eq_iff)
  have "set (collectNewDisallowedStatusCodeRedirects old new) =
      set (collectDisallowedStatusCodeRedirects new) - set (collectDisallowedStatusCodeRedirects old)"
    by (auto simp: collectNewDisallowedStatusCodeRedirects_def Let_def)
  also have "\<dots> = (\<lambda>p. redirect_text (fst p) (snd p)) `
      ({p \<in> redirects new. fst p = 504 \<or> fst p = 524} - {p \<in> redirects old. fst p = 504 \<or> fst p = 524})"
    unfolding risky_eq by (rule image_set_diff [OF inj, symmetric])
  also have "{p \<in> redirects new. fst p = 504 \<or> fst p = 524} - {p \<in> redirects old. fst p = 504 \<or> fst p = 524} =
      {p \<in> redirects new - redirects old. fst p = 504 \<or> fst p = 524}" by auto
  finally show ?thesis .
qed

text \<open>
  The redirections to confirm are reported once each, in the order of their texts; they are
  exactly those that the new mapping makes of 504 or 524 and the old mapping does not, and a
  redirection always leads from one code of 100 to 599 to a different one.
\<close>

theorem new_risky_redirects:
  "distinct (collectNewDisallowedStatusCodeRedirects old new) \<and>
   sorted (collectNewDisallowedStatusCodeRedirects old new) \<and>
   set (collectNewDisallowedStatusCodeRedirects old new) =
     (\<lambda>p. redirect_text (fst p) (snd p)) ` {p \<in> redirects new - redirects old. fst p = 504 \<or> fst p = 524} \<and>
   redirects new \<subseteq> {(a, b). a \<noteq> b \<and> a \<in> {100..599} \<and> b \<in> {100..599}}"
  by (intro conjI set_new_risky redirects_range)
     (simp_all add: collectNewDisallowedStatusCodeRedirects_def Let_def
        collectDisallowedStatusCodeRedirects_def sorted_wrt_filter)

text \<open>
  The list of invalid entries is produced unless a bad value is an object with a property
  \<open>toString
\<close> of its own, and then it is exactly the entries that are no mapping of one code of
  100 to 599 to another number of that range, in their order.\<close>

theorem invalid_entries_listed:
  "collectInvalidStatusCodeEntries str =
     (if list_ex (\<lambda>e. is_invalid_entry e \<and> conversion_throws (snd e)) (mapping_entries str) then None
      else Some (map (\<lambda>e. fst e @ [32, 0x2192, 32] @ to_str (snd e))
        (filter is_invalid_entry (mapping_entries str)))) \<and>
   set (filter (\<lambda>e. \<not> is_invalid_entry e) (mapping_entries str)) =
     {e \<in> set (mapping_entries str). \<exists>a b. parseStatusCodeKey (fst e) = Some a \<and>
        parseStatusCodeMappingTarget (snd e) = Some b \<and> a \<in> {100..599} \<and> b \<in> {100..599}}"
proof
  have "invalid_loop acc es =
      (if list_ex (\<lambda>e. is_invalid_entry e \<and> conversion_throws (snd e)) es then None
       else Some (acc @ map (\<lambda>e. fst e @ [32, 0x2192, 32] @ to_str (snd e)) (filter is_invalid_entry es)))"
    for acc es
    by (induction acc es rule: invalid_loop.induct) (auto simp: message_text_def)
  then show "collectInvalidStatusCodeEntries str =
     (if list_ex (\<lambda>e. is_invalid_entry e \<and> conversion_throws (snd e)) (mapping_entries str) then None
      else Some (map (\<lambda>e. fst e @ [32, 0x2192, 32] @ to_str (snd e))
        (filter is_invalid_entry (mapping_entries str))))"
    by (simp add: collectInvalidStatusCodeEntries_def)
qed (auto simp: is_invalid_entry_def dest: parsed_key_range parsed_target_range)

end
