(* ===== verification/ChannelTypes.thy ===== *)
theory ChannelTypes
  imports JsSort JsValue
begin

text \<open>
  The data of the channel pages: \<open>features/channels/types.ts\<close> and the tables of
  \<open>features/channels/constants.ts\<close> (under \<open>src/newapi/web/default/src\<close>).

  A channel is the record the server sends. Its fields keep their names, except \<open>id\<close> and \<open>type\<close>
  (\<open>chan_id\<close>, \<open>chan_type\<close>). Identifiers, types, states and times are whole numbers; amounts and
  averages the code computes with are binary64 numbers (\<open>jsnum\<close>). A string that may be \<open>null\<close> or
  \<open>undefined\<close> is an option, because the code treats the two alike; for \<open>priority\<close> and \<open>weight\<close>,
  which it compares with \<open>===\<close>, they are kept apart. The state is \<open>None\<close> only in a row that
  aggregates channels, before its first channel is added; the identifier of such a row is its tag.
\<close>

section \<open>Channels\<close>

datatype RowId = NumId int | TagId jstr

datatype nullable_num = Undefined | Null | Num jsnum

abbreviation num :: "int \<Rightarrow> jsnum" where
  "num n \<equiv> Fin (of_int n)"

fun strict_eq :: "nullable_num \<Rightarrow> nullable_num \<Rightarrow> bool" where
  "strict_eq (Num a) (Num b) = num_eq a b"
| "strict_eq a b = (a = b)"

datatype MultiKeyMode = Random | Polling

record ChannelInfo =
  is_multi_key :: bool
  multi_key_size :: int
  multi_key_status_list :: "(jstr \<times> int) list option"
  multi_key_disabled_reason :: "(jstr \<times> jstr) list option"
  multi_key_disabled_time :: "(jstr \<times> int) list option"
  multi_key_polling_index :: int
  multi_key_mode :: MultiKeyMode

record Channel =
  chan_id :: RowId
  chan_type :: int
  key :: jstr
  openai_organization :: "jstr option"
  test_model :: "jstr option"
  status :: "int option"
  name :: jstr
  weight :: nullable_num
  created_time :: int
  test_time :: int
  response_time :: jsnum
  base_url :: "jstr option"
  other :: jstr
  balance :: jsnum
  balance_updated_time :: int
  models :: jstr
  group :: jstr
  used_quota :: jsnum
  model_mapping :: "jstr option"
  status_code_mapping :: "jstr option"
  priority :: nullable_num
  auto_ban :: "int option"
  other_info :: jstr
  tag :: "jstr option"
  setting :: "jstr option"
  param_override :: "jstr option"
  header_override :: "jstr option"
  remark :: jstr
  max_input_tokens :: int
  channel_info :: "ChannelInfo option"
  settings :: jstr

text \<open>A channel for examples.\<close>

definition sample_channel :: Channel where
  "sample_channel =
     \<lparr>chan_id = NumId 1, chan_type = 1, key = js ''k'', openai_organization = None, test_model = None,
      status = Some 2, name = js ''a'', weight = Num (num 0), created_time = 0, test_time = 0,
      response_time = num 0, base_url = None, other = [], balance = num 0, balance_updated_time = 0,
      models = js ''m'', group = js ''default'', used_quota = num 0, model_mapping = None,
      status_code_mapping = None, priority = Num (num 5), auto_ban = Some 1, other_info = [],
      tag = Some (js ''t''), setting = None, param_override = None, header_override = None,
      remark = [], max_input_tokens = 0, channel_info = None, settings = js ''{}''\<rparr>"

section \<open>Tables\<close>

definition CHANNEL_TYPES :: "(int \<times> jstr) list" where
  "CHANNEL_TYPES =
  [(0, js ''Unknown''), (1, js ''OpenAI''), (2, js ''Midjourney''),
   (3, js ''Azure''), (4, js ''Ollama''), (5, js ''MidjourneyPlus''),
   (6, js ''OpenAIMax''), (7, js ''OhMyGPT''), (8, js ''Custom''),
   (9, js ''AILS''), (10, js ''AI Proxy''), (11, js ''PaLM''),
   (12, js ''API2GPT''), (13, js ''AIGC2D''), (14, js ''Anthropic''),
   (15, js ''Baidu''), (16, js ''Zhipu''), (17, js ''Ali''),
   (18, js ''Xunfei''), (19, js ''360''), (20, js ''OpenRouter''),
   (21, js ''AI Proxy Library''), (22, js ''FastGPT''), (23, js ''Tencent''),
   (24, js ''Gemini''), (25, js ''Moonshot''), (26, js ''Zhipu V4''),
   (27, js ''Perplexity''), (31, js ''LingYiWanWu''), (33, js ''AWS''),
   (34, js ''Cohere''), (35, js ''MiniMax''), (36, js ''SunoAPI''),
   (37, js ''Dify''), (38, js ''Jina''), (39, js ''Cloudflare''),
   (40, js ''SiliconFlow''), (41, js ''Vertex AI''), (42, js ''Mistral''),
   (43, js ''DeepSeek''), (44, js ''MokaAI''), (45, js ''VolcEngine''),
   (46, js ''Baidu V2''), (47, js ''Xinference''), (48, js ''xAI''),
   (49, js ''Coze''), (50, js ''Kling''), (51, js ''Jimeng''),
   (52, js ''Vidu''), (53, js ''Submodel''), (54, js ''DoubaoVideo''),
   (55, js ''Sora''), (56, js ''Replicate''), (57, js ''Codex'')]"

definition CHANNEL_TYPE_DISPLAY_ORDER :: "int list" where
  "CHANNEL_TYPE_DISPLAY_ORDER =
  [1, 14, 33, 24, 43, 3, 41, 48, 42, 34, 20, 4, 40, 27, 25, 17, 26, 15, 46, 23, 18, 45, 
   31, 35, 49, 19, 47, 37, 38, 39, 11, 8, 57, 22, 21, 44, 2, 5, 36, 50, 51, 52, 53, 54, 
   55, 56]"

text \<open>The two loops of \<open>CHANNEL_TYPE_OPTIONS\<close>: the types in display order that have a label, then
  the labelled types the first loop has not seen, without type 0.\<close>

definition CHANNEL_TYPE_OPTIONS :: "(int \<times> jstr) list" where
  "CHANNEL_TYPE_OPTIONS =
     (let ordered = List.map_filter (\<lambda>i. case map_of CHANNEL_TYPES i of
                      Some l \<Rightarrow> if l \<noteq> [] then Some (i, l) else None | None \<Rightarrow> None)
                    CHANNEL_TYPE_DISPLAY_ORDER;
          seen = map fst ordered in
      ordered @ filter (\<lambda>p. fst p \<noteq> 0 \<and> fst p \<notin> set seen) CHANNEL_TYPES)"

definition TYPE_TO_KEY_PROMPT :: "(int \<times> jstr) list" where
  "TYPE_TO_KEY_PROMPT =
  [(15, js ''Format: APIKey|SecretKey''),
   (18, js ''Format: APPID|APISecret|APIKey''),
   (22, js ''Format: APIKey-AppId, e.g., fastgpt-0sp2gtvfdgyi4k30jwlgwf1i-64f335d84283f05518e9e041''),
   (23, js ''Format: AppId|SecretId|SecretKey''),
   (33, js ''Format: Ak|Sk|Region''),
   (50, js ''Format: AccessKey|SecretKey (or just ApiKey if upstream is New API)''),
   (51, js ''Format: Access Key ID|Secret Access Key''),
   (57, js ''Paste Codex OAuth JSON credential (access_token / refresh_token / account_id)'')]"

definition MODEL_FETCHABLE_TYPES :: "int list" where
  "MODEL_FETCHABLE_TYPES =
  [1, 4, 14, 17, 20, 23, 24, 25, 26, 27, 31, 34, 35, 40, 42, 43, 47, 48]"

datatype Variant = Neutral | Success | Danger | Warning | Info

definition CHANNEL_STATUS_CONFIG :: "(int \<times> Variant \<times> jstr) list" where
  "CHANNEL_STATUS_CONFIG =
  [(0, Neutral, js ''Unknown''), (1, Success, js ''Enabled''), (2, Danger, js ''Disabled''),
   (3, Warning, js ''Auto Disabled'')]"

definition MULTI_KEY_STATUS_CONFIG :: "(int \<times> Variant \<times> jstr) list" where
  "MULTI_KEY_STATUS_CONFIG =
  [(1, Success, js ''Enabled''), (2, Neutral, js ''Manual Disabled''), (3, Danger, js ''Auto Disabled'')]"

record ResponseTimeThresholds =
  EXCELLENT :: int
  GOOD :: int
  FAIR :: int
  POOR :: int

definition RESPONSE_TIME_THRESHOLDS :: ResponseTimeThresholds where
  "RESPONSE_TIME_THRESHOLDS = \<lparr>EXCELLENT = 500, GOOD = 1000, FAIR = 2000, POOR = 5000\<rparr>"

datatype ResponseTimeRating = Excellent | Good | Fair | Poor | Unknown

text \<open>The ratings are ordered from the best to the worst; \<open>Unknown\<close> is last.\<close>

fun rating_rank :: "ResponseTimeRating \<Rightarrow> nat" where
  "rating_rank Excellent = 0"
| "rating_rank Good = 1"
| "rating_rank Fair = 2"
| "rating_rank Poor = 3"
| "rating_rank Unknown = 4"

instantiation ResponseTimeRating :: linorder
begin

definition less_eq_ResponseTimeRating :: "ResponseTimeRating \<Rightarrow> ResponseTimeRating \<Rightarrow> bool" where
  "a \<le> b \<longleftrightarrow> rating_rank a \<le> rating_rank b"

definition less_ResponseTimeRating :: "ResponseTimeRating \<Rightarrow> ResponseTimeRating \<Rightarrow> bool" where
  "a < b \<longleftrightarrow> rating_rank a < rating_rank b"

instance
proof
  fix a b :: ResponseTimeRating
  show "a \<le> b \<Longrightarrow> b \<le> a \<Longrightarrow> a = b"
    by (cases a; cases b) (simp_all add: less_eq_ResponseTimeRating_def)
qed (auto simp: less_eq_ResponseTimeRating_def less_ResponseTimeRating_def)

end

fun RESPONSE_TIME_CONFIG :: "ResponseTimeRating \<Rightarrow> Variant \<times> jstr" where
  "RESPONSE_TIME_CONFIG Excellent = (Success, js ''Excellent'')"
| "RESPONSE_TIME_CONFIG Good = (Info, js ''Good'')"
| "RESPONSE_TIME_CONFIG Fair = (Warning, js ''Fair'')"
| "RESPONSE_TIME_CONFIG Poor = (Danger, js ''Poor'')"
| "RESPONSE_TIME_CONFIG Unknown = (Neutral, js ''Not tested'')"

definition CHANNEL_TYPE_ICONS :: "(int \<times> jstr) list" where
  "CHANNEL_TYPE_ICONS =
  [(1, js ''OpenAI''), (6, js ''OpenAI''), (7, js ''OpenAI''),
   (8, js ''OpenAI''), (3, js ''Azure''), (14, js ''Claude''),
   (24, js ''Gemini''), (11, js ''Google''), (41, js ''Gemini''),
   (33, js ''Aws''), (39, js ''Cloudflare''), (15, js ''Baidu''),
   (46, js ''Baidu''), (16, js ''Zhipu''), (26, js ''Zhipu''),
   (17, js ''Qwen''), (18, js ''Spark''), (23, js ''Hunyuan''),
   (19, js ''Ai360''), (25, js ''Moonshot''), (31, js ''Yi''),
   (35, js ''Minimax''), (45, js ''Volcengine''), (4, js ''Ollama''),
   (27, js ''Perplexity''), (34, js ''Cohere''), (42, js ''Mistral''),
   (43, js ''DeepSeek''), (48, js ''XAI''), (49, js ''Coze''),
   (40, js ''SiliconCloud''), (44, js ''OpenAI''), (20, js ''OpenRouter''),
   (2, js ''Midjourney''), (5, js ''Midjourney''), (50, js ''Kling''),
   (51, js ''Jimeng''), (52, js ''Vidu''), (36, js ''Suno''),
   (55, js ''OpenAI''), (54, js ''Doubao''), (56, js ''Replicate''),
   (37, js ''Dify''), (38, js ''Jina''), (22, js ''FastGPT''),
   (47, js ''Xinference''), (53, js ''OpenAI''), (10, js ''OpenAI''),
   (21, js ''OpenAI''), (12, js ''OpenAI''), (13, js ''OpenAI''),
   (9, js ''OpenAI'')]"

text \<open>Reading an absent key gives \<open>undefined\<close>; the code replaces that, and an empty label, by a
  default.\<close>

definition label_or :: "jstr \<Rightarrow> (int \<times> jstr) list \<Rightarrow> int \<Rightarrow> jstr" where
  "label_or dflt table i = (case map_of table i of Some l \<Rightarrow> if l \<noteq> [] then l else dflt | None \<Rightarrow> dflt)"

lemma map_of_mem: "map_of m k = Some v \<Longrightarrow> (k, v) \<in> set m"
  by (rule map_of_SomeD)

lemma CHANNEL_TYPES_wf:
  "distinct (map fst CHANNEL_TYPES)" "list_all (\<lambda>p. snd p \<noteq> []) CHANNEL_TYPES"
  "distinct CHANNEL_TYPE_DISPLAY_ORDER" "0 \<notin> set CHANNEL_TYPE_DISPLAY_ORDER"
  by (simp_all add: CHANNEL_TYPES_def CHANNEL_TYPE_DISPLAY_ORDER_def)

lemma ordered_options:
  fixes T :: "(int \<times> jstr) list"
  assumes "distinct (map fst T)" "list_all (\<lambda>p. snd p \<noteq> []) T" "distinct is"
  defines "f \<equiv> \<lambda>i. case map_of T i of Some l \<Rightarrow> if l \<noteq> [] then Some (i, l) else None | None \<Rightarrow> None"
  shows "distinct (map fst (List.map_filter f is))"
    and "set (List.map_filter f is) = {p \<in> set T. fst p \<in> set is}"
proof -
  have f: "f i = map_option (Pair i) (map_of T i)" for i
    using assms(2) by (fastforce simp: f_def list_all_iff dest: map_of_SomeD split: option.split)
  have "map fst (List.map_filter f is) = filter (\<lambda>i. map_of T i \<noteq> None) is"
    by (induction "is") (auto simp: map_filter_def f)
  with assms(3) show "distinct (map fst (List.map_filter f is))" by simp
  show "set (List.map_filter f is) = {p \<in> set T. fst p \<in> set is}"
  proof (rule set_eqI)
    fix p :: "int \<times> jstr"
    obtain i l where p: "p = (i, l)" by force
    show "p \<in> set (List.map_filter f is) \<longleftrightarrow> p \<in> {p \<in> set T. fst p \<in> set is}"
      using map_of_eq_Some_iff [OF assms(1), of i l] unfolding p
      by (auto simp: in_set_map_filter f)
  qed
qed

text \<open>
  The list of types offered when a channel is created shows every known type except 0
  exactly once, with the label of the table.
\<close>

theorem type_options_complete:
  "distinct (map fst CHANNEL_TYPE_OPTIONS) \<and>
   set CHANNEL_TYPE_OPTIONS = {p \<in> set CHANNEL_TYPES. fst p \<noteq> 0}"
proof -
  note o = ordered_options [OF CHANNEL_TYPES_wf(1-3)]
  have d: "distinct (map fst (filter P CHANNEL_TYPES))" for P
    using CHANNEL_TYPES_wf(1) by (simp add: distinct_map_filter)
  have z: "fst p \<in> set CHANNEL_TYPE_DISPLAY_ORDER \<Longrightarrow> fst p \<noteq> 0" for p :: "int \<times> jstr"
    using CHANNEL_TYPES_wf(4) by metis
  show ?thesis
    unfolding CHANNEL_TYPE_OPTIONS_def Let_def using o d z
    by (auto simp: image_iff)
qed

end
