(* ===== verification/ChannelUtils.thy ===== *)
theory ChannelUtils
  imports ChannelTypes
begin

text \<open>
  \<open>src/newapi/web/default/src/features/channels/lib/channel-utils.ts\<close>: labels and badges, the
  display of keys, the lists of models and groups, the checks of a channel, the rows of the tag
  view (\<open>aggregateChannelsByTag\<close>) and the removal of repeated keys.

  In the tag view the code keeps one object per tag, which the map and the result share, and
  updates it for every channel. Here the map from tags to rows, in insertion order, holds each row
  once; the result is the list of its rows, because a row is pushed exactly when its tag is added.
  The order \<open>localeCompare\<close> of the host is the parameter \<open>cmp\<close>. The formatting of amounts and
  dates, which calls libraries, is not modelled.
\<close>

section \<open>Labels, badges and keys\<close>

definition getChannelTypeLabel :: "int \<Rightarrow> jstr" where
  "getChannelTypeLabel i = label_or (js ''Unknown'') CHANNEL_TYPES i"

definition getChannelTypeIcon :: "int \<Rightarrow> jstr" where
  "getChannelTypeIcon i = label_or (js ''OpenAI'') CHANNEL_TYPE_ICONS i"

definition getKeyPromptForType :: "int \<Rightarrow> jstr" where
  "getKeyPromptForType i = label_or (js ''Enter API key for this channel'') TYPE_TO_KEY_PROMPT i"

definition badge_or :: "int \<Rightarrow> (int \<times> Variant \<times> jstr) list \<Rightarrow> int \<Rightarrow> (Variant \<times> jstr) option" where
  "badge_or dflt table st = (case map_of table st of Some b \<Rightarrow> Some b | None \<Rightarrow> map_of table dflt)"

definition getChannelStatusBadge :: "int \<Rightarrow> (Variant \<times> jstr) option" where
  "getChannelStatusBadge st = badge_or 0 CHANNEL_STATUS_CONFIG st"

definition getMultiKeyStatusBadge :: "int \<Rightarrow> (Variant \<times> jstr) option" where
  "getMultiKeyStatusBadge st = badge_or 1 MULTI_KEY_STATUS_CONFIG st"

definition isChannelEnabled :: "Channel \<Rightarrow> bool" where
  "isChannelEnabled channel \<longleftrightarrow> status channel = Some 1"

definition isMultiKeyChannel :: "Channel \<Rightarrow> bool" where
  "isMultiKeyChannel channel \<longleftrightarrow>
     (case channel_info channel of None \<Rightarrow> False | Some i \<Rightarrow> is_multi_key i)"

abbreviation newline :: nat where "newline \<equiv> 10"

definition countKeys :: "jstr \<Rightarrow> nat" where
  "countKeys k = (if k = [] then 0 else length (filter (\<lambda>l. trim l \<noteq> []) (split_on newline k)))"

text \<open>\<open>slice(0, n)\<close> and \<open>slice(-n)\<close>.\<close>

definition ends_shown :: "nat \<Rightarrow> jstr \<Rightarrow> jstr" where
  "ends_shown n k = take n k @ js ''...'' @ drop (length k - n) k"

definition formatChannelKey :: "jstr \<Rightarrow> bool \<Rightarrow> jstr" where
  "formatChannelKey k isMultiKey =
     (if k = [] then []
      else if isMultiKey then
        dec (length (filter (\<lambda>l. trim l \<noteq> []) (split_on newline k))) @ js '' keys''
      else if length k \<le> 16 then ends_shown 4 k
      else ends_shown 8 k)"

definition formatKeyPreview :: "jstr \<Rightarrow> nat \<Rightarrow> jstr" where
  "formatKeyPreview k maxLength =
     (if k = [] then []
      else if length k \<le> maxLength then k
      else take maxLength k @ js ''...'')"

section \<open>Models, groups and settings\<close>

definition parseModelsList :: "jstr \<Rightarrow> jstr list" where
  "parseModelsList ms = (if ms = [] then [] else csv_tokens comma ms)"

definition group_order :: "(jstr \<Rightarrow> jstr \<Rightarrow> int) \<Rightarrow> jstr \<Rightarrow> jstr \<Rightarrow> int" where
  "group_order cmp a b =
     (if a = js ''default'' then - 1
      else if b = js ''default'' then 1
      else cmp a b)"

definition parseGroupsList :: "(jstr \<Rightarrow> jstr \<Rightarrow> int) \<Rightarrow> jstr \<Rightarrow> jstr list" where
  "parseGroupsList cmp groups =
     (if groups = [] then [] else sort_by (group_order cmp) (csv_tokens comma groups))"

definition formatModelsString :: "jstr list \<Rightarrow> jstr" where
  "formatModelsString ms = join [comma] ms"

definition formatGroupsString :: "jstr list \<Rightarrow> jstr" where
  "formatGroupsString groups = join [comma] groups"

text \<open>The value parsed is returned as it is: the cast to the settings type checks nothing.\<close>

definition parseChannelSettings :: "jstr option \<Rightarrow> jsval" where
  "parseChannelSettings settingStr =
     (case settingStr of
        None \<Rightarrow> JObj []
      | Some s \<Rightarrow>
          if s = [] then JObj []
          else case json_parse s of Some v \<Rightarrow> v | None \<Rightarrow> JObj [])"

definition parseChannelOtherSettings :: "jstr option \<Rightarrow> jsval" where
  "parseChannelOtherSettings settingsStr =
     (case settingsStr of
        None \<Rightarrow> JObj []
      | Some s \<Rightarrow>
          if s = [] \<or> s = js ''{}'' then JObj []
          else case json_parse s of Some v \<Rightarrow> v | None \<Rightarrow> JObj [])"

definition validateChannelSettings :: "jstr \<Rightarrow> bool" where
  "validateChannelSettings s \<longleftrightarrow> s = [] \<or> trim s = [] \<or> json_parse s \<noteq> None"

section \<open>Ratings and checks\<close>

definition getBalanceVariant :: "jsnum \<Rightarrow> Variant" where
  "getBalanceVariant b =
     (if num_eq b (num 0) then Neutral
      else if num_lt b (num 1) then Danger
      else if num_lt b (num 10) then Warning
      else Success)"

text \<open>Without a translation function.\<close>

definition formatResponseTime :: "jsnum \<Rightarrow> jstr" where
  "formatResponseTime timeMs =
     (if num_eq timeMs (num 0) then js ''Not tested''
      else if num_lt timeMs (num 1000) then num_to_string timeMs @ js ''ms''
      else to_fixed 2 (num_div_pos timeMs 1000) @ js ''s'')"

definition response_rating :: "jsnum \<Rightarrow> ResponseTimeRating" where
  "response_rating timeMs =
     (if num_eq timeMs (num 0) then Unknown
      else if num_le timeMs (num (EXCELLENT RESPONSE_TIME_THRESHOLDS)) then Excellent
      else if num_le timeMs (num (GOOD RESPONSE_TIME_THRESHOLDS)) then Good
      else if num_le timeMs (num (FAIR RESPONSE_TIME_THRESHOLDS)) then Fair
      else if num_le timeMs (num (POOR RESPONSE_TIME_THRESHOLDS)) then Poor
      else Poor)"

definition getResponseTimeConfig :: "jsnum \<Rightarrow> Variant \<times> jstr" where
  "getResponseTimeConfig timeMs = RESPONSE_TIME_CONFIG (response_rating timeMs)"

fun number_or_zero :: "nullable_num \<Rightarrow> jstr" where
  "number_or_zero (Num x) = num_to_string x"
| "number_or_zero _ = js ''0''"

definition getPriorityDisplay :: "nullable_num \<Rightarrow> jstr" where
  "getPriorityDisplay p = number_or_zero p"

definition getWeightDisplay :: "nullable_num \<Rightarrow> jstr" where
  "getWeightDisplay w = number_or_zero w"

definition validateChannelName :: "jstr \<Rightarrow> bool" where
  "validateChannelName s \<longleftrightarrow> length (trim s) > 0"

definition validateApiKey :: "jstr \<Rightarrow> bool" where
  "validateApiKey k \<longleftrightarrow> length (trim k) > 0"

definition validateModels :: "jstr \<Rightarrow> bool" where
  "validateModels ms \<longleftrightarrow> length (parseModelsList ms) > 0"

definition validateGroups :: "(jstr \<Rightarrow> jstr \<Rightarrow> int) \<Rightarrow> jstr \<Rightarrow> bool" where
  "validateGroups cmp gs \<longleftrightarrow> length (parseGroupsList cmp gs) > 0"

definition low_balance :: "Channel \<Rightarrow> bool" where
  "low_balance channel \<longleftrightarrow> num_lt (num 0) (balance channel) \<and> num_lt (balance channel) (num 1)"

definition all_keys_disabled :: "Channel \<Rightarrow> bool" where
  "all_keys_disabled channel \<longleftrightarrow>
     (case channel_info channel of
        None \<Rightarrow> False
      | Some i \<Rightarrow> is_multi_key i \<and>
          (case multi_key_status_list i of
             None \<Rightarrow> False
           | Some l \<Rightarrow> int (length l) \<ge> multi_key_size i))"

definition channelNeedsAttention :: "Channel \<Rightarrow> bool" where
  "channelNeedsAttention channel =
     (if status channel = Some 3 then True
      else if low_balance channel then True
      else if all_keys_disabled channel then True
      else False)"

definition getAttentionReason :: "Channel \<Rightarrow> jstr option" where
  "getAttentionReason channel =
     (if status channel = Some 3 then Some (js ''Auto-disabled'')
      else if low_balance channel then Some (js ''Low balance'')
      else if all_keys_disabled channel then Some (js ''All keys disabled'')
      else None)"

section \<open>Rows by tag\<close>

record TagRow = Channel +
  children :: "Channel list"

definition tag_of :: "Channel \<Rightarrow> jstr" where
  "tag_of channel = (case tag channel of None \<Rightarrow> [] | Some t \<Rightarrow> t)"

definition new_tag_row :: "Channel \<Rightarrow> TagRow" where
  "new_tag_row channel =
     (let t = tag_of channel in
      Channel.extend
        (channel\<lparr>key := t, chan_id := TagId t, tag := Some t, name := t, chan_type := 0,
          status := None, group := [], used_quota := num 0, response_time := num 0,
          priority := Num (num (- 1)), weight := Num (num (- 1)), balance := num 0, test_time := 0,
          created_time := 0, balance_updated_time := 0, models := []\<rparr>)
        \<lparr>children = []\<rparr>)"

definition split_groups :: "jstr \<Rightarrow> jstr list" where
  "split_groups g = filter (\<lambda>t. t \<noteq> []) (split_on comma g)"

definition merge_number :: "nullable_num \<Rightarrow> nullable_num \<Rightarrow> nullable_num" where
  "merge_number old new =
     (if strict_eq old (Num (num (- 1))) then new
      else if \<not> strict_eq old new then Null
      else old)"

definition merge_group :: "jstr \<Rightarrow> jstr \<Rightarrow> jstr" where
  "merge_group old new =
     (if old = [] then new
      else
        let existingGroups = set (split_groups old) in
        foldl (\<lambda>g n. if n \<notin> existingGroups then g @ [comma] @ n else g) old (split_groups new))"

definition merge_status :: "int option \<Rightarrow> int option \<Rightarrow> int option" where
  "merge_status old new = (if new = Some 1 then Some 1 else if old = None then new else old)"

definition add_child :: "TagRow \<Rightarrow> Channel \<Rightarrow> TagRow" where
  "add_child row channel =
     (let row = row\<lparr>children := children row @ [channel]\<rparr>;
          childCount = length (children row);
          row = row\<lparr>used_quota := num_add (used_quota row) (used_quota channel)\<rparr>;
          row = row\<lparr>response_time := num_div_pos
                  (num_add (num_mul (response_time row) (num_of_nat (childCount - 1))) (response_time channel))
                  childCount\<rparr>;
          row = row\<lparr>priority := merge_number (priority row) (priority channel)\<rparr>;
          row = row\<lparr>weight := merge_number (weight row) (weight channel)\<rparr>;
          row = row\<lparr>group := merge_group (group row) (group channel)\<rparr> in
      row\<lparr>status := merge_status (status row) (status channel)\<rparr>)"

definition aggregate_step :: "(jstr \<times> TagRow) list \<Rightarrow> Channel \<Rightarrow> (jstr \<times> TagRow) list" where
  "aggregate_step tagMap channel =
     (let t = tag_of channel;
          tagMap = (if map_of tagMap t = None then map_set t (new_tag_row channel) tagMap else tagMap) in
      case map_of tagMap t of
        None \<Rightarrow> tagMap
      | Some tagRow \<Rightarrow> map_set t (add_child tagRow channel) tagMap)"

definition aggregateChannelsByTag :: "Channel list \<Rightarrow> TagRow list" where
  "aggregateChannelsByTag channels = map snd (foldl aggregate_step [] channels)"

section \<open>Keys\<close>

record DeduplicatedKeys =
  deduplicatedText :: jstr
  beforeCount :: nat
  afterCount :: nat
  removedCount :: nat

definition dedup_step :: "jstr list \<Rightarrow> jstr \<Rightarrow> jstr list" where
  "dedup_step deduplicatedKeys line =
     (let trimmedLine = trim line in
      if trimmedLine \<noteq> [] \<and> trimmedLine \<notin> set deduplicatedKeys
      then deduplicatedKeys @ [trimmedLine] else deduplicatedKeys)"

definition deduplicateKeys :: "jstr \<Rightarrow> DeduplicatedKeys" where
  "deduplicateKeys keysText =
     (if keysText = [] \<or> trim keysText = [] then
        \<lparr>deduplicatedText = [], beforeCount = 0, afterCount = 0, removedCount = 0\<rparr>
      else
        let keyLines = split_on newline keysText;
            deduplicatedKeys = foldl dedup_step [] keyLines in
        \<lparr>deduplicatedText = join [newline] deduplicatedKeys,
         beforeCount = length keyLines, afterCount = length deduplicatedKeys,
         removedCount = length keyLines - length deduplicatedKeys\<rparr>)"

section \<open>Ratings\<close>

text \<open>A longer response is never rated better.\<close>

lemma num_le_trans: "num_le a b \<Longrightarrow> num_le b c \<Longrightarrow> num_le a c"
  by (cases a; cases b; cases c) (auto simp: num_le_def num_eq_def)

lemma rating_mono:
  assumes "num_lt (num 0) s" "num_le s t"
  shows "response_rating s \<le> response_rating t"
proof -
  have "num_lt (num 0) t" using assms by (cases s; cases t) (auto simp: num_le_def num_eq_def)
  then have "\<not> num_eq s (num 0)" "\<not> num_eq t (num 0)" using assms(1) by (auto simp: num_eq_def)
  moreover have "num_le t u \<Longrightarrow> num_le s u" for u using assms(2) by (rule num_le_trans)
  ultimately show ?thesis by (auto simp: response_rating_def less_eq_ResponseTimeRating_def)
qed

lemma needs_attention_iff: "channelNeedsAttention c \<longleftrightarrow> getAttentionReason c \<noteq> None"
  by (simp add: channelNeedsAttention_def getAttentionReason_def)

section \<open>Lists of groups\<close>

lemma comparison_group_order: "comparison cmp A \<Longrightarrow> comparison (group_order cmp) A"
  unfolding comparison_def
proof (intro ballI conjI impI)
  assume c: "\<forall>x\<in>A. \<forall>y\<in>A. (cmp x y \<le> 0 \<or> cmp y x \<le> 0) \<and>
    (\<forall>z\<in>A. cmp x y \<le> 0 \<longrightarrow> cmp y z \<le> 0 \<longrightarrow> cmp x z \<le> 0)"
  fix x y assume xy: "x \<in> A" "y \<in> A"
  note cxy = bspec [OF bspec [OF c xy(1)] xy(2)]
  from conjunct1 [OF cxy] show "group_order cmp x y \<le> 0 \<or> group_order cmp y x \<le> 0"
    by (simp add: group_order_def)
  fix z assume z: "z \<in> A" and le: "group_order cmp x y \<le> 0" "group_order cmp y z \<le> 0"
  from bspec [OF conjunct2 [OF cxy] z] le show "group_order cmp x z \<le> 0"
    by (simp add: group_order_def split: if_splits)
qed

lemma sorted_default_first:
  assumes "sorted_wrt (\<lambda>a b. group_order cmp a b \<le> 0) gs"
  shows "\<exists>n rest. gs = replicate n (js ''default'') @ rest \<and> js ''default'' \<notin> set rest \<and>
    sorted_wrt (\<lambda>a b. cmp a b \<le> 0) rest"
  using assms
proof (induction gs)
  case (Cons g gs)
  from Cons.prems have "sorted_wrt (\<lambda>a b. group_order cmp a b \<le> 0) gs" by simp
  from Cons.IH [OF this] obtain n rest where r: "gs = replicate n (js ''default'') @ rest" "js ''default'' \<notin> set rest"
    "sorted_wrt (\<lambda>a b. cmp a b \<le> 0) rest" by blast
  show ?case
  proof (cases "g = js ''default''")
    case True
    with r show ?thesis by (intro exI [of _ "Suc n"] exI [of _ rest]) simp
  next
    case False
    with Cons.prems have d: "\<forall>h\<in>set gs. h \<noteq> js ''default'' \<and> cmp g h \<le> 0"
      by (auto simp: group_order_def split: if_splits)
    then have "n = 0" using r(1) by (cases n) auto
    with r(1) have "gs = rest" by simp
    with r(2,3) d False show ?thesis by (intro exI [of _ 0] exI [of _ "g # rest"]) simp
  qed
qed simp

lemma parseGroupsList_order:
  assumes "comparison cmp (set (csv_tokens comma s))"
  shows "mset (parseGroupsList cmp s) = mset (csv_tokens comma s) \<and>
    (\<exists>n rest. parseGroupsList cmp s = replicate n (js ''default'') @ rest \<and> js ''default'' \<notin> set rest \<and>
       sorted_wrt (\<lambda>a b. cmp a b \<le> 0) rest)"
  using sorted_default_first [OF sorted_sort_by [OF comparison_group_order [OF assms]]]
  by (auto simp: parseGroupsList_def)

section \<open>What a masked key shows\<close>

lemma ends_shown_eq:
  assumes "length k = length k'"
  shows "ends_shown n k = ends_shown n k' \<longleftrightarrow>
    take n k = take n k' \<and> drop (length k - n) k = drop (length k - n) k'"
  using assms by (auto simp: ends_shown_def)

lemma ends_cover: "length k \<le> 2 * n \<Longrightarrow> length k = length k' \<Longrightarrow>
  take n k = take n k' \<Longrightarrow> drop (length k - n) k = drop (length k - n) k' \<Longrightarrow> k = k'"
proof -
  assume l: "length k \<le> 2 * n" "length k = length k'"
    and t: "take n k = take n k'" and d: "drop (length k - n) k = drop (length k - n) k'"
  have "drop n k = drop (n - (length k - n)) (drop (length k - n) k)" using l by simp
  also have "\<dots> = drop (n - (length k - n)) (drop (length k - n) k')" by (simp only: d)
  also have "\<dots> = drop n k'" using l by simp
  finally show "k = k'" using t by (metis append_take_drop_id)
qed

text \<open>
  The display of a single key hides the middle of a key of more than 16 units, showing its
  first eight and last eight, and shows the first and last four of a shorter one. A key of at most
  eight units is not hidden at all: among keys of its length the display determines it.
\<close>

theorem masked_key:
  assumes "length k = length k'"
  shows "formatChannelKey k False = formatChannelKey k' False \<longleftrightarrow>
    (if length k \<le> 8 then k = k'
     else if length k \<le> 16 then take 4 k = take 4 k' \<and> drop (length k - 4) k = drop (length k - 4) k'
     else take 8 k = take 8 k' \<and> drop (length k - 8) k = drop (length k - 8) k')"
proof (cases "k = []")
  case True
  with assms show ?thesis by simp
next
  case False
  with assms have ne: "k \<noteq> []" "k' \<noteq> []" by auto
  have "length k \<le> 8 \<Longrightarrow> ends_shown 4 k = ends_shown 4 k' \<longleftrightarrow> k = k'"
    using ends_cover [of k 4 k'] assms by (auto simp: ends_shown_eq)
  with ne assms show ?thesis by (auto simp: formatChannelKey_def ends_shown_eq)
qed

lemma masked_key_witness:
  "formatChannelKey (js ''sk-12345'') False \<noteq> formatChannelKey (js ''sk-12346'') False \<and>
   formatChannelKey (js ''sk-0000-1111-2222'') False = formatChannelKey (js ''sk-0000-3111-2222'') False"
  using masked_key [of "js ''sk-12345''" "js ''sk-12346''"]
    masked_key [of "js ''sk-0000-1111-2222''" "js ''sk-0000-3111-2222''"]
  by (simp add: js_def)

section \<open>Removal of repeated keys\<close>

lemma dedup_fold:
  "foldl dedup_step acc ls = foldl set_add acc (filter (\<lambda>t. t \<noteq> []) (map trim ls))"
  by (induction ls arbitrary: acc) (auto simp: dedup_step_def set_add_def Let_def)

lemma dedup_keys: "foldl dedup_step [] (split_on newline s) = js_set (csv_tokens newline s)"
  by (simp add: dedup_fold js_set_def csv_tokens_def)

definition distinct_keys :: "jstr \<Rightarrow> jstr list" where
  "distinct_keys s = js_set (csv_tokens newline s)"

interpretation keys: csv_codec distinct_keys "join [newline]" js_set newline
proof
  fix t s
  show "t \<in> set (distinct_keys s) \<Longrightarrow> clean_token newline t"
    by (simp add: distinct_keys_def csv_tokens_clean)
next
  fix ts :: "jstr list"
  show "\<forall>t\<in>set ts. clean_token newline t \<Longrightarrow> distinct_keys (join [newline] ts) = js_set ts"
    by (simp add: distinct_keys_def csv_tokens_join)
qed simp_all

lemma deduplicatedText_eq: "deduplicatedText (deduplicateKeys s) = join [newline] (distinct_keys s)"
  by (auto simp: deduplicateKeys_def Let_def dedup_keys distinct_keys_def blank_tokens)

lemma afterCount_eq: "afterCount (deduplicateKeys s) = length (distinct_keys s)"
  by (auto simp: deduplicateKeys_def Let_def dedup_keys distinct_keys_def blank_tokens)

lemma counts_add_up:
  "afterCount (deduplicateKeys s) + removedCount (deduplicateKeys s) = beforeCount (deduplicateKeys s)"
proof -
  have "length (js_set (csv_tokens newline s)) \<le> length (split_on newline s)"
    using le_trans [OF length_js_set_le [of "csv_tokens newline s"]]
      length_filter_le [of "\<lambda>t. t \<noteq> []" "map trim (split_on newline s)"]
    by (simp only: csv_tokens_def length_map)
  then show ?thesis by (simp add: deduplicateKeys_def Let_def dedup_keys)
qed

text \<open>
  Removing repeated keys keeps one line for every different trimmed line that is not blank, in
  the order of first occurrence, with counts that add up; the text it produces holds the same keys
  and is not changed by doing it again.
\<close>

theorem deduplicateKeys_spec:
  "deduplicatedText (deduplicateKeys s) = join [newline] (distinct_keys s) \<and>
   distinct (distinct_keys s) \<and>
   set (distinct_keys s) = trim ` set (split_on newline s) - {[]} \<and>
   afterCount (deduplicateKeys s) = length (distinct_keys s) \<and>
   afterCount (deduplicateKeys s) + removedCount (deduplicateKeys s) = beforeCount (deduplicateKeys s) \<and>
   distinct_keys (deduplicatedText (deduplicateKeys s)) = distinct_keys s \<and>
   deduplicatedText (deduplicateKeys (deduplicatedText (deduplicateKeys s))) = deduplicatedText (deduplicateKeys s)"
  by (intro conjI deduplicatedText_eq afterCount_eq counts_add_up)
     (simp_all add: deduplicatedText_eq keys.reparse, auto simp: distinct_keys_def csv_tokens_def)

section \<open>The rows of the tag view\<close>

lemma channel_more_children [simp]: "children (r\<lparr>children := cs\<rparr>) = cs" by simp

lemma add_child_fields:
  "children (add_child row c) = children row @ [c]"
  "tag (add_child row c) = tag row" "name (add_child row c) = name row"
  "key (add_child row c) = key row" "chan_id (add_child row c) = chan_id row"
  "status (add_child row c) = merge_status (status row) (status c)"
  "group (add_child row c) = merge_group (group row) (group c)"
  "priority (add_child row c) = merge_number (priority row) (priority c)"
  "weight (add_child row c) = merge_number (weight row) (weight c)"
  "used_quota (add_child row c) = num_add (used_quota row) (used_quota c)"
  by (simp_all add: add_child_def Let_def)

lemma new_tag_row_fields:
  "children (new_tag_row c) = []" "tag (new_tag_row c) = Some (tag_of c)"
  "status (new_tag_row c) = None" "group (new_tag_row c) = []"
  "priority (new_tag_row c) = Num (num (- 1))" "weight (new_tag_row c) = Num (num (- 1))"
  "used_quota (new_tag_row c) = num 0"
  by (simp_all add: new_tag_row_def Let_def Channel.defs)

text \<open>The row of a tag as a function of the channels that carry it.\<close>

definition row_of :: "Channel list \<Rightarrow> TagRow" where
  "row_of cs = foldl add_child (new_tag_row (hd cs)) cs"

definition with_tag :: "jstr \<Rightarrow> Channel list \<Rightarrow> Channel list" where
  "with_tag t cs = filter (\<lambda>c. tag_of c = t) cs"

lemma row_of_snoc: "cs \<noteq> [] \<Longrightarrow> row_of (cs @ [c]) = add_child (row_of cs) c"
  by (simp add: row_of_def)

lemma row_of_single: "row_of [c] = add_child (new_tag_row c) c"
  by (simp add: row_of_def)

lemma aggregate_step_keys:
  "map fst (aggregate_step m c) = set_add (map fst m) (tag_of c)"
proof -
  have "set_add (set_add xs x) x = set_add xs x" for xs and x :: jstr by (simp add: set_add_def)
  moreover have "map_of m t = None \<longleftrightarrow> t \<notin> fst ` set m" for t by (simp add: map_of_eq_None_iff)
  ultimately show ?thesis
    by (auto simp: aggregate_step_def Let_def map_fst_map_set set_add_def map_of_eq_None_iff
        split: option.split dest: map_of_SomeD)
qed

lemma aggregate_step_lookup:
  "map_of (aggregate_step m c) t =
     (if t = tag_of c then Some (case map_of m t of None \<Rightarrow> add_child (new_tag_row c) c | Some r \<Rightarrow> add_child r c)
      else map_of m t)"
  by (auto simp: aggregate_step_def Let_def split: option.split)

lemma aggregate_keys: "map fst (foldl aggregate_step [] cs) = js_set (map tag_of cs)"
proof (induction cs rule: rev_induct)
  case (snoc c cs)
  then show ?case by (simp add: aggregate_step_keys js_set_def)
qed simp

lemma aggregate_lookup:
  "map_of (foldl aggregate_step [] cs) t =
     (if with_tag t cs = [] then None else Some (row_of (with_tag t cs)))"
proof (induction cs rule: rev_induct)
  case Nil
  then show ?case by (simp add: with_tag_def)
next
  case (snoc c cs)
  show ?case
  proof (cases "tag_of c = t")
    case True
    then have w: "with_tag t (cs @ [c]) = with_tag t cs @ [c]" by (simp add: with_tag_def)
    show ?thesis unfolding w using True snoc
      by (cases "with_tag t cs = []") (simp_all add: aggregate_step_lookup row_of_snoc row_of_single)
  next
    case False
    then have w: "with_tag t (cs @ [c]) = with_tag t cs" by (simp add: with_tag_def)
    show ?thesis unfolding w using False snoc by (simp add: aggregate_step_lookup)
  qed
qed

lemma alist_by_keys: "distinct (map fst m) \<Longrightarrow> map snd m = map (\<lambda>k. the (map_of m k)) (map fst m)"
proof -
  assume d: "distinct (map fst m)"
  have "snd p = the (map_of m (fst p))" if "p \<in> set m" for p
    using map_of_is_SomeI [OF d, of "fst p" "snd p"] that by simp
  then show ?thesis by simp
qed

lemma children_row_of: "cs \<noteq> [] \<Longrightarrow> children (row_of cs) = cs"
proof (induction cs rule: rev_induct)
  case (snoc c cs)
  then show ?case
    by (cases "cs = []") (simp_all add: row_of_snoc row_of_single add_child_fields new_tag_row_fields)
qed simp

lemma mset_by_tag:
  "distinct ts \<Longrightarrow> mset (concat (map (\<lambda>t. with_tag t cs) ts)) = filter_mset (\<lambda>c. tag_of c \<in> set ts) (mset cs)"
proof (induction ts)
  case (Cons t ts)
  then show ?case by (auto simp: with_tag_def intro!: multiset_eqI)
qed simp

lemma with_tag_ne: "t \<in> set (js_set (map tag_of cs)) \<Longrightarrow> with_tag t cs \<noteq> []"
  by (auto simp: with_tag_def filter_empty_conv)

lemma aggregate_rows: "aggregateChannelsByTag cs = map (\<lambda>t. row_of (with_tag t cs)) (js_set (map tag_of cs))"
proof -
  let ?m = "foldl aggregate_step [] cs"
  have "aggregateChannelsByTag cs = map (\<lambda>t. the (map_of ?m t)) (js_set (map tag_of cs))"
    unfolding aggregateChannelsByTag_def aggregate_keys [symmetric]
    by (rule alist_by_keys) (simp add: aggregate_keys)
  then show ?thesis using with_tag_ne [of _ cs] by (simp add: aggregate_lookup cong: map_cong)
qed

lemma aggregate_children:
  "map children (aggregateChannelsByTag cs) = map (\<lambda>t. with_tag t cs) (js_set (map tag_of cs))"
  using with_tag_ne [of _ cs] by (simp add: aggregate_rows children_row_of cong: map_cong)

text \<open>
  C15. The single pass over the channels computes the same rows as grouping first: one row per
  tag, in the order in which the tags first occur, each made from the channels of its tag in their
  order, which are its children; no channel is lost or shown twice.
\<close>

theorem aggregate_by_tag:
  "aggregateChannelsByTag cs = map (\<lambda>t. row_of (with_tag t cs)) (js_set (map tag_of cs)) \<and>
   map children (aggregateChannelsByTag cs) = map (\<lambda>t. with_tag t cs) (js_set (map tag_of cs)) \<and>
   mset (concat (map children (aggregateChannelsByTag cs))) = mset cs"
proof (intro conjI aggregate_rows aggregate_children)
  have "filter_mset (\<lambda>c. tag_of c \<in> set (js_set (map tag_of cs))) (mset cs) = mset cs"
    by (rule filter_mset_eq_conv [THEN iffD2]) auto
  then show "mset (concat (map children (aggregateChannelsByTag cs))) = mset cs"
    unfolding aggregate_children by (simp only: mset_by_tag distinct_js_set)
qed

subsection \<open>What a row shows\<close>

lemma split_groups_append: "split_groups (g @ comma # h) = split_groups g @ split_groups h"
proof -
  have "split_on c (g @ c # h) = split_on c g @ split_on c h" for c
    by (induction g) (auto split: list.split)
  then show ?thesis by (simp add: split_groups_def)
qed

lemma split_groups_token: "n \<noteq> [] \<Longrightarrow> comma \<notin> set n \<Longrightarrow> split_groups n = [n]"
  by (simp add: split_groups_def split_on_no_sep)

lemma split_groups_mem: "n \<in> set (split_groups g) \<Longrightarrow> n \<noteq> [] \<and> comma \<notin> set n"
  by (auto simp: split_groups_def split_on_parts)

lemma merge_group_fold:
  "\<forall>n\<in>set ns. n \<noteq> [] \<and> comma \<notin> set n \<Longrightarrow>
   set (split_groups (foldl (\<lambda>g n. if n \<notin> E then g @ [comma] @ n else g) g ns)) =
     set (split_groups g) \<union> {n \<in> set ns. n \<notin> E}"
  by (induction ns arbitrary: g) (auto simp: split_groups_append split_groups_token)

lemma split_groups_Nil [simp]: "split_groups [] = []"
  by (simp add: split_groups_def)

lemma set_merge_group:
  "set (split_groups (merge_group old new)) = set (split_groups old) \<union> set (split_groups new)"
  using merge_group_fold [of "split_groups new" "set (split_groups old)" old] split_groups_mem [of _ new]
  by (auto simp: merge_group_def Let_def)

lemma row_groups:
  "cs \<noteq> [] \<Longrightarrow> set (split_groups (group (row_of cs))) = (\<Union>c\<in>set cs. set (split_groups (group c)))"
proof (induction cs rule: rev_induct)
  case (snoc c cs)
  then show ?case
    by (cases "cs = []")
       (auto simp: row_of_snoc row_of_single add_child_fields new_tag_row_fields set_merge_group)
qed simp

lemma row_status:
  "cs \<noteq> [] \<Longrightarrow> \<forall>c\<in>set cs. status c \<noteq> None \<Longrightarrow>
   status (row_of cs) = (if \<exists>c\<in>set cs. status c = Some 1 then Some 1 else status (hd cs))"
proof (induction cs rule: rev_induct)
  case (snoc c cs)
  show ?case
  proof (cases "cs = []")
    case True
    then show ?thesis by (auto simp: row_of_single add_child_fields new_tag_row_fields merge_status_def)
  next
    case False
    with snoc have "status (row_of cs) = (if \<exists>c\<in>set cs. status c = Some 1 then Some 1 else status (hd cs))"
      and "status (hd cs) \<noteq> None" by simp_all
    with False show ?thesis by (auto simp: row_of_snoc add_child_fields merge_status_def)
  qed
qed simp

definition plain_number :: "nullable_num \<Rightarrow> bool" where
  "plain_number x \<longleftrightarrow> x \<noteq> Num NaN \<and> x \<noteq> Num (num (- 1))"

lemma strict_eq_plain: "plain_number a \<Longrightarrow> strict_eq a b \<longleftrightarrow> a = b"
  by (cases a; cases b) (auto simp: plain_number_def num_eq_def)

lemma merge_number_plain:
  "plain_number a \<Longrightarrow> merge_number a b = (if a = b then a else Null)"
  by (cases a) (auto simp: merge_number_def strict_eq_plain plain_number_def num_eq_def)

lemma merge_number_first: "merge_number (Num (num (- 1))) b = b"
  by (simp add: merge_number_def num_eq_def)

lemma fold_merge_number:
  assumes "cs \<noteq> []" "\<forall>c\<in>set cs. plain_number (f c)"
  shows "foldl merge_number (Num (num (- 1))) (map f cs) =
    (if \<forall>c\<in>set cs. f c = f (hd cs) then f (hd cs) else Null)"
  using assms
proof (induction cs rule: rev_induct)
  case (snoc c cs)
  show ?case
  proof (cases "cs = []")
    case True
    then show ?thesis by (simp add: merge_number_def num_eq_def)
  next
    case False
    with snoc have IH: "foldl merge_number (Num (num (- 1))) (map f cs) =
        (if \<forall>c\<in>set cs. f c = f (hd cs) then f (hd cs) else Null)"
      and p: "plain_number (f (hd cs))" "plain_number (f c)" by simp_all
    have n: "merge_number Null (f c) = Null"
      using merge_number_plain [of Null "f c"] by (simp add: plain_number_def)
    show ?thesis
    proof -
      define h where "h = f (hd cs)"
      have h: "hd (cs @ [c]) = hd cs" using False by simp
      have m: "merge_number h (f c) = (if h = f c then h else Null)"
        using merge_number_plain [OF p(1), of "f c"] by (simp add: h_def)
      show ?thesis
        unfolding map_append foldl_append IH h h_def [symmetric] using n m by (cases "h = f c") auto
    qed
  qed
qed simp

lemma row_priority: "priority (row_of cs) = foldl merge_number (Num (num (- 1))) (map priority cs)"
proof -
  have "priority (foldl add_child r cs) = foldl merge_number (priority r) (map priority cs)" for r
    by (induction cs arbitrary: r) (simp_all add: add_child_fields)
  then show ?thesis by (simp only: row_of_def new_tag_row_fields)
qed

lemma js_set_const: "xs \<noteq> [] \<Longrightarrow> \<forall>x\<in>set xs. x = t \<Longrightarrow> js_set xs = [t]"
proof -
  assume "xs \<noteq> []" "\<forall>x\<in>set xs. x = t"
  then have "set (js_set xs) = {t}" by (cases xs) auto
  moreover have "distinct (js_set xs)" by simp
  ultimately show ?thesis
    by (cases "js_set xs"; cases "tl (js_set xs)") (auto simp del: set_js_set distinct_js_set js_set_eq_Nil)
qed

text \<open>
  What the row of a tag shows: the state is enabled exactly when some channel of the tag
  is, and otherwise that of the first; its groups are those of its channels; the priority is the
  common one, or none when they differ, provided that no channel has the priority -1.
\<close>

theorem tag_row_shows:
  assumes "cs \<noteq> []" and "\<forall>c\<in>set cs. status c \<noteq> None \<and> plain_number (priority c)"
    and "\<forall>c\<in>set cs. tag_of c = t"
  shows "\<exists>row. aggregateChannelsByTag cs = [row] \<and>
    status row = (if \<exists>c\<in>set cs. status c = Some 1 then Some 1 else status (hd cs)) \<and>
    set (split_groups (group row)) = (\<Union>c\<in>set cs. set (split_groups (group c))) \<and>
    priority row = (if \<forall>c\<in>set cs. priority c = priority (hd cs) then priority (hd cs) else Null)"
proof -
  have "js_set (map tag_of cs) = [t]"
    using assms(1,3) by (intro js_set_const) auto
  moreover have "with_tag t cs = cs" using assms(3) by (simp add: with_tag_def)
  ultimately have "aggregateChannelsByTag cs = [row_of cs]" by (simp add: aggregate_rows)
  then show ?thesis
    using assms row_groups [of cs] row_status [of cs] fold_merge_number [of cs priority] row_priority [of cs] by simp
qed

lemma tag_row_shows_witness:
  "\<exists>row. aggregateChannelsByTag [sample_channel, sample_channel\<lparr>status := Some 1, priority := Num (num 7)\<rparr>] = [row] \<and>
     status row = Some 1 \<and> priority row = Null"
  using tag_row_shows [of "[sample_channel, sample_channel\<lparr>status := Some 1, priority := Num (num 7)\<rparr>]" "js ''t''"]
  by (simp add: sample_channel_def plain_number_def tag_of_def) blast

text \<open>
  The number -1 stands for "no channel added yet", so it is not usable as a priority: a tag
  with one channel of priority -1 and another of any priority shows the second one's priority, as
  if it were common to both.
\<close>

theorem negative_priority_hidden:
  "map priority (aggregateChannelsByTag [c\<lparr>priority := Num (num (- 1))\<rparr>, d\<lparr>tag := tag c\<rparr>]) = [priority d]"
proof -
  have "with_tag (tag_of c) [c\<lparr>priority := Num (num (- 1))\<rparr>, d\<lparr>tag := tag c\<rparr>] =
      [c\<lparr>priority := Num (num (- 1))\<rparr>, d\<lparr>tag := tag c\<rparr>]"
    by (simp add: with_tag_def tag_of_def)
  then show ?thesis
    by (simp add: aggregate_rows js_set_def set_add_def tag_of_def row_priority
        merge_number_def num_eq_def)
qed

end
