(* ===== verification/ChannelForm.thy ===== *)
theory ChannelForm
  imports ChannelTypes ModelMapping StatusCodeGuard
begin

text \<open>
  \<open>src/newapi/web/default/src/features/channels/lib/channel-form.ts\<close>: the form that creates and
  edits a channel. The schema checks the form; the defaults fill it from a channel; the payload
  functions turn it into the request, packing some fields into the JSON texts \<open>setting\<close> and
  \<open>settings\<close>.

  A form is the record \<open>ChannelFormValues\<close>. Optional strings are options. The fields that are read
  from a parsed JSON text without a check of their kind (the switches and the key types) are
  arbitrary JavaScript values (\<open>jsval\<close>), \<open>JUndef\<close> when absent. A payload is a JavaScript object,
  the list of its properties in order. Where the code can throw a \<open>TypeError\<close> the result is an
  option: \<open>None\<close> is the exception.

  Of the validation library the schema is built with, the model keeps what this file states: the
  conditions on the fields and the issues of \<open>superRefine\<close>, each a list of paths and messages
  (\<open>None\<close> for a message of the library). A form is accepted when both lists are empty.
\<close>

section \<open>Checks of single fields\<close>

text \<open>\<open>None\<close> is the exception of \<open>JSON.parse\<close>, \<open>JUndef\<close> the result for a blank text.\<close>

definition parseOptionalJson :: "jstr option \<Rightarrow> jsval option" where
  "parseOptionalJson v =
     (case v of
        None \<Rightarrow> Some JUndef
      | Some s \<Rightarrow> if trim s = [] then Some JUndef else json_parse s)"

definition isJsonObjectValue :: "jsval \<Rightarrow> bool" where
  "isJsonObjectValue v \<longleftrightarrow> is_object v \<and> v \<noteq> JNull \<and> \<not> is_array v"

definition isOptionalJsonObject :: "jstr option \<Rightarrow> bool" where
  "isOptionalJsonObject v \<longleftrightarrow>
     (case parseOptionalJson v of
        None \<Rightarrow> False
      | Some parsed \<Rightarrow> parsed = JUndef \<or> isJsonObjectValue parsed)"

definition isOptionalModelMapping :: "jstr option \<Rightarrow> bool" where
  "isOptionalModelMapping v \<longleftrightarrow>
     (case parseOptionalJson v of
        None \<Rightarrow> False
      | Some parsed \<Rightarrow>
          if parsed = JUndef then True
          else if \<not> isJsonObjectValue parsed then False
          else list_all (\<lambda>p. is_string (snd p)) (entries parsed))"

definition is_status_code :: "jsnum \<Rightarrow> bool" where
  "is_status_code x \<longleftrightarrow> num_is_integer x \<and> num_le (num 100) x \<and> num_le x (num 599)"

text \<open>\<open>Number\<close> of an object is \<open>NaN\<close> or throws, and the caller turns the exception into the same
  refusal.\<close>

definition isOptionalStatusCodeMapping :: "jstr option \<Rightarrow> bool" where
  "isOptionalStatusCodeMapping v \<longleftrightarrow>
     (case parseOptionalJson v of
        None \<Rightarrow> False
      | Some parsed \<Rightarrow>
          if parsed = JUndef then True
          else if \<not> isJsonObjectValue parsed then False
          else list_all (\<lambda>p. is_status_code (js_Number (fst p)) \<and> is_status_code (js_to_number (snd p)))
                 (entries parsed))"

fun nonblank_string :: "jsval \<Rightarrow> bool" where
  "nonblank_string (JStr s) = (length (trim s) > 0)"
| "nonblank_string _ = False"

definition isCodexCredential :: "jstr option \<Rightarrow> bool" where
  "isCodexCredential v \<longleftrightarrow>
     (case parseOptionalJson v of
        None \<Rightarrow> False
      | Some parsed \<Rightarrow>
          if parsed = JUndef then True
          else isJsonObjectValue parsed \<and>
            nonblank_string (get_prop (js ''access_token'') parsed) \<and>
            nonblank_string (get_prop (js ''account_id'') parsed))"

definition isVertexJsonKey :: "jstr option \<Rightarrow> bool" where
  "isVertexJsonKey v \<longleftrightarrow>
     (case parseOptionalJson v of
        None \<Rightarrow> False
      | Some parsed \<Rightarrow>
          if parsed = JUndef then True
          else (case parsed of
                  JArr vs \<Rightarrow> list_all isJsonObjectValue vs
                | _ \<Rightarrow> isJsonObjectValue parsed))"

section \<open>The form and its schema\<close>

datatype AddMode = Single | Batch | MultiToSingle

datatype KeyMode = Append | Replace

record ChannelFormValues =
  name :: jstr
  form_type :: int
  base_url :: "jstr option"
  key :: jstr
  openai_organization :: "jstr option"
  models :: jstr
  group :: "jstr list"
  model_mapping :: "jstr option"
  priority :: "jsnum option"
  weight :: "jsnum option"
  test_model :: "jstr option"
  auto_ban :: "int option"
  status :: "int option"
  status_code_mapping :: "jstr option"
  tag :: "jstr option"
  remark :: "jstr option"
  setting :: "jstr option"
  param_override :: "jstr option"
  header_override :: "jstr option"
  settings :: "jstr option"
  other :: "jstr option"
  multi_key_mode :: "AddMode option"
  multi_key_type :: "MultiKeyMode option"
  batch_add_set_key_prefix_2_name :: "bool option"
  key_mode :: "KeyMode option"
  force_format :: jsval
  thinking_to_content :: jsval
  proxy :: jsval
  pass_through_body_enabled :: jsval
  system_prompt :: jsval
  system_prompt_override :: jsval
  is_enterprise_account :: jsval
  vertex_key_type :: jsval
  aws_key_type :: jsval
  azure_responses_version :: jsval
  allow_service_tier :: jsval
  disable_store :: jsval
  allow_safety_identifier :: jsval
  allow_include_obfuscation :: jsval
  allow_inference_geo :: jsval
  allow_speed :: jsval
  claude_beta_query :: jsval
  upstream_model_update_check_enabled :: jsval
  upstream_model_update_auto_sync_enabled :: jsval
  upstream_model_update_ignored_models :: "jstr option"

type_synonym issue = "jstr \<times> jstr option"

definition issue_if :: "bool \<Rightarrow> jstr \<Rightarrow> jstr option \<Rightarrow> issue list" where
  "issue_if c path_name message = (if c then [(path_name, message)] else [])"

definition REQUIRED_NAME :: jstr where "REQUIRED_NAME = js ''Channel name is required''"
definition REQUIRED_TYPE :: jstr where "REQUIRED_TYPE = js ''Channel type is required''"
definition REQUIRED_MODELS :: jstr where "REQUIRED_MODELS = js ''Models are required''"
definition REQUIRED_GROUP :: jstr where "REQUIRED_GROUP = js ''Group is required''"
definition INVALID_JSON :: jstr where "INVALID_JSON = js ''Invalid JSON format''"

fun optional_bool :: "jsval \<Rightarrow> bool" where
  "optional_bool JUndef = True"
| "optional_bool (JBool _) = True"
| "optional_bool _ = False"

fun optional_string :: "jsval \<Rightarrow> bool" where
  "optional_string JUndef = True"
| "optional_string (JStr _) = True"
| "optional_string _ = False"

definition optional_enum :: "jstr list \<Rightarrow> jsval \<Rightarrow> bool" where
  "optional_enum es v \<longleftrightarrow> v = JUndef \<or> list_ex (\<lambda>e. v = JStr e) es"

text \<open>The object schema, field by field in its order. The fields whose type admits every value the
  form can hold give no issue.\<close>

definition field_issues :: "ChannelFormValues \<Rightarrow> issue list" where
  "field_issues f =
     issue_if (length (name f) < 1) (js ''name'') (Some REQUIRED_NAME) @
     issue_if (form_type f < 0) (js ''type'') (Some REQUIRED_TYPE) @
     issue_if (length (models f) < 1) (js ''models'') (Some REQUIRED_MODELS) @
     issue_if (length (group f) < 1) (js ''group'') (Some REQUIRED_GROUP) @
     issue_if (\<not> isOptionalModelMapping (model_mapping f)) (js ''model_mapping'')
       (Some (js ''Model mapping must be a JSON object with string values'')) @
     issue_if (\<not> isOptionalStatusCodeMapping (status_code_mapping f)) (js ''status_code_mapping'')
       (Some (js ''Status code mapping must use valid HTTP status codes'')) @
     issue_if (case remark f of None \<Rightarrow> False | Some r \<Rightarrow> length r > 255) (js ''remark'')
       (Some (js ''Remark must be less than 255 characters'')) @
     issue_if (\<not> isOptionalJsonObject (setting f)) (js ''setting'') (Some INVALID_JSON) @
     issue_if (\<not> isOptionalJsonObject (param_override f)) (js ''param_override'') (Some INVALID_JSON) @
     issue_if (\<not> isOptionalJsonObject (header_override f)) (js ''header_override'') (Some INVALID_JSON) @
     issue_if (\<not> isOptionalJsonObject (settings f)) (js ''settings'') (Some INVALID_JSON) @
     issue_if (\<not> optional_bool (force_format f)) (js ''force_format'') None @
     issue_if (\<not> optional_bool (thinking_to_content f)) (js ''thinking_to_content'') None @
     issue_if (\<not> optional_string (proxy f)) (js ''proxy'') None @
     issue_if (\<not> optional_bool (pass_through_body_enabled f)) (js ''pass_through_body_enabled'') None @
     issue_if (\<not> optional_string (system_prompt f)) (js ''system_prompt'') None @
     issue_if (\<not> optional_bool (system_prompt_override f)) (js ''system_prompt_override'') None @
     issue_if (\<not> optional_bool (is_enterprise_account f)) (js ''is_enterprise_account'') None @
     issue_if (\<not> optional_enum [js ''json'', js ''api_key''] (vertex_key_type f)) (js ''vertex_key_type'') None @
     issue_if (\<not> optional_enum [js ''ak_sk'', js ''api_key''] (aws_key_type f)) (js ''aws_key_type'') None @
     issue_if (\<not> optional_string (azure_responses_version f)) (js ''azure_responses_version'') None @
     issue_if (\<not> optional_bool (allow_service_tier f)) (js ''allow_service_tier'') None @
     issue_if (\<not> optional_bool (disable_store f)) (js ''disable_store'') None @
     issue_if (\<not> optional_bool (allow_safety_identifier f)) (js ''allow_safety_identifier'') None @
     issue_if (\<not> optional_bool (allow_include_obfuscation f)) (js ''allow_include_obfuscation'') None @
     issue_if (\<not> optional_bool (allow_inference_geo f)) (js ''allow_inference_geo'') None @
     issue_if (\<not> optional_bool (allow_speed f)) (js ''allow_speed'') None @
     issue_if (\<not> optional_bool (claude_beta_query f)) (js ''claude_beta_query'') None @
     issue_if (\<not> optional_bool (upstream_model_update_check_enabled f))
       (js ''upstream_model_update_check_enabled'') None @
     issue_if (\<not> optional_bool (upstream_model_update_auto_sync_enabled f))
       (js ''upstream_model_update_auto_sync_enabled'') None"

definition addRequiredIssue :: "jstr \<Rightarrow> jstr \<Rightarrow> issue list \<Rightarrow> issue list" where
  "addRequiredIssue path_name message issues = issues @ [(path_name, Some message)]"

definition blank :: "jstr option \<Rightarrow> bool" where
  "blank v \<longleftrightarrow> (case v of None \<Rightarrow> True | Some s \<Rightarrow> trim s = [])"

definition not_single :: "ChannelFormValues \<Rightarrow> bool" where
  "not_single f \<longleftrightarrow> (case multi_key_mode f of None \<Rightarrow> False | Some m \<Rightarrow> m \<noteq> Single)"

definition superRefine :: "ChannelFormValues \<Rightarrow> issue list" where
  "superRefine data =
     (let i = [];
          i = (if form_type data \<in> set [3, 8, 36, 45] \<and> blank (base_url data)
               then addRequiredIssue (js ''base_url'') (js ''Base URL is required for this channel type'') i else i);
          i = (if form_type data \<in> set [3, 18, 21, 39, 41, 49] \<and> blank (other data)
               then addRequiredIssue (js ''other'') (js ''This channel type requires additional configuration'') i else i);
          i = (if form_type data = 57 then
                 let i = (if not_single data
                          then addRequiredIssue (js ''multi_key_mode'') (js ''Codex channels do not support batch creation'') i
                          else i) in
                 if trim (key data) \<noteq> [] \<and> \<not> isCodexCredential (Some (key data))
                 then addRequiredIssue (js ''key'')
                        (js ''Codex credential must be a JSON object with access_token and account_id'') i
                 else i
               else i);
          i = (if form_type data = 41 \<and> vertex_key_type data = JStr (js ''json'') \<and> trim (key data) \<noteq> [] \<and>
                  \<not> isVertexJsonKey (Some (key data))
               then addRequiredIssue (js ''key'') (js ''Vertex AI service account key must be valid JSON'') i else i) in
      if form_type data = 41 \<and> vertex_key_type data = JStr (js ''api_key'') \<and> not_single data
      then addRequiredIssue (js ''multi_key_mode'')
             (js ''Vertex AI API Key mode does not support batch creation'') i
      else i)"

definition form_accepted :: "ChannelFormValues \<Rightarrow> bool" where
  "form_accepted f \<longleftrightarrow> field_issues f = [] \<and> superRefine f = []"

section \<open>Lists and defaults\<close>

definition validateJSON :: "jstr \<Rightarrow> bool" where
  "validateJSON v \<longleftrightarrow> v = [] \<or> trim v = [] \<or> json_parse v \<noteq> None"

definition validateModelMapping :: "jstr \<Rightarrow> bool" where
  "validateModelMapping v \<longleftrightarrow> v = [] \<or> trim v = [] \<or> validateJSON v"

definition parseModels :: "jstr \<Rightarrow> jstr list" where
  "parseModels ms = (if ms = [] then [] else csv_tokens comma ms)"

definition parseGroups :: "jstr \<Rightarrow> jstr list" where
  "parseGroups groups = (if groups = [] then [] else csv_tokens comma groups)"

definition formatModels :: "jstr list \<Rightarrow> jstr" where
  "formatModels ms = join [comma] ms"

definition formatGroups :: "jstr list \<Rightarrow> jstr" where
  "formatGroups groups = join [comma] groups"

lemma parseGroups_csv: "parseGroups = csv_tokens comma"
  by (rule ext) (simp add: parseGroups_def)

interpretation groups: csv_codec parseGroups formatGroups "\<lambda>gs. gs" comma
  by unfold_locales (auto simp: parseGroups_csv formatGroups_def csv_tokens_clean csv_tokens_join)

definition CHANNEL_FORM_DEFAULT_VALUES :: ChannelFormValues where
  "CHANNEL_FORM_DEFAULT_VALUES =
     \<lparr>name = [], form_type = 1, base_url = Some [], key = [], openai_organization = Some [],
      models = [], group = [js ''default''], model_mapping = Some [], priority = Some (num 0),
      weight = Some (num 0), test_model = Some [], auto_ban = Some 1, status = Some 1,
      status_code_mapping = Some [], tag = Some [], remark = Some [], setting = Some [],
      param_override = Some [], header_override = Some [], settings = Some (js ''{}''), other = Some [],
      multi_key_mode = Some Single, multi_key_type = Some Random,
      batch_add_set_key_prefix_2_name = Some False, key_mode = Some Append,
      force_format = JBool False, thinking_to_content = JBool False, proxy = JStr [],
      pass_through_body_enabled = JBool False, system_prompt = JStr [], system_prompt_override = JBool False,
      is_enterprise_account = JBool False, vertex_key_type = JStr (js ''json''),
      aws_key_type = JStr (js ''ak_sk''), azure_responses_version = JStr [],
      allow_service_tier = JBool False, disable_store = JBool False, allow_safety_identifier = JBool False,
      allow_include_obfuscation = JBool False, allow_inference_geo = JBool False, allow_speed = JBool False,
      claude_beta_query = JBool False, upstream_model_update_check_enabled = JBool False,
      upstream_model_update_auto_sync_enabled = JBool False, upstream_model_update_ignored_models = Some []\<rparr>"

section \<open>From a channel to the form\<close>

definition or_empty :: "jstr option \<Rightarrow> jstr" where
  "or_empty v = (case v of None \<Rightarrow> [] | Some s \<Rightarrow> s)"

definition is_true :: "jsval \<Rightarrow> jsval" where
  "is_true v = JBool (v = JBool True)"

text \<open>The parsed text of a field, or \<open>None\<close> where the code takes the defaults: the text is empty, it
  is not JSON, or it is \<open>null\<close>, of which no property can be read.\<close>

definition parsed_text :: "jstr option \<Rightarrow> jsval option" where
  "parsed_text v =
     (if or_empty v = [] then None
      else case json_parse (or_empty v) of
        None \<Rightarrow> None
      | Some parsed \<Rightarrow> if is_nullish parsed then None else Some parsed)"

definition read_or :: "jsval option \<Rightarrow> string \<Rightarrow> jsval \<Rightarrow> jsval" where
  "read_or parsed k dflt = (case parsed of None \<Rightarrow> dflt | Some v \<Rightarrow> js_or (get_prop (js k) v) dflt)"

definition read_true :: "jsval option \<Rightarrow> string \<Rightarrow> jsval" where
  "read_true parsed k = (case parsed of None \<Rightarrow> JBool False | Some v \<Rightarrow> is_true (get_prop (js k) v))"

text \<open>The ignored models are read last, so an exception of \<open>join\<close> leaves only them at their default.\<close>

definition read_ignored_models :: "jsval option \<Rightarrow> jstr" where
  "read_ignored_models parsed =
     (case parsed of
        None \<Rightarrow> []
      | Some v \<Rightarrow>
          (case get_prop (js ''upstream_model_update_ignored_models'') v of
             JArr vs \<Rightarrow> if conversion_throws (JArr vs) then [] else to_str (JArr vs)
           | _ \<Rightarrow> []))"

definition number_or_0 :: "nullable_num \<Rightarrow> jsnum" where
  "number_or_0 x = (case x of Num n \<Rightarrow> if truthy (JNum n) then n else num 0 | _ \<Rightarrow> num 0)"

definition transformChannelToFormDefaults :: "Channel \<Rightarrow> ChannelFormValues option" where
  "transformChannelToFormDefaults channel =
     (let extra = parsed_text (Channel.setting channel);
          parsed = parsed_text (Some (Channel.settings channel)) in
      case channel_info channel of
        None \<Rightarrow> None
      | Some info \<Rightarrow> Some
     \<lparr>name = Channel.name channel, form_type = chan_type channel,
      base_url = Some (or_empty (Channel.base_url channel)), key = [],
      openai_organization = Some (or_empty (Channel.openai_organization channel)),
      models = Channel.models channel,
      group = parseGroups (if Channel.group channel = [] then js ''default'' else Channel.group channel),
      model_mapping = Some (or_empty (Channel.model_mapping channel)),
      priority = Some (number_or_0 (Channel.priority channel)),
      weight = Some (number_or_0 (Channel.weight channel)),
      test_model = Some (or_empty (Channel.test_model channel)),
      auto_ban = Some (case Channel.auto_ban channel of None \<Rightarrow> 1 | Some n \<Rightarrow> n),
      status = Channel.status channel,
      status_code_mapping = Some (or_empty (Channel.status_code_mapping channel)),
      tag = Some (or_empty (Channel.tag channel)), remark = Some (Channel.remark channel),
      setting = Some (or_empty (Channel.setting channel)),
      param_override = Some (or_empty (Channel.param_override channel)),
      header_override = Some (or_empty (Channel.header_override channel)),
      settings = Some (if Channel.settings channel = [] then js ''{}'' else Channel.settings channel),
      other = Some (Channel.other channel),
      multi_key_mode = Some Single, multi_key_type = Some (ChannelTypes.multi_key_mode info),
      batch_add_set_key_prefix_2_name = Some False, key_mode = Some Append,
      force_format = read_or extra ''force_format'' (JBool False),
      thinking_to_content = read_or extra ''thinking_to_content'' (JBool False),
      proxy = read_or extra ''proxy'' (JStr []),
      pass_through_body_enabled = read_or extra ''pass_through_body_enabled'' (JBool False),
      system_prompt = read_or extra ''system_prompt'' (JStr []),
      system_prompt_override = read_or extra ''system_prompt_override'' (JBool False),
      is_enterprise_account = read_true parsed ''openrouter_enterprise'',
      vertex_key_type = read_or parsed ''vertex_key_type'' (JStr (js ''json'')),
      aws_key_type = read_or parsed ''aws_key_type'' (JStr (js ''ak_sk'')),
      azure_responses_version = read_or parsed ''azure_responses_version'' (JStr []),
      allow_service_tier = read_true parsed ''allow_service_tier'',
      disable_store = read_true parsed ''disable_store'',
      allow_safety_identifier = read_true parsed ''allow_safety_identifier'',
      allow_include_obfuscation = read_true parsed ''allow_include_obfuscation'',
      allow_inference_geo = read_true parsed ''allow_inference_geo'',
      allow_speed = read_true parsed ''allow_speed'',
      claude_beta_query = read_true parsed ''claude_beta_query'',
      upstream_model_update_check_enabled = read_true parsed ''upstream_model_update_check_enabled'',
      upstream_model_update_auto_sync_enabled = read_true parsed ''upstream_model_update_auto_sync_enabled'',
      upstream_model_update_ignored_models = Some (read_ignored_models parsed)\<rparr>)"

section \<open>The JSON texts a form carries\<close>

type_synonym jsobj = "(jstr \<times> jsval) list"

definition put :: "string \<Rightarrow> jsval \<Rightarrow> jsobj \<Rightarrow> jsobj" where
  "put k v ps = obj_set (js k) v ps"

definition drop_key :: "string \<Rightarrow> jsobj \<Rightarrow> jsobj" where
  "drop_key k ps = (if obj_has (js k) ps then obj_delete (js k) ps else ps)"

definition read :: "string \<Rightarrow> jsobj \<Rightarrow> jsval" where
  "read k ps = obj_get (js k) ps"

definition buildSettingJSON :: "ChannelFormValues \<Rightarrow> jstr" where
  "buildSettingJSON f =
     ser (JObj
       [(js ''force_format'', js_or (force_format f) (JBool False)),
        (js ''thinking_to_content'', js_or (thinking_to_content f) (JBool False)),
        (js ''proxy'', js_or (proxy f) (JStr [])),
        (js ''pass_through_body_enabled'', js_or (pass_through_body_enabled f) (JBool False)),
        (js ''system_prompt'', js_or (system_prompt f) (JStr [])),
        (js ''system_prompt_override'', js_or (system_prompt_override f) (JBool False))])"

text \<open>The updates of the settings object, in the order of the code.\<close>

definition set_vertex :: "ChannelFormValues \<Rightarrow> jsobj \<Rightarrow> jsobj" where
  "set_vertex f ps =
     (if form_type f = 41 then put ''vertex_key_type'' (js_or (vertex_key_type f) (JStr (js ''json''))) ps
      else drop_key ''vertex_key_type'' ps)"

definition set_azure :: "ChannelFormValues \<Rightarrow> jsobj \<Rightarrow> jsobj" where
  "set_azure f ps =
     (if form_type f = 3 \<and> truthy (azure_responses_version f)
      then put ''azure_responses_version'' (azure_responses_version f) ps
      else drop_key ''azure_responses_version'' ps)"

definition set_openrouter :: "ChannelFormValues \<Rightarrow> jsobj \<Rightarrow> jsobj" where
  "set_openrouter f ps =
     (if form_type f = 20 then put ''openrouter_enterprise'' (is_true (is_enterprise_account f)) ps
      else drop_key ''openrouter_enterprise'' ps)"

definition set_aws :: "ChannelFormValues \<Rightarrow> jsobj \<Rightarrow> jsobj" where
  "set_aws f ps =
     (if form_type f = 33 then put ''aws_key_type'' (js_or (aws_key_type f) (JStr (js ''ak_sk''))) ps
      else drop_key ''aws_key_type'' ps)"

definition set_service_tier :: "ChannelFormValues \<Rightarrow> jsobj \<Rightarrow> jsobj" where
  "set_service_tier f ps =
     (if form_type f = 1 \<or> form_type f = 14
      then put ''allow_service_tier'' (is_true (allow_service_tier f)) ps
      else drop_key ''allow_service_tier'' ps)"

definition set_openai :: "ChannelFormValues \<Rightarrow> jsobj \<Rightarrow> jsobj" where
  "set_openai f ps =
     (if form_type f = 1 then
        put ''allow_inference_geo'' (is_true (allow_inference_geo f))
          (put ''allow_include_obfuscation'' (is_true (allow_include_obfuscation f))
            (put ''allow_safety_identifier'' (is_true (allow_safety_identifier f))
              (put ''disable_store'' (is_true (disable_store f)) ps)))
      else
        let ps = drop_key ''disable_store'' ps;
            ps = drop_key ''allow_safety_identifier'' ps;
            ps = drop_key ''allow_include_obfuscation'' ps in
        if form_type f \<noteq> 14 then drop_key ''allow_inference_geo'' ps else ps)"

definition set_anthropic :: "ChannelFormValues \<Rightarrow> jsobj \<Rightarrow> jsobj" where
  "set_anthropic f ps =
     (if form_type f = 14 then
        put ''claude_beta_query'' (is_true (claude_beta_query f))
          (put ''allow_speed'' (is_true (allow_speed f))
            (put ''allow_inference_geo'' (is_true (allow_inference_geo f)) ps))
      else drop_key ''claude_beta_query'' (drop_key ''allow_speed'' ps))"

definition ignored_models :: "ChannelFormValues \<Rightarrow> jsval" where
  "ignored_models f =
     JArr (map JStr (js_set (csv_tokens comma (or_empty (upstream_model_update_ignored_models f)))))"

definition set_upstream :: "ChannelFormValues \<Rightarrow> jsobj \<Rightarrow> jsobj" where
  "set_upstream f ps =
     (if form_type f \<in> set MODEL_FETCHABLE_TYPES then
        let ps = put ''upstream_model_update_check_enabled'' (is_true (upstream_model_update_check_enabled f)) ps;
            ps = put ''upstream_model_update_auto_sync_enabled''
                   (JBool (read ''upstream_model_update_check_enabled'' ps = JBool True \<and>
                           upstream_model_update_auto_sync_enabled f = JBool True)) ps;
            ps = put ''upstream_model_update_ignored_models'' (ignored_models f) ps;
            ps = (if \<not> is_array (read ''upstream_model_update_last_detected_models'' ps) \<or>
                     read ''upstream_model_update_check_enabled'' ps \<noteq> JBool True
                  then put ''upstream_model_update_last_detected_models'' (JArr []) ps else ps) in
        if \<not> (case read ''upstream_model_update_last_check_time'' ps of JNum _ \<Rightarrow> True | _ \<Rightarrow> False)
        then put ''upstream_model_update_last_check_time'' (JNum (num 0)) ps else ps
      else ps)"

definition update_settings :: "ChannelFormValues \<Rightarrow> jsobj \<Rightarrow> jsobj" where
  "update_settings f ps =
     set_upstream f (set_anthropic f (set_openai f (set_service_tier f
       (set_aws f (set_openrouter f (set_azure f (set_vertex f ps)))))))"

text \<open>Text that is not JSON counts as no settings. Properties set on an array do not show when it
  is printed; on \<open>null\<close> and on primitive values the first access throws.\<close>

definition stored_settings :: "ChannelFormValues \<Rightarrow> jsval" where
  "stored_settings f =
     (let s = or_empty (settings f) in
      if s \<noteq> [] \<and> s \<noteq> js ''{}'' then
        (case json_parse s of None \<Rightarrow> JObj [] | Some v \<Rightarrow> v)
      else JObj [])"

definition buildSettingsJSON :: "ChannelFormValues \<Rightarrow> jstr option" where
  "buildSettingsJSON f =
     (case stored_settings f of
        JObj ps \<Rightarrow> Some (ser (JObj (update_settings f ps)))
      | JArr vs \<Rightarrow> Some (ser (JArr vs))
      | _ \<Rightarrow> None)"

section \<open>The payloads\<close>

definition normalizeBaseUrl :: "jstr option \<Rightarrow> jstr" where
  "normalizeBaseUrl v = rev (dropWhile (\<lambda>c. c = 47) (rev (trim (or_empty v))))"

definition or_null :: "jstr \<Rightarrow> jsval" where
  "or_null s = (if s = [] then JNull else JStr s)"

definition number_or_null :: "jsnum option \<Rightarrow> jsval" where
  "number_or_null x = (case x of Some n \<Rightarrow> if truthy (JNum n) then JNum n else JNull | None \<Rightarrow> JNull)"

definition int_val :: "int option \<Rightarrow> jsval" where
  "int_val x = (case x of Some n \<Rightarrow> JNum (num n) | None \<Rightarrow> JUndef)"

definition empty_to_null :: "jsobj \<Rightarrow> jsobj" where
  "empty_to_null ps = map (\<lambda>(k, v). (k, if v = JStr [] then JNull else v)) ps"

record CreatePayload =
  payload_mode :: AddMode
  payload_multi_key_mode :: "MultiKeyMode option"
  payload_batch_add_set_key_prefix_2_name :: "bool option"
  payload_channel :: jsobj

definition transformFormDataToCreatePayload :: "ChannelFormValues \<Rightarrow> CreatePayload option" where
  "transformFormDataToCreatePayload f =
     (let mode = (case multi_key_mode f of None \<Rightarrow> Single | Some m \<Rightarrow> m) in
      case buildSettingsJSON f of
        None \<Rightarrow> None
      | Some settings_text \<Rightarrow>
          let channel =
            [(js ''name'', JStr (name f)),
             (js ''type'', JNum (num (form_type f))),
             (js ''base_url'', or_null (normalizeBaseUrl (base_url f))),
             (js ''key'', JStr (key f)),
             (js ''openai_organization'', or_null (or_empty (openai_organization f))),
             (js ''models'', JStr (models f)),
             (js ''group'', JStr (formatGroups (group f))),
             (js ''model_mapping'', or_null (or_empty (model_mapping f))),
             (js ''priority'', number_or_null (priority f)),
             (js ''weight'', number_or_null (weight f)),
             (js ''test_model'', or_null (or_empty (test_model f))),
             (js ''auto_ban'', JNum (num (case auto_ban f of None \<Rightarrow> 1 | Some n \<Rightarrow> n))),
             (js ''status'', int_val (status f)),
             (js ''status_code_mapping'', or_null (or_empty (status_code_mapping f))),
             (js ''tag'', or_null (or_empty (tag f))),
             (js ''remark'', JStr (or_empty (remark f))),
             (js ''setting'', JStr (buildSettingJSON f)),
             (js ''param_override'', or_null (or_empty (param_override f))),
             (js ''header_override'', or_null (or_empty (header_override f))),
             (js ''settings'', JStr settings_text),
             (js ''other'', JStr (or_empty (other f)))] in
          Some \<lparr>payload_mode = mode,
            payload_multi_key_mode = (if mode = MultiToSingle then multi_key_type f else None),
            payload_batch_add_set_key_prefix_2_name =
              (if mode = Batch then batch_add_set_key_prefix_2_name f else None),
            payload_channel = empty_to_null channel\<rparr>)"

definition update_fields :: "ChannelFormValues \<Rightarrow> int \<Rightarrow> jstr \<Rightarrow> jsobj" where
  "update_fields f channelId settings_text =
     [(js ''id'', JNum (num channelId)),
      (js ''name'', JStr (name f)),
      (js ''type'', JNum (num (form_type f))),
      (js ''base_url'', or_null (normalizeBaseUrl (base_url f))),
      (js ''openai_organization'', or_null (or_empty (openai_organization f))),
      (js ''models'', JStr (models f)),
      (js ''group'', JStr (formatGroups (group f))),
      (js ''model_mapping'', or_null (or_empty (model_mapping f))),
      (js ''priority'', JNum (case priority f of None \<Rightarrow> num 0 | Some n \<Rightarrow> n)),
      (js ''weight'', JNum (case weight f of None \<Rightarrow> num 0 | Some n \<Rightarrow> n)),
      (js ''test_model'', or_null (or_empty (test_model f))),
      (js ''auto_ban'', JNum (num (case auto_ban f of None \<Rightarrow> 1 | Some n \<Rightarrow> n))),
      (js ''status'', int_val (status f)),
      (js ''status_code_mapping'', or_null (or_empty (status_code_mapping f))),
      (js ''tag'', or_null (or_empty (tag f))),
      (js ''remark'', JStr (or_empty (remark f))),
      (js ''setting'', JStr (buildSettingJSON f)),
      (js ''param_override'', or_null (or_empty (param_override f))),
      (js ''header_override'', or_null (or_empty (header_override f))),
      (js ''settings'', JStr settings_text),
      (js ''other'', JStr (or_empty (other f)))]"

definition clearable_fields :: "ChannelFormValues \<Rightarrow> jsobj" where
  "clearable_fields f =
     [(js ''base_url'', JStr (normalizeBaseUrl (base_url f))),
      (js ''openai_organization'', JStr (or_empty (openai_organization f))),
      (js ''test_model'', JStr (or_empty (test_model f))),
      (js ''tag'', JStr (or_empty (tag f))),
      (js ''remark'', JStr (or_empty (remark f))),
      (js ''model_mapping'', JStr (or_empty (model_mapping f))),
      (js ''status_code_mapping'', JStr (or_empty (status_code_mapping f))),
      (js ''param_override'', JStr (or_empty (param_override f))),
      (js ''header_override'', JStr (or_empty (header_override f)))]"

definition transformFormDataToUpdatePayload :: "ChannelFormValues \<Rightarrow> int \<Rightarrow> jsobj option" where
  "transformFormDataToUpdatePayload f channelId =
     (case buildSettingsJSON f of
        None \<Rightarrow> None
      | Some settings_text \<Rightarrow>
          let payload = update_fields f channelId settings_text;
              payload = (if key f \<noteq> [] \<and> trim (key f) \<noteq> [] then obj_set (js ''key'') (JStr (key f)) payload else payload);
              payload = empty_to_null payload in
          Some (foldl (\<lambda>p (k, v). obj_set k v p) payload (clearable_fields f)))"

section \<open>What the settings text holds\<close>

lemma map_of_put [simp]: "map_of (put k v ps) = (map_of ps)(js k \<mapsto> v)"
  by (simp add: put_def)

lemma map_of_obj_delete: "map_of (obj_delete k ps) = (map_of ps)(k := None)"
  by (induction ps) (auto simp: obj_delete_def fun_eq_iff)

lemma map_of_drop_key [simp]: "map_of (drop_key k ps) = (map_of ps)(js k := None)"
proof (cases "obj_has (js k) ps")
  case True
  then show ?thesis by (simp add: drop_key_def map_of_obj_delete)
next
  case False
  then have "map_of ps (js k) = None" by (simp add: obj_has_def map_of_eq_None_iff)
  with False show ?thesis by (simp add: drop_key_def fun_upd_idem)
qed

lemma read_map_of: "read k ps = (case map_of ps (js k) of None \<Rightarrow> JUndef | Some v \<Rightarrow> v)"
  by (simp add: read_def obj_get_def)

text \<open>The settings that the form manages, with the value each gets; \<open>None\<close> means that the key is
  removed. The settings of the model update are managed only for the types that have it.\<close>

definition only_for :: "bool \<Rightarrow> jsval \<Rightarrow> jsval option" where
  "only_for c v = (if c then Some v else None)"

definition set_all :: "('k \<times> 'v option) list \<Rightarrow> ('k \<rightharpoonup> 'v) \<Rightarrow> 'k \<rightharpoonup> 'v" where
  "set_all l m = foldl (\<lambda>m (k, v). m(k := v)) m l"

lemma set_all_Nil [simp]: "set_all [] m = m" by (simp add: set_all_def)

lemma set_all_Cons [simp]: "set_all ((k, v) # l) m = set_all l (m(k := v))"
  by (simp add: set_all_def)

lemma set_all_append: "set_all (l @ l') m = set_all l' (set_all l m)"
  by (simp add: set_all_def)

lemma set_all_lookup:
  "distinct (map fst l) \<Longrightarrow> set_all l m k = (case map_of l k of Some v \<Rightarrow> v | None \<Rightarrow> m k)"
proof (induction l arbitrary: m)
  case (Cons p l)
  obtain a v where p: "p = (a, v)" by force
  have IH: "set_all l m' k = (case map_of l k of Some v \<Rightarrow> v | None \<Rightarrow> m' k)" for m'
    using Cons by simp
  have "k = a \<Longrightarrow> map_of l k = None" using Cons.prems p by (simp add: map_of_eq_None_iff)
  with IH [of "m(a := v)"] show ?case by (cases "k = a") (auto simp: p split: option.split)
qed simp

definition type_settings :: "ChannelFormValues \<Rightarrow> (jstr \<times> jsval option) list" where
  "type_settings f =
     (let t = form_type f in
      [(js ''vertex_key_type'', only_for (t = 41) (js_or (vertex_key_type f) (JStr (js ''json'')))),
       (js ''azure_responses_version'',
         only_for (t = 3 \<and> truthy (azure_responses_version f)) (azure_responses_version f)),
       (js ''openrouter_enterprise'', only_for (t = 20) (is_true (is_enterprise_account f))),
       (js ''aws_key_type'', only_for (t = 33) (js_or (aws_key_type f) (JStr (js ''ak_sk'')))),
       (js ''allow_service_tier'', only_for (t = 1 \<or> t = 14) (is_true (allow_service_tier f))),
       (js ''disable_store'', only_for (t = 1) (is_true (disable_store f))),
       (js ''allow_safety_identifier'', only_for (t = 1) (is_true (allow_safety_identifier f))),
       (js ''allow_include_obfuscation'', only_for (t = 1) (is_true (allow_include_obfuscation f))),
       (js ''allow_inference_geo'', only_for (t = 1 \<or> t = 14) (is_true (allow_inference_geo f))),
       (js ''allow_speed'', only_for (t = 14) (is_true (allow_speed f))),
       (js ''claude_beta_query'', only_for (t = 14) (is_true (claude_beta_query f)))])"

definition update_check :: "ChannelFormValues \<Rightarrow> bool" where
  "update_check f \<longleftrightarrow> upstream_model_update_check_enabled f = JBool True"

definition detected_models :: "ChannelFormValues \<Rightarrow> jsval option \<Rightarrow> jsval" where
  "detected_models f old =
     (case old of Some (JArr vs) \<Rightarrow> if update_check f then JArr vs else JArr [] | _ \<Rightarrow> JArr [])"

definition check_time :: "jsval option \<Rightarrow> jsval" where
  "check_time old = (case old of Some (JNum x) \<Rightarrow> JNum x | _ \<Rightarrow> JNum (num 0))"

definition upstream_settings :: "ChannelFormValues \<Rightarrow> (jstr \<rightharpoonup> jsval) \<Rightarrow> (jstr \<times> jsval option) list" where
  "upstream_settings f old =
     (if form_type f \<in> set MODEL_FETCHABLE_TYPES then
        [(js ''upstream_model_update_check_enabled'', Some (JBool (update_check f))),
         (js ''upstream_model_update_auto_sync_enabled'',
           Some (JBool (update_check f \<and> upstream_model_update_auto_sync_enabled f = JBool True))),
         (js ''upstream_model_update_ignored_models'', Some (ignored_models f)),
         (js ''upstream_model_update_last_detected_models'',
           Some (detected_models f (old (js ''upstream_model_update_last_detected_models'')))),
         (js ''upstream_model_update_last_check_time'',
           Some (check_time (old (js ''upstream_model_update_last_check_time''))))]
      else [])"

definition expected_settings :: "ChannelFormValues \<Rightarrow> (jstr \<rightharpoonup> jsval) \<Rightarrow> jstr \<rightharpoonup> jsval" where
  "expected_settings f old = set_all (type_settings f @ upstream_settings f old) old"

lemmas type_updates = set_anthropic_def set_openai_def set_service_tier_def set_aws_def set_openrouter_def
  set_azure_def set_vertex_def

lemma map_of_first_settings:
  "map_of (set_service_tier f (set_aws f (set_openrouter f (set_azure f (set_vertex f ps))))) =
     set_all (take 5 (type_settings f)) (map_of ps)"
  by (simp add: type_updates type_settings_def only_for_def Let_def)

lemma map_of_last_settings:
  "map_of (set_anthropic f (set_openai f ps)) = set_all (drop 5 (type_settings f)) (map_of ps)"
proof -
  consider "form_type f = 1" | "form_type f = 14" | "form_type f \<noteq> 1" "form_type f \<noteq> 14" by blast
  then show ?thesis
    by cases (simp_all add: type_updates type_settings_def only_for_def Let_def)
qed

lemma map_of_type_settings:
  "map_of (set_anthropic f (set_openai f (set_service_tier f
       (set_aws f (set_openrouter f (set_azure f (set_vertex f ps))))))) = set_all (type_settings f) (map_of ps)"
  unfolding map_of_last_settings map_of_first_settings set_all_append [symmetric] by simp

lemma put_detected:
  assumes "m (js k) = map_of ps (js k)"
  shows "map_of (if \<not> is_array (read k ps) \<or> c \<noteq> JBool True then put k (JArr []) ps else ps) =
    (map_of ps)(js k \<mapsto> (case m (js k) of Some (JArr vs) \<Rightarrow> if c = JBool True then JArr vs else JArr [] | _ \<Rightarrow> JArr []))"
  unfolding assms by (auto simp: read_map_of fun_upd_idem split: option.split jsval.split)

lemma put_time:
  assumes "m (js k) = map_of ps (js k)"
  shows "map_of (if \<not> (case read k ps of JNum _ \<Rightarrow> True | _ \<Rightarrow> False) then put k (JNum (num 0)) ps else ps) =
    (map_of ps)(js k \<mapsto> check_time (m (js k)))"
  unfolding assms by (auto simp: read_map_of check_time_def fun_upd_idem split: option.split jsval.split)

definition put_upstream :: "ChannelFormValues \<Rightarrow> jsobj \<Rightarrow> jsobj" where
  "put_upstream f ps =
     put ''upstream_model_update_ignored_models'' (ignored_models f)
      (put ''upstream_model_update_auto_sync_enabled''
        (JBool (update_check f \<and> upstream_model_update_auto_sync_enabled f = JBool True))
        (put ''upstream_model_update_check_enabled'' (JBool (update_check f)) ps))"

lemma map_of_put_upstream:
  "map_of (put_upstream f ps) = (map_of ps)
     (js ''upstream_model_update_check_enabled'' \<mapsto> JBool (update_check f),
      js ''upstream_model_update_auto_sync_enabled'' \<mapsto>
        JBool (update_check f \<and> upstream_model_update_auto_sync_enabled f = JBool True),
      js ''upstream_model_update_ignored_models'' \<mapsto> ignored_models f)"
  by (simp add: put_upstream_def)

lemma set_upstream_eq:
  "set_upstream f ps =
     (if form_type f \<in> set MODEL_FETCHABLE_TYPES then
        let ps = put_upstream f ps;
            ps = (if \<not> is_array (read ''upstream_model_update_last_detected_models'' ps) \<or>
                     JBool (update_check f) \<noteq> JBool True
                  then put ''upstream_model_update_last_detected_models'' (JArr []) ps else ps) in
        if \<not> (case read ''upstream_model_update_last_check_time'' ps of JNum _ \<Rightarrow> True | _ \<Rightarrow> False)
        then put ''upstream_model_update_last_check_time'' (JNum (num 0)) ps else ps
      else ps)"
proof -
  have "read ''upstream_model_update_check_enabled'' (put ''upstream_model_update_check_enabled'' v ps) = v" for v ps
    by (simp add: read_map_of)
  moreover have "read ''upstream_model_update_check_enabled'' (put_upstream f ps) = JBool (update_check f)"
    by (simp add: read_map_of map_of_put_upstream)
  ultimately show ?thesis
    by (simp only: set_upstream_def Let_def put_upstream_def is_true_def update_check_def jsval.inject eq_True)
qed

lemma map_of_set_upstream: "map_of (set_upstream f ps) = set_all (upstream_settings f (map_of ps)) (map_of ps)"
proof (cases "form_type f \<in> set MODEL_FETCHABLE_TYPES")
  case True
  define qs where "qs = put_upstream f ps"
  define rs where "rs = (if \<not> is_array (read ''upstream_model_update_last_detected_models'' qs) \<or>
                     JBool (update_check f) \<noteq> JBool True
                  then put ''upstream_model_update_last_detected_models'' (JArr []) qs else qs)"
  have rs: "map_of rs = (map_of qs)(js ''upstream_model_update_last_detected_models'' \<mapsto>
      detected_models f (map_of ps (js ''upstream_model_update_last_detected_models'')))"
    unfolding rs_def
    by (subst put_detected [where m = "map_of ps"])
       (simp_all add: qs_def map_of_put_upstream detected_models_def cong: option.case_cong jsval.case_cong)
  have "set_upstream f ps =
      (if \<not> (case read ''upstream_model_update_last_check_time'' rs of JNum _ \<Rightarrow> True | _ \<Rightarrow> False)
        then put ''upstream_model_update_last_check_time'' (JNum (num 0)) rs else rs)"
    using True by (simp only: set_upstream_eq Let_def qs_def rs_def if_True)
  then have "map_of (set_upstream f ps) = (map_of rs)(js ''upstream_model_update_last_check_time'' \<mapsto>
      check_time (map_of ps (js ''upstream_model_update_last_check_time'')))"
    by (simp only:) (rule put_time, simp add: rs qs_def map_of_put_upstream)
  then show ?thesis using True
    by (simp add: upstream_settings_def rs qs_def map_of_put_upstream)
next
  case False
  then show ?thesis by (simp add: set_upstream_def upstream_settings_def)
qed

lemma type_settings_keys:
  "map fst (type_settings f) = map js [''vertex_key_type'', ''azure_responses_version'', ''openrouter_enterprise'',
     ''aws_key_type'', ''allow_service_tier'', ''disable_store'', ''allow_safety_identifier'',
     ''allow_include_obfuscation'', ''allow_inference_geo'', ''allow_speed'', ''claude_beta_query'']"
  by (simp add: type_settings_def Let_def)

lemma type_settings_other:
  "map_of (type_settings f) (js ''upstream_model_update_last_detected_models'') = None"
  "map_of (type_settings f) (js ''upstream_model_update_last_check_time'') = None"
  by (simp_all add: type_settings_def Let_def)

lemma distinct_type_settings: "distinct (map fst (type_settings f))"
  unfolding type_settings_keys by simp

lemma update_settings_map: "map_of (update_settings f ps) = expected_settings f (map_of ps)"
proof -
  have "upstream_settings f (set_all (type_settings f) (map_of ps)) = upstream_settings f (map_of ps)"
    unfolding upstream_settings_def set_all_lookup [OF distinct_type_settings] type_settings_other by simp
  then show ?thesis
    unfolding update_settings_def map_of_set_upstream map_of_type_settings
    by (simp add: expected_settings_def set_all_append)
qed

lemma expected_settings_other:
  assumes "k \<notin> fst ` set (type_settings f)" "k \<notin> fst ` set (upstream_settings f old)"
  shows "expected_settings f old k = old k"
proof -
  have "k \<notin> fst ` set l \<Longrightarrow> set_all l m k = m k" for l :: "(jstr \<times> jsval option) list" and m
    by (induction l arbitrary: m) auto
  with assms show ?thesis by (simp add: expected_settings_def set_all_append)
qed

lemma auto_sync_checked:
  assumes "form_type f \<in> set MODEL_FETCHABLE_TYPES"
  shows "expected_settings f old (js ''upstream_model_update_auto_sync_enabled'') =
      Some (JBool (update_check f \<and> upstream_model_update_auto_sync_enabled f = JBool True))"
    "expected_settings f old (js ''upstream_model_update_check_enabled'') = Some (JBool (update_check f))"
  using assms by (simp_all add: expected_settings_def set_all_append upstream_settings_def)

text \<open>
  C2. Saving a channel rewrites exactly the settings that the form manages: each key of the
  stored object has afterwards the value that the table \<open>expected_settings\<close> gives (settings of
  other channel types are removed, those of this type are set), every other key keeps its value,
  and automatic synchronisation is on only when the check for updates is.
\<close>

theorem settings_rebuilt:
  assumes "stored_settings f = JObj ps"
  shows "\<exists>qs. buildSettingsJSON f = Some (ser (JObj qs)) \<and>
    map_of qs = expected_settings f (map_of ps) \<and>
    (\<forall>k. k \<notin> fst ` set (type_settings f) \<longrightarrow> k \<notin> fst ` set (upstream_settings f (map_of ps)) \<longrightarrow>
       map_of qs k = map_of ps k) \<and>
    (form_type f \<in> set MODEL_FETCHABLE_TYPES \<longrightarrow>
       map_of qs (js ''upstream_model_update_auto_sync_enabled'') = Some (JBool True) \<longrightarrow>
       map_of qs (js ''upstream_model_update_check_enabled'') = Some (JBool True))"
proof (intro exI conjI)
  show "buildSettingsJSON f = Some (ser (JObj (update_settings f ps)))"
    by (simp only: buildSettingsJSON_def assms jsval.case)
  show m: "map_of (update_settings f ps) = expected_settings f (map_of ps)" by (rule update_settings_map)
  show "\<forall>k. k \<notin> fst ` set (type_settings f) \<longrightarrow> k \<notin> fst ` set (upstream_settings f (map_of ps)) \<longrightarrow>
       map_of (update_settings f ps) k = map_of ps k"
    unfolding m using expected_settings_other by blast
  show "form_type f \<in> set MODEL_FETCHABLE_TYPES \<longrightarrow>
       map_of (update_settings f ps) (js ''upstream_model_update_auto_sync_enabled'') = Some (JBool True) \<longrightarrow>
       map_of (update_settings f ps) (js ''upstream_model_update_check_enabled'') = Some (JBool True)"
    unfolding m using auto_sync_checked [of f "map_of ps"] by simp
qed

text \<open>A form whose settings text is blank, and one that keeps a foreign setting.\<close>

lemma settings_rebuilt_witness:
  "\<exists>qs. buildSettingsJSON CHANNEL_FORM_DEFAULT_VALUES = Some (ser (JObj qs)) \<and>
     map_of qs (js ''allow_service_tier'') = Some (JBool False) \<and> map_of qs (js ''vertex_key_type'') = None"
proof -
  let ?f = CHANNEL_FORM_DEFAULT_VALUES
  have st: "stored_settings ?f = JObj []"
    by (simp add: stored_settings_def CHANNEL_FORM_DEFAULT_VALUES_def or_empty_def)
  have "expected_settings ?f (map_of []) (js ''allow_service_tier'') = Some (JBool False)"
    "expected_settings ?f (map_of []) (js ''vertex_key_type'') = None"
    by (simp_all add: expected_settings_def set_all_append upstream_settings_def type_settings_def only_for_def
        CHANNEL_FORM_DEFAULT_VALUES_def Let_def is_true_def)
  with settings_rebuilt [OF st] show ?thesis by metis
qed

subsection \<open>Saving again changes nothing\<close>

lemma json_ok_put: "json_ok (JObj ps) \<Longrightarrow> json_ok v \<Longrightarrow> json_ok (JObj (put k v ps))"
  using set_obj_set [of "js k" v ps] by (auto simp: put_def obj_wf_set)

lemma json_ok_drop: "json_ok (JObj ps) \<Longrightarrow> json_ok (JObj (drop_key k ps))"
  by (auto simp: drop_key_def obj_wf_delete) (auto simp: obj_delete_def)

definition plain_value :: "jsval \<Rightarrow> bool" where
  "plain_value v \<longleftrightarrow> v = JUndef \<or> (\<exists>b. v = JBool b) \<or> (\<exists>s. v = JStr s)"

lemma json_ok_plain: "plain_value v \<Longrightarrow> json_ok w \<Longrightarrow> json_ok (js_or v w)"
  by (auto simp: plain_value_def js_or_def)

lemma json_ok_plain_truthy: "plain_value v \<Longrightarrow> truthy v \<Longrightarrow> json_ok v"
  by (auto simp: plain_value_def)

lemma num_ok_zero [simp]: "num_ok (Fin 0)"
  using num_ok_nat [of 0] by simp

lemma json_ok_simple [simp]:
  "json_ok (is_true v)" "json_ok (ignored_models f)" "json_ok (JNum (num 0))"
  by (auto simp: is_true_def ignored_models_def)

lemma json_ok_if: "json_ok (JObj a) \<Longrightarrow> json_ok (JObj b) \<Longrightarrow> json_ok (JObj (if c then a else b))"
  by simp

lemma json_ok_upstream: "json_ok (JObj ps) \<Longrightarrow> json_ok (JObj (set_upstream f ps))"
  unfolding set_upstream_def Let_def
  by (intro json_ok_if json_ok_put; (assumption | simp))

lemma update_settings_json_ok:
  assumes "json_ok (JObj ps)" "plain_value (vertex_key_type f)" "plain_value (aws_key_type f)"
    "plain_value (azure_responses_version f)"
  shows "json_ok (JObj (update_settings f ps))"
proof -
  note j = json_ok_put json_ok_drop json_ok_plain json_ok_plain_truthy
  have 1: "json_ok (JObj (set_vertex f ps))"
    using assms by (simp add: set_vertex_def j del: json_ok.simps(7))
  then have 2: "json_ok (JObj (set_azure f (set_vertex f ps)))"
    using assms by (simp add: set_azure_def j del: json_ok.simps(7))
  then have 3: "json_ok (JObj (set_aws f (set_openrouter f (set_azure f (set_vertex f ps)))))"
    using assms by (simp add: set_aws_def set_openrouter_def j del: json_ok.simps(7))
  then have 4: "json_ok (JObj (set_anthropic f (set_openai f (set_service_tier f (set_aws f (set_openrouter f
      (set_azure f (set_vertex f ps))))))))"
    by (simp add: set_anthropic_def set_openai_def set_service_tier_def Let_def j del: json_ok.simps(7))
  then show ?thesis
    unfolding update_settings_def by (rule json_ok_upstream)
qed

lemma put_same: "map_of ps (js k) = Some v \<Longrightarrow> put k v ps = ps"
  by (force simp: put_def obj_set_def update_triv dest: map_of_SomeD)

lemma drop_absent: "map_of ps (js k) = None \<Longrightarrow> drop_key k ps = ps"
  by (auto simp: drop_key_def obj_has_def map_of_eq_None_iff)

lemma expected_type_setting:
  assumes "map_of (type_settings f) (js k) = Some v" "js k \<notin> fst ` set (upstream_settings f old)"
  shows "expected_settings f old (js k) = v"
proof -
  have "k' \<notin> fst ` set l \<Longrightarrow> set_all l m k' = m k'" for l :: "(jstr \<times> jsval option) list" and m k'
    by (induction l arbitrary: m) auto
  with assms show ?thesis
    by (simp add: expected_settings_def set_all_append set_all_lookup [OF distinct_type_settings])
qed

text \<open>An object that already holds the expected settings is left as it is.\<close>

lemma settled_type_settings:
  assumes "\<And>k v. (js k, v) \<in> set (type_settings f) \<Longrightarrow> map_of qs (js k) = v"
  shows "set_anthropic f (set_openai f (set_service_tier f
       (set_aws f (set_openrouter f (set_azure f (set_vertex f qs)))))) = qs"
proof -
  have m: "map_of (type_settings f) (js k) = Some v \<Longrightarrow> map_of qs (js k) = v" for k v
    using assms by (blast dest: map_of_SomeD)
  have 1: "set_vertex f qs = qs" "set_azure f qs = qs" "set_openrouter f qs = qs" "set_aws f qs = qs"
    "set_service_tier f qs = qs"
    using m [of "''vertex_key_type''"] m [of "''azure_responses_version''"] m [of "''openrouter_enterprise''"]
      m [of "''aws_key_type''"] m [of "''allow_service_tier''"]
    by (auto simp: type_updates type_settings_def only_for_def Let_def put_same drop_absent)
  have k: "map_of qs (js ''disable_store'') = only_for (form_type f = 1) (is_true (disable_store f))"
    "map_of qs (js ''allow_safety_identifier'') = only_for (form_type f = 1) (is_true (allow_safety_identifier f))"
    "map_of qs (js ''allow_include_obfuscation'') = only_for (form_type f = 1) (is_true (allow_include_obfuscation f))"
    "map_of qs (js ''allow_inference_geo'') =
       only_for (form_type f = 1 \<or> form_type f = 14) (is_true (allow_inference_geo f))"
    "map_of qs (js ''allow_speed'') = only_for (form_type f = 14) (is_true (allow_speed f))"
    "map_of qs (js ''claude_beta_query'') = only_for (form_type f = 14) (is_true (claude_beta_query f))"
    by (rule m, simp add: type_settings_def Let_def)+
  have 2: "set_openai f qs = qs"
    using k by (simp add: set_openai_def only_for_def put_same drop_absent Let_def)
  have 3: "set_anthropic f qs = qs"
    using k by (simp add: set_anthropic_def only_for_def put_same drop_absent)
  show ?thesis by (simp only: 1 2 3)
qed

lemma settled_upstream:
  assumes "\<And>k v. (js k, Some v) \<in> set (upstream_settings f old) \<Longrightarrow> map_of qs (js k) = Some v"
  shows "set_upstream f qs = qs"
proof (cases "form_type f \<in> set MODEL_FETCHABLE_TYPES")
  case True
  have k: "map_of qs (js ''upstream_model_update_check_enabled'') = Some (JBool (update_check f))"
    "map_of qs (js ''upstream_model_update_auto_sync_enabled'') =
       Some (JBool (update_check f \<and> upstream_model_update_auto_sync_enabled f = JBool True))"
    "map_of qs (js ''upstream_model_update_ignored_models'') = Some (ignored_models f)"
    "map_of qs (js ''upstream_model_update_last_detected_models'') =
       Some (detected_models f (old (js ''upstream_model_update_last_detected_models'')))"
    "map_of qs (js ''upstream_model_update_last_check_time'') =
       Some (check_time (old (js ''upstream_model_update_last_check_time'')))"
    by (rule assms, use True in \<open>simp add: upstream_settings_def\<close>)+
  have p: "put_upstream f qs = qs" by (simp add: put_upstream_def put_same k)
  have d: "detected_models f o' = JArr [] \<or> is_array (detected_models f o') \<and> update_check f" for o'
    by (auto simp: detected_models_def split: option.split jsval.split)
  have t: "case check_time o' of JNum _ \<Rightarrow> True | _ \<Rightarrow> False" for o'
    by (auto simp: check_time_def split: option.split jsval.split)
  show ?thesis
    using True d [of "old (js ''upstream_model_update_last_detected_models'')"]
      t [of "old (js ''upstream_model_update_last_check_time'')"]
    by (auto simp: set_upstream_eq p Let_def read_map_of k put_same)
next
  case False
  then show ?thesis by (simp add: set_upstream_def)
qed

lemma distinct_all_settings: "distinct (map fst (type_settings f @ upstream_settings f old))"
  by (cases "form_type f \<in> set MODEL_FETCHABLE_TYPES")
     (simp_all add: type_settings_def upstream_settings_def Let_def)

lemma expected_settings_lookup:
  "(k, v) \<in> set (type_settings f @ upstream_settings f old) \<Longrightarrow> expected_settings f old k = v"
  unfolding expected_settings_def set_all_lookup [OF distinct_all_settings]
  using distinct_all_settings by (metis map_of_is_SomeI option.simps(5))

lemma update_settings_idem: "update_settings f (update_settings f ps) = update_settings f ps"
proof -
  let ?qs = "update_settings f ps"
  have e: "map_of ?qs k = v" if "(k, v) \<in> set (type_settings f @ upstream_settings f (map_of ps))" for k v
    using expected_settings_lookup [OF that] by (simp only: update_settings_map)
  have u: "set_upstream f ?qs = ?qs"
    by (rule settled_upstream [of f "map_of ps"]) (rule e, simp)
  show ?thesis
    unfolding update_settings_def [of f ?qs]
    by (subst settled_type_settings) (rule e, simp, rule u)
qed

lemma field_frames:
  "form_type (f\<lparr>settings := t\<rparr>) = form_type f"
  "vertex_key_type (f\<lparr>settings := t\<rparr>) = vertex_key_type f"
  "azure_responses_version (f\<lparr>settings := t\<rparr>) = azure_responses_version f"
  "is_enterprise_account (f\<lparr>settings := t\<rparr>) = is_enterprise_account f"
  "aws_key_type (f\<lparr>settings := t\<rparr>) = aws_key_type f"
  "allow_service_tier (f\<lparr>settings := t\<rparr>) = allow_service_tier f"
  "disable_store (f\<lparr>settings := t\<rparr>) = disable_store f"
  "allow_safety_identifier (f\<lparr>settings := t\<rparr>) = allow_safety_identifier f"
  "allow_include_obfuscation (f\<lparr>settings := t\<rparr>) = allow_include_obfuscation f"
  "allow_inference_geo (f\<lparr>settings := t\<rparr>) = allow_inference_geo f"
  "allow_speed (f\<lparr>settings := t\<rparr>) = allow_speed f"
  "claude_beta_query (f\<lparr>settings := t\<rparr>) = claude_beta_query f"
  "upstream_model_update_check_enabled (f\<lparr>settings := t\<rparr>) = upstream_model_update_check_enabled f"
  "upstream_model_update_auto_sync_enabled (f\<lparr>settings := t\<rparr>) = upstream_model_update_auto_sync_enabled f"
  "upstream_model_update_ignored_models (f\<lparr>settings := t\<rparr>) = upstream_model_update_ignored_models f"
  by simp_all

lemma update_frames:
  "set_vertex (f\<lparr>settings := t\<rparr>) = set_vertex f" "set_azure (f\<lparr>settings := t\<rparr>) = set_azure f"
  "set_openrouter (f\<lparr>settings := t\<rparr>) = set_openrouter f" "set_aws (f\<lparr>settings := t\<rparr>) = set_aws f"
  "set_service_tier (f\<lparr>settings := t\<rparr>) = set_service_tier f"
  "set_openai (f\<lparr>settings := t\<rparr>) = set_openai f" "set_anthropic (f\<lparr>settings := t\<rparr>) = set_anthropic f"
  by (rule ext, simp only: type_updates field_frames)+

lemma upstream_frame: "set_upstream (f\<lparr>settings := t\<rparr>) = set_upstream f"
  by (rule ext) (simp only: set_upstream_def ignored_models_def field_frames)

lemma update_settings_frame: "update_settings (f\<lparr>settings := t\<rparr>) ps = update_settings f ps"
  by (simp only: update_settings_def update_frames upstream_frame)

lemma issue_if_Nil [simp]: "issue_if c p m = [] \<longleftrightarrow> \<not> c"
  by (simp add: issue_if_def)

lemma accepted_fields:
  assumes "field_issues f = []"
  shows "isOptionalJsonObject (settings f)" "plain_value (vertex_key_type f)" "plain_value (aws_key_type f)"
    "plain_value (azure_responses_version f)"
proof -
  have "optional_enum es v \<Longrightarrow> plain_value v" "optional_string v \<Longrightarrow> plain_value v" for es v
    by (auto simp: optional_enum_def plain_value_def list_ex_iff elim: optional_string.elims)
  moreover have "isOptionalJsonObject (settings f)"
    "optional_enum [js ''json'', js ''api_key''] (vertex_key_type f)"
    "optional_enum [js ''ak_sk'', js ''api_key''] (aws_key_type f)"
    "optional_string (azure_responses_version f)"
    using assms unfolding field_issues_def append_is_Nil_conv issue_if_Nil not_not by simp_all
  ultimately show "isOptionalJsonObject (settings f)" "plain_value (vertex_key_type f)"
    "plain_value (aws_key_type f)" "plain_value (azure_responses_version f)" by simp_all
qed

lemma accepted_settings_object:
  assumes "isOptionalJsonObject (settings f)"
  shows "\<exists>ps. stored_settings f = JObj ps"
proof (cases "trim (or_empty (settings f)) = []")
  case True
  then have "json_parse (or_empty (settings f)) = None"
    by (intro json_parse_blank) (simp add: trim_eq_Nil)
  then show ?thesis by (simp add: stored_settings_def Let_def)
next
  case False
  with assms obtain v where "json_parse (or_empty (settings f)) = Some v" "v = JUndef \<or> isJsonObjectValue v"
    by (auto simp: isOptionalJsonObject_def parseOptionalJson_def or_empty_def split: option.splits)
  moreover from this(1) have "v \<noteq> JUndef" using json_parse_not_undef by blast
  ultimately show ?thesis
    by (cases v) (auto simp: stored_settings_def Let_def isJsonObjectValue_def)
qed

lemma stored_printed:
  assumes ok: "json_ok (JObj qs)" and s: "settings f = Some (ser (JObj qs))"
  shows "stored_settings f = JObj qs"
proof -
  have p: "json_parse (ser (JObj qs)) = Some (JObj qs)" using ok by (rule json_roundtrip)
  have "ser (JObj qs) \<noteq> []" using json_ok_ser_hd [OF ok] by blast
  moreover have "ser (JObj qs) = js ''{}'' \<Longrightarrow> qs = []"
  proof -
    assume e: "ser (JObj qs) = js ''{}''"
    have "json_ok (JObj [])" by (simp add: obj_wf_def)
    then have "json_parse (ser (JObj [])) = Some (JObj [])" by (rule json_roundtrip)
    moreover have "ser (JObj []) = js ''{}''" by (simp add: js_def)
    ultimately show "qs = []" using p e by simp
  qed
  ultimately show ?thesis
    using p s by (auto simp: stored_settings_def or_empty_def Let_def simp del: ser.simps)
qed

text \<open>
  For a form the schema accepts, storing the settings text that was built and saving the form
  again builds the same text.
\<close>

lemma settings_stable:
  assumes "field_issues f = []" "json_ok (stored_settings f)"
  shows "\<exists>t. buildSettingsJSON f = Some t \<and> buildSettingsJSON (f\<lparr>settings := Some t\<rparr>) = Some t"
proof -
  obtain ps where ps: "stored_settings f = JObj ps"
    using accepted_settings_object [OF accepted_fields(1) [OF assms(1)]] by blast
  define qs where "qs = update_settings f ps"
  have ok: "json_ok (JObj qs)"
    using update_settings_json_ok [of ps f] accepted_fields [OF assms(1)] assms(2) by (simp only: ps qs_def)
  have b: "buildSettingsJSON f = Some (ser (JObj qs))" by (simp only: buildSettingsJSON_def ps jsval.case qs_def)
  have "stored_settings (f\<lparr>settings := Some (ser (JObj qs))\<rparr>) = JObj qs"
    by (rule stored_printed [OF ok]) simp
  then have "buildSettingsJSON (f\<lparr>settings := Some (ser (JObj qs))\<rparr>) = Some (ser (JObj qs))"
    by (simp only: buildSettingsJSON_def jsval.case update_settings_frame qs_def update_settings_idem)
  with b show ?thesis by blast
qed

definition sample_form :: ChannelFormValues where
  "sample_form = CHANNEL_FORM_DEFAULT_VALUES\<lparr>name := js ''n'', models := js ''m''\<rparr>"

lemma sample_form_accepted: "field_issues sample_form = []"
proof -
  have "json_parse (js ''{}'') = Some (JObj [])"
    using json_roundtrip [of "JObj []"] by (simp add: obj_wf_def js_def)
  then show ?thesis
    by (simp add: field_issues_def issue_if_def sample_form_def CHANNEL_FORM_DEFAULT_VALUES_def
        isOptionalModelMapping_def isOptionalStatusCodeMapping_def isOptionalJsonObject_def parseOptionalJson_def
        optional_enum_def isJsonObjectValue_def)
qed

section \<open>What the update carries\<close>

lemma map_of_empty_to_null:
  "map_of (empty_to_null ps) k = map_option (\<lambda>v. if v = JStr [] then JNull else v) (map_of ps k)"
  unfolding empty_to_null_def map_of_map by simp

lemma map_of_foldl_set:
  "map_of (foldl (\<lambda>p (k, v). obj_set k v p) ps l) = map_of ps ++ map_of (rev l)"
proof (induction l arbitrary: ps)
  case (Cons a l)
  obtain k v where a: "a = (k, v)" by force
  have "map_of ps ++ map_of (rev (a # l)) = (map_of ps ++ [k \<mapsto> v]) ++ map_of (rev l)"
    by (simp only: a rev.simps map_of_append map_of.simps map_add_assoc fst_conv snd_conv)
  moreover have "map_of ps ++ [k \<mapsto> v] = (map_of ps)(k \<mapsto> v)" by simp
  ultimately show ?case by (simp only: a foldl_Cons prod.case Cons.IH map_of_obj_set)
qed simp

lemma map_of_rev_distinct: "distinct (map fst xs) \<Longrightarrow> map_of (rev xs) = map_of xs"
proof (rule ext)
  fix k assume d: "distinct (map fst xs)"
  then have d': "distinct (map fst (rev xs))" by (simp add: rev_map [symmetric])
  show "map_of (rev xs) k = map_of xs k"
  proof (cases "map_of xs k")
    case None
    then have "k \<notin> fst ` set (rev xs)" by (simp only: map_of_eq_None_iff set_rev not_False_eq_True)
    with None show ?thesis by (metis map_of_eq_None_iff)
  next
    case (Some v)
    then have "(k, v) \<in> set (rev xs)" by (simp add: map_of_SomeD)
    from map_of_is_SomeI [OF d' this] Some show ?thesis by simp
  qed
qed

lemma distinct_clearable: "distinct (map fst (clearable_fields f))"
  by (simp add: clearable_fields_def)

lemma update_payload_lookup:
  assumes "transformFormDataToUpdatePayload f i = Some p"
  shows "\<exists>t. buildSettingsJSON f = Some t \<and>
    (\<forall>k. map_of p k = (case map_of (clearable_fields f) k of
       Some v \<Rightarrow> Some v
     | None \<Rightarrow> map_option (\<lambda>v. if v = JStr [] then JNull else v)
         (if k = js ''key'' \<and> trim (key f) \<noteq> [] then Some (JStr (key f)) else map_of (update_fields f i t) k)))"
proof -
  obtain t where t: "buildSettingsJSON f = Some t"
    using assms by (auto simp: transformFormDataToUpdatePayload_def split: option.splits)
  have r: "map_of (rev (clearable_fields f)) = map_of (clearable_fields f)"
    by (rule map_of_rev_distinct [OF distinct_clearable])
  have ne: "trim (key f) \<noteq> [] \<Longrightarrow> key f \<noteq> []" by auto
  show ?thesis
    using assms ne unfolding transformFormDataToUpdatePayload_def t
    by (auto simp: Let_def map_of_foldl_set r map_add_def map_of_empty_to_null intro!: exI [of _ t] split: option.split)
qed

text \<open>
  An update never blanks what it should keep and always can clear what it should: the key
  of the channel is sent exactly when the form holds one that is not blank, the nine fields that
  may be cleared are sent as texts even when empty, and the base URL sent is trimmed and has no
  slash at its end.
\<close>

theorem update_payload_fields:
  assumes "transformFormDataToUpdatePayload f i = Some p"
  shows "obj_has (js ''key'') p = (trim (key f) \<noteq> []) \<and>
    (\<forall>(k, v)\<in>set (clearable_fields f). obj_get k p = v \<and> is_string v) \<and>
    obj_get (js ''id'') p = JNum (num i) \<and>
    obj_get (js ''base_url'') p = JStr (normalizeBaseUrl (base_url f)) \<and>
    (normalizeBaseUrl (base_url f) = [] \<or> last (normalizeBaseUrl (base_url f)) \<noteq> 47)"
proof -
  obtain t where look: "\<And>k. map_of p k = (case map_of (clearable_fields f) k of
       Some v \<Rightarrow> Some v
     | None \<Rightarrow> map_option (\<lambda>v. if v = JStr [] then JNull else v)
         (if k = js ''key'' \<and> trim (key f) \<noteq> [] then Some (JStr (key f)) else map_of (update_fields f i t) k))"
    using update_payload_lookup [OF assms] by blast
  have "map_of (clearable_fields f) (js ''key'') = None" "map_of (update_fields f i t) (js ''key'') = None"
    by (simp_all add: clearable_fields_def update_fields_def)
  then have 1: "obj_has (js ''key'') p = (trim (key f) \<noteq> [])"
  proof (cases "trim (key f) = []")
    case True
    with look [of "js ''key''"] \<open>map_of (clearable_fields f) (js ''key'') = None\<close>
      \<open>map_of (update_fields f i t) (js ''key'') = None\<close> have "map_of p (js ''key'') = None" by simp
    with True show ?thesis by (simp only: obj_has_def map_of_eq_None_iff simp_thms)
  next
    case False
    with look [of "js ''key''"] \<open>map_of (clearable_fields f) (js ''key'') = None\<close>
    have "map_of p (js ''key'') \<noteq> None" by simp
    with False show ?thesis by (simp only: obj_has_def map_of_eq_None_iff simp_thms)
  qed
  have c: "obj_get k p = v" if "(k, v) \<in> set (clearable_fields f)" for k v
    using look [of k] map_of_is_SomeI [OF distinct_clearable that] by (simp add: obj_get_def)
  have 2: "\<forall>(k, v)\<in>set (clearable_fields f). obj_get k p = v \<and> is_string v"
    using c by (auto simp: clearable_fields_def)
  have "map_of (clearable_fields f) (js ''id'') = None" by (simp add: clearable_fields_def)
  with look [of "js ''id''"] have 3: "obj_get (js ''id'') p = JNum (num i)"
    by (simp add: obj_get_def update_fields_def)
  have 4: "obj_get (js ''base_url'') p = JStr (normalizeBaseUrl (base_url f))"
    by (rule c) (simp add: clearable_fields_def)
  have "r = [] \<or> hd r \<noteq> 47" if "r = dropWhile (\<lambda>c. c = 47) s" for r s :: jstr
    using hd_dropWhile [of "\<lambda>c. c = 47" s] that by blast
  then have 5: "normalizeBaseUrl (base_url f) = [] \<or> last (normalizeBaseUrl (base_url f)) \<noteq> 47"
    unfolding normalizeBaseUrl_def rev_is_Nil_conv by (metis last_rev)
  show ?thesis using 1 2 3 4 5 by blast
qed

lemma update_payload_fields_witness:
  "\<exists>p. transformFormDataToUpdatePayload (sample_form\<lparr>base_url := Some (js ''http://a/'')\<rparr>) 7 = Some p \<and>
     \<not> obj_has (js ''key'') p \<and> obj_get (js ''base_url'') p = JStr (js ''http://a'')"
proof -
  let ?f = "sample_form\<lparr>base_url := Some (js ''http://a/'')\<rparr>"
  have st: "stored_settings ?f = JObj []"
    by (simp add: stored_settings_def sample_form_def CHANNEL_FORM_DEFAULT_VALUES_def or_empty_def)
  then obtain p where p: "transformFormDataToUpdatePayload ?f 7 = Some p"
    by (simp only: transformFormDataToUpdatePayload_def buildSettingsJSON_def jsval.case option.case Let_def
        option.inject ex_simps)
  have "normalizeBaseUrl (Some (js ''http://a/'')) = js ''http://a''"
    by (simp add: normalizeBaseUrl_def or_empty_def js_def trim_def is_ws_def)
  moreover have "trim (key ?f) = []" by (simp add: sample_form_def CHANNEL_FORM_DEFAULT_VALUES_def)
  ultimately show ?thesis using update_payload_fields [OF p] p by simp
qed

section \<open>Opening and saving a channel\<close>

lemma parsed_settings:
  assumes "json_ok (JObj qs)"
  shows "parsed_text (Some (ser (JObj qs))) = Some (JObj qs)"
  using json_roundtrip [OF assms] json_ok_ser_hd [OF assms]
  by (simp add: parsed_text_def or_empty_def del: ser.simps)

lemma read_or_obj: "read_or (Some (JObj qs)) k d = js_or (case map_of qs (js k) of None \<Rightarrow> JUndef | Some v \<Rightarrow> v) d"
  by (simp add: read_or_def obj_get_def)

lemma read_true_obj: "read_true (Some (JObj qs)) k = JBool (map_of qs (js k) = Some (JBool True))"
  by (simp add: read_true_def is_true_def obj_get_def split: option.split)

lemma js_or_js_or: "js_or (js_or a b) b = js_or a b"
  by (simp add: js_or_def)

lemma is_true_eq: "is_true (JBool (Some (is_true v) = Some (JBool True))) = is_true v"
  by (simp add: is_true_def)

lemma reread_ignored:
  assumes "map_of qs (js ''upstream_model_update_ignored_models'') = Some (ignored_models g)"
    and "upstream_model_update_ignored_models f = Some (read_ignored_models (Some (JObj qs)))"
  shows "ignored_models f = ignored_models g"
proof -
  define ms where "ms = js_set (csv_tokens comma (or_empty (upstream_model_update_ignored_models g)))"
  have "\<not> conversion_throws (JArr (map JStr ms))" by (simp add: list_ex_iff)
  moreover have "to_str (JArr (map JStr ms)) = join [comma] ms" by (simp add: comp_def js_def)
  ultimately have "or_empty (upstream_model_update_ignored_models f) = join [comma] ms"
    using assms by (simp add: read_ignored_models_def obj_get_def ignored_models_def ms_def or_empty_def)
  moreover have "csv_tokens comma (join [comma] ms) = ms"
    by (rule csv_tokens_join) (simp add: ms_def csv_tokens_clean)
  ultimately show ?thesis by (simp add: ignored_models_def ms_def)
qed

lemma opened_fields:
  assumes "transformChannelToFormDefaults c = Some f"
  defines "v \<equiv> parsed_text (Some (Channel.settings c))"
  shows "form_type f = chan_type c"
    "settings f = Some (if Channel.settings c = [] then js ''{}'' else Channel.settings c)"
    "vertex_key_type f = read_or v ''vertex_key_type'' (JStr (js ''json''))"
    "aws_key_type f = read_or v ''aws_key_type'' (JStr (js ''ak_sk''))"
    "azure_responses_version f = read_or v ''azure_responses_version'' (JStr [])"
    "is_enterprise_account f = read_true v ''openrouter_enterprise''"
    "allow_service_tier f = read_true v ''allow_service_tier''"
    "disable_store f = read_true v ''disable_store''"
    "allow_safety_identifier f = read_true v ''allow_safety_identifier''"
    "allow_include_obfuscation f = read_true v ''allow_include_obfuscation''"
    "allow_inference_geo f = read_true v ''allow_inference_geo''"
    "allow_speed f = read_true v ''allow_speed''"
    "claude_beta_query f = read_true v ''claude_beta_query''"
    "upstream_model_update_check_enabled f = read_true v ''upstream_model_update_check_enabled''"
    "upstream_model_update_auto_sync_enabled f = read_true v ''upstream_model_update_auto_sync_enabled''"
    "upstream_model_update_ignored_models f = Some (read_ignored_models v)"
    "key f = []" "name f = Channel.name c" "models f = Channel.models c"
    "tag f = Some (or_empty (Channel.tag c))"
proof -
  from assms(1) obtain info where "channel_info c = Some info"
    by (cases "channel_info c") (simp_all add: transformChannelToFormDefaults_def)
  note f = assms(1) [unfolded transformChannelToFormDefaults_def Let_def this option.case option.inject, symmetric]
  show "form_type f = chan_type c"
    "settings f = Some (if Channel.settings c = [] then js ''{}'' else Channel.settings c)"
    "vertex_key_type f = read_or v ''vertex_key_type'' (JStr (js ''json''))"
    "aws_key_type f = read_or v ''aws_key_type'' (JStr (js ''ak_sk''))"
    "azure_responses_version f = read_or v ''azure_responses_version'' (JStr [])"
    "is_enterprise_account f = read_true v ''openrouter_enterprise''"
    "allow_service_tier f = read_true v ''allow_service_tier''"
    "disable_store f = read_true v ''disable_store''"
    "allow_safety_identifier f = read_true v ''allow_safety_identifier''"
    "allow_include_obfuscation f = read_true v ''allow_include_obfuscation''"
    "allow_inference_geo f = read_true v ''allow_inference_geo''"
    "allow_speed f = read_true v ''allow_speed''"
    "claude_beta_query f = read_true v ''claude_beta_query''"
    "upstream_model_update_check_enabled f = read_true v ''upstream_model_update_check_enabled''"
    "upstream_model_update_auto_sync_enabled f = read_true v ''upstream_model_update_auto_sync_enabled''"
    "upstream_model_update_ignored_models f = Some (read_ignored_models v)"
    "key f = []" "name f = Channel.name c" "models f = Channel.models c"
    "tag f = Some (or_empty (Channel.tag c))"
    unfolding v_def f by simp_all
qed

lemma reread_type_settings:
  assumes "\<And>k v. (js k, v) \<in> set (type_settings g) \<Longrightarrow> map_of qs (js k) = v"
    and "form_type f = form_type g"
    and v: "v = Some (JObj qs)"
    and f: "vertex_key_type f = read_or v ''vertex_key_type'' (JStr (js ''json''))"
    "aws_key_type f = read_or v ''aws_key_type'' (JStr (js ''ak_sk''))"
    "azure_responses_version f = read_or v ''azure_responses_version'' (JStr [])"
    "is_enterprise_account f = read_true v ''openrouter_enterprise''"
    "allow_service_tier f = read_true v ''allow_service_tier''"
    "disable_store f = read_true v ''disable_store''"
    "allow_safety_identifier f = read_true v ''allow_safety_identifier''"
    "allow_include_obfuscation f = read_true v ''allow_include_obfuscation''"
    "allow_inference_geo f = read_true v ''allow_inference_geo''"
    "allow_speed f = read_true v ''allow_speed''"
    "claude_beta_query f = read_true v ''claude_beta_query''"
  shows "type_settings f = type_settings g"
proof -
  have q: "map_of (type_settings g) (js k) = Some w \<Longrightarrow> map_of qs (js k) = w" for k w
    using assms(1) by (blast dest: map_of_SomeD)
  have e: "map_of qs (js ''vertex_key_type'') = only_for (form_type g = 41) (js_or (vertex_key_type g) (JStr (js ''json'')))"
    "map_of qs (js ''azure_responses_version'') =
       only_for (form_type g = 3 \<and> truthy (azure_responses_version g)) (azure_responses_version g)"
    "map_of qs (js ''openrouter_enterprise'') = only_for (form_type g = 20) (is_true (is_enterprise_account g))"
    "map_of qs (js ''aws_key_type'') = only_for (form_type g = 33) (js_or (aws_key_type g) (JStr (js ''ak_sk'')))"
    "map_of qs (js ''allow_service_tier'') = only_for (form_type g = 1 \<or> form_type g = 14) (is_true (allow_service_tier g))"
    "map_of qs (js ''disable_store'') = only_for (form_type g = 1) (is_true (disable_store g))"
    "map_of qs (js ''allow_safety_identifier'') = only_for (form_type g = 1) (is_true (allow_safety_identifier g))"
    "map_of qs (js ''allow_include_obfuscation'') = only_for (form_type g = 1) (is_true (allow_include_obfuscation g))"
    "map_of qs (js ''allow_inference_geo'') =
       only_for (form_type g = 1 \<or> form_type g = 14) (is_true (allow_inference_geo g))"
    "map_of qs (js ''allow_speed'') = only_for (form_type g = 14) (is_true (allow_speed g))"
    "map_of qs (js ''claude_beta_query'') = only_for (form_type g = 14) (is_true (claude_beta_query g))"
    by (rule q, simp add: type_settings_def Let_def)+
  have b: "only_for c (is_true (JBool (only_for c (is_true w) = Some (JBool True)))) = only_for c (is_true w)" for c w
    by (simp add: only_for_def is_true_def)
  have d: "only_for c (js_or (js_or (case only_for c (js_or w u) of None \<Rightarrow> JUndef | Some x \<Rightarrow> x) u) u) =
      only_for c (js_or w u)" for c w u by (simp add: only_for_def js_or_def)
  have a: "only_for (c \<and> truthy (js_or (case only_for (c \<and> truthy w) w of None \<Rightarrow> JUndef | Some x \<Rightarrow> x) (JStr [])))
        (js_or (case only_for (c \<and> truthy w) w of None \<Rightarrow> JUndef | Some x \<Rightarrow> x) (JStr [])) =
      only_for (c \<and> truthy w) w" for c w by (simp add: only_for_def js_or_def)
  show ?thesis
    unfolding type_settings_def Let_def f v read_or_obj read_true_obj e assms(2) b d a ..
qed

lemma reread_upstream:
  assumes "\<And>k w. (js k, Some w) \<in> set (upstream_settings g old) \<Longrightarrow> map_of qs (js k) = Some w"
    and "form_type f = form_type g"
    and v: "v = Some (JObj qs)"
    and f: "upstream_model_update_check_enabled f = read_true v ''upstream_model_update_check_enabled''"
    "upstream_model_update_auto_sync_enabled f = read_true v ''upstream_model_update_auto_sync_enabled''"
    "upstream_model_update_ignored_models f = Some (read_ignored_models v)"
  shows "upstream_settings f (map_of qs) = upstream_settings g old"
proof (cases "form_type g \<in> set MODEL_FETCHABLE_TYPES")
  case True
  have k: "map_of qs (js ''upstream_model_update_check_enabled'') = Some (JBool (update_check g))"
    "map_of qs (js ''upstream_model_update_auto_sync_enabled'') =
       Some (JBool (update_check g \<and> upstream_model_update_auto_sync_enabled g = JBool True))"
    "map_of qs (js ''upstream_model_update_ignored_models'') = Some (ignored_models g)"
    "map_of qs (js ''upstream_model_update_last_detected_models'') =
       Some (detected_models g (old (js ''upstream_model_update_last_detected_models'')))"
    "map_of qs (js ''upstream_model_update_last_check_time'') =
       Some (check_time (old (js ''upstream_model_update_last_check_time'')))"
    by (rule assms(1), use True in \<open>simp add: upstream_settings_def\<close>)+
  have c: "update_check f \<longleftrightarrow> update_check g"
    by (simp add: update_check_def [of f] f v read_true_obj k)
  have s: "upstream_model_update_auto_sync_enabled f = JBool (update_check g \<and> upstream_model_update_auto_sync_enabled g = JBool True)"
    by (simp add: f v read_true_obj k)
  have i: "ignored_models f = ignored_models g"
    by (rule reread_ignored [OF k(3)]) (simp only: f v)
  have d: "detected_models f (Some (detected_models g w)) = detected_models g w" for w
    by (simp add: detected_models_def c split: option.split jsval.split)
  have t: "check_time (Some (check_time w)) = check_time w" for w
    by (simp add: check_time_def split: option.split jsval.split)
  show ?thesis using True
    by (simp add: upstream_settings_def assms(2) c s i k d t)
next
  case False
  with assms(2) show ?thesis by (simp add: upstream_settings_def)
qed

text \<open>
  C29. Opening a channel and saving it unchanged keeps its settings: when a channel holds the
  settings text that a form accepted by the schema produced, the form filled from the channel
  produces the same text, provided that the values in the text are printed and read back
  unchanged. The key is not part of the form.
\<close>

theorem reopened_settings:
  assumes "field_issues g = []" "json_ok (stored_settings g)" "buildSettingsJSON g = Some (Channel.settings c)"
    and "chan_type c = form_type g" "transformChannelToFormDefaults c = Some f"
  shows "buildSettingsJSON f = Some (Channel.settings c) \<and> key f = []"
proof -
  obtain ps where ps: "stored_settings g = JObj ps"
    using accepted_settings_object [OF accepted_fields(1) [OF assms(1)]] by blast
  define qs where "qs = update_settings g ps"
  have ok: "json_ok (JObj qs)"
    using update_settings_json_ok [of ps g] accepted_fields [OF assms(1)] assms(2) by (simp only: ps qs_def)
  have c: "Channel.settings c = ser (JObj qs)"
    using assms(3) by (simp only: buildSettingsJSON_def ps jsval.case qs_def option.inject)
  note o = opened_fields [OF assms(5)]
  have v: "parsed_text (Some (Channel.settings c)) = Some (JObj qs)" unfolding c by (rule parsed_settings [OF ok])
  have e: "map_of qs k = w" if "(k, w) \<in> set (type_settings g @ upstream_settings g (map_of ps))" for k w
    using expected_settings_lookup [OF that] by (simp only: update_settings_map qs_def)
  have ty: "form_type f = form_type g" using o(1) assms(4) by simp
  have "type_settings f = type_settings g"
    by (rule reread_type_settings [OF _ ty v]) (rule e, simp, (rule o)+)
  moreover have u: "upstream_settings f (map_of qs) = upstream_settings g (map_of ps)"
    by (rule reread_upstream [OF _ ty v]) (rule e, simp, (rule o)+)
  ultimately have k: "map_of qs k = w" if "(k, w) \<in> set (type_settings f @ upstream_settings f (map_of qs))" for k w
    using e that by simp
  have "set_upstream f qs = qs"
    by (rule settled_upstream [of f "map_of qs"]) (rule k, simp)
  then have "update_settings f qs = qs"
    unfolding update_settings_def by (subst settled_type_settings) (rule k, simp)
  moreover have "settings f = Some (ser (JObj qs))"
    using o(2) c json_ok_ser_hd [OF ok] by (simp del: ser.simps)
  then have "stored_settings f = JObj qs" by (rule stored_printed [OF ok])
  ultimately have "buildSettingsJSON f = Some (ser (JObj qs))"
    by (simp only: buildSettingsJSON_def jsval.case)
  with c o(17) show ?thesis by simp
qed

lemma reopened_settings_witness:
  "\<exists>c f. transformChannelToFormDefaults c = Some f \<and> chan_type c = 1 \<and>
     buildSettingsJSON sample_form = Some (Channel.settings c) \<and>
     buildSettingsJSON f = Some (Channel.settings c) \<and> key f = []"
proof -
  have "settings sample_form = Some (js ''{}'')"
    by (simp add: sample_form_def CHANNEL_FORM_DEFAULT_VALUES_def)
  then have st: "stored_settings sample_form = JObj []" by (simp add: stored_settings_def or_empty_def)
  then obtain t where t: "buildSettingsJSON sample_form = Some t"
    by (simp only: buildSettingsJSON_def jsval.case option.inject ex_simps)
  define c where "c = sample_channel\<lparr>channel_info := Some \<lparr>is_multi_key = False, multi_key_size = 0,
    multi_key_status_list = None, multi_key_disabled_reason = None, multi_key_disabled_time = None,
    multi_key_polling_index = 0, multi_key_mode = Random\<rparr>, Channel.settings := t\<rparr>"
  have c: "channel_info c \<noteq> None" "Channel.settings c = t" "chan_type c = 1"
    by (simp_all add: c_def sample_channel_def)
  then obtain f where f: "transformChannelToFormDefaults c = Some f"
    by (cases "channel_info c") (simp_all add: transformChannelToFormDefaults_def Let_def)
  have "json_ok (stored_settings sample_form)" unfolding st by (simp add: obj_wf_def)
  moreover have "chan_type c = form_type sample_form"
    by (simp add: c(3) sample_form_def CHANNEL_FORM_DEFAULT_VALUES_def)
  ultimately have "buildSettingsJSON f = Some (Channel.settings c) \<and> key f = []"
    using reopened_settings [OF sample_form_accepted _ _ _ f] t c(2) by simp
  with f c t show ?thesis by auto
qed

section \<open>The schema and the other checks\<close>

lemma isJsonObjectValue_iff: "isJsonObjectValue v \<longleftrightarrow> as_mapping v \<noteq> None"
  by (cases v) (auto simp: isJsonObjectValue_def)

text \<open>
  The two checks of a model mapping agree: the schema of the form accepts a text exactly
  when the validation that the editor shows next to it does.
\<close>

theorem model_mapping_checks_agree:
  "isOptionalModelMapping (Some s) \<longleftrightarrow> valid (validateModelMappingJson s)"
proof (cases "trim s = []")
  case True
  then show ?thesis by (simp add: isOptionalModelMapping_def parseOptionalJson_def validateModelMappingJson_def)
next
  case False
  then have ne: "s \<noteq> []" by auto
  show ?thesis
  proof (cases "json_parse s")
    case None
    with False ne show ?thesis
      by (simp add: isOptionalModelMapping_def parseOptionalJson_def validateModelMappingJson_def)
  next
    case (Some v)
    then have "v \<noteq> JUndef" using json_parse_not_undef by blast
    with Some False ne show ?thesis
      by (cases v) (auto simp: isOptionalModelMapping_def parseOptionalJson_def validateModelMappingJson_def
          isJsonObjectValue_def list_all_iff list_ex_iff)
  qed
qed

lemma three_digits_Number:
  assumes "three_digits (trim s)"
  shows "js_Number s = Fin (of_nat (undec (trim s)))"
proof -
  obtain a b c where abc: "trim s = [a, b, c]" "49 \<le> a" "a \<le> 53" "is_digit b" "is_digit c"
    using assms by (auto elim!: three_digits.elims)
  then have d: "is_digit a" by (simp add: is_digit_def)
  have "unsigned_decimal False [a, b, c] = decimal_value False [a, b, c] [] 0"
    using abc d by (simp add: unsigned_decimal_def js_def exp_part_def)
  also have "\<dots> = num_of_nat (undec [a, b, c])"
    by (simp add: decimal_value_def pow10_def num_of_nat_def)
  also have "\<dots> = Fin (of_nat (undec [a, b, c]))"
    using three_digits_range [OF assms] abc(1) by (intro num_of_nat_small) simp
  finally show ?thesis using abc by (simp add: js_Number_def)
qed

lemma guard_key: "parseStatusCodeKey k = Some a \<Longrightarrow> is_status_code (js_Number k)"
  using three_digits_Number [of k] three_digits_range [of "trim k"]
  by (auto simp: parseStatusCodeKey_def Let_def is_status_code_def num_le_def num_eq_def split: if_splits)

lemma guard_target: "parseStatusCodeMappingTarget v = Some b \<Longrightarrow> is_status_code (js_to_number v)"
proof (cases v)
  case (JStr s)
  assume "parseStatusCodeMappingTarget v = Some b"
  with JStr show ?thesis
    using three_digits_Number [of s] three_digits_range [of "trim s"]
    by (auto simp: Let_def is_status_code_def num_le_def num_eq_def split: if_splits)
qed (auto simp: is_status_code_def num_le_def num_eq_def split: jsnum.splits if_splits)

text \<open>
  A mapping of status codes in which the guard finds no invalid entry is accepted by the
  schema, when it is a JSON object at all.
\<close>

theorem guarded_mapping_accepted:
  assumes "isOptionalJsonObject (Some s)" "collectInvalidStatusCodeEntries (Some s) = Some []"
  shows "isOptionalStatusCodeMapping (Some s)"
proof (cases "trim s = []")
  case True
  then show ?thesis by (simp add: isOptionalStatusCodeMapping_def parseOptionalJson_def)
next
  case False
  with assms(1) obtain v where v: "json_parse s = Some v" "v = JUndef \<or> isJsonObjectValue v"
    by (auto simp: isOptionalJsonObject_def parseOptionalJson_def split: option.splits)
  then obtain ps where ps: "v = JObj ps"
    using json_parse_not_undef [of s] by (cases v) (auto simp: isJsonObjectValue_def)
  have il: "invalid_loop acc es = Some [] \<Longrightarrow> \<forall>e\<in>set es. \<not> is_invalid_entry e" for acc es
  proof -
    have "invalid_loop acc es = Some r \<Longrightarrow> length acc + length (filter is_invalid_entry es) = length r" for r
      by (induction acc es rule: invalid_loop.induct) (auto split: if_splits option.splits)
    then show "invalid_loop acc es = Some [] \<Longrightarrow> \<forall>e\<in>set es. \<not> is_invalid_entry e"
      by (fastforce simp: filter_empty_conv)
  qed
  have "\<forall>e\<in>set ps. \<not> is_invalid_entry e"
    using il [of "[]" ps] assms(2) False v ps by (simp add: collectInvalidStatusCodeEntries_def mapping_entries_def)
  then have "\<forall>e\<in>set ps. is_status_code (js_Number (fst e)) \<and> is_status_code (js_to_number (snd e))"
    using guard_key guard_target by (fastforce simp: is_invalid_entry_def)
  with False v ps show ?thesis
    by (simp add: isOptionalStatusCodeMapping_def parseOptionalJson_def isJsonObjectValue_def list_all_iff)
qed

lemma guarded_mapping_accepted_witness:
  \<open>isOptionalStatusCodeMapping (Some (js ''{"400":"500"}''))\<close>
proof (rule guarded_mapping_accepted)
  have p: \<open>json_parse (js ''{"400":"500"}'') = Some (JObj [(js ''400'', JStr (js ''500''))])\<close>
    using json_roundtrip [of "JObj [(js ''400'', JStr (js ''500''))]"]
    by (simp add: obj_wf_def json_quote_def esc_unit_def high_surrogate_def low_surrogate_def js_def)
  have ne: \<open>trim (js ''{"400":"500"}'') \<noteq> []\<close> by (simp add: trim_eq_Nil js_def is_ws_def)
  show \<open>isOptionalJsonObject (Some (js ''{"400":"500"}''))\<close>
    by (simp add: isOptionalJsonObject_def parseOptionalJson_def p ne isJsonObjectValue_def)
  have "trim (js ''400'') = js ''400''" "trim (js ''500'') = js ''500''"
    by (simp_all add: js_def trim_def is_ws_def)
  then have "\<not> is_invalid_entry (js ''400'', JStr (js ''500''))"
    by (simp add: is_invalid_entry_def parseStatusCodeKey_def Let_def js_def is_digit_def code_in_range_def undec_def)
  then show \<open>collectInvalidStatusCodeEntries (Some (js ''{"400":"500"}'')) = Some []\<close>
    by (simp add: collectInvalidStatusCodeEntries_def mapping_entries_def p ne)
qed

end
