(* ===== verification/NavModules.thy ===== *)
theory NavModules
  imports JsStorage StatusCodeGuard
begin

text \<open>
  Which pages of the site are switched on: \<open>src/newapi/web/default/src/lib/nav-modules.ts\<close>.

  The server's status object carries two settings. \<open>HeaderNavModules\<close> says of every entry of the
  top bar whether it is shown, and of \<open>pricing\<close> and \<open>rankings\<close> also whether a visitor has to log in;
  \<open>SidebarModulesAdmin\<close> switches the entries of the side bar. The last status seen is kept in the
  browser's storage.

  Both settings come from outside, as a JSON text or as an object, so the parsers take any value.
  \<open>String(raw)\<close> throws for an object with a \<open>toString\<close> of its own; a function that may throw
  returns an option, and \<open>None\<close> is the exception.
\<close>

section \<open>Header navigation\<close>

record ModuleAccess =
  enabled :: bool
  requireAuth :: bool

datatype HeaderNavModule = Rankings | Pricing

text \<open>\<open>flags\<close> holds the properties that are plain booleans: \<open>home\<close>, \<open>console\<close>, \<open>docs\<close>, \<open>about\<close> and
  those a configuration adds.\<close>

record HeaderNavModules =
  flags :: "(jstr \<times> bool) list"
  pricing :: ModuleAccess
  rankings :: ModuleAccess

definition DEFAULT_HEADER_NAV_MODULES :: HeaderNavModules where
  "DEFAULT_HEADER_NAV_MODULES =
     \<lparr>flags = [(js ''home'', True), (js ''console'', True), (js ''docs'', True), (js ''about'', True)],
      pricing = \<lparr>enabled = True, requireAuth = False\<rparr>,
      rankings = \<lparr>enabled = True, requireAuth = False\<rparr>\<rparr>"

text \<open>Values are copied, so the clone is the default itself.\<close>

definition cloneHeaderNavDefaults :: HeaderNavModules where
  "cloneHeaderNavDefaults = DEFAULT_HEADER_NAV_MODULES"

definition parseHeaderNavBoolean :: "jsval \<Rightarrow> bool \<Rightarrow> bool" where
  "parseHeaderNavBoolean raw fallback =
     (case raw of
        JBool b \<Rightarrow> b
      | JNum x \<Rightarrow> if x = Fin 1 then True else if x = Fin 0 then False else fallback
      | JStr s \<Rightarrow>
          let normalized = ascii_lower (trim s) in
          if normalized = js ''true'' \<or> normalized = js ''1'' then True
          else if normalized = js ''false'' \<or> normalized = js ''0'' then False
          else fallback
      | _ \<Rightarrow> fallback)"

fun is_primitive_setting :: "jsval \<Rightarrow> bool" where
  "is_primitive_setting (JBool _) = True"
| "is_primitive_setting (JNum _) = True"
| "is_primitive_setting (JStr _) = True"
| "is_primitive_setting _ = False"

definition parseAccess :: "jsval \<Rightarrow> ModuleAccess \<Rightarrow> ModuleAccess" where
  "parseAccess raw fallback =
     (if is_primitive_setting raw then
        \<lparr>enabled = parseHeaderNavBoolean raw (enabled fallback), requireAuth = requireAuth fallback\<rparr>
      else if truthy raw \<and> is_object raw then
        \<lparr>enabled = parseHeaderNavBoolean (get_prop (js ''enabled'') raw) (enabled fallback),
         requireAuth = parseHeaderNavBoolean (get_prop (js ''requireAuth'') raw) (requireAuth fallback)\<rparr>
      else fallback)"

text \<open>The result is the value the entries are read of, \<open>JNull\<close> where the code returns \<open>null\<close>.\<close>

definition parseHeaderNavRecord :: "jsval \<Rightarrow> jsval option" where
  "parseHeaderNavRecord raw =
     (if \<not> truthy raw then Some JNull
      else if conversion_throws raw then None
      else if trim (to_str raw) = [] then Some JNull
      else if is_object raw then Some raw
      else case json_parse (to_str raw) of Some v \<Rightarrow> Some v | None \<Rightarrow> Some JNull)"

text \<open>
  One entry of the setting. Assigning a boolean to \<open>__proto__\<close> does nothing. A name that objects
  inherit (\<open>toString\<close>) reads as a function, which is no boolean, like a name that is absent.
\<close>

definition nav_entry :: "HeaderNavModules \<Rightarrow> jstr \<times> jsval \<Rightarrow> HeaderNavModules" where
  "nav_entry result = (\<lambda>(key, value).
     if key = js ''pricing'' then result\<lparr>pricing := parseAccess value (pricing result)\<rparr>
     else if key = js ''rankings'' then result\<lparr>rankings := parseAccess value (rankings result)\<rparr>
     else
       let fallback = map_of (flags result) key in
       if (fallback \<noteq> None \<or> is_primitive_setting value) \<and> key \<noteq> js ''__proto__'' then
         result\<lparr>flags := map_set key
           (parseHeaderNavBoolean value (case fallback of Some b \<Rightarrow> b | None \<Rightarrow> True)) (flags result)\<rparr>
       else result)"

definition parseHeaderNavModules :: "jsval \<Rightarrow> HeaderNavModules option" where
  "parseHeaderNavModules raw =
     (case parseHeaderNavRecord raw of
        None \<Rightarrow> None
      | Some parsed \<Rightarrow>
          Some (if truthy parsed then foldl nav_entry cloneHeaderNavDefaults (entries parsed)
                else cloneHeaderNavDefaults))"

definition parseHeaderNavModulesFromStatus :: "jsval \<Rightarrow> HeaderNavModules option" where
  "parseHeaderNavModulesFromStatus status = parseHeaderNavModules (optional_prop (js ''HeaderNavModules'') status)"

section \<open>The cached status\<close>

definition STATUS_KEY :: jstr where "STATUS_KEY = js ''status''"

definition getCachedStatus :: "Storage \<Rightarrow> jsval" where
  "getCachedStatus s =
     (case get_item STATUS_KEY s of
        Some (Some raw) \<Rightarrow> if raw = [] then JNull else (case json_parse raw of Some v \<Rightarrow> v | None \<Rightarrow> JNull)
      | _ \<Rightarrow> JNull)"

definition cacheStatus :: "jsval \<Rightarrow> Storage \<Rightarrow> Storage" where
  "cacheStatus status s = (if truthy status then try_set STATUS_KEY (json_text status) s else s)"

section \<open>Access to a page\<close>

text \<open>The field of a module is never \<open>null\<close> or \<open>undefined\<close>, so \<open>?? DEFAULTS[module]\<close> is never taken.\<close>

definition module_access :: "HeaderNavModule \<Rightarrow> HeaderNavModules \<Rightarrow> ModuleAccess" where
  "module_access m r = (case m of Rankings \<Rightarrow> rankings r | Pricing \<Rightarrow> pricing r)"

definition getModuleAccessFromStatus :: "jsval \<Rightarrow> HeaderNavModule \<Rightarrow> ModuleAccess option" where
  "getModuleAccessFromStatus status m = map_option (module_access m) (parseHeaderNavModulesFromStatus status)"

definition getModuleAccess :: "HeaderNavModule \<Rightarrow> Storage \<Rightarrow> ModuleAccess option" where
  "getModuleAccess m s = getModuleAccessFromStatus (getCachedStatus s) m"

definition closed_access :: ModuleAccess where
  "closed_access = \<lparr>enabled = False, requireAuth = True\<rparr>"

text \<open>\<open>answer\<close> is what the server's \<open>getStatus\<close> gives, \<open>None\<close> a rejected request.\<close>

definition getFreshModuleAccess :: "HeaderNavModule \<Rightarrow> jsval option \<Rightarrow> Storage \<Rightarrow> ModuleAccess \<times> Storage" where
  "getFreshModuleAccess m answer s =
     (case answer of
        None \<Rightarrow> (closed_access, s)
      | Some status \<Rightarrow>
          let s' = cacheStatus status s in
          (case getModuleAccessFromStatus status m of Some a \<Rightarrow> a | None \<Rightarrow> closed_access, s'))"

text \<open>
  \<open>section\<close> and \<open>module\<close> are the names the routes pass (\<open>chat\<close>, \<open>playground\<close>), none of them inherited
  by objects. Reading a property of \<open>null\<close> throws inside the \<open>try\<close>.
\<close>

definition isSidebarModuleEnabled :: "jstr \<Rightarrow> jstr \<Rightarrow> Storage \<Rightarrow> bool option" where
  "isSidebarModuleEnabled section modul s =
     (let status = getCachedStatus s; raw = get_prop (js ''SidebarModulesAdmin'') status in
      if \<not> truthy status \<or> \<not> truthy raw then Some True
      else if conversion_throws raw then None
      else if trim (to_str raw) = [] then Some True
      else Some
        (case json_parse (to_str raw) of
           None \<Rightarrow> True
         | Some parsed \<Rightarrow>
             if is_nullish parsed then True
             else
               let sectionConfig = get_prop section parsed in
               if \<not> truthy sectionConfig then True
               else if get_prop (js ''enabled'') sectionConfig = JBool False then False
               else if get_prop modul sectionConfig = JBool False then False
               else True))"

section \<open>What the settings mean\<close>

lemma cached_status: "open_storage s \<Longrightarrow> json_ok v \<Longrightarrow> truthy v \<Longrightarrow> getCachedStatus (cacheStatus v s) = v"
proof -
  assume s: "open_storage s" and v: "json_ok v" "truthy v"
  from v have "json_text v = ser v" "ser v \<noteq> []"
    using json_ok_ser_hd [of v] by (auto simp: json_text_def json_stringify_def)
  with s v show ?thesis
    by (simp add: getCachedStatus_def cacheStatus_def get_try_set json_roundtrip)
qed

interpretation statusSlot: storage_slot STATUS_KEY cacheStatus getCachedStatus "\<lambda>v. v" "\<lambda>v. json_ok v \<and> truthy v"
  by unfold_locales
    (auto simp: cached_status, auto simp: cacheStatus_def try_set_other try_set_open getCachedStatus_def dest: get_item_local)

lemma parseAccess_undefined [simp]: "parseAccess JUndef a = a"
  by (simp add: parseAccess_def)

lemma parseHeaderNavBoolean_undefined [simp]: "parseHeaderNavBoolean JUndef b = b"
  by (simp add: parseHeaderNavBoolean_def)

definition entry_flag :: "jsval \<Rightarrow> bool option \<Rightarrow> bool option" where
  "entry_flag v d =
     (if d \<noteq> None \<or> is_primitive_setting v
      then Some (parseHeaderNavBoolean v (case d of Some b \<Rightarrow> b | None \<Rightarrow> True)) else None)"

lemma entry_flag_undefined [simp]: "entry_flag JUndef d = d"
  by (cases d) (simp_all add: entry_flag_def)

lemma nav_entry_fields:
  "pricing (nav_entry r (k, v)) = (if k = js ''pricing'' then parseAccess v (pricing r) else pricing r)"
  "rankings (nav_entry r (k, v)) = (if k = js ''rankings'' then parseAccess v (rankings r) else rankings r)"
  "map_of (flags (nav_entry r (k, v))) k' =
     (if k' = k \<and> k \<notin> {js ''pricing'', js ''rankings'', js ''__proto__''} then entry_flag v (map_of (flags r) k)
      else map_of (flags r) k')"
  by (simp_all add: nav_entry_def entry_flag_def Let_def)

lemma nav_entries_fields:
  assumes "distinct (map fst es)"
  shows "pricing (foldl nav_entry r es) = parseAccess (obj_get (js ''pricing'') es) (pricing r)"
    and "rankings (foldl nav_entry r es) = parseAccess (obj_get (js ''rankings'') es) (rankings r)"
    and "map_of (flags (foldl nav_entry r es)) k =
       (if k \<in> {js ''pricing'', js ''rankings'', js ''__proto__''} then map_of (flags r) k
        else entry_flag (obj_get k es) (map_of (flags r) k))"
  using assms
proof (induction es arbitrary: r)
  case (Cons e es)
  obtain key v where e: "e = (key, v)" by force
  have new: "obj_get key es = JUndef" if "distinct (map fst (e # es))"
    using that by (auto simp: e intro!: obj_has_get simp: obj_has_def)
  have get: "obj_get k (e # es) = (if k = key then v else obj_get k es)" for k
    by (simp add: obj_get_def e)
  {
    case 1
    with Cons.IH(1) [of "nav_entry r e"] new show ?case by (simp add: e get [unfolded e] nav_entry_fields)
  next
    case 2
    with Cons.IH(2) [of "nav_entry r e"] new show ?case by (simp add: e get [unfolded e] nav_entry_fields)
  next
    case 3
    with Cons.IH(3) [of "nav_entry r e"] new show ?case
      by (cases "k = key") (simp_all add: e get [unfolded e] nav_entry_fields)
  }
qed (simp_all add: obj_get_def)


lemma DEFAULT_flags: "map_of (flags DEFAULT_HEADER_NAV_MODULES) k =
    (if k \<in> {js ''home'', js ''console'', js ''docs'', js ''about''} then Some True else None)"
  by (simp add: DEFAULT_HEADER_NAV_MODULES_def)

lemma entry_flag_default:
  "entry_flag v (if b then Some True else None) =
     (if b then Some (parseHeaderNavBoolean v True)
      else if is_primitive_setting v then Some (parseHeaderNavBoolean v True) else None)"
  by (cases b) (auto simp: entry_flag_def)

lemma nav_flags:
  assumes "distinct (map fst es)"
  shows "map_of (flags (foldl nav_entry DEFAULT_HEADER_NAV_MODULES es)) k =
    (if k \<in> {js ''pricing'', js ''rankings'', js ''__proto__''} then None
     else if k \<in> {js ''home'', js ''console'', js ''docs'', js ''about''}
       then Some (parseHeaderNavBoolean (obj_get k es) True)
     else if is_primitive_setting (obj_get k es) then Some (parseHeaderNavBoolean (obj_get k es) True)
     else None)"
proof -
  have "map_of (flags DEFAULT_HEADER_NAV_MODULES) k = None"
    if "k \<in> {js ''pricing'', js ''rankings'', js ''__proto__''}"
    using that by (auto simp: DEFAULT_flags)
  then show ?thesis
    by (simp only: nav_entries_fields(3) [OF assms] DEFAULT_flags entry_flag_default split: if_split)
      simp
qed

lemma parse_nav_text:
  assumes "json_parse t = Some (JObj ps)"
  shows "parseHeaderNavModules (JStr t) = Some (foldl nav_entry DEFAULT_HEADER_NAV_MODULES ps)"
proof -
  have "trim t \<noteq> []" using assms json_parse_blank by fastforce
  then have "t \<noteq> []" "trim t \<noteq> []" by auto
  with assms show ?thesis
    by (simp add: parseHeaderNavModules_def parseHeaderNavRecord_def cloneHeaderNavDefaults_def)
qed

text \<open>
  Parsing a header setting that is the JSON text of an object never throws, and the result is
  decided entry by entry: \<open>pricing\<close> and \<open>rankings\<close> are read by \<open>parseAccess\<close> from the entry of that
  name over the default, so an absent entry keeps it; any other name is on or off as its entry says,
  the four built-in names are never lost, a name of neither kind appears only if its entry is a
  boolean, a number or a string, and \<open>__proto__\<close> never appears.
\<close>

theorem header_nav_parsed:
  assumes "json_parse t = Some (JObj ps)"
  shows "\<exists>r. parseHeaderNavModules (JStr t) = Some r \<and>
    pricing r = parseAccess (obj_get (js ''pricing'') ps) \<lparr>enabled = True, requireAuth = False\<rparr> \<and>
    rankings r = parseAccess (obj_get (js ''rankings'') ps) \<lparr>enabled = True, requireAuth = False\<rparr> \<and>
    (\<forall>k. map_of (flags r) k =
      (if k \<in> {js ''pricing'', js ''rankings'', js ''__proto__''} then None
       else if k \<in> {js ''home'', js ''console'', js ''docs'', js ''about''}
         then Some (parseHeaderNavBoolean (obj_get k ps) True)
       else if is_primitive_setting (obj_get k ps) then Some (parseHeaderNavBoolean (obj_get k ps) True)
       else None))"
proof -
  note r = parse_nav_text [OF assms]
  have d: "distinct (map fst ps)" using json_parse_wf [OF assms] by (simp add: obj_wf_def)
  have "pricing DEFAULT_HEADER_NAV_MODULES = \<lparr>enabled = True, requireAuth = False\<rparr>"
    "rankings DEFAULT_HEADER_NAV_MODULES = \<lparr>enabled = True, requireAuth = False\<rparr>"
    by (simp_all add: DEFAULT_HEADER_NAV_MODULES_def)
  with r nav_entries_fields(1,2) [OF d] nav_flags [OF d] show ?thesis
    by (intro exI [of _ "foldl nav_entry DEFAULT_HEADER_NAV_MODULES ps"] conjI allI) (simp_all only:)
qed

text \<open>\<open>{"docs":"0","pricing":{"enabled":false},"extra":1}\<close> hides the documentation and the prices.\<close>

definition sample_nav :: "(jstr \<times> jsval) list" where
  "sample_nav = [(js ''docs'', JStr (js ''0'')), (js ''pricing'', JObj [(js ''enabled'', JBool False)])]"

lemma sample_nav_parses: "json_parse (ser (JObj sample_nav)) = Some (JObj sample_nav)"
  by (rule json_roundtrip) (simp add: sample_nav_def obj_wf_def key_before_def is_index_key_def js_def is_digit_def)

lemma header_nav_parsed_witness:
  "\<exists>r. parseHeaderNavModules (JStr (ser (JObj sample_nav))) = Some r \<and>
     pricing r = \<lparr>enabled = False, requireAuth = False\<rparr> \<and> map_of (flags r) (js ''docs'') = Some False \<and>
     map_of (flags r) (js ''home'') = Some True"
proof -
  from header_nav_parsed [OF sample_nav_parses] obtain r where
    r: "parseHeaderNavModules (JStr (ser (JObj sample_nav))) = Some r"
    and p: "pricing r = parseAccess (obj_get (js ''pricing'') sample_nav) \<lparr>enabled = True, requireAuth = False\<rparr>"
    and f: "\<forall>k. map_of (flags r) k =
      (if k \<in> {js ''pricing'', js ''rankings'', js ''__proto__''} then None
       else if k \<in> {js ''home'', js ''console'', js ''docs'', js ''about''}
         then Some (parseHeaderNavBoolean (obj_get k sample_nav) True)
       else if is_primitive_setting (obj_get k sample_nav)
         then Some (parseHeaderNavBoolean (obj_get k sample_nav) True)
       else None)" by blast
  have "map_of (flags r) (js ''docs'') = Some False" "map_of (flags r) (js ''home'') = Some True"
    by (simp_all add: f sample_nav_def obj_get_def parseHeaderNavBoolean_def ascii_lower_def js_def trim_def is_ws_def)
  moreover have "pricing r = \<lparr>enabled = False, requireAuth = False\<rparr>"
    by (simp add: p sample_nav_def obj_get_def parseAccess_def parseHeaderNavBoolean_def)
  ultimately show ?thesis using r by blast
qed

text \<open>
  \<open>getFreshModuleAccess\<close> fails closed: a rejected request gives the closed access and leaves the
  cache alone. An answered request caches the status, so \<open>getModuleAccess\<close> afterwards reads the same
  access; where that would throw, the fresh access is the closed one.
\<close>

theorem fresh_access_fails_closed:
  assumes "open_storage s" "json_ok v" "truthy v"
  shows "getFreshModuleAccess m None s = (closed_access, s) \<and>
    getCachedStatus (snd (getFreshModuleAccess m (Some v) s)) = v \<and>
    fst (getFreshModuleAccess m (Some v) s) =
      (case getModuleAccess m (snd (getFreshModuleAccess m (Some v) s)) of Some a \<Rightarrow> a | None \<Rightarrow> closed_access)"
  using statusSlot.load_save [OF assms(1), of v] assms(2,3)
  by (simp add: getFreshModuleAccess_def getModuleAccess_def Let_def)

text \<open>An empty store, and a status whose setting has a \<open>toString\<close> of its own.\<close>

definition empty_storage :: Storage where
  "empty_storage = \<lparr>items = [], readable = True, accepts = \<lambda>k v. True\<rparr>"

definition odd_status :: jsval where
  "odd_status = JObj [(js ''HeaderNavModules'', JObj [(js ''toString'', JBool True)])]"

lemma fresh_access_fails_closed_witness:
  "fst (getFreshModuleAccess Pricing (Some odd_status) empty_storage) = closed_access \<and>
   getCachedStatus (snd (getFreshModuleAccess Pricing (Some odd_status) empty_storage)) = odd_status"
proof -
  have "open_storage empty_storage" by (simp add: open_storage_def empty_storage_def)
  moreover have "json_ok odd_status" "truthy odd_status" by (simp_all add: odd_status_def obj_wf_def)
  ultimately have "fst (getFreshModuleAccess Pricing (Some odd_status) empty_storage) =
      (case getModuleAccess Pricing (snd (getFreshModuleAccess Pricing (Some odd_status) empty_storage)) of
         Some a \<Rightarrow> a | None \<Rightarrow> closed_access) \<and>
    getCachedStatus (snd (getFreshModuleAccess Pricing (Some odd_status) empty_storage)) = odd_status"
    using fresh_access_fails_closed by blast
  moreover from this have "getModuleAccess Pricing (snd (getFreshModuleAccess Pricing (Some odd_status) empty_storage)) = None"
    by (simp add: getModuleAccess_def getModuleAccessFromStatus_def parseHeaderNavModulesFromStatus_def
        parseHeaderNavModules_def parseHeaderNavRecord_def odd_status_def optional_prop_def obj_get_def obj_has_def)
  ultimately show ?thesis by simp
qed

end
