(* ===== verification/SidebarConfig.thy ===== *)
theory SidebarConfig
  imports NavModules
begin

text \<open>
  Which entries of the side bar a user sees:
  \<open>src/newapi/web/default/src/hooks/use-sidebar-config.ts\<close>, with the item types of
  \<open>components/layout/types.ts\<close>.

  The administrator's configuration is completed from a table of defaults; the user's own may only
  hide more. Both are JSON texts, so the parsed configurations are JavaScript values: the casts of
  the source (\<open>as SidebarModulesAdminConfig\<close>) check nothing.
\<close>

section \<open>Navigation items\<close>

record 'icon BaseNavItem =
  title :: jstr
  badge :: "jstr option"
  icon :: "'icon option"
  activeUrls :: "jstr list option"
  configUrls :: "jstr list option"

datatype 'icon NavItem =
    NavLink "'icon BaseNavItem" (url: jstr)
  | NavCollapsible "'icon BaseNavItem" "('icon BaseNavItem \<times> jstr) list"
  | NavChatPresets "'icon BaseNavItem"

record 'icon NavGroup =
  group_id :: "jstr option"
  group_title :: jstr
  group_items :: "'icon NavItem list"

section \<open>Configurations\<close>

definition all_on :: "string list \<Rightarrow> jsval" where
  "all_on ks = JObj (map (\<lambda>k. (js k, JBool True)) ks)"

definition DEFAULT_SIDEBAR_MODULES :: "(jstr \<times> jsval) list" where
  "DEFAULT_SIDEBAR_MODULES =
     [(js ''chat'', all_on [''enabled'', ''playground'', ''chat'']),
      (js ''console'', all_on [''enabled'', ''detail'', ''token'', ''log'', ''midjourney'', ''task'']),
      (js ''personal'', all_on [''enabled'', ''topup'', ''personal'']),
      (js ''admin'', all_on [''enabled'', ''channel'', ''models'', ''redemption'', ''user'', ''setting'',
         ''subscription''])]"

text \<open>\<open>{ ...defaultSection, ...existingSection }\<close>, then the names that are still \<open>undefined\<close>.\<close>

definition merge_section :: "(jstr \<times> jsval) list \<Rightarrow> jsval \<Rightarrow> (jstr \<times> jsval) list" where
  "merge_section defaultSection existingSection =
     foldl (\<lambda>m p. if obj_get (fst p) m = JUndef then obj_set (fst p) (snd p) m else m)
       (spread defaultSection existingSection) defaultSection"

definition merge_default :: "(jstr \<times> jsval) list \<Rightarrow> jstr \<times> jsval \<Rightarrow> (jstr \<times> jsval) list" where
  "merge_default merged = (\<lambda>(sectionKey, defaultSection).
     let existingSection = obj_get sectionKey merged in
     if \<not> truthy existingSection then obj_set sectionKey defaultSection merged
     else obj_set sectionKey (JObj (merge_section (entries defaultSection) existingSection)) merged)"

definition mergeWithDefaultSidebarModules :: "jsval \<Rightarrow> (jstr \<times> jsval) list" where
  "mergeWithDefaultSidebarModules config = foldl merge_default (spread [] config) DEFAULT_SIDEBAR_MODULES"

definition URL_TO_CONFIG_MAP :: "(jstr \<times> jstr \<times> jstr) list" where
  "URL_TO_CONFIG_MAP = map (\<lambda>(u, s, m). (js u, js s, js m))
     [(''/playground'', ''chat'', ''playground''),
      (''/dashboard'', ''console'', ''detail''),
      (''/dashboard/overview'', ''console'', ''detail''),
      (''/dashboard/models'', ''console'', ''detail''),
      (''/dashboard/users'', ''console'', ''detail''),
      (''/keys'', ''console'', ''token''),
      (''/usage-logs'', ''console'', ''log''),
      (''/usage-logs/common'', ''console'', ''log''),
      (''/usage-logs/drawing'', ''console'', ''midjourney''),
      (''/usage-logs/task'', ''console'', ''task''),
      (''/wallet'', ''personal'', ''topup''),
      (''/profile'', ''personal'', ''personal''),
      (''/channels'', ''admin'', ''channel''),
      (''/models'', ''admin'', ''models''),
      (''/models/metadata'', ''admin'', ''models''),
      (''/models/deployments'', ''admin'', ''models''),
      (''/users'', ''admin'', ''user''),
      (''/redemption-codes'', ''admin'', ''redemption''),
      (''/subscriptions'', ''admin'', ''subscription''),
      (''/system-settings'', ''admin'', ''setting''),
      (''/system-settings/site'', ''admin'', ''setting'')]"

text \<open>Spreading \<open>null\<close> or a number gives no properties.\<close>

definition parseSidebarConfig :: "jstr option \<Rightarrow> (jstr \<times> jsval) list" where
  "parseSidebarConfig value =
     (case value of
        None \<Rightarrow> DEFAULT_SIDEBAR_MODULES
      | Some t \<Rightarrow>
          if t = [] \<or> trim t = [] then DEFAULT_SIDEBAR_MODULES
          else case json_parse t of
            None \<Rightarrow> DEFAULT_SIDEBAR_MODULES
          | Some parsed \<Rightarrow> mergeWithDefaultSidebarModules parsed)"

definition parseUserSidebarConfig :: "jstr option \<Rightarrow> jsval option" where
  "parseUserSidebarConfig value =
     (case value of
        None \<Rightarrow> None
      | Some t \<Rightarrow>
          if t = [] \<or> trim t = [] then None
          else case json_parse t of
            None \<Rightarrow> None
          | Some parsed \<Rightarrow> if \<not> truthy parsed \<or> \<not> is_object parsed then None else Some parsed)"

section \<open>Visibility\<close>

text \<open>The two layers; the code writes them out once for links and once for the chat presets.\<close>

definition admin_layer :: "(jstr \<times> jsval) list \<Rightarrow> jstr \<Rightarrow> jstr \<Rightarrow> bool" where
  "admin_layer adminConfig sect modul =
     (let adminSection = obj_get sect adminConfig in
      truthy adminSection \<and> truthy (get_prop (js ''enabled'') adminSection) \<and>
      get_prop modul adminSection = JBool True)"

definition user_layer :: "jsval option \<Rightarrow> jstr \<Rightarrow> jstr \<Rightarrow> bool" where
  "user_layer userConfig sect modul =
     (case userConfig of
        None \<Rightarrow> True
      | Some c \<Rightarrow>
          let userSection = get_prop sect c in
          if \<not> truthy userSection then True
          else if get_prop (js ''enabled'') userSection = JBool False then False
          else get_prop modul userSection \<noteq> JBool False)"

definition isModuleEnabled :: "jstr \<Rightarrow> (jstr \<times> jsval) list \<Rightarrow> jsval option \<Rightarrow> bool" where
  "isModuleEnabled u adminConfig userConfig =
     (case map_of URL_TO_CONFIG_MAP u of
        None \<Rightarrow> True
      | Some (sect, modul) \<Rightarrow>
          if \<not> admin_layer adminConfig sect modul then False else user_layer userConfig sect modul)"

definition isNavItemVisible :: "'icon NavItem \<Rightarrow> (jstr \<times> jsval) list \<Rightarrow> jsval option \<Rightarrow> bool" where
  "isNavItemVisible item adminConfig userConfig =
     (case item of
        NavChatPresets _ \<Rightarrow>
          if \<not> admin_layer adminConfig (js ''chat'') (js ''chat'') then False
          else user_layer userConfig (js ''chat'') (js ''chat'')
      | NavLink b u \<Rightarrow>
          if u \<noteq> [] then
            list_ex (\<lambda>x. isModuleEnabled x adminConfig userConfig)
              (case configUrls b of Some us \<Rightarrow> us | None \<Rightarrow> [u])
          else True
      | NavCollapsible _ subs \<Rightarrow> list_ex (\<lambda>p. isModuleEnabled (snd p) adminConfig userConfig) subs)"

definition filter_sub_items :: "(jstr \<times> jsval) list \<Rightarrow> jsval option \<Rightarrow> 'icon NavItem \<Rightarrow> 'icon NavItem" where
  "filter_sub_items adminConfig userConfig item =
     (case item of
        NavCollapsible b subs \<Rightarrow>
          NavCollapsible b (filter (\<lambda>p. isModuleEnabled (snd p) adminConfig userConfig) subs)
      | _ \<Rightarrow> item)"

definition filterNavItems ::
  "'icon NavItem list \<Rightarrow> (jstr \<times> jsval) list \<Rightarrow> jsval option \<Rightarrow> 'icon NavItem list" where
  "filterNavItems is adminConfig userConfig =
     filter (\<lambda>item. isNavItemVisible item adminConfig userConfig)
       (map (filter_sub_items adminConfig userConfig) is)"

text \<open>\<open>sidebar_settings\<close> is the user's permission, \<open>JUndef\<close> when there is no user.\<close>

definition user_config :: "jsval \<Rightarrow> jstr option \<Rightarrow> jsval option" where
  "user_config sidebar_settings sidebar_modules =
     (if sidebar_settings = JBool False then None else parseUserSidebarConfig sidebar_modules)"

definition useSidebarConfig ::
  "'icon NavGroup list \<Rightarrow> jstr option \<Rightarrow> jsval \<Rightarrow> jstr option \<Rightarrow> 'icon NavGroup list" where
  "useSidebarConfig navGroups admin_text sidebar_settings sidebar_modules =
     (let adminConfig = parseSidebarConfig admin_text;
          userConfig = user_config sidebar_settings sidebar_modules in
      filter (\<lambda>g. group_items g \<noteq> [])
        (map (\<lambda>g. g\<lparr>group_items := filterNavItems (group_items g) adminConfig userConfig\<rparr>) navGroups))"

section \<open>The administrator's layer without merging\<close>

text \<open>
  \<open>admin_allows\<close> reads the text directly: a section that is absent or falsy is on, in a present one
  an entry is on unless the section's \<open>enabled\<close> is given and falsy or the entry is given and not
  \<open>true\<close>.
\<close>

definition admin_value :: "jstr option \<Rightarrow> jsval option" where
  "admin_value t = (case t of None \<Rightarrow> None | Some x \<Rightarrow> if trim x = [] then None else json_parse x)"

definition admin_allows :: "jstr option \<Rightarrow> jstr \<Rightarrow> jstr \<Rightarrow> bool" where
  "admin_allows t sect modul =
     (case admin_value t of
        None \<Rightarrow> True
      | Some v \<Rightarrow>
          let s = own sect v in
          \<not> truthy s \<or>
          (own (js ''enabled'') s = JUndef \<or> truthy (own (js ''enabled'') s)) \<and>
          (own modul s = JUndef \<or> own modul s = JBool True))"

lemma entries_wf: "json_wf v \<Longrightarrow> p \<in> set (entries v) \<Longrightarrow> json_wf (snd p)"
  by (cases v; cases p) (auto elim!: in_set_zipE)

lemma own_Some: "json_wf v \<Longrightarrow> map_of (entries v) k = Some w \<Longrightarrow> own k v = w \<and> json_wf w"
  using entries_wf map_of_SomeD by (fastforce simp: own_def obj_get_def)

lemma own_has: "json_wf v \<Longrightarrow> obj_has k (entries v) \<longleftrightarrow> own k v \<noteq> JUndef"
  using own_Some [of v k] by (cases "map_of (entries v) k") (auto simp: obj_has_map_of own_def obj_get_def)

lemma own_wf: "json_wf v \<Longrightarrow> own k v \<noteq> JUndef \<Longrightarrow> json_wf (own k v)"
  using own_Some [of v k] by (cases "map_of (entries v) k") (auto simp: own_def obj_get_def)

text \<open>Filling in what is \<open>undefined\<close> after the spread never finds anything to do.\<close>

lemma fill_in_idle:
  "\<forall>p\<in>set ps. obj_get (fst p) b \<noteq> JUndef \<Longrightarrow>
   foldl (\<lambda>m p. if obj_get (fst p) m = JUndef then obj_set (fst p) (snd p) m else m) b ps = b"
  by (induction ps arbitrary: b) auto

lemma obj_get_merge_section:
  assumes "json_wf v" "json_wf (JObj ds)"
  shows "obj_get k (merge_section ds v) = (if own k v = JUndef then obj_get k ds else own k v)"
proof -
  have get: "obj_get k (spread ds v) = (if own k v = JUndef then obj_get k ds else own k v)" for k
    using own_has [OF assms(1)] by (simp add: obj_get_spread entries_distinct json_value_wf assms(1))
  have "\<forall>p\<in>set ds. obj_get (fst p) (spread ds v) \<noteq> JUndef"
  proof
    fix p assume "p \<in> set ds"
    then have "obj_has (fst p) ds" by (simp add: obj_has_def)
    then have "obj_get (fst p) ds \<noteq> JUndef" using own_has [OF assms(2)] by (simp add: own_def)
    then show "obj_get (fst p) (spread ds v) \<noteq> JUndef" by (simp add: get)
  qed
  then show ?thesis by (simp add: merge_section_def fill_in_idle get)
qed

text \<open>A loop that sets every key of a list once, from its own old value.\<close>

lemma fold_update_get:
  assumes "distinct (map fst es)" "\<And>m k d. f m (k, d) = obj_set k (g d (obj_get k m)) m"
  shows "obj_get x (foldl f b es) = (case map_of es x of None \<Rightarrow> obj_get x b | Some d \<Rightarrow> g d (obj_get x b))"
  using assms(1)
proof (induction es arbitrary: b)
  case (Cons e es)
  obtain k d where e: "e = (k, d)" by force
  have "x = k \<Longrightarrow> map_of es x = None" using Cons.prems by (simp add: e map_of_eq_None_iff)
  then show ?case using Cons.IH [of "f b (k, d)"] Cons.prems
    by (cases "x = k") (simp_all add: e assms(2) split: option.split)
qed simp

lemma obj_get_merged:
  assumes "json_wf v" "map_of DEFAULT_SIDEBAR_MODULES sect = Some d"
  shows "obj_get sect (mergeWithDefaultSidebarModules v) =
    (if truthy (own sect v) then JObj (merge_section (entries d) (own sect v)) else d)"
proof -
  let ?g = "\<lambda>d old. if truthy old then JObj (merge_section (entries d) old) else d"
  have "distinct (map fst DEFAULT_SIDEBAR_MODULES)" by (simp add: DEFAULT_SIDEBAR_MODULES_def)
  from fold_update_get [OF this, of merge_default ?g]
  have "obj_get sect (foldl merge_default b DEFAULT_SIDEBAR_MODULES) = ?g d (obj_get sect b)" for b
    using assms(2) by (simp add: merge_default_def Let_def)
  moreover have "obj_get sect (spread [] v) = own sect v"
    using own_has [OF assms(1), of sect] obj_get_spread [of v sect "[]"] entries_distinct [OF json_value_wf [OF assms(1)]]
    by (auto simp: obj_get_def)
  ultimately show ?thesis by (simp add: mergeWithDefaultSidebarModules_def)
qed

lemma default_section:
  assumes "map_of URL_TO_CONFIG_MAP u = Some (sect, modul)"
  obtains ds where "map_of DEFAULT_SIDEBAR_MODULES sect = Some (JObj ds)" "json_wf (JObj ds)"
    "obj_get (js ''enabled'') ds = JBool True" "obj_get modul ds = JBool True"
proof -
  define on where "on = (\<lambda>(sect, modul). case map_of DEFAULT_SIDEBAR_MODULES sect of
      Some (JObj ds) \<Rightarrow> json_wf (JObj ds) \<and> obj_get (js ''enabled'') ds = JBool True \<and> obj_get modul ds = JBool True
    | _ \<Rightarrow> False)"
  have "list_all (\<lambda>e. on (snd e)) URL_TO_CONFIG_MAP"
    by (simp add: on_def URL_TO_CONFIG_MAP_def DEFAULT_SIDEBAR_MODULES_def all_on_def obj_get_def obj_wf_def
        key_before_def is_index_key_def js_def is_digit_def)
  moreover have "(u, sect, modul) \<in> set URL_TO_CONFIG_MAP" using assms by (rule map_of_SomeD)
  ultimately have "on (sect, modul)" unfolding list_all_conv by force
  then obtain d where d: "map_of DEFAULT_SIDEBAR_MODULES sect = Some d"
    unfolding on_def by (cases "map_of DEFAULT_SIDEBAR_MODULES sect") auto
  with \<open>on (sect, modul)\<close> obtain ds where "d = JObj ds" unfolding on_def by (cases d) auto
  with d \<open>on (sect, modul)\<close> show thesis unfolding on_def by (intro that) auto
qed

lemma admin_layer_allows:
  assumes "map_of URL_TO_CONFIG_MAP u = Some (sect, modul)"
  shows "admin_layer (parseSidebarConfig t) sect modul \<longleftrightarrow> admin_allows t sect modul"
proof -
  from assms obtain ds where ds: "map_of DEFAULT_SIDEBAR_MODULES sect = Some (JObj ds)" "json_wf (JObj ds)"
    "obj_get (js ''enabled'') ds = JBool True" "obj_get modul ds = JBool True"
    by (rule default_section)
  show ?thesis
  proof (cases "admin_value t")
    case None
    then have "parseSidebarConfig t = DEFAULT_SIDEBAR_MODULES"
      by (auto simp: admin_value_def parseSidebarConfig_def split: option.splits if_splits)
    with None ds show ?thesis by (simp add: admin_layer_def admin_allows_def obj_get_def)
  next
    case (Some v)
    then obtain x where x: "t = Some x" "trim x \<noteq> []" "json_parse x = Some v"
      by (auto simp: admin_value_def split: option.splits if_splits)
    then have v: "json_wf v" and p: "parseSidebarConfig t = mergeWithDefaultSidebarModules v"
      by (auto simp: parseSidebarConfig_def json_parse_wf)
    show ?thesis
    proof (cases "truthy (own sect v)")
      case False
      with Some ds obj_get_merged [OF v ds(1)] show ?thesis
        by (simp add: admin_layer_def admin_allows_def p)
    next
      case True
      then have "json_wf (own sect v)" using own_wf [OF v, of sect] by (cases "own sect v") auto
      with True Some ds obj_get_merged [OF v ds(1)] show ?thesis
        by (auto simp: admin_layer_def admin_allows_def p obj_get_merge_section Let_def)
    qed
  qed
qed

lemma menu_link:
  "isModuleEnabled u (parseSidebarConfig t) c \<longleftrightarrow>
     (case map_of URL_TO_CONFIG_MAP u of
        None \<Rightarrow> True
      | Some (sect, modul) \<Rightarrow> admin_allows t sect modul \<and> user_layer c sect modul)"
  by (auto simp: isModuleEnabled_def admin_layer_allows split: option.split)

text \<open>
  C24. A link of the menu that the table maps to a module is shown exactly when the administrator's
  text allows the module and the user's does not switch it off. What the administrator allows is read
  off the text directly: completing it from the defaults means that everything it does not mention is
  on. A link outside the table is always shown.
\<close>

theorem menu_link_rule:
  "isModuleEnabled u (parseSidebarConfig t) c \<longleftrightarrow>
     (case map_of URL_TO_CONFIG_MAP u of
        None \<Rightarrow> True
      | Some (sect, modul) \<Rightarrow> admin_allows t sect modul \<and> user_layer c sect modul)"
  by (rule menu_link)

section \<open>The user's layer\<close>

lemma module_layers: "isModuleEnabled u a c \<Longrightarrow> isModuleEnabled u a None"
  by (auto simp: isModuleEnabled_def user_layer_def split: option.splits if_splits)

lemma visible_layers: "isNavItemVisible i a c \<Longrightarrow> isNavItemVisible i a None"
  by (cases i)
    (auto simp: isNavItemVisible_def list_ex_iff user_layer_def split: if_splits option.splits
      dest: module_layers)

lemma filter_sub_twice: "filter_sub_items a c (filter_sub_items a None i) = filter_sub_items a c i"
  by (cases i) (auto simp: filter_sub_items_def intro!: filter_cong dest: module_layers)

lemma visible_sub:
  "isNavItemVisible (filter_sub_items a c i) a c \<Longrightarrow> isNavItemVisible (filter_sub_items a None i) a None"
  by (cases i)
    (auto simp: filter_sub_items_def isNavItemVisible_def list_ex_iff user_layer_def
      split: if_splits option.splits dest: module_layers)

lemma filterNavItems_twice: "filterNavItems (filterNavItems is a None) a c = filterNavItems is a c"
  by (induction "is") (auto simp: filterNavItems_def filter_sub_twice dest: visible_sub)

fun item_urls :: "'icon NavItem \<Rightarrow> jstr list" where
  "item_urls (NavLink b u) = [u]"
| "item_urls (NavCollapsible b subs) = map snd subs"
| "item_urls (NavChatPresets b) = []"

definition menu_urls :: "'icon NavGroup list \<Rightarrow> jstr list" where
  "menu_urls gs = concat (map (\<lambda>g. concat (map item_urls (group_items g))) gs)"

fun has_children :: "'icon NavItem \<Rightarrow> bool" where
  "has_children (NavCollapsible b subs) = (subs \<noteq> [])"
| "has_children _ = True"

lemma filterNavItems_urls:
  "set (concat (map item_urls (filterNavItems is a c))) \<subseteq> set (concat (map item_urls is))"
proof -
  have "set (item_urls (filter_sub_items a c i)) \<subseteq> set (item_urls i)" for i :: "'a NavItem"
    by (cases i) (auto simp: filter_sub_items_def)
  then show ?thesis by (fastforce simp: filterNavItems_def)
qed

lemma filterNavItems_children: "i \<in> set (filterNavItems is a c) \<Longrightarrow> has_children i"
  by (cases i) (auto simp: filterNavItems_def isNavItemVisible_def)

lemma useSidebarConfig_urls: "set (menu_urls (useSidebarConfig gs t p m)) \<subseteq> set (menu_urls gs)"
  using filterNavItems_urls by (fastforce simp: useSidebarConfig_def menu_urls_def Let_def)

lemma useSidebarConfig_twice:
  "useSidebarConfig (useSidebarConfig gs t (JBool False) m') t p m = useSidebarConfig gs t p m"
proof (induction gs)
  case (Cons g gs)
  let ?a = "parseSidebarConfig t" and ?c = "user_config p m"
  have "filterNavItems (group_items g) ?a None = [] \<Longrightarrow> filterNavItems (group_items g) ?a ?c = []"
    using filterNavItems_twice [of "group_items g" ?a ?c] by (simp add: filterNavItems_def)
  with Cons show ?case
    by (auto simp: useSidebarConfig_def Let_def filterNavItems_twice user_config_def [of "JBool False"])
qed (simp add: useSidebarConfig_def)

text \<open>
  C37. The user's configuration only narrows the menu the administrator allows, which is what a user
  sees who may not configure the side bar: filtering that menu once more gives the user's menu, no
  link appears that is not in it, and neither a group nor a collapsible entry is left without
  children.
\<close>

theorem user_layer_narrows:
  "useSidebarConfig (useSidebarConfig gs t (JBool False) m) t p m = useSidebarConfig gs t p m \<and>
   set (menu_urls (useSidebarConfig gs t p m)) \<subseteq> set (menu_urls (useSidebarConfig gs t (JBool False) m)) \<and>
   list_all (\<lambda>g. group_items g \<noteq> [] \<and> list_all has_children (group_items g)) (useSidebarConfig gs t p m)"
proof (intro conjI)
  show "list_all (\<lambda>g. group_items g \<noteq> [] \<and> list_all has_children (group_items g)) (useSidebarConfig gs t p m)"
    by (auto simp: useSidebarConfig_def Let_def list_all_conv filterNavItems_children)
  show "set (menu_urls (useSidebarConfig gs t p m)) \<subseteq> set (menu_urls (useSidebarConfig gs t (JBool False) m))"
    using useSidebarConfig_urls [of "useSidebarConfig gs t (JBool False) m" t p m]
    by (simp only: useSidebarConfig_twice)
qed (rule useSidebarConfig_twice)

section \<open>Route guards\<close>

text \<open>
  The guard takes only \<open>false\<close> for off. The menu wants a true \<open>enabled\<close> and \<open>true\<close> for the entry, where
  they are given. A switch that is given as something else, as \<open>0\<close>, \<open>null\<close> or \<open>"false"\<close>, is loose: it
  closes the entry of the menu and not the page.
\<close>

definition loose_switch :: "jstr \<Rightarrow> jstr \<Rightarrow> jstr \<Rightarrow> bool" where
  "loose_switch t sect modul =
     (case admin_value (Some t) of
        None \<Rightarrow> False
      | Some v \<Rightarrow>
          let s = own sect v; e = own (js ''enabled'') s; m = own modul s in
          truthy s \<and> e \<noteq> JBool False \<and> m \<noteq> JBool False \<and>
          (e \<noteq> JUndef \<and> \<not> truthy e \<or> m \<noteq> JUndef \<and> m \<noteq> JBool True))"

lemma word_own:
  assumes "k \<noteq> []" "\<forall>c\<in>set k. 97 \<le> c" "k \<noteq> js ''length''"
  shows "get_prop k v = own k v"
proof -
  have h: "hd k \<in> set k" using assms(1) by simp
  then have "97 \<le> hd k" using assms(2) by blast
  then have "\<not> is_digit (hd k)" by (simp add: is_digit_def)
  with h have k: "\<not> is_index_key k" "k \<noteq> dec n" for n
    using dec_digits [of "hd k" n] by (auto simp: is_index_key_def list_all_conv)
  have "map_of (zip (map dec [0..<n]) vs) k = None" for n and vs :: "jsval list"
    using set_zip_leftD [of k _ "map dec [0..<n]" vs] k(2) by (fastforce simp: map_of_eq_None_iff)
  with k(1) assms(3) show ?thesis by (cases v) (simp_all add: own_def obj_get_def)
qed

lemma table_words:
  assumes "map_of URL_TO_CONFIG_MAP u = Some (sect, modul)"
  shows "get_prop sect v = own sect v" "get_prop modul v = own modul v" "get_prop (js ''enabled'') v = own (js ''enabled'') v"
proof -
  define word where "word k \<longleftrightarrow> k \<noteq> [] \<and> (\<forall>c\<in>set k. 97 \<le> c) \<and> k \<noteq> js ''length''" for k
  have "list_all (\<lambda>e. word (fst (snd e)) \<and> word (snd (snd e))) URL_TO_CONFIG_MAP"
    by (simp add: URL_TO_CONFIG_MAP_def word_def) (simp add: js_def)
  moreover have "(u, sect, modul) \<in> set URL_TO_CONFIG_MAP" using assms by (rule map_of_SomeD)
  ultimately have "word sect" "word modul" unfolding list_all_conv by force+
  then show "get_prop sect v = own sect v" "get_prop modul v = own modul v" by (auto simp: word_def intro: word_own)
  show "get_prop (js ''enabled'') v = own (js ''enabled'') v" by (rule word_own) (simp_all add: js_def)
qed

lemma own_nullish: "is_nullish v \<Longrightarrow> own k v = JUndef"
  by (cases v) (simp_all add: own_def obj_get_def)

lemma guard_rule:
  assumes "open_storage s" "json_ok (JObj st)" "obj_get (js ''SidebarModulesAdmin'') st = JStr t"
    and "map_of URL_TO_CONFIG_MAP u = Some (sect, modul)"
  shows "isSidebarModuleEnabled sect modul (cacheStatus (JObj st) s) =
    Some (isModuleEnabled u (parseSidebarConfig (Some t)) None \<or> loose_switch t sect modul)"
proof -
  have cached: "getCachedStatus (cacheStatus (JObj st) s) = JObj st"
    using assms(1,2) by (intro statusSlot.load_save) auto
  have menu: "isModuleEnabled u (parseSidebarConfig (Some t)) None = admin_allows (Some t) sect modul"
    using assms(4) by (simp add: menu_link user_layer_def)
  note words = table_words [OF assms(4)]
  show ?thesis
  proof (cases "json_parse t")
    case None
    then show ?thesis unfolding menu
      by (simp add: isSidebarModuleEnabled_def cached assms(3) admin_allows_def admin_value_def loose_switch_def Let_def)
  next
    case (Some v)
    then have t: "t \<noteq> []" "trim t \<noteq> []" using json_parse_blank [of t] by auto
    show ?thesis
    proof (cases "is_nullish v")
      case True
      with Some t own_nullish [OF True] show ?thesis unfolding menu
        by (simp add: isSidebarModuleEnabled_def cached assms(3) admin_allows_def admin_value_def loose_switch_def Let_def)
    next
      case False
      with Some t show ?thesis unfolding menu
        by (auto simp: isSidebarModuleEnabled_def cached assms(3) admin_allows_def admin_value_def loose_switch_def Let_def words)
    qed
  qed
qed

text \<open>
  C35. The guard of a route and the menu, for a page of the table and any text of the setting:
  \<open>isSidebarModuleEnabled\<close>, which reads the cached status, lets in exactly where the administrator's layer
  of the menu shows the page's link, and besides where a switch of the page is loose.
\<close>

theorem route_guard_rule:
  assumes "open_storage s" "json_ok (JObj st)" "obj_get (js ''SidebarModulesAdmin'') st = JStr t"
    and "map_of URL_TO_CONFIG_MAP u = Some (sect, modul)"
  shows "isSidebarModuleEnabled sect modul (cacheStatus (JObj st) s) =
    Some (isModuleEnabled u (parseSidebarConfig (Some t)) None \<or> loose_switch t sect modul)"
  by (rule guard_rule [OF assms])

text \<open>A configuration as the administration page writes it, sections of booleans, has no loose switch.\<close>

fun switches :: "jsval \<Rightarrow> bool" where
  "switches (JObj ps) = list_all (\<lambda>p. snd p \<in> {JBool True, JBool False}) ps"
| "switches _ = False"

fun sections_of_switches :: "jsval \<Rightarrow> bool" where
  "sections_of_switches (JObj ps) = list_all (\<lambda>p. switches (snd p)) ps"
| "sections_of_switches _ = False"

lemma sections_of_switches_own:
  "sections_of_switches v \<Longrightarrow> own k v = JUndef \<or> switches (own k v)"
  by (cases v) (auto simp: own_def obj_get_def list_all_conv dest!: map_of_SomeD split: option.splits)

lemma switches_own: "switches v \<Longrightarrow> own k v \<in> {JUndef, JBool True, JBool False}"
  by (cases v) (auto simp: own_def obj_get_def list_all_conv dest!: map_of_SomeD split: option.splits)

lemma switches_agree:
  assumes "open_storage s" "json_ok (JObj st)" "obj_get (js ''SidebarModulesAdmin'') st = JStr t"
    and "map_of URL_TO_CONFIG_MAP u = Some (sect, modul)"
    and "case json_parse t of None \<Rightarrow> True | Some v \<Rightarrow> sections_of_switches v"
  shows "isSidebarModuleEnabled sect modul (cacheStatus (JObj st) s) =
    Some (isModuleEnabled u (parseSidebarConfig (Some t)) None)"
proof -
  have "\<not> loose_switch t sect modul"
  proof (cases "admin_value (Some t)")
    case (Some v)
    then have "sections_of_switches v" using assms(5) by (auto simp: admin_value_def split: if_splits)
    then have "own sect v = JUndef \<or> switches (own sect v)" by (rule sections_of_switches_own)
    with switches_own [of "own sect v"] Some show ?thesis by (fastforce simp: loose_switch_def Let_def)
  qed (simp add: loose_switch_def)
  then show ?thesis by (simp add: guard_rule [OF assms(1-4)])
qed

text \<open>\<open>{"chat":{"playground":false}}\<close> closes the playground page and hides its link.\<close>

definition sample_admin :: jsval where
  "sample_admin = JObj [(js ''chat'', JObj [(js ''playground'', JBool False)])]"

definition sample_status :: "(jstr \<times> jsval) list" where
  "sample_status = [(js ''SidebarModulesAdmin'', JStr (ser sample_admin))]"

lemma sample_admin_parses: "json_parse (ser sample_admin) = Some sample_admin"
  by (rule json_roundtrip) (simp add: sample_admin_def obj_wf_def)

lemma sample_cached: "open_storage empty_storage" "json_ok (JObj [(js ''SidebarModulesAdmin'', JStr t)])"
  "obj_get (js ''SidebarModulesAdmin'') [(js ''SidebarModulesAdmin'', JStr t)] = JStr t"
  "map_of URL_TO_CONFIG_MAP (js ''/playground'') = Some (js ''chat'', js ''playground'')"
  by (simp_all add: open_storage_def empty_storage_def obj_wf_def obj_get_def URL_TO_CONFIG_MAP_def)

lemma sample_closed: "\<not> isModuleEnabled (js ''/playground'') (parseSidebarConfig (Some (ser sample_admin))) None"
proof -
  have "trim (ser sample_admin) \<noteq> []" using sample_admin_parses json_parse_blank by fastforce
  then show ?thesis using sample_admin_parses
    by (simp add: menu_link URL_TO_CONFIG_MAP_def admin_allows_def admin_value_def del: ser.simps)
      (simp add: sample_admin_def obj_get_def Let_def)
qed

lemma route_guard_rule_witness:
  "isSidebarModuleEnabled (js ''chat'') (js ''playground'') (cacheStatus (JObj sample_status) empty_storage) = Some False"
proof -
  have "\<not> loose_switch (ser sample_admin) (js ''chat'') (js ''playground'')"
    using sample_admin_parses
    by (simp add: loose_switch_def admin_value_def Let_def del: ser.simps) (simp add: sample_admin_def obj_get_def)
  with route_guard_rule [OF sample_cached] sample_closed show ?thesis by (simp add: sample_status_def)
qed

end
