(* ===== verification/SiteSettings.thy ===== *)
theory SiteSettings
  imports SidebarConfig
begin

text \<open>
  The administrator's editor of the two navigation settings:
  \<open>src/newapi/web/default/src/features/system-settings/maintenance/config.ts\<close>.

  The editor parses the stored texts with code of its own, shows the switches, and stores what
  \<open>JSON.stringify\<close> makes of them. The site reads that text with \<open>NavModules\<close> and \<open>SidebarConfig\<close>.
  The theorems compose the two sides: what the editor shows and saves is what the site applies.

  A name that every object inherits (\<open>toString\<close>) has a fallback that is no boolean; \<open>JSON.stringify\<close>
  drops it or the site never asks for it, so the side bar model takes \<open>true\<close>. A section named
  \<open>__proto__\<close> would change the prototype of the result and is outside the model; the theorem that
  could meet it excludes it.
\<close>

definition inherited_names :: "jstr list" where
  "inherited_names = map js
     [''constructor'', ''__defineGetter__'', ''__defineSetter__'', ''hasOwnProperty'', ''__lookupGetter__'',
      ''__lookupSetter__'', ''isPrototypeOf'', ''propertyIsEnumerable'', ''toString'', ''valueOf'',
      ''__proto__'', ''toLocaleString'']"

section \<open>Header navigation\<close>

type_synonym HeaderNavAccessConfig = ModuleAccess
type_synonym HeaderNavModulesConfig = HeaderNavModules

definition HEADER_NAV_DEFAULT :: HeaderNavModulesConfig where
  "HEADER_NAV_DEFAULT =
     \<lparr>flags = [(js ''home'', True), (js ''console'', True), (js ''docs'', True), (js ''about'', True)],
      pricing = \<lparr>enabled = True, requireAuth = False\<rparr>,
      rankings = \<lparr>enabled = True, requireAuth = False\<rparr>\<rparr>"

definition toBoolean :: "jsval \<Rightarrow> bool \<Rightarrow> bool" where
  "toBoolean value fallback =
     (case value of
        JBool b \<Rightarrow> b
      | JNum x \<Rightarrow> x = Fin 1
      | JStr s \<Rightarrow>
          let normalized = ascii_lower (trim s) in
          if normalized = js ''true'' \<or> normalized = js ''1'' then True
          else if normalized = js ''false'' \<or> normalized = js ''0'' then False
          else fallback
      | _ \<Rightarrow> fallback)"

definition parseAccessModule :: "jsval \<Rightarrow> HeaderNavAccessConfig \<Rightarrow> HeaderNavAccessConfig" where
  "parseAccessModule raw fallback =
     (if is_primitive_setting raw then
        \<lparr>enabled = toBoolean raw (enabled fallback), requireAuth = requireAuth fallback\<rparr>
      else if truthy raw \<and> is_object raw then
        \<lparr>enabled = toBoolean (get_prop (js ''enabled'') raw) (enabled fallback),
         requireAuth = toBoolean (get_prop (js ''requireAuth'') raw) (requireAuth fallback)\<rparr>
      else fallback)"

text \<open>\<open>Boolean(base[key])\<close> is true for a built-in entry and for an inherited name.\<close>

definition header_entry :: "HeaderNavModulesConfig \<Rightarrow> jstr \<times> jsval \<Rightarrow> HeaderNavModulesConfig" where
  "header_entry result = (\<lambda>(key, raw).
     let base = HEADER_NAV_DEFAULT;
         known = (map_of (flags base) key = Some True \<or> key \<in> set inherited_names) in
     if key = js ''pricing'' then result\<lparr>pricing := parseAccessModule raw (pricing base)\<rparr>
     else if key = js ''rankings'' then result\<lparr>rankings := parseAccessModule raw (rankings base)\<rparr>
     else if is_primitive_setting raw \<and> key \<noteq> js ''__proto__'' then
       result\<lparr>flags := map_set key (toBoolean raw known) (flags result)\<rparr>
     else result)"

definition editor_parseHeaderNav :: "jstr option \<Rightarrow> HeaderNavModulesConfig" where
  "editor_parseHeaderNav value =
     (case value of
        None \<Rightarrow> HEADER_NAV_DEFAULT
      | Some t \<Rightarrow>
          if t = [] then HEADER_NAV_DEFAULT
          else case json_parse t of
            None \<Rightarrow> HEADER_NAV_DEFAULT
          | Some parsed \<Rightarrow>
              if is_nullish parsed then HEADER_NAV_DEFAULT
              else foldl header_entry HEADER_NAV_DEFAULT (entries parsed))"

text \<open>The object of a configuration: the built-in entries in their order, then the added ones.\<close>

definition access_value :: "HeaderNavAccessConfig \<Rightarrow> jsval" where
  "access_value a = JObj [(js ''enabled'', JBool (enabled a)), (js ''requireAuth'', JBool (requireAuth a))]"

definition header_value :: "HeaderNavModulesConfig \<Rightarrow> (jstr \<times> jsval) list" where
  "header_value c =
     foldl (\<lambda>m p. obj_set (fst p) (snd p) m)
       [(js ''home'', JUndef), (js ''console'', JUndef), (js ''pricing'', access_value (pricing c)),
        (js ''rankings'', access_value (rankings c)), (js ''docs'', JUndef), (js ''about'', JUndef)]
       (map (\<lambda>p. (fst p, JBool (snd p))) (flags c))"

definition serializeHeaderNavModules :: "HeaderNavModulesConfig \<Rightarrow> jstr" where
  "serializeHeaderNavModules config = json_text (JObj (header_value config))"

section \<open>Side bar\<close>

definition SIDEBAR_MODULES_DEFAULT :: "(jstr \<times> jsval) list" where
  "SIDEBAR_MODULES_DEFAULT =
     [(js ''chat'', all_on [''enabled'', ''playground'', ''chat'']),
      (js ''console'', all_on [''enabled'', ''detail'', ''token'', ''log'', ''midjourney'', ''task'']),
      (js ''personal'', all_on [''enabled'', ''topup'', ''personal'']),
      (js ''admin'', all_on [''enabled'', ''channel'', ''models'', ''redemption'', ''user'', ''setting'',
         ''subscription''])]"

text \<open>\<open>defaultSection[moduleKey] ?? true\<close>; the defaults are booleans.\<close>

definition default_switch :: "jstr \<Rightarrow> jsval \<Rightarrow> bool" where
  "default_switch k d = (case get_prop k d of JBool b \<Rightarrow> b | _ \<Rightarrow> True)"

definition module_entry :: "jsval \<Rightarrow> (jstr \<times> jsval) list \<Rightarrow> jstr \<times> jsval \<Rightarrow> (jstr \<times> jsval) list" where
  "module_entry defaultSection sectionConfig = (\<lambda>(moduleKey, moduleValue).
     if moduleKey = js ''enabled'' then sectionConfig
     else obj_set moduleKey (JBool (toBoolean moduleValue (default_switch moduleKey defaultSection))) sectionConfig)"

definition section_entry :: "(jstr \<times> jsval) list \<Rightarrow> jstr \<times> jsval \<Rightarrow> (jstr \<times> jsval) list" where
  "section_entry result = (\<lambda>(sectionKey, raw).
     if \<not> truthy raw \<or> \<not> is_object raw then result
     else
       let defaultSection = (case map_of SIDEBAR_MODULES_DEFAULT sectionKey of
             Some d \<Rightarrow> d | None \<Rightarrow> JObj [(js ''enabled'', JBool True)]);
           sectionConfig = [(js ''enabled'', JBool (toBoolean (get_prop (js ''enabled'') raw)
             (default_switch (js ''enabled'') defaultSection)))] in
       obj_set sectionKey (JObj (foldl (module_entry defaultSection) sectionConfig (entries raw))) result)"

definition complete_section :: "(jstr \<times> jsval) list \<Rightarrow> (jstr \<times> jsval) list \<Rightarrow> (jstr \<times> jsval) list" where
  "complete_section config sec = foldl (\<lambda>m p. if obj_has (fst p) m then m else obj_set (fst p) (snd p) m) sec config"

definition complete_entry :: "(jstr \<times> jsval) list \<Rightarrow> jstr \<times> jsval \<Rightarrow> (jstr \<times> jsval) list" where
  "complete_entry result = (\<lambda>(sectionKey, config).
     if \<not> truthy (obj_get sectionKey result) then obj_set sectionKey config result
     else obj_set sectionKey
       (JObj (complete_section (entries config) (entries (obj_get sectionKey result)))) result)"

definition parseSidebarModulesAdmin :: "jstr option \<Rightarrow> (jstr \<times> jsval) list" where
  "parseSidebarModulesAdmin value =
     (case value of
        None \<Rightarrow> SIDEBAR_MODULES_DEFAULT
      | Some t \<Rightarrow>
          if t = [] \<or> trim t = [] then SIDEBAR_MODULES_DEFAULT
          else case json_parse t of
            None \<Rightarrow> SIDEBAR_MODULES_DEFAULT
          | Some parsed \<Rightarrow>
              if is_nullish parsed then SIDEBAR_MODULES_DEFAULT
              else foldl complete_entry (foldl section_entry [] (entries parsed)) SIDEBAR_MODULES_DEFAULT)"

definition serializeSidebarModulesAdmin :: "(jstr \<times> jsval) list \<Rightarrow> jstr" where
  "serializeSidebarModulesAdmin config = json_text (JObj config)"

lemma same_defaults: "SIDEBAR_MODULES_DEFAULT = DEFAULT_SIDEBAR_MODULES" "HEADER_NAV_DEFAULT = DEFAULT_HEADER_NAV_MODULES"
  by (simp_all add: SIDEBAR_MODULES_DEFAULT_def DEFAULT_SIDEBAR_MODULES_def HEADER_NAV_DEFAULT_def
      DEFAULT_HEADER_NAV_MODULES_def)

section \<open>The saved header setting\<close>

definition built_in :: "jstr list" where
  "built_in = map js [''home'', ''console'', ''docs'', ''about'']"

definition header_ok :: "HeaderNavModulesConfig \<Rightarrow> bool" where
  "header_ok c \<longleftrightarrow> distinct (map fst (flags c)) \<and> set built_in \<subseteq> fst ` set (flags c) \<and>
     fst ` set (flags c) \<inter> {js ''pricing'', js ''rankings'', js ''__proto__''} = {}"

lemma header_entry_ok: "header_ok c \<Longrightarrow> header_ok (header_entry c e)"
  by (cases e) (auto simp: header_entry_def header_ok_def Let_def distinct_map_set)

lemma editor_header_ok: "header_ok (editor_parseHeaderNav t)"
proof -
  have base: "header_ok HEADER_NAV_DEFAULT"
    by (simp add: header_ok_def HEADER_NAV_DEFAULT_def built_in_def)
  have "header_ok c \<Longrightarrow> header_ok (foldl header_entry c es)" for c es
    by (induction es arbitrary: c) (simp_all add: header_entry_ok)
  with base show ?thesis by (auto simp: editor_parseHeaderNav_def split: option.split)
qed

lemma header_keys:
  assumes "header_ok c"
  shows "k \<in> {js ''pricing'', js ''rankings'', js ''__proto__''} \<Longrightarrow> map_of (flags c) k = None"
    and "k \<in> set built_in \<Longrightarrow> map_of (flags c) k \<noteq> None"
  using assms unfolding header_ok_def map_of_eq_None_iff by blast+

lemma header_value_get:
  assumes "header_ok c"
  shows "map_of (header_value c) k =
    (if k = js ''pricing'' then Some (access_value (pricing c))
     else if k = js ''rankings'' then Some (access_value (rankings c))
     else map_option JBool (map_of (flags c) k))"
proof -
  let ?f = "map (\<lambda>p. (fst p, JBool (snd p))) (flags c)"
  have "distinct (map fst ?f)" using assms by (simp add: header_ok_def comp_def)
  note m = map_of_fold_assign [OF this]
  have f: "map_of (map (\<lambda>p. (fst p, JBool (snd p))) fs) k = map_option JBool (map_of fs k)" for fs
    by (induction fs) auto
  have none: "map_of (flags c) (js ''pricing'') = None" "map_of (flags c) (js ''rankings'') = None"
    by (rule header_keys [OF assms]; simp)+
  have some: "map_of (flags c) k \<noteq> None" if "k \<in> set built_in"
    using that by (rule header_keys [OF assms])
  show ?thesis
    using none some by (auto simp: header_value_def m f map_add_def built_in_def split: option.split)
qed

lemma header_value_json: "header_ok c \<Longrightarrow> json_ok (JObj (header_value c))"
proof -
  assume c: "header_ok c"
  have fold: "obj_wf b \<Longrightarrow> obj_wf (foldl (\<lambda>m p. obj_set (fst p) (snd p) m) b ps)" for b and ps :: "(jstr \<times> jsval) list"
    by (induction ps arbitrary: b) (simp_all add: obj_wf_set)
  have wf: "obj_wf (header_value c)" unfolding header_value_def
    by (rule fold) (simp add: obj_wf_def key_before_def is_index_key_def js_def is_digit_def)
  have "json_ok v" if "(k, v) \<in> set (header_value c)" for k v
  proof -
    have "map_of (header_value c) k = Some v" using wf that by (simp add: obj_wf_def)
    then show ?thesis unfolding header_value_get [OF c]
      by (auto simp: access_value_def obj_wf_def key_before_def is_index_key_def js_def is_digit_def split: if_splits)
  qed
  with wf show ?thesis by auto
qed

text \<open>
  What the editor shows for the header is what the site applies: whatever text is stored, saving
  the configuration the editor made of it and reading the saved text with the site's parser gives the
  same access to both guarded pages and the same flag for every other entry.
\<close>

theorem saved_header_applies:
  "\<exists>r. parseHeaderNavModules (JStr (serializeHeaderNavModules (editor_parseHeaderNav t))) = Some r \<and>
     pricing r = pricing (editor_parseHeaderNav t) \<and> rankings r = rankings (editor_parseHeaderNav t) \<and>
     (\<forall>k. map_of (flags r) k = map_of (flags (editor_parseHeaderNav t)) k)"
proof -
  define c where "c = editor_parseHeaderNav t"
  have c: "header_ok c" unfolding c_def by (rule editor_header_ok)
  have "json_parse (serializeHeaderNavModules c) = Some (JObj (header_value c))"
    using json_roundtrip [OF header_value_json [OF c]]
    by (simp add: serializeHeaderNavModules_def json_text_def json_stringify_def del: ser.simps)
  note r = parse_nav_text [OF this]
  have d: "distinct (map fst (header_value c))" using header_value_json [OF c] by (simp add: obj_wf_def)
  have access: "parseAccess (access_value a) b = a" for a b
    by (simp add: parseAccess_def access_value_def parseHeaderNavBoolean_def obj_get_def)
  have "map_of (flags (foldl nav_entry DEFAULT_HEADER_NAV_MODULES (header_value c))) k = map_of (flags c) k" for k
  proof -
    have "map_of (flags c) k = None" if "k \<in> {js ''pricing'', js ''rankings'', js ''__proto__''}"
      using that by (rule header_keys [OF c])
    moreover have "map_of (flags c) k \<noteq> None" if "k \<in> {js ''home'', js ''console'', js ''docs'', js ''about''}"
      by (rule header_keys [OF c]) (use that in \<open>auto simp: built_in_def\<close>)
    ultimately show ?thesis
      unfolding nav_flags [OF d] obj_get_def header_value_get [OF c]
      by (cases "map_of (flags c) k") (auto simp: parseHeaderNavBoolean_def)
  qed
  with r show ?thesis unfolding c_def [symmetric]
    by (intro exI [of _ "foldl nav_entry DEFAULT_HEADER_NAV_MODULES (header_value c)"])
      (simp add: nav_entries_fields [OF d] obj_get_def header_value_get [OF c] access)
qed

section \<open>The saved side bar setting\<close>

definition tidy :: "(jstr \<times> jsval) list \<Rightarrow> bool" where
  "tidy c \<longleftrightarrow> obj_wf c \<and> (\<forall>p\<in>set c. switches (snd p) \<and> json_ok (snd p))"

lemma tidy_set: "tidy c \<Longrightarrow> switches s \<Longrightarrow> json_ok s \<Longrightarrow> tidy (obj_set k s c)"
  using set_obj_set [of k s c] by (auto simp: tidy_def obj_wf_set)

definition switch_list :: "(jstr \<times> jsval) list \<Rightarrow> bool" where
  "switch_list ps \<longleftrightarrow> obj_wf ps \<and> (\<forall>p\<in>set ps. snd p \<in> {JBool True, JBool False})"

lemma switch_list_object: "switch_list ps \<longleftrightarrow> switches (JObj ps) \<and> json_ok (JObj ps)"
  by (auto simp: switch_list_def list_all_conv)

lemma switch_list_set: "switch_list ps \<Longrightarrow> v \<in> {JBool True, JBool False} \<Longrightarrow> switch_list (obj_set k v ps)"
  using set_obj_set [of k v ps] by (auto simp: switch_list_def obj_wf_set)

lemma module_entries_switches: "switch_list s \<Longrightarrow> switch_list (foldl (module_entry d) s es)"
proof (induction es arbitrary: s)
  case (Cons e es)
  have "JBool b \<in> {JBool True, JBool False}" for b by (cases b) simp_all
  then have "switch_list (module_entry d s e)"
    using Cons.prems by (cases e) (auto simp: module_entry_def intro: switch_list_set)
  with Cons.IH show ?case by simp
qed simp

lemma section_entries_tidy: "tidy c \<Longrightarrow> tidy (foldl section_entry c es)"
proof (induction es arbitrary: c)
  case (Cons e es)
  have "switch_list [(k, JBool b)]" for k b by (cases b) (simp_all add: switch_list_def obj_wf_def)
  then have ok: "switches (JObj (foldl (module_entry d) [(k, JBool b)] es))"
    "json_ok (JObj (foldl (module_entry d) [(k, JBool b)] es))" for d k b es
    using module_entries_switches switch_list_object by blast+
  then have "tidy (section_entry c e)" using Cons.prems
    by (cases e) (simp add: section_entry_def Let_def tidy_set del: switches.simps json_ok.simps)
  with Cons.IH show ?case by simp
qed simp

lemma default_switches: "map_of SIDEBAR_MODULES_DEFAULT k = Some d \<Longrightarrow> \<exists>ds. d = JObj ds \<and> switch_list ds"
proof -
  have "list_all (\<lambda>p. switches (snd p) \<and> json_ok (snd p)) SIDEBAR_MODULES_DEFAULT"
    by (simp add: SIDEBAR_MODULES_DEFAULT_def all_on_def obj_wf_def key_before_def is_index_key_def js_def is_digit_def)
  moreover assume "map_of SIDEBAR_MODULES_DEFAULT k = Some d"
  then have "(k, d) \<in> set SIDEBAR_MODULES_DEFAULT" by (rule map_of_SomeD)
  ultimately have "switches d \<and> json_ok d" unfolding list_all_conv by fastforce
  then show ?thesis by (cases d) (auto simp: switch_list_object simp del: json_ok.simps)
qed

lemma complete_section_switches:
  "switch_list s \<Longrightarrow> \<forall>p\<in>set ds. snd p \<in> {JBool True, JBool False} \<Longrightarrow> switch_list (complete_section ds s)"
  unfolding complete_section_def by (induction ds arbitrary: s) (simp_all add: switch_list_set)

lemma complete_section_keys: "fst ` set (complete_section ds s) = fst ` set s \<union> fst ` set ds"
  unfolding complete_section_def by (induction ds arbitrary: s) (auto simp: obj_has_def)

lemma complete_section_keeps: "obj_has k s \<Longrightarrow> obj_get k (complete_section ds s) = obj_get k s \<and> obj_has k (complete_section ds s)"
  unfolding complete_section_def by (induction ds arbitrary: s) auto

lemma completed_get:
  "obj_get k (foldl complete_entry c SIDEBAR_MODULES_DEFAULT) =
     (case map_of SIDEBAR_MODULES_DEFAULT k of None \<Rightarrow> obj_get k c
      | Some d \<Rightarrow> if \<not> truthy (obj_get k c) then d
          else JObj (complete_section (entries d) (entries (obj_get k c))))"
proof -
  let ?g = "\<lambda>d old. if \<not> truthy old then d else JObj (complete_section (entries d) (entries old))"
  have "distinct (map fst SIDEBAR_MODULES_DEFAULT)" by (simp add: SIDEBAR_MODULES_DEFAULT_def)
  from fold_update_get [OF this, of complete_entry ?g] show ?thesis
    by (simp add: complete_entry_def Let_def)
qed

lemma tidy_get: "tidy c \<Longrightarrow> obj_get k c = JUndef \<or> (\<exists>ps. obj_get k c = JObj ps \<and> switch_list ps)"
proof (cases "map_of c k")
  case (Some v)
  assume "tidy c"
  with map_of_SomeD [OF Some] have "switches v" "json_ok v" unfolding tidy_def by fastforce+
  with Some show ?thesis by (cases v) (auto simp: obj_get_def switch_list_object simp del: json_ok.simps)
qed (simp add: obj_get_def)

lemma complete_entries_tidy:
  "list_all (\<lambda>p. \<exists>ds. snd p = JObj ds \<and> switch_list ds) es \<Longrightarrow> tidy c \<Longrightarrow> tidy (foldl complete_entry c es)"
proof (induction es arbitrary: c)
  case (Cons e es)
  obtain k ds where e: "e = (k, JObj ds)" and ds: "switch_list ds" using Cons.prems(1) by (cases e) auto
  have "tidy (complete_entry c e)"
  proof (cases "truthy (obj_get k c)")
    case True
    then obtain ps where "obj_get k c = JObj ps" "switch_list ps" using tidy_get [OF Cons.prems(2), of k] by auto
    moreover have "\<forall>p\<in>set ds. snd p \<in> {JBool True, JBool False}" using ds by (simp add: switch_list_def)
    ultimately have "switch_list (complete_section ds ps)" by (intro complete_section_switches)
    with \<open>obj_get k c = JObj ps\<close> Cons.prems(2) show ?thesis
      by (simp add: complete_entry_def e tidy_set switch_list_object del: switches.simps json_ok.simps)
  next
    case False
    with ds Cons.prems(2) show ?thesis
      by (simp add: complete_entry_def e tidy_set switch_list_object del: switches.simps json_ok.simps)
  qed
  with Cons show ?case by simp
qed simp

lemma defaults_switch_lists: "list_all (\<lambda>p. \<exists>ds. snd p = JObj ds \<and> switch_list ds) SIDEBAR_MODULES_DEFAULT"
proof -
  have "distinct (map fst SIDEBAR_MODULES_DEFAULT)" by (simp add: SIDEBAR_MODULES_DEFAULT_def)
  then show ?thesis unfolding list_all_conv
    by (metis default_switches map_of_is_SomeI prod.collapse)
qed

lemma tidy_defaults: "tidy SIDEBAR_MODULES_DEFAULT"
  by (simp add: tidy_def SIDEBAR_MODULES_DEFAULT_def all_on_def obj_wf_def key_before_def is_index_key_def js_def is_digit_def)

lemma editor_sidebar_cases:
  obtains (defaults) "parseSidebarModulesAdmin t = SIDEBAR_MODULES_DEFAULT"
  | (merged) c where "tidy c" "parseSidebarModulesAdmin t = foldl complete_entry c SIDEBAR_MODULES_DEFAULT"
proof -
  have "tidy []" by (simp add: tidy_def obj_wf_def)
  then have "tidy (foldl section_entry [] es)" for es by (rule section_entries_tidy)
  then have "parseSidebarModulesAdmin t = SIDEBAR_MODULES_DEFAULT \<or>
      (\<exists>c. tidy c \<and> parseSidebarModulesAdmin t = foldl complete_entry c SIDEBAR_MODULES_DEFAULT)"
    by (auto simp: parseSidebarModulesAdmin_def split: option.split)
  then show thesis using that by blast
qed

lemma editor_tidy: "tidy (parseSidebarModulesAdmin t)"
  by (rule editor_sidebar_cases [of t]) (simp_all add: tidy_defaults complete_entries_tidy defaults_switch_lists)

lemma editor_section:
  assumes "map_of URL_TO_CONFIG_MAP u = Some (sect, modul)"
  shows "\<exists>ps. obj_get sect (parseSidebarModulesAdmin t) = JObj ps \<and> switch_list ps \<and>
    obj_has (js ''enabled'') ps \<and> obj_has modul ps"
proof -
  from assms obtain ds where ds: "map_of DEFAULT_SIDEBAR_MODULES sect = Some (JObj ds)"
    "obj_get (js ''enabled'') ds = JBool True" "obj_get modul ds = JBool True" by (rule default_section)
  then have has: "obj_has (js ''enabled'') ds" "obj_has modul ds" using obj_has_get by force+
  have sl: "switch_list ds" using default_switches [of sect] ds(1) by (simp add: same_defaults)
  show ?thesis
  proof (cases t rule: editor_sidebar_cases)
    case defaults
    with ds(1) has sl show ?thesis by (simp add: same_defaults obj_get_def)
  next
    case (merged c)
    show ?thesis
    proof (cases "truthy (obj_get sect c)")
      case True
      then obtain ps where ps: "obj_get sect c = JObj ps" "switch_list ps" using tidy_get [OF merged(1), of sect] by auto
      have "switch_list (complete_section ds ps)"
        using sl by (intro complete_section_switches [OF ps(2)]) (simp add: switch_list_def)
      moreover have "obj_has k (complete_section ds ps)" if "obj_has k ds" for k
        using that complete_section_keys [of ds ps] by (simp add: obj_has_def)
      ultimately show ?thesis using True ps ds(1) has completed_get [of sect c, unfolded same_defaults]
        by (simp add: merged(2) same_defaults)
    next
      case False
      with ds(1) has sl completed_get [of sect c, unfolded same_defaults] show ?thesis
        by (simp add: merged(2) same_defaults)
    qed
  qed
qed

text \<open>The switch of a module as the editor shows it.\<close>

definition shown :: "(jstr \<times> jsval) list \<Rightarrow> jstr \<Rightarrow> jstr \<Rightarrow> bool" where
  "shown c sect modul \<longleftrightarrow> get_prop modul (obj_get sect c) = JBool True"

definition no_prototype_section :: "jstr option \<Rightarrow> bool" where
  "no_prototype_section t =
     (case t of None \<Rightarrow> True
      | Some x \<Rightarrow> (case json_parse x of Some v \<Rightarrow> \<not> obj_has (js ''__proto__'') (entries v) | None \<Rightarrow> True))"

text \<open>
  C28. What the editor shows for the side bar is what the menu applies: whatever text is stored, once
  the editor's configuration of it is saved, the link of a page is shown (to a user without a
  configuration) exactly when the editor shows both the section and the module switched on.
\<close>

theorem saved_sidebar_applies:
  assumes "no_prototype_section t" "map_of URL_TO_CONFIG_MAP u = Some (sect, modul)"
  shows "isModuleEnabled u (parseSidebarConfig
      (Some (serializeSidebarModulesAdmin (parseSidebarModulesAdmin t)))) None \<longleftrightarrow>
    shown (parseSidebarModulesAdmin t) sect (js ''enabled'') \<and> shown (parseSidebarModulesAdmin t) sect modul"
proof -
  define c where "c = parseSidebarModulesAdmin t"
  have c: "json_ok (JObj c)" using editor_tidy [of t] by (simp add: c_def tidy_def)
  have printed: "json_parse (serializeSidebarModulesAdmin c) = Some (JObj c)"
    using json_roundtrip [OF c]
    by (simp add: serializeSidebarModulesAdmin_def json_text_def json_stringify_def del: ser.simps json_ok.simps)
  then have "trim (serializeSidebarModulesAdmin c) \<noteq> []" using json_parse_blank by fastforce
  with printed have val: "admin_value (Some (serializeSidebarModulesAdmin c)) = Some (JObj c)"
    by (simp add: admin_value_def)
  obtain ps where ps: "obj_get sect c = JObj ps" "switch_list ps" "obj_has (js ''enabled'') ps" "obj_has modul ps"
    using editor_section [OF assms(2)] unfolding c_def by blast
  have "obj_get k ps \<in> {JBool True, JBool False}" if "obj_has k ps" for k
  proof -
    from that obtain w where w: "map_of ps k = Some w" by (auto simp: obj_has_map_of)
    then have "snd (k, w) \<in> {JBool True, JBool False}" using ps(2) map_of_SomeD unfolding switch_list_def by fastforce
    with w show ?thesis by (simp add: obj_get_def)
  qed
  with ps(3,4) have "obj_get (js ''enabled'') ps \<in> {JBool True, JBool False}" "obj_get modul ps \<in> {JBool True, JBool False}"
    by blast+
  then show ?thesis unfolding c_def [symmetric] menu_link assms(2)
    by (auto simp: admin_allows_def val ps(1) shown_def user_layer_def Let_def)
qed

lemma saved_sidebar_applies_witness:
  "isModuleEnabled (js ''/playground'') (parseSidebarConfig
      (Some (serializeSidebarModulesAdmin (parseSidebarModulesAdmin (Some (ser sample_admin)))))) None \<longleftrightarrow>
    shown (parseSidebarModulesAdmin (Some (ser sample_admin))) (js ''chat'') (js ''enabled'') \<and>
    shown (parseSidebarModulesAdmin (Some (ser sample_admin))) (js ''chat'') (js ''playground'')"
proof (rule saved_sidebar_applies)
  show "no_prototype_section (Some (ser sample_admin))"
    by (simp only: no_prototype_section_def option.case sample_admin_parses) (simp add: sample_admin_def obj_has_def)
qed (simp add: URL_TO_CONFIG_MAP_def)

text \<open>
  Before it is saved, the two sides can read a text differently: a section switched off by the text
  \<open>"false"\<close> is off in the editor, while the menu takes the non-empty text for true.
\<close>

definition text_switch :: jsval where
  "text_switch = JObj [(js ''chat'', JObj [(js ''enabled'', JStr (js ''false''))])]"

lemma text_switch_differs:
  "\<not> shown (parseSidebarModulesAdmin (Some (ser text_switch))) (js ''chat'') (js ''enabled'') \<and>
   isModuleEnabled (js ''/playground'') (parseSidebarConfig (Some (ser text_switch))) None"
proof
  have p: "json_parse (ser text_switch) = Some text_switch"
    by (rule json_roundtrip) (simp add: text_switch_def obj_wf_def)
  then have ne: "trim (ser text_switch) \<noteq> []" "ser text_switch \<noteq> []" using json_parse_blank by fastforce+
  have d: "map_of SIDEBAR_MODULES_DEFAULT (js ''chat'') =
      Some (JObj [(js ''enabled'', JBool True), (js ''playground'', JBool True), (js ''chat'', JBool True)])"
    by (simp add: SIDEBAR_MODULES_DEFAULT_def all_on_def)
  have off: "toBoolean (JStr (js ''false'')) b = False" for b
    by (simp add: toBoolean_def ascii_lower_def trim_def is_ws_def js_def)
  have "foldl section_entry [] (entries text_switch) = [(js ''chat'', JObj [(js ''enabled'', JBool False)])]"
    by (simp add: text_switch_def section_entry_def module_entry_def obj_get_def off obj_set_def)
  then have "obj_get (js ''chat'') (parseSidebarModulesAdmin (Some (ser text_switch))) =
      JObj (complete_section [(js ''enabled'', JBool True), (js ''playground'', JBool True), (js ''chat'', JBool True)]
        [(js ''enabled'', JBool False)])"
    using completed_get [of "js ''chat''" "[(js ''chat'', JObj [(js ''enabled'', JBool False)])]"] d
    by (simp add: parseSidebarModulesAdmin_def ne p obj_get_def [of _ "[(js ''chat'', JObj [(js ''enabled'', JBool False)])]"]
        del: ser.simps) (simp add: text_switch_def)
  moreover have "obj_has (js ''enabled'') [(js ''enabled'', JBool False)]" by (simp add: obj_has_def)
  ultimately show "\<not> shown (parseSidebarModulesAdmin (Some (ser text_switch))) (js ''chat'') (js ''enabled'')"
    using complete_section_keeps by (simp add: shown_def obj_get_def)
  show "isModuleEnabled (js ''/playground'') (parseSidebarConfig (Some (ser text_switch))) None"
    by (simp add: menu_link URL_TO_CONFIG_MAP_def admin_allows_def admin_value_def user_layer_def ne p del: ser.simps)
      (simp add: text_switch_def obj_get_def)
qed

end
