(* ===== verification/ImageConversations.thy ===== *)
theory ImageConversations
  imports JsConvert JsSort "HOL-Library.Monad_Syntax"
begin

text \<open>
  The history of generated images:
  \<open>src/chatgpt2api-setup/chatgpt2api/web/src/store/image-conversations.ts\<close>, its data and the
  normalisation of what the browser's database holds.

  The database returns structured clones, so a stored item is any JavaScript value, possibly written
  by an older version of the page. Reading a property of \<open>null\<close> throws, and so may \<open>String\<close> and
  \<open>Number\<close>: \<open>None\<close> is the exception. A \<open>Clock\<close> is what \<open>Date.now()\<close> and \<open>new Date().toISOString()\<close>
  give; it does not advance within one operation.

  A field whose type is checked is a HOL value of that type; a field the code copies without a check
  (the model, a reference image's name) stays a JavaScript value. An image is the list of its
  properties, because normalising it keeps the properties it does not know.
\<close>

section \<open>Data\<close>

record Clock =
  now_ms :: jstr
  now_iso :: jstr

datatype ImageConversationMode = Generate | Edit

datatype ImageTurnStatus = Queued | Generating | Succeeded | Failed

type_synonym StoredImage = "(jstr \<times> jsval) list"

record StoredReferenceImage =
  ref_name :: jsval
  ref_type :: jsval
  dataUrl :: jsval

record ImageTurn =
  turn_id :: jstr
  prompt :: jstr
  model :: jsval
  mode :: ImageConversationMode
  referenceImages :: "StoredReferenceImage list"
  turn_count :: jsnum
  turn_size :: jstr
  ratio :: jstr
  tier :: jstr
  quality :: jstr
  images :: "StoredImage list"
  turn_createdAt :: jstr
  turn_status :: ImageTurnStatus
  turn_error :: "jstr option"
  promptDeleted :: bool
  resultsDeleted :: bool

record ImageConversation =
  conv_id :: jstr
  title :: jstr
  createdAt :: jstr
  updatedAt :: jstr
  turns :: "ImageTurn list"

section \<open>Normalisation\<close>

definition nonempty_string :: "jsval \<Rightarrow> bool" where
  "nonempty_string v \<longleftrightarrow> is_string v \<and> truthy v"

definition keep_if :: "(jsval \<Rightarrow> bool) \<Rightarrow> jsval \<Rightarrow> jsval" where
  "keep_if P v = (if P v then v else JUndef)"

definition image_states :: "jsval list" where
  "image_states = [JStr (js ''loading''), JStr (js ''error''), JStr (js ''success'')]"

definition normalizeStoredImage :: "jsval \<Rightarrow> StoredImage option" where
  "normalizeStoredImage img =
     (if is_nullish img then None
      else
        let url = get_prop (js ''url'') img;
            normalized =
              obj_set (js ''revised_prompt'') (keep_if is_string (get_prop (js ''revised_prompt'') img))
                (obj_set (js ''url'') (keep_if nonempty_string url)
                  (obj_set (js ''taskId'') (keep_if nonempty_string (get_prop (js ''taskId'') img))
                    (spread [] img))) in
        Some (if get_prop (js ''status'') img \<in> set image_states then normalized
              else obj_set (js ''status'')
                (if truthy (js_or (get_prop (js ''b64_json'') img) url) then JStr (js ''success'')
                 else JStr (js ''loading'')) normalized))"

definition normalizeReferenceImage :: "jsval \<Rightarrow> StoredReferenceImage" where
  "normalizeReferenceImage img =
     \<lparr>ref_name = js_or (get_prop (js ''name'') img) (JStr (js ''reference.png'')),
      ref_type = js_or (get_prop (js ''type'') img) (JStr (js ''image/png'')),
      dataUrl = get_prop (js ''dataUrl'') img\<rparr>"

text \<open>
  The match of \<open>/^data:(.*?);base64,/\<close>: the shortest text between \<open>data:\<close> and the first
  \<open>;base64,\<close>, if no line ends within it. An empty type is replaced, as no match is.
\<close>

definition line_end :: "nat \<Rightarrow> bool" where
  "line_end c \<longleftrightarrow> c \<in> {10, 13, 0x2028, 0x2029}"

definition dataUrlMimeType :: "jstr \<Rightarrow> jstr" where
  "dataUrlMimeType u =
     (let rest = drop 5 u; png = js ''image/png'' in
      if \<not> prefix (js ''data:'') u then png
      else case index_of (js '';base64,'') rest of
        None \<Rightarrow> png
      | Some i \<Rightarrow> if i = 0 \<or> list_ex line_end (take i rest) then png else take i rest)"

definition is_reference :: "jsval \<Rightarrow> bool" where
  "is_reference img \<longleftrightarrow>
     truthy img \<and> is_object img \<and> nonempty_string (get_prop (js ''dataUrl'') img)"

definition getLegacyReferenceImages :: "jsval \<Rightarrow> StoredReferenceImage list" where
  "getLegacyReferenceImages source =
     (let sourceImage = get_prop (js ''sourceImage'') source;
          u = get_prop (js ''dataUrl'') sourceImage; fileName = get_prop (js ''fileName'') sourceImage in
      case get_prop (js ''referenceImages'') source of
        JArr vs \<Rightarrow> map normalizeReferenceImage (filter is_reference vs)
      | _ \<Rightarrow>
          if truthy sourceImage \<and> is_object sourceImage \<and> nonempty_string u then
            [\<lparr>ref_name = (if nonempty_string fileName then fileName else JStr (js ''reference.png'')),
              ref_type = JStr (dataUrlMimeType (to_str u)), dataUrl = u\<rparr>]
          else [])"

definition string_or :: "jsval \<Rightarrow> jstr \<Rightarrow> jstr" where
  "string_or v d = (case v of JStr s \<Rightarrow> if s \<noteq> [] then s else d | _ \<Rightarrow> d)"

definition max_one :: "jsnum \<Rightarrow> jsnum" where
  "max_one x = (if x = NaN then NaN else if num_lt (Fin 1) x then x else Fin 1)"

definition status_value :: "ImageTurnStatus \<Rightarrow> jsval" where
  "status_value s = JStr (case s of Queued \<Rightarrow> js ''queued'' | Generating \<Rightarrow> js ''generating''
     | Succeeded \<Rightarrow> js ''success'' | Failed \<Rightarrow> js ''error'')"

definition status_of_value :: "jsval \<Rightarrow> ImageTurnStatus option" where
  "status_of_value v = find (\<lambda>s. status_value s = v) [Queued, Generating, Succeeded, Failed]"

definition derived_status :: "StoredImage list \<Rightarrow> ImageTurnStatus" where
  "derived_status imgs =
     (if list_ex (\<lambda>i. obj_get (js ''status'') i = JStr (js ''loading'')) imgs then Generating
      else if list_ex (\<lambda>i. obj_get (js ''status'') i = JStr (js ''error'')) imgs then Failed
      else Succeeded)"

definition normalizeTurn :: "Clock \<Rightarrow> jsval \<Rightarrow> ImageTurn option" where
  "normalizeTurn clock turn =
     (if is_nullish turn then None
      else
        let get = (\<lambda>k. get_prop (js k) turn) in
        do {
          imgs \<leftarrow> (case get ''images'' of JArr vs \<Rightarrow> those (map normalizeStoredImage vs) | _ \<Rightarrow> Some []);
          i \<leftarrow> as_string (js_or (get ''id'') (JStr (now_ms clock)));
          p \<leftarrow> as_string (js_or (get ''prompt'') (JStr []));
          n \<leftarrow> as_number (js_or (get ''count'') (js_or (JNum (num_of_nat (length imgs))) (JNum (Fin 1))));
          c \<leftarrow> as_string (js_or (get ''createdAt'') (JStr (now_iso clock)));
          Some \<lparr>turn_id = i, prompt = p,
            model = js_or (get ''model'') (JStr (js ''gpt-image-2'')),
            mode = (if get ''mode'' = JStr (js ''edit'') then Edit else Generate),
            referenceImages = getLegacyReferenceImages turn,
            turn_count = max_one n,
            turn_size = string_or (get ''size'') [],
            ratio = string_or (get ''ratio'') (js ''1:1''),
            tier = string_or (get ''tier'') (js ''1k''),
            quality = string_or (get ''quality'') (js ''auto''),
            images = imgs,
            turn_createdAt = c,
            turn_status = (case status_of_value (get ''status'') of Some s \<Rightarrow> s | None \<Rightarrow> derived_status imgs),
            turn_error = (case get ''error'' of JStr e \<Rightarrow> Some e | _ \<Rightarrow> None),
            promptDeleted = (get ''promptDeleted'' = JBool True),
            resultsDeleted = (get ''resultsDeleted'' = JBool True)\<rparr>
        })"

section \<open>What is written\<close>

text \<open>The object a record is; the database keeps a property whose value is \<open>undefined\<close>.\<close>

definition reference_value :: "StoredReferenceImage \<Rightarrow> jsval" where
  "reference_value r = JObj [(js ''name'', ref_name r), (js ''type'', ref_type r), (js ''dataUrl'', dataUrl r)]"

definition mode_value :: "ImageConversationMode \<Rightarrow> jsval" where
  "mode_value m = JStr (case m of Generate \<Rightarrow> js ''generate'' | Edit \<Rightarrow> js ''edit'')"

definition turn_value :: "ImageTurn \<Rightarrow> jsval" where
  "turn_value t = JObj
     [(js ''id'', JStr (turn_id t)), (js ''prompt'', JStr (prompt t)), (js ''model'', model t),
      (js ''mode'', mode_value (mode t)),
      (js ''referenceImages'', JArr (map reference_value (referenceImages t))),
      (js ''count'', JNum (turn_count t)), (js ''size'', JStr (turn_size t)), (js ''ratio'', JStr (ratio t)),
      (js ''tier'', JStr (tier t)), (js ''quality'', JStr (quality t)),
      (js ''images'', JArr (map JObj (images t))), (js ''createdAt'', JStr (turn_createdAt t)),
      (js ''status'', status_value (turn_status t)),
      (js ''error'', case turn_error t of Some e \<Rightarrow> JStr e | None \<Rightarrow> JUndef),
      (js ''promptDeleted'', JBool (promptDeleted t)), (js ''resultsDeleted'', JBool (resultsDeleted t))]"

definition conversation_value :: "ImageConversation \<Rightarrow> jsval" where
  "conversation_value c = JObj
     [(js ''id'', JStr (conv_id c)), (js ''title'', JStr (title c)), (js ''createdAt'', JStr (createdAt c)),
      (js ''updatedAt'', JStr (updatedAt c)), (js ''turns'', JArr (map turn_value (turns c)))]"

text \<open>
  A conversation of the first version has no turns: its own fields describe the only turn. The object
  built for it is given as its properties.
\<close>

definition legacy_turn :: "Clock \<Rightarrow> jsval \<Rightarrow> jsval option" where
  "legacy_turn clock conversation =
     (let get = (\<lambda>k. get_prop (js k) conversation) in
      do {
        i \<leftarrow> as_string (js_or (get ''id'') (JStr (now_ms clock)));
        p \<leftarrow> as_string (js_or (get ''prompt'') (JStr []));
        n \<leftarrow> as_number (js_or (get ''count'') (JNum (Fin 1)));
        c \<leftarrow> as_string (js_or (get ''createdAt'') (JStr (now_iso clock)));
        Some (JObj
          [(js ''id'', JStr i), (js ''prompt'', JStr p),
           (js ''model'', js_or (get ''model'') (JStr (js ''gpt-image-2''))),
           (js ''mode'', if get ''mode'' = JStr (js ''edit'') then JStr (js ''edit'') else JStr (js ''generate'')),
           (js ''referenceImages'', JArr (map reference_value (getLegacyReferenceImages conversation))),
           (js ''count'', JNum n),
           (js ''size'', JStr (string_or (get ''size'') [])),
           (js ''ratio'', JStr (string_or (get ''ratio'') (js ''1:1''))),
           (js ''tier'', JStr (string_or (get ''tier'') (js ''1k''))),
           (js ''quality'', JStr (string_or (get ''quality'') (js ''auto''))),
           (js ''images'', if is_array (get ''images'') then get ''images'' else JArr []),
           (js ''createdAt'', JStr c),
           (js ''status'', if get ''status'' \<in> set (map status_value [Generating, Succeeded, Failed])
              then get ''status'' else status_value Succeeded),
           (js ''error'', keep_if is_string (get ''error''))])
      })"

definition normalizeConversation :: "Clock \<Rightarrow> jsval \<Rightarrow> ImageConversation option" where
  "normalizeConversation clock conversation =
     (if is_nullish conversation then None
      else
        let get = (\<lambda>k. get_prop (js k) conversation) in
        do {
          ts \<leftarrow> (case get ''turns'' of
                   JArr vs \<Rightarrow> those (map (normalizeTurn clock) vs)
                 | _ \<Rightarrow> do { v \<leftarrow> legacy_turn clock conversation; t \<leftarrow> normalizeTurn clock v; Some [t] });
          let last_created = (if ts \<noteq> [] then JStr (turn_createdAt (last ts)) else JUndef);
          i \<leftarrow> as_string (js_or (get ''id'') (JStr (now_ms clock)));
          t \<leftarrow> as_string (js_or (get ''title'') (JStr []));
          c \<leftarrow> as_string (js_or (js_or (get ''createdAt'') last_created) (JStr (now_iso clock)));
          u \<leftarrow> as_string (js_or (js_or (get ''updatedAt'') last_created) (JStr (now_iso clock)));
          Some \<lparr>conv_id = i, title = t, createdAt = c, updatedAt = u, turns = ts\<rparr>
        })"

section \<open>What normalisation guarantees\<close>

definition image_ok :: "StoredImage \<Rightarrow> bool" where
  "image_ok im \<longleftrightarrow> obj_wf im \<and> obj_get (js ''status'') im \<in> set image_states \<and>
     obj_has (js ''taskId'') im \<and> obj_has (js ''url'') im \<and> obj_has (js ''revised_prompt'') im \<and>
     (obj_get (js ''taskId'') im = JUndef \<or> nonempty_string (obj_get (js ''taskId'') im)) \<and>
     (obj_get (js ''url'') im = JUndef \<or> nonempty_string (obj_get (js ''url'') im)) \<and>
     (obj_get (js ''revised_prompt'') im = JUndef \<or> is_string (obj_get (js ''revised_prompt'') im))"

definition reference_ok :: "StoredReferenceImage \<Rightarrow> bool" where
  "reference_ok r \<longleftrightarrow> truthy (ref_name r) \<and> truthy (ref_type r) \<and> nonempty_string (dataUrl r)"

definition turn_ok :: "ImageTurn \<Rightarrow> bool" where
  "turn_ok t \<longleftrightarrow> truthy (model t) \<and> list_all reference_ok (referenceImages t) \<and>
     (turn_count t = NaN \<or> num_le (Fin 1) (turn_count t)) \<and>
     ratio t \<noteq> [] \<and> tier t \<noteq> [] \<and> quality t \<noteq> [] \<and> list_all image_ok (images t)"

lemma keep_if_cases: "keep_if P v = JUndef \<or> P (keep_if P v)"
  by (simp add: keep_if_def)

lemma status_own: "get_prop (js ''status'') v \<in> set image_states \<Longrightarrow> value_wf v \<Longrightarrow>
    obj_get (js ''status'') (spread [] v) = get_prop (js ''status'') v"
  by (cases v) (auto simp: image_states_def is_index_key_def is_digit_def js_def spread_id)

lemma image_ok_built:
  assumes "obj_wf m" "a = JUndef \<or> nonempty_string a" "b = JUndef \<or> nonempty_string b" "c = JUndef \<or> is_string c"
  shows "obj_get (js ''status'') m \<in> set image_states \<Longrightarrow>
      image_ok (obj_set (js ''revised_prompt'') c (obj_set (js ''url'') b (obj_set (js ''taskId'') a m)))"
    and "s \<in> set image_states \<Longrightarrow> image_ok (obj_set (js ''status'') s
      (obj_set (js ''revised_prompt'') c (obj_set (js ''url'') b (obj_set (js ''taskId'') a m))))"
  using assms by (simp_all add: image_ok_def obj_wf_set)

lemma normalizeStoredImage_ok:
  assumes "value_wf v" "normalizeStoredImage v = Some im"
  shows "image_ok im"
proof -
  have wf: "obj_wf (spread [] v)" by (rule spread_wf) (simp add: obj_wf_def)
  note built = image_ok_built [OF wf keep_if_cases keep_if_cases keep_if_cases]
  show ?thesis
  proof (cases "get_prop (js ''status'') v \<in> set image_states")
    case True
    then have "obj_get (js ''status'') (spread [] v) \<in> set image_states"
      using status_own [OF True assms(1)] by simp
    with assms(2) True show ?thesis
      by (auto simp: normalizeStoredImage_def Let_def intro!: built split: if_splits)
  next
    case False
    with assms(2) show ?thesis
      by (auto simp: normalizeStoredImage_def Let_def image_states_def intro!: built split: if_splits)
  qed
qed

lemma those_Some: "those (map f xs) = Some ys \<longleftrightarrow> list_all2 (\<lambda>x y. f x = Some y) xs ys"
  by (induction xs arbitrary: ys) (auto simp: list_all2_Cons1 split: option.splits)

lemma string_or_ne: "d \<noteq> [] \<Longrightarrow> string_or v d \<noteq> []"
  by (simp add: string_or_def split: jsval.split)

lemma max_one_bound: "max_one x = NaN \<or> num_le (Fin 1) (max_one x)"
  by (cases x) (auto simp: max_one_def num_le_def num_eq_def)

lemma dataUrlMimeType_ne: "dataUrlMimeType u \<noteq> []"
proof -
  have "u \<noteq> [] \<Longrightarrow> i \<noteq> 0 \<Longrightarrow> take i u \<noteq> []" for u :: jstr and i by simp
  then show ?thesis
    by (auto simp: dataUrlMimeType_def Let_def dest: index_of_le split: option.split)
qed

lemma legacy_references_ok: "list_all reference_ok (getLegacyReferenceImages v)"
  by (auto simp: getLegacyReferenceImages_def Let_def reference_ok_def list_all_iff is_reference_def
      normalizeReferenceImage_def js_or_def nonempty_string_def dataUrlMimeType_ne split: jsval.split)

lemma normalized_images_ok:
  assumes "value_wf (get_prop k v)" "get_prop k v = JArr vs" "those (map normalizeStoredImage vs) = Some ims"
  shows "list_all image_ok ims"
proof -
  have "\<forall>x\<in>set vs. value_wf x" using assms(1,2) by simp
  moreover have "list_all2 (\<lambda>x y. normalizeStoredImage x = Some y) vs ims" using assms(3) by (simp add: those_Some)
  then have "(\<forall>x\<in>set vs. value_wf x) \<longrightarrow> list_all image_ok ims"
    by (induction rule: list_all2_induct) (auto intro: normalizeStoredImage_ok)
  ultimately show ?thesis by simp
qed

lemma normalizeTurn_ok:
  assumes "value_wf (get_prop (js ''images'') v)" "normalizeTurn clock v = Some t"
  shows "turn_ok t"
proof -
  obtain ims n where ims: "(case get_prop (js ''images'') v of JArr vs \<Rightarrow> those (map normalizeStoredImage vs)
      | _ \<Rightarrow> Some []) = Some ims" and t: "images t = ims"
    "referenceImages t = getLegacyReferenceImages v" "turn_count t = max_one n"
    "model t = js_or (get_prop (js ''model'') v) (JStr (js ''gpt-image-2''))"
    "ratio t = string_or (get_prop (js ''ratio'') v) (js ''1:1'')"
    "tier t = string_or (get_prop (js ''tier'') v) (js ''1k'')"
    "quality t = string_or (get_prop (js ''quality'') v) (js ''auto'')"
    using assms(2) unfolding normalizeTurn_def Let_def
    by (auto simp: Option.bind_eq_Some_conv simp del: get_prop.simps split: if_splits)
  have "list_all image_ok ims"
    using ims normalized_images_ok [OF assms(1)] by (auto split: jsval.splits)
  with t show ?thesis
    using max_one_bound [of n] legacy_references_ok by (auto simp: turn_ok_def string_or_ne js_or_def)
qed

section \<open>A settled conversation is read back as it was written\<close>

text \<open>
  Normalisation may still produce an empty id (\<open>String([])\<close>) or a count that is not a number; a
  conversation without either is settled, and normalising what was written for it changes nothing.
\<close>

definition turn_settled :: "ImageTurn \<Rightarrow> bool" where
  "turn_settled t \<longleftrightarrow> turn_ok t \<and> turn_id t \<noteq> [] \<and> turn_createdAt t \<noteq> [] \<and> turn_count t \<noteq> NaN"

definition settled :: "ImageConversation \<Rightarrow> bool" where
  "settled c \<longleftrightarrow> conv_id c \<noteq> [] \<and> createdAt c \<noteq> [] \<and> updatedAt c \<noteq> [] \<and> list_all turn_settled (turns c)"

lemma keep_if_id: "v = JUndef \<or> P v \<Longrightarrow> keep_if P v = v"
  by (auto simp: keep_if_def)

lemma image_read_back:
  assumes "image_ok im"
  shows "normalizeStoredImage (JObj im) = Some im"
proof -
  have same: "obj_set k (keep_if P (obj_get k im)) im = im"
    if "obj_has k im" "obj_get k im = JUndef \<or> P (obj_get k im)" for k P
    using that assms by (intro obj_set_same) (simp_all add: image_ok_def keep_if_id)
  show ?thesis
    using assms same [of "js ''taskId''" nonempty_string] same [of "js ''url''" nonempty_string]
      same [of "js ''revised_prompt''" is_string]
    by (simp add: normalizeStoredImage_def Let_def image_ok_def spread_id)
qed

lemma reference_read_back:
  assumes "reference_ok r"
  shows "is_reference (reference_value r) \<and> normalizeReferenceImage (reference_value r) = r"
  using assms
  by (simp add: reference_ok_def is_reference_def normalizeReferenceImage_def reference_value_def obj_get_def js_or_def)

lemma references_read_back:
  assumes "list_all reference_ok rs" "get_prop (js ''referenceImages'') v = JArr (map reference_value rs)"
  shows "getLegacyReferenceImages v = rs"
proof -
  have "map normalizeReferenceImage (filter is_reference (map reference_value rs)) = rs"
    using assms(1) by (induction rs) (simp_all add: reference_read_back)
  with assms(2) show ?thesis by (simp add: getLegacyReferenceImages_def Let_def)
qed

lemma status_read_back [simp]: "status_of_value (status_value s) = Some s"
  by (cases s) (simp_all add: status_of_value_def status_value_def)

lemma mode_read_back: "(if mode_value m = JStr (js ''edit'') then Edit else Generate) = m"
  by (cases m) (simp_all add: mode_value_def)

lemma those_map_id: "list_all (\<lambda>x. f (g x) = Some x) xs \<Longrightarrow> those (map f (map g xs)) = Some xs"
  by (induction xs) simp_all

lemma max_one_id: "num_le (Fin 1) n \<Longrightarrow> max_one n = n \<and> truthy (JNum n)"
  by (cases n) (auto simp: max_one_def num_le_def num_eq_def)

lemma string_or_id: "s \<noteq> [] \<or> d = [] \<Longrightarrow> string_or (JStr s) d = s"
  by (auto simp: string_or_def)

lemma turn_read_back:
  assumes "turn_settled t"
  shows "normalizeTurn clock (turn_value t) = Some t"
proof -
  have imgs: "those (map normalizeStoredImage (map JObj (images t))) = Some (images t)"
    using assms by (intro those_map_id) (auto simp: turn_settled_def turn_ok_def list_all_conv image_read_back)
  have refs: "getLegacyReferenceImages (turn_value t) = referenceImages t"
    using assms by (intro references_read_back) (simp_all add: turn_settled_def turn_ok_def turn_value_def obj_get_def)
  have n: "max_one (turn_count t) = turn_count t" "truthy (JNum (turn_count t))"
    using assms max_one_id by (auto simp: turn_settled_def turn_ok_def)
  have get: "get_prop (js ''id'') (turn_value t) = JStr (turn_id t)"
    "get_prop (js ''prompt'') (turn_value t) = JStr (prompt t)"
    "get_prop (js ''model'') (turn_value t) = model t"
    "get_prop (js ''mode'') (turn_value t) = mode_value (mode t)"
    "get_prop (js ''count'') (turn_value t) = JNum (turn_count t)"
    "get_prop (js ''size'') (turn_value t) = JStr (turn_size t)"
    "get_prop (js ''ratio'') (turn_value t) = JStr (ratio t)"
    "get_prop (js ''tier'') (turn_value t) = JStr (tier t)"
    "get_prop (js ''quality'') (turn_value t) = JStr (quality t)"
    "get_prop (js ''images'') (turn_value t) = JArr (map JObj (images t))"
    "get_prop (js ''createdAt'') (turn_value t) = JStr (turn_createdAt t)"
    "get_prop (js ''status'') (turn_value t) = status_value (turn_status t)"
    "get_prop (js ''error'') (turn_value t) = (case turn_error t of Some e \<Rightarrow> JStr e | None \<Rightarrow> JUndef)"
    "get_prop (js ''promptDeleted'') (turn_value t) = JBool (promptDeleted t)"
    "get_prop (js ''resultsDeleted'') (turn_value t) = JBool (resultsDeleted t)"
    "\<not> is_nullish (turn_value t)"
    by (simp_all add: turn_value_def obj_get_def)
  have err: "(case case turn_error t of Some e \<Rightarrow> JStr e | None \<Rightarrow> JUndef of JStr e \<Rightarrow> Some e | _ \<Rightarrow> None) = turn_error t"
    by (cases "turn_error t") simp_all
  show ?thesis
    using assms n unfolding normalizeTurn_def Let_def get refs mode_read_back err
    by (simp add: get(16) imgs [simplified] js_or_def string_or_id turn_settled_def turn_ok_def)
qed

lemma conversation_read_back:
  assumes "settled c"
  shows "normalizeConversation clock (conversation_value c) = Some c"
proof -
  have ts: "those (map (normalizeTurn clock) (map turn_value (turns c))) = Some (turns c)"
    using assms by (intro those_map_id) (auto simp: settled_def list_all_conv turn_read_back)
  have get: "get_prop (js ''id'') (conversation_value c) = JStr (conv_id c)"
    "get_prop (js ''title'') (conversation_value c) = JStr (title c)"
    "get_prop (js ''createdAt'') (conversation_value c) = JStr (createdAt c)"
    "get_prop (js ''updatedAt'') (conversation_value c) = JStr (updatedAt c)"
    "get_prop (js ''turns'') (conversation_value c) = JArr (map turn_value (turns c))"
    "\<not> is_nullish (conversation_value c)"
    by (simp_all add: conversation_value_def obj_get_def)
  show ?thesis
    using assms unfolding normalizeConversation_def Let_def get
    by (simp add: get(6) ts [simplified] js_or_def settled_def)
qed

section \<open>Types\<close>

text \<open>
  The TypeScript types of an image, a reference image and a turn. The fields of a turn that are HOL
  values have their type already, a count that is not a number included, which is a \<open>number\<close> there.
\<close>

definition string_or_absent :: "jsval \<Rightarrow> bool" where
  "string_or_absent v \<longleftrightarrow> v = JUndef \<or> is_string v"

definition image_typed :: "StoredImage \<Rightarrow> bool" where
  "image_typed im \<longleftrightarrow> is_string (obj_get (js ''id'') im) \<and> obj_get (js ''status'') im \<in> set image_states \<and>
     list_all (\<lambda>k. string_or_absent (obj_get (js k) im)) [''taskId'', ''b64_json'', ''url'', ''revised_prompt'', ''error'']"

definition reference_typed :: "StoredReferenceImage \<Rightarrow> bool" where
  "reference_typed r \<longleftrightarrow> is_string (ref_name r) \<and> is_string (ref_type r) \<and> is_string (dataUrl r)"

definition turn_typed :: "ImageTurn \<Rightarrow> bool" where
  "turn_typed t \<longleftrightarrow> is_string (model t) \<and> list_all reference_typed (referenceImages t) \<and> list_all image_typed (images t)"

text \<open>What a stored item has to get right itself, because the code copies it without a check.\<close>

definition falsy_or_string :: "jsval \<Rightarrow> bool" where
  "falsy_or_string v \<longleftrightarrow> \<not> truthy v \<or> is_string v"

definition unchecked_image :: "jsval \<Rightarrow> bool" where
  "unchecked_image v \<longleftrightarrow> is_string (get_prop (js ''id'') v) \<and> string_or_absent (get_prop (js ''b64_json'') v) \<and>
     string_or_absent (get_prop (js ''error'') v)"

definition unchecked_reference :: "jsval \<Rightarrow> bool" where
  "unchecked_reference v \<longleftrightarrow> falsy_or_string (get_prop (js ''name'') v) \<and> falsy_or_string (get_prop (js ''type'') v)"

definition elements :: "jsval \<Rightarrow> jsval list" where
  "elements v = (case v of JArr vs \<Rightarrow> vs | _ \<Rightarrow> [])"

definition unchecked_turn :: "jsval \<Rightarrow> bool" where
  "unchecked_turn v \<longleftrightarrow> falsy_or_string (get_prop (js ''model'') v) \<and>
     list_all unchecked_reference (filter is_reference (elements (get_prop (js ''referenceImages'') v))) \<and>
     list_all unchecked_image (elements (get_prop (js ''images'') v))"

definition stored_turns :: "jsval \<Rightarrow> jsval list" where
  "stored_turns v = (case get_prop (js ''turns'') v of JArr vs \<Rightarrow> vs | _ \<Rightarrow> [v])"

lemma spread_own:
  assumes "value_wf v" "k = js ''id'' \<or> k = js ''b64_json'' \<or> k = js ''error''"
  shows "obj_get k (spread [] v) = get_prop k v"
proof -
  have k: "\<not> is_index_key k" "k \<noteq> js ''length''" "k \<noteq> dec n" for n
    using assms(2) dec_digits [of "hd k" n] by (auto simp: is_index_key_def is_digit_def js_def)
  have "map_of (zip (map dec [0..<n]) vs) k = None" for n and vs :: "jsval list"
    using set_zip_leftD [of k _ "map dec [0..<n]" vs] k(3) by (fastforce simp: map_of_eq_None_iff)
  then have "own k v = get_prop k v" using k by (cases v) (simp_all add: own_def obj_get_def)
  then show ?thesis
    using obj_get_spread [OF entries_distinct [OF assms(1)], of k "[]"]
    by (auto simp: own_def obj_get_def obj_has_map_of split: option.splits)
qed

lemma js_or_string: "is_string (js_or v (JStr d)) \<longleftrightarrow> falsy_or_string v"
  by (simp add: js_or_def falsy_or_string_def)

lemma string_or_absent_keep [simp]:
  "string_or_absent (keep_if is_string v)" "string_or_absent (keep_if nonempty_string v)"
  by (simp_all add: string_or_absent_def keep_if_def nonempty_string_def)

lemma image_typed_iff:
  assumes "value_wf v" "normalizeStoredImage v = Some im"
  shows "image_typed im \<longleftrightarrow> unchecked_image v"
proof -
  have "obj_get (js ''status'') im \<in> set image_states" using normalizeStoredImage_ok [OF assms] by (simp add: image_ok_def)
  then show ?thesis using assms(2)
    by (auto simp: image_typed_def unchecked_image_def normalizeStoredImage_def Let_def spread_own [OF assms(1)] split: if_splits)
qed

lemma images_typed_iff:
  assumes "value_wf w" "(case w of JArr vs \<Rightarrow> those (map normalizeStoredImage vs) | _ \<Rightarrow> Some []) = Some ims"
  shows "list_all image_typed ims \<longleftrightarrow> list_all unchecked_image (elements w)"
proof (cases "\<exists>vs. w = JArr vs")
  case True
  then obtain vs where vs: "w = JArr vs" ..
  then have "list_all2 (\<lambda>x y. normalizeStoredImage x = Some y) vs ims" "\<forall>x\<in>set vs. value_wf x"
    using assms by (simp_all add: those_Some)
  then have "list_all image_typed ims \<longleftrightarrow> list_all unchecked_image vs"
    by (induction rule: list_all2_induct) (auto simp: image_typed_iff)
  with vs show ?thesis by (simp add: elements_def)
next
  case False
  then have "ims = []" "elements w = []" using assms(2) by (cases w; simp add: elements_def)+
  then show ?thesis by simp
qed

lemma references_typed_iff:
  "list_all reference_typed (getLegacyReferenceImages v) \<longleftrightarrow>
   list_all unchecked_reference (filter is_reference (elements (get_prop (js ''referenceImages'') v)))"
proof -
  have one: "is_reference i \<Longrightarrow> reference_typed (normalizeReferenceImage i) = unchecked_reference i" for i
    by (auto simp: is_reference_def reference_typed_def normalizeReferenceImage_def unchecked_reference_def js_or_string
        nonempty_string_def)
  then have "list_all reference_typed (map normalizeReferenceImage (filter is_reference vs)) =
      list_all unchecked_reference (filter is_reference vs)" for vs
    by (induction vs) auto
  moreover have "list_all reference_typed (getLegacyReferenceImages v)" if "\<nexists>vs. get_prop (js ''referenceImages'') v = JArr vs"
    using that by (cases "get_prop (js ''referenceImages'') v")
      (auto simp: getLegacyReferenceImages_def Let_def reference_typed_def nonempty_string_def)
  ultimately show ?thesis
    by (cases "get_prop (js ''referenceImages'') v") (auto simp: getLegacyReferenceImages_def Let_def elements_def)
qed

lemma turn_typed_iff:
  assumes "value_wf (get_prop (js ''images'') v)" "normalizeTurn clock v = Some t"
  shows "turn_typed t \<longleftrightarrow> unchecked_turn v"
proof -
  obtain ims where ims: "(case get_prop (js ''images'') v of JArr vs \<Rightarrow> those (map normalizeStoredImage vs)
      | _ \<Rightarrow> Some []) = Some ims" and t: "images t = ims"
    "referenceImages t = getLegacyReferenceImages v"
    "model t = js_or (get_prop (js ''model'') v) (JStr (js ''gpt-image-2''))"
    using assms(2) unfolding normalizeTurn_def Let_def
    by (auto simp: Option.bind_eq_Some_conv simp del: get_prop.simps split: if_splits)
  show ?thesis
    by (simp add: turn_typed_def unchecked_turn_def t js_or_string references_typed_iff images_typed_iff [OF assms(1) ims])
qed

text \<open>The turn built for a conversation of the first version has the same unchecked fields.\<close>

lemma legacy_turn_unchecked:
  assumes "legacy_turn clock v = Some w"
  shows "unchecked_turn w \<longleftrightarrow> unchecked_turn v"
proof -
  have w: "get_prop (js ''model'') w = js_or (get_prop (js ''model'') v) (JStr (js ''gpt-image-2''))"
    "get_prop (js ''referenceImages'') w = JArr (map reference_value (getLegacyReferenceImages v))"
    "get_prop (js ''images'') w = (if is_array (get_prop (js ''images'') v) then get_prop (js ''images'') v else JArr [])"
    using assms unfolding legacy_turn_def Let_def by (auto simp: Option.bind_eq_Some_conv obj_get_def)
  have "getLegacyReferenceImages w = getLegacyReferenceImages v"
    by (rule references_read_back [OF legacy_references_ok w(2)])
  then have "list_all unchecked_reference (filter is_reference (elements (get_prop (js ''referenceImages'') w))) \<longleftrightarrow>
      list_all unchecked_reference (filter is_reference (elements (get_prop (js ''referenceImages'') v)))"
    by (simp flip: references_typed_iff)
  moreover have "elements (get_prop (js ''images'') w) = elements (get_prop (js ''images'') v)"
    unfolding w(3) by (cases "get_prop (js ''images'') v") (simp_all add: elements_def)
  moreover have "falsy_or_string (get_prop (js ''model'') w) = falsy_or_string (get_prop (js ''model'') v)"
    unfolding w(1) by (auto simp: falsy_or_string_def js_or_def)
  ultimately show ?thesis by (simp add: unchecked_turn_def)
qed

lemma normalized_turns:
  assumes "value_wf v" "normalizeConversation clock v = Some c"
  shows "list_all2 (\<lambda>x t. turn_ok t \<and> (turn_typed t \<longleftrightarrow> unchecked_turn x)) (stored_turns v) (turns c)"
proof -
  obtain ts where ts: "(case get_prop (js ''turns'') v of JArr vs \<Rightarrow> those (map (normalizeTurn clock) vs)
      | _ \<Rightarrow> do { w \<leftarrow> legacy_turn clock v; t \<leftarrow> normalizeTurn clock w; Some [t] }) = Some ts" "turns c = ts"
    using assms(2) unfolding normalizeConversation_def Let_def
    by (auto simp: Option.bind_eq_Some_conv simp del: get_prop.simps split: if_splits)
  show ?thesis
  proof (cases "\<exists>vs. get_prop (js ''turns'') v = JArr vs")
    case True
    then obtain vs where vs: "get_prop (js ''turns'') v = JArr vs" ..
    then have "\<forall>x\<in>set vs. value_wf x" using value_wf_get [OF assms(1), of "js ''turns''"] by simp
    moreover have "list_all2 (\<lambda>x y. normalizeTurn clock x = Some y) vs ts" using ts(1) vs by (simp add: those_Some)
    then have "(\<forall>x\<in>set vs. value_wf x) \<longrightarrow> list_all2 (\<lambda>x t. turn_ok t \<and> (turn_typed t \<longleftrightarrow> unchecked_turn x)) vs ts"
      by (induction rule: list_all2_induct) (auto simp: turn_typed_iff value_wf_get intro: normalizeTurn_ok [OF value_wf_get])
    ultimately have "list_all2 (\<lambda>x t. turn_ok t \<and> (turn_typed t \<longleftrightarrow> unchecked_turn x)) vs ts" by simp
    with ts vs show ?thesis by (simp add: stored_turns_def)
  next
    case False
    then have "do { w \<leftarrow> legacy_turn clock v; t \<leftarrow> normalizeTurn clock w; Some [t] } = Some ts" "stored_turns v = [v]"
      using ts(1) by (cases "get_prop (js ''turns'') v"; auto simp: stored_turns_def)+
    then obtain w t where w: "legacy_turn clock v = Some w" "normalizeTurn clock w = Some t" "ts = [t]"
      by (auto simp: Option.bind_eq_Some_conv)
    have "get_prop (js ''images'') w \<in> {get_prop (js ''images'') v, JArr []}"
      using w(1) unfolding legacy_turn_def Let_def
      by (auto simp: Option.bind_eq_Some_conv obj_get_def)
    then have "value_wf (get_prop (js ''images'') w)" using value_wf_get [OF assms(1)] by auto
    with ts(2) w \<open>stored_turns v = [v]\<close> show ?thesis
      by (simp add: normalizeTurn_ok turn_typed_iff legacy_turn_unchecked)
  qed
qed

text \<open>
  C33. What reading guarantees of a stored item that it reads without an exception, whatever the
  database holds. Always: a model, a count of at least one or not a number, a ratio, a tier and a quality
  that are not empty, reference images with their data, images with one of the three states. And the
  turns have their TypeScript type exactly if the item has a string or nothing for each model and each
  name and type of a reference image, a string for the id of each image, and a string or \<open>undefined\<close> for
  its data and its error: these are the fields that are copied without a check.
\<close>

theorem normalized_types:
  assumes "value_wf v" "normalizeConversation clock v = Some c"
  shows "list_all turn_ok (turns c) \<and> (list_all turn_typed (turns c) \<longleftrightarrow> list_all unchecked_turn (stored_turns v))"
proof -
  have "list_all turn_ok ts \<and> (list_all turn_typed ts \<longleftrightarrow> list_all unchecked_turn vs)"
    if "list_all2 (\<lambda>x t. turn_ok t \<and> (turn_typed t \<longleftrightarrow> unchecked_turn x)) vs ts" for vs ts
    using that by (induction rule: list_all2_induct) auto
  from this [OF normalized_turns [OF assms]] show ?thesis .
qed

text \<open>A conversation of the first version, with one image that was still loading.\<close>

definition first_version :: jsval where
  "first_version = JObj [(js ''id'', JStr (js ''a'')), (js ''prompt'', JStr (js ''sky'')),
     (js ''images'', JArr [JObj [(js ''id'', JStr (js ''i''))]])]"

definition sample_clock :: Clock where
  "sample_clock = \<lparr>now_ms = js ''1'', now_iso = js ''2026-01-01T00:00:00.000Z''\<rparr>"

lemma first_version_normalized:
  "normalizeConversation clock first_version = Some
     \<lparr>conv_id = js ''a'', title = [], createdAt = now_iso clock,
      updatedAt = now_iso clock,
      turns = [\<lparr>turn_id = js ''a'', prompt = js ''sky'', model = JStr (js ''gpt-image-2''), mode = Generate,
        referenceImages = [], turn_count = Fin 1, turn_size = [], ratio = js ''1:1'', tier = js ''1k'',
        quality = js ''auto'',
        images = [[(js ''id'', JStr (js ''i'')), (js ''taskId'', JUndef), (js ''url'', JUndef),
          (js ''revised_prompt'', JUndef), (js ''status'', JStr (js ''loading''))]],
        turn_createdAt = now_iso clock, turn_status = Succeeded, turn_error = None,
        promptDeleted = False, resultsDeleted = False\<rparr>]\<rparr>"
  by (simp add: normalizeConversation_def first_version_def legacy_turn_def Let_def obj_get_def
      js_or_def string_or_def getLegacyReferenceImages_def keep_if_def status_value_def normalizeTurn_def
      normalizeStoredImage_def nonempty_string_def image_states_def max_one_def status_of_value_def
      spread_def obj_set_def obj_insert_all_before key_before_def is_index_key_def js_def is_digit_def)

lemma normalized_types_witness:
  "\<exists>c. normalizeConversation sample_clock first_version = Some c \<and> length (turns c) = 1 \<and> list_all turn_ok (turns c) \<and>
    list_all turn_typed (turns c)"
proof -
  have wf: "value_wf first_version" by (simp add: first_version_def obj_wf_def key_before_def is_index_key_def js_def is_digit_def)
  have "list_all unchecked_turn (stored_turns first_version)"
    by (simp add: stored_turns_def unchecked_turn_def first_version_def obj_get_def falsy_or_string_def elements_def
        unchecked_image_def string_or_absent_def)
  with normalized_types [OF wf first_version_normalized] first_version_normalized [of sample_clock] show ?thesis by auto
qed

text \<open>A model that is a number is kept, and no image of the item needs an id.\<close>

lemma ill_typed_kept:
  "\<exists>c. normalizeConversation sample_clock (JObj [(js ''turns'', JArr [JObj [(js ''model'', JNum (Fin 5)), (js ''images'', JArr [JObj []])]])]) = Some c
    \<and> \<not> list_all turn_typed (turns c)"
  by (simp add: normalizeConversation_def Let_def obj_get_def js_or_def getLegacyReferenceImages_def keep_if_def
      normalizeTurn_def normalizeStoredImage_def nonempty_string_def spread_def turn_typed_def as_string_def
      num_of_nat_small)

end
