(* ===== verification/ImageStore.thy ===== *)
theory ImageStore
  imports ImageConversations
begin

text \<open>
  The store of image conversations: the operations of
  \<open>src/chatgpt2api-setup/chatgpt2api/web/src/store/image-conversations.ts\<close> and the queue that
  serialises them.

  Every writing operation reads all items, computes the new list and writes it. Between the read and
  the write other code runs, so the operations go through \<open>queueImageConversationWrite\<close>: each starts
  when the one before has settled, whether it succeeded or not. The queue is a step relation whose
  steps are the submission of an operation, the read of the first waiting one and its write; reading
  and writing the database may fail. Other browser tabs, which have a queue of their own, are outside
  the model.

  \<open>cmp\<close> is \<open>localeCompare\<close> and \<open>date\<close> the number of milliseconds that \<open>new Date(text).getTime()\<close>
  gives, \<open>None\<close> for \<open>NaN\<close>. The database is \<open>None\<close> while the key is absent.
\<close>

section \<open>Reading\<close>

definition sortImageConversations ::
  "(jstr \<Rightarrow> jstr \<Rightarrow> int) \<Rightarrow> ImageConversation list \<Rightarrow> ImageConversation list" where
  "sortImageConversations cmp cs = sort_by (\<lambda>a b. cmp (updatedAt b) (updatedAt a)) cs"

definition getTimestamp :: "(jstr \<Rightarrow> int option) \<Rightarrow> jstr \<Rightarrow> int" where
  "getTimestamp date v = (case date v of Some t \<Rightarrow> t | None \<Rightarrow> 0)"

definition pickLatestConversation ::
  "(jstr \<Rightarrow> int option) \<Rightarrow> ImageConversation \<Rightarrow> ImageConversation \<Rightarrow> ImageConversation" where
  "pickLatestConversation date current next =
     (if getTimestamp date (updatedAt next) \<ge> getTimestamp date (updatedAt current) then next else current)"

text \<open>A stored value that is neither falsy nor an array has no \<open>map\<close>.\<close>

definition readStoredImageConversations :: "Clock \<Rightarrow> jsval option \<Rightarrow> ImageConversation list option" where
  "readStoredImageConversations clock db =
     (case db of
        None \<Rightarrow> Some []
      | Some v \<Rightarrow>
          if \<not> truthy v then Some []
          else case v of JArr vs \<Rightarrow> those (map (normalizeConversation clock) vs) | _ \<Rightarrow> None)"

definition listImageConversations ::
  "(jstr \<Rightarrow> jstr \<Rightarrow> int) \<Rightarrow> Clock \<Rightarrow> jsval option \<Rightarrow> ImageConversation list option" where
  "listImageConversations cmp clock db =
     map_option (sortImageConversations cmp) (readStoredImageConversations clock db)"

section \<open>What an operation writes\<close>

datatype Effect =
    NoWrite
  | SetItems "ImageConversation list"
  | RemoveItems

definition id_map :: "ImageConversation list \<Rightarrow> (jstr \<times> ImageConversation) list" where
  "id_map cs = foldl (\<lambda>m c. map_set (conv_id c) c m) [] cs"

definition merge_one ::
  "(jstr \<Rightarrow> int option) \<Rightarrow> (jstr \<times> ImageConversation) list \<Rightarrow> ImageConversation \<Rightarrow>
   (jstr \<times> ImageConversation) list" where
  "merge_one date m c =
     map_set (conv_id c)
       (case map_of m (conv_id c) of Some current \<Rightarrow> pickLatestConversation date current c | None \<Rightarrow> c) m"

definition saveImageConversations where
  "saveImageConversations cmp date clock conversations db = do {
     items \<leftarrow> readStoredImageConversations clock db;
     cs \<leftarrow> those (map (normalizeConversation clock) conversations);
     Some (SetItems (sortImageConversations cmp (map snd (foldl (merge_one date) (id_map items) cs))))
   }"

definition saveImageConversation where
  "saveImageConversation cmp date clock conversation db = do {
     items \<leftarrow> readStoredImageConversations clock db;
     nextConversation \<leftarrow> normalizeConversation clock conversation;
     let persisted = (case find (\<lambda>item. conv_id item = conv_id nextConversation) items of
           Some current \<Rightarrow> pickLatestConversation date current nextConversation
         | None \<Rightarrow> nextConversation);
     Some (SetItems (sortImageConversations cmp
       (persisted # filter (\<lambda>item. conv_id item \<noteq> conv_id persisted) items)))
   }"

definition renameImageConversation where
  "renameImageConversation cmp clock i t db = do {
     items \<leftarrow> readStoredImageConversations clock db;
     case find (\<lambda>item. conv_id item = i) items of
       None \<Rightarrow> Some NoWrite
     | Some target \<Rightarrow>
         let updated = target\<lparr>title := t, updatedAt := now_iso clock\<rparr> in
         Some (SetItems (sortImageConversations cmp (updated # filter (\<lambda>item. conv_id item \<noteq> i) items)))
   }"

definition deleteImageConversation where
  "deleteImageConversation clock i db = do {
     items \<leftarrow> readStoredImageConversations clock db;
     Some (SetItems (filter (\<lambda>item. conv_id item \<noteq> i) items))
   }"

definition clearImageConversations :: "Effect option" where
  "clearImageConversations = Some RemoveItems"

datatype ImageOp =
    SaveAll "jsval list"
  | Save jsval
  | Rename jstr jstr
  | Delete jstr
  | Clear

fun op_effect ::
  "(jstr \<Rightarrow> jstr \<Rightarrow> int) \<Rightarrow> (jstr \<Rightarrow> int option) \<Rightarrow> Clock \<Rightarrow> ImageOp \<Rightarrow> jsval option \<Rightarrow> Effect option" where
  "op_effect cmp date clock (SaveAll vs) db = saveImageConversations cmp date clock vs db"
| "op_effect cmp date clock (Save v) db = saveImageConversation cmp date clock v db"
| "op_effect cmp date clock (Rename i t) db = renameImageConversation cmp clock i t db"
| "op_effect cmp date clock (Delete i) db = deleteImageConversation clock i db"
| "op_effect cmp date clock Clear db = clearImageConversations"

fun apply_effect :: "Effect \<Rightarrow> jsval option \<Rightarrow> jsval option" where
  "apply_effect NoWrite db = db"
| "apply_effect (SetItems cs) db = Some (JArr (map conversation_value cs))"
| "apply_effect RemoveItems db = None"

section \<open>The queue\<close>

text \<open>
  \<open>running\<close> is the operation that has read, with what it will write, \<open>None\<close> if it threw or the read
  failed. \<open>log\<close> and \<open>submitted\<close> record the history: of every settled operation its time and whether
  its read and its write succeeded.
\<close>

type_synonym Entry = "ImageOp \<times> Clock \<times> bool \<times> bool"

record ImageQueue =
  stored :: "jsval option"
  waiting :: "ImageOp list"
  running :: "(ImageOp \<times> Clock \<times> bool \<times> Effect option) option"
  log :: "Entry list"
  submitted :: "ImageOp list"

definition initial :: "jsval option \<Rightarrow> ImageQueue" where
  "initial db = \<lparr>stored = db, waiting = [], running = None, log = [], submitted = []\<rparr>"

definition clock_ok :: "Clock \<Rightarrow> bool" where
  "clock_ok clock \<longleftrightarrow> now_ms clock \<noteq> [] \<and> now_iso clock \<noteq> []"

text \<open>\<open>Clear\<close> reads nothing, so only the others can fail at the read.\<close>

definition attempt where
  "attempt cmp date clock read_ok op db =
     (if read_ok \<or> op = Clear then op_effect cmp date clock op db else None)"

definition settle :: "bool \<Rightarrow> Effect option \<Rightarrow> jsval option \<Rightarrow> jsval option" where
  "settle write_ok e db = (case e of Some w \<Rightarrow> if write_ok then apply_effect w db else db | None \<Rightarrow> db)"

definition begin_operation where
  "begin_operation cmp date clock read_ok op rest q =
     q\<lparr>waiting := rest, running := Some (op, clock, read_ok, attempt cmp date clock read_ok op (stored q))\<rparr>"

definition end_operation :: "bool \<Rightarrow> ImageOp \<times> Clock \<times> bool \<times> Effect option \<Rightarrow> ImageQueue \<Rightarrow> ImageQueue" where
  "end_operation write_ok = (\<lambda>(op, clock, read_ok, e) q.
     q\<lparr>stored := settle write_ok e (stored q), running := None, log := log q @ [(op, clock, read_ok, write_ok)]\<rparr>)"

inductive quiet_step ::
  "(jstr \<Rightarrow> jstr \<Rightarrow> int) \<Rightarrow> (jstr \<Rightarrow> int option) \<Rightarrow> ImageQueue \<Rightarrow> ImageQueue \<Rightarrow> bool"
  for cmp date where
  start: "running q = None \<Longrightarrow> waiting q = op # rest \<Longrightarrow> clock_ok clock \<Longrightarrow>
    quiet_step cmp date q (begin_operation cmp date clock read_ok op rest q)"
| finish: "running q = Some r \<Longrightarrow> quiet_step cmp date q (end_operation write_ok r q)"

inductive queue_step ::
  "(jstr \<Rightarrow> jstr \<Rightarrow> int) \<Rightarrow> (jstr \<Rightarrow> int option) \<Rightarrow> ImageQueue \<Rightarrow> ImageQueue \<Rightarrow> bool"
  for cmp date where
  submit: "queue_step cmp date q (q\<lparr>waiting := waiting q @ [op], submitted := submitted q @ [op]\<rparr>)"
| quiet: "quiet_step cmp date q q' \<Longrightarrow> queue_step cmp date q q'"

inductive_cases quiet_stepE: "quiet_step cmp date q q'"
inductive_cases queue_stepE: "queue_step cmp date q q'"
section \<open>Operations run one after the other\<close>

definition run_entry ::
  "(jstr \<Rightarrow> jstr \<Rightarrow> int) \<Rightarrow> (jstr \<Rightarrow> int option) \<Rightarrow> Entry \<Rightarrow> jsval option \<Rightarrow> jsval option" where
  "run_entry cmp date = (\<lambda>(op, clock, read_ok, write_ok) db.
     settle write_ok (attempt cmp date clock read_ok op db) db)"

definition entry_clock_ok :: "Entry \<Rightarrow> bool" where
  "entry_clock_ok = (\<lambda>(op, clock, r, w). clock_ok clock)"

definition running_ops :: "ImageQueue \<Rightarrow> ImageOp list" where
  "running_ops q = (case running q of None \<Rightarrow> [] | Some (op, _) \<Rightarrow> [op])"

definition serial where
  "serial cmp date db q \<longleftrightarrow>
     stored q = fold (run_entry cmp date) (log q) db \<and>
     (case running q of None \<Rightarrow> True
      | Some (op, clock, read_ok, e) \<Rightarrow> clock_ok clock \<and> e = attempt cmp date clock read_ok op (stored q)) \<and>
     map fst (log q) @ running_ops q @ waiting q = submitted q \<and> list_all entry_clock_ok (log q)"

lemma serial_initial: "serial cmp date db (initial db)"
  by (simp add: serial_def initial_def running_ops_def)

lemma serial_step: "queue_step cmp date q q' \<Longrightarrow> serial cmp date db q \<Longrightarrow> serial cmp date db q'"
proof (erule queue_stepE)
  assume s: "serial cmp date db q"
  {
    fix op assume "q' = q\<lparr>waiting := waiting q @ [op], submitted := submitted q @ [op]\<rparr>"
    with s show "serial cmp date db q'"
      by (auto simp: serial_def running_ops_def split: option.splits)
  next
    assume "quiet_step cmp date q q'"
    then show "serial cmp date db q'"
    proof (rule quiet_stepE)
      fix op rest clock read_ok
      assume "q' = begin_operation cmp date clock read_ok op rest q" "running q = None" "waiting q = op # rest"
        "clock_ok clock"
      with s show ?thesis by (simp add: serial_def begin_operation_def running_ops_def)
    next
      fix r write_ok
      assume q': "q' = end_operation write_ok r q" and r: "running q = Some r"
      obtain op clock read_ok e where "r = (op, clock, read_ok, e)" by (cases r)
      with s q' r show ?thesis
        by (auto simp: serial_def end_operation_def running_ops_def run_entry_def entry_clock_ok_def)
    qed
  }
qed

lemma serial_reachable: "(queue_step cmp date)\<^sup>*\<^sup>* (initial db) q \<Longrightarrow> serial cmp date db q"
  by (induction rule: rtranclp_induct) (auto intro: serial_initial serial_step)

section \<open>The queue drains\<close>

definition pending :: "ImageQueue \<Rightarrow> nat" where
  "pending q = 2 * length (waiting q) + (if running q = None then 0 else 1)"

lemma quiet_pending: "quiet_step cmp date q q' \<Longrightarrow> pending q = Suc (pending q')"
  by (erule quiet_stepE) (auto simp: pending_def begin_operation_def end_operation_def split: prod.splits)

lemma quiet_enabled: "0 < pending q \<Longrightarrow> \<exists>q'. quiet_step cmp date q q'"
proof (cases "running q")
  case None
  assume "0 < pending q"
  with None obtain op rest where w: "waiting q = op # rest" by (cases "waiting q") (auto simp: pending_def)
  have "clock_ok \<lparr>now_ms = [0], now_iso = [0]\<rparr>" by (simp add: clock_ok_def)
  with None w show ?thesis by (blast intro: start)
qed (blast intro: finish)

text \<open>
  C31. The queue always drains: with no new submission, every run of it has exactly as many steps as
  its pending work counts, two for an operation that waits and one for the one that has read, however
  many reads and writes fail; it can take a step as long as something is pending, and nothing is
  pending exactly when no operation waits or runs.
\<close>

theorem queue_drains:
  assumes "(quiet_step cmp date ^^ n) q q'"
  shows "pending q = n + pending q' \<and>
    (pending q' \<noteq> 0 \<longleftrightarrow> (\<exists>q''. quiet_step cmp date q' q'')) \<and>
    (pending q' = 0 \<longleftrightarrow> waiting q' = [] \<and> running q' = None)"
proof (intro conjI)
  show "pending q = n + pending q'"
    using assms by (induction n arbitrary: q') (auto dest: quiet_pending)
  show "pending q' \<noteq> 0 \<longleftrightarrow> (\<exists>q''. quiet_step cmp date q' q'')"
    using quiet_enabled [of q' cmp date] quiet_pending [of cmp date q'] by auto
qed (auto simp: pending_def)

text \<open>A clear that waits: the read step, the write step, nothing left.\<close>

lemma queue_drains_witness:
  "\<exists>q'. (quiet_step (\<lambda>a b. 0) (\<lambda>t. None) ^^ 2) ((initial None)\<lparr>waiting := [Clear]\<rparr>) q' \<and>
     2 = (2::nat) + pending q' \<and> waiting q' = []"
proof -
  define q where "q = (initial None)\<lparr>waiting := [Clear]\<rparr>"
  define q1 where "q1 = begin_operation (\<lambda>a b. 0) (\<lambda>t. None) sample_clock True Clear [] q"
  have "quiet_step (\<lambda>a b. 0) (\<lambda>t. None) q q1"
    unfolding q1_def by (rule start) (simp_all add: q_def initial_def clock_ok_def sample_clock_def)
  moreover have "quiet_step (\<lambda>a b. 0) (\<lambda>t. None) q1 (end_operation True (the (running q1)) q1)"
    by (rule finish) (simp add: q1_def begin_operation_def)
  ultimately have "(quiet_step (\<lambda>a b. 0) (\<lambda>t. None) ^^ 2) q (end_operation True (the (running q1)) q1)"
    by (auto simp: numeral_2_eq_2)
  moreover from queue_drains [OF this] have "2 = 2 + pending (end_operation True (the (running q1)) q1)"
    by (simp add: pending_def q_def initial_def)
  ultimately show ?thesis unfolding q_def [symmetric]
    by (intro exI [of _ "end_operation True (the (running q1)) q1"])
      (simp add: q1_def begin_operation_def end_operation_def q_def)
qed

section \<open>The database as a map\<close>

text \<open>
  What the operations mean: a map from ids to conversations. A save keeps the version with the later
  time, the new one if they are equal.
\<close>

definition put_latest where
  "put_latest date m c =
     m(conv_id c \<mapsto> (case m (conv_id c) of Some current \<Rightarrow> pickLatestConversation date current c | None \<Rightarrow> c))"

fun spec_op ::
  "(jstr \<Rightarrow> int option) \<Rightarrow> Clock \<Rightarrow> ImageOp \<Rightarrow> (jstr \<rightharpoonup> ImageConversation) \<Rightarrow> (jstr \<rightharpoonup> ImageConversation)" where
  "spec_op date clock (SaveAll vs) m =
     (case those (map (normalizeConversation clock) vs) of
        None \<Rightarrow> m | Some cs \<Rightarrow> foldl (put_latest date) m cs)"
| "spec_op date clock (Save v) m =
     (case normalizeConversation clock v of None \<Rightarrow> m | Some c \<Rightarrow> put_latest date m c)"
| "spec_op date clock (Rename i t) m =
     (case m i of None \<Rightarrow> m | Some c \<Rightarrow> m(i \<mapsto> c\<lparr>title := t, updatedAt := now_iso clock\<rparr>))"
| "spec_op date clock (Delete i) m = m(i := None)"
| "spec_op date clock Clear m = Map.empty"

definition spec_entry where
  "spec_entry date = (\<lambda>(op, clock, read_ok, write_ok) m.
     if write_ok \<and> (read_ok \<or> op = Clear) then spec_op date clock op m else m)"

text \<open>
  \<open>holds cmp db m\<close>: the database is a list of settled conversations, no id twice, the newest first,
  and \<open>m\<close> is the map it stands for.
\<close>

definition by_id :: "ImageConversation list \<Rightarrow> (jstr \<rightharpoonup> ImageConversation)" where
  "by_id cs = map_of (map (\<lambda>c. (conv_id c, c)) cs)"

definition holds where
  "holds cmp db m \<longleftrightarrow> (\<exists>cs. (db = None \<and> cs = [] \<or> db = Some (JArr (map conversation_value cs))) \<and>
     list_all settled cs \<and> distinct (map conv_id cs) \<and>
     sorted_wrt (\<lambda>a b. cmp (updatedAt b) (updatedAt a) \<le> 0) cs \<and> m = by_id cs)"

text \<open>An operation is given what normalises to settled conversations.\<close>

fun op_ok :: "ImageOp \<Rightarrow> bool" where
  "op_ok (SaveAll vs) = (\<forall>v\<in>set vs. \<forall>clock c. clock_ok clock \<longrightarrow> normalizeConversation clock v = Some c \<longrightarrow> settled c)"
| "op_ok (Save v) = (\<forall>clock c. clock_ok clock \<longrightarrow> normalizeConversation clock v = Some c \<longrightarrow> settled c)"
| "op_ok _ = True"

lemma by_id_set:
  assumes "distinct (map conv_id cs)" "distinct (map conv_id ds)" "set cs = set ds"
  shows "by_id cs = by_id ds"
proof -
  have "distinct (map fst (map (\<lambda>c. (conv_id c, c)) cs))" "distinct (map fst (map (\<lambda>c. (conv_id c, c)) ds))"
    using assms(1,2) by (simp_all add: comp_def)
  from map_of_inject_set [OF this] assms(3) show ?thesis by (simp add: by_id_def)
qed

lemma by_id_Some: "distinct (map conv_id cs) \<Longrightarrow> by_id cs i = Some c \<longleftrightarrow> c \<in> set cs \<and> conv_id c = i"
  by (auto simp: by_id_def comp_def)

lemma by_id_find: "find (\<lambda>c. conv_id c = i) cs = by_id cs i"
  by (induction cs) (auto simp: by_id_def)

lemma by_id_filter: "by_id (filter (\<lambda>c. conv_id c \<noteq> i) cs) = (by_id cs)(i := None)"
  by (induction cs) (auto simp: by_id_def fun_eq_iff)

lemma by_id_Cons [simp]: "by_id (c # cs) = (by_id cs)(conv_id c \<mapsto> c)"
  by (simp add: by_id_def)

lemma read_written: "list_all settled cs \<Longrightarrow>
    readStoredImageConversations clock (Some (JArr (map conversation_value cs))) = Some cs"
  using those_map_id [of "normalizeConversation clock" conversation_value cs]
  by (simp add: readStoredImageConversations_def conversation_read_back list_all_conv)

lemma holds_written:
  assumes "comparison cmp UNIV" "list_all settled cs" "distinct (map conv_id cs)"
  shows "holds cmp (Some (JArr (map conversation_value (sortImageConversations cmp cs)))) (by_id cs)"
proof -
  let ?s = "sortImageConversations cmp cs"
  have "comparison (\<lambda>a b. cmp (updatedAt b) (updatedAt a)) (set cs)"
    using assms(1) by (auto simp: comparison_def)
  then have "sorted_wrt (\<lambda>a b. cmp (updatedAt b) (updatedAt a) \<le> 0) ?s"
    unfolding sortImageConversations_def by (rule sorted_sort_by)
  moreover have "mset (map conv_id ?s) = mset (map conv_id cs)" by (simp add: sortImageConversations_def)
  then have d: "distinct (map conv_id ?s)" using assms(3) mset_eq_imp_distinct_iff by blast
  moreover have "set ?s = set cs" by (simp add: sortImageConversations_def)
  moreover from this have "list_all settled ?s" "by_id ?s = by_id cs"
    using assms(2) by_id_set [OF d assms(3)] by (simp_all add: list_all_conv)
  ultimately show ?thesis unfolding holds_def by (intro exI [of _ ?s]) simp
qed

lemma pickLatest_cases: "pickLatestConversation date a b \<in> {a, b}"
  by (simp add: pickLatestConversation_def)

definition keyed :: "(jstr \<times> ImageConversation) list \<Rightarrow> bool" where
  "keyed m \<longleftrightarrow> distinct (map fst m) \<and> list_all (\<lambda>p. conv_id (snd p) = fst p \<and> settled (snd p)) m"

lemma keyed_set: "keyed m \<Longrightarrow> conv_id c = k \<Longrightarrow> settled c \<Longrightarrow> keyed (map_set k c m)"
  using set_map_set [of k c m] by (auto simp: keyed_def distinct_map_set list_all_conv)

lemma keyed_merge: "keyed m \<Longrightarrow> settled c \<Longrightarrow> keyed (merge_one date m c)"
proof -
  assume m: "keyed m" and c: "settled c"
  have "conv_id x = conv_id c \<and> settled x" if "map_of m (conv_id c) = Some x" for x
  proof -
    have "(conv_id c, x) \<in> set m" using that by (rule map_of_SomeD)
    with m have "conv_id (snd (conv_id c, x)) = fst (conv_id c, x) \<and> settled (snd (conv_id c, x))"
      unfolding keyed_def list_all_conv by blast
    then show ?thesis by simp
  qed
  note old = this
  show ?thesis
  proof (cases "map_of m (conv_id c)")
    case None
    with c show ?thesis by (simp add: merge_one_def keyed_set [OF m])
  next
    case (Some x)
    have "conv_id (pickLatestConversation date x c) = conv_id c \<and> settled (pickLatestConversation date x c)"
      using old [OF Some] c pickLatest_cases [of date x c] by auto
    with Some show ?thesis by (simp add: merge_one_def keyed_set [OF m])
  qed
qed

lemma keyed_by_id: "keyed m \<Longrightarrow> by_id (map snd m) = map_of m \<and> distinct (map conv_id (map snd m)) \<and>
    list_all settled (map snd m)"
proof -
  assume m: "keyed m"
  then have 1: "map (\<lambda>c. (conv_id c, c)) (map snd m) = m"
    by (auto simp: keyed_def list_all_conv intro!: map_idI)
  have 2: "map conv_id (map snd m) = map fst m" using m by (simp add: keyed_def list_all_conv)
  have "list_all settled (map snd m)" using m by (simp add: keyed_def list_all_conv)
  with m show ?thesis unfolding by_id_def 1 2 by (simp add: keyed_def)
qed

lemma merged_keyed:
  "keyed m \<Longrightarrow> list_all settled cs \<Longrightarrow>
   keyed (foldl (merge_one date) m cs) \<and> map_of (foldl (merge_one date) m cs) = foldl (put_latest date) (map_of m) cs"
proof (induction cs arbitrary: m)
  case (Cons c cs)
  have "map_of (merge_one date m c) = put_latest date (map_of m) c"
    by (simp add: merge_one_def put_latest_def)
  with Cons keyed_merge show ?case by simp
qed simp

lemma id_map_keyed:
  assumes "list_all settled cs" "distinct (map conv_id cs)"
  shows "keyed (id_map cs) \<and> map_of (id_map cs) = by_id cs"
proof -
  have "foldl (\<lambda>m c. map_set (conv_id c) c m) acc cs = acc @ map (\<lambda>c. (conv_id c, c)) cs"
    if "distinct (map fst acc @ map conv_id cs)" for acc
    using that
  proof (induction cs arbitrary: acc)
    case (Cons c cs)
    have "map_set (conv_id c) c acc = acc @ [(conv_id c, c)]"
      using Cons.prems by (induction acc) auto
    with Cons show ?case by simp
  qed simp
  from this [of "[]"] assms show ?thesis
    by (auto simp: id_map_def keyed_def by_id_def comp_def list_all_conv)
qed

lemma keyed_written:
  assumes "comparison cmp UNIV" "keyed m"
  shows "holds cmp (Some (JArr (map conversation_value (sortImageConversations cmp (map snd m))))) (map_of m)"
  using holds_written [OF assms(1), of "map snd m"] keyed_by_id [OF assms(2)] by simp

text \<open>Placing a conversation before the others, whose ids differ, updates the map.\<close>

lemma front_written:
  assumes "comparison cmp UNIV" "list_all settled cs" "distinct (map conv_id cs)" "settled c"
  shows "holds cmp (Some (JArr (map conversation_value
      (sortImageConversations cmp (c # filter (\<lambda>x. conv_id x \<noteq> conv_id c) cs))))) ((by_id cs)(conv_id c \<mapsto> c))"
proof -
  let ?l = "c # filter (\<lambda>x. conv_id x \<noteq> conv_id c) cs"
  have "list_all settled ?l" using assms(2,4) by (simp add: list_all_conv)
  moreover have "distinct (map conv_id ?l)" using assms(3) by (auto simp: distinct_map_filter)
  ultimately show ?thesis using holds_written [OF assms(1), of ?l] by (simp add: by_id_filter)
qed

lemma holds_None: "holds cmp None Map.empty"
  by (auto simp: holds_def by_id_def)

lemma attempted:
  assumes "comparison cmp UNIV" "holds cmp db m" "op_ok op" "clock_ok clock"
  shows "holds cmp (case op_effect cmp date clock op db of Some w \<Rightarrow> apply_effect w db | None \<Rightarrow> db)
    (spec_op date clock op m)"
proof -
  obtain cs where db: "db = None \<and> cs = [] \<or> db = Some (JArr (map conversation_value cs))"
    and cs: "list_all settled cs" "distinct (map conv_id cs)"
      "sorted_wrt (\<lambda>a b. cmp (updatedAt b) (updatedAt a) \<le> 0) cs" and m: "m = by_id cs"
    using assms(2) unfolding holds_def by blast
  have read: "readStoredImageConversations clock db = Some cs"
    using db read_written [OF cs(1), of clock] by (auto simp: readStoredImageConversations_def)
  show ?thesis
  proof (cases op)
    case (SaveAll vs)
    show ?thesis
    proof (cases "those (map (normalizeConversation clock) vs)")
      case None
      with assms(2) SaveAll read show ?thesis by (simp add: saveImageConversations_def)
    next
      case (Some ns)
      then have "list_all2 (\<lambda>x y. normalizeConversation clock x = Some y) vs ns" by (simp add: those_Some)
      then have "(\<forall>v\<in>set vs. \<forall>c. normalizeConversation clock v = Some c \<longrightarrow> settled c) \<longrightarrow> list_all settled ns"
        by (induction rule: list_all2_induct) auto
      then have "list_all settled ns" using assms(3,4) SaveAll by auto
      with id_map_keyed [OF cs(1,2)] merged_keyed [of "id_map cs" ns date]
      have "keyed (foldl (merge_one date) (id_map cs) ns)"
        "map_of (foldl (merge_one date) (id_map cs) ns) = foldl (put_latest date) m ns"
        by (simp_all add: m)
      with keyed_written [OF assms(1)] SaveAll Some read show ?thesis
        by (fastforce simp: saveImageConversations_def)
    qed
  next
    case (Save v)
    show ?thesis
    proof (cases "normalizeConversation clock v")
      case None
      with assms(2) Save read show ?thesis by (simp add: saveImageConversation_def)
    next
      case (Some c)
      define p where "p = (case by_id cs (conv_id c) of Some x \<Rightarrow> pickLatestConversation date x c | None \<Rightarrow> c)"
      have "settled c" using assms(3,4) Save Some by simp
      then have p: "settled p \<and> conv_id p = conv_id c"
        using by_id_Some [OF cs(2), of "conv_id c"] cs(1)
        by (auto simp: p_def pickLatestConversation_def list_all_conv split: option.split)
      with front_written [OF assms(1) cs(1,2), of p] Save Some read show ?thesis
        by (simp add: saveImageConversation_def by_id_find p_def [symmetric] put_latest_def m)
    qed
  next
    case (Rename i t)
    show ?thesis
    proof (cases "by_id cs i")
      case None
      with assms(2) Rename read show ?thesis by (simp add: renameImageConversation_def by_id_find m)
    next
      case (Some c)
      let ?c = "c\<lparr>title := t, updatedAt := now_iso clock\<rparr>"
      have "settled c" "conv_id c = i" using Some by_id_Some [OF cs(2)] cs(1) by (auto simp: list_all_conv)
      then have "settled ?c" "conv_id ?c = i" using assms(4) by (simp_all add: settled_def clock_ok_def)
      with front_written [OF assms(1) cs(1,2), of ?c] Rename Some read show ?thesis
        by (simp add: renameImageConversation_def by_id_find m Let_def)
    qed
  next
    case (Delete i)
    let ?l = "filter (\<lambda>c. conv_id c \<noteq> i) cs"
    have "list_all settled ?l" "distinct (map conv_id ?l)"
      "sorted_wrt (\<lambda>a b. cmp (updatedAt b) (updatedAt a) \<le> 0) ?l"
      using cs by (simp_all add: list_all_conv distinct_map_filter sorted_wrt_filter)
    with Delete read show ?thesis
      by (auto simp: deleteImageConversation_def holds_def by_id_filter m intro!: exI [of _ ?l])
  next
    case Clear
    then show ?thesis by (simp add: clearImageConversations_def holds_None)
  qed
qed

section \<open>The queue implements the map\<close>

definition entry_ok :: "Entry \<Rightarrow> bool" where
  "entry_ok = (\<lambda>(op, clock, r, w). op_ok op \<and> clock_ok clock)"

lemma entry_simulated:
  assumes "entry_ok e" "comparison cmp UNIV" "holds cmp db m"
  shows "holds cmp (run_entry cmp date e db) (spec_entry date e m)"
proof -
  obtain op clock r w where e: "e = (op, clock, r, w)" by (cases e)
  have "holds cmp (case op_effect cmp date clock op db of Some w \<Rightarrow> apply_effect w db | None \<Rightarrow> db)
      (spec_op date clock op m)"
    using assms by (intro attempted) (simp_all add: entry_ok_def e)
  with assms(3) show ?thesis unfolding e
    by (cases "op_effect cmp date clock op db"; cases "r \<or> op = Clear"; cases w)
      (simp_all only: run_entry_def spec_entry_def attempt_def settle_def prod.case option.case if_True if_False
        simp_thms)
qed

interpretation storeSim: simulation "run_entry cmp date" "spec_entry date"
  "\<lambda>db m. comparison cmp UNIV \<and> holds cmp db m" entry_ok for cmp date
  by unfold_locales (auto intro: entry_simulated)

lemma holds_listed:
  assumes "holds cmp db m"
  shows "\<exists>cs. listImageConversations cmp clock db = Some cs \<and> distinct (map conv_id cs) \<and>
    sorted_wrt (\<lambda>a b. cmp (updatedAt b) (updatedAt a) \<le> 0) cs \<and> by_id cs = m"
proof -
  obtain cs where db: "db = None \<and> cs = [] \<or> db = Some (JArr (map conversation_value cs))"
    and cs: "list_all settled cs" "distinct (map conv_id cs)"
      "sorted_wrt (\<lambda>a b. cmp (updatedAt b) (updatedAt a) \<le> 0) cs" and m: "m = by_id cs"
    using assms unfolding holds_def by blast
  have "readStoredImageConversations clock db = Some cs"
    using db read_written [OF cs(1), of clock] by (auto simp: readStoredImageConversations_def)
  moreover have "sortImageConversations cmp cs = cs"
    unfolding sortImageConversations_def using cs(3) by (rule sort_by_sorted)
  ultimately show ?thesis using cs m by (auto simp: listImageConversations_def)
qed

text \<open>
  C6. The queue implements a map from ids to conversations. However submissions, reads and writes
  interleave and whichever of them fail, listing the stored conversations gives, newest first and no
  id twice, the map that results from the settled operations performed one after the other in the
  order of their submission: a save keeps the version with the later time, a rename changes one
  conversation, a delete removes one, and an operation that failed changes nothing. Nothing submitted
  is lost: each operation has settled, is running or waits, in that order.
\<close>

theorem queue_implements_map:
  assumes "comparison cmp UNIV" "(queue_step cmp date)\<^sup>*\<^sup>* (initial None) q" "list_all op_ok (submitted q)"
  shows "(\<exists>cs. listImageConversations cmp clock (stored q) = Some cs \<and> distinct (map conv_id cs) \<and>
      sorted_wrt (\<lambda>a b. cmp (updatedAt b) (updatedAt a) \<le> 0) cs \<and>
      by_id cs = fold (spec_entry date) (log q) Map.empty) \<and>
    map fst (log q) @ running_ops q @ waiting q = submitted q"
proof -
  have s: "serial cmp date None q" using assms(2) by (rule serial_reachable)
  then have order: "map fst (log q) @ running_ops q @ waiting q = submitted q"
    and db: "stored q = fold (run_entry cmp date) (log q) None" and clocks: "list_all entry_clock_ok (log q)"
    by (simp_all add: serial_def)
  have "list_all op_ok (map fst (log q))" using assms(3) by (simp flip: order)
  with clocks have "list_all entry_ok (log q)"
    by (auto simp: list_all_conv entry_ok_def entry_clock_ok_def)
  then have "comparison cmp UNIV \<and> holds cmp (fold (run_entry cmp date) (log q) None) (fold (spec_entry date) (log q) Map.empty)"
    by (rule storeSim.run_all) (simp add: assms(1) holds_None)
  then have "holds cmp (stored q) (fold (spec_entry date) (log q) Map.empty)" by (simp add: db)
  from holds_listed [OF this] order show ?thesis by blast
qed

text \<open>Saving the conversation of the first version, from the empty database.\<close>

definition one_save :: ImageQueue where
  "one_save =
     (let q0 = (initial None)\<lparr>waiting := [Save first_version], submitted := [Save first_version]\<rparr>;
          q1 = begin_operation (\<lambda>a b. 0) (\<lambda>t. None) sample_clock True (Save first_version) [] q0 in
      end_operation True (the (running q1)) q1)"

lemma one_save_reachable: "(queue_step (\<lambda>a b. 0) (\<lambda>t. None))\<^sup>*\<^sup>* (initial None) one_save"
proof -
  let ?step = "queue_step (\<lambda>a b. 0) (\<lambda>t. None)"
  define q0 where "q0 = (initial None)\<lparr>waiting := [Save first_version], submitted := [Save first_version]\<rparr>"
  define q1 where "q1 = begin_operation (\<lambda>a b. 0) (\<lambda>t. None) sample_clock True (Save first_version) [] q0"
  have "?step (initial None) q0"
    using submit [of "\<lambda>a b. 0" "\<lambda>t. None" "initial None" "Save first_version"] by (simp add: q0_def initial_def)
  moreover have "?step q0 q1" unfolding q1_def
    by (intro quiet start) (simp_all add: q0_def initial_def clock_ok_def sample_clock_def)
  moreover have "?step q1 (end_operation True (the (running q1)) q1)"
    by (intro quiet finish) (simp add: q1_def begin_operation_def)
  moreover have "one_save = end_operation True (the (running q1)) q1"
    by (simp add: one_save_def q0_def q1_def Let_def)
  ultimately show ?thesis
    by (metis (no_types, lifting) rtranclp.rtrancl_into_rtrancl rtranclp.rtrancl_refl)
qed

lemma first_version_settles: "op_ok (Save first_version)"
  by (auto simp: first_version_normalized settled_def turn_settled_def turn_ok_def clock_ok_def image_ok_def
      num_le_def num_eq_def image_states_def obj_get_def obj_has_def obj_wf_def key_before_def is_index_key_def
      js_def is_digit_def)

lemma queue_implements_map_witness:
  "\<exists>cs c. listImageConversations (\<lambda>a b. 0) sample_clock (stored one_save) = Some cs \<and>
     by_id cs (js ''a'') = Some c \<and> title c = []"
proof -
  have "comparison (\<lambda>a b. 0) (UNIV :: jstr set)" by (simp add: comparison_def)
  moreover have "submitted one_save = [Save first_version]" "log one_save = [(Save first_version, sample_clock, True, True)]"
    by (simp_all add: one_save_def begin_operation_def end_operation_def initial_def Let_def split: prod.split)
  ultimately obtain cs where "listImageConversations (\<lambda>a b. 0) sample_clock (stored one_save) = Some cs"
    "by_id cs = spec_entry (\<lambda>t. None) (Save first_version, sample_clock, True, True) Map.empty"
    using queue_implements_map [OF _ one_save_reachable, of sample_clock] first_version_settles by auto
  moreover then have "\<exists>c. by_id cs (js ''a'') = Some c \<and> title c = []"
    by (simp add: spec_entry_def first_version_normalized put_latest_def)
  ultimately show ?thesis by blast
qed

section \<open>Statistics\<close>

record ImageConversationStats =
  queued_turns :: nat
  running_turns :: nat

definition count_turn :: "ImageConversationStats \<Rightarrow> ImageTurn \<Rightarrow> ImageConversationStats" where
  "count_turn acc turn =
     (if resultsDeleted turn then acc
      else case turn_status turn of
        Queued \<Rightarrow> acc\<lparr>queued_turns := queued_turns acc + 1\<rparr>
      | Generating \<Rightarrow> acc\<lparr>running_turns := running_turns acc + 1\<rparr>
      | _ \<Rightarrow> acc)"

definition getImageConversationStats :: "ImageConversation option \<Rightarrow> ImageConversationStats" where
  "getImageConversationStats conversation =
     (case conversation of
        None \<Rightarrow> \<lparr>queued_turns = 0, running_turns = 0\<rparr>
      | Some c \<Rightarrow> foldl count_turn \<lparr>queued_turns = 0, running_turns = 0\<rparr> (turns c))"

lemma stats_count:
  "queued_turns (getImageConversationStats (Some c)) =
     length (filter (\<lambda>t. \<not> resultsDeleted t \<and> turn_status t = Queued) (turns c)) \<and>
   running_turns (getImageConversationStats (Some c)) =
     length (filter (\<lambda>t. \<not> resultsDeleted t \<and> turn_status t = Generating) (turns c))"
proof -
  have "queued_turns (foldl count_turn acc ts) =
      queued_turns acc + length (filter (\<lambda>t. \<not> resultsDeleted t \<and> turn_status t = Queued) ts) \<and>
    running_turns (foldl count_turn acc ts) =
      running_turns acc + length (filter (\<lambda>t. \<not> resultsDeleted t \<and> turn_status t = Generating) ts)" for acc ts
    by (induction ts arbitrary: acc) (auto simp: count_turn_def split: ImageTurnStatus.split)
  then show ?thesis by (simp add: getImageConversationStats_def)
qed

end
