(* ===== verification/SecureVerification.thy ===== *)
theory SecureVerification
  imports JsConvert "HOL-Library.Monad_Syntax"
begin

text \<open>
  Confirming the user's identity before a sensitive request:
  \<open>src/newapi/web/default/src/features/auth/secure-verification\<close> (\<open>api.ts\<close>, the hook and the dialog's
  rules) and \<open>lib/secure-verification.ts\<close>.

  A request the server refuses for want of verification opens a dialog; once the user has proved who
  they are, the hook runs the request again. A page may also hand a request to \<open>startVerification\<close>
  itself, which opens the dialog before the request was ever tried; the profile page does so to
  register and to remove a passkey. Everything happens in asynchronous functions: what one of
  them still waits for is a \<open>Task\<close>, and a step of the model is a user action or the end of a task. A
  task keeps the values its function captured when it started.

  A request is a number. What servers and the browser answer is an argument of the step that ends the
  task; an answer that arrived is an object. \<open>effects\<close> is the history of what the page did.
\<close>

section \<open>Errors\<close>

text \<open>A thrown value: whether it is an \<open>Error\<close>, its message, its properties, and the name of a
  \<open>DOMException\<close>.\<close>

record Thrown =
  is_error :: bool
  message :: jstr
  props :: jsval
  dom_name :: "jstr option"

definition js_error :: "jstr \<Rightarrow> Thrown" where
  "js_error m = \<lparr>is_error = True, message = m, props = JObj [], dom_name = None\<rparr>"

definition response_data :: "jsval \<Rightarrow> jsval" where
  "response_data error = optional_prop (js ''data'') (get_prop (js ''response'') error)"

definition verification_codes :: "jstr list" where
  "verification_codes = map js [''VERIFICATION_REQUIRED'', ''VERIFICATION_EXPIRED'', ''VERIFICATION_INVALID'']"

definition isVerificationRequiredError :: "jsval \<Rightarrow> bool" where
  "isVerificationRequiredError error =
     (if \<not> truthy error \<or> \<not> is_object error then False
      else if optional_prop (js ''status'') (get_prop (js ''response'') error) \<noteq> JNum (Fin 403) then False
      else
        let c = optional_prop (js ''code'') (response_data error) in
        if \<not> truthy c then False else c \<in> set (map JStr verification_codes))"

record VerificationRequiredInfo =
  info_code :: jsval
  info_message :: jsval
  required :: bool

definition extractVerificationInfo :: "jsval \<Rightarrow> VerificationRequiredInfo" where
  "extractVerificationInfo error =
     (let d = response_data error; m = optional_prop (js ''message'') d in
      \<lparr>info_code = optional_prop (js ''code'') d,
       info_message = (if is_nullish m then JStr (js ''Secure verification is required'') else m),
       required = True\<rparr>)"

section \<open>Methods\<close>

datatype VerificationMethod = TwoFA | Passkey

record VerificationMethods =
  has2FA :: bool
  hasPasskey :: bool
  passkeySupported :: bool

definition defaultMethods :: VerificationMethods where
  "defaultMethods = \<lparr>has2FA = False, hasPasskey = False, passkeySupported = False\<rparr>"

text \<open>The three answers, \<open>None\<close> if one of them failed.\<close>

definition is_on :: "jsval \<Rightarrow> bool" where
  "is_on response \<longleftrightarrow> truthy (optional_prop (js ''success'') response) \<and>
     truthy (optional_prop (js ''enabled'') (optional_prop (js ''data'') response))"

definition checkVerificationMethods :: "(jsval \<times> jsval \<times> bool) option \<Rightarrow> VerificationMethods" where
  "checkVerificationMethods answers =
     (case answers of
        None \<Rightarrow> \<lparr>has2FA = False, hasPasskey = False, passkeySupported = False\<rparr>
      | Some (twoFA, passkey, supported) \<Rightarrow>
          \<lparr>has2FA = is_on twoFA, hasPasskey = is_on passkey, passkeySupported = supported\<rparr>)"

section \<open>Verifying\<close>

text \<open>\<open>Inl\<close> is an exception. A response without \<open>success\<close> is one, with the response's message or a
  default.\<close>

definition sum_bind :: "'e + 'a \<Rightarrow> ('a \<Rightarrow> 'e + 'b) \<Rightarrow> 'e + 'b" where
  "sum_bind x f = (case x of Inl e \<Rightarrow> Inl e | Inr a \<Rightarrow> f a)"

definition expect_success :: "jstr \<Rightarrow> jsval \<Rightarrow> Thrown + unit" where
  "expect_success fallback response =
     (if truthy (optional_prop (js ''success'') response) then Inr ()
      else Inl (js_error (to_str (js_or (optional_prop (js ''message'') response) (JStr fallback)))))"

definition verifyTwoFA :: "jstr option \<Rightarrow> Thrown + jsval \<Rightarrow> Thrown + unit" where
  "verifyTwoFA code answer =
     (let trimmed = (case code of None \<Rightarrow> [] | Some c \<Rightarrow> trim c) in
      if trimmed = [] then Inl (js_error (js ''Please enter the verification code or backup code''))
      else sum_bind answer (expect_success (js ''Verification failed'')))"

text \<open>What happens during a passkey run, step by step; \<open>chosen\<close> and \<open>built\<close> say whether the browser
  gave a credential and an assertion could be made of it.\<close>

record PasskeyRun =
  credentials_api :: bool
  begun :: "Thrown + jsval"
  prepared :: "Thrown + unit"
  chosen :: "Thrown + bool"
  built :: "Thrown + bool"
  finished :: "Thrown + jsval"
  confirmed :: "Thrown + jsval"

definition require :: "jstr \<Rightarrow> bool \<Rightarrow> Thrown + unit" where
  "require m b = (if b then Inr () else Inl (js_error m))"

definition passkey_flow :: "PasskeyRun \<Rightarrow> Thrown + unit" where
  "passkey_flow r =
     sum_bind (begun r) (\<lambda>b.
     sum_bind (expect_success (js ''Failed to start verification'') b) (\<lambda>_.
     sum_bind (prepared r) (\<lambda>_.
     sum_bind (chosen r) (\<lambda>c.
     sum_bind (require (js ''Passkey verification was cancelled'') c) (\<lambda>_.
     sum_bind (built r) (\<lambda>a.
     sum_bind (require (js ''Unable to build Passkey assertion'') a) (\<lambda>_.
     sum_bind (finished r) (\<lambda>f.
     sum_bind (expect_success (js ''Passkey verification failed'') f) (\<lambda>_.
     sum_bind (confirmed r) (expect_success (js ''Failed to complete verification'')))))))))))"

definition passkey_error :: "Thrown \<Rightarrow> Thrown" where
  "passkey_error e =
     (if dom_name e = Some (js ''NotAllowedError'') then js_error (js ''Passkey verification was cancelled or timed out'')
      else if dom_name e = Some (js ''InvalidStateError'')
        then js_error (js ''Passkey verification is not available in the current state'')
      else e)"

definition verifyPasskey :: "PasskeyRun \<Rightarrow> Thrown + unit" where
  "verifyPasskey r =
     (if \<not> credentials_api r then Inl (js_error (js ''Passkey verification is not supported in this environment''))
      else case passkey_flow r of Inl e \<Rightarrow> Inl (passkey_error e) | Inr u \<Rightarrow> Inr u)"

definition verify :: "VerificationMethod \<Rightarrow> jstr option \<Rightarrow> Thrown + jsval \<Rightarrow> PasskeyRun \<Rightarrow> Thrown + unit" where
  "verify m code answer run = (case m of TwoFA \<Rightarrow> verifyTwoFA code answer | Passkey \<Rightarrow> verifyPasskey run)"

section \<open>The hook\<close>

record StartVerificationOptions =
  preferredMethod :: "VerificationMethod option"
  start_title :: "jstr option"
  start_description :: "jstr option"

record UseSecureVerificationOptions =
  successMessage :: "jstr option"
  autoReset :: bool

datatype Task =
    Fetching
  | Trying nat StartVerificationOptions
  | Starting nat StartVerificationOptions
  | Verifying nat VerificationMethod jstr
  | Calling nat VerificationMethod

datatype Effect =
    Tried nat
  | Handed nat
  | Needed nat jsval
  | Rethrown Thrown
  | Toast jstr
  | OnError Thrown
  | Verified VerificationMethod
  | Ran nat
  | OnSuccess nat VerificationMethod

record InternalState =
  methods :: VerificationMethods
  state_method :: "VerificationMethod option"
  loading :: bool
  state_code :: jstr
  state_title :: "jstr option"
  state_description :: "jstr option"
  apiCall :: "nat option"
  dialog_open :: bool
  tasks :: "Task list"
  effects :: "Effect list"

definition initialState :: InternalState where
  "initialState = \<lparr>methods = defaultMethods, state_method = None, loading = False, state_code = [],
     state_title = None, state_description = None, apiCall = None, dialog_open = False,
     tasks = [Fetching], effects = []\<rparr>"

definition emit :: "Effect list \<Rightarrow> InternalState \<Rightarrow> InternalState" where
  "emit es st = st\<lparr>effects := effects st @ es\<rparr>"

definition spawn :: "Task \<Rightarrow> InternalState \<Rightarrow> InternalState" where
  "spawn t st = st\<lparr>tasks := tasks st @ [t]\<rparr>"

definition drop_task :: "nat \<Rightarrow> InternalState \<Rightarrow> InternalState" where
  "drop_task i st = st\<lparr>tasks := take i (tasks st) @ drop (Suc i) (tasks st)\<rparr>"

definition reset :: "InternalState \<Rightarrow> InternalState" where
  "reset st = st\<lparr>state_method := None, loading := False, state_code := [], state_title := None,
     state_description := None, apiCall := None, dialog_open := False\<rparr>"

definition setCode :: "jstr \<Rightarrow> InternalState \<Rightarrow> InternalState" where
  "setCode c st = st\<lparr>state_code := c\<rparr>"

definition switchMethod :: "VerificationMethod \<Rightarrow> InternalState \<Rightarrow> InternalState" where
  "switchMethod m st = st\<lparr>state_method := Some m, state_code := []\<rparr>"

definition setOpen :: "bool \<Rightarrow> InternalState \<Rightarrow> InternalState" where
  "setOpen b st = st\<lparr>dialog_open := b\<rparr>"

definition cancel :: "InternalState \<Rightarrow> InternalState" where
  "cancel st = reset st"

definition fetchVerificationMethods :: "VerificationMethods \<Rightarrow> InternalState \<Rightarrow> InternalState" where
  "fetchVerificationMethods result st = st\<lparr>methods := result\<rparr>"

definition canUseMethod :: "VerificationMethods \<Rightarrow> VerificationMethod \<Rightarrow> bool" where
  "canUseMethod ms m = (case m of TwoFA \<Rightarrow> has2FA ms | Passkey \<Rightarrow> hasPasskey ms \<and> passkeySupported ms)"

definition recommendedMethod :: "VerificationMethods \<Rightarrow> VerificationMethod option" where
  "recommendedMethod ms =
     (if hasPasskey ms \<and> passkeySupported ms then Some Passkey else if has2FA ms then Some TwoFA else None)"

definition default_method :: "VerificationMethods \<Rightarrow> StartVerificationOptions \<Rightarrow> VerificationMethod option" where
  "default_method available config =
     (case preferredMethod config of
        Some m \<Rightarrow> Some m
      | None \<Rightarrow>
          if hasPasskey available \<and> passkeySupported available then Some Passkey
          else if has2FA available then Some TwoFA
          else None)"

text \<open>\<open>startVerification\<close> after its call of \<open>fetchVerificationMethods\<close> has given \<open>available\<close>.\<close>

definition startVerification ::
  "nat \<Rightarrow> StartVerificationOptions \<Rightarrow> VerificationMethods \<Rightarrow> InternalState \<Rightarrow> InternalState" where
  "startVerification call config available st =
     (let st = fetchVerificationMethods available st in
      if \<not> has2FA available \<and> \<not> hasPasskey available then
        emit [Toast (js ''Please enable Two-factor Authentication or Passkey before proceeding''),
              OnError (js_error (js ''No verification methods available. Enable 2FA or Passkey to continue.''))] st
      else
        st\<lparr>apiCall := Some call, state_method := default_method available config,
           state_title := start_title config, state_description := start_description config, dialog_open := True\<rparr>)"

definition withVerification :: "nat \<Rightarrow> StartVerificationOptions \<Rightarrow> InternalState \<Rightarrow> InternalState" where
  "withVerification call config st = emit [Tried call] (spawn (Trying call config) st)"

text \<open>A call of \<open>startVerification\<close> by the page; it first waits for the methods.\<close>

definition begin_verification :: "nat \<Rightarrow> StartVerificationOptions \<Rightarrow> InternalState \<Rightarrow> InternalState" where
  "begin_verification call config st = emit [Handed call] (spawn (Starting call config) st)"

text \<open>The first attempt has ended: with a result, or with an exception.\<close>

definition attempt_ended ::
  "nat \<Rightarrow> StartVerificationOptions \<Rightarrow> Thrown option \<Rightarrow> InternalState \<Rightarrow> InternalState" where
  "attempt_ended call config failure st =
     (case failure of
        None \<Rightarrow> st
      | Some e \<Rightarrow>
          if isVerificationRequiredError (props e) then
            emit [Needed call (info_message (extractVerificationInfo (props e)))] (spawn (Starting call config) st)
          else emit [Rethrown e] st)"

text \<open>The synchronous part of \<open>executeVerification\<close>, on the state its closure sees.\<close>

definition executeVerification ::
  "VerificationMethod option \<Rightarrow> jstr option \<Rightarrow> InternalState \<Rightarrow> InternalState" where
  "executeVerification m code st =
     (case apiCall st of
        None \<Rightarrow> emit [Toast (js ''Verification is not configured properly'')] st
      | Some call \<Rightarrow>
          (case (case m of Some x \<Rightarrow> Some x | None \<Rightarrow> state_method st) of
             None \<Rightarrow> emit [Toast (js ''Select a verification method first'')] st
           | Some actual \<Rightarrow>
               spawn (Verifying call actual (case code of Some c \<Rightarrow> c | None \<Rightarrow> state_code st)) (st\<lparr>loading := True\<rparr>)))"

definition execution_failed :: "Thrown \<Rightarrow> InternalState \<Rightarrow> InternalState" where
  "execution_failed e st =
     (emit [Toast (if is_error e then message e else js ''Verification failed''), OnError e, Rethrown e] st)\<lparr>loading := False\<rparr>"

definition verify_ended ::
  "nat \<Rightarrow> VerificationMethod \<Rightarrow> Thrown + unit \<Rightarrow> InternalState \<Rightarrow> InternalState" where
  "verify_ended call m outcome st =
     (case outcome of
        Inl e \<Rightarrow> execution_failed e st
      | Inr _ \<Rightarrow> emit [Verified m, Ran call] (spawn (Calling call m) st))"

definition call_ended ::
  "UseSecureVerificationOptions \<Rightarrow> nat \<Rightarrow> VerificationMethod \<Rightarrow> Thrown option \<Rightarrow> InternalState \<Rightarrow> InternalState" where
  "call_ended opts call m failure st =
     (case failure of
        Some e \<Rightarrow> execution_failed e st
      | None \<Rightarrow>
          let st1 = (case successMessage opts of Some t \<Rightarrow> if t \<noteq> [] then emit [Toast t] st else st | None \<Rightarrow> st);
              st2 = emit [OnSuccess call m] st1;
              st3 = (if autoReset opts then reset st2 else st2) in
          st3\<lparr>loading := False\<rparr>)"

section \<open>The dialog\<close>

definition availableTabs :: "VerificationMethods \<Rightarrow> VerificationMethod list" where
  "availableTabs ms = (if has2FA ms then [TwoFA] else []) @ (if hasPasskey ms \<and> passkeySupported ms then [Passkey] else [])"

definition activeMethod :: "InternalState \<Rightarrow> VerificationMethod option" where
  "activeMethod st =
     (case state_method st of
        Some m \<Rightarrow> Some m
      | None \<Rightarrow> (case availableTabs (methods st) of m # _ \<Rightarrow> Some m | [] \<Rightarrow> None))"

definition verifyDisabled :: "InternalState \<Rightarrow> bool" where
  "verifyDisabled st \<longleftrightarrow>
     loading st \<or> activeMethod st = Some TwoFA \<and> (trim (state_code st) = [] \<or> length (state_code st) < 6)"

definition handleVerify :: "InternalState \<Rightarrow> InternalState" where
  "handleVerify st =
     (case activeMethod st of
        None \<Rightarrow> st
      | Some m \<Rightarrow> executeVerification (Some m) (if m = TwoFA then Some (state_code st) else None) st)"

section \<open>Steps\<close>

text \<open>
  The first five steps are the user's, on the page and in the dialog. The next seven are calls of the
  functions the hook returns, which a page may make at any time and with any arguments: the profile
  page closes the dialog with \<open>setOpen\<close>, which keeps the waiting request. The last five end a task.
\<close>

inductive sv_step :: "UseSecureVerificationOptions \<Rightarrow> InternalState \<Rightarrow> InternalState \<Rightarrow> bool" for opts where
  request: "sv_step opts st (withVerification call config st)"
| enter_code: "dialog_open st \<Longrightarrow> sv_step opts st (setCode c st)"
| pick_tab: "dialog_open st \<Longrightarrow> m \<in> set (availableTabs (methods st)) \<Longrightarrow> sv_step opts st (switchMethod m st)"
| click_verify: "dialog_open st \<Longrightarrow> availableTabs (methods st) \<noteq> [] \<Longrightarrow> \<not> verifyDisabled st \<Longrightarrow>
    sv_step opts st (handleVerify st)"
| dismiss: "dialog_open st \<Longrightarrow> sv_step opts st (cancel st)"
| hand_over: "sv_step opts st (begin_verification call config st)"
| set_open: "sv_step opts st (setOpen b st)"
| execute: "sv_step opts st (executeVerification method code st)"
| set_code: "sv_step opts st (setCode c st)"
| switch: "sv_step opts st (switchMethod m st)"
| reset_hook: "sv_step opts st (reset st)"
| refetch: "sv_step opts st (spawn Fetching st)"
| fetched: "i < length (tasks st) \<Longrightarrow> tasks st ! i = Fetching \<Longrightarrow>
    sv_step opts st (fetchVerificationMethods (checkVerificationMethods answers) (drop_task i st))"
| attempted: "i < length (tasks st) \<Longrightarrow> tasks st ! i = Trying call config \<Longrightarrow>
    sv_step opts st (attempt_ended call config failure (drop_task i st))"
| started: "i < length (tasks st) \<Longrightarrow> tasks st ! i = Starting call config \<Longrightarrow>
    sv_step opts st (startVerification call config (checkVerificationMethods answers) (drop_task i st))"
| verified: "i < length (tasks st) \<Longrightarrow> tasks st ! i = Verifying call m c \<Longrightarrow>
    sv_step opts st (verify_ended call m (verify m (Some c) answer run) (drop_task i st))"
| called: "i < length (tasks st) \<Longrightarrow> tasks st ! i = Calling call m \<Longrightarrow>
    sv_step opts st (call_ended opts call m failure (drop_task i st))"

inductive_cases sv_stepE: "sv_step opts st st'"

section \<open>Invariants\<close>

text \<open>The page wants \<open>c\<close> verified: the server refused it, or the page handed it over.\<close>

definition needed :: "nat \<Rightarrow> Effect list \<Rightarrow> bool" where
  "needed c es \<longleftrightarrow> (\<exists>m. Needed c m \<in> set es) \<or> Handed c \<in> set es"

fun runs_ok :: "Effect list \<Rightarrow> Effect list \<Rightarrow> bool" where
  "runs_ok seen [] = True"
| "runs_ok seen (e # es) =
     ((case e of Ran c \<Rightarrow> seen \<noteq> [] \<and> (\<exists>m. last seen = Verified m) \<and> needed c seen | _ \<Rightarrow> True) \<and>
      runs_ok (seen @ [e]) es)"

fun asks_for :: "nat \<Rightarrow> Task \<Rightarrow> bool" where
  "asks_for c (Starting d _) = (c = d)"
| "asks_for c (Verifying d _ _) = (c = d)"
| "asks_for c (Calling d _) = (c = d)"
| "asks_for c _ = False"

fun executes :: "Task \<Rightarrow> bool" where
  "executes (Verifying _ _ _) = True"
| "executes (Calling _ _) = True"
| "executes _ = False"

definition sv_ok :: "InternalState \<Rightarrow> bool" where
  "sv_ok st \<longleftrightarrow>
     runs_ok [] (effects st) \<and>
     (\<forall>c. apiCall st = Some c \<longrightarrow> needed c (effects st)) \<and>
     (\<forall>c. \<forall>t\<in>set (tasks st). asks_for c t \<longrightarrow> needed c (effects st)) \<and>
     (loading st \<longrightarrow> (\<exists>t\<in>set (tasks st). executes t))"

lemma runs_ok_append: "runs_ok seen (a @ b) \<longleftrightarrow> runs_ok seen a \<and> runs_ok (seen @ a) b"
  by (induction a arbitrary: seen) auto

lemma needed_append [simp]: "needed c (a @ b) \<longleftrightarrow> needed c a \<or> needed c b"
  by (auto simp: needed_def)

lemma needed_simps [simp]:
  "needed c [] = False" "needed c (Needed d m # es) = (c = d \<or> needed c es)" "needed c (Tried d # es) = needed c es"
  "needed c (Handed d # es) = (c = d \<or> needed c es)"
  "needed c (Rethrown x # es) = needed c es" "needed c (Toast t # es) = needed c es"
  "needed c (OnError x # es) = needed c es" "needed c (Verified v # es) = needed c es"
  "needed c (Ran d # es) = needed c es" "needed c (OnSuccess d v # es) = needed c es"
  by (auto simp: needed_def)

definition other_tasks :: "nat \<Rightarrow> InternalState \<Rightarrow> Task set" where
  "other_tasks i st = set (take i (tasks st) @ drop (Suc i) (tasks st))"

lemma tasks_split: "i < length (tasks st) \<Longrightarrow> set (tasks st) = insert (tasks st ! i) (other_tasks i st)"
proof -
  assume "i < length (tasks st)"
  then have "set (tasks st) = set (take i (tasks st) @ tasks st ! i # drop (Suc i) (tasks st))"
    by (simp only: id_take_nth_drop [symmetric])
  then show ?thesis by (simp add: other_tasks_def)
qed

lemma drop_task_simps [simp]:
  "set (tasks (drop_task i st)) = other_tasks i st"
  "effects (drop_task i st) = effects st" "apiCall (drop_task i st) = apiCall st"
  "loading (drop_task i st) = loading st" "dialog_open (drop_task i st) = dialog_open st"
  "methods (drop_task i st) = methods st" "state_method (drop_task i st) = state_method st"
  by (simp_all add: drop_task_def other_tasks_def)

text \<open>The state between the end of a task and what its function does next.\<close>

definition sv_between :: "InternalState \<Rightarrow> bool" where
  "sv_between st \<longleftrightarrow>
     runs_ok [] (effects st) \<and>
     (\<forall>c. apiCall st = Some c \<longrightarrow> needed c (effects st)) \<and>
     (\<forall>c. \<forall>t\<in>set (tasks st). asks_for c t \<longrightarrow> needed c (effects st))"

definition busy :: "InternalState \<Rightarrow> bool" where
  "busy st \<longleftrightarrow> (\<exists>t\<in>set (tasks st). executes t)"

lemma sv_ok_iff: "sv_ok st \<longleftrightarrow> sv_between st \<and> (loading st \<longrightarrow> busy st)"
  by (auto simp: sv_ok_def sv_between_def busy_def)

lemma between_drop: "sv_ok st \<Longrightarrow> i < length (tasks st) \<Longrightarrow> sv_between (drop_task i st)"
  by (auto simp: sv_ok_def sv_between_def tasks_split)

lemma busy_drop: "i < length (tasks st) \<Longrightarrow> \<not> executes (tasks st ! i) \<Longrightarrow> busy (drop_task i st) = busy st"
  by (auto simp: busy_def tasks_split)

lemma asked: "sv_ok st \<Longrightarrow> i < length (tasks st) \<Longrightarrow> asks_for c (tasks st ! i) \<Longrightarrow> needed c (effects st)"
  unfolding sv_ok_def using nth_mem by blast

lemmas sv_defs = emit_def spawn_def sv_between_def busy_def

lemma reset_ok: "sv_between st \<Longrightarrow> sv_ok (reset st)"
  by (auto simp: sv_ok_iff sv_between_def reset_def)

lemma failed_ok: "sv_between st \<Longrightarrow> sv_ok (execution_failed e st)"
  by (auto simp: sv_ok_iff execution_failed_def sv_defs runs_ok_append)

lemma emit_between:
  "sv_between st \<Longrightarrow> list_all (\<lambda>e. case e of Ran c \<Rightarrow> False | _ \<Rightarrow> True) es \<Longrightarrow> sv_between (emit es st)"
proof -
  have "runs_ok seen es" if "list_all (\<lambda>e. case e of Ran c \<Rightarrow> False | _ \<Rightarrow> True) es" for seen es
    using that by (induction es arbitrary: seen) (auto split: Effect.splits)
  then show "sv_between st \<Longrightarrow> list_all (\<lambda>e. case e of Ran c \<Rightarrow> False | _ \<Rightarrow> True) es \<Longrightarrow> ?thesis"
    by (auto simp: sv_between_def emit_def runs_ok_append)
qed

lemma execute_ok: "sv_ok st \<Longrightarrow> sv_ok (executeVerification m c st)"
  by (auto simp: sv_ok_iff executeVerification_def sv_defs runs_ok_append split: option.split)

lemma sv_ok_step:
  assumes "sv_step opts st st'" "sv_ok st"
  shows "sv_ok st'"
  using assms(1)
proof (rule sv_stepE)
  fix call config assume "st' = withVerification call config st"
  with assms(2) show ?thesis by (auto simp: sv_ok_iff withVerification_def sv_defs runs_ok_append)
next
  fix call config assume "st' = begin_verification call config st"
  with assms(2) show ?thesis by (auto simp: sv_ok_iff begin_verification_def sv_defs runs_ok_append)
next
  fix b assume "st' = setOpen b st"
  with assms(2) show ?thesis by (simp add: sv_ok_def setOpen_def)
next
  fix m c assume "st' = executeVerification m c st"
  with assms(2) show ?thesis by (simp add: execute_ok)
next
  assume "st' = spawn Fetching st"
  with assms(2) show ?thesis by (auto simp: sv_ok_iff sv_defs)
next
  assume st': "st' = handleVerify st"
  with assms(2) show ?thesis by (simp add: execute_ok handleVerify_def split: option.split)
next
  assume "st' = cancel st"
  moreover have "sv_between st" using assms(2) by (simp add: sv_ok_iff)
  ultimately show ?thesis by (simp add: cancel_def reset_ok)
next
  assume "st' = reset st"
  moreover have "sv_between st" using assms(2) by (simp add: sv_ok_iff)
  ultimately show ?thesis by (simp add: reset_ok)
next
  fix i answers
  assume i: "i < length (tasks st)" "tasks st ! i = Fetching"
    and st': "st' = fetchVerificationMethods (checkVerificationMethods answers) (drop_task i st)"
  have "sv_between (drop_task i st)" "busy (drop_task i st) = busy st"
    using between_drop [OF assms(2) i(1)] busy_drop [OF i(1)] i(2) by simp_all
  with assms(2) st' show ?thesis by (auto simp: sv_ok_iff fetchVerificationMethods_def sv_between_def busy_def)
next
  fix i call config failure
  assume i: "i < length (tasks st)" "tasks st ! i = Trying call config"
    and st': "st' = attempt_ended call config failure (drop_task i st)"
  have "sv_between (drop_task i st)" "busy (drop_task i st) = busy st"
    using between_drop [OF assms(2) i(1)] busy_drop [OF i(1)] i(2) by simp_all
  with assms(2) st' show ?thesis
    by (auto simp: sv_ok_iff attempt_ended_def sv_defs runs_ok_append split: option.split)
next
  fix i call config answers
  assume i: "i < length (tasks st)" "tasks st ! i = Starting call config"
    and st': "st' = startVerification call config (checkVerificationMethods answers) (drop_task i st)"
  have "sv_between (drop_task i st)" "busy (drop_task i st) = busy st" "needed call (effects st)"
    using between_drop [OF assms(2) i(1)] busy_drop [OF i(1)] asked [OF assms(2) i(1)] i(2) by simp_all
  with assms(2) st' show ?thesis
    by (auto simp: sv_ok_iff startVerification_def fetchVerificationMethods_def Let_def sv_defs runs_ok_append)
next
  fix i call m c answer run
  assume i: "i < length (tasks st)" "tasks st ! i = Verifying call m c"
    and st': "st' = verify_ended call m (verify m (Some c) answer run) (drop_task i st)"
  have b: "sv_between (drop_task i st)" and n: "needed call (effects st)"
    using between_drop [OF assms(2) i(1)] asked [OF assms(2) i(1)] i(2) by simp_all
  show ?thesis
  proof (cases "verify m (Some c) answer run")
    case (Inl e)
    with b show ?thesis by (simp add: st' verify_ended_def failed_ok)
  next
    case (Inr u)
    with b n show ?thesis
      by (auto simp: st' verify_ended_def sv_ok_iff sv_defs runs_ok_append)
  qed
next
  fix i call m failure
  assume i: "i < length (tasks st)" "tasks st ! i = Calling call m"
    and st': "st' = call_ended opts call m failure (drop_task i st)"
  have b: "sv_between (drop_task i st)" using between_drop [OF assms(2) i(1)] .
  show ?thesis
  proof (cases failure)
    case (Some e)
    with b show ?thesis by (simp add: st' call_ended_def failed_ok)
  next
    case None
    define st1 where "st1 = (case successMessage opts of Some t \<Rightarrow> if t \<noteq> [] then emit [Toast t] (drop_task i st)
        else drop_task i st | None \<Rightarrow> drop_task i st)"
    have "sv_between st1" using b by (auto simp: st1_def intro: emit_between split: option.split)
    then have b2: "sv_between (emit [OnSuccess call m] st1)" by (rule emit_between) simp
    then have "sv_ok ((if autoReset opts then reset (emit [OnSuccess call m] st1) else emit [OnSuccess call m] st1)
        \<lparr>loading := False\<rparr>)"
      using reset_ok [OF b2] by (auto simp: sv_ok_iff sv_between_def)
    with None show ?thesis by (simp add: st' call_ended_def st1_def [symmetric] Let_def)
  qed
qed (use assms(2) in \<open>auto simp: sv_ok_def setCode_def switchMethod_def\<close>)

lemma sv_ok_reachable: "(sv_step opts)\<^sup>*\<^sup>* initialState st \<Longrightarrow> sv_ok st"
proof (induction rule: rtranclp_induct)
  case base
  show ?case by (simp add: sv_ok_def initialState_def)
qed (rule sv_ok_step)

text \<open>
  C10. A request that the hook runs: whenever the history contains such a run, the step before it is a
  successful verification, and earlier the same request had either been tried and refused by the server
  for want of verification, or the page had handed it to \<open>startVerification\<close>. No interleaving of
  several requests, of calls of the hook's functions, of closing and reopening the dialog, or of failing
  calls makes the hook run anything else.
\<close>

theorem protected_request_verified:
  assumes "(sv_step opts)\<^sup>*\<^sup>* initialState st" "effects st = xs @ Ran c # ys"
  shows "(\<exists>zs m. xs = zs @ [Verified m]) \<and> ((\<exists>msg. Needed c msg \<in> set xs) \<or> Handed c \<in> set xs)"
proof -
  have "runs_ok [] (xs @ Ran c # ys)"
    using sv_ok_reachable [OF assms(1)] assms(2) by (simp add: sv_ok_def)
  then have "xs \<noteq> []" "\<exists>m. last xs = Verified m" "needed c xs" by (simp_all add: runs_ok_append)
  then show ?thesis unfolding needed_def by (metis append_butlast_last_id)
qed

text \<open>
  The dialog never shows a spinner for nothing: in every state the page can reach, it is loading only
  while a verification or the request after it is under way. So once no execution is under way it is
  not loading, however they ended and overlapped.
\<close>

theorem dialog_state_consistent:
  assumes "(sv_step opts)\<^sup>*\<^sup>* initialState st"
  shows "loading st \<longrightarrow> list_ex executes (tasks st)"
  using sv_ok_reachable [OF assms] by (auto simp: sv_ok_def list_ex_iff)

section \<open>One verification\<close>

text \<open>A request is refused, the user has two-factor authentication, enters the code and verifies.\<close>

definition plain_options :: UseSecureVerificationOptions where
  "plain_options = \<lparr>successMessage = None, autoReset = True\<rparr>"

definition no_preference :: StartVerificationOptions where
  "no_preference = \<lparr>preferredMethod = None, start_title = None, start_description = None\<rparr>"

definition refusal :: Thrown where
  "refusal = \<lparr>is_error = True, message = [],
     props = JObj [(js ''response'', JObj [(js ''status'', JNum (Fin 403)),
       (js ''data'', JObj [(js ''code'', JStr (js ''VERIFICATION_REQUIRED''))])])], dom_name = None\<rparr>"

definition on_answer :: jsval where
  "on_answer = JObj [(js ''success'', JBool True), (js ''data'', JObj [(js ''enabled'', JBool True)])]"

definition two_fa_only :: "(jsval \<times> jsval \<times> bool) option" where
  "two_fa_only = Some (on_answer, JObj [], False)"

definition dialog_state :: InternalState where
  "dialog_state = startVerification 1 no_preference (checkVerificationMethods two_fa_only)
     (drop_task 1 (attempt_ended 1 no_preference (Some refusal) (drop_task 1 (withVerification 1 no_preference initialState))))"

definition verifying_state :: InternalState where
  "verifying_state = handleVerify (setCode (js ''123456'') dialog_state)"

lemma refusal_required: "isVerificationRequiredError (props refusal)"
  by (simp add: refusal_def isVerificationRequiredError_def response_data_def optional_prop_def obj_get_def
      verification_codes_def)

lemma two_fa_methods: "checkVerificationMethods two_fa_only = \<lparr>has2FA = True, hasPasskey = False, passkeySupported = False\<rparr>"
  by (simp add: checkVerificationMethods_def two_fa_only_def is_on_def on_answer_def optional_prop_def obj_get_def)

lemma dialog_state_fields:
  "tasks dialog_state = [Fetching]" "dialog_open dialog_state" "apiCall dialog_state = Some 1"
  "state_method dialog_state = Some TwoFA" "\<not> loading dialog_state"
  "methods dialog_state = \<lparr>has2FA = True, hasPasskey = False, passkeySupported = False\<rparr>"
  "\<exists>msg. effects dialog_state = [Tried 1, Needed 1 msg]"
  by (simp_all add: dialog_state_def startVerification_def two_fa_methods fetchVerificationMethods_def
      attempt_ended_def refusal_required withVerification_def emit_def spawn_def drop_task_def initialState_def
      default_method_def no_preference_def)

lemma dialog_state_reachable: "(sv_step plain_options)\<^sup>*\<^sup>* initialState dialog_state"
proof -
  let ?a = "withVerification 1 no_preference initialState"
  let ?b = "attempt_ended 1 no_preference (Some refusal) (drop_task 1 ?a)"
  have "sv_step plain_options initialState ?a" by (rule request)
  moreover have "sv_step plain_options ?a ?b"
    by (rule attempted) (simp_all add: withVerification_def emit_def spawn_def initialState_def)
  moreover have "sv_step plain_options ?b dialog_state" unfolding dialog_state_def
    by (rule started) (simp_all add: attempt_ended_def refusal_required withVerification_def emit_def spawn_def
        drop_task_def initialState_def)
  ultimately show ?thesis by (meson rtranclp.rtrancl_into_rtrancl rtranclp.rtrancl_refl)
qed

lemma verifying_state_fields:
  "tasks verifying_state = [Fetching, Verifying 1 TwoFA (js ''123456'')]" "dialog_open verifying_state"
  "loading verifying_state" "effects verifying_state = effects dialog_state"
  using dialog_state_fields
  by (simp_all add: verifying_state_def handleVerify_def activeMethod_def setCode_def executeVerification_def spawn_def)

lemma verifying_state_reachable: "(sv_step plain_options)\<^sup>*\<^sup>* initialState verifying_state"
proof -
  have "sv_step plain_options dialog_state (setCode (js ''123456'') dialog_state)"
    by (rule enter_code) (simp add: dialog_state_fields)
  moreover have "sv_step plain_options (setCode (js ''123456'') dialog_state) verifying_state"
    unfolding verifying_state_def
    by (rule click_verify)
      (simp_all add: dialog_state_fields setCode_def availableTabs_def verifyDisabled_def activeMethod_def trim_def
        is_ws_def js_def)
  ultimately show ?thesis using dialog_state_reachable
    by (meson rtranclp.rtrancl_into_rtrancl)
qed

lemma code_accepted:
  "verify TwoFA (Some (js ''123456'')) (Inr on_answer) run = Inr ()"
  by (simp add: verify_def verifyTwoFA_def sum_bind_def expect_success_def on_answer_def optional_prop_def obj_get_def
      trim_def is_ws_def js_def)

lemma dialog_state_consistent_witness:
  "loading verifying_state \<and> list_ex executes (tasks verifying_state)"
  using dialog_state_consistent [OF verifying_state_reachable] verifying_state_fields by simp

lemma protected_request_verified_witness:
  "\<exists>st msg. (sv_step plain_options)\<^sup>*\<^sup>* initialState st \<and>
     effects st = [Tried 1, Needed 1 msg, Verified TwoFA, Ran 1] \<and>
     ((\<exists>msg. Needed 1 msg \<in> set [Tried 1, Needed 1 msg, Verified TwoFA]) \<or> Handed 1 \<in> set [Tried 1, Needed 1 msg, Verified TwoFA])"
proof -
  define run :: PasskeyRun where "run = undefined"
  let ?b = "verify_ended 1 TwoFA (verify TwoFA (Some (js ''123456'')) (Inr on_answer) run) (drop_task 1 verifying_state)"
  have "sv_step plain_options verifying_state ?b"
    by (rule verified) (simp_all add: verifying_state_fields)
  with verifying_state_reachable have reach: "(sv_step plain_options)\<^sup>*\<^sup>* initialState ?b"
    by (rule rtranclp.rtrancl_into_rtrancl)
  obtain msg where msg: "effects ?b = [Tried 1, Needed 1 msg, Verified TwoFA] @ Ran 1 # []"
    using dialog_state_fields(7) by (auto simp: verify_ended_def code_accepted emit_def spawn_def verifying_state_fields)
  from protected_request_verified [OF reach msg] reach msg show ?thesis by auto
qed

text \<open>
  Closing the dialog does not stop what it started: while a verification is under way the dialog
  can be dismissed, and if the verification then succeeds the protected request runs all the same.
\<close>

theorem cancelled_request_runs:
  assumes "dialog_open st" "i < length (tasks st)" "tasks st ! i = Verifying call m c"
    and "verify m (Some c) answer run = Inr ()"
  shows "\<exists>st1 st2. sv_step opts st st1 \<and> \<not> dialog_open st1 \<and> apiCall st1 = None \<and> sv_step opts st1 st2 \<and>
    \<not> dialog_open st2 \<and> effects st2 = effects st @ [Verified m, Ran call]"
proof -
  let ?a = "cancel st"
  let ?b = "verify_ended call m (verify m (Some c) answer run) (drop_task i ?a)"
  have "sv_step opts st ?a" using assms(1) by (rule dismiss)
  moreover have "tasks ?a = tasks st" by (simp add: cancel_def reset_def)
  then have "sv_step opts ?a ?b" using assms(2,3) by (intro verified) simp_all
  moreover have "\<not> dialog_open ?a" "apiCall ?a = None" "effects ?a = effects st"
    by (simp_all add: cancel_def reset_def)
  ultimately show ?thesis using assms(4)
    by (intro exI [of _ ?a] exI [of _ ?b]) (simp add: verify_ended_def emit_def spawn_def)
qed

lemma cancelled_request_runs_witness:
  "\<exists>st1 st2. sv_step plain_options verifying_state st1 \<and> \<not> dialog_open st1 \<and> apiCall st1 = None \<and>
     sv_step plain_options st1 st2 \<and> \<not> dialog_open st2 \<and>
     effects st2 = effects verifying_state @ [Verified TwoFA, Ran 1]"
  by (rule cancelled_request_runs [where i = 1 and c = "js ''123456''" and answer = "Inr on_answer"])
    (simp_all add: verifying_state_fields code_accepted)

text \<open>
  The method to start with is the recommended one, unless the caller prefers another: that one is
  taken even if the user cannot use it, and the dialog then verifies with it.
\<close>

lemma preferred_method_unchecked:
  "has2FA a \<or> hasPasskey a \<Longrightarrow>
   state_method (startVerification call config a st) =
     (case preferredMethod config of Some m \<Rightarrow> Some m | None \<Rightarrow> recommendedMethod a)"
  "activeMethod (startVerification call (no_preference\<lparr>preferredMethod := Some Passkey\<rparr>)
      (checkVerificationMethods two_fa_only) st) = Some Passkey"
  "\<not> canUseMethod (checkVerificationMethods two_fa_only) Passkey"
  "availableTabs (checkVerificationMethods two_fa_only) = [TwoFA]"
  by (auto simp: startVerification_def fetchVerificationMethods_def Let_def default_method_def recommendedMethod_def
      two_fa_methods activeMethod_def no_preference_def canUseMethod_def availableTabs_def split: option.split)

end
