(* ===== verification/JsPretty.thy ===== *)
theory JsPretty
  imports JsConvert
begin

text \<open>
  \<open>JSON.stringify(v, null, 2)\<close>: every element and member on a line of its own, indented by two blanks
  per level; empty arrays and objects stay on one line. \<open>pretty_roundtrip\<close> shows that the text still
  parses to the value.
\<close>

definition line_start :: "nat \<Rightarrow> jstr" where
  "line_start d = 10 # replicate (2 * d) 32"

definition pretty_list :: "nat \<Rightarrow> nat \<Rightarrow> jstr list \<Rightarrow> nat \<Rightarrow> jstr" where
  "pretty_list opening d items closing =
     (if items = [] then [opening, closing]
      else opening # line_start (Suc d) @ join (44 # line_start (Suc d)) items @ line_start d @ [closing])"

fun ser_pretty :: "nat \<Rightarrow> jsval \<Rightarrow> jstr" where
  "ser_pretty d (JArr vs) = pretty_list 91 d (map (ser_pretty (Suc d)) vs) 93"
| "ser_pretty d (JObj ps) =
     pretty_list 123 d
       (map (\<lambda>(k, u, t). json_quote k @ 58 # 32 # t)
         (filter (\<lambda>(k, u, t). \<not> u) (map (\<lambda>(k, v). (k, v = JUndef, ser_pretty (Suc d) v)) ps))) 125"
| "ser_pretty d v = ser v"

definition json_pretty :: "jsval \<Rightarrow> jstr" where
  "json_pretty v = ser_pretty 0 v"

lemma pretty_list_last: "pretty_list a d xs b \<noteq> [] \<and> last (pretty_list a d xs b) = b \<and> hd (pretty_list a d xs b) = a"
  by (auto simp: pretty_list_def)

section \<open>The text parses back\<close>

definition blank_text :: "jstr \<Rightarrow> bool" where
  "blank_text w \<longleftrightarrow> (\<forall>c\<in>set w. is_json_ws c)"

lemma blank_simps [simp]: "blank_text []" "blank_text (line_start d)" "blank_text [32]"
  by (auto simp: blank_text_def line_start_def is_json_ws_def)

lemma skip_blank [simp]: "blank_text w \<Longrightarrow> skip_ws (w @ s) = skip_ws s"
  by (simp add: blank_text_def skip_ws_def dropWhile_append2)

lemma pval_blank: "blank_text w \<Longrightarrow> pval n (w @ s) = pval n s"
  by (cases n) simp_all

lemma num_stop_line [simp]: "num_stop (line_start d @ r)"
  by (simp add: line_start_def num_stop_def is_digit_def)

definition parses_to :: "jstr \<Rightarrow> jsval \<Rightarrow> bool" where
  "parses_to t v \<longleftrightarrow> (\<forall>r n. num_stop r \<longrightarrow> 2 * length (t @ r) + 1 \<le> n \<longrightarrow> pval n (t @ r) = Some (v, r))"

lemma parses_toD: "parses_to t v \<Longrightarrow> num_stop r \<Longrightarrow> 2 * length (t @ r) + 1 \<le> n \<Longrightarrow> pval n (t @ r) = Some (v, r)"
  unfolding parses_to_def by blast

lemma parses_to_ser: "json_ok v \<Longrightarrow> parses_to (ser v) v"
  using json_ok_parses_back by (simp add: parses_to_def parses_back_def)

lemma pelems_lines:
  assumes "vs \<noteq> []" "list_all2 parses_to ts vs"
    and "2 * length (w @ join (44 # line_start e) ts @ line_start d @ 93 # r) + 2 \<le> n" "blank_text w"
  shows "pelems n (w @ join (44 # line_start e) ts @ line_start d @ 93 # r) = Some (vs, r)"
  using assms
proof (induction vs arbitrary: ts n w)
  case (Cons v vs)
  then obtain t us where ts: "ts = t # us" "parses_to t v" "list_all2 parses_to us vs"
    by (auto simp: list_all2_Cons2)
  from Cons.prems obtain m where n: "n = Suc m" by (cases n) auto
  show ?case
  proof (cases vs)
    case Nil
    with ts Cons.prems n have "pval m (w @ t @ line_start d @ 93 # r) = Some (v, line_start d @ 93 # r)"
      by (auto simp: pval_blank intro!: parses_toD)
    with Nil ts n show ?thesis by simp
  next
    case vs: (Cons v' vs')
    define s where "s = line_start e @ join (44 # line_start e) us @ line_start d @ 93 # r"
    have j: "join (44 # line_start e) ts @ line_start d @ 93 # r = t @ 44 # s"
      using ts vs by (cases us) (auto simp: s_def)
    have "pval m (w @ t @ 44 # s) = Some (v, 44 # s)"
      using Cons.prems n j ts(2) by (auto simp: pval_blank intro!: parses_toD)
    moreover have "pelems m s = Some (vs, r)"
      unfolding s_def using Cons.prems n j ts(3) vs by (intro Cons.IH) (auto simp: s_def)
    ultimately show ?thesis unfolding n j by simp
  qed
qed simp

lemma pmembers_lines:
  assumes "ps \<noteq> []" "list_all2 parses_to ts (map snd ps)"
    and "2 * length (w @ join (44 # line_start e) (map2 (\<lambda>p t. json_quote (fst p) @ 58 # 32 # t) ps ts) @ line_start d @ 125 # r) + 2 \<le> n"
    and "blank_text w"
  shows "pmembers n acc (w @ join (44 # line_start e) (map2 (\<lambda>p t. json_quote (fst p) @ 58 # 32 # t) ps ts) @ line_start d @ 125 # r) =
    Some (foldl (\<lambda>m p. obj_set (fst p) (snd p) m) acc ps, r)"
  using assms
proof (induction ps arbitrary: ts n w acc)
  case (Cons p ps)
  obtain k v where p: "p = (k, v)" by force
  from Cons.prems obtain t us where ts: "ts = t # us" "parses_to t v" "list_all2 parses_to us (map snd ps)"
    by (auto simp: list_all2_Cons2 p)
  from Cons.prems obtain m where n: "n = Suc m" by (cases n) auto
  define more where "more = join (44 # line_start e) (map2 (\<lambda>p t. json_quote (fst p) @ 58 # 32 # t) ps us)"
  define rest where "rest = (if ps = [] then line_start d @ 125 # r else 44 # line_start e @ more @ line_start d @ 125 # r)"
  have us: "us = [] \<longleftrightarrow> ps = []" using list_all2_lengthD [OF ts(3)] by auto
  have b: "join (44 # line_start e) (map2 (\<lambda>p t. json_quote (fst p) @ 58 # 32 # t) (p # ps) ts) @ line_start d @ 125 # r
      = 34 # esc k @ 34 # 58 # [32] @ t @ rest"
    using us by (cases ps; cases us) (simp_all add: rest_def more_def p ts(1) json_quote_def)
  have st: "num_stop rest" by (simp add: rest_def)
  have pv: "pval m ([32] @ t @ rest) = Some (v, rest)"
    unfolding pval_blank [OF blank_simps(3)]
    using Cons.prems st ts(2) n unfolding b by (intro parses_toD) auto
  have q: "skip_ws (w @ 34 # x) = 34 # x" for x using Cons.prems(4) by simp
  show ?case
  proof (cases "ps = []")
    case True
    with pv st q show ?thesis unfolding b n by (simp add: pstr_esc p rest_def)
  next
    case False
    have "pmembers m (obj_set k v acc) (line_start e @ more @ line_start d @ 125 # r) =
        Some (foldl (\<lambda>m p. obj_set (fst p) (snd p) m) (obj_set k v acc) ps, r)"
      unfolding more_def using False Cons.prems n ts(3) unfolding b
      by (intro Cons.IH) (auto simp: rest_def more_def)
    with False pv st q show ?thesis unfolding b n by (simp add: pstr_esc p rest_def)
  qed
qed simp

lemma ser_pretty_JObj:
  assumes "\<forall>p\<in>set ps. json_ok (snd p)"
  shows "ser_pretty d (JObj ps) =
    pretty_list 123 d (map2 (\<lambda>p t. json_quote (fst p) @ 58 # 32 # t) ps (map (ser_pretty (Suc d) \<circ> snd) ps)) 125"
proof -
  have "map (\<lambda>(k, u, t). json_quote k @ 58 # 32 # t)
       (filter (\<lambda>(k, u, t). \<not> u) (map (\<lambda>(k, v). (k, v = JUndef, ser_pretty (Suc d) v)) ps))
   = map2 (\<lambda>p t. json_quote (fst p) @ 58 # 32 # t) ps (map (ser_pretty (Suc d) \<circ> snd) ps)"
    using assms by (induction ps) auto
  then show ?thesis by (simp only: ser_pretty.simps)
qed

lemma pretty_hd:
  assumes "json_ok v"
  shows "ser_pretty d v \<noteq> [] \<and> \<not> is_json_ws (hd (ser_pretty d v)) \<and> hd (ser_pretty d v) \<noteq> 93 \<and> hd (ser_pretty d v) \<noteq> 125"
proof (cases v)
  case (JArr vs)
  then show ?thesis by (simp add: pretty_list_def)
next
  case (JObj ps)
  then show ?thesis by (simp add: pretty_list_def)
qed (use assms json_ok_ser_hd [OF assms] in simp_all)

lemma pretty_parses: "json_ok v \<Longrightarrow> parses_to (ser_pretty d v) v"
proof (induction v arbitrary: d)
  case (JArr vs)
  show ?case unfolding parses_to_def
  proof (intro allI impI)
    fix r n assume len: "2 * length (ser_pretty d (JArr vs) @ r) + 1 \<le> n"
    then obtain m where n: "n = Suc m" by (cases n) auto
    show "pval n (ser_pretty d (JArr vs) @ r) = Some (JArr vs, r)"
    proof (cases vs)
      case Nil
      then show ?thesis by (simp add: n pretty_list_def)
    next
      case (Cons x xs)
      let ?ts = "map (ser_pretty (Suc d)) vs"
      let ?s = "line_start (Suc d) @ join (44 # line_start (Suc d)) ?ts @ line_start d @ 93 # r"
      have "list_all2 parses_to ?ts vs" using JArr by (auto simp: list_all2_conv_all_nth)
      then have "pelems m ?s = Some (vs, r)"
        using Cons len n by (intro pelems_lines) (auto simp: pretty_list_def)
      moreover have "\<not> prefix [93] (skip_ws ?s)"
        using JArr.prems pretty_hd [of x "Suc d"] unfolding Cons skip_blank [OF blank_simps(2)]
        by (subst skip_ws_id; cases xs; cases "ser_pretty (Suc d) x") auto
      ultimately show ?thesis using Cons by (simp add: n pretty_list_def)
    qed
  qed
next
  case (JObj ps)
  then have ok: "\<forall>p\<in>set ps. json_ok (snd p)" by auto
  show ?case unfolding parses_to_def
  proof (intro allI impI)
    fix r n assume len: "2 * length (ser_pretty d (JObj ps) @ r) + 1 \<le> n"
    then obtain m where n: "n = Suc m" by (cases n) auto
    show "pval n (ser_pretty d (JObj ps) @ r) = Some (JObj ps, r)"
    proof (cases "ps = []")
      case True
      then show ?thesis by (simp add: n pretty_list_def)
    next
      case False
      let ?ts = "map (ser_pretty (Suc d) \<circ> snd) ps"
      let ?is = "map2 (\<lambda>p t. json_quote (fst p) @ 58 # 32 # t) ps ?ts"
      let ?s = "line_start (Suc d) @ join (44 # line_start (Suc d)) ?is @ line_start d @ 125 # r"
      have "list_all2 parses_to ?ts (map snd ps)"
        using JObj.IH ok by (auto simp: list_all2_conv_all_nth elim!: snds.cases) (metis nth_mem snds.intros surjective_pairing)
      then have "pmembers m [] ?s = Some (ps, r)"
        using False len n JObj.prems foldl_obj_set_wf [of "[]" ps] ser_pretty_JObj [OF ok, of d]
        by (subst pmembers_lines) (auto simp: pretty_list_def simp del: ser_pretty.simps)
      moreover have "\<not> prefix [125] (skip_ws ?s)"
        unfolding skip_blank [OF blank_simps(2)] using False by (cases ps; cases "tl ps") (auto simp: json_quote_def)
      ultimately show ?thesis using False by (simp add: n pretty_list_def ser_pretty_JObj [OF ok] del: ser_pretty.simps)
    qed
  qed
qed (simp_all del: ser.simps add: parses_to_ser)

lemma pretty_roundtrip: "json_ok v \<Longrightarrow> json_parse (json_pretty v) = Some v"
proof -
  assume "json_ok v"
  then have "pval (2 * length (json_pretty v) + 2) (json_pretty v @ []) = Some (v, [])"
    unfolding json_pretty_def by (intro parses_toD [OF pretty_parses]) simp_all
  then show ?thesis unfolding json_parse_def by (simp add: skip_ws_def del: pval.simps)
qed

lemma pretty_nonblank: "json_ok v \<Longrightarrow> trim (json_pretty v) \<noteq> []"
  using pretty_roundtrip json_parse_blank by fastforce

end
