(* ===== verification/ParamOverride.thy ===== *)
theory ParamOverride
  imports JsPretty
begin

text \<open>
  The parameter overrides of a channel as the visual editor keeps them:
  \<open>src/newapi/web/default/src/features/channels/components/dialogs/param-override-editor-dialog.tsx\<close>,
  its constants and helper functions.

  An override is a JSON text. In the current format it holds a list of operations on the request, which
  the editor reads into records, checks and prints; every other object is the older format and stays a
  text. Records get an identity from the clock and a counter when they are made; the counter is passed
  through the functions, and the clock is a function of it. \<open>None\<close> is a \<open>TypeError\<close>: a property is read
  of \<open>null\<close>, or an object is converted that has a \<open>toString\<close> of its own.
\<close>

section \<open>Operations and their conditions\<close>

record ParamOverrideCondition =
  cond_id :: jstr
  cond_path :: jstr
  cond_mode :: jstr
  cond_value_text :: jstr
  invert :: bool
  pass_missing_key :: bool

record ParamOverrideOperation =
  op_id :: jstr
  description :: jstr
  path :: jstr
  mode :: jstr
  op_from :: jstr
  op_to :: jstr
  value_text :: jstr
  keep_origin :: bool
  logic :: jstr
  conditions :: "ParamOverrideCondition list"

definition OPERATION_MODE_VALUES :: "jstr list" where
  "OPERATION_MODE_VALUES = map js
     [''set'', ''delete'', ''append'', ''prepend'', ''copy'', ''move'', ''replace'', ''regex_replace'', ''trim_prefix'',
      ''trim_suffix'', ''ensure_prefix'', ''ensure_suffix'', ''trim_space'', ''to_lower'', ''to_upper'',
      ''return_error'', ''prune_objects'', ''pass_headers'', ''sync_fields'', ''set_header'', ''delete_header'',
      ''copy_header'', ''move_header'']"

definition CONDITION_MODE_VALUES :: "jstr list" where
  "CONDITION_MODE_VALUES = map js
     [''full'', ''prefix'', ''suffix'', ''contains'', ''gt'', ''gte'', ''lt'', ''lte'']"

text \<open>The fields of a mode; a field that is not listed is absent, which reads as false.\<close>

datatype Field = PathField | PathOptional | ValueField | FromField | ToField | KeepOrigin | PathAlias

definition MODE_META :: "(jstr \<times> Field list) list" where
  "MODE_META = map (\<lambda>(m, fs). (js m, fs))
     [(''delete'', [PathField]),
      (''set'', [PathField, ValueField, KeepOrigin]),
      (''append'', [PathField, ValueField, KeepOrigin]),
      (''prepend'', [PathField, ValueField, KeepOrigin]),
      (''copy'', [FromField, ToField]),
      (''move'', [FromField, ToField]),
      (''replace'', [PathField, FromField]),
      (''regex_replace'', [PathField, FromField]),
      (''trim_prefix'', [PathField, ValueField]),
      (''trim_suffix'', [PathField, ValueField]),
      (''ensure_prefix'', [PathField, ValueField]),
      (''ensure_suffix'', [PathField, ValueField]),
      (''trim_space'', [PathField]),
      (''to_lower'', [PathField]),
      (''to_upper'', [PathField]),
      (''return_error'', [ValueField]),
      (''prune_objects'', [PathOptional, ValueField]),
      (''pass_headers'', [ValueField, KeepOrigin]),
      (''sync_fields'', [FromField, ToField]),
      (''set_header'', [PathField, ValueField, KeepOrigin]),
      (''delete_header'', [PathField]),
      (''copy_header'', [FromField, ToField, KeepOrigin, PathAlias]),
      (''move_header'', [FromField, ToField, KeepOrigin, PathAlias])]"

definition VALUE_REQUIRED_MODES :: "jstr list" where
  "VALUE_REQUIRED_MODES = map js
     [''trim_prefix'', ''trim_suffix'', ''ensure_prefix'', ''ensure_suffix'', ''set_header'', ''return_error'',
      ''prune_objects'', ''pass_headers'']"

definition FROM_REQUIRED_MODES :: "jstr list" where
  "FROM_REQUIRED_MODES = map js
     [''copy'', ''move'', ''replace'', ''regex_replace'', ''copy_header'', ''move_header'', ''sync_fields'']"

definition TO_REQUIRED_MODES :: "jstr list" where
  "TO_REQUIRED_MODES = map js [''copy'', ''move'', ''copy_header'', ''move_header'', ''sync_fields'']"

text \<open>\<open>mode || 'set'\<close> and \<open>MODE_META[mode] || MODE_META.set\<close>.\<close>

definition mode_or_set :: "jstr \<Rightarrow> jstr" where
  "mode_or_set m = (if m = [] then js ''set'' else m)"

definition mode_has :: "jstr \<Rightarrow> Field \<Rightarrow> bool" where
  "mode_has m f \<longleftrightarrow>
     f \<in> set (case map_of MODE_META m of Some fs \<Rightarrow> fs | None \<Rightarrow> [PathField, ValueField, KeepOrigin])"

section \<open>Values as text\<close>

definition toValueText :: "jsval \<Rightarrow> jstr" where
  "toValueText value =
     (case value of
        JUndef \<Rightarrow> []
      | JStr s \<Rightarrow> s
      | _ \<Rightarrow> ser value)"

definition parseLooseValue :: "jstr \<Rightarrow> jsval" where
  "parseLooseValue valueText =
     (let raw = trim valueText in
      if raw = [] then JStr []
      else case json_parse raw of Some v \<Rightarrow> v | None \<Rightarrow> JStr raw)"

definition verifyJSON :: "jstr \<Rightarrow> bool" where
  "verifyJSON t \<longleftrightarrow> json_parse t \<noteq> None"

section \<open>Reading\<close>

definition nextLocalId :: "(nat \<Rightarrow> nat) \<Rightarrow> nat \<Rightarrow> jstr" where
  "nextLocalId now seed = js ''po_'' @ dec (now seed) @ js ''_'' @ dec seed"

definition string_field :: "string \<Rightarrow> jsval \<Rightarrow> jstr" where
  "string_field k v = (case get_prop (js k) v of JStr s \<Rightarrow> s | _ \<Rightarrow> [])"

definition known_mode :: "jstr list \<Rightarrow> jstr \<Rightarrow> jsval \<Rightarrow> jstr" where
  "known_mode modes fallback v =
     (case get_prop (js ''mode'') v of JStr m \<Rightarrow> if m \<in> set modes then m else fallback | _ \<Rightarrow> fallback)"

definition normalizeCondition :: "(nat \<Rightarrow> nat) \<Rightarrow> jsval \<Rightarrow> nat \<Rightarrow> (ParamOverrideCondition \<times> nat) option" where
  "normalizeCondition now condition seed =
     (if condition = JNull then None
      else Some (\<lparr>cond_id = nextLocalId now seed,
        cond_path = string_field ''path'' condition,
        cond_mode = known_mode CONDITION_MODE_VALUES (js ''full'') condition,
        cond_value_text = toValueText (get_prop (js ''value'') condition),
        invert = (get_prop (js ''invert'') condition = JBool True),
        pass_missing_key = (get_prop (js ''pass_missing_key'') condition = JBool True)\<rparr>, Suc seed))"

text \<open>\<open>map\<close> with a function that may throw and that counts identities.\<close>

fun map_counted :: "(jsval \<Rightarrow> nat \<Rightarrow> ('a \<times> nat) option) \<Rightarrow> jsval list \<Rightarrow> nat \<Rightarrow> ('a list \<times> nat) option" where
  "map_counted f [] seed = Some ([], seed)"
| "map_counted f (v # vs) seed =
     (case f v seed of
        None \<Rightarrow> None
      | Some (x, seed1) \<Rightarrow>
          (case map_counted f vs seed1 of
             None \<Rightarrow> None
           | Some (xs, seed2) \<Rightarrow> Some (x # xs, seed2)))"

definition logic_of :: "jsval \<Rightarrow> jstr option" where
  "logic_of v =
     map_option (\<lambda>s. if ascii_upper s = js ''AND'' then js ''AND'' else js ''OR'')
       (as_string (js_or v (JStr (js ''OR''))))"

definition normalizeOperation :: "(nat \<Rightarrow> nat) \<Rightarrow> jsval \<Rightarrow> nat \<Rightarrow> (ParamOverrideOperation \<times> nat) option" where
  "normalizeOperation now operation seed =
     (if operation = JNull then None
      else case logic_of (get_prop (js ''logic'') operation) of
        None \<Rightarrow> None
      | Some l \<Rightarrow>
          (case (case get_prop (js ''conditions'') operation of
                   JArr cs \<Rightarrow> map_counted (normalizeCondition now) cs (Suc seed)
                 | _ \<Rightarrow> Some ([], Suc seed)) of
             None \<Rightarrow> None
           | Some (cs, seed1) \<Rightarrow>
               Some (\<lparr>op_id = nextLocalId now seed,
                 description = string_field ''description'' operation,
                 path = string_field ''path'' operation,
                 mode = known_mode OPERATION_MODE_VALUES (js ''set'') operation,
                 op_from = string_field ''from'' operation,
                 op_to = string_field ''to'' operation,
                 value_text = toValueText (get_prop (js ''value'') operation),
                 keep_origin = (get_prop (js ''keep_origin'') operation = JBool True),
                 logic = l,
                 conditions = cs\<rparr>, seed1)))"

definition createDefaultCondition :: "(nat \<Rightarrow> nat) \<Rightarrow> nat \<Rightarrow> ParamOverrideCondition" where
  "createDefaultCondition now seed =
     \<lparr>cond_id = nextLocalId now seed, cond_path = [], cond_mode = js ''full'', cond_value_text = [],
      invert = False, pass_missing_key = False\<rparr>"

definition createDefaultOperation :: "(nat \<Rightarrow> nat) \<Rightarrow> nat \<Rightarrow> ParamOverrideOperation" where
  "createDefaultOperation now seed =
     \<lparr>op_id = nextLocalId now seed, description = [], path = [], mode = js ''set'', op_from = [], op_to = [],
      value_text = [], keep_origin = False, logic = js ''OR'', conditions = []\<rparr>"

lemma default_condition: "normalizeCondition now (JObj []) seed = Some (createDefaultCondition now seed, Suc seed)"
  by (simp add: normalizeCondition_def createDefaultCondition_def string_field_def known_mode_def toValueText_def obj_get_def)

lemma default_operation:
  "normalizeOperation now (JObj [(js ''mode'', JStr (js ''set''))]) seed = Some (createDefaultOperation now seed, Suc seed)"
  by (simp add: normalizeOperation_def createDefaultOperation_def string_field_def known_mode_def toValueText_def
      logic_of_def js_or_def obj_get_def OPERATION_MODE_VALUES_def ascii_upper_def) (simp add: js_def)

section \<open>Order and blank operations\<close>

datatype Position = Before | After

definition position_of :: "('a \<Rightarrow> bool) \<Rightarrow> 'a list \<Rightarrow> nat option" where
  "position_of P xs = (let n = length (takeWhile (\<lambda>x. \<not> P x) xs) in if n < length xs then Some n else None)"

definition insert_at :: "nat \<Rightarrow> 'a \<Rightarrow> 'a list \<Rightarrow> 'a list" where
  "insert_at i x xs = take i xs @ x # drop i xs"

definition reorderOperations ::
  "ParamOverrideOperation list \<Rightarrow> jstr \<Rightarrow> jstr \<Rightarrow> Position \<Rightarrow> ParamOverrideOperation list" where
  "reorderOperations ops sourceId targetId position =
     (if sourceId = [] \<or> targetId = [] \<or> sourceId = targetId then ops
      else case position_of (\<lambda>o'. op_id o' = sourceId) ops of
        None \<Rightarrow> ops
      | Some srcIdx \<Rightarrow>
          let moved = ops ! srcIdx; rest = take srcIdx ops @ drop (Suc srcIdx) ops in
          (case position_of (\<lambda>o'. op_id o' = targetId) rest of
             None \<Rightarrow> ops
           | Some i \<Rightarrow> insert_at (if position = After then Suc i else i) moved rest))"

definition condition_touched :: "ParamOverrideCondition \<Rightarrow> bool" where
  "condition_touched c \<longleftrightarrow>
     trim (cond_path c) \<noteq> [] \<or> trim (cond_value_text c) \<noteq> [] \<or> cond_mode c \<noteq> js ''full'' \<or> invert c \<or> pass_missing_key c"

definition isOperationBlank :: "ParamOverrideOperation \<Rightarrow> bool" where
  "isOperationBlank operation \<longleftrightarrow>
     mode operation = js ''set'' \<and> trim (path operation) = [] \<and> trim (op_from operation) = [] \<and>
     trim (op_to operation) = [] \<and> trim (value_text operation) = [] \<and> \<not> keep_origin operation \<and>
     \<not> list_ex condition_touched (conditions operation)"

section \<open>Checking\<close>

text \<open>\<open>String(i ?? '').trim()\<close> of every element, without the empty ones.\<close>

definition trimmed_names :: "jsval list \<Rightarrow> jstr list option" where
  "trimmed_names vs =
     map_option (\<lambda>ss. filter (\<lambda>s. s \<noteq> []) (map trim ss))
       (those (map (\<lambda>v. as_string (if is_nullish v then JStr [] else v)) vs))"

definition parsePassHeaderNames :: "jsval \<Rightarrow> jstr list option" where
  "parsePassHeaderNames rawValue =
     (case rawValue of
        JArr vs \<Rightarrow> trimmed_names vs
      | JObj ps \<Rightarrow>
          (case obj_get (js ''headers'') ps of
             JArr vs \<Rightarrow> trimmed_names vs
           | _ \<Rightarrow>
               let header = obj_get (js ''header'') ps in
               if header \<noteq> JUndef then trimmed_names [header] else Some [])
      | JStr s \<Rightarrow> Some (filter (\<lambda>t. t \<noteq> []) (map trim (split_on comma s)))
      | _ \<Rightarrow> Some [])"

text \<open>The messages of the checks, with the number of the rule; \<open>ConversionError\<close> is the \<open>TypeError\<close>.\<close>

datatype Problem =
    MissingPath nat
  | MissingSource nat
  | MissingTarget nat
  | MissingValue nat
  | MessageRequired nat
  | HeadersInvalid nat
  | ConversionError
  | InvalidJSON
  | LegacyNotObject

text \<open>An exception inside the check of \<open>return_error\<close> is caught, and the value passes.\<close>

definition return_error_lacks_message :: "jstr \<Rightarrow> bool" where
  "return_error_lacks_message raw \<longleftrightarrow>
     (case json_parse raw of
        Some (JObj ps) \<Rightarrow>
          (case as_string (js_or (obj_get (js ''message'') ps) (JStr [])) of
             Some s \<Rightarrow> trim s = []
           | None \<Rightarrow> False)
      | _ \<Rightarrow> False)"

definition validate_operation :: "nat \<Rightarrow> ParamOverrideOperation \<Rightarrow> Problem option" where
  "validate_operation line op =
     (let m = mode_or_set (mode op);
          pathValue = trim (path op); fromValue = trim (op_from op); toValue = trim (op_to op);
          raw = trim (value_text op) in
      if mode_has m PathField \<and> pathValue = [] then Some (MissingPath line)
      else if m \<in> set FROM_REQUIRED_MODES \<and> fromValue = [] \<and> \<not> (mode_has m PathAlias \<and> pathValue \<noteq> [])
      then Some (MissingSource line)
      else if m \<in> set TO_REQUIRED_MODES \<and> toValue = [] \<and> \<not> (mode_has m PathAlias \<and> pathValue \<noteq> [])
      then Some (MissingTarget line)
      else if m \<in> set VALUE_REQUIRED_MODES \<and> raw = [] then Some (MissingValue line)
      else if m = js ''return_error'' \<and> return_error_lacks_message raw then Some (MessageRequired line)
      else if m = js ''pass_headers'' then
        (case parsePassHeaderNames (parseLooseValue raw) of
           None \<Rightarrow> Some ConversionError
         | Some [] \<Rightarrow> Some (HeadersInvalid line)
         | Some _ \<Rightarrow> None)
      else None)"

fun validate_from :: "nat \<Rightarrow> ParamOverrideOperation list \<Rightarrow> Problem option" where
  "validate_from i [] = None"
| "validate_from i (op # ops) =
     (case validate_operation (Suc i) op of Some p \<Rightarrow> Some p | None \<Rightarrow> validate_from (Suc i) ops)"

definition validateOperations :: "ParamOverrideOperation list \<Rightarrow> Problem option" where
  "validateOperations operations = validate_from 0 operations"

section \<open>Writing\<close>

definition set_if :: "bool \<Rightarrow> string \<Rightarrow> jsval \<Rightarrow> (jstr \<times> jsval) list \<Rightarrow> (jstr \<times> jsval) list" where
  "set_if b k v ps = (if b then obj_set (js k) v ps else ps)"

definition buildConditionPayload :: "ParamOverrideCondition \<Rightarrow> jsval option" where
  "buildConditionPayload condition =
     (if trim (cond_path condition) = [] then None
      else Some (JObj
        (set_if (pass_missing_key condition) ''pass_missing_key'' (JBool True)
          (set_if (invert condition) ''invert'' (JBool True)
            [(js ''path'', JStr (trim (cond_path condition))),
             (js ''mode'', JStr (if cond_mode condition = [] then js ''full'' else cond_mode condition)),
             (js ''value'', parseLooseValue (cond_value_text condition))]))))"

definition build_operation :: "ParamOverrideOperation \<Rightarrow> jsval" where
  "build_operation operation =
     (let m = mode_or_set (mode operation);
          pathValue = trim (path operation); fromValue = trim (op_from operation); toValue = trim (op_to operation);
          p0 = [(js ''mode'', JStr m)];
          p1 = set_if (trim (description operation) \<noteq> []) ''description'' (JStr (trim (description operation))) p0;
          p2 = set_if (mode_has m PathField \<or> mode_has m PathOptional \<and> pathValue \<noteq> []) ''path'' (JStr pathValue) p1;
          p3 = set_if (mode_has m ValueField) ''value'' (parseLooseValue (value_text operation)) p2;
          p4 = set_if (mode_has m KeepOrigin \<and> keep_origin operation) ''keep_origin'' (JBool True) p3;
          p5 = set_if (mode_has m FromField) ''from'' (JStr fromValue) p4;
          p6 = set_if (mode_has m ToField \<or> toValue \<noteq> []) ''to'' (JStr toValue) p5;
          p7 = set_if (mode_has m PathAlias \<and> \<not> truthy (obj_get (js ''from'') p6) \<and> pathValue \<noteq> []) ''from'' (JStr pathValue) p6;
          p8 = set_if (mode_has m PathAlias \<and> \<not> truthy (obj_get (js ''to'') p7) \<and> pathValue \<noteq> []) ''to'' (JStr pathValue) p7;
          cs = List.map_filter buildConditionPayload (conditions operation) in
      JObj
        (if cs = [] then p8
         else obj_set (js ''logic'') (JStr (if logic operation = js ''AND'' then js ''AND'' else js ''OR''))
           (obj_set (js ''conditions'') (JArr cs) p8)))"

definition operations_value :: "ParamOverrideOperation list \<Rightarrow> jsval" where
  "operations_value ops = JObj [(js ''operations'', JArr (map build_operation ops))]"

definition buildOperationsJson :: "ParamOverrideOperation list \<Rightarrow> bool \<Rightarrow> Problem + jstr" where
  "buildOperationsJson sourceOperations validate =
     (let filteredOps = filter (\<lambda>op. \<not> isOperationBlank op) sourceOperations in
      if filteredOps = [] then Inr []
      else case (if validate then validateOperations filteredOps else None) of
        Some message \<Rightarrow> Inl message
      | None \<Rightarrow> Inr (json_pretty (operations_value filteredOps)))"

section \<open>Opening\<close>

datatype EditMode = Visual | Json
datatype VisualMode = Operations | Legacy

record EditorState =
  editMode :: EditMode
  visualMode :: VisualMode
  legacyValue :: jstr
  operations :: "ParamOverrideOperation list"
  jsonText :: jstr
  jsonError :: bool

text \<open>The operations of a parsed text, one default operation when there are none.\<close>

definition read_operations :: "(nat \<Rightarrow> nat) \<Rightarrow> jsval list \<Rightarrow> nat \<Rightarrow> (ParamOverrideOperation list \<times> nat) option" where
  "read_operations now vs seed =
     (if vs = [] then Some ([createDefaultOperation now seed], Suc seed)
      else map_counted (normalizeOperation now) vs seed)"

definition parseInitialState :: "(nat \<Rightarrow> nat) \<Rightarrow> jstr \<Rightarrow> nat \<Rightarrow> (EditorState \<times> nat) option" where
  "parseInitialState now rawValue seed =
     (let trimmed = trim rawValue;
          fallback = [createDefaultOperation now seed];
          state = (\<lambda>em vm lv ops jt je. \<lparr>editMode = em, visualMode = vm, legacyValue = lv, operations = ops,
            jsonText = jt, jsonError = je\<rparr>) in
      if trimmed = [] then Some (state Visual Operations [] fallback [] False, Suc seed)
      else case json_parse trimmed of
        None \<Rightarrow> Some (state Json Operations [] fallback rawValue True, Suc seed)
      | Some parsed \<Rightarrow>
          let pretty = json_pretty parsed in
          (case parsed of
             JObj ps \<Rightarrow>
               (case obj_get (js ''operations'') ps of
                  JArr vs \<Rightarrow>
                    map_option (\<lambda>(ops, seed1). (state Visual Operations [] ops pretty False, seed1))
                      (read_operations now vs seed)
                | _ \<Rightarrow> Some (state Visual Legacy pretty fallback pretty False, Suc seed))
           | _ \<Rightarrow> Some (state Json Operations [] fallback pretty False, Suc seed)))"

end
