(* ===== verification/ParamOverrideText.thy ===== *)
theory ParamOverrideText
  imports ParamOverride
begin

text \<open>
  What the editor of parameter overrides prints it can read, and what is lost on the way: values
  (\<open>value_stable\<close>), operations (\<open>reads_operation\<close>), and whole texts.
\<close>

section \<open>Values\<close>

lemma trimmed_ser: "json_ok v \<Longrightarrow> trimmed (ser v)"
proof (cases v)
  case (JNum x)
  moreover assume "json_ok v"
  ultimately obtain q where "x = Fin q" by (auto simp: num_ok_def)
  then have "\<not> is_ws c" if "c \<in> set (ser v)" for c
    using string_number_units [of c q] that JNum by (auto simp: is_ws_def is_digit_def simp del: num_to_string.simps)
  then show ?thesis by (intro no_ws_trimmed) blast
qed (auto simp: trimmed_def js_def is_ws_def json_quote_def)

definition plain_text :: "jsval \<Rightarrow> bool" where
  "plain_text v \<longleftrightarrow> (case v of JStr s \<Rightarrow> trimmed s \<and> json_parse s = None | _ \<Rightarrow> True)"

lemma json_parse_Nil [simp]: "json_parse [] = None"
  by (simp add: json_parse_blank)

lemma hex4_length: "hex4 s = Some (n, t) \<Longrightarrow> length s = length t + 4"
  by (auto simp: hex4_def split: list.splits option.splits)

lemma pstr_length: "pstr s = Some (k, t) \<Longrightarrow> length k + length t < length s"
proof (induction s arbitrary: k t rule: pstr.induct)
  case (2 c s)
  then show ?case by (fastforce split: if_splits list.splits option.splits prod.splits dest!: hex4_length)
qed simp

lemma parsed_string_shorter: "json_parse t = Some (JStr s) \<Longrightarrow> length s < length t"
proof -
  assume "json_parse t = Some (JStr s)"
  then obtain n r where "pval (Suc n) t = Some (JStr s, r)"
    by (auto simp: json_parse_def simp del: pval.simps split: option.splits prod.splits if_splits)
  then obtain c u where "skip_ws t = c # u" "pstr u = Some (s, r)"
    by (auto split: list.splits if_splits)
  then show ?thesis using pstr_length [of u s r] skip_ws_Cons [of t c u] by simp
qed

lemma length_trim: "length (trim s) \<le> length s"
  by (simp add: trim_def) (metis length_dropWhile_le length_rev le_trans)

lemma value_stable: "json_ok v \<Longrightarrow> parseLooseValue (toValueText v) = v \<longleftrightarrow> plain_text v"
proof (cases v)
  case (JStr s)
  have "json_parse (trim s) \<noteq> Some (JStr s)" using parsed_string_shorter [of "trim s" s] length_trim [of s] by auto
  with JStr show ?thesis
    by (auto simp: parseLooseValue_def toValueText_def plain_text_def Let_def trim_id trim_trimmed_iff [symmetric] split: option.splits)
next
  case JUndef
  moreover assume "json_ok v"
  ultimately show ?thesis by simp
qed (use json_ok_ser_hd [of v] trimmed_ser [of v] in
  \<open>auto simp: parseLooseValue_def toValueText_def plain_text_def Let_def trim_id json_roundtrip simp del: ser.simps\<close>)

section \<open>Operations\<close>

text \<open>An operation without identities, and as it comes back from the text it is printed to.\<close>

definition bare_condition :: "ParamOverrideCondition \<Rightarrow> ParamOverrideCondition" where
  "bare_condition c = c\<lparr>cond_id := []\<rparr>"

definition bare :: "ParamOverrideOperation \<Rightarrow> ParamOverrideOperation" where
  "bare op = op\<lparr>op_id := [], conditions := map bare_condition (conditions op)\<rparr>"

definition reread_text :: "jstr \<Rightarrow> jstr" where
  "reread_text t = toValueText (parseLooseValue t)"

definition reread_condition :: "ParamOverrideCondition \<Rightarrow> ParamOverrideCondition" where
  "reread_condition c =
     c\<lparr>cond_id := [], cond_path := trim (cond_path c), cond_value_text := reread_text (cond_value_text c)\<rparr>"

definition kept_conditions :: "ParamOverrideOperation \<Rightarrow> ParamOverrideCondition list" where
  "kept_conditions op = filter (\<lambda>c. trim (cond_path c) \<noteq> []) (conditions op)"

definition first_nonempty :: "jstr \<Rightarrow> jstr \<Rightarrow> jstr" where
  "first_nonempty a b = (if a = [] then b else a)"

definition reread :: "ParamOverrideOperation \<Rightarrow> ParamOverrideOperation" where
  "reread op =
     (let m = mode op; alias = (if mode_has m PathAlias then trim (path op) else []) in
      \<lparr>op_id = [],
       description = trim (description op),
       path = (if mode_has m PathField \<or> mode_has m PathOptional then trim (path op) else []),
       mode = m,
       op_from = (if mode_has m FromField then first_nonempty (trim (op_from op)) alias else []),
       op_to = first_nonempty (trim (op_to op)) alias,
       value_text = (if mode_has m ValueField then reread_text (value_text op) else []),
       keep_origin = (mode_has m KeepOrigin \<and> keep_origin op),
       logic = (if kept_conditions op = [] then js ''OR'' else logic op),
       conditions = map reread_condition (kept_conditions op)\<rparr>)"

text \<open>What every operation of the editor satisfies, and that its numbers are printed so that they can be read.\<close>

definition condition_ok :: "ParamOverrideCondition \<Rightarrow> bool" where
  "condition_ok c \<longleftrightarrow> cond_mode c \<in> set CONDITION_MODE_VALUES"

definition operation_ok :: "ParamOverrideOperation \<Rightarrow> bool" where
  "operation_ok op \<longleftrightarrow>
     mode op \<in> set OPERATION_MODE_VALUES \<and> logic op \<in> {js ''AND'', js ''OR''} \<and> list_all condition_ok (conditions op)"

definition printable :: "ParamOverrideOperation \<Rightarrow> bool" where
  "printable op \<longleftrightarrow>
     json_ok (parseLooseValue (value_text op)) \<and>
     list_all (\<lambda>c. json_ok (parseLooseValue (cond_value_text c))) (conditions op)"

lemma get_set_if [simp]: "obj_get k (set_if b k' v ps) = (if b \<and> k = js k' then v else obj_get k ps)"
  by (simp add: set_if_def)

lemma set_if_simps [simp]: "set_if False k v ps = ps" "set_if True k v ps = obj_set (js k) v ps"
  by (simp_all add: set_if_def)

lemma json_ok_set_if: "json_ok (JObj ps) \<Longrightarrow> (b \<Longrightarrow> json_ok v) \<Longrightarrow> json_ok (JObj (set_if b k v ps))"
  by (simp add: set_if_def json_ok_obj_set del: json_ok.simps)

lemma operation_json_ok: "printable op \<Longrightarrow> json_ok (build_operation op)"
proof -
  assume p: "printable op"
  have "json_ok v" if "c \<in> set (conditions op)" "buildConditionPayload c = Some v" for c v
  proof -
    from that p have "json_ok (parseLooseValue (cond_value_text c))" by (auto simp: printable_def list_all_iff)
    then have "json_ok (JObj [(js ''path'', JStr (trim (cond_path c))),
        (js ''mode'', JStr (if cond_mode c = [] then js ''full'' else cond_mode c)),
        (js ''value'', parseLooseValue (cond_value_text c))])"
      by (simp add: obj_wf_def key_before_def is_index_key_def is_digit_def) (simp add: js_def is_digit_def)
    with that show ?thesis
      by (auto simp: buildConditionPayload_def simp del: json_ok.simps(6,7) split: if_splits intro!: json_ok_set_if)
  qed
  then have cs: "json_ok (JArr (List.map_filter buildConditionPayload (conditions op)))"
    by (auto simp: in_set_map_filter)
  have m: "json_ok (JObj [(js ''mode'', JStr m)])" for m by (simp add: obj_wf_def)
  from p have v: "json_ok (parseLooseValue (value_text op))" by (simp add: printable_def)
  show ?thesis
    unfolding build_operation_def Let_def
    using cs v by (auto simp del: json_ok.simps(6,7) intro!: json_ok_set_if json_ok_obj_set m)
qed

lemma read_condition:
  assumes "condition_ok c" "buildConditionPayload c = Some v"
  shows "\<exists>x. normalizeCondition now v seed = Some (x, Suc seed) \<and> bare_condition x = reread_condition c"
proof -
  from assms(1) have m: "cond_mode c \<in> set CONDITION_MODE_VALUES" "cond_mode c \<noteq> []"
    by (auto simp: condition_ok_def CONDITION_MODE_VALUES_def)
  with assms(2) show ?thesis
    by (auto simp: buildConditionPayload_def normalizeCondition_def string_field_def known_mode_def obj_get_def [of _ "_ # _"]
        bare_condition_def reread_condition_def reread_text_def split: if_splits)
qed

lemma read_conditions:
  assumes "list_all condition_ok cs"
  shows "\<exists>xs. map_counted (normalizeCondition now) (List.map_filter buildConditionPayload cs) seed =
      Some (xs, seed + length xs) \<and> map bare_condition xs = map reread_condition (filter (\<lambda>c. trim (cond_path c) \<noteq> []) cs)"
  using assms
proof (induction cs arbitrary: seed)
  case Nil
  then show ?case by (simp add: map_filter_simps)
next
  case (Cons c cs)
  show ?case
  proof (cases "buildConditionPayload c")
    case None
    then have "trim (cond_path c) = []" by (simp add: buildConditionPayload_def split: if_splits)
    with None Cons show ?thesis by (simp add: map_filter_simps)
  next
    case (Some v)
    then have "trim (cond_path c) \<noteq> []" by (auto simp: buildConditionPayload_def)
    moreover obtain x where "normalizeCondition now v seed = Some (x, Suc seed)" "bare_condition x = reread_condition c"
      using read_condition [OF _ Some] Cons.prems by auto
    moreover obtain xs where "map_counted (normalizeCondition now) (List.map_filter buildConditionPayload cs) (Suc seed) =
        Some (xs, Suc seed + length xs)" "map bare_condition xs = map reread_condition (filter (\<lambda>c. trim (cond_path c) \<noteq> []) cs)"
      using Cons by fastforce
    ultimately show ?thesis using Some by (intro exI [of _ "x # xs"]) (simp add: map_filter_simps)
  qed
qed

lemma kept_empty: "List.map_filter buildConditionPayload (conditions op) = [] \<longleftrightarrow> kept_conditions op = []"
proof -
  have "buildConditionPayload c = None \<longleftrightarrow> trim (cond_path c) = []" for c by (simp add: buildConditionPayload_def)
  moreover have "List.map_filter f xs = [] \<longleftrightarrow> (\<forall>x\<in>set xs. f x = None)" for f :: "ParamOverrideCondition \<Rightarrow> jsval option" and xs
    by (induction xs) (auto simp: map_filter_simps split: option.splits)
  ultimately show ?thesis by (simp add: kept_conditions_def filter_empty_conv)
qed

lemma alias_fields: "mode_has m PathAlias \<Longrightarrow> mode_has m FromField \<and> mode_has m ToField \<and> \<not> mode_has m PathField"
  by (auto simp: mode_has_def MODE_META_def split: if_splits)

lemma built_fields:
  assumes "operation_ok op"
  defines "v \<equiv> build_operation op" and "r \<equiv> reread op"
  shows "get_prop (js ''mode'') v = JStr (mode op)"
    and "string_field ''description'' v = description r"
    and "string_field ''path'' v = path r"
    and "string_field ''from'' v = op_from r"
    and "string_field ''to'' v = op_to r"
    and "toValueText (get_prop (js ''value'') v) = value_text r"
    and "(get_prop (js ''keep_origin'') v = JBool True) = keep_origin r"
    and "logic_of (get_prop (js ''logic'') v) = Some (logic r)"
    and "get_prop (js ''conditions'') v =
      (if kept_conditions op = [] then JUndef else JArr (List.map_filter buildConditionPayload (conditions op)))"
proof -
  from assms(1) have m: "mode_or_set (mode op) = mode op" and l: "logic op \<in> {js ''AND'', js ''OR''}"
    by (auto simp: operation_ok_def OPERATION_MODE_VALUES_def mode_or_set_def)
  note d = v_def r_def build_operation_def reread_def Let_def m kept_empty string_field_def
  show "get_prop (js ''mode'') v = JStr (mode op)"
    unfolding d by (simp add: obj_get_def [of _ "_ # _"])
  show "string_field ''description'' v = description r"
    unfolding d by (simp add: obj_get_def [of _ "_ # _"])
  show "string_field ''path'' v = path r"
    unfolding d by (simp add: obj_get_def [of _ "_ # _"])
  show "toValueText (get_prop (js ''value'') v) = value_text r"
    unfolding d by (simp add: obj_get_def [of _ "_ # _"] reread_text_def toValueText_def [of JUndef])
  show "(get_prop (js ''keep_origin'') v = JBool True) = keep_origin r"
    unfolding d by (simp add: obj_get_def [of _ "_ # _"])
  show "logic_of (get_prop (js ''logic'') v) = Some (logic r)"
    unfolding d using l
    by (auto simp: obj_get_def [of _ "_ # _"] logic_of_def js_or_def ascii_upper_def js_def)
  show "get_prop (js ''conditions'') v =
      (if kept_conditions op = [] then JUndef else JArr (List.map_filter buildConditionPayload (conditions op)))"
    unfolding d by (simp add: obj_get_def [of _ "_ # _"])
  show "string_field ''from'' v = op_from r"
    unfolding d using alias_fields [of "mode op"] by (auto simp: obj_get_def [of _ "_ # _"] first_nonempty_def)
  show "string_field ''to'' v = op_to r"
    unfolding d by (auto simp: obj_get_def [of _ "_ # _"] first_nonempty_def)
qed

lemma read_operation:
  assumes "operation_ok op"
  shows "\<exists>x. normalizeOperation now (build_operation op) seed = Some (x, Suc seed + length (conditions x)) \<and> bare x = reread op"
proof -
  note f = built_fields [OF assms]
  from assms have m: "mode op \<in> set OPERATION_MODE_VALUES" "list_all condition_ok (conditions op)" by (simp_all add: operation_ok_def)
  have nn: "build_operation op \<noteq> JNull" by (simp add: build_operation_def Let_def)
  have km: "known_mode OPERATION_MODE_VALUES (js ''set'') (build_operation op) = mode (reread op)"
    using m(1) by (simp add: known_mode_def f(1) reread_def Let_def)
  obtain xs where xs: "(case get_prop (js ''conditions'') (build_operation op) of
        JArr cs \<Rightarrow> map_counted (normalizeCondition now) cs (Suc seed) | _ \<Rightarrow> Some ([], Suc seed)) = Some (xs, Suc seed + length xs)"
      "map bare_condition xs = map reread_condition (kept_conditions op)"
    using read_conditions [OF m(2), of now "Suc seed"] unfolding f(9) kept_conditions_def by (cases "kept_conditions op = []") (auto simp: kept_conditions_def)
  show ?thesis
    unfolding normalizeOperation_def f(8) option.case xs(1) prod.case f(2-7) km using nn xs(2)
    by (simp add: bare_def) (simp add: reread_def Let_def)
qed

text \<open>All operations that the text holds come back, in order.\<close>

definition read_back :: "ParamOverrideOperation list \<Rightarrow> ParamOverrideOperation list \<Rightarrow> bool" where
  "read_back ops xs \<longleftrightarrow> map bare xs = map reread (filter (\<lambda>op. \<not> isOperationBlank op) ops)"

lemma read_operations_all:
  assumes "list_all operation_ok ops"
  shows "\<exists>xs seed1. map_counted (normalizeOperation now) (map build_operation ops) seed = Some (xs, seed1) \<and>
    map bare xs = map reread ops"
  using assms
proof (induction ops arbitrary: seed)
  case (Cons op ops)
  obtain x where x: "normalizeOperation now (build_operation op) seed = Some (x, Suc seed + length (conditions x))"
      "bare x = reread op"
    using read_operation [of op] Cons.prems by fastforce
  obtain xs seed1 where "map_counted (normalizeOperation now) (map build_operation ops) (Suc seed + length (conditions x)) = Some (xs, seed1)"
      "map bare xs = map reread ops"
    using Cons by fastforce
  with x show ?case by simp
qed simp

lemma operations_value_ok: "list_all printable ops \<Longrightarrow> json_ok (operations_value ops)"
  by (auto simp: operations_value_def obj_wf_def list_all_iff operation_json_ok)

lemma trim_pretty: "json_pretty (operations_value ops) = trim (json_pretty (operations_value ops))"
proof -
  have "hd (json_pretty (operations_value ops)) = 123" "last (json_pretty (operations_value ops)) = 125"
    using pretty_list_last by (simp_all add: json_pretty_def operations_value_def)
  then have "trimmed (json_pretty (operations_value ops))" by (simp add: trimmed_def is_ws_def)
  then show ?thesis by (simp add: trim_id)
qed

lemma saved_value:
  assumes "list_all printable ops" "buildOperationsJson ops v = Inr t" "t \<noteq> []"
  shows "json_parse t = Some (operations_value (filter (\<lambda>op. \<not> isOperationBlank op) ops))" "trim t = t"
    "filter (\<lambda>op. \<not> isOperationBlank op) ops \<noteq> []"
    "t = json_pretty (operations_value (filter (\<lambda>op. \<not> isOperationBlank op) ops))"
proof -
  let ?ops = "filter (\<lambda>op. \<not> isOperationBlank op) ops"
  from assms(2,3) show t: "t = json_pretty (operations_value ?ops)" "?ops \<noteq> []"
    by (auto simp: buildOperationsJson_def Let_def split: if_splits option.splits)
  have "list_all printable ?ops" using assms(1) by (simp add: list_all_iff)
  then show "json_parse t = Some (operations_value ?ops)" unfolding t(1) by (intro pretty_roundtrip operations_value_ok)
  show "trim t = t" unfolding t(1) by (rule trim_pretty [symmetric])
qed

lemma saved_reopens:
  assumes "list_all operation_ok ops" "list_all printable ops" "buildOperationsJson ops v = Inr t" "t \<noteq> []"
  obtains st seed1 where "parseInitialState now t seed = Some (st, seed1)" "editMode st = Visual"
    "visualMode st = Operations" "read_back ops (operations st)"
proof -
  let ?ops = "filter (\<lambda>op. \<not> isOperationBlank op) ops"
  note s = saved_value [OF assms(2-4)]
  from assms(1) have "list_all operation_ok ?ops" by (simp add: list_all_iff)
  then obtain xs seed1 where xs: "map_counted (normalizeOperation now) (map build_operation ?ops) seed = Some (xs, seed1)"
      "map bare xs = map reread ?ops"
    using read_operations_all by blast
  from s(3) xs(1) have "read_operations now (map build_operation ?ops) seed = Some (xs, seed1)" by (simp add: read_operations_def)
  with s(1,2) assms(4) xs(2) show ?thesis
    by (intro that [of "\<lparr>editMode = Visual, visualMode = Operations, legacyValue = [], operations = xs,
          jsonText = json_pretty (operations_value ?ops), jsonError = False\<rparr>" seed1])
      (simp_all add: parseInitialState_def Let_def operations_value_def obj_get_def read_back_def)
qed

text \<open>
  C25. An override that was saved opens again with its operations: none is missing, none is added, and
  each has its texts trimmed, its values read and printed, and the fields its mode does not use empty.
\<close>

theorem saved_override_reopens:
  assumes "list_all operation_ok ops" "list_all printable ops" "buildOperationsJson ops v = Inr t" "t \<noteq> []"
  shows "\<exists>st seed1. parseInitialState now t seed = Some (st, seed1) \<and> editMode st = Visual \<and> visualMode st = Operations \<and>
    read_back ops (operations st)"
  using saved_reopens [OF assms] by metis

section \<open>Saving again\<close>

text \<open>
  An operation survives when its values do: no value is a text that a JSON parser or \<open>trim\<close> would
  change, and a value that must not be empty is not.
\<close>

definition survives :: "ParamOverrideOperation \<Rightarrow> bool" where
  "survives op \<longleftrightarrow>
     (mode_has (mode op) ValueField \<longrightarrow> plain_text (parseLooseValue (value_text op))) \<and>
     (mode op \<in> set VALUE_REQUIRED_MODES \<longrightarrow> parseLooseValue (value_text op) \<noteq> JStr []) \<and>
     list_all (\<lambda>c. plain_text (parseLooseValue (cond_value_text c))) (kept_conditions op)"

lemma mode_fields:
  "m \<in> set FROM_REQUIRED_MODES \<Longrightarrow> mode_has m FromField"
  "m \<in> set TO_REQUIRED_MODES \<Longrightarrow> mode_has m ToField"
  "m \<in> set VALUE_REQUIRED_MODES \<Longrightarrow> mode_has m ValueField"
  "mode_has (js ''set'') PathField" "mode_has (js ''pass_headers'') ValueField" "mode_has (js ''return_error'') ValueField"
  by (auto simp: FROM_REQUIRED_MODES_def TO_REQUIRED_MODES_def VALUE_REQUIRED_MODES_def mode_has_def MODE_META_def)

lemma reread_value: "json_ok (parseLooseValue t) \<Longrightarrow> plain_text (parseLooseValue t) \<Longrightarrow> parseLooseValue (reread_text t) = parseLooseValue t"
  by (simp add: reread_text_def value_stable)

lemma trim_reread: "json_ok (parseLooseValue t) \<Longrightarrow> plain_text (parseLooseValue t) \<Longrightarrow> trim (reread_text t) = reread_text t"
proof -
  assume "json_ok (parseLooseValue t)" "plain_text (parseLooseValue t)"
  then have "trimmed (toValueText (parseLooseValue t))"
    using trimmed_ser [of "parseLooseValue t"]
    by (auto simp: toValueText_def plain_text_def simp del: ser.simps split: jsval.splits)
  then show ?thesis by (simp add: reread_text_def trim_id)
qed

lemma reread_nonempty:
  "json_ok (parseLooseValue t) \<Longrightarrow> reread_text t = [] \<longleftrightarrow> parseLooseValue t = JStr []"
  using json_ok_ser_hd [of "parseLooseValue t"]
  by (cases "parseLooseValue t") (auto simp: reread_text_def toValueText_def simp del: ser.simps)

lemma build_bare: "build_operation (bare op) = build_operation op"
proof -
  have "buildConditionPayload (bare_condition c) = buildConditionPayload c" for c
    by (simp add: buildConditionPayload_def bare_condition_def)
  then have "List.map_filter buildConditionPayload (map bare_condition cs) = List.map_filter buildConditionPayload cs" for cs
    by (induction cs) (simp_all add: map_filter_simps split: option.split)
  then show ?thesis by (simp add: build_operation_def bare_def Let_def)
qed

lemma blank_bare: "isOperationBlank (bare op) = isOperationBlank op"
  by (simp add: isOperationBlank_def bare_def list_ex_iff condition_touched_def bare_condition_def)

lemma validate_bare: "validate_operation n (bare op) = validate_operation n op"
  by (simp add: validate_operation_def bare_def Let_def)

lemma build_reread_conditions:
  assumes "list_all (\<lambda>c. json_ok (parseLooseValue (cond_value_text c))) cs"
    "list_all (\<lambda>c. plain_text (parseLooseValue (cond_value_text c))) (filter (\<lambda>c. trim (cond_path c) \<noteq> []) cs)"
  shows "List.map_filter buildConditionPayload (map reread_condition (filter (\<lambda>c. trim (cond_path c) \<noteq> []) cs)) =
    List.map_filter buildConditionPayload cs"
  using assms
proof (induction cs)
  case (Cons c cs)
  moreover have "buildConditionPayload (reread_condition c) = buildConditionPayload c" if "trim (cond_path c) \<noteq> []"
    using Cons.prems that by (simp add: buildConditionPayload_def reread_condition_def reread_value)
  moreover have "buildConditionPayload c = None" if "trim (cond_path c) = []"
    using that by (simp add: buildConditionPayload_def)
  ultimately show ?case
    by (cases "trim (cond_path c) = []"; cases "buildConditionPayload c") (simp_all add: map_filter_simps)
qed (simp add: map_filter_simps)

lemma update_update: "AList.update k v (AList.update k u ps) = AList.update k v ps"
  by (induction ps) auto

lemma update_swap: "k \<noteq> k' \<Longrightarrow> k \<in> fst ` set ps \<Longrightarrow> AList.update k v (AList.update k' w ps) = AList.update k' w (AList.update k v ps)"
  by (induction ps) (auto simp: AList.update_conv')

lemma update_insert: "k \<noteq> k' \<Longrightarrow> k \<in> fst ` set ps \<Longrightarrow> AList.update k v (obj_insert k' w ps) = obj_insert k' w (AList.update k v ps)"
  by (induction ps) auto

lemma update_inserted: "k \<notin> fst ` set ps \<Longrightarrow> AList.update k v (obj_insert k u ps) = obj_insert k v ps"
  by (induction ps) auto

lemma obj_set_again: "obj_set k v (obj_set k u ps) = obj_set k v ps"
  unfolding obj_set_def [of k v "obj_set k u ps"] keys_obj_set
  by (simp add: obj_set_def update_update update_inserted)

lemma obj_set_swap: "k \<noteq> k' \<Longrightarrow> obj_has k ps \<Longrightarrow> obj_set k v (obj_set k' w ps) = obj_set k' w (obj_set k v ps)"
  unfolding obj_set_def [of k v "obj_set k' w ps"] keys_obj_set
  by (simp add: obj_has_def obj_set_def update_swap update_insert fst_set_AList_update dom_update)

text \<open>The two fields that a path can stand in for, as they end up in the payload.\<close>

definition alias_or :: "ParamOverrideOperation \<Rightarrow> jstr \<Rightarrow> jstr" where
  "alias_or op t = first_nonempty (trim t) (if mode_has (mode op) PathAlias then trim (path op) else [])"

definition plain_fields :: "ParamOverrideOperation \<Rightarrow> (jstr \<times> jsval) list" where
  "plain_fields op =
     set_if (mode_has (mode op) KeepOrigin \<and> keep_origin op) ''keep_origin'' (JBool True)
       (set_if (mode_has (mode op) ValueField) ''value'' (parseLooseValue (value_text op))
         (set_if (mode_has (mode op) PathField \<or> mode_has (mode op) PathOptional \<and> trim (path op) \<noteq> []) ''path'' (JStr (trim (path op)))
           (set_if (trim (description op) \<noteq> []) ''description'' (JStr (trim (description op)))
             [(js ''mode'', JStr (mode op))])))"

definition moved_fields :: "ParamOverrideOperation \<Rightarrow> (jstr \<times> jsval) list" where
  "moved_fields op =
     set_if (mode_has (mode op) ToField \<or> alias_or op (op_to op) \<noteq> []) ''to'' (JStr (alias_or op (op_to op)))
       (set_if (mode_has (mode op) FromField) ''from'' (JStr (alias_or op (op_from op))) (plain_fields op))"

lemma build_alt:
  assumes "mode op \<in> set OPERATION_MODE_VALUES"
  shows "build_operation op =
    (let cs = List.map_filter buildConditionPayload (conditions op) in
     JObj (if cs = [] then moved_fields op
       else obj_set (js ''logic'') (JStr (if logic op = js ''AND'' then js ''AND'' else js ''OR''))
         (obj_set (js ''conditions'') (JArr cs) (moved_fields op))))"
proof -
  have m: "mode_or_set (mode op) = mode op" using assms by (auto simp: mode_or_set_def OPERATION_MODE_VALUES_def)
  show ?thesis
  proof (cases "mode_has (mode op) PathAlias")
    case False
    then show ?thesis
      by (simp add: build_operation_def m Let_def moved_fields_def plain_fields_def alias_or_def first_nonempty_def)
  next
    case True
    then have f: "mode_has (mode op) FromField" "mode_has (mode op) ToField" using alias_fields by blast+
    let ?pv = "trim (path op)"
    let ?p6 = "obj_set (js ''to'') (JStr (trim (op_to op))) (obj_set (js ''from'') (JStr (trim (op_from op))) (plain_fields op))"
    let ?p7 = "set_if (\<not> truthy (obj_get (js ''from'') ?p6) \<and> ?pv \<noteq> []) ''from'' (JStr ?pv) ?p6"
    have "set_if (\<not> truthy (obj_get (js ''to'') ?p7) \<and> ?pv \<noteq> []) ''to'' (JStr ?pv) ?p7 = moved_fields op"
      by (cases "?pv = []"; cases "trim (op_from op) = []"; cases "trim (op_to op) = []")
        (simp_all add: True f moved_fields_def alias_or_def first_nonempty_def obj_set_again obj_set_swap)
    then show ?thesis
      unfolding build_operation_def m Let_def plain_fields_def [symmetric] by (simp only: True f simp_thms set_if_simps)
  qed
qed

lemma build_reread:
  assumes "operation_ok op" "printable op" "survives op"
  shows "build_operation (reread op) = build_operation op"
proof -
  let ?r = "reread op"
  have m: "mode ?r = mode op" "mode op \<in> set OPERATION_MODE_VALUES"
    using assms(1) by (simp_all add: reread_def Let_def operation_ok_def)
  have cs: "List.map_filter buildConditionPayload (conditions ?r) = List.map_filter buildConditionPayload (conditions op)"
    using build_reread_conditions [of "conditions op"] assms(2,3)
    by (simp add: reread_def Let_def kept_conditions_def printable_def survives_def)
  have v: "parseLooseValue (value_text ?r) = parseLooseValue (value_text op)" if "mode_has (mode op) ValueField"
    using that assms by (simp add: reread_def Let_def printable_def survives_def reread_value)
  have plain: "plain_fields ?r = plain_fields op"
  proof -
    have "trim (description ?r) = trim (description op)" by (simp add: reread_def Let_def)
    moreover have "mode_has (mode op) KeepOrigin \<and> keep_origin ?r \<longleftrightarrow> mode_has (mode op) KeepOrigin \<and> keep_origin op"
      by (auto simp: reread_def Let_def)
    moreover have "mode_has (mode op) PathField \<or> mode_has (mode op) PathOptional \<Longrightarrow> trim (path ?r) = trim (path op)"
      by (simp add: reread_def Let_def)
    ultimately show ?thesis
      using v unfolding plain_fields_def m(1)
      by (cases "mode_has (mode op) ValueField"; cases "mode_has (mode op) PathField"; cases "mode_has (mode op) PathOptional") simp_all
  qed
  have al: "alias_or ?r (op_to ?r) = alias_or op (op_to op)"
    "mode_has (mode op) FromField \<Longrightarrow> alias_or ?r (op_from ?r) = alias_or op (op_from op)"
    by (auto simp: alias_or_def m(1) first_nonempty_def reread_def Let_def)
  have l: "logic ?r = logic op" if "List.map_filter buildConditionPayload (conditions op) \<noteq> []"
    using that by (simp add: kept_empty reread_def Let_def)
  have "moved_fields ?r = moved_fields op" using al by (simp add: moved_fields_def m(1) plain set_if_def)
  with l m show ?thesis by (simp add: build_alt cs Let_def)
qed

lemma validate_value:
  assumes "parseLooseValue a = parseLooseValue b" "trim a = [] \<longleftrightarrow> trim b = []"
  shows "return_error_lacks_message (trim a) = return_error_lacks_message (trim b)"
    "parseLooseValue (trim a) = parseLooseValue (trim b)"
proof -
  have "(case json_parse (trim t) of Some (JObj ps) \<Rightarrow> P ps | _ \<Rightarrow> False) = (case parseLooseValue t of JObj ps \<Rightarrow> P ps | _ \<Rightarrow> False)" for t P
    by (auto simp: parseLooseValue_def Let_def split: option.splits jsval.splits)
  then show "return_error_lacks_message (trim a) = return_error_lacks_message (trim b)"
    using assms(1) by (simp add: return_error_lacks_message_def)
  show "parseLooseValue (trim a) = parseLooseValue (trim b)"
    using assms(1) by (simp add: parseLooseValue_def)
qed

lemma validate_None:
  "validate_operation n op = None \<longleftrightarrow>
   (let m = mode_or_set (mode op); alias = mode_has m PathAlias \<and> trim (path op) \<noteq> [] in
    (mode_has m PathField \<longrightarrow> trim (path op) \<noteq> []) \<and>
    (m \<in> set FROM_REQUIRED_MODES \<longrightarrow> trim (op_from op) \<noteq> [] \<or> alias) \<and>
    (m \<in> set TO_REQUIRED_MODES \<longrightarrow> trim (op_to op) \<noteq> [] \<or> alias) \<and>
    (m \<in> set VALUE_REQUIRED_MODES \<longrightarrow> trim (value_text op) \<noteq> []) \<and>
    (m = js ''return_error'' \<longrightarrow> \<not> return_error_lacks_message (trim (value_text op))) \<and>
    (m = js ''pass_headers'' \<longrightarrow> (\<exists>h hs. parsePassHeaderNames (parseLooseValue (trim (value_text op))) = Some (h # hs))))"
proof -
  have c: "(case x of None \<Rightarrow> Some ConversionError | Some [] \<Rightarrow> Some (HeadersInvalid n) | Some _ \<Rightarrow> None) = None \<longleftrightarrow>
      (\<exists>h hs. x = Some (h # hs))" for x :: "jstr list option"
    by (simp split: option.split list.split)
  show ?thesis unfolding validate_operation_def Let_def by (simp add: c)
qed

lemma reread_valid:
  assumes "operation_ok op" "printable op" "survives op" "validate_operation n op = None"
  shows "validate_operation n (reread op) = None"
proof -
  let ?r = "reread op"
  have m: "mode ?r = mode op" "mode_or_set (mode op) = mode op"
    using assms(1) by (auto simp: reread_def Let_def operation_ok_def mode_or_set_def OPERATION_MODE_VALUES_def)
  have p: "trim (path ?r) = (if mode_has (mode op) PathField \<or> mode_has (mode op) PathOptional then trim (path op) else [])"
    and fr: "mode_has (mode op) FromField \<Longrightarrow> trim (op_from ?r) = alias_or op (op_from op)"
    and tt: "trim (op_to ?r) = alias_or op (op_to op)"
    by (simp_all add: reread_def Let_def alias_or_def first_nonempty_def)
  have ok: "json_ok (parseLooseValue (value_text op))" using assms(2) by (simp add: printable_def)
  have v: "parseLooseValue (value_text ?r) = parseLooseValue (value_text op)"
    "trim (value_text ?r) = [] \<longleftrightarrow> parseLooseValue (value_text op) = JStr []"
    if "mode_has (mode op) ValueField"
    using that assms ok by (simp_all add: reread_def Let_def survives_def reread_value trim_reread reread_nonempty)
  have re: "mode op = js ''return_error'' \<or> mode op = js ''pass_headers'' \<Longrightarrow> mode op \<in> set VALUE_REQUIRED_MODES"
    by (auto simp: VALUE_REQUIRED_MODES_def)
  have al: "mode_has (mode op) PathAlias \<and> trim (path op) \<noteq> [] \<Longrightarrow> alias_or op t \<noteq> []"
    "trim t \<noteq> [] \<Longrightarrow> alias_or op t \<noteq> []" for t
    by (auto simp: alias_or_def first_nonempty_def)
  have "trim (value_text ?r) \<noteq> [] \<and> trim (value_text op) \<noteq> []" if "mode op \<in> set VALUE_REQUIRED_MODES"
    using that v(2) mode_fields(3) assms(3,4) by (auto simp: survives_def validate_None Let_def m)
  then have same: "return_error_lacks_message (trim (value_text ?r)) = return_error_lacks_message (trim (value_text op))"
      "parseLooseValue (trim (value_text ?r)) = parseLooseValue (trim (value_text op))" "trim (value_text ?r) \<noteq> []"
    if "mode op \<in> set VALUE_REQUIRED_MODES"
    using that v mode_fields(3) validate_value [of "value_text ?r" "value_text op"] by blast+
  from assms(4) show ?thesis
    unfolding validate_None Let_def m
    using same re p fr tt al mode_fields(1,2) by simp metis
qed

lemma valid_from: "validate_from i ops = None \<longleftrightarrow> (\<forall>k<length ops. validate_operation (i + Suc k) (ops ! k) = None)"
proof (induction ops arbitrary: i)
  case (Cons op ops)
  show ?case by (auto simp: Cons less_Suc_eq_0_disj split: option.split)
qed simp

lemma reread_not_blank:
  assumes "operation_ok op" "printable op" "survives op" "validate_operation n op = None"
  shows "\<not> isOperationBlank (reread op)"
proof (cases "mode op = js ''set''")
  case True
  from reread_valid [OF assms] True have "trim (path (reread op)) \<noteq> []"
    using mode_fields(4) by (simp add: validate_None Let_def mode_or_set_def) (simp add: reread_def Let_def)
  then show ?thesis by (simp add: isOperationBlank_def)
qed (simp add: isOperationBlank_def reread_def Let_def)

text \<open>
  C11. Saving is stable: an accepted override that is opened again and saved without a change gives the
  same text, as long as its values survive.
\<close>

theorem saved_override_stable:
  assumes "list_all operation_ok ops" "list_all printable ops" "list_all survives ops"
    and "buildOperationsJson ops True = Inr t" "t \<noteq> []" "parseInitialState now t seed = Some (st, seed1)"
  shows "buildOperationsJson (operations st) True = Inr t"
proof -
  let ?ops = "filter (\<lambda>op. \<not> isOperationBlank op) ops"
  note s = saved_value [OF assms(2,4,5)]
  have rb: "map bare (operations st) = map reread ?ops"
    using saved_reopens [OF assms(1,2,4,5), of now seed] assms(6) by (auto simp: read_back_def)
  have valid: "validateOperations ?ops = None"
    using assms(4) s(3) by (auto simp: buildOperationsJson_def Let_def split: if_splits option.splits)
  have k: "length (operations st) = length ?ops" using arg_cong [OF rb, of length] by simp
  have nth: "bare (operations st ! i) = reread (?ops ! i)" if "i < length ?ops" for i
    using rb that k by (metis nth_map)
  have ok: "operation_ok (?ops ! i) \<and> printable (?ops ! i) \<and> survives (?ops ! i)" if "i < length ?ops" for i
    using nth_mem [OF that] assms(1-3) by (auto simp: list_all_iff)
  have v1: "validate_operation (Suc i) (?ops ! i) = None" if "i < length ?ops" for i
    using valid that by (simp add: validateOperations_def valid_from)
  have nb: "\<not> isOperationBlank (operations st ! i)" if "i < length ?ops" for i
    using reread_not_blank v1 ok nth that blank_bare by metis
  then have f: "filter (\<lambda>op. \<not> isOperationBlank op) (operations st) = operations st"
    by (intro filter_True ballI) (metis in_set_conv_nth k)
  have "validate_operation (Suc i) (operations st ! i) = None" if "i < length ?ops" for i
    using reread_valid v1 ok nth that validate_bare by metis
  then have v2: "validateOperations (operations st) = None"
    using k by (simp add: validateOperations_def valid_from)
  have "build_operation (operations st ! i) = build_operation (?ops ! i)" if "i < length ?ops" for i
    using build_reread ok nth that build_bare by metis
  then have "map build_operation (operations st) = map build_operation ?ops"
    by (intro nth_equalityI) (simp_all add: k)
  then have "json_pretty (operations_value (operations st)) = t" unfolding s(4) operations_value_def by (rule arg_cong)
  moreover have "operations st \<noteq> []" using k s(3) by (metis length_0_conv)
  ultimately show ?thesis unfolding buildOperationsJson_def Let_def f using v2 by simp
qed

section \<open>What does not survive\<close>

definition one_value :: "jstr \<Rightarrow> ParamOverrideOperation" where
  "one_value t = \<lparr>op_id = js ''po_0_0'', description = [], path = js ''user'', mode = js ''set'', op_from = [], op_to = [],
     value_text = t, keep_origin = False, logic = js ''OR'', conditions = []\<rparr>"

definition set_user :: "jsval \<Rightarrow> jsval" where
  "set_user v = JObj [(js ''operations'', JArr [JObj
     [(js ''mode'', JStr (js ''set'')), (js ''path'', JStr (js ''user'')), (js ''value'', v)]])]"

lemma one_value_ok [simp]: "operation_ok (one_value t)"
  by (simp add: operation_ok_def one_value_def OPERATION_MODE_VALUES_def)

lemma one_value_builds: "operations_value [one_value t] = set_user (parseLooseValue t)"
proof -
  have f: "mode_has (js ''set'') PathField" "mode_has (js ''set'') ValueField" "\<not> mode_has (js ''set'') FromField"
      "\<not> mode_has (js ''set'') ToField" "\<not> mode_has (js ''set'') PathAlias"
    by (simp_all add: mode_has_def MODE_META_def)
  have "\<not> is_index_key (js ''path'')" "\<not> is_index_key (js ''value'')"
    by (simp_all add: is_index_key_def js_def is_digit_def)
  moreover have "trim (js ''user'') = js ''user''" by (intro trim_id) (simp add: trimmed_def js_def is_ws_def)
  ultimately show ?thesis
    by (simp add: operations_value_def set_user_def build_operation_def Let_def one_value_def f mode_or_set_def
        map_filter_simps obj_set_append obj_has_def)
qed

lemma one_value_valid: "validateOperations [one_value t] = None" "\<not> isOperationBlank (one_value t)"
proof -
  have u: "trim (js ''user'') = js ''user''" by (intro trim_id) (simp add: trimmed_def js_def is_ws_def)
  have "validate_operation (Suc 0) (one_value t) = None"
    unfolding validate_None Let_def
    by (simp add: one_value_def mode_or_set_def u FROM_REQUIRED_MODES_def TO_REQUIRED_MODES_def VALUE_REQUIRED_MODES_def)
  then show "validateOperations [one_value t] = None" by (simp add: validateOperations_def)
  show "\<not> isOperationBlank (one_value t)" by (simp add: isOperationBlank_def one_value_def u)
qed

lemma one_value_saved: "buildOperationsJson [one_value t] True = Inr (json_pretty (set_user (parseLooseValue t)))"
  using one_value_valid [of t] by (simp add: buildOperationsJson_def one_value_builds)

lemma set_user_ok: "json_ok v \<Longrightarrow> json_ok (set_user v)"
  by (simp add: set_user_def obj_wf_def key_before_def is_index_key_def) (simp add: js_def is_digit_def)

lemma bare_one_value: "reread (one_value t) = bare (one_value (reread_text t))"
  by (simp add: reread_def one_value_def Let_def bare_def kept_conditions_def first_nonempty_def mode_has_def MODE_META_def
      trim_id trimmed_def js_def is_ws_def)

lemma save_bare: "map bare ops = map bare ops' \<Longrightarrow> buildOperationsJson ops v = buildOperationsJson ops' v"
proof -
  have bl: "isOperationBlank op = isOperationBlank op'" "build_operation op = build_operation op'"
      "validate_operation n op = validate_operation n op'" if "bare op = bare op'" for op op' n
    using that by (metis blank_bare build_bare validate_bare)+
  assume "map bare ops = map bare ops'"
  then have r: "list_all2 (\<lambda>x y. bare x = bare y) ops ops'" by (simp add: list.rel_eq [symmetric] list.rel_map)
  have f: "list_all2 (\<lambda>x y. bare x = bare y) (filter (\<lambda>op. \<not> isOperationBlank op) ops) (filter (\<lambda>op. \<not> isOperationBlank op) ops')"
    using r by (induction rule: list_all2_induct) (auto dest: bl(1))
  have "map build_operation xs = map build_operation ys" "xs = [] \<longleftrightarrow> ys = []"
    if "list_all2 (\<lambda>x y. bare x = bare y) xs ys" for xs ys
    using that by (induction rule: list_all2_induct) (auto dest: bl(2))
  moreover have "validate_from n xs = validate_from n ys" if "list_all2 (\<lambda>x y. bare x = bare y) xs ys" for n xs ys
    using that
  proof (induction arbitrary: n rule: list_all2_induct)
    case (Cons x xs y ys)
    from Cons(3) [of "Suc n"] bl(3) [OF Cons(1), of "Suc n"] show ?case
      by (cases "validate_operation (Suc n) y") simp_all
  qed simp
  ultimately show ?thesis
    using f unfolding buildOperationsJson_def Let_def validateOperations_def operations_value_def by metis
qed

text \<open>
  A text that looks like JSON does not stay a text. When the administrator enters a value in
  quotation marks so that it is kept as a text, it is saved as one; the editor then shows it without the
  marks, and saving again without a change stores what the text means as JSON, a number for example.
\<close>

theorem quoted_value_changes:
  assumes "trimmed s" "json_parse s = Some v" "json_ok v"
  shows "\<exists>t st seed1 t2. buildOperationsJson [one_value (ser (JStr s))] True = Inr t \<and> json_parse t = Some (set_user (JStr s)) \<and>
    parseInitialState now t seed = Some (st, seed1) \<and>
    buildOperationsJson (operations st) True = Inr t2 \<and> json_parse t2 = Some (set_user v)"
proof -
  let ?op = "one_value (ser (JStr s))"
  have sne: "s \<noteq> []" using assms(2) by auto
  have pl: "parseLooseValue (ser (JStr s)) = JStr s"
    using trimmed_ser [of "JStr s"] json_roundtrip [of "JStr s"] json_ok_ser_hd [of "JStr s"]
    by (simp add: parseLooseValue_def Let_def trim_id del: ser.simps)
  have t: "buildOperationsJson [?op] True = Inr (json_pretty (set_user (JStr s)))" by (simp add: one_value_saved pl del: ser.simps)
  have p: "json_parse (json_pretty (set_user (JStr s))) = Some (set_user (JStr s))"
    by (intro pretty_roundtrip set_user_ok) simp
  have ne: "json_pretty (set_user (JStr s)) \<noteq> []" using p by auto
  have pr: "list_all printable [?op]" by (simp add: printable_def one_value_def pl del: ser.simps)
  obtain st seed1 where st: "parseInitialState now (json_pretty (set_user (JStr s))) seed = Some (st, seed1)"
      "read_back [?op] (operations st)"
    by (rule saved_reopens [OF _ pr t ne, of now seed]) (simp_all del: ser.simps)
  then have "map bare (operations st) = map bare [one_value s]"
    using one_value_valid(2) by (simp add: read_back_def bare_one_value reread_text_def pl toValueText_def del: ser.simps)
  then have "buildOperationsJson (operations st) True = buildOperationsJson [one_value s] True" by (rule save_bare)
  also have "\<dots> = Inr (json_pretty (set_user v))"
    using assms(1,2) sne by (simp add: one_value_saved parseLooseValue_def Let_def trim_id)
  finally have "buildOperationsJson (operations st) True = Inr (json_pretty (set_user v))" .
  moreover have "json_parse (json_pretty (set_user v)) = Some (set_user v)" using assms(3) by (intro pretty_roundtrip set_user_ok)
  ultimately show ?thesis using t p st(1) by blast
qed

section \<open>Witnesses\<close>

definition sample_op :: ParamOverrideOperation where
  "sample_op = one_value (js ''true'')"

lemma sample_saved: "parseLooseValue (js ''true'') = JBool True" "list_all printable [sample_op]" "list_all survives [sample_op]"
  "buildOperationsJson [sample_op] True = Inr (json_pretty (set_user (JBool True)))"
proof -
  have "json_parse (js ''true'') = Some (JBool True)" using json_roundtrip [of "JBool True"] by simp
  moreover have "trim (js ''true'') = js ''true''" by (intro trim_id) (simp add: trimmed_def js_def is_ws_def)
  ultimately show v: "parseLooseValue (js ''true'') = JBool True" by (simp add: parseLooseValue_def)
  show "list_all printable [sample_op]" "list_all survives [sample_op]"
    by (simp_all add: sample_op_def one_value_def printable_def survives_def v kept_conditions_def plain_text_def VALUE_REQUIRED_MODES_def)
  show "buildOperationsJson [sample_op] True = Inr (json_pretty (set_user (JBool True)))"
    by (simp add: sample_op_def one_value_saved v)
qed

lemma sample_text: "json_pretty (set_user (JBool True)) \<noteq> []"
  using pretty_nonblank [OF set_user_ok, of "JBool True"] by auto

lemma saved_override_reopens_witness:
  "\<exists>st seed1. parseInitialState (\<lambda>_. 0) (json_pretty (set_user (JBool True))) 0 = Some (st, seed1) \<and> editMode st = Visual \<and>
    visualMode st = Operations \<and> read_back [sample_op] (operations st)"
  by (rule saved_override_reopens [OF _ sample_saved(2,4) sample_text]) (simp add: sample_op_def)

lemma saved_override_stable_witness:
  "\<exists>st seed1. parseInitialState (\<lambda>_. 0) (json_pretty (set_user (JBool True))) 0 = Some (st, seed1) \<and>
    buildOperationsJson (operations st) True = Inr (json_pretty (set_user (JBool True)))"
proof -
  have ok: "list_all operation_ok [sample_op]" by (simp add: sample_op_def)
  obtain st seed1 where st: "parseInitialState (\<lambda>_. 0) (json_pretty (set_user (JBool True))) 0 = Some (st, seed1)"
    using saved_reopens [OF ok sample_saved(2,4) sample_text] by blast
  from saved_override_stable [OF ok sample_saved(2,3,4) sample_text st] st show ?thesis by blast
qed

lemma quoted_value_changes_witness:
  "\<exists>t st seed1 t2. buildOperationsJson [one_value (ser (JStr (js ''4'')))] True = Inr t \<and>
    json_parse t = Some (set_user (JStr (js ''4''))) \<and> parseInitialState (\<lambda>_. 0) t 0 = Some (st, seed1) \<and>
    buildOperationsJson (operations st) True = Inr t2 \<and> json_parse t2 = Some (set_user (JNum (Fin 4)))"
proof (rule quoted_value_changes)
  have n: "num_to_string (Fin (of_nat 4)) = js ''4''" using num_to_string_nat [of 4] by (simp add: dec.simps js_def)
  have ok: "json_ok (JNum (Fin (of_nat 4)))" by (rule json_ok_nat) simp
  from json_roundtrip [OF ok] n show "json_parse (js ''4'') = Some (JNum (Fin 4))" by (simp del: num_to_string.simps)
  from ok show "json_ok (JNum (Fin 4))" by simp
  show "trimmed (js ''4'')" by (simp add: trimmed_def js_def is_ws_def)
qed

end
