(* ===== verification/ParamOverrideDrafts.thy ===== *)
theory ParamOverrideDrafts
  imports ParamOverrideText
begin

text \<open>
  The editors inside the editor of parameter overrides, for the values of \<open>return_error\<close> and
  \<open>prune_objects\<close> and the two ends of \<open>sync_fields\<close>, from \<open>param-override-editor-dialog.tsx\<close>.

  None of them has a state: each change reads the draft from the value text of the operation, changes
  it, and prints it again. The theorems show what such a round trip keeps, and two edits it undoes.
\<close>

section \<open>return_error\<close>

record ReturnErrorDraft =
  err_message :: jstr
  err_statusCode :: jsnum
  err_code :: jstr
  err_type :: jstr
  skipRetry :: bool
  err_simpleMode :: bool

definition error_defaults :: ReturnErrorDraft where
  "error_defaults = \<lparr>err_message = [], err_statusCode = Fin 400, err_code = [], err_type = [],
     skipRetry = True, err_simpleMode = True\<rparr>"

text \<open>\<open>Number.isInteger(x) && x >= 100 && x <= 599 ? x : 400\<close>.\<close>

definition status_or_400 :: "jsnum \<Rightarrow> jsnum" where
  "status_or_400 x =
     (if num_is_integer x \<and> num_le (Fin 100) x \<and> num_le x (Fin 599) then x else Fin 400)"

definition error_of_object :: "(jstr \<times> jsval) list \<Rightarrow> ReturnErrorDraft option" where
  "error_of_object ps =
     (let get = (\<lambda>k. obj_get (js k) ps);
          statusRaw = (if get ''status_code'' \<noteq> JUndef then get ''status_code'' else get ''status'') in
      case (as_number statusRaw, as_string (js_or (js_or (get ''message'') (get ''msg'')) (JStr [])),
            as_string (js_or (get ''code'') (JStr [])), as_string (js_or (get ''type'') (JStr []))) of
        (Some statusValue, Some m, Some c, Some ty) \<Rightarrow>
          Some \<lparr>err_message = trim m, err_statusCode = status_or_400 statusValue, err_code = trim c, err_type = trim ty,
            skipRetry = (get ''skip_retry'' \<noteq> JBool False), err_simpleMode = False\<rparr>
      | _ \<Rightarrow> None)"

definition parseReturnErrorDraft :: "jstr \<Rightarrow> ReturnErrorDraft" where
  "parseReturnErrorDraft valueText =
     (let raw = trim valueText; plain = error_defaults\<lparr>err_message := raw\<rparr> in
      if raw = [] then error_defaults
      else case json_parse raw of
        Some (JObj ps) \<Rightarrow> (case error_of_object ps of Some d \<Rightarrow> d | None \<Rightarrow> plain)
      | _ \<Rightarrow> plain)"

definition error_payload :: "ReturnErrorDraft \<Rightarrow> jsval" where
  "error_payload draft =
     JObj (set_if (\<not> skipRetry draft) ''skip_retry'' (JBool False)
       (set_if (trim (err_type draft) \<noteq> []) ''type'' (JStr (trim (err_type draft)))
         (set_if (trim (err_code draft) \<noteq> []) ''code'' (JStr (trim (err_code draft)))
           [(js ''message'', JStr (trim (err_message draft))),
            (js ''status_code'', JNum (status_or_400 (err_statusCode draft)))])))"

definition buildReturnErrorValueText :: "ReturnErrorDraft \<Rightarrow> jstr" where
  "buildReturnErrorValueText draft =
     (if err_simpleMode draft then trim (err_message draft) else ser (error_payload draft))"

text \<open>One change of the draft in the value text; the patch is the spread of some of its fields.\<close>

definition edit_error :: "(ReturnErrorDraft \<Rightarrow> ReturnErrorDraft) \<Rightarrow> jstr \<Rightarrow> jstr" where
  "edit_error patch t = buildReturnErrorValueText (patch (parseReturnErrorDraft t))"

section \<open>prune_objects\<close>

type_synonym PruneRule = ParamOverrideCondition

record PruneObjectsDraft =
  simpleMode :: bool
  typeText :: jstr
  prune_logic :: jstr
  recursive :: bool
  rules :: "PruneRule list"

definition prune_defaults :: PruneObjectsDraft where
  "prune_defaults = \<lparr>simpleMode = True, typeText = [], prune_logic = js ''AND'', recursive = True, rules = []\<rparr>"

definition normalizePruneRule :: "(nat \<Rightarrow> nat) \<Rightarrow> jsval \<Rightarrow> nat \<Rightarrow> PruneRule \<times> nat" where
  "normalizePruneRule now rule seed =
     (\<lparr>cond_id = nextLocalId now seed,
       cond_path = string_field ''path'' rule,
       cond_mode = known_mode CONDITION_MODE_VALUES (js ''full'') rule,
       cond_value_text = toValueText (get_prop (js ''value'') rule),
       invert = (get_prop (js ''invert'') rule = JBool True),
       pass_missing_key = (get_prop (js ''pass_missing_key'') rule = JBool True)\<rparr>, Suc seed)"

fun prune_rules :: "(nat \<Rightarrow> nat) \<Rightarrow> jsval list \<Rightarrow> nat \<Rightarrow> PruneRule list \<times> nat" where
  "prune_rules now [] seed = ([], seed)"
| "prune_rules now (v # vs) seed =
     (let (r, seed1) = normalizePruneRule now v seed; (rs, seed2) = prune_rules now vs seed1 in (r # rs, seed2))"

text \<open>An object stands for one exact match per key.\<close>

definition full_matches :: "(jstr \<times> jsval) list \<Rightarrow> jsval list" where
  "full_matches ps = map (\<lambda>(k, v). JObj [(js ''path'', JStr k), (js ''mode'', JStr (js ''full'')), (js ''value'', v)]) ps"

definition rule_values :: "(jstr \<times> jsval) list \<Rightarrow> jsval list" where
  "rule_values ps =
     (case obj_get (js ''where'') ps of JObj ws \<Rightarrow> full_matches ws | _ \<Rightarrow> []) @
     (case obj_get (js ''conditions'') ps of
        JArr vs \<Rightarrow> filter (\<lambda>v. truthy v \<and> is_object v) vs
      | JObj cs \<Rightarrow> full_matches cs
      | _ \<Rightarrow> [])"

definition draft_of_object :: "(jstr \<times> jsval) list \<Rightarrow> PruneRule list \<Rightarrow> PruneObjectsDraft option" where
  "draft_of_object ps rs =
     (let get = (\<lambda>k. obj_get (js k) ps) in
      case (if get ''type'' = JUndef then Some [] else map_option trim (as_string (get ''type'')),
            as_string (js_or (get ''logic'') (JStr (js ''AND'')))) of
        (Some ty, Some l) \<Rightarrow>
          Some \<lparr>simpleMode = (\<forall>k\<in>{''logic'', ''recursive'', ''where'', ''conditions''}. get k = JUndef),
            typeText = ty,
            prune_logic = (if ascii_upper l = js ''OR'' then js ''OR'' else js ''AND''),
            recursive = (get ''recursive'' \<noteq> JBool False),
            rules = rs\<rparr>
      | _ \<Rightarrow> None)"

definition parsePruneObjectsDraft :: "(nat \<Rightarrow> nat) \<Rightarrow> jstr \<Rightarrow> nat \<Rightarrow> PruneObjectsDraft \<times> nat" where
  "parsePruneObjectsDraft now valueText seed =
     (let raw = trim valueText; plain = prune_defaults\<lparr>typeText := raw\<rparr> in
      if raw = [] then (prune_defaults, seed)
      else case json_parse raw of
        None \<Rightarrow> (plain, seed)
      | Some (JStr s) \<Rightarrow> (prune_defaults\<lparr>typeText := trim s\<rparr>, seed)
      | Some (JObj ps) \<Rightarrow>
          (let (rs, seed1) = prune_rules now (rule_values ps) seed in
           (case draft_of_object ps rs of Some d \<Rightarrow> d | None \<Rightarrow> plain, seed1))
      | Some v \<Rightarrow>
          (case as_string (if is_nullish v then JStr [] else v) of
             Some s \<Rightarrow> (prune_defaults\<lparr>typeText := trim s\<rparr>, seed)
           | None \<Rightarrow> (plain, seed)))"

definition rule_payload :: "PruneRule \<Rightarrow> jsval" where
  "rule_payload rule =
     JObj (set_if (pass_missing_key rule) ''pass_missing_key'' (JBool True)
       (set_if (invert rule) ''invert'' (JBool True)
         (set_if (trim (cond_value_text rule) \<noteq> []) ''value'' (parseLooseValue (trim (cond_value_text rule)))
           [(js ''path'', JStr (trim (cond_path rule))),
            (js ''mode'', JStr (if cond_mode rule \<in> set CONDITION_MODE_VALUES then cond_mode rule else js ''full''))])))"

definition prune_payload :: "PruneObjectsDraft \<Rightarrow> jsval" where
  "prune_payload draft =
     (let ty = trim (typeText draft);
          l = (if prune_logic draft = [] then js ''AND'' else prune_logic draft);
          conditions = map rule_payload (filter (\<lambda>r. trim (cond_path r) \<noteq> []) (rules draft)) in
      if ty = [] \<and> conditions = [] then JObj [(js ''logic'', JStr (js ''AND''))]
      else JObj
        (set_if (conditions \<noteq> []) ''conditions'' (JArr conditions)
          (set_if (\<not> recursive draft) ''recursive'' (JBool False)
            (set_if (ascii_upper l = js ''OR'') ''logic'' (JStr (js ''OR''))
              (set_if (ty \<noteq> []) ''type'' (JStr ty) [])))))"

definition buildPruneObjectsValueText :: "PruneObjectsDraft \<Rightarrow> jstr" where
  "buildPruneObjectsValueText draft =
     (if simpleMode draft then trim (typeText draft) else ser (prune_payload draft))"

text \<open>\<open>updatePruneObjectsDraft\<close> with an updater, and the three changes of the rules.\<close>

definition edit_prune :: "(nat \<Rightarrow> nat) \<Rightarrow> (PruneObjectsDraft \<Rightarrow> nat \<Rightarrow> PruneObjectsDraft \<times> nat) \<Rightarrow> jstr \<Rightarrow> nat \<Rightarrow> jstr \<times> nat" where
  "edit_prune now updater t seed =
     (let (draft, seed1) = parsePruneObjectsDraft now t seed; (draft2, seed2) = updater draft seed1 in
      (buildPruneObjectsValueText draft2, seed2))"

definition addPruneRule :: "(nat \<Rightarrow> nat) \<Rightarrow> PruneObjectsDraft \<Rightarrow> nat \<Rightarrow> PruneObjectsDraft \<times> nat" where
  "addPruneRule now draft seed =
     (let (r, seed1) = normalizePruneRule now (JObj []) seed in
      (draft\<lparr>simpleMode := False, rules := rules draft @ [r]\<rparr>, seed1))"

definition updatePruneRule :: "jstr \<Rightarrow> (PruneRule \<Rightarrow> PruneRule) \<Rightarrow> PruneObjectsDraft \<Rightarrow> nat \<Rightarrow> PruneObjectsDraft \<times> nat" where
  "updatePruneRule ruleId patch draft seed =
     (draft\<lparr>rules := map (\<lambda>r. if cond_id r = ruleId then patch r else r) (rules draft)\<rparr>, seed)"

definition removePruneRule :: "jstr \<Rightarrow> PruneObjectsDraft \<Rightarrow> nat \<Rightarrow> PruneObjectsDraft \<times> nat" where
  "removePruneRule ruleId draft seed =
     (draft\<lparr>rules := filter (\<lambda>r. cond_id r \<noteq> ruleId) (rules draft)\<rparr>, seed)"

section \<open>sync_fields\<close>

definition parseSyncTargetSpec :: "jstr \<Rightarrow> jstr \<times> jstr" where
  "parseSyncTargetSpec spec =
     (let raw = trim spec in
      if raw = [] then (js ''json'', [])
      else case index_of (js '':'') raw of
        None \<Rightarrow> (js ''json'', raw)
      | Some idx \<Rightarrow>
          let kind = ascii_lower (trim (take idx raw)); key = trim (drop (idx + 1) raw) in
          if kind = js ''header'' then (js ''header'', key) else (js ''json'', key))"

definition buildSyncTargetSpec :: "jstr \<Rightarrow> jstr \<Rightarrow> jstr" where
  "buildSyncTargetSpec kind key =
     (let normalizedType = (if kind = js ''header'' then js ''header'' else js ''json''); normalizedKey = trim key in
      if normalizedKey = [] then [] else normalizedType @ js '':'' @ normalizedKey)"

section \<open>What a round trip keeps\<close>

lemma status_range: "\<exists>n. status_or_400 x = Fin (of_nat n) \<and> 100 \<le> n \<and> n \<le> 599"
proof (cases "num_is_integer x \<and> num_le (Fin 100) x \<and> num_le x (Fin 599)")
  case True
  then obtain q where x: "x = Fin q" by (cases x) auto
  have "100 \<le> q" "q \<le> 599" using True x by (auto simp: num_le_def num_eq_def)
  moreover from True x obtain z where z: "q = of_int z" by (auto simp del: of_int_floor_cancel) (metis of_int_floor_cancel)
  ultimately have "100 \<le> z" "z \<le> 599" by simp_all
  with True x z show ?thesis by (intro exI [of _ "nat z"]) (auto simp: status_or_400_def)
next
  case False
  then show ?thesis by (intro exI [of _ 400]) (auto simp: status_or_400_def)
qed

lemma status_again [simp]: "status_or_400 (status_or_400 x) = status_or_400 x"
  by (simp add: status_or_400_def)

lemma error_payload_ok: "json_ok (error_payload d)"
proof -
  obtain n where n: "status_or_400 (err_statusCode d) = Fin (of_nat n)" "n \<le> 599" using status_range by blast
  have "json_ok (JNum (Fin (of_nat n)))" using n(2) by (intro json_ok_nat) simp
  moreover have "\<not> is_index_key (js ''status_code'')" by (simp add: is_index_key_def js_def is_digit_def)
  ultimately have "json_ok (JObj [(js ''message'', JStr (trim (err_message d))), (js ''status_code'', JNum (status_or_400 (err_statusCode d)))])"
    by (simp add: n(1) obj_wf_def key_before_def)
  then show ?thesis unfolding error_payload_def by (intro json_ok_set_if) simp_all
qed

definition stored_error :: "ReturnErrorDraft \<Rightarrow> ReturnErrorDraft" where
  "stored_error d = \<lparr>err_message = trim (err_message d), err_statusCode = status_or_400 (err_statusCode d),
     err_code = trim (err_code d), err_type = trim (err_type d), skipRetry = skipRetry d, err_simpleMode = False\<rparr>"

lemma payload_read: "\<exists>ps. error_payload d = JObj ps \<and> error_of_object ps = Some (stored_error d)"
proof -
  define base where "base = [(js ''message'', JStr (trim (err_message d))), (js ''status_code'', JNum (status_or_400 (err_statusCode d)))]"
  obtain ps where ps: "error_payload d = JObj ps"
      "ps = set_if (\<not> skipRetry d) ''skip_retry'' (JBool False)
       (set_if (trim (err_type d) \<noteq> []) ''type'' (JStr (trim (err_type d)))
         (set_if (trim (err_code d) \<noteq> []) ''code'' (JStr (trim (err_code d))) base))"
    by (simp add: error_payload_def base_def)
  have g: "obj_get (js ''status_code'') ps = JNum (status_or_400 (err_statusCode d))"
      "obj_get (js ''message'') ps = JStr (trim (err_message d))" "obj_get (js ''msg'') ps = JUndef"
      "obj_get (js ''code'') ps = (if trim (err_code d) \<noteq> [] then JStr (trim (err_code d)) else JUndef)"
      "obj_get (js ''type'') ps = (if trim (err_type d) \<noteq> [] then JStr (trim (err_type d)) else JUndef)"
      "obj_get (js ''skip_retry'') ps = (if skipRetry d then JUndef else JBool False)"
    unfolding ps(2) by (simp_all add: base_def obj_get_def [of _ "_ # _"])
  have "error_of_object ps = Some (stored_error d)"
    by (simp add: error_of_object_def Let_def g stored_error_def js_or_def)
  with ps(1) show ?thesis by blast
qed

lemma error_draft_stored: "\<not> err_simpleMode d \<Longrightarrow> parseReturnErrorDraft (buildReturnErrorValueText d) = stored_error d"
proof -
  assume d: "\<not> err_simpleMode d"
  obtain ps where ps: "error_payload d = JObj ps" "error_of_object ps = Some (stored_error d)" using payload_read by blast
  have t: "trim (ser (error_payload d)) = ser (error_payload d)" using trimmed_ser [OF error_payload_ok] by (rule trim_id)
  have ne: "ser (error_payload d) \<noteq> []" using json_ok_ser_hd [OF error_payload_ok] by blast
  have "json_parse (ser (error_payload d)) = Some (JObj ps)" using json_roundtrip [OF error_payload_ok, of d] ps(1) by simp
  then show ?thesis
    using d ps(2) t ne by (simp add: parseReturnErrorDraft_def buildReturnErrorValueText_def Let_def del: ser.simps)
qed

text \<open>
  The advanced form of \<open>return_error\<close> keeps its fields: after any change the draft shows what was
  entered, with the texts trimmed and a status that is no whole number from 100 to 599 replaced by 400.
\<close>

theorem error_draft_roundtrip:
  "parseReturnErrorDraft (buildReturnErrorValueText (d\<lparr>err_simpleMode := False\<rparr>)) =
   \<lparr>err_message = trim (err_message d), err_statusCode = status_or_400 (err_statusCode d),
    err_code = trim (err_code d), err_type = trim (err_type d), skipRetry = skipRetry d, err_simpleMode = False\<rparr>"
  by (simp add: error_draft_stored stored_error_def)

text \<open>Typing into the message field appends one unit to what it shows.\<close>

definition type_message :: "jstr \<Rightarrow> jstr \<Rightarrow> jstr" where
  "type_message t s = foldl (\<lambda>u c. edit_error (\<lambda>d. d\<lparr>err_message := err_message d @ [c]\<rparr>) u) t s"

lemma trim_snoc: "trimmed m \<Longrightarrow> trim (m @ [c]) = (if is_ws c then m else m @ [c])"
proof -
  assume m: "trimmed m"
  show ?thesis
  proof (cases "is_ws c")
    case True
    then have "trim (m @ [c]) = trim m"
      by (cases "\<forall>x\<in>set m. is_ws x") (auto simp: trim_def dropWhile_append dropWhile_eq_Nil_conv dest: set_dropWhileD)
    with True m show ?thesis by (simp add: trim_id)
  next
    case False
    with m have "trimmed (m @ [c])" by (cases m) (auto simp: trimmed_def)
    with False show ?thesis by (simp add: trim_id)
  qed
qed

text \<open>
  No blank can be typed into the message: the text shown after typing has every character that was
  typed except the white space, because each key reads the trimmed text back.
\<close>

theorem typed_blanks_vanish:
  assumes "\<not> err_simpleMode d"
  shows "err_message (parseReturnErrorDraft (type_message (buildReturnErrorValueText d) s)) =
    trim (err_message d) @ filter (\<lambda>c. \<not> is_ws c) s"
  using assms
proof (induction s arbitrary: d)
  case Nil
  then show ?case by (simp add: type_message_def error_draft_stored stored_error_def)
next
  case (Cons c s)
  let ?d = "(stored_error d)\<lparr>err_message := err_message (stored_error d) @ [c]\<rparr>"
  have "type_message (buildReturnErrorValueText d) (c # s) = type_message (buildReturnErrorValueText ?d) s"
    by (simp add: type_message_def edit_error_def error_draft_stored [OF Cons.prems])
  moreover have "err_message (parseReturnErrorDraft (type_message (buildReturnErrorValueText ?d) s)) =
      trim (err_message ?d) @ filter (\<lambda>c. \<not> is_ws c) s"
    by (rule Cons.IH) (simp add: stored_error_def)
  ultimately show ?case using trim_snoc [OF trimmed_trim] by (simp add: stored_error_def)
qed

lemma typed_blanks_vanish_witness:
  "err_message (parseReturnErrorDraft (type_message (buildReturnErrorValueText (error_defaults\<lparr>err_simpleMode := False\<rparr>)) (js ''no way''))) =
   js ''noway''"
  using typed_blanks_vanish [of "error_defaults\<lparr>err_simpleMode := False\<rparr>" "js ''no way''"]
  by (simp add: error_defaults_def) (simp add: js_def is_ws_def)

section \<open>Identities of the rules\<close>

lemma nextLocalId_inject: "nextLocalId now a = nextLocalId now b \<Longrightarrow> a = b"
proof -
  have s: "takeWhile (\<lambda>c. c \<noteq> 95) (rev (nextLocalId now n)) = rev (dec n)" for n
  proof -
    have "\<forall>c\<in>set (rev (dec n)). c \<noteq> 95" by (auto dest!: dec_digits simp: is_digit_def)
    then have "takeWhile (\<lambda>c. c \<noteq> 95) (rev (dec n) @ 95 # r) = rev (dec n)" for r
      by (subst takeWhile_append2) auto
    then show ?thesis by (simp add: nextLocalId_def js_def)
  qed
  assume "nextLocalId now a = nextLocalId now b"
  then have "rev (dec a) = rev (dec b)" using s by metis
  then show ?thesis by simp
qed

lemma prune_rules_ids:
  "prune_rules now vs seed = (rs, seed1) \<Longrightarrow>
   seed1 = seed + length rs \<and> map cond_id rs = map (nextLocalId now) [seed..<seed1]"
proof (induction vs arbitrary: seed rs)
  case (Cons v vs)
  then obtain rs2 where r: "prune_rules now vs (Suc seed) = (rs2, seed1)" "rs = fst (normalizePruneRule now v seed) # rs2"
    by (auto simp: normalizePruneRule_def split: prod.splits)
  with Cons.IH [of "Suc seed" rs2] have i: "seed1 = Suc seed + length rs2"
      "map cond_id rs2 = map (nextLocalId now) [Suc seed..<seed1]" by simp_all
  then have "seed < seed1" by simp
  then have "[seed..<seed1] = seed # [Suc seed..<seed1]" by (rule upt_conv_Cons)
  moreover have "cond_id (fst (normalizePruneRule now v seed)) = nextLocalId now seed" by (simp add: normalizePruneRule_def)
  ultimately show ?case using i r(2) by (simp del: upt_Suc)
qed simp

lemma draft_ids:
  assumes "parsePruneObjectsDraft now t seed = (d, seed1)"
  shows "seed \<le> seed1" "cond_id ` set (rules d) \<subseteq> nextLocalId now ` {seed..<seed1}"
proof -
  have p: "seed \<le> s1 \<and> cond_id ` set rs = nextLocalId now ` {seed..<s1}" if "prune_rules now vs seed = (rs, s1)" for vs rs s1
  proof -
    from prune_rules_ids [OF that] have "seed \<le> s1" "set (map cond_id rs) = set (map (nextLocalId now) [seed..<s1])" by simp_all
    then show ?thesis by simp
  qed
  have r: "rules (case draft_of_object ps rs of Some d \<Rightarrow> d | None \<Rightarrow> prune_defaults\<lparr>typeText := x\<rparr>) \<in> {rs, []}" for ps rs x
    by (auto simp: draft_of_object_def Let_def prune_defaults_def split: option.splits)
  have "seed \<le> seed1 \<and> cond_id ` set (rules d) \<subseteq> nextLocalId now ` {seed..<seed1}"
  proof (cases "\<exists>ps. trim t \<noteq> [] \<and> json_parse (trim t) = Some (JObj ps)")
    case True
    then obtain ps where "trim t \<noteq> []" "json_parse (trim t) = Some (JObj ps)" by blast
    moreover obtain rs s1 where rs: "prune_rules now (rule_values ps) seed = (rs, s1)" by force
    ultimately have "seed1 = s1" "rules d \<in> {rs, []}"
      using assms r [where ps = ps and rs = rs and x = "trim t"] by (auto simp: parsePruneObjectsDraft_def Let_def)
    with p [OF rs] show ?thesis by auto
  next
    case False
    then have "seed1 = seed \<and> rules d = []"
      using assms by (auto simp: parsePruneObjectsDraft_def Let_def prune_defaults_def split: if_splits option.splits jsval.splits)
    then show ?thesis by simp
  qed
  then show "seed \<le> seed1" "cond_id ` set (rules d) \<subseteq> nextLocalId now ` {seed..<seed1}" by simp_all
qed

text \<open>
  The conditions of \<open>prune_objects\<close> cannot be edited. A condition that is shown carries the identity
  it got when the draft was read for the screen; the change reads the draft anew, with new identities,
  so it finds no condition to change or to delete. A new condition has no path yet and is dropped when
  the draft is printed.
\<close>

theorem prune_rule_edits_lost:
  assumes "parsePruneObjectsDraft now t seed = (shown, seed1)" "r \<in> set (rules shown)" "seed1 \<le> seed2"
  shows "edit_prune now (updatePruneRule (cond_id r) patch) t seed2 = edit_prune now Pair t seed2 \<and>
    edit_prune now (removePruneRule (cond_id r)) t seed2 = edit_prune now Pair t seed2 \<and>
    fst (edit_prune now (addPruneRule now) t seed2) = fst (edit_prune now (\<lambda>d. Pair (d\<lparr>simpleMode := False\<rparr>)) t seed2)"
proof -
  obtain d s where d: "parsePruneObjectsDraft now t seed2 = (d, s)" by force
  obtain a where a: "cond_id r = nextLocalId now a" "a < seed1" using draft_ids(2) [OF assms(1)] assms(2) by auto
  have n: "cond_id x \<noteq> cond_id r" if "x \<in> set (rules d)" for x
  proof
    assume "cond_id x = cond_id r"
    moreover have "cond_id x \<in> nextLocalId now ` {seed2..<s}" using draft_ids(2) [OF d] that by blast
    then obtain b where "cond_id x = nextLocalId now b" "seed2 \<le> b" by auto
    ultimately have "b = a" using a(1) nextLocalId_inject by metis
    with \<open>seed2 \<le> b\<close> a(2) assms(3) show False by simp
  qed
  then have "map (\<lambda>x. if cond_id x = cond_id r then patch x else x) (rules d) = rules d"
    "filter (\<lambda>x. cond_id x \<noteq> cond_id r) (rules d) = rules d"
    by (auto intro: map_idI filter_True)
  then have "edit_prune now (updatePruneRule (cond_id r) patch) t seed2 = edit_prune now Pair t seed2"
    "edit_prune now (removePruneRule (cond_id r)) t seed2 = edit_prune now Pair t seed2"
    by (simp_all add: edit_prune_def d updatePruneRule_def removePruneRule_def)
  moreover have "fst (edit_prune now (addPruneRule now) t seed2) = fst (edit_prune now (\<lambda>d. Pair (d\<lparr>simpleMode := False\<rparr>)) t seed2)"
    by (simp add: edit_prune_def d addPruneRule_def normalizePruneRule_def string_field_def obj_get_def
        buildPruneObjectsValueText_def prune_payload_def Let_def)
  ultimately show ?thesis by blast
qed

lemma prune_rule_edits_lost_witness:
  "fst (edit_prune (\<lambda>_. 0) (removePruneRule (nextLocalId (\<lambda>_. 0) 0))
     (ser (JObj [(js ''where'', JObj [(js ''role'', JStr (js ''user''))])])) 1) =
   fst (edit_prune (\<lambda>_. 0) Pair (ser (JObj [(js ''where'', JObj [(js ''role'', JStr (js ''user''))])])) 1)"
proof -
  let ?v = "JObj [(js ''where'', JObj [(js ''role'', JStr (js ''user''))])]"
  have ok: "json_ok ?v" by (simp add: obj_wf_def)
  have g: "obj_get (js k) [(js ''where'', w)] = (if k = ''where'' then w else JUndef)" for k w by (simp add: obj_get_def)
  obtain d where d: "parsePruneObjectsDraft (\<lambda>_. 0) (ser ?v) 0 = (d, 1)" "map cond_id (rules d) = [nextLocalId (\<lambda>_. 0) 0]"
    using json_roundtrip [OF ok] trimmed_ser [OF ok] json_ok_ser_hd [OF ok]
    by (simp add: parsePruneObjectsDraft_def Let_def trim_id rule_values_def g full_matches_def normalizePruneRule_def
        draft_of_object_def js_or_def del: ser.simps)
  then obtain r where r: "r \<in> set (rules d)" "cond_id r = nextLocalId (\<lambda>_. 0) 0" by auto
  show ?thesis using prune_rule_edits_lost [OF d(1) r(1), of 1] r(2) by simp
qed

section \<open>What the advanced form of prune_objects keeps\<close>

definition kept_rules :: "PruneObjectsDraft \<Rightarrow> PruneRule list" where
  "kept_rules d = filter (\<lambda>r. trim (cond_path r) \<noteq> []) (rules d)"

definition prune_ok :: "PruneObjectsDraft \<Rightarrow> bool" where
  "prune_ok d \<longleftrightarrow> prune_logic d \<in> {js ''AND'', js ''OR''} \<and> list_all condition_ok (rules d) \<and>
     list_all (\<lambda>r. json_ok (parseLooseValue (cond_value_text r))) (rules d)"

lemma loose_trim: "parseLooseValue (trim t) = parseLooseValue t"
  by (simp add: parseLooseValue_def)

lemma rule_json_ok: "json_ok (parseLooseValue (cond_value_text r)) \<Longrightarrow> json_ok (rule_payload r)"
proof -
  assume v: "json_ok (parseLooseValue (cond_value_text r))"
  have "\<not> is_index_key (js ''mode'')" by (simp add: is_index_key_def js_def is_digit_def)
  then have "json_ok (JObj [(js ''path'', JStr (trim (cond_path r))),
      (js ''mode'', JStr (if cond_mode r \<in> set CONDITION_MODE_VALUES then cond_mode r else js ''full''))])"
    by (simp add: obj_wf_def key_before_def)
  with v show ?thesis unfolding rule_payload_def by (intro json_ok_set_if) (simp_all add: loose_trim)
qed

lemma read_rule:
  "condition_ok r \<Longrightarrow> bare_condition (fst (normalizePruneRule now (rule_payload r) seed)) = reread_condition r"
proof -
  assume "condition_ok r"
  moreover have "toValueText (parseLooseValue t) = []" if "trim t = []" for t
    using that by (simp add: parseLooseValue_def toValueText_def)
  ultimately show ?thesis
    by (cases r) (auto simp: normalizePruneRule_def rule_payload_def string_field_def known_mode_def obj_get_def [of _ "_ # _"]
      condition_ok_def bare_condition_def reread_condition_def reread_text_def loose_trim toValueText_def [of JUndef])
qed

lemma read_rules:
  "list_all condition_ok rs \<Longrightarrow> map bare_condition (fst (prune_rules now (map rule_payload rs) seed)) = map reread_condition rs"
proof (induction rs arbitrary: seed)
  case (Cons r rs)
  have "fst (prune_rules now (map rule_payload (r # rs)) seed) =
      fst (normalizePruneRule now (rule_payload r) seed) # fst (prune_rules now (map rule_payload rs) (Suc seed))"
    by (simp add: normalizePruneRule_def split: prod.split)
  with Cons show ?case by (simp add: read_rule)
qed simp

text \<open>
  C30. What the advanced form of \<open>prune_objects\<close> keeps: the type, the logic, the recursion and every
  condition that has a path. Without a type and a condition logic and recursion are forgotten; with a
  type alone the form falls back to the simple one.
\<close>

theorem prune_draft_roundtrip:
  assumes "prune_ok d" "\<not> simpleMode d" "parsePruneObjectsDraft now (buildPruneObjectsValueText d) seed = (d', seed1)"
  shows "if trim (typeText d) = [] \<and> kept_rules d = [] then d' = prune_defaults\<lparr>simpleMode := False\<rparr>
    else typeText d' = trim (typeText d) \<and> prune_logic d' = prune_logic d \<and> recursive d' = recursive d \<and>
      map bare_condition (rules d') = map reread_condition (kept_rules d) \<and>
      simpleMode d' = (kept_rules d = [] \<and> prune_logic d = js ''AND'' \<and> recursive d)"
proof -
  let ?ty = "trim (typeText d)" and ?cs = "map rule_payload (kept_rules d)"
  have l: "prune_logic d \<noteq> []" "ascii_upper (prune_logic d) = prune_logic d" "ascii_upper (js ''OR'') = js ''OR''"
      "ascii_upper (js ''AND'') = js ''AND''"
    using assms(1) by (auto simp: prune_ok_def ascii_upper_def js_def)
  define ps where "ps = (if ?ty = [] \<and> kept_rules d = [] then [(js ''logic'', JStr (js ''AND''))]
      else set_if (kept_rules d \<noteq> []) ''conditions'' (JArr ?cs)
          (set_if (\<not> recursive d) ''recursive'' (JBool False)
            (set_if (prune_logic d = js ''OR'') ''logic'' (JStr (js ''OR''))
              (set_if (?ty \<noteq> []) ''type'' (JStr ?ty) []))))"
  have pay: "prune_payload d = JObj ps"
    using l by (simp add: prune_payload_def Let_def ps_def kept_rules_def)
  have "json_ok v" if "v \<in> set ?cs" for v
    using that assms(1) by (auto simp: kept_rules_def prune_ok_def list_all_iff intro!: rule_json_ok)
  then have ok: "json_ok (JObj ps)" unfolding ps_def
    by (auto simp del: json_ok.simps(7) intro!: json_ok_set_if) (simp_all add: obj_wf_def)
  have nn: "ser (JObj ps) \<noteq> []" using json_ok_ser_hd [OF ok] by blast
  obtain rs s1 where rs: "prune_rules now (rule_values ps) seed = (rs, s1)" by force
  have d': "d' = (case draft_of_object ps rs of Some d \<Rightarrow> d | None \<Rightarrow> prune_defaults\<lparr>typeText := ser (JObj ps)\<rparr>)"
    using assms(2,3) nn rs json_roundtrip [OF ok] trim_id [OF trimmed_ser [OF ok]]
    by (simp add: parsePruneObjectsDraft_def buildPruneObjectsValueText_def pay Let_def del: ser.simps)
  show ?thesis
  proof (cases "?ty = [] \<and> kept_rules d = []")
    case True
    then have p: "ps = [(js ''logic'', JStr (js ''AND''))]" by (simp add: ps_def)
    with rs have "rs = []" by (simp add: rule_values_def obj_get_def)
    with True d' p l(4) show ?thesis
      by (simp add: draft_of_object_def Let_def obj_get_def js_or_def prune_defaults_def)
  next
    case False
    then have p: "ps = set_if (kept_rules d \<noteq> []) ''conditions'' (JArr ?cs)
          (set_if (\<not> recursive d) ''recursive'' (JBool False)
            (set_if (prune_logic d = js ''OR'') ''logic'' (JStr (js ''OR''))
              (set_if (?ty \<noteq> []) ''type'' (JStr ?ty) [])))"
      by (simp only: ps_def if_False)
    have nil: "obj_get k [] = JUndef" for k by (simp add: obj_get_def)
    have g: "obj_get (js ''type'') ps = (if ?ty \<noteq> [] then JStr ?ty else JUndef)"
        "obj_get (js ''logic'') ps = (if prune_logic d = js ''OR'' then JStr (js ''OR'') else JUndef)"
        "obj_get (js ''recursive'') ps = (if recursive d then JUndef else JBool False)" "obj_get (js ''where'') ps = JUndef"
        "obj_get (js ''conditions'') ps = (if kept_rules d = [] then JUndef else JArr ?cs)"
      unfolding p by (simp_all add: nil)
    have "filter (\<lambda>v. truthy v \<and> is_object v) ?cs = ?cs"
      by (intro filter_True) (auto simp: rule_payload_def)
    then have "rule_values ps = ?cs" by (simp add: rule_values_def g)
    then have r: "map bare_condition rs = map reread_condition (kept_rules d)"
      using read_rules [of "kept_rules d" now seed] rs assms(1) by (simp add: prune_ok_def kept_rules_def list_all_iff)
    have "draft_of_object ps rs = Some \<lparr>simpleMode = (kept_rules d = [] \<and> prune_logic d \<noteq> js ''OR'' \<and> recursive d), typeText = ?ty,
        prune_logic = (if prune_logic d = js ''OR'' then js ''OR'' else js ''AND''), recursive = recursive d, rules = rs\<rparr>"
      using l by (simp add: draft_of_object_def Let_def g js_or_def)
    with d' r False assms(1) show ?thesis by (auto simp: prune_ok_def)
  qed
qed

lemma prune_draft_roundtrip_witness:
  "\<exists>d' seed1. parsePruneObjectsDraft (\<lambda>_. 0) (buildPruneObjectsValueText
     (prune_defaults\<lparr>simpleMode := False, typeText := js ''a''\<rparr>)) 0 = (d', seed1) \<and> simpleMode d' \<and> typeText d' = js ''a''"
proof -
  let ?d = "prune_defaults\<lparr>simpleMode := False, typeText := js ''a''\<rparr>"
  obtain d' seed1 where p: "parsePruneObjectsDraft (\<lambda>_. 0) (buildPruneObjectsValueText ?d) 0 = (d', seed1)" by force
  have "prune_ok ?d" "\<not> simpleMode ?d" by (simp_all add: prune_ok_def prune_defaults_def)
  from prune_draft_roundtrip [OF this p] have "simpleMode d' \<and> typeText d' = trim (js ''a'')"
    by (auto simp: kept_rules_def prune_defaults_def js_def trim_def is_ws_def split: if_splits)
  moreover have "trim (js ''a'') = js ''a''" by (intro trim_id) (simp add: trimmed_def js_def is_ws_def)
  ultimately show ?thesis using p by auto
qed

section \<open>The ends of sync_fields\<close>

lemma index_of_colon: "58 \<notin> set a \<Longrightarrow> index_of (js '':'') (a @ 58 # b) = Some (length a)"
  by (induction a) (auto simp: js_def)

lemma sync_spec:
  "parseSyncTargetSpec (buildSyncTargetSpec kind key) =
   (if trim key = [] then (js ''json'', [])
    else (if kind = js ''header'' then js ''header'' else js ''json'', trim key))"
proof (cases "trim key = []")
  case False
  define k where "k = (if kind = js ''header'' then js ''header'' else js ''json'')"
  have k: "58 \<notin> set k" "trim k = k" "k \<noteq> []" "ascii_lower k = k" "k = js ''header'' \<longleftrightarrow> kind = js ''header''"
    by (auto simp: k_def js_def ascii_lower_def intro!: trim_id) (auto simp: trimmed_def is_ws_def)
  have "trimmed (k @ 58 # trim key)"
    using trimmed_trim [of key] False k(3) by (auto simp: trimmed_def k_def js_def is_ws_def)
  then have "trim (k @ 58 # trim key) = k @ 58 # trim key" by (rule trim_id)
  moreover have "buildSyncTargetSpec kind key = k @ 58 # trim key"
    using False by (simp add: buildSyncTargetSpec_def Let_def k_def js_def)
  ultimately show ?thesis
    using False k index_of_colon [OF k(1), of "trim key"] by (simp add: parseSyncTargetSpec_def Let_def) 
qed (simp add: buildSyncTargetSpec_def parseSyncTargetSpec_def)

text \<open>
  The two controls of an end of \<open>sync_fields\<close> show what was entered: kind and key are read back from
  the text that stores them, with the key trimmed; without a key the kind is forgotten.
\<close>

theorem sync_spec_roundtrip:
  "parseSyncTargetSpec (buildSyncTargetSpec kind key) =
   (if trim key = [] then (js ''json'', [])
    else (if kind = js ''header'' then js ''header'' else js ''json'', trim key))"
  by (rule sync_spec)

end
