(* ===== verification/ParamOverrideEditor.thy ===== *)
theory ParamOverrideEditor
  imports ParamOverrideDrafts JsSort ChannelForm
begin

text \<open>
  The dialog that edits parameter overrides: the state of \<open>ParamOverrideEditorDialog\<close> in
  \<open>param-override-editor-dialog.tsx\<close>, its handlers, and the steps the user can take.

  \<open>localIdSeed\<close> is the module's counter; rendering consumes identities, so it may grow at any time. A
  handler that throws leaves the state as it was; opening a value that makes the reader throw has no
  result. Messages shown to the user are not modelled, \<open>saved_values\<close> holds the calls of \<open>onSave\<close>.
\<close>

section \<open>Templates\<close>

definition obj :: "(string \<times> jsval) list \<Rightarrow> jsval" where
  "obj ps = JObj (map (\<lambda>(k, v). (js k, v)) ps)"

definition str :: "string \<Rightarrow> jsval" where
  "str s = JStr (js s)"

definition LEGACY_TEMPLATE :: jsval where
  "LEGACY_TEMPLATE = obj [(''temperature'', JNum (Fin 0)), (''max_tokens'', JNum (Fin 1000))]"

definition OPERATION_TEMPLATE :: jsval where
  "OPERATION_TEMPLATE = obj [(''operations'', JArr [obj
     [(''description'', str ''Set default temperature for openai/* models.''),
      (''path'', str ''temperature''), (''mode'', str ''set''), (''value'', JNum (Fin seven_tenths)),
      (''conditions'', JArr [obj [(''path'', str ''model''), (''mode'', str ''prefix''), (''value'', str ''openai/'')]]),
      (''logic'', str ''AND'')]])]"

definition HEADER_PASSTHROUGH_TEMPLATE :: jsval where
  "HEADER_PASSTHROUGH_TEMPLATE = obj [(''operations'', JArr [obj
     [(''description'', str ''Pass through X-Request-Id header to upstream.''),
      (''mode'', str ''pass_headers''), (''value'', JArr [str ''X-Request-Id'']), (''keep_origin'', JBool True)]])]"

definition GEMINI_IMAGE_4K_TEMPLATE :: jsval where
  "GEMINI_IMAGE_4K_TEMPLATE = obj [(''operations'', JArr [obj
     [(''description'', str ''Set imageSize to 4K when model contains gemini/image and ends with 4k.''),
      (''mode'', str ''set''), (''path'', str ''generationConfig.imageConfig.imageSize''), (''value'', str ''4K''),
      (''conditions'', JArr
        [obj [(''path'', str ''original_model''), (''mode'', str ''contains''), (''value'', str ''gemini'')],
         obj [(''path'', str ''original_model''), (''mode'', str ''contains''), (''value'', str ''image'')],
         obj [(''path'', str ''original_model''), (''mode'', str ''suffix''), (''value'', str ''4k'')]]),
      (''logic'', str ''AND'')]])]"

definition CODEX_CLI_HEADER_PASSTHROUGH_HEADERS :: "string list" where
  "CODEX_CLI_HEADER_PASSTHROUGH_HEADERS =
     [''Originator'', ''Session_id'', ''User-Agent'', ''X-Codex-Beta-Features'', ''X-Codex-Turn-Metadata'']"

definition CLAUDE_CLI_HEADER_PASSTHROUGH_HEADERS :: "string list" where
  "CLAUDE_CLI_HEADER_PASSTHROUGH_HEADERS =
     [''X-Stainless-Arch'', ''X-Stainless-Lang'', ''X-Stainless-Os'', ''X-Stainless-Package-Version'',
      ''X-Stainless-Retry-Count'', ''X-Stainless-Runtime'', ''X-Stainless-Runtime-Version'', ''X-Stainless-Timeout'',
      ''User-Agent'', ''X-App'', ''Anthropic-Beta'', ''Anthropic-Dangerous-Direct-Browser-Access'', ''Anthropic-Version'']"

definition buildPassHeadersTemplate :: "string list \<Rightarrow> jsval" where
  "buildPassHeadersTemplate headers = obj [(''operations'', JArr [obj
     [(''mode'', str ''pass_headers''), (''value'', JArr (map str headers)), (''keep_origin'', JBool True)]])]"

definition AWS_BEDROCK_ANTHROPIC_COMPAT_TEMPLATE :: jsval where
  "AWS_BEDROCK_ANTHROPIC_COMPAT_TEMPLATE = obj [(''operations'', JArr
     [obj [(''description'', str ''Normalize anthropic-beta header tokens for Bedrock compatibility.''),
        (''mode'', str ''set_header''), (''path'', str ''anthropic-beta''),
        (''value'', obj
          [(''advanced-tool-use-2025-11-20'', str ''tool-search-tool-2025-10-19''),
           (''bash_20241022'', JNull),
           (''bash_20250124'', JNull),
           (''code-execution-2025-08-25'', JNull),
           (''compact-2026-01-12'', str ''compact-2026-01-12''),
           (''computer-use-2025-01-24'', str ''computer-use-2025-01-24''),
           (''computer-use-2025-11-24'', str ''computer-use-2025-11-24''),
           (''context-1m-2025-08-07'', str ''context-1m-2025-08-07''),
           (''context-management-2025-06-27'', str ''context-management-2025-06-27''),
           (''effort-2025-11-24'', JNull),
           (''fast-mode-2026-02-01'', JNull),
           (''files-api-2025-04-14'', JNull),
           (''fine-grained-tool-streaming-2025-05-14'', JNull),
           (''interleaved-thinking-2025-05-14'', str ''interleaved-thinking-2025-05-14''),
           (''mcp-client-2025-11-20'', JNull),
           (''mcp-client-2025-04-04'', JNull),
           (''mcp-servers-2025-12-04'', JNull),
           (''output-128k-2025-02-19'', JNull),
           (''structured-output-2024-03-01'', JNull),
           (''prompt-caching-scope-2026-01-05'', JNull),
           (''skills-2025-10-02'', JNull),
           (''structured-outputs-2025-11-13'', JNull),
           (''text_editor_20241022'', JNull),
           (''text_editor_20250124'', JNull),
           (''token-efficient-tools-2025-02-19'', JNull),
           (''tool-search-tool-2025-10-19'', str ''tool-search-tool-2025-10-19''),
           (''web-fetch-2025-09-10'', JNull),
           (''web-search-2025-03-05'', JNull),
           (''oauth-2025-04-20'', JNull)])],
      obj [(''description'', str ''Remove all tools[*].custom.input_examples before upstream relay.''),
        (''mode'', str ''delete''), (''path'', str ''tools.*.custom.input_examples'')]])]"

definition TEMPLATE_PRESET_CONFIG :: "(jstr \<times> VisualMode \<times> jsval) list" where
  "TEMPLATE_PRESET_CONFIG =
     [(js ''operations_default'', Operations, OPERATION_TEMPLATE),
      (js ''legacy_default'', Legacy, LEGACY_TEMPLATE),
      (js ''pass_headers_auth'', Operations, HEADER_PASSTHROUGH_TEMPLATE),
      (js ''gemini_image_4k'', Operations, GEMINI_IMAGE_4K_TEMPLATE),
      (js ''claude_cli_headers_passthrough'', Operations, buildPassHeadersTemplate CLAUDE_CLI_HEADER_PASSTHROUGH_HEADERS),
      (js ''codex_cli_headers_passthrough'', Operations, buildPassHeadersTemplate CODEX_CLI_HEADER_PASSTHROUGH_HEADERS),
      (js ''aws_bedrock_anthropic_beta_override'', Operations, AWS_BEDROCK_ANTHROPIC_COMPAT_TEMPLATE)]"

section \<open>The state\<close>

record Editor = EditorState +
  operationSearch :: jstr
  selectedOperationId :: jstr
  expandedConditions :: "(jstr \<times> bool) list"
  draggedOperationId :: jstr
  dragOverOperationId :: jstr
  dragOverPosition :: Position
  templatePresetKey :: jstr
  localIdSeed :: nat
  editor_open :: bool
  saved_values :: "jstr list"

definition initial_editor :: "(nat \<Rightarrow> nat) \<Rightarrow> Editor" where
  "initial_editor now =
     \<lparr>editMode = Visual, visualMode = Operations, legacyValue = [], operations = [createDefaultOperation now 0],
      jsonText = [], jsonError = False, operationSearch = [], selectedOperationId = [], expandedConditions = [],
      draggedOperationId = [], dragOverOperationId = [], dragOverPosition = Before,
      templatePresetKey = js ''operations_default'', localIdSeed = 1, editor_open = False, saved_values = []\<rparr>"

definition first_id :: "ParamOverrideOperation list \<Rightarrow> jstr" where
  "first_id ops = (case ops of [] \<Rightarrow> [] | op # _ \<Rightarrow> op_id op)"

text \<open>The effect after each render: a selection that no longer exists moves to the first operation.\<close>

definition keep_selection :: "Editor \<Rightarrow> Editor" where
  "keep_selection st =
     (if selectedOperationId st \<in> op_id ` set (operations st) then st
      else st\<lparr>selectedOperationId := first_id (operations st)\<rparr>)"

definition open_editor :: "(nat \<Rightarrow> nat) \<Rightarrow> jstr \<Rightarrow> Editor \<Rightarrow> Editor option" where
  "open_editor now v st =
     map_option (\<lambda>(s, seed). st\<lparr>editMode := editMode s, visualMode := visualMode s, legacyValue := legacyValue s,
        operations := operations s, jsonText := jsonText s, jsonError := jsonError s,
        operationSearch := [], selectedOperationId := first_id (operations s), expandedConditions := [],
        draggedOperationId := [], dragOverOperationId := [], dragOverPosition := Before,
        templatePresetKey := (if visualMode s = Legacy then js ''legacy_default'' else js ''operations_default''),
        localIdSeed := seed, editor_open := True\<rparr>)
       (parseInitialState now v (localIdSeed st))"

subsection \<open>Derived values\<close>

definition operationCount :: "Editor \<Rightarrow> nat" where
  "operationCount st = length (filter (\<lambda>op. \<not> isOperationBlank op) (operations st))"

definition searchable_text :: "ParamOverrideOperation \<Rightarrow> jstr" where
  "searchable_text op =
     join (js '' '') (filter (\<lambda>s. s \<noteq> []) [description op, mode op, path op, op_from op, op_to op, value_text op])"

definition filteredOperations :: "(jstr \<Rightarrow> jstr) \<Rightarrow> Editor \<Rightarrow> ParamOverrideOperation list" where
  "filteredOperations toLowerCase st =
     (let keyword = toLowerCase (trim (operationSearch st)) in
      if keyword = [] then operations st
      else filter (\<lambda>op. contains (toLowerCase (searchable_text op)) keyword) (operations st))"

definition count_mode :: "(jstr \<times> int) list \<Rightarrow> ParamOverrideOperation \<Rightarrow> (jstr \<times> int) list" where
  "count_mode counts op =
     (let m = mode_or_set (mode op) in
      map_set m ((case map_of counts m of None \<Rightarrow> 0 | Some n \<Rightarrow> n) + 1) counts)"

definition topOperationModes :: "Editor \<Rightarrow> (jstr \<times> int) list" where
  "topOperationModes st =
     take 4 (sort_by (\<lambda>a b. snd b - snd a) (foldl count_mode [] (operations st)))"

section \<open>Editing operations\<close>

datatype OperationPatch =
    PatchMode jstr | PatchPath jstr | PatchDescription jstr | PatchValue jstr | PatchKeepOrigin bool
  | PatchFrom jstr | PatchTo jstr | PatchLogic jstr | PatchEnds jstr jstr

fun patch_operation :: "OperationPatch \<Rightarrow> ParamOverrideOperation \<Rightarrow> ParamOverrideOperation" where
  "patch_operation (PatchMode m) op = op\<lparr>mode := m\<rparr>"
| "patch_operation (PatchPath t) op = op\<lparr>path := t\<rparr>"
| "patch_operation (PatchDescription t) op = op\<lparr>description := t\<rparr>"
| "patch_operation (PatchValue t) op = op\<lparr>value_text := t\<rparr>"
| "patch_operation (PatchKeepOrigin b) op = op\<lparr>keep_origin := b\<rparr>"
| "patch_operation (PatchFrom t) op = op\<lparr>op_from := t\<rparr>"
| "patch_operation (PatchTo t) op = op\<lparr>op_to := t\<rparr>"
| "patch_operation (PatchLogic l) op = op\<lparr>logic := l\<rparr>"
| "patch_operation (PatchEnds a b) op = op\<lparr>op_from := a, op_to := b\<rparr>"

datatype ConditionPatch =
    PatchCondPath jstr | PatchCondMode jstr | PatchCondValue jstr | PatchInvert bool | PatchMissing bool

fun patch_condition :: "ConditionPatch \<Rightarrow> ParamOverrideCondition \<Rightarrow> ParamOverrideCondition" where
  "patch_condition (PatchCondPath t) c = c\<lparr>cond_path := t\<rparr>"
| "patch_condition (PatchCondMode m) c = c\<lparr>cond_mode := m\<rparr>"
| "patch_condition (PatchCondValue t) c = c\<lparr>cond_value_text := t\<rparr>"
| "patch_condition (PatchInvert b) c = c\<lparr>invert := b\<rparr>"
| "patch_condition (PatchMissing b) c = c\<lparr>pass_missing_key := b\<rparr>"

text \<open>What the controls offer: the modes of the lists, and \<open>AND\<close> or \<open>OR\<close>.\<close>

fun patch_offered :: "OperationPatch \<Rightarrow> bool" where
  "patch_offered (PatchMode m) = (m \<in> set OPERATION_MODE_VALUES)"
| "patch_offered (PatchLogic l) = (l \<in> {js ''AND'', js ''OR''})"
| "patch_offered _ = True"

fun condition_patch_offered :: "ConditionPatch \<Rightarrow> bool" where
  "condition_patch_offered (PatchCondMode m) = (m \<in> set CONDITION_MODE_VALUES)"
| "condition_patch_offered _ = True"

definition at_operation ::
  "jstr \<Rightarrow> (ParamOverrideOperation \<Rightarrow> ParamOverrideOperation) \<Rightarrow> ParamOverrideOperation list \<Rightarrow> ParamOverrideOperation list" where
  "at_operation operationId f ops = map (\<lambda>op. if op_id op = operationId then f op else op) ops"

definition updateOperation :: "jstr \<Rightarrow> OperationPatch \<Rightarrow> Editor \<Rightarrow> Editor" where
  "updateOperation operationId patch st =
     st\<lparr>operations := at_operation operationId (patch_operation patch) (operations st)\<rparr>"

definition addOperation :: "(nat \<Rightarrow> nat) \<Rightarrow> Editor \<Rightarrow> Editor" where
  "addOperation now st =
     (let created = createDefaultOperation now (localIdSeed st) in
      st\<lparr>operations := operations st @ [created], selectedOperationId := op_id created,
        localIdSeed := Suc (localIdSeed st)\<rparr>)"

definition duplicate_source :: "ParamOverrideOperation \<Rightarrow> jsval" where
  "duplicate_source source = JObj
     [(js ''description'', JStr (description source)), (js ''path'', JStr (path source)), (js ''mode'', JStr (mode source)),
      (js ''value'', parseLooseValue (value_text source)), (js ''keep_origin'', JBool (keep_origin source)),
      (js ''from'', JStr (op_from source)), (js ''to'', JStr (op_to source)), (js ''logic'', JStr (logic source)),
      (js ''conditions'', JArr (map (\<lambda>c. JObj
        [(js ''path'', JStr (cond_path c)), (js ''mode'', JStr (cond_mode c)),
         (js ''value'', parseLooseValue (cond_value_text c)), (js ''invert'', JBool (invert c)),
         (js ''pass_missing_key'', JBool (pass_missing_key c))]) (conditions source)))]"

text \<open>
  The handler selects the copy only if React calls the function that makes it at once (\<open>eager\<close>), which it
  does when no other change of the list waits.
\<close>

definition duplicateOperation :: "(nat \<Rightarrow> nat) \<Rightarrow> bool \<Rightarrow> jstr \<Rightarrow> Editor \<Rightarrow> Editor" where
  "duplicateOperation now eager operationId st =
     (case position_of (\<lambda>op. op_id op = operationId) (operations st) of
        None \<Rightarrow> st
      | Some idx \<Rightarrow>
          (case normalizeOperation now (duplicate_source (operations st ! idx)) (localIdSeed st) of
             None \<Rightarrow> st
           | Some (cloned, seed1) \<Rightarrow>
               st\<lparr>operations := insert_at (Suc idx) cloned (operations st),
                 selectedOperationId := (if eager then op_id cloned else selectedOperationId st),
                 localIdSeed := seed1\<rparr>))"

definition removeOperation :: "(nat \<Rightarrow> nat) \<Rightarrow> jstr \<Rightarrow> Editor \<Rightarrow> Editor" where
  "removeOperation now operationId st =
     (if length (operations st) \<le> 1 then
        st\<lparr>operations := [createDefaultOperation now (localIdSeed st)], localIdSeed := Suc (localIdSeed st)\<rparr>
      else st\<lparr>operations := filter (\<lambda>op. op_id op \<noteq> operationId) (operations st)\<rparr>)"

definition addCondition :: "(nat \<Rightarrow> nat) \<Rightarrow> jstr \<Rightarrow> Editor \<Rightarrow> Editor" where
  "addCondition now operationId st =
     (let created = createDefaultCondition now (localIdSeed st) in
      st\<lparr>operations := at_operation operationId (\<lambda>op. op\<lparr>conditions := conditions op @ [created]\<rparr>) (operations st),
        expandedConditions := map_set (cond_id created) True (expandedConditions st),
        localIdSeed := Suc (localIdSeed st)\<rparr>)"

definition updateCondition :: "jstr \<Rightarrow> jstr \<Rightarrow> ConditionPatch \<Rightarrow> Editor \<Rightarrow> Editor" where
  "updateCondition operationId conditionId patch st =
     st\<lparr>operations := at_operation operationId (\<lambda>op. op\<lparr>conditions :=
        map (\<lambda>c. if cond_id c = conditionId then patch_condition patch c else c) (conditions op)\<rparr>) (operations st)\<rparr>"

definition removeCondition :: "jstr \<Rightarrow> jstr \<Rightarrow> Editor \<Rightarrow> Editor" where
  "removeCondition operationId conditionId st =
     st\<lparr>operations := at_operation operationId (\<lambda>op. op\<lparr>conditions :=
        filter (\<lambda>c. cond_id c \<noteq> conditionId) (conditions op)\<rparr>) (operations st)\<rparr>"

definition updateReturnErrorDraft :: "jstr \<Rightarrow> (ReturnErrorDraft \<Rightarrow> ReturnErrorDraft) \<Rightarrow> Editor \<Rightarrow> Editor" where
  "updateReturnErrorDraft operationId patch st =
     st\<lparr>operations := at_operation operationId (\<lambda>op. op\<lparr>value_text := edit_error patch (value_text op)\<rparr>) (operations st)\<rparr>"

text \<open>Identities are different, so at most one operation is edited and its counter is the one that counts.\<close>

definition updatePruneObjectsDraft ::
  "(nat \<Rightarrow> nat) \<Rightarrow> jstr \<Rightarrow> (PruneObjectsDraft \<Rightarrow> nat \<Rightarrow> PruneObjectsDraft \<times> nat) \<Rightarrow> Editor \<Rightarrow> Editor" where
  "updatePruneObjectsDraft now operationId updater st =
     (case position_of (\<lambda>op. op_id op = operationId) (operations st) of
        None \<Rightarrow> st
      | Some i \<Rightarrow>
          (let op = operations st ! i; (t, seed1) = edit_prune now updater (value_text op) (localIdSeed st) in
           st\<lparr>operations := (operations st)[i := op\<lparr>value_text := t\<rparr>], localIdSeed := max (localIdSeed st) seed1\<rparr>))"

text \<open>The button that lays out a value: a text that is no JSON stays.\<close>

definition formatValue :: "jstr \<Rightarrow> Editor \<Rightarrow> Editor" where
  "formatValue operationId st =
     st\<lparr>operations := at_operation operationId (\<lambda>op. case json_parse (value_text op) of
        None \<Rightarrow> op | Some v \<Rightarrow> op\<lparr>value_text := json_pretty v\<rparr>) (operations st)\<rparr>"

section \<open>Drag and drop\<close>

definition resetDragState :: "Editor \<Rightarrow> Editor" where
  "resetDragState st = st\<lparr>draggedOperationId := [], dragOverOperationId := [], dragOverPosition := Before\<rparr>"

definition handleDragStart :: "jstr \<Rightarrow> Editor \<Rightarrow> Editor" where
  "handleDragStart operationId st = st\<lparr>draggedOperationId := operationId, selectedOperationId := operationId\<rparr>"

definition handleDragOver :: "jstr \<Rightarrow> Position \<Rightarrow> Editor \<Rightarrow> Editor" where
  "handleDragOver operationId position st =
     (if draggedOperationId st = [] \<or> draggedOperationId st = operationId then st
      else st\<lparr>dragOverOperationId := operationId, dragOverPosition := position\<rparr>)"

text \<open>The data that the browser carries with the drag is used when the state has none.\<close>

definition handleDrop :: "jstr \<Rightarrow> jstr \<Rightarrow> Editor \<Rightarrow> Editor" where
  "handleDrop carried operationId st =
     (let sourceId = (if draggedOperationId st \<noteq> [] then draggedOperationId st else carried);
          position = (if dragOverOperationId st = operationId then dragOverPosition st else Before) in
      resetDragState
        (if sourceId \<noteq> [] \<and> operationId \<noteq> [] \<and> sourceId \<noteq> operationId then
           st\<lparr>operations := reorderOperations (operations st) sourceId operationId position, selectedOperationId := sourceId\<rparr>
         else st))"

section \<open>Modes, templates and saving\<close>

definition buildVisualJson :: "Editor \<Rightarrow> Problem + jstr" where
  "buildVisualJson st =
     (if visualMode st = Legacy then
        (let trimmed = trim (legacyValue st) in
         if trimmed = [] then Inr []
         else case json_parse trimmed of
           None \<Rightarrow> Inl InvalidJSON
         | Some (JObj ps) \<Rightarrow> Inr (json_pretty (JObj ps))
         | Some _ \<Rightarrow> Inl LegacyNotObject)
      else buildOperationsJson (operations st) True)"

definition switchToJsonMode :: "Editor \<Rightarrow> Editor" where
  "switchToJsonMode st =
     (if editMode st = Json then st
      else (case buildVisualJson st of
        Inr t \<Rightarrow> st\<lparr>jsonText := t, jsonError := False\<rparr>
      | Inl _ \<Rightarrow>
          st\<lparr>jsonText := (if visualMode st = Legacy then legacyValue st
               else case buildOperationsJson (operations st) False of Inr t \<Rightarrow> t | Inl _ \<Rightarrow> []),
             jsonError := True\<rparr>)\<lparr>editMode := Json\<rparr>)"

definition switchToVisualMode :: "(nat \<Rightarrow> nat) \<Rightarrow> Editor \<Rightarrow> Editor" where
  "switchToVisualMode now st =
     (if editMode st = Visual then st
      else
        let trimmed = trim (jsonText st); fallback = createDefaultOperation now (localIdSeed st) in
        if trimmed = [] then
          st\<lparr>visualMode := Operations, operations := [fallback], selectedOperationId := op_id fallback, legacyValue := [],
            jsonError := False, editMode := Visual, localIdSeed := Suc (localIdSeed st)\<rparr>
        else case json_parse trimmed of
          Some (JObj ps) \<Rightarrow>
            (case obj_get (js ''operations'') ps of
               JArr vs \<Rightarrow>
                 (case read_operations now vs (localIdSeed st) of
                    None \<Rightarrow> st
                  | Some (nextOps, seed1) \<Rightarrow>
                      st\<lparr>visualMode := Operations, operations := nextOps, selectedOperationId := first_id nextOps,
                        legacyValue := [], jsonError := False, editMode := Visual,
                        templatePresetKey := js ''operations_default'', localIdSeed := seed1\<rparr>)
             | _ \<Rightarrow>
                 st\<lparr>visualMode := Legacy, legacyValue := json_pretty (JObj ps), operations := [fallback],
                   selectedOperationId := op_id fallback, jsonError := False, editMode := Visual,
                   templatePresetKey := js ''legacy_default'', localIdSeed := Suc (localIdSeed st)\<rparr>)
        | _ \<Rightarrow> st)"

datatype FillMode = Fill | Append

definition fill_legacy :: "(nat \<Rightarrow> nat) \<Rightarrow> jstr \<Rightarrow> Editor \<Rightarrow> Editor" where
  "fill_legacy now t st =
     st\<lparr>visualMode := Legacy, legacyValue := t, operations := [createDefaultOperation now (localIdSeed st)], jsonText := t,
       jsonError := False, editMode := Visual, localIdSeed := Suc (localIdSeed st)\<rparr>"

definition preset_of :: "jstr \<Rightarrow> VisualMode \<times> jsval" where
  "preset_of k =
     (case map_of TEMPLATE_PRESET_CONFIG k of Some p \<Rightarrow> p | None \<Rightarrow> (Operations, OPERATION_TEMPLATE))"

definition fillTemplate :: "(nat \<Rightarrow> nat) \<Rightarrow> FillMode \<Rightarrow> Editor \<Rightarrow> Editor" where
  "fillTemplate now fill st =
     (let (kind, payload) = preset_of (templatePresetKey st) in
      if kind = Legacy then
        if fill = Append \<and> visualMode st = Legacy then
          (let trimmed = trim (legacyValue st) in
           if trimmed = [] then fill_legacy now (json_pretty (JObj (spread (entries payload) (JObj [])))) st
           else case json_parse trimmed of
             None \<Rightarrow> st
           | Some current \<Rightarrow> fill_legacy now (json_pretty (JObj (spread (entries payload) current))) st)
        else fill_legacy now (json_pretty payload) st
      else
        let vs = (case get_prop (js ''operations'') payload of JArr vs \<Rightarrow> vs | _ \<Rightarrow> []) in
        (case fill of
           Append \<Rightarrow>
             (case map_counted (normalizeOperation now) vs (localIdSeed st) of
                None \<Rightarrow> st
              | Some (appended, seed1) \<Rightarrow>
                  let existing = (if visualMode st = Operations then filter (\<lambda>op. \<not> isOperationBlank op) (operations st) else []);
                      nextOps = existing @ appended in
                  st\<lparr>visualMode := Operations, operations := (if nextOps \<noteq> [] then nextOps else appended),
                    selectedOperationId := first_id nextOps, legacyValue := [], jsonError := False, editMode := Visual,
                    jsonText := [], localIdSeed := seed1\<rparr>)
         | Fill \<Rightarrow>
             (case read_operations now vs (localIdSeed st) of
                None \<Rightarrow> st
              | Some (finalOps, seed1) \<Rightarrow>
                  st\<lparr>visualMode := Operations, operations := finalOps, selectedOperationId := first_id finalOps,
                    jsonText := json_pretty (JObj [(js ''operations'', JArr vs)]), jsonError := False, editMode := Visual,
                    localIdSeed := seed1\<rparr>)))"

definition resetEditorState :: "(nat \<Rightarrow> nat) \<Rightarrow> Editor \<Rightarrow> Editor" where
  "resetEditorState now st =
     (let fallback = createDefaultOperation now (localIdSeed st) in
      st\<lparr>visualMode := Operations, legacyValue := [], operations := [fallback], selectedOperationId := op_id fallback,
        jsonText := [], jsonError := False, templatePresetKey := js ''operations_default'', editMode := Visual,
        localIdSeed := Suc (localIdSeed st)\<rparr>)"

definition handleJsonChange :: "jstr \<Rightarrow> Editor \<Rightarrow> Editor" where
  "handleJsonChange nextValue st =
     st\<lparr>jsonText := nextValue, jsonError := (trim nextValue \<noteq> [] \<and> \<not> verifyJSON (trim nextValue))\<rparr>"

definition formatJson :: "Editor \<Rightarrow> Editor" where
  "formatJson st =
     (let trimmed = trim (jsonText st) in
      if trimmed = [] then st
      else case json_parse trimmed of
        None \<Rightarrow> st
      | Some v \<Rightarrow> st\<lparr>jsonText := json_pretty v, jsonError := False\<rparr>)"

definition visualValidationError :: "Editor \<Rightarrow> bool" where
  "visualValidationError st \<longleftrightarrow> editMode st = Visual \<and> (\<exists>p. buildVisualJson st = Inl p)"

definition save_result :: "Editor \<Rightarrow> Problem + jstr" where
  "save_result st =
     (if editMode st = Json then
        (let trimmed = trim (jsonText st) in
         if trimmed = [] then Inr []
         else case json_parse trimmed of None \<Rightarrow> Inl InvalidJSON | Some v \<Rightarrow> Inr (json_pretty v))
      else buildVisualJson st)"

definition handleSave :: "Editor \<Rightarrow> Editor" where
  "handleSave st =
     (case save_result st of
        Inl _ \<Rightarrow> st
      | Inr result \<Rightarrow> st\<lparr>saved_values := saved_values st @ [result], editor_open := False\<rparr>)"

definition set_expanded :: "bool \<Rightarrow> Editor \<Rightarrow> Editor" where
  "set_expanded b st =
     (case find (\<lambda>op. op_id op = selectedOperationId st) (operations st) of
        None \<Rightarrow> st
      | Some op \<Rightarrow> st\<lparr>expandedConditions :=
          foldl (\<lambda>m c. map_set (cond_id c) b m) (expandedConditions st) (conditions op)\<rparr>)"

section \<open>Steps of the user\<close>

datatype Event =
    Opened jstr | Rendered nat | Dismissed
  | TypedLegacy jstr | TypedSearch jstr | Selected jstr | PickedTemplate jstr
  | Patched jstr OperationPatch | Added | Duplicated bool jstr | Removed jstr
  | ConditionAdded jstr | ConditionPatched jstr jstr ConditionPatch | ConditionRemoved jstr jstr
  | ErrorEdited jstr "ReturnErrorDraft \<Rightarrow> ReturnErrorDraft"
  | PruneEdited jstr "PruneObjectsDraft \<Rightarrow> nat \<Rightarrow> PruneObjectsDraft \<times> nat"
  | ValueFormatted jstr | Expanded bool
  | DragStarted jstr | DraggedOver jstr Position | Dropped jstr jstr | DragEnded
  | ToJson | ToVisual | Filled FillMode | ResetAll | TypedJson jstr | JsonFormatted | Saved

fun handle :: "(nat \<Rightarrow> nat) \<Rightarrow> Event \<Rightarrow> Editor \<Rightarrow> Editor option" where
  "handle now (Opened v) st = open_editor now v st"
| "handle now (Rendered n) st = Some (st\<lparr>localIdSeed := max n (localIdSeed st)\<rparr>)"
| "handle now Dismissed st = Some (st\<lparr>editor_open := False\<rparr>)"
| "handle now (TypedLegacy t) st = Some (st\<lparr>legacyValue := t\<rparr>)"
| "handle now (TypedSearch t) st = Some (st\<lparr>operationSearch := t\<rparr>)"
| "handle now (Selected i) st = Some (st\<lparr>selectedOperationId := i\<rparr>)"
| "handle now (PickedTemplate k) st = Some (st\<lparr>templatePresetKey := k\<rparr>)"
| "handle now (Patched i p) st = Some (updateOperation i p st)"
| "handle now Added st = Some (addOperation now st)"
| "handle now (Duplicated eager i) st = Some (duplicateOperation now eager i st)"
| "handle now (Removed i) st = Some (removeOperation now i st)"
| "handle now (ConditionAdded i) st = Some (addCondition now i st)"
| "handle now (ConditionPatched i c p) st = Some (updateCondition i c p st)"
| "handle now (ConditionRemoved i c) st = Some (removeCondition i c st)"
| "handle now (ErrorEdited i f) st = Some (updateReturnErrorDraft i f st)"
| "handle now (PruneEdited i f) st = Some (updatePruneObjectsDraft now i f st)"
| "handle now (ValueFormatted i) st = Some (formatValue i st)"
| "handle now (Expanded b) st = Some (set_expanded b st)"
| "handle now (DragStarted i) st = Some (handleDragStart i st)"
| "handle now (DraggedOver i p) st = Some (handleDragOver i p st)"
| "handle now (Dropped carried i) st = Some (handleDrop carried i st)"
| "handle now DragEnded st = Some (resetDragState st)"
| "handle now ToJson st = Some (switchToJsonMode st)"
| "handle now ToVisual st = Some (switchToVisualMode now st)"
| "handle now (Filled m) st = Some (fillTemplate now m st)"
| "handle now ResetAll st = Some (resetEditorState now st)"
| "handle now (TypedJson t) st = Some (handleJsonChange t st)"
| "handle now JsonFormatted st = Some (formatJson st)"
| "handle now Saved st = Some (handleSave st)"

fun offered :: "Event \<Rightarrow> bool" where
  "offered (Patched _ p) = patch_offered p"
| "offered (ConditionPatched _ _ p) = condition_patch_offered p"
| "offered _ = True"

inductive editor_step :: "(nat \<Rightarrow> nat) \<Rightarrow> Editor \<Rightarrow> Editor \<Rightarrow> bool" for now where
  handled: "offered e \<Longrightarrow> handle now e st = Some st' \<Longrightarrow> editor_step now st (keep_selection st')"

inductive_cases editor_stepE: "editor_step now st st'"

section \<open>Identities and modes stay in order\<close>

definition op_ids :: "ParamOverrideOperation \<Rightarrow> jstr list" where
  "op_ids op = op_id op # map cond_id (conditions op)"

definition all_ids :: "ParamOverrideOperation list \<Rightarrow> jstr list" where
  "all_ids ops = concat (map op_ids ops)"

definition ops_ok :: "(nat \<Rightarrow> nat) \<Rightarrow> nat \<Rightarrow> ParamOverrideOperation list \<Rightarrow> bool" where
  "ops_ok now seed ops \<longleftrightarrow>
     ops \<noteq> [] \<and> list_all operation_ok ops \<and> distinct (all_ids ops) \<and> set (all_ids ops) \<subseteq> nextLocalId now ` {..<seed}"

definition editor_ok :: "(nat \<Rightarrow> nat) \<Rightarrow> Editor \<Rightarrow> bool" where
  "editor_ok now st \<longleftrightarrow> ops_ok now (localIdSeed st) (operations st)"

lemma all_ids_simps [simp]: "all_ids [] = []" "all_ids (op # ops) = op_ids op @ all_ids ops" "all_ids (a @ b) = all_ids a @ all_ids b"
  by (simp_all add: all_ids_def)

lemma ops_ok_mono: "ops_ok now a ops \<Longrightarrow> a \<le> b \<Longrightarrow> ops_ok now b ops"
  by (fastforce simp: ops_ok_def)

lemma inj_ids: "inj_on (nextLocalId now) A"
  by (rule inj_onI) (rule nextLocalId_inject)

text \<open>Identities made from the counter on are new.\<close>

lemma fresh_ids:
  assumes "set xs \<subseteq> nextLocalId now ` {..<a}"
  shows "distinct (map (nextLocalId now) [a..<b])" "set xs \<inter> set (map (nextLocalId now) [a..<b]) = {}"
proof -
  show "distinct (map (nextLocalId now) [a..<b])" by (simp add: distinct_map inj_ids)
  show "set xs \<inter> set (map (nextLocalId now) [a..<b]) = {}" 
  proof (rule ccontr)
    assume "set xs \<inter> set (map (nextLocalId now) [a..<b]) \<noteq> {}"
    then obtain i where "nextLocalId now i \<in> set xs" "a \<le> i" by auto
    with assms obtain j where "nextLocalId now i = nextLocalId now j" "j < a" by auto
    with \<open>a \<le> i\<close> nextLocalId_inject show False by fastforce
  qed
qed

lemma known_mode_in: "fallback \<in> set modes \<Longrightarrow> known_mode modes fallback v \<in> set modes"
  by (auto simp: known_mode_def split: jsval.split)

lemma normalized_condition:
  "normalizeCondition now v seed = Some (c, s) \<Longrightarrow> s = Suc seed \<and> cond_id c = nextLocalId now seed \<and> condition_ok c"
proof -
  have "js ''full'' \<in> set CONDITION_MODE_VALUES" by (simp add: CONDITION_MODE_VALUES_def)
  then show "normalizeCondition now v seed = Some (c, s) \<Longrightarrow> s = Suc seed \<and> cond_id c = nextLocalId now seed \<and> condition_ok c"
    by (auto simp: normalizeCondition_def condition_ok_def known_mode_in split: if_splits)
qed

lemma counted_conditions:
  "map_counted (normalizeCondition now) vs seed = Some (cs, s) \<Longrightarrow>
   s = seed + length cs \<and> map cond_id cs = map (nextLocalId now) [seed..<s] \<and> list_all condition_ok cs"
proof (induction vs arbitrary: seed cs)
  case (Cons v vs)
  then obtain c cs2 where c: "cs = c # cs2" "normalizeCondition now v seed = Some (c, Suc seed)"
      "map_counted (normalizeCondition now) vs (Suc seed) = Some (cs2, s)"
    by (auto split: option.splits prod.splits dest: normalized_condition)
  from Cons.IH [OF c(3)] have i: "s = Suc seed + length cs2" "map cond_id cs2 = map (nextLocalId now) [Suc seed..<s]"
      "list_all condition_ok cs2" by simp_all
  then have "[seed..<s] = seed # [Suc seed..<s]" by (intro upt_conv_Cons) simp
  with i c(1) normalized_condition [OF c(2)] show ?case by (simp del: upt_Suc)
qed simp

lemma normalized_operation:
  assumes "normalizeOperation now v seed = Some (op, s)"
  shows "seed < s \<and> op_ids op = map (nextLocalId now) [seed..<s] \<and> operation_ok op"
proof -
  have set_in: "js ''set'' \<in> set OPERATION_MODE_VALUES" by (simp add: OPERATION_MODE_VALUES_def)
  from assms obtain l cs where l: "logic_of (get_prop (js ''logic'') v) = Some l"
      and cs: "(case get_prop (js ''conditions'') v of JArr cs \<Rightarrow> map_counted (normalizeCondition now) cs (Suc seed)
        | _ \<Rightarrow> Some ([], Suc seed)) = Some (cs, s)"
      and op: "op_id op = nextLocalId now seed" "conditions op = cs" "logic op = l"
        "mode op = known_mode OPERATION_MODE_VALUES (js ''set'') v"
    by (auto simp: normalizeOperation_def split: if_splits option.splits)
  from cs have c: "s = Suc seed + length cs \<and> map cond_id cs = map (nextLocalId now) [Suc seed..<s] \<and> list_all condition_ok cs"
    by (cases "get_prop (js ''conditions'') v") (auto dest!: counted_conditions)
  then have "[seed..<s] = seed # [Suc seed..<s]" by (intro upt_conv_Cons) simp
  moreover have "l \<in> {js ''AND'', js ''OR''}" using l by (auto simp: logic_of_def split: if_splits)
  ultimately show ?thesis
    using c op set_in by (simp add: op_ids_def operation_ok_def known_mode_in del: upt_Suc)
qed

lemma counted_operations:
  "map_counted (normalizeOperation now) vs seed = Some (ops, s) \<Longrightarrow>
   seed \<le> s \<and> length ops = length vs \<and> all_ids ops = map (nextLocalId now) [seed..<s] \<and> list_all operation_ok ops"
proof (induction vs arbitrary: seed ops)
  case (Cons v vs)
  then obtain op s1 ops2 where c: "ops = op # ops2" "normalizeOperation now v seed = Some (op, s1)"
      "map_counted (normalizeOperation now) vs s1 = Some (ops2, s)"
    by (auto split: option.splits prod.splits)
  note n = normalized_operation [OF c(2)] and i = Cons.IH [OF c(3)]
  then have "[seed..<s1] @ [s1..<s] = [seed..<s]" using upt_add_eq_append [of seed s1 "s - s1"] by simp
  then have "map (nextLocalId now) [seed..<s1] @ map (nextLocalId now) [s1..<s] = map (nextLocalId now) [seed..<s]"
    by (metis map_append)
  with n i c(1) show ?case by simp
qed simp

lemma default_ok [simp]: "operation_ok (createDefaultOperation now seed)" "op_ids (createDefaultOperation now seed) = [nextLocalId now seed]"
  by (simp_all add: createDefaultOperation_def operation_ok_def op_ids_def OPERATION_MODE_VALUES_def)

lemma fallback_ok: "ops_ok now (Suc seed) [createDefaultOperation now seed]"
  by (auto simp: ops_ok_def)

lemma read_operations_ok: "read_operations now vs seed = Some (ops, s) \<Longrightarrow> ops_ok now s ops"
  using fallback_ok [of now seed]
  by (auto simp: read_operations_def ops_ok_def distinct_map inj_ids split: if_splits dest!: counted_operations)

lemma parse_state_ok: "parseInitialState now t seed = Some (st, s) \<Longrightarrow> ops_ok now s (operations st)"
  using fallback_ok [of now seed] read_operations_ok
  by (auto simp: parseInitialState_def Let_def split: if_splits option.splits jsval.splits)

lemma at_operation_ok:
  assumes "ops_ok now seed ops" "\<And>op. op \<in> set ops \<Longrightarrow> operation_ok op \<Longrightarrow> operation_ok (f op)"
    "\<And>op. op \<in> set ops \<Longrightarrow> op_ids (f op) = op_ids op"
  shows "ops_ok now seed (at_operation i f ops)"
proof -
  have "all_ids (at_operation i f ops) = all_ids ops"
  proof -
    have "map op_ids (at_operation i f ops) = map op_ids ops" unfolding at_operation_def using assms(3) by simp
    then show ?thesis unfolding all_ids_def by (rule arg_cong)
  qed
  moreover have "list_all operation_ok (at_operation i f ops)"
    using assms(1,2) by (auto simp: ops_ok_def list_all_iff at_operation_def)
  ultimately show ?thesis using assms(1) by (simp add: ops_ok_def) (simp add: at_operation_def)
qed

lemma filter_ops_ok:
  assumes "ops_ok now seed ops" "filter P ops \<noteq> []"
  shows "ops_ok now seed (filter P ops)"
proof -
  have sub: "set (all_ids (filter P xs)) \<subseteq> set (all_ids xs)" for xs by (auto simp: all_ids_def)
  have "distinct (all_ids xs) \<Longrightarrow> distinct (all_ids (filter P xs))" for xs
  proof (induction xs)
    case (Cons op xs)
    with sub [of xs] show ?case by (cases "P op") auto
  qed simp
  with assms sub [of ops] show ?thesis by (auto simp: ops_ok_def list_all_iff)
qed

lemma add_ops_ok:
  assumes "set (all_ids ops) \<subseteq> nextLocalId now ` {..<a}" "distinct (all_ids ops)" "list_all operation_ok ops"
    "mset new = mset ops + mset xs" "xs \<noteq> []" "all_ids xs = map (nextLocalId now) [a..<b]" "list_all operation_ok xs" "a \<le> b"
  shows "ops_ok now b new"
proof -
  have "mset (all_ids xs) = (\<Sum>op\<in>#mset xs. mset (op_ids op))" for xs by (induction xs) auto
  with assms(4) have m: "mset (all_ids new) = mset (all_ids ops @ all_ids xs)" by simp
  note f = fresh_ids [OF assms(1), of b]
  have "distinct (all_ids ops @ all_ids xs)" using f assms(2,6) by simp
  then have "distinct (all_ids new)" using m mset_eq_imp_distinct_iff by blast
  moreover have "set (all_ids new) = set (all_ids ops) \<union> set (all_ids xs)" using mset_eq_setD [OF m] by simp
  then have "set (all_ids new) \<subseteq> nextLocalId now ` {..<b}" using assms(1,6,8) by auto
  moreover have "set new = set ops \<union> set xs" using arg_cong [OF assms(4), of set_mset] by simp
  ultimately show ?thesis using assms(3,5,7) by (auto simp: ops_ok_def list_all_iff)
qed

lemma position_of_Some:
  assumes "position_of P xs = Some i"
  obtains a x b where "xs = a @ x # b" "length a = i" "P x" "\<forall>y\<in>set a. \<not> P y"
proof -
  let ?a = "takeWhile (\<lambda>x. \<not> P x) xs"
  from assms have i: "i = length ?a" "length ?a < length xs" by (simp_all add: position_of_def Let_def split: if_splits)
  have "xs = ?a @ dropWhile (\<lambda>x. \<not> P x) xs" by simp
  moreover from i(2) obtain x b where d: "dropWhile (\<lambda>x. \<not> P x) xs = x # b"
    by (metis append_Nil2 less_irrefl neq_Nil_conv takeWhile_dropWhile_id)
  moreover have "P x" using hd_dropWhile [of "\<lambda>x. \<not> P x" xs] d by simp
  ultimately show thesis using i(1) by (intro that [of ?a x b]) (auto dest: set_takeWhileD)
qed

lemma position_of_None: "position_of P xs = None \<longleftrightarrow> (\<forall>x\<in>set xs. \<not> P x)"
proof -
  have "length (takeWhile Q xs) < length xs \<longleftrightarrow> \<not> (\<forall>x\<in>set xs. Q x)" for Q
    using takeWhile_eq_all_conv [of Q xs] length_takeWhile_le [of Q xs]
    by (metis le_neq_implies_less nat_less_le takeWhile_eq_take take_all_iff)
  then show ?thesis by (simp add: position_of_def Let_def)
qed

lemma moved_parts:
  assumes "sourceId \<noteq> []" "targetId \<noteq> []" "sourceId \<noteq> targetId"
    "position_of (\<lambda>o'. op_id o' = sourceId) ops = Some k" "targetId \<in> op_id ` set ops"
  obtains moved rest a target b where
    "mset ops = add_mset moved (mset rest)" "op_id moved = sourceId" "rest = a @ target # b" "op_id target = targetId"
    "\<forall>y\<in>set a. op_id y \<noteq> targetId" "moved \<in> set ops"
    "reorderOperations ops sourceId targetId position = a @ (if position = After then [target, moved] else [moved, target]) @ b"
    "filter (\<lambda>op. op_id op \<noteq> sourceId) ops = filter (\<lambda>op. op_id op \<noteq> sourceId) rest"
proof -
  obtain c moved d where o1: "ops = c @ moved # d" "length c = k" "op_id moved = sourceId"
    by (rule position_of_Some [OF assms(4)])
  let ?rest = "c @ d"
  have "targetId \<in> op_id ` set ?rest" using assms(3,5) o1(1,3) by auto
  then obtain i where i: "position_of (\<lambda>o'. op_id o' = targetId) ?rest = Some i"
    by (cases "position_of (\<lambda>o'. op_id o' = targetId) ?rest") (auto simp: position_of_None)
  obtain a target b where r: "?rest = a @ target # b" "length a = i" "op_id target = targetId" "\<forall>y\<in>set a. op_id y \<noteq> targetId"
    by (rule position_of_Some [OF i])
  have rest: "take k ops @ drop (Suc k) ops = ?rest" "ops ! k = moved" using o1(1,2) by auto
  have "reorderOperations ops sourceId targetId position = insert_at (if position = After then Suc i else i) moved ?rest"
    using assms(1-4) i by (simp add: reorderOperations_def Let_def rest)
  also have "\<dots> = a @ (if position = After then [target, moved] else [moved, target]) @ b"
    unfolding r(1) using r(2) by (auto simp: insert_at_def)
  finally have re: "reorderOperations ops sourceId targetId position =
      a @ (if position = After then [target, moved] else [moved, target]) @ b" .
  have "mset ops = add_mset moved (mset ?rest)" "moved \<in> set ops"
    "filter (\<lambda>op. op_id op \<noteq> sourceId) ops = filter (\<lambda>op. op_id op \<noteq> sourceId) ?rest"
    using o1(1,3) by simp_all
  with o1(3) r(1,3,4) re show thesis by (intro that)
qed

lemma reorder_mset: "mset (reorderOperations ops s t position) = mset ops"
proof (cases "s = [] \<or> t = [] \<or> s = t \<or> s \<notin> op_id ` set ops")
  case True
  then have "position_of (\<lambda>o'. op_id o' = s) ops = None" if "s \<notin> op_id ` set ops"
    using that by (auto simp: position_of_None)
  with True show ?thesis by (auto simp: reorderOperations_def)
next
  case False
  then obtain k where k: "position_of (\<lambda>o'. op_id o' = s) ops = Some k"
    by (cases "position_of (\<lambda>o'. op_id o' = s) ops") (auto simp: position_of_None)
  show ?thesis
  proof (cases "t \<in> op_id ` set ops")
    case True
    from False have ne: "s \<noteq> []" "t \<noteq> []" "s \<noteq> t" by auto
    show ?thesis by (rule moved_parts [OF ne k True, of position]) (auto split: if_splits)
  next
    case no: False
    have "set (take k ops @ drop (Suc k) ops) \<subseteq> set ops" by (auto dest: in_set_takeD in_set_dropD)
    with no have "position_of (\<lambda>o'. op_id o' = t) (take k ops @ drop (Suc k) ops) = None" by (auto simp: position_of_None)
    with k False show ?thesis by (simp add: reorderOperations_def Let_def)
  qed
qed

text \<open>
  Dropping an operation on another one moves that operation and no other: it ends directly before
  or after the one it was dropped on, and the rest keep their order.
\<close>

theorem drop_moves_one:
  assumes "distinct (map op_id ops)" "source \<in> set ops" "target \<in> set ops" "op_id source \<noteq> op_id target"
    and "op_id source \<noteq> []" "op_id target \<noteq> []"
  shows "(\<exists>a b. reorderOperations ops (op_id source) (op_id target) position =
      a @ (if position = After then [target, source] else [source, target]) @ b) \<and>
    filter (\<lambda>op. op \<noteq> source) (reorderOperations ops (op_id source) (op_id target) position) =
    filter (\<lambda>op. op \<noteq> source) ops"
proof -
  have inj: "x = y" if "x \<in> set ops" "y \<in> set ops" "op_id x = op_id y" for x y
    using assms(1) that by (auto simp: distinct_map dest: inj_onD)
  obtain k where k: "position_of (\<lambda>o'. op_id o' = op_id source) ops = Some k"
    using assms(2) by (cases "position_of (\<lambda>o'. op_id o' = op_id source) ops") (auto simp: position_of_None)
  have t: "op_id target \<in> op_id ` set ops" using assms(3) by simp
  obtain moved rest a tgt b where m: "mset ops = add_mset moved (mset rest)" "op_id moved = op_id source"
    "rest = a @ tgt # b" "op_id tgt = op_id target" "moved \<in> set ops"
    "reorderOperations ops (op_id source) (op_id target) position = a @ (if position = After then [tgt, moved] else [moved, tgt]) @ b"
    "filter (\<lambda>op. op_id op \<noteq> op_id source) ops = filter (\<lambda>op. op_id op \<noteq> op_id source) rest"
    by (rule moved_parts [OF assms(5,6,4) k t, of position])
  have "set ops = insert moved (set rest)" using arg_cong [OF m(1), of set_mset] by simp
  then have "tgt \<in> set ops" using m(3) by auto
  with m inj assms(2,3) have e: "moved = source" "tgt = target" by auto
  have f: "filter (\<lambda>op. op \<noteq> source) xs = filter (\<lambda>op. op_id op \<noteq> op_id source) xs" if "set xs \<subseteq> set ops" for xs
    using that inj assms(2) by (intro filter_cong) auto
  have "set (reorderOperations ops (op_id source) (op_id target) position) = set ops"
    using arg_cong [OF reorder_mset, of set_mset] by auto
  then have "filter (\<lambda>op. op \<noteq> source) (reorderOperations ops (op_id source) (op_id target) position) =
      filter (\<lambda>op. op_id op \<noteq> op_id source) rest"
    unfolding m(6) m(3) using e by (subst f) (auto simp: m(2))
  then show ?thesis using m(6,7) e f [of ops] by auto
qed

lemma ops_ok_one: "ops_ok now (Suc seed) [createDefaultOperation now seed]"
  by (rule fallback_ok)

lemma add_one_ok:
  assumes "ops_ok now seed ops" "mset new = add_mset op (mset ops)" "normalizeOperation now v seed = Some (op, s)"
  shows "ops_ok now s new"
  using assms normalized_operation [OF assms(3)]
  by (intro add_ops_ok [of ops now seed new "[op]" s]) (auto simp: ops_ok_def)

lemma create_is_normalize: "\<exists>v. normalizeOperation now v seed = Some (createDefaultOperation now seed, Suc seed)"
  using default_operation by blast

named_theorems editor_keeps "handlers that keep the invariant"

lemma add_operation_ok [editor_keeps]: "editor_ok now st \<Longrightarrow> editor_ok now (addOperation now st)"
proof -
  assume "editor_ok now st"
  moreover obtain v where "normalizeOperation now v (localIdSeed st) = Some (createDefaultOperation now (localIdSeed st), Suc (localIdSeed st))"
    using create_is_normalize by blast
  ultimately show ?thesis
    by (auto simp: editor_ok_def addOperation_def Let_def intro: add_one_ok)
qed

lemma mset_insert_at: "mset (insert_at i x xs) = add_mset x (mset xs)"
proof -
  have "mset (take i xs) + mset (drop i xs) = mset xs" by (metis append_take_drop_id mset_append)
  then show ?thesis by (simp add: insert_at_def)
qed

lemma duplicate_ok [editor_keeps]: "editor_ok now st \<Longrightarrow> editor_ok now (duplicateOperation now eager i st)"
  unfolding editor_ok_def duplicateOperation_def
  by (simp split: option.split prod.split) (blast intro: add_one_ok mset_insert_at)

lemma remove_ok [editor_keeps]: "editor_ok now st \<Longrightarrow> editor_ok now (removeOperation now i st)"
proof (cases "length (operations st) \<le> 1")
  case True
  then show ?thesis by (simp add: editor_ok_def removeOperation_def ops_ok_one)
next
  case False
  assume ok: "editor_ok now st"
  have "filter (\<lambda>op. op_id op \<noteq> i) (operations st) \<noteq> []"
  proof
    assume "filter (\<lambda>op. op_id op \<noteq> i) (operations st) = []"
    then have "\<forall>op\<in>set (operations st). op_id op = i" by (simp add: filter_empty_conv)
    moreover obtain a b r where "operations st = a # b # r" using False by (cases "operations st"; cases "tl (operations st)") auto
    ultimately show False using ok by (auto simp: editor_ok_def ops_ok_def op_ids_def)
  qed
  with ok False show ?thesis by (simp add: editor_ok_def removeOperation_def filter_ops_ok)
qed

lemma patch_ok [editor_keeps]: "editor_ok now st \<Longrightarrow> patch_offered p \<Longrightarrow> editor_ok now (updateOperation i p st)"
  by (cases p) (auto simp: editor_ok_def updateOperation_def operation_ok_def op_ids_def intro!: at_operation_ok)

lemma all_ids_sub:
  assumes "\<And>op. set (op_ids (g op)) \<subseteq> A \<union> set (op_ids op)"
  shows "set (all_ids (map g ops)) \<subseteq> A \<union> set (all_ids ops)"
proof (induction ops)
  case (Cons op ops)
  with assms [of op] show ?case by auto
qed simp

lemma add_condition_ok [editor_keeps]:
  assumes "editor_ok now st"
  shows "editor_ok now (addCondition now i st)"
proof -
  let ?seed = "localIdSeed st" and ?ops = "operations st"
  let ?c = "createDefaultCondition now ?seed"
  let ?f = "\<lambda>op. op\<lparr>conditions := conditions op @ [?c]\<rparr>"
  from assms have ok: "ops_ok now ?seed ?ops" by (simp add: editor_ok_def)
  have new: "cond_id ?c = nextLocalId now ?seed" "condition_ok ?c"
    by (simp_all add: createDefaultCondition_def condition_ok_def CONDITION_MODE_VALUES_def)
  have fresh: "nextLocalId now ?seed \<notin> set (all_ids ?ops)"
    using fresh_ids(2) [of "all_ids ?ops" now ?seed "Suc ?seed"] ok by (auto simp: ops_ok_def)
  have "set (op_ids (if op_id op = i then ?f op else op)) \<subseteq> {nextLocalId now ?seed} \<union> set (op_ids op)" for op
    using new(1) by (auto simp: op_ids_def)
  then have sub: "set (all_ids (at_operation i ?f ops)) \<subseteq> insert (nextLocalId now ?seed) (set (all_ids ops))" for ops
    using all_ids_sub [of "\<lambda>op. if op_id op = i then ?f op else op" "{nextLocalId now ?seed}" ops] by (simp add: at_operation_def)
  have "distinct (all_ids ops) \<Longrightarrow> distinct (map op_id ops) \<Longrightarrow> nextLocalId now ?seed \<notin> set (all_ids ops) \<Longrightarrow>
      distinct (all_ids (at_operation i ?f ops))" for ops
  proof (induction ops)
    case (Cons op ops)
    have r: "set (all_ids (at_operation i ?f ops)) \<subseteq> set (all_ids ops)" if "op_id op = i"
    proof -
      from Cons.prems(2) that have "at_operation i ?f ops = ops" unfolding at_operation_def by (intro map_idI) (auto, metis imageI)
      then show ?thesis by simp
    qed
    have h: "set (op_ids (if op_id op = i then ?f op else op)) \<subseteq> insert (nextLocalId now ?seed) (set (op_ids op))"
      "distinct (op_ids (if op_id op = i then ?f op else op))"
      using Cons.prems new by (auto simp: op_ids_def)
    have e: "all_ids (at_operation i ?f (op # ops)) = op_ids (if op_id op = i then ?f op else op) @ all_ids (at_operation i ?f ops)"
      by (simp add: at_operation_def)
    show ?case
    proof (cases "op_id op = i")
      case True
      with Cons h r e show ?thesis by (auto simp: subset_iff)
    next
      case False
      with Cons sub [of ops] e show ?thesis by (auto simp: subset_iff)
    qed
  qed (simp add: at_operation_def)
  moreover have "distinct (map op_id ?ops)"
  proof -
    have "distinct (all_ids ops) \<Longrightarrow> distinct (map op_id ops)" for ops
      by (induction ops) (auto simp: op_ids_def all_ids_def)
    with ok show ?thesis by (simp add: ops_ok_def)
  qed
  ultimately have "distinct (all_ids (at_operation i ?f ?ops))" using ok fresh by (simp add: ops_ok_def)
  moreover have "list_all operation_ok (at_operation i ?f ?ops)"
    using ok new(2) by (auto simp: ops_ok_def list_all_iff at_operation_def operation_ok_def)
  moreover have "set (all_ids (at_operation i ?f ?ops)) \<subseteq> nextLocalId now ` {..<Suc ?seed}"
    using sub [of ?ops] ok by (fastforce simp: ops_ok_def)
  ultimately show ?thesis using ok by (simp add: editor_ok_def addCondition_def Let_def ops_ok_def) (simp add: at_operation_def)
qed

lemma condition_edit_ids: "op_ids (op\<lparr>conditions := map (\<lambda>c. if cond_id c = j then patch_condition p c else c) (conditions op)\<rparr>) = op_ids op"
  by (cases p) (simp_all add: op_ids_def)

lemma update_condition_ok [editor_keeps]:
  "editor_ok now st \<Longrightarrow> condition_patch_offered p \<Longrightarrow> editor_ok now (updateCondition i j p st)"
  unfolding editor_ok_def updateCondition_def
  by (cases p) (auto simp: condition_edit_ids operation_ok_def condition_ok_def list_all_iff intro!: at_operation_ok)

lemma remove_condition_ok [editor_keeps]:
  assumes "editor_ok now st"
  shows "editor_ok now (removeCondition i j st)"
proof -
  let ?f = "\<lambda>op. if op_id op = i then op\<lparr>conditions := filter (\<lambda>c. cond_id c \<noteq> j) (conditions op)\<rparr> else op"
  have "set (op_ids (?f op)) \<subseteq> {} \<union> set (op_ids op)" for op by (auto simp: op_ids_def)
  then have sub: "set (all_ids (map ?f ops)) \<subseteq> set (all_ids ops)" for ops using all_ids_sub [of ?f "{}" ops] by simp
  have "distinct (all_ids (map ?f ops))" if "distinct (all_ids ops)" for ops
    using that
  proof (induction ops)
    case (Cons op ops)
    have "set (op_ids (?f op)) \<subseteq> set (op_ids op)" "distinct (op_ids (?f op))"
      using Cons.prems by (auto simp: op_ids_def distinct_map_filter)
    with Cons sub [of ops] show ?case by (auto simp: subset_iff simp del: if_split split del: if_split)
  qed simp
  moreover have "list_all operation_ok (map ?f ops)" if "list_all operation_ok ops" for ops
    using that by (auto simp: list_all_iff operation_ok_def)
  ultimately show ?thesis
    using assms sub [of "operations st"] by (auto simp: editor_ok_def removeCondition_def at_operation_def ops_ok_def)
qed

lemma value_edit_ok:
  assumes "ops_ok now seed ops" "\<And>op. \<exists>t. f op = op\<lparr>value_text := t\<rparr>"
  shows "ops_ok now seed (at_operation i f ops)"
proof (rule at_operation_ok [OF assms(1)])
  fix op
  obtain t where "f op = op\<lparr>value_text := t\<rparr>" using assms(2) by blast
  then show "operation_ok op \<Longrightarrow> operation_ok (f op)" "op_ids (f op) = op_ids op"
    by (simp_all add: operation_ok_def op_ids_def)
qed

lemma error_edit_ok [editor_keeps]: "editor_ok now st \<Longrightarrow> editor_ok now (updateReturnErrorDraft i f st)"
  by (auto simp: editor_ok_def updateReturnErrorDraft_def intro!: value_edit_ok)

lemma format_value_ok [editor_keeps]: "editor_ok now st \<Longrightarrow> editor_ok now (formatValue i st)"
proof -
  have "\<exists>t. (case json_parse (value_text op) of None \<Rightarrow> op | Some v \<Rightarrow> op\<lparr>value_text := json_pretty v\<rparr>) = op\<lparr>value_text := t\<rparr>" for op
    by (cases "json_parse (value_text op)") (auto intro: exI [of _ "value_text op"])
  then show "editor_ok now st \<Longrightarrow> editor_ok now (formatValue i st)"
    unfolding editor_ok_def formatValue_def by simp (rule value_edit_ok)
qed

lemma prune_edit_ok [editor_keeps]:
  assumes "editor_ok now st"
  shows "editor_ok now (updatePruneObjectsDraft now i f st)"
proof (cases "position_of (\<lambda>op. op_id op = i) (operations st)")
  case None
  with assms show ?thesis by (simp add: updatePruneObjectsDraft_def)
next
  case (Some k)
  let ?ops = "operations st"
  obtain t s where e: "edit_prune now f (value_text (?ops ! k)) (localIdSeed st) = (t, s)" by force
  have k: "k < length ?ops" using Some by (simp add: position_of_def Let_def split: if_splits)
  have "map op_ids (?ops[k := (?ops ! k)\<lparr>value_text := t\<rparr>]) = map op_ids ?ops"
    using k by (simp add: map_update op_ids_def) (metis (no_types) list_update_id map_update op_ids_def)
  then have "all_ids (?ops[k := (?ops ! k)\<lparr>value_text := t\<rparr>]) = all_ids ?ops" by (simp only: all_ids_def)
  moreover have "list_all operation_ok (?ops[k := (?ops ! k)\<lparr>value_text := t\<rparr>])"
  proof -
    have "list_all operation_ok ?ops" using assms by (simp add: editor_ok_def ops_ok_def)
    moreover from this k have "operation_ok ((?ops ! k)\<lparr>value_text := t\<rparr>)" by (simp add: list_all_length operation_ok_def)
    ultimately show ?thesis by (auto simp: list_all_iff dest!: set_update_subset_insert [THEN subsetD])
  qed
  ultimately have "ops_ok now (localIdSeed st) (?ops[k := (?ops ! k)\<lparr>value_text := t\<rparr>])"
    using assms by (simp add: editor_ok_def ops_ok_def)
  then show ?thesis
    by (auto simp: editor_ok_def updatePruneObjectsDraft_def Some Let_def e intro: ops_ok_mono)
qed

lemma drop_ok [editor_keeps]: "editor_ok now st \<Longrightarrow> editor_ok now (handleDrop carried i st)"
proof -
  assume ok: "editor_ok now st"
  have "ops_ok now (localIdSeed st) (reorderOperations (operations st) a b p)" for a b p
  proof -
    let ?new = "reorderOperations (operations st) a b p"
    have m: "mset ?new = mset (operations st)" by (rule reorder_mset)
    have "mset (all_ids xs) = (\<Sum>op\<in>#mset xs. mset (op_ids op))" for xs by (induction xs) auto
    then have i: "mset (all_ids ?new) = mset (all_ids (operations st))" using m by simp
    have "set ?new = set (operations st)" using mset_eq_setD [OF m] .
    with ok mset_eq_setD [OF i] mset_eq_imp_distinct_iff [OF i] show ?thesis
      by (auto simp: editor_ok_def ops_ok_def list_all_iff)
  qed
  with ok show ?thesis by (simp add: editor_ok_def handleDrop_def Let_def resetDragState_def)
qed

lemma to_visual_ok [editor_keeps]: "editor_ok now st \<Longrightarrow> editor_ok now (switchToVisualMode now st)"
  by (auto simp: editor_ok_def switchToVisualMode_def Let_def ops_ok_one read_operations_ok split: option.split jsval.split)

lemma to_json_ok [editor_keeps]: "editor_ok now st \<Longrightarrow> editor_ok now (switchToJsonMode st)"
  by (auto simp: editor_ok_def switchToJsonMode_def split: sum.split)

lemma fill_legacy_ok: "editor_ok now (fill_legacy now t st)"
  by (simp add: editor_ok_def fill_legacy_def ops_ok_one)

lemma preset_operations: "fst (preset_of k) = Operations \<Longrightarrow> \<exists>v vs. get_prop (js ''operations'') (snd (preset_of k)) = JArr (v # vs)"
  by (auto simp: preset_of_def TEMPLATE_PRESET_CONFIG_def OPERATION_TEMPLATE_def HEADER_PASSTHROUGH_TEMPLATE_def
      GEMINI_IMAGE_4K_TEMPLATE_def buildPassHeadersTemplate_def AWS_BEDROCK_ANTHROPIC_COMPAT_TEMPLATE_def obj_def obj_get_def
      split: if_splits)

lemma fill_template_ok [editor_keeps]:
  assumes "editor_ok now st"
  shows "editor_ok now (fillTemplate now m st)"
proof -
  obtain kind payload where p: "preset_of (templatePresetKey st) = (kind, payload)" by force
  show ?thesis
  proof (cases "kind = Legacy")
    case True
    with p assms show ?thesis by (auto simp: fillTemplate_def Let_def fill_legacy_ok split: option.split)
  next
    case False
    then have "kind = Operations" by (cases kind) auto
    then obtain v vs where vs: "get_prop (js ''operations'') payload = JArr (v # vs)"
      using preset_operations [of "templatePresetKey st"] p by auto
    have ap: "ops_ok now s (existing @ appended)"
      if "map_counted (normalizeOperation now) (v # vs) (localIdSeed st) = Some (appended, s)"
        "existing = [] \<or> existing = filter (\<lambda>op. \<not> isOperationBlank op) (operations st)" for appended s existing
    proof -
      note c = counted_operations [OF that(1)]
      have "ops_ok now s appended" using c by (auto simp: ops_ok_def distinct_map inj_ids)
      moreover have "ops_ok now s (existing @ appended)" if "existing \<noteq> []"
      proof -
        have "ops_ok now (localIdSeed st) existing"
          using that \<open>existing = [] \<or> existing = filter (\<lambda>op. \<not> isOperationBlank op) (operations st)\<close> assms
          by (auto simp: editor_ok_def intro: filter_ops_ok)
        with c show ?thesis
          by (intro add_ops_ok [of existing now "localIdSeed st" _ appended s]) (auto simp: ops_ok_def)
      qed
      ultimately show ?thesis by (cases "existing = []") auto
    qed
    show ?thesis
    proof (cases m)
      case Fill
      with p False vs assms read_operations_ok show ?thesis
        by (auto simp: fillTemplate_def editor_ok_def Let_def simp del: map_counted.simps split: option.split)
    next
      case Append
      show ?thesis
      proof (cases "map_counted (normalizeOperation now) (v # vs) (localIdSeed st)")
        case None
        with p False vs assms Append show ?thesis by (simp add: fillTemplate_def Let_def del: map_counted.simps)
      next
        case (Some r)
        obtain appended s where r: "r = (appended, s)" by force
        let ?existing = "if visualMode st = Operations then filter (\<lambda>op. \<not> isOperationBlank op) (operations st) else []"
        have "ops_ok now s (?existing @ appended)" using ap Some unfolding r by simp
        moreover from this have "?existing @ appended \<noteq> []" by (simp only: ops_ok_def simp_thms)
        ultimately show ?thesis
          using p False vs Append Some unfolding r
          by (simp add: fillTemplate_def Let_def editor_ok_def del: map_counted.simps append_is_Nil_conv)
      qed
    qed
  qed
qed

lemma handled_ok:
  assumes "editor_ok now st" "offered e" "handle now e st = Some st'"
  shows "editor_ok now st'"
  using assms
proof (cases e)
  case (Opened v)
  with assms show ?thesis by (auto simp: editor_ok_def open_editor_def dest: parse_state_ok)
next
  case (Rendered n)
  with assms show ?thesis by (auto simp: editor_ok_def intro: ops_ok_mono)
qed (auto simp: editor_ok_def resetEditorState_def Let_def ops_ok_one handleJsonChange_def formatJson_def handleSave_def
    set_expanded_def handleDragStart_def handleDragOver_def resetDragState_def
    editor_keeps [unfolded editor_ok_def] split: option.splits sum.splits)

lemma reachable_ok:
  assumes "(editor_step now)\<^sup>*\<^sup>* (keep_selection (initial_editor now)) st"
  shows "editor_ok now st \<and> selectedOperationId st \<in> op_id ` set (operations st)"
proof -
  have keep: "editor_ok now (keep_selection x) = editor_ok now x" for x by (simp add: editor_ok_def keep_selection_def)
  have sel: "selectedOperationId (keep_selection x) \<in> op_id ` set (operations (keep_selection x))" if "editor_ok now x" for x
    using that by (cases "operations x") (auto simp: keep_selection_def first_id_def editor_ok_def ops_ok_def)
  from assms show ?thesis
  proof (induction rule: rtranclp_induct)
    case base
    have "editor_ok now (initial_editor now)" using fallback_ok [of now 0] by (simp add: editor_ok_def initial_editor_def)
    with keep sel show ?case by blast
  next
    case (step y z)
    from step(2) obtain e y' where "offered e" "handle now e y = Some y'" "z = keep_selection y'" by (rule editor_stepE)
    with step handled_ok keep sel show ?case by blast
  qed
qed

text \<open>
  C16. Whatever the user does, the editor has an operation, a valid selection, operations whose modes and
  logic the server knows, and no identity twice among its operations and conditions.
\<close>

theorem editor_consistent:
  assumes "(editor_step now)\<^sup>*\<^sup>* (keep_selection (initial_editor now)) st"
  shows "operations st \<noteq> [] \<and> selectedOperationId st \<in> op_id ` set (operations st) \<and>
    list_all operation_ok (operations st) \<and> distinct (all_ids (operations st))"
  using reachable_ok [OF assms] by (auto simp: editor_ok_def ops_ok_def)

lemma editor_consistent_witness:
  "\<exists>st. (editor_step (\<lambda>_. 0))\<^sup>*\<^sup>* (keep_selection (initial_editor (\<lambda>_. 0))) st \<and> length (operations st) = 2 \<and>
    distinct (all_ids (operations st))"
proof -
  let ?s = "keep_selection (initial_editor (\<lambda>_. 0))" and ?t = "keep_selection (addOperation (\<lambda>_. 0) (keep_selection (initial_editor (\<lambda>_. 0))))"
  have "editor_step (\<lambda>_. 0) ?s ?t" by (rule editor_step.handled [where e = Added]) simp_all
  then have r: "(editor_step (\<lambda>_. 0))\<^sup>*\<^sup>* ?s ?t" by (rule r_into_rtranclp)
  moreover have "length (operations ?t) = 2" by (simp add: keep_selection_def addOperation_def Let_def initial_editor_def)
  ultimately show ?thesis using editor_consistent [OF r] by blast
qed

section \<open>Saving and switching\<close>

text \<open>
  What the visual editor saves passes the check of the channel form, which wants an empty text or
  a JSON object.
\<close>

theorem visual_save_accepted:
  assumes "editMode st = Visual" "list_all printable (operations st)"
    and "case json_parse (trim (legacyValue st)) of None \<Rightarrow> True | Some v \<Rightarrow> json_ok v"
    and "save_result st = Inr t"
  shows "isOptionalJsonObject (Some t)"
proof -
  have "t = [] \<or> (\<exists>ps. json_parse t = Some (JObj ps))"
  proof (cases "visualMode st")
    case Operations
    with assms saved_value [OF assms(2), of True t] show ?thesis
      by (auto simp: save_result_def buildVisualJson_def operations_value_def)
  next
    case Legacy
    with assms show ?thesis
      by (auto simp: save_result_def buildVisualJson_def Let_def pretty_roundtrip simp del: json_ok.simps split: if_splits option.splits jsval.splits)
  qed
  then show ?thesis
    using json_parse_blank [of t]
    by (auto simp: isOptionalJsonObject_def parseOptionalJson_def isJsonObjectValue_def)
qed

lemma visual_save_accepted_witness:
  "isOptionalJsonObject (Some (json_pretty (set_user (JBool True))))"
proof (rule visual_save_accepted)
  let ?st = "(initial_editor (\<lambda>_. 0))\<lparr>operations := [sample_op]\<rparr>"
  show "editMode ?st = Visual" "list_all printable (operations ?st)"
    "case json_parse (trim (legacyValue ?st)) of None \<Rightarrow> True | Some v \<Rightarrow> json_ok v"
    using sample_saved(2) by (simp_all add: initial_editor_def)
  show "save_result ?st = Inr (json_pretty (set_user (JBool True)))"
    using sample_saved(4) by (simp add: save_result_def buildVisualJson_def initial_editor_def)
qed

text \<open>
  The check of the visual editor is missing when the text itself is edited: an array is saved there, and
  the channel form then refuses the channel.
\<close>

lemma json_save_refused:
  "\<exists>t. save_result ((initial_editor now)\<lparr>editMode := Json, jsonText := js ''[]''\<rparr>) = Inr t \<and> \<not> isOptionalJsonObject (Some t)"
proof -
  have p: "json_parse (js ''[]'') = Some (JArr [])" using json_roundtrip [of "JArr []"] by (simp add: js_def)
  have t: "trim (js ''[]'') = js ''[]''" by (intro trim_id) (simp add: trimmed_def js_def is_ws_def)
  have "json_pretty (JArr []) = js ''[]''" by (simp add: json_pretty_def pretty_list_def js_def)
  with p t show ?thesis
    by (intro exI [of _ "js ''[]''"])
      (simp add: save_result_def Let_def isOptionalJsonObject_def parseOptionalJson_def isJsonObjectValue_def)
qed

text \<open>
  Going to the text and back keeps the operations: when the visual editor accepts them, they come
  back as they would from a saved text, and the editor is in the same mode.
\<close>

theorem mode_switch_roundtrip:
  assumes "editor_ok now st" "editMode st = Visual" "visualMode st = Operations" "list_all printable (operations st)"
    and "save_result st = Inr t" "t \<noteq> []"
  shows "jsonText (switchToJsonMode st) = t \<and> editMode (switchToJsonMode st) = Json \<and>
    (let st' = switchToVisualMode now (switchToJsonMode st) in
     editMode st' = Visual \<and> visualMode st' = Operations \<and> read_back (operations st) (operations st') \<and> editor_ok now st')"
proof -
  let ?ops = "filter (\<lambda>op. \<not> isOperationBlank op) (operations st)"
  have b: "buildOperationsJson (operations st) True = Inr t" "buildVisualJson st = Inr t"
    using assms(2,3,5) by (simp_all add: save_result_def buildVisualJson_def)
  note s = saved_value [OF assms(4) b(1) assms(6)]
  have j: "switchToJsonMode st = st\<lparr>jsonText := t, jsonError := False, editMode := Json\<rparr>"
    using assms(2) b(2) by (simp add: switchToJsonMode_def)
  have "list_all operation_ok ?ops" using assms(1) by (auto simp: editor_ok_def ops_ok_def list_all_iff)
  then obtain xs seed1 where xs: "map_counted (normalizeOperation now) (map build_operation ?ops) (localIdSeed st) = Some (xs, seed1)"
      "map bare xs = map reread ?ops"
    using read_operations_all by blast
  from s(3) xs(1) have ro: "read_operations now (map build_operation ?ops) (localIdSeed st) = Some (xs, seed1)"
    by (simp add: read_operations_def)
  have "switchToVisualMode now (switchToJsonMode st) = (switchToJsonMode st)\<lparr>visualMode := Operations, operations := xs,
      selectedOperationId := first_id xs, legacyValue := [], jsonError := False, editMode := Visual,
      templatePresetKey := js ''operations_default'', localIdSeed := seed1\<rparr>"
    using s(1,2) assms(6) ro unfolding j by (simp add: switchToVisualMode_def Let_def operations_value_def obj_get_def)
  with xs(2) j read_operations_ok [OF ro] show ?thesis by (simp add: read_back_def Let_def editor_ok_def)
qed

lemma mode_switch_roundtrip_witness:
  "let st' = switchToVisualMode (\<lambda>_. 0) (switchToJsonMode ((initial_editor (\<lambda>_. 0))\<lparr>operations := [sample_op], localIdSeed := 1\<rparr>)) in
   editMode st' = Visual \<and> read_back [sample_op] (operations st')"
proof -
  let ?st = "(initial_editor (\<lambda>_. 0))\<lparr>operations := [sample_op], localIdSeed := 1\<rparr>"
  have "nextLocalId (\<lambda>_. 0) 0 = js ''po_0_0''" by (simp add: nextLocalId_def dec.simps js_def)
  then have "editor_ok (\<lambda>_. 0) ?st"
    by (auto simp: editor_ok_def ops_ok_def op_ids_def sample_op_def) (simp_all add: one_value_def image_def exI [of _ 0])
  moreover have "editMode ?st = Visual" "visualMode ?st = Operations" "list_all printable (operations ?st)"
      "save_result ?st = Inr (json_pretty (set_user (JBool True)))"
    using sample_saved(2,4) by (simp_all add: initial_editor_def save_result_def buildVisualJson_def)
  ultimately show ?thesis
    using mode_switch_roundtrip [of "\<lambda>_. 0" ?st "json_pretty (set_user (JBool True))"] sample_text by (simp add: Let_def)
qed

lemma drop_moves_one_witness:
  "\<exists>a b. reorderOperations [createDefaultOperation (\<lambda>_. 0) 0, createDefaultOperation (\<lambda>_. 0) 1]
     (op_id (createDefaultOperation (\<lambda>_. 0) 1)) (op_id (createDefaultOperation (\<lambda>_. 0) 0)) Before =
   a @ [createDefaultOperation (\<lambda>_. 0) 1, createDefaultOperation (\<lambda>_. 0) 0] @ b"
proof -
  let ?a = "createDefaultOperation (\<lambda>_. 0) 0" and ?b = "createDefaultOperation (\<lambda>_. 0) 1"
  have "op_id ?a \<noteq> op_id ?b" "op_id ?a \<noteq> []" "op_id ?b \<noteq> []"
    by (simp_all add: createDefaultOperation_def nextLocalId_def)
  then show ?thesis using drop_moves_one [of "[?a, ?b]" ?b ?a Before] by simp
qed

end
