(* ===== verification/ParamOverrideServer.thy ===== *)
theory ParamOverrideServer
  imports ParamOverrideEditor
begin

text \<open>
  How the server reads the parameter overrides that the editor saves: the parsing functions of
  \<open>src/newapi/relay/common/override.go\<close>. The theorems compose the two programs.

  A value of Go's \<open>interface{}\<close> decoded from JSON is the value of the text; \<open>nil\<close> is \<open>JNull\<close>, also for
  a field that is absent. Iteration over a map is taken in the order of the text. \<open>sprint\<close> is
  \<open>fmt.Sprintf("%v", v)\<close>, which is \<open>s\<close> for a string \<open>s\<close>. A number outside the 64-bit integers is
  no integer here; what Go converts it to depends on the machine.
\<close>

section \<open>Text\<close>

definition go_space :: "nat \<Rightarrow> bool" where
  "go_space c \<longleftrightarrow> (9 \<le> c \<and> c \<le> 13) \<or> c \<in> {0x20, 0x85, 0xA0, 0x1680, 0x2028, 0x2029, 0x202F, 0x205F, 0x3000} \<or>
     (0x2000 \<le> c \<and> c \<le> 0x200A)"

definition TrimSpace :: "jstr \<Rightarrow> jstr" where
  "TrimSpace s = rev (dropWhile go_space (rev (dropWhile go_space s)))"

text \<open>\<open>strings.EqualFold\<close> with a word of ASCII letters: the long s and the Kelvin sign fold to letters.\<close>

definition go_fold :: "jstr \<Rightarrow> jstr" where
  "go_fold s = map (\<lambda>c. if 65 \<le> c \<and> c \<le> 90 then c + 32 else if c = 0x17F then 115 else if c = 0x212A then 107 else c) s"

definition string_of :: "jsval \<Rightarrow> jstr" where
  "string_of v = (case v of JStr s \<Rightarrow> s | _ \<Rightarrow> [])"

definition nil_if_absent :: "jsval \<Rightarrow> jsval" where
  "nil_if_absent v = (if v = JUndef then JNull else v)"

section \<open>Operations\<close>

record ConditionOperation =
  condPath :: jstr
  condMode :: jstr
  condValue :: jsval
  condInvert :: bool
  condPassMissingKey :: bool

record ParamOperation =
  opPath :: jstr
  opMode :: jstr
  opValue :: jsval
  opKeepOrigin :: bool
  opFrom :: jstr
  opTo :: jstr
  opConditions :: "ConditionOperation list"
  opLogic :: jstr

definition condition_item :: "jsval \<Rightarrow> ConditionOperation option" where
  "condition_item item =
     (case item of
        JObj ps \<Rightarrow>
          let p = string_of (obj_get (js ''path'') ps); m = string_of (obj_get (js ''mode'') ps) in
          if TrimSpace p = [] \<or> TrimSpace m = [] then None
          else Some \<lparr>condPath = p, condMode = m, condValue = nil_if_absent (obj_get (js ''value'') ps),
            condInvert = (obj_get (js ''invert'') ps = JBool True),
            condPassMissingKey = (obj_get (js ''pass_missing_key'') ps = JBool True)\<rparr>
      | _ \<Rightarrow> None)"

definition full_condition :: "jstr \<times> jsval \<Rightarrow> ConditionOperation option" where
  "full_condition = (\<lambda>(k, v).
     if TrimSpace k = [] then None
     else Some \<lparr>condPath = TrimSpace k, condMode = js ''full'', condValue = v, condInvert = False, condPassMissingKey = False\<rparr>)"

definition parseConditionOperations :: "jsval \<Rightarrow> ConditionOperation list option" where
  "parseConditionOperations raw =
     (case raw of
        JObj ps \<Rightarrow> (let cs = List.map_filter full_condition ps in if cs = [] then None else Some cs)
      | JArr items \<Rightarrow> those (map condition_item items)
      | _ \<Rightarrow> None)"

definition parse_operation :: "jsval \<Rightarrow> ParamOperation option" where
  "parse_operation op =
     (case op of
        JObj ps \<Rightarrow>
          let get = (\<lambda>k. obj_get (js k) ps) in
          (case get ''mode'' of
             JStr m \<Rightarrow>
               (case (if get ''conditions'' = JUndef then Some [] else parseConditionOperations (get ''conditions'')) of
                  None \<Rightarrow> None
                | Some cs \<Rightarrow>
                    Some \<lparr>opPath = string_of (get ''path''), opMode = m, opValue = nil_if_absent (get ''value''),
                      opKeepOrigin = (get ''keep_origin'' = JBool True), opFrom = string_of (get ''from''),
                      opTo = string_of (get ''to''), opConditions = cs,
                      opLogic = (case get ''logic'' of JStr l \<Rightarrow> l | _ \<Rightarrow> js ''OR'')\<rparr>)
           | _ \<Rightarrow> None)
      | _ \<Rightarrow> None)"

definition tryParseOperations :: "(jstr \<times> jsval) list \<Rightarrow> ParamOperation list option" where
  "tryParseOperations paramOverride =
     (case obj_get (js ''operations'') paramOverride of
        JArr ops \<Rightarrow> those (map parse_operation ops)
      | _ \<Rightarrow> None)"

definition buildLegacyParamOverride :: "(jstr \<times> jsval) list \<Rightarrow> (jstr \<times> jsval) list" where
  "buildLegacyParamOverride paramOverride =
     filter (\<lambda>p. go_fold (TrimSpace (fst p)) \<noteq> js ''operations'') paramOverride"

text \<open>What \<open>ApplyParamOverride\<close> does with an override: fields to set, and operations to run after that.\<close>

definition server_reading :: "(jstr \<times> jsval) list \<Rightarrow> (jstr \<times> jsval) list \<times> ParamOperation list" where
  "server_reading paramOverride =
     (case tryParseOperations paramOverride of
        Some ops \<Rightarrow> (buildLegacyParamOverride paramOverride, ops)
      | None \<Rightarrow> (paramOverride, []))"

section \<open>The server reads what the editor saves\<close>

definition server_condition :: "ParamOverrideCondition \<Rightarrow> ConditionOperation" where
  "server_condition c = \<lparr>condPath = trim (cond_path c), condMode = cond_mode c, condValue = parseLooseValue (cond_value_text c),
     condInvert = invert c, condPassMissingKey = pass_missing_key c\<rparr>"

definition server_operation :: "ParamOverrideOperation \<Rightarrow> ParamOperation" where
  "server_operation op =
     (let m = mode op in
      \<lparr>opPath = (if mode_has m PathField \<or> mode_has m PathOptional then trim (path op) else []),
       opMode = m,
       opValue = (if mode_has m ValueField then parseLooseValue (value_text op) else JNull),
       opKeepOrigin = (mode_has m KeepOrigin \<and> keep_origin op),
       opFrom = (if mode_has m FromField then alias_or op (op_from op) else []),
       opTo = alias_or op (op_to op),
       opConditions = map server_condition (kept_conditions op),
       opLogic = (if kept_conditions op = [] then js ''OR'' else logic op)\<rparr>)"

text \<open>The two trims differ in two characters; a path of such a character only is blank for the server.\<close>

definition paths_visible :: "ParamOverrideOperation \<Rightarrow> bool" where
  "paths_visible op \<longleftrightarrow> list_all (\<lambda>c. TrimSpace (trim (cond_path c)) \<noteq> []) (kept_conditions op)"

lemma TrimSpace_id: "s \<noteq> [] \<Longrightarrow> \<not> go_space (hd s) \<Longrightarrow> \<not> go_space (last s) \<Longrightarrow> TrimSpace s = s"
proof -
  assume s: "s \<noteq> []" "\<not> go_space (hd s)" "\<not> go_space (last s)"
  then have "dropWhile go_space s = s" "dropWhile go_space (rev s) = rev s"
    by (simp_all add: dropWhile_eq_self_iff hd_rev)
  then show ?thesis by (simp add: TrimSpace_def)
qed

lemma parse_value_not_undef: "parseLooseValue t \<noteq> JUndef"
  using json_parse_not_undef [of "trim t"] by (auto simp: parseLooseValue_def Let_def split: option.split)

lemma condition_modes_visible: "condition_ok c \<Longrightarrow> cond_mode c \<noteq> [] \<and> TrimSpace (cond_mode c) \<noteq> []"
  by (auto simp: condition_ok_def CONDITION_MODE_VALUES_def js_def TrimSpace_def go_space_def)

lemma server_reads_condition:
  assumes "condition_ok c" "buildConditionPayload c = Some v" "TrimSpace (trim (cond_path c)) \<noteq> []"
  shows "condition_item v = Some (server_condition c)"
  using assms condition_modes_visible [OF assms(1)] parse_value_not_undef [of "cond_value_text c"]
  by (auto simp: buildConditionPayload_def condition_item_def Let_def server_condition_def string_of_def nil_if_absent_def
      obj_get_def [of _ "_ # _"] split: if_splits)

lemma server_reads_conditions:
  assumes "list_all condition_ok cs" "list_all (\<lambda>c. TrimSpace (trim (cond_path c)) \<noteq> []) (filter (\<lambda>c. trim (cond_path c) \<noteq> []) cs)"
  shows "those (map condition_item (List.map_filter buildConditionPayload cs)) =
    Some (map server_condition (filter (\<lambda>c. trim (cond_path c) \<noteq> []) cs))"
  using assms
proof (induction cs)
  case (Cons c cs)
  show ?case
  proof (cases "buildConditionPayload c")
    case None
    then have "trim (cond_path c) = []" by (simp add: buildConditionPayload_def split: if_splits)
    with None Cons show ?thesis by (simp add: map_filter_simps)
  next
    case (Some v)
    then have "trim (cond_path c) \<noteq> []" by (auto simp: buildConditionPayload_def)
    with Some Cons server_reads_condition [of c v] show ?thesis by (simp add: map_filter_simps)
  qed
qed (simp add: map_filter_simps)

lemma server_reads_operation:
  assumes "operation_ok op" "paths_visible op"
  shows "parse_operation (build_operation op) = Some (server_operation op)"
proof -
  let ?cs = "List.map_filter buildConditionPayload (conditions op)"
  have m: "mode op \<in> set OPERATION_MODE_VALUES" "list_all condition_ok (conditions op)" "logic op \<in> {js ''AND'', js ''OR''}"
    using assms(1) by (auto simp: operation_ok_def)
  obtain ps where ps: "build_operation op = JObj ps"
    "ps = (if ?cs = [] then moved_fields op
       else obj_set (js ''logic'') (JStr (if logic op = js ''AND'' then js ''AND'' else js ''OR''))
         (obj_set (js ''conditions'') (JArr ?cs) (moved_fields op)))"
    using build_alt [OF m(1)] by (simp add: Let_def)
  have base: "obj_get k (moved_fields op) =
      (if (mode_has (mode op) ToField \<or> alias_or op (op_to op) \<noteq> []) \<and> k = js ''to'' then JStr (alias_or op (op_to op))
       else if mode_has (mode op) FromField \<and> k = js ''from'' then JStr (alias_or op (op_from op))
       else if (mode_has (mode op) KeepOrigin \<and> keep_origin op) \<and> k = js ''keep_origin'' then JBool True
       else if mode_has (mode op) ValueField \<and> k = js ''value'' then parseLooseValue (value_text op)
       else if (mode_has (mode op) PathField \<or> mode_has (mode op) PathOptional \<and> trim (path op) \<noteq> []) \<and> k = js ''path'' then JStr (trim (path op))
       else if trim (description op) \<noteq> [] \<and> k = js ''description'' then JStr (trim (description op))
       else if k = js ''mode'' then JStr (mode op) else JUndef)" for k
    by (simp only: moved_fields_def plain_fields_def get_set_if) (simp add: obj_get_def)
  have g: "obj_get (js ''mode'') ps = JStr (mode op)"
    "string_of (obj_get (js ''path'') ps) = opPath (server_operation op)"
    "nil_if_absent (obj_get (js ''value'') ps) = opValue (server_operation op)"
    "(obj_get (js ''keep_origin'') ps = JBool True) = opKeepOrigin (server_operation op)"
    "string_of (obj_get (js ''from'') ps) = opFrom (server_operation op)"
    "string_of (obj_get (js ''to'') ps) = opTo (server_operation op)"
    unfolding ps(2) using parse_value_not_undef [of "value_text op"]
    by (simp_all add: base string_of_def nil_if_absent_def server_operation_def Let_def)
  have l: "(case obj_get (js ''logic'') ps of JStr l \<Rightarrow> l | _ \<Rightarrow> js ''OR'') = opLogic (server_operation op)"
    unfolding ps(2) using m(3) by (auto simp: base server_operation_def Let_def kept_empty)
  have c: "(if obj_get (js ''conditions'') ps = JUndef then Some [] else parseConditionOperations (obj_get (js ''conditions'') ps))
      = Some (opConditions (server_operation op))"
    using server_reads_conditions [OF m(2)] assms(2) kept_empty [of op] unfolding ps(2)
    by (auto simp: base parseConditionOperations_def server_operation_def Let_def paths_visible_def kept_conditions_def)
  show ?thesis
    unfolding ps(1) parse_operation_def jsval.case Let_def g(1) c option.case l g(2-6)
    by (simp add: server_operation_def Let_def)
qed

lemma server_reads:
  assumes "list_all operation_ok ops" "list_all printable ops" "list_all paths_visible ops"
    and "buildOperationsJson ops v = Inr t" "t \<noteq> []"
  shows "\<exists>ps. json_parse t = Some (JObj ps) \<and>
    server_reading ps = ([], map server_operation (filter (\<lambda>op. \<not> isOperationBlank op) ops))"
proof -
  let ?ops = "filter (\<lambda>op. \<not> isOperationBlank op) ops"
  note s = saved_value [OF assms(2,4,5)]
  have "those (map parse_operation (map build_operation xs)) = Some (map server_operation xs)" if "set xs \<subseteq> set ops" for xs
    using that assms(1,3) by (induction xs) (auto simp: list_all_iff server_reads_operation)
  then have "tryParseOperations [(js ''operations'', JArr (map build_operation ?ops))] = Some (map server_operation ?ops)"
    by (simp add: tryParseOperations_def obj_get_def)
  moreover have "TrimSpace (js ''operations'') = js ''operations''" by (rule TrimSpace_id) (simp_all add: js_def go_space_def)
  then have "buildLegacyParamOverride [(js ''operations'', JArr (map build_operation ?ops))] = []"
    by (simp add: buildLegacyParamOverride_def go_fold_def) (simp add: js_def)
  ultimately have "server_reading [(js ''operations'', JArr (map build_operation ?ops))] = ([], map server_operation ?ops)"
    by (simp add: server_reading_def)
  with s(1) show ?thesis by (simp add: operations_value_def)
qed

text \<open>
  C3. The server runs exactly the operations of the visual editor: it reads the saved text as operations,
  in the order of the editor, each with the mode, path, value, ends and conditions that the editor shows,
  and with no field to set besides.
\<close>

theorem server_reads_saved:
  assumes "list_all operation_ok ops" "list_all printable ops" "list_all paths_visible ops"
    and "buildOperationsJson ops v = Inr t" "t \<noteq> []"
  shows "\<exists>ps. json_parse t = Some (JObj ps) \<and>
    server_reading ps = ([], map server_operation (filter (\<lambda>op. \<not> isOperationBlank op) ops))"
  by (rule server_reads [OF assms])

lemma server_reads_saved_witness:
  "\<exists>ps. json_parse (json_pretty (set_user (JBool True))) = Some (JObj ps) \<and>
    server_reading ps = ([], [server_operation sample_op])"
proof -
  have "list_all operation_ok [sample_op]" "list_all paths_visible [sample_op]"
    by (simp_all add: sample_op_def paths_visible_def kept_conditions_def one_value_def operation_ok_def OPERATION_MODE_VALUES_def)
  from server_reads_saved [OF this(1) sample_saved(2) this(2) sample_saved(4) sample_text] one_value_valid(2)
  show ?thesis by (simp add: sample_op_def)
qed

section \<open>What the editor drops from an override the server accepts\<close>

text \<open>The value of a text the editor opens and saves without a change.\<close>

definition resaved :: "(nat \<Rightarrow> nat) \<Rightarrow> nat \<Rightarrow> jstr \<Rightarrow> jsval option" where
  "resaved now seed t =
     (case parseInitialState now t seed of
        Some (st, _) \<Rightarrow> (case buildOperationsJson (operations st) True of Inr u \<Rightarrow> json_parse u | Inl _ \<Rightarrow> None)
      | None \<Rightarrow> None)"

definition delete_user :: "(jstr \<times> jsval) list \<Rightarrow> jsval" where
  "delete_user extra = JObj ([(js ''mode'', JStr (js ''delete'')), (js ''path'', JStr (js ''user''))] @ extra)"

definition delete_op :: "jstr \<Rightarrow> ParamOverrideOperation" where
  "delete_op i = \<lparr>op_id = i, description = [], path = js ''user'', mode = js ''delete'', op_from = [], op_to = [],
     value_text = [], keep_origin = False, logic = js ''OR'', conditions = []\<rparr>"

lemma delete_saved: "buildOperationsJson [delete_op i] True = Inr (json_pretty (JObj [(js ''operations'', JArr [delete_user []])]))"
proof -
  have f: "mode_has (js ''delete'') PathField" "\<not> mode_has (js ''delete'') ValueField" "\<not> mode_has (js ''delete'') FromField"
      "\<not> mode_has (js ''delete'') ToField" "\<not> mode_has (js ''delete'') PathAlias"
    by (simp_all add: mode_has_def MODE_META_def)
  have u: "trim (js ''user'') = js ''user''" by (intro trim_id) (simp add: trimmed_def js_def is_ws_def)
  have "validate_operation (Suc 0) (delete_op i) = None"
    unfolding validate_None Let_def
    by (simp add: delete_op_def mode_or_set_def u FROM_REQUIRED_MODES_def TO_REQUIRED_MODES_def VALUE_REQUIRED_MODES_def)
  moreover have "\<not> isOperationBlank (delete_op i)" by (simp add: isOperationBlank_def delete_op_def)
  moreover have "\<not> is_index_key (js ''path'')" by (simp add: is_index_key_def js_def is_digit_def)
  then have "build_operation (delete_op i) = delete_user []"
    by (simp add: build_operation_def Let_def delete_op_def f mode_or_set_def map_filter_simps obj_set_append obj_has_def u delete_user_def)
  ultimately show ?thesis by (simp add: buildOperationsJson_def validateOperations_def operations_value_def)
qed

lemma delete_user_ok: "json_ok (delete_user [])" "json_ok (JObj [(js ''operations'', JArr [delete_user []])])"
proof -
  have "\<not> is_index_key (js ''path'')" by (simp add: is_index_key_def js_def is_digit_def)
  then show "json_ok (delete_user [])" by (simp add: delete_user_def obj_wf_def key_before_def)
  then show "json_ok (JObj [(js ''operations'', JArr [delete_user []])])" by (simp add: obj_wf_def)
qed

lemma normalize_delete:
  assumes "\<forall>p\<in>set extra. fst p = js ''conditions'' \<and> \<not> is_array (snd p)"
  shows "normalizeOperation now (delete_user extra) seed = Some (delete_op (nextLocalId now seed), Suc seed)"
proof -
  let ?ps = "[(js ''mode'', JStr (js ''delete'')), (js ''path'', JStr (js ''user''))] @ extra"
  have g: "obj_get k ?ps = (if k = js ''mode'' then JStr (js ''delete'') else if k = js ''path'' then JStr (js ''user'')
      else obj_get k extra)" for k by (simp add: obj_get_def)
  have n: "obj_get k extra = JUndef" if "k \<noteq> js ''conditions''" for k
    using assms that by (auto simp: obj_get_def split: option.split dest!: map_of_SomeD)
  have c: "\<not> is_array (obj_get (js ''conditions'') extra)"
    using assms by (auto simp: obj_get_def split: option.split dest!: map_of_SomeD)
  have "(case obj_get (js ''conditions'') extra of JArr cs \<Rightarrow> map_counted (normalizeCondition now) cs (Suc seed)
      | _ \<Rightarrow> Some ([], Suc seed)) = Some ([], Suc seed)"
    using c by (cases "obj_get (js ''conditions'') extra") simp_all
  then show ?thesis
    by (simp add: normalizeOperation_def delete_user_def string_field_def known_mode_def g n toValueText_def logic_of_def
        js_or_def delete_op_def OPERATION_MODE_VALUES_def ascii_upper_def del: append.simps) (simp add: js_def)
qed

lemma resaved_delete:
  assumes "json_parse t = Some (JObj ps)" "obj_get (js ''operations'') ps = JArr [delete_user extra]"
    and "\<forall>p\<in>set extra. fst p = js ''conditions'' \<and> \<not> is_array (snd p)" "trim t = t"
  shows "resaved now seed t = Some (JObj [(js ''operations'', JArr [delete_user []])])"
proof -
  have "t \<noteq> []" using assms(1) by auto
  then show ?thesis
    using assms(1,2,4) normalize_delete [OF assms(3), of now seed] pretty_roundtrip [OF delete_user_ok(2)]
    by (simp add: resaved_def parseInitialState_def Let_def read_operations_def delete_saved)
qed







text \<open>Fields beside the operations, which the server sets first, are lost as well.\<close>

lemma legacy_fields_lost:
  assumes "json_ok w"
  defines "ps \<equiv> [(js ''operations'', JArr [delete_user []]), (js ''top_k'', w)]"
  shows "fst (server_reading ps) = [(js ''top_k'', w)]"
    "resaved now seed (ser (JObj ps)) = Some (JObj [(js ''operations'', JArr [delete_user []])])"
proof -
  have "\<not> is_index_key (js ''top_k'')" by (simp add: is_index_key_def js_def is_digit_def)
  then have ok: "json_ok (JObj ps)" using assms(1) delete_user_ok(1) by (simp add: ps_def obj_wf_def key_before_def)
  have "resaved now seed (ser (JObj ps)) = Some (JObj [(js ''operations'', JArr [delete_user []])])"
    using json_roundtrip [OF ok] trim_id [OF trimmed_ser [OF ok]]
    by (intro resaved_delete [where ps = ps and extra = "[]"]) (simp_all add: ps_def obj_get_def del: ser.simps)
  then show "resaved now seed (ser (JObj ps)) = Some (JObj [(js ''operations'', JArr [delete_user []])])" .
  have t: "TrimSpace (js ''operations'') = js ''operations''" "TrimSpace (js ''top_k'') = js ''top_k''"
    by (rule TrimSpace_id; simp add: js_def go_space_def)+
  show "fst (server_reading ps) = [(js ''top_k'', w)]"
    by (simp add: ps_def server_reading_def tryParseOperations_def obj_get_def parse_operation_def delete_user_def
        string_of_def nil_if_absent_def buildLegacyParamOverride_def t go_fold_def) (simp add: js_def)
qed

section \<open>Values of return_error and ends of sync_fields\<close>

record ParamOverrideReturnError =
  ret_message :: jstr
  ret_status :: int
  ret_code :: jstr
  ret_type :: jstr
  ret_skip_retry :: bool

definition parseOverrideInt :: "jsval \<Rightarrow> int option" where
  "parseOverrideInt v =
     (case v of
        JNum (Fin q) \<Rightarrow> if of_int \<lfloor>q\<rfloor> = q \<and> - (2 ^ 63) \<le> \<lfloor>q\<rfloor> \<and> \<lfloor>q\<rfloor> < 2 ^ 63 then Some \<lfloor>q\<rfloor> else None
      | _ \<Rightarrow> None)"

definition nonempty_or :: "jstr \<Rightarrow> jstr \<Rightarrow> jstr" where
  "nonempty_or s d = (if s = [] then d else s)"

definition return_error_fields ::
  "(jsval \<Rightarrow> jstr) \<Rightarrow> jsval \<Rightarrow> ParamOverrideReturnError option" where
  "return_error_fields sprint v =
     (case v of
        JStr raw \<Rightarrow> Some \<lparr>ret_message = TrimSpace raw, ret_status = 400, ret_code = js ''invalid_request'',
          ret_type = js ''invalid_request_error'', ret_skip_retry = True\<rparr>
      | JObj ps \<Rightarrow>
          let get = (\<lambda>k. obj_get (js k) ps);
              status = (if get ''status_code'' \<noteq> JUndef then parseOverrideInt (get ''status_code'')
                        else if get ''status'' \<noteq> JUndef then parseOverrideInt (get ''status'') else Some 400) in
          map_option (\<lambda>n. \<lparr>ret_message = nonempty_or (TrimSpace (string_of (get ''message''))) (TrimSpace (string_of (get ''msg''))),
              ret_status = n,
              ret_code = nonempty_or (if get ''code'' = JUndef then [] else TrimSpace (sprint (get ''code''))) (js ''invalid_request''),
              ret_type = nonempty_or (TrimSpace (string_of (get ''type''))) (js ''invalid_request_error''),
              ret_skip_retry = (get ''skip_retry'' \<noteq> JBool False)\<rparr>) status
      | _ \<Rightarrow> None)"

definition parseParamOverrideReturnError ::
  "(jsval \<Rightarrow> jstr) \<Rightarrow> jsval \<Rightarrow> ParamOverrideReturnError option" where
  "parseParamOverrideReturnError sprint v =
     (case return_error_fields sprint v of
        None \<Rightarrow> None
      | Some r \<Rightarrow>
          if ret_message r = [] then None
          else if ret_status r < 100 \<or> ret_status r > 511 then None
          else Some r)"

text \<open>
  C40. The editor offers the status codes 100 to 599, the server takes 100 to 511: an operation with a
  higher code is saved without complaint and fails when a request meets it.
\<close>

theorem return_error_status_bounds:
  assumes "TrimSpace (trim (err_message d)) \<noteq> []" "status_or_400 (err_statusCode d) = Fin (of_nat n)"
  shows "parseParamOverrideReturnError sprint (error_payload d) \<noteq> None \<longleftrightarrow> n \<le> 511"
proof -
  obtain k where k: "status_or_400 (err_statusCode d) = Fin (of_nat k)" "100 \<le> k" "k \<le> 599" using status_range by blast
  then have n: "100 \<le> n" "n \<le> 599" using assms(2) by simp_all
  obtain ps where ps: "error_payload d = JObj ps"
    "obj_get (js ''status_code'') ps = JNum (Fin (of_nat n))" "obj_get (js ''message'') ps = JStr (trim (err_message d))"
    by (simp add: error_payload_def assms(2) obj_get_def [of _ "_ # _"])
  have i: "parseOverrideInt (JNum (Fin (of_nat n))) = Some (int n)" using n by (simp add: parseOverrideInt_def)
  obtain r where r: "return_error_fields sprint (error_payload d) = Some r" "ret_status r = int n"
      "ret_message r = TrimSpace (trim (err_message d))"
    using assms(1) by (simp add: return_error_fields_def ps i Let_def nonempty_or_def string_of_def)
  show ?thesis using assms(1) n by (simp add: parseParamOverrideReturnError_def r)
qed

lemma return_error_status_bounds_witness:
  "parseParamOverrideReturnError (\<lambda>_. []) (error_payload (error_defaults\<lparr>err_message := js ''busy'', err_statusCode := Fin 529\<rparr>)) = None"
proof -
  have "TrimSpace (trim (js ''busy'')) \<noteq> []" by (simp add: TrimSpace_def trim_def js_def go_space_def is_ws_def)
  moreover have "status_or_400 (Fin 529) = Fin (of_nat 529)" by (simp add: status_or_400_def num_le_def num_eq_def)
  ultimately show ?thesis
    using return_error_status_bounds [of "error_defaults\<lparr>err_message := js ''busy'', err_statusCode := Fin 529\<rparr>" 529 "\<lambda>_. []"] by simp
qed

definition parseSyncTarget :: "jstr \<Rightarrow> (jstr \<times> jstr) option" where
  "parseSyncTarget spec =
     (let raw = TrimSpace spec in
      if raw = [] then None
      else case index_of (js '':'') raw of
        None \<Rightarrow> Some (js ''json'', raw)
      | Some idx \<Rightarrow>
          let kind = ascii_lower (TrimSpace (take idx raw)); key = TrimSpace (drop (idx + 1) raw) in
          if key = [] then None
          else if kind = js ''json'' \<or> kind = js ''body'' then Some (js ''json'', key)
          else if kind = js ''header'' then Some (js ''header'', key)
          else None)"

text \<open>
  An end of \<open>sync_fields\<close> that the controls of the editor write is read by the server as they show it, as
  long as the two trims agree on the key. The converse fails: the server refuses \<open>query:x\<close>, the editor
  shows it as the field \<open>x\<close> of the body.
\<close>

lemma sync_target_understood:
  fixes key :: jstr
  assumes "trim key \<noteq> []" "TrimSpace (trim key) = trim key"
  shows "parseSyncTarget (buildSyncTargetSpec kind key) = Some (parseSyncTargetSpec (buildSyncTargetSpec kind key))"
proof -
  define k where "k = (if kind = js ''header'' then js ''header'' else js ''json'')"
  have k: "58 \<notin> set k" "TrimSpace k = k" "k \<noteq> []" "ascii_lower k = k" "k = js ''header'' \<or> k = js ''json''" "\<not> go_space (hd k)"
    by (auto simp: k_def js_def ascii_lower_def go_space_def intro!: TrimSpace_id)
  have "\<not> go_space (last (trim key))"
  proof
    assume "go_space (last (trim key))"
    then have "length (dropWhile go_space (rev (trim key))) < length (trim key)"
      using assms(1) length_dropWhile_le [of go_space "rev (butlast (trim key))"]
      by (cases "trim key" rule: rev_cases) auto
    moreover have "\<not> go_space (hd (trim key))"
    proof
      assume "go_space (hd (trim key))"
      moreover have "length (TrimSpace (trim key)) \<le> length (dropWhile go_space (trim key))"
        using length_dropWhile_le [of go_space "rev (dropWhile go_space (trim key))"] by (simp add: TrimSpace_def)
      ultimately have "length (TrimSpace (trim key)) < length (trim key)"
        using assms(1) length_dropWhile_le [of go_space "tl (trim key)"] by (cases "trim key") auto
      with assms(2) show False by simp
    qed
    then have "dropWhile go_space (trim key) = trim key" using assms(1) by (simp add: dropWhile_eq_self_iff)
    ultimately show False using assms(2) unfolding TrimSpace_def by (metis length_rev less_irrefl)
  qed
  then have "TrimSpace (k @ 58 # trim key) = k @ 58 # trim key"
    using k(3,6) assms(1) by (intro TrimSpace_id) simp_all
  moreover have "buildSyncTargetSpec kind key = k @ 58 # trim key"
    using assms(1) by (simp add: buildSyncTargetSpec_def Let_def k_def js_def)
  ultimately show ?thesis
    using assms k sync_spec [of kind key] index_of_colon [OF k(1), of "trim key"]
    by (auto simp: parseSyncTarget_def Let_def k_def)
qed

lemma sync_target_refused:
  "parseSyncTarget (js ''query:x'') = None" "parseSyncTargetSpec (js ''query:x'') = (js ''json'', js ''x'')"
proof -
  have i: "index_of (js '':'') (js ''query:x'') = Some 5" using index_of_colon [of "js ''query''" "js ''x''"] by (simp add: js_def)
  have t: "TrimSpace (js ''query:x'') = js ''query:x''" "TrimSpace (js ''query'') = js ''query''" "TrimSpace (js ''x'') = js ''x''"
    by (rule TrimSpace_id; simp add: js_def go_space_def)+
  have u: "trim (js ''query:x'') = js ''query:x''" "trim (js ''query'') = js ''query''" "trim (js ''x'') = js ''x''"
    by (intro trim_id; simp add: trimmed_def js_def is_ws_def)+
  have d: "take 5 (js ''query:x'') = js ''query''" "drop 6 (js ''query:x'') = js ''x''" by (simp_all add: js_def)
  have a: "ascii_lower (js ''query'') = js ''query''" by (simp add: ascii_lower_def js_def)
  show "parseSyncTarget (js ''query:x'') = None" by (simp add: parseSyncTarget_def Let_def i t d a)
  show "parseSyncTargetSpec (js ''query:x'') = (js ''json'', js ''x'')" by (simp add: parseSyncTargetSpec_def Let_def i u d a)
qed

end
