(* ===== verification/JsRegexLead.thy ===== *)
theory JsRegexLead
  imports JsRegex
begin

text \<open>
  The first way an expression matches, composed. \<open>leads r c d\<close> says that \<open>d\<close> is the preferred
  result of \<open>r\<close> at \<open>c\<close>; where no step has to be taken back, the preferred result of a sequence is
  that of its parts one after the other. An alternative or option that is refused is passed over
  by a proof that it has no result at all.
\<close>

definition leads :: "re \<Rightarrow> cfg \<Rightarrow> cfg \<Rightarrow> bool" where
  "leads r c d \<longleftrightarrow> (\<exists>ds. rm r c = d # ds)"

lemma leads_nil: "leads (cat []) c c"
  by (simp add: leads_def)

lemma leads_cat: "leads a c d \<Longrightarrow> leads (cat rs) d e \<Longrightarrow> leads (cat (a # rs)) c e"
  by (auto simp: leads_def)

lemma leads_lit: "leads (Lit l) (p, l @ t, cs) (after p l, t, cs)"
  by (simp add: leads_def)

lemma leads_eol: "leads EOL (p, [], cs) (p, [], cs)"
  by (simp add: leads_def)

lemma star_run_first:
  "\<forall>u\<in>set x. P u \<Longrightarrow> t = [] \<or> \<not> P (hd t) \<Longrightarrow> length (x @ t) \<le> n \<Longrightarrow>
    \<exists>ds. star_iter (unit_in P) n (p, x @ t, cs) = (after p x, t, cs) # ds"
proof (induction x arbitrary: p n)
  case Nil
  then have "unit_in P (p, t, cs) = []" by (cases t) auto
  then show ?case by (cases n) (simp_all add: after_def)
next
  case (Cons a x)
  then obtain m where n: "n = Suc m" "length (x @ t) \<le> m" by (cases n) auto
  from Cons.IH [OF _ Cons.prems(2) n(2), of "Some a"] Cons.prems(1)
  obtain ds where "star_iter (unit_in P) m (Some a, x @ t, cs) = (after (Some a) x, t, cs) # ds" by auto
  then show ?case using Cons.prems(1) by (simp add: n(1) after_def)
qed

lemma leads_star_run:
  "\<forall>u\<in>set x. P u \<Longrightarrow> t = [] \<or> \<not> P (hd t) \<Longrightarrow> leads (Star (Chr P)) (p, x @ t, cs) (after p x, t, cs)"
  unfolding leads_def using star_run_first [of x P t "length (x @ t)" p cs] by simp

lemma leads_star_none: "s = [] \<or> \<not> P (hd s) \<Longrightarrow> leads (Star (Chr P)) (p, s, cs) (p, s, cs)"
  using leads_star_run [of "[]" P s p cs] by (simp add: after_def)

lemma leads_plus_run:
  assumes "x \<noteq> []" "\<forall>u\<in>set x. P u" "t = [] \<or> \<not> P (hd t)"
  shows "leads (Plus (Chr P)) (p, x @ t, cs) (after p x, t, cs)"
proof -
  obtain a y where x: "x = a # y" using assms(1) by (cases x) auto
  have "leads (Star (Chr P)) (Some a, y @ t, cs) (after (Some a) y, t, cs)"
    by (rule leads_star_run) (use assms x in auto)
  then show ?thesis using assms(2) by (auto simp: leads_def Plus_def x after_def)
qed

lemma leads_group:
  "leads a (p, x @ t, cs) (q, t, cs') \<Longrightarrow> leads (Group i a) (p, x @ t, cs) (q, t, (i, x) # cs')"
  by (auto simp: leads_def)

lemma leads_opt: "leads a c d \<Longrightarrow> leads (Opt a) c d"
  by (auto simp: leads_def)

lemma leads_opt_none: "rm a c = [] \<Longrightarrow> leads (Opt a) c c"
  by (simp add: leads_def)

lemma leads_alt: "leads a c d \<Longrightarrow> leads (Alt a b) c d"
  by (auto simp: leads_def)

lemma leads_alt_right: "rm a c = [] \<Longrightarrow> leads b c d \<Longrightarrow> leads (Alt a b) c d"
  by (auto simp: leads_def)

text \<open>The bound of a star's turns does not matter once it covers the text.\<close>

lemma star_bound: "length (fst (snd c)) \<le> n \<Longrightarrow> star_iter f n c = star_iter f (length (fst (snd c))) c"
proof (induction "length (fst (snd c))" arbitrary: c n rule: less_induct)
  case less
  let ?len = "\<lambda>c. length (fst (snd c))"
  have same: "star_iter f m d = star_iter f (?len d) d" if "?len d < ?len c" "?len d \<le> m" for d m
    by (rule less.hyps) (use that in auto)
  show ?case
  proof (cases "?len c")
    case 0
    then show ?thesis by (cases n) simp_all
  next
    case (Suc k)
    then obtain m where n: "n = Suc m" "k \<le> m" using less.prems by (cases n) auto
    have "map (star_iter f m) (filter (\<lambda>d. ?len d < ?len c) (f c))
        = map (star_iter f k) (filter (\<lambda>d. ?len d < ?len c) (f c))"
    proof (rule map_cong [OF refl])
      fix d
      assume "d \<in> set (filter (\<lambda>d. ?len d < ?len c) (f c))"
      then have "?len d < ?len c" by simp
      with Suc n(2) same [of d m] same [of d k] show "star_iter f m d = star_iter f k d" by simp
    qed
    then show ?thesis by (simp only: n(1) Suc star_iter.simps)
  qed
qed

lemma leads_star_stop: "rm a c = [] \<Longrightarrow> leads (Star a) c c"
  by (cases "length (fst (snd c))") (simp_all add: leads_def)

lemma leads_star_step:
  assumes "leads a c d" "length (fst (snd d)) < length (fst (snd c))" "leads (Star a) d e"
  shows "leads (Star a) c e"
proof -
  obtain k where k: "length (fst (snd c)) = Suc k" "length (fst (snd d)) \<le> k"
    using assms(2) by (cases "length (fst (snd c))") auto
  have "star_iter (rm a) k d = rm (Star a) d" using star_bound [OF k(2), of "rm a"] by simp
  with assms k show ?thesis by (auto simp: leads_def)
qed

lemma leads_search: "leads r (p, s, cs) c \<Longrightarrow> cs = [] \<Longrightarrow> re_search r p s = Some c"
  by (cases s) (auto simp: leads_def)

section \<open>Without the unit before\<close>

text \<open>
  \<open>goes r s cs t cs'\<close>: wherever it starts, \<open>r\<close> takes the text \<open>s\<close> and captures \<open>cs\<close> first to the text
  \<open>t\<close> and captures \<open>cs'\<close>; \<open>stuck r s\<close>: it has no match on \<open>s\<close>. Only \<open>\b\<close> reads the unit before the
  position, and only a back reference the captures.
\<close>

definition goes :: "re \<Rightarrow> jstr \<Rightarrow> (nat \<times> jstr) list \<Rightarrow> jstr \<Rightarrow> (nat \<times> jstr) list \<Rightarrow> bool" where
  "goes r s cs t cs' \<longleftrightarrow> (\<forall>p. \<exists>q. leads r (p, s, cs) (q, t, cs'))"

definition stuck :: "re \<Rightarrow> jstr \<Rightarrow> bool" where
  "stuck r s \<longleftrightarrow> (\<forall>p cs. rm r (p, s, cs) = [])"

lemma goes_nil: "goes (cat []) s cs s cs"
  by (auto simp: goes_def leads_def)

lemma goes_cat: "goes a s cs t cs1 \<Longrightarrow> goes (cat rs) t cs1 u cs2 \<Longrightarrow> goes (cat (a # rs)) s cs u cs2"
  unfolding goes_def using leads_cat by metis

lemma goes_lit: "goes (cat rs) t cs u cs' \<Longrightarrow> goes (cat (Lit l # rs)) (l @ t) cs u cs'"
  by (rule goes_cat) (auto simp: goes_def leads_def)

lemma goes_blank:
  assumes "t = [] \<or> \<not> is_ws (hd t)" "goes (cat rs) t cs u cs'"
  shows "goes (cat (ws_star # rs)) (32 # t) cs u cs'"
proof (rule goes_cat [OF _ assms(2)])
  have "leads ws_star (p, [32] @ t, cs) (after p [32], t, cs)" for p
    by (rule leads_star_run) (use assms(1) in \<open>auto simp: is_ws_def\<close>)
  then show "goes ws_star (32 # t) cs t cs" by (auto simp: goes_def)
qed

lemma goes_no_blank:
  assumes "t = [] \<or> \<not> is_ws (hd t)" "goes (cat rs) t cs u cs'"
  shows "goes (cat (ws_star # rs)) t cs u cs'"
proof (rule goes_cat [OF _ assms(2)])
  show "goes ws_star t cs t cs" unfolding goes_def using leads_star_none [where P = is_ws] assms(1) by blast
qed

lemma goes_run:
  assumes "x \<noteq> []" "\<forall>u\<in>set x. P u" "t = [] \<or> \<not> P (hd t)" "goes (cat rs) t ((i, x) # cs) u cs'"
  shows "goes (cat (Group i (Plus (Chr P)) # rs)) (x @ t) cs u cs'"
proof (rule goes_cat [OF _ assms(4)])
  show "goes (Group i (Plus (Chr P))) (x @ t) cs t ((i, x) # cs)"
    unfolding goes_def using leads_group [OF leads_plus_run [OF assms(1,2,3)]] by blast
qed

lemma goes_run_plain:
  assumes "x \<noteq> []" "\<forall>u\<in>set x. P u" "t = [] \<or> \<not> P (hd t)" "goes (cat rs) t cs u cs'"
  shows "goes (cat (Plus (Chr P) # rs)) (x @ t) cs u cs'"
proof (rule goes_cat [OF _ assms(4)])
  show "goes (Plus (Chr P)) (x @ t) cs t cs"
    unfolding goes_def using leads_plus_run [OF assms(1,2,3)] by blast
qed

lemma goes_star_group:
  assumes "\<forall>u\<in>set x. P u" "t = [] \<or> \<not> P (hd t)" "goes (cat rs) t ((i, x) # cs) u cs'"
  shows "goes (cat (Group i (Star (Chr P)) # rs)) (x @ t) cs u cs'"
proof (rule goes_cat [OF _ assms(3)])
  show "goes (Group i (Star (Chr P))) (x @ t) cs t ((i, x) # cs)"
    unfolding goes_def using leads_group [OF leads_star_run [OF assms(1,2)]] by blast
qed

lemma goes_group:
  assumes "goes a (x @ t) cs t cs1" "goes (cat rs) t ((i, x) # cs1) u cs'"
  shows "goes (cat (Group i a # rs)) (x @ t) cs u cs'"
proof (rule goes_cat [OF _ assms(2)])
  show "goes (Group i a) (x @ t) cs t ((i, x) # cs1)"
    using assms(1) unfolding goes_def using leads_group by blast
qed

lemma goes_opt: "goes a s cs t cs1 \<Longrightarrow> goes (cat rs) t cs1 u cs2 \<Longrightarrow> goes (cat (Opt a # rs)) s cs u cs2"
  by (rule goes_cat) (unfold goes_def, blast intro: leads_opt)

lemma goes_opt_none: "stuck a s \<Longrightarrow> goes (cat rs) s cs u cs' \<Longrightarrow> goes (cat (Opt a # rs)) s cs u cs'"
  by (rule goes_cat) (unfold goes_def stuck_def, blast intro: leads_opt_none)

lemma goes_eol: "goes (cat [EOL]) [] cs [] cs"
  by (auto simp: goes_def leads_def)

lemma goes_star_stop: "stuck a s \<Longrightarrow> goes (Star a) s cs s cs"
  unfolding goes_def stuck_def by (blast intro: leads_star_stop)

lemma goes_star_step:
  "goes a s cs t cs1 \<Longrightarrow> length t < length s \<Longrightarrow> goes (Star a) t cs1 u cs2 \<Longrightarrow> goes (Star a) s cs u cs2"
  unfolding goes_def using leads_star_step by (metis fst_conv snd_conv)

text \<open>An alternative is decided by what follows it.\<close>

lemma cat_Alt: "rm (cat (Alt a b # rs)) c = rm (cat (a # rs)) c @ rm (cat (b # rs)) c"
  by simp

lemma cat_Group_Alt:
  "rm (cat (Group i (Alt a b) # rs)) c = rm (cat (Group i a # rs)) c @ rm (cat (Group i b # rs)) c"
  by simp

lemma goes_alt: "goes (cat (a # rs)) s cs u cs' \<Longrightarrow> goes (cat (Alt a b # rs)) s cs u cs'"
  unfolding goes_def leads_def cat_Alt by (metis append_Cons)

lemma goes_alt_right: "stuck (cat (a # rs)) s \<Longrightarrow> goes (cat (b # rs)) s cs u cs' \<Longrightarrow> goes (cat (Alt a b # rs)) s cs u cs'"
  unfolding goes_def leads_def stuck_def cat_Alt by (metis append_Nil)

lemma goes_group_alt:
  "goes (cat (Group i a # rs)) s cs u cs' \<Longrightarrow> goes (cat (Group i (Alt a b) # rs)) s cs u cs'"
  unfolding goes_def leads_def cat_Group_Alt by (metis append_Cons)

lemma goes_group_alt_right:
  "stuck (cat (Group i a # rs)) s \<Longrightarrow> goes (cat (Group i b # rs)) s cs u cs' \<Longrightarrow>
    goes (cat (Group i (Alt a b) # rs)) s cs u cs'"
  unfolding goes_def leads_def stuck_def cat_Group_Alt by (metis append_Nil)

lemma goes_group_lit: "goes (cat rs) t ((i, l) # cs) u cs' \<Longrightarrow> goes (cat (Group i (Lit l) # rs)) (l @ t) cs u cs'"
  by (rule goes_cat) (auto simp: goes_def leads_def)

lemma cat_one: "rm (cat [r]) c = rm r c"
proof -
  have "rm (cat []) = (\<lambda>d. [d])" by (rule ext) simp
  then show ?thesis by (simp del: cat_Nil)
qed

lemma goes_one: "goes (cat [r]) = goes r" and stuck_one: "stuck (cat [r]) = stuck r"
  by (intro ext, simp add: goes_def leads_def cat_one del: cat_Cons)
     (rule ext, simp add: stuck_def cat_one del: cat_Cons)

lemma goes_rm: "goes r s cs t cs' \<Longrightarrow> \<exists>q ds. rm r (p, s, cs) = (q, t, cs') # ds"
  by (simp add: goes_def leads_def)

lemma goes_match: "goes r s [] t cs \<Longrightarrow> re_match r s = Some cs"
  by (auto simp: goes_def leads_def re_match_def) (metis list.simps(5) prod.sel(2))

lemma goes_search: "goes r s [] t cs \<Longrightarrow> \<exists>q. re_search r p s = Some (q, t, cs)"
  unfolding goes_def using leads_search by metis

lemma stuck_match: "stuck r s \<Longrightarrow> re_match r s = None"
  by (simp add: stuck_def re_match_def)

lemma stuck_cat: "stuck a s \<Longrightarrow> stuck (cat (a # rs)) s"
  by (simp add: stuck_def)

lemma stuck_lit: "\<not> prefix l s \<Longrightarrow> stuck (cat (Lit l # rs)) s"
  by (simp add: stuck_def)

lemma stuck_lit_rest: "stuck (cat rs) t \<Longrightarrow> stuck (cat (Lit l # rs)) (l @ t)"
  by (simp add: stuck_def)

lemma stuck_no_blank: "s = [] \<or> \<not> is_ws (hd s) \<Longrightarrow> stuck (cat rs) s \<Longrightarrow> stuck (cat (ws_star # rs)) s"
proof -
  assume "s = [] \<or> \<not> is_ws (hd s)" and k: "stuck (cat rs) s"
  then have "unit_in is_ws (p, s, cs) = []" for p cs by (cases s) auto
  then have "rm ws_star (p, s, cs) = [(p, s, cs)]" for p cs by (cases "length s") simp_all
  with k show ?thesis by (simp add: stuck_def)
qed

lemma stuck_run: "s = [] \<or> \<not> P (hd s) \<Longrightarrow> stuck (cat (Plus (Chr P) # rs)) s"
  by (cases s) (simp_all add: stuck_def Plus_def)

lemma stuck_blank:
  assumes "t = [] \<or> \<not> is_ws (hd t)" "stuck (cat rs) (32 # t)" "stuck (cat rs) t"
  shows "stuck (cat (ws_star # rs)) (32 # t)"
proof -
  have "unit_in is_ws (p, t, cs) = []" for p cs using assms(1) by (cases t) auto
  then have "star_iter (unit_in is_ws) n (p, t, cs) = [(p, t, cs)]" for p cs n by (cases n) simp_all
  then have "rm ws_star (p, 32 # t, cs) = [(Some 32, t, cs), (p, 32 # t, cs)]" for p cs by (simp add: is_ws_def)
  with assms(2,3) show ?thesis by (simp add: stuck_def)
qed

lemma stuck_group: "stuck a s \<Longrightarrow> stuck (cat (Group i a # rs)) s"
  by (simp add: stuck_def)

lemma stuck_group_lit: "\<not> prefix l s \<Longrightarrow> stuck (cat (Group i (Lit l) # rs)) s"
  by (simp add: stuck_def)

lemma stuck_group_lit_rest: "stuck (cat rs) t \<Longrightarrow> stuck (cat (Group i (Lit l) # rs)) (l @ t)"
  by (simp add: stuck_def)

lemma stuck_alt: "stuck (cat (a # rs)) s \<Longrightarrow> stuck (cat (b # rs)) s \<Longrightarrow> stuck (cat (Alt a b # rs)) s"
  by (simp add: stuck_def)

lemma stuck_opt: "stuck a s \<Longrightarrow> stuck (cat rs) s \<Longrightarrow> stuck (cat (Opt a # rs)) s"
  by (simp add: stuck_def)

text \<open>An expression that cannot start on the units of \<open>x\<close> is searched for behind them.\<close>

lemma search_skip:
  "(\<And>a y. x = a @ y \<Longrightarrow> y \<noteq> [] \<Longrightarrow> stuck r (y @ t)) \<Longrightarrow> re_search r p (x @ t) = re_search r (after p x) t"
proof (induction x arbitrary: p)
  case Nil
  then show ?case by (simp add: after_def)
next
  case (Cons a x)
  have "stuck r ((a # x) @ t)" by (rule Cons.prems [of "[]"]) simp_all
  moreover have "re_search r (Some a) (x @ t) = re_search r (after (Some a) x) t"
    by (rule Cons.IH, rule Cons.prems [of "a # _"]) simp_all
  ultimately show ?case by (simp add: stuck_def after_def)
qed

end
