(* ===== verification/TierExpr.thy ===== *)
theory TierExpr
  imports BillingExpr JsRegexLead
begin

text \<open>
  \<open>features/pricing/lib/tier-expr.ts\<close>: the tiers of the price editor, the expression printed from them
  and the reading back of an expression. A tier's prices beyond input and output are the properties
  named by \<open>BILLING_CACHE_VAR_MAP\<close>, kept in its order. A \<open>Partial<VisualTier>\<close> is a record of options.

  What these functions do to each other is proved in \<open>TierReopen\<close>.
\<close>

section \<open>Tiers\<close>

datatype CacheMode = CACHE_MODE_TIMED | CACHE_MODE_GENERIC

datatype CondValue = NumValue jsnum | TextValue jstr

record TierConditionInput =
  ci_var :: CondVar
  ci_op :: CondOp
  ci_value :: CondValue

record VisualTier =
  v_label :: jstr
  v_conditions :: "TierConditionInput list"
  input_unit_cost :: jsnum
  output_unit_cost :: jsnum
  cache_mode :: CacheMode
  extra_costs :: "(jstr \<times> jsnum) list"

record PartialTier =
  pt_label :: "jstr option"
  pt_conditions :: "TierConditionInput list option"
  pt_input :: "jsnum option"
  pt_output :: "jsnum option"
  pt_cache_mode :: "CacheMode option"
  pt_extra :: "(jstr \<times> jsnum) list"

type_synonym VisualConfig = "VisualTier list"

definition getTierCacheMode :: "PartialTier \<Rightarrow> CacheMode" where
  "getTierCacheMode tier =
     (case pt_cache_mode tier of
        Some m \<Rightarrow> m
      | None \<Rightarrow>
          (case map_of (pt_extra tier) (js ''cache_create_1h_unit_cost'') of
             Some x \<Rightarrow> if num_lt (Fin 0) x then CACHE_MODE_TIMED else CACHE_MODE_GENERIC
           | None \<Rightarrow> CACHE_MODE_GENERIC))"

text \<open>
  The spread of the given tier stands after the first five properties, so a given input or output
  price is kept as it is, also when it is not a number; the prices after the spread are converted.
\<close>

definition normalizeVisualTier :: "PartialTier \<Rightarrow> VisualTier" where
  "normalizeVisualTier tier =
     \<lparr>v_label = (case pt_label tier of Some l \<Rightarrow> l | None \<Rightarrow> []),
      v_conditions = (case pt_conditions tier of Some cs \<Rightarrow> cs | None \<Rightarrow> []),
      input_unit_cost = (case pt_input tier of Some x \<Rightarrow> x | None \<Rightarrow> Fin 0),
      output_unit_cost = (case pt_output tier of Some x \<Rightarrow> x | None \<Rightarrow> Fin 0),
      cache_mode = getTierCacheMode tier,
      extra_costs = map (\<lambda>cv. (fst cv, num_or0 (map_of (pt_extra tier) (fst cv)))) BILLING_CACHE_VAR_MAP\<rparr>"

definition partial_of :: "VisualTier \<Rightarrow> PartialTier" where
  "partial_of tier =
     \<lparr>pt_label = Some (v_label tier), pt_conditions = Some (v_conditions tier), pt_input = Some (input_unit_cost tier),
      pt_output = Some (output_unit_cost tier), pt_cache_mode = Some (cache_mode tier), pt_extra = extra_costs tier\<rparr>"

definition createDefaultVisualConfig :: VisualConfig where
  "createDefaultVisualConfig =
     [normalizeVisualTier
       \<lparr>pt_label = Some (js ''base''), pt_conditions = Some [], pt_input = Some (Fin 0), pt_output = Some (Fin 0),
        pt_cache_mode = Some CACHE_MODE_GENERIC, pt_extra = []\<rparr>]"

definition normalizeVisualConfig :: "VisualConfig option \<Rightarrow> VisualConfig" where
  "normalizeVisualConfig config =
     (case config of
        None \<Rightarrow> createDefaultVisualConfig
      | Some tiers \<Rightarrow>
          if tiers = [] then createDefaultVisualConfig else map (\<lambda>t. normalizeVisualTier (partial_of t)) tiers)"

section \<open>Printing\<close>

definition cond_var_text :: "CondVar \<Rightarrow> jstr" where
  "cond_var_text v = (case v of Vp \<Rightarrow> js ''p'' | Vc \<Rightarrow> js ''c'' | Vlen \<Rightarrow> js ''len'')"

definition cond_op_text :: "CondOp \<Rightarrow> jstr" where
  "cond_op_text x = (case x of OpLt \<Rightarrow> js ''<'' | OpLe \<Rightarrow> js ''<='' | OpGt \<Rightarrow> js ''>'' | OpGe \<Rightarrow> js ''>='')"

definition cond_value_text :: "CondValue \<Rightarrow> jstr" where
  "cond_value_text v = (case v of NumValue x \<Rightarrow> num_to_string x | TextValue s \<Rightarrow> s)"

definition condition_text :: "TierConditionInput \<Rightarrow> jstr" where
  "condition_text c =
     cond_var_text (ci_var c) @ js '' '' @ cond_op_text (ci_op c) @ js '' '' @ cond_value_text (ci_value c)"

definition buildConditionStr :: "TierConditionInput list \<Rightarrow> jstr" where
  "buildConditionStr conds =
     join (js '' && '') (map condition_text (filter (\<lambda>c. ci_value c \<noteq> TextValue []) conds))"

definition cost_part :: "jstr \<Rightarrow> jsnum \<Rightarrow> jstr" where
  "cost_part var x = var @ js '' * '' @ num_to_string x"

definition buildTierBodyExpr :: "VisualTier \<Rightarrow> jstr" where
  "buildTierBodyExpr tier =
     join (js '' + '')
       ([cost_part (js ''p'') (num_or0 (Some (input_unit_cost tier))),
         cost_part (js ''c'') (num_or0 (Some (output_unit_cost tier)))] @
        List.map_filter
          (\<lambda>cv. let v = num_or0 (map_of (extra_costs tier) (fst cv)) in
             if num_eq v (Fin 0) then None else Some (cost_part (snd cv) v)) BILLING_CACHE_VAR_MAP)"

definition tier_text :: "jstr \<Rightarrow> VisualTier \<Rightarrow> jstr" where
  \<open>tier_text fallback tier =
     js ''tier("'' @ (if v_label tier = [] then fallback else v_label tier) @ js ''", '' @ buildTierBodyExpr tier @ js '')''\<close>

definition generateExprFromVisualConfig :: "VisualConfig option \<Rightarrow> jstr" where
  "generateExprFromVisualConfig config =
     (case config of
        None \<Rightarrow> js ''p * 0 + c * 0''
      | Some [] \<Rightarrow> js ''p * 0 + c * 0''
      | Some [tier] \<Rightarrow>
          (let body = tier_text (js ''default'') tier; cond = buildConditionStr (v_conditions tier) in
           if cond \<noteq> [] then cond @ js '' ? '' @ body @ js '' : p * 0 + c * 0'' else body)
      | Some tiers \<Rightarrow>
          join (js '' : '')
            (map (\<lambda>(i, tier).
               let body = tier_text (js ''tier_'' @ dec (Suc i)) tier; cond = buildConditionStr (v_conditions tier) in
               if i < length tiers - 1 \<and> cond \<noteq> [] then cond @ js '' ? '' @ body else body)
             (enumerate 0 tiers)))"

section \<open>Reading\<close>

definition opt_cost_re :: "nat \<Rightarrow> jstr \<Rightarrow> re" where
  "opt_cost_re i v =
     Opt (cat [ws_star, Lit (js ''+''), ws_star, Lit v, ws_star, Lit (js ''*''), ws_star, Group i num_run])"

definition cacheVarNames :: "jstr list" where
  "cacheVarNames = map snd BILLING_CACHE_VAR_MAP"

text \<open>\<open>bodyPat\<close>, its groups numbered from \<open>i\<close>.\<close>

definition body_res :: "nat \<Rightarrow> re list" where
  "body_res i =
     [Lit (js ''p''), ws_star, Lit (js ''*''), ws_star, Group i num_run, ws_star, Lit (js ''+''), ws_star,
      Lit (js ''c''), ws_star, Lit (js ''*''), ws_star, Group (Suc i) num_run] @
     map (\<lambda>(j, v). opt_cost_re j v) (enumerate (i + 2) cacheVarNames)"

definition single_re :: re where
  \<open>single_re =
     cat ([Lit (js ''tier("''), Group 1 (Star not_quote), Lit (js ''",''), ws_star] @ body_res 2 @ [Lit (js '')''), EOL])\<close>

definition tier_re :: re where
  \<open>tier_re =
     cat ([Opt (cat [cond_group_re, ws_star, Lit (js ''?''), ws_star]),
           Lit (js ''tier("''), Group 2 (Star not_quote), Lit (js ''",''), ws_star] @ body_res 3 @ [Lit (js '')'')])\<close>

text \<open>The optional prices of a match, from group \<open>i\<close> on.\<close>

definition matched_extras :: "nat \<Rightarrow> (nat \<times> jstr) list \<Rightarrow> (jstr \<times> jsnum) list" where
  "matched_extras i m =
     List.map_filter (\<lambda>(j, cv). case cap j m of Some val \<Rightarrow> Some (fst cv, js_Number val) | None \<Rightarrow> None)
       (enumerate i BILLING_CACHE_VAR_MAP)"

definition input_condition :: "TierCondition \<Rightarrow> TierConditionInput" where
  "input_condition c = \<lparr>ci_var = tc_var c, ci_op = tc_op c, ci_value = NumValue (tc_value c)\<rparr>"

definition matched_tier :: "nat \<Rightarrow> TierConditionInput list \<Rightarrow> (nat \<times> jstr) list \<Rightarrow> VisualTier" where
  "matched_tier i conds m =
     normalizeVisualTier
       \<lparr>pt_label = Some (cap_str i m), pt_conditions = Some conds,
        pt_input = Some (js_Number (cap_str (i + 1) m)), pt_output = Some (js_Number (cap_str (i + 2) m)),
        pt_cache_mode = None, pt_extra = matched_extras (i + 3) m\<rparr>"

definition no_ws :: "jstr \<Rightarrow> jstr" where
  "no_ws s = re_replace ws_plus [] s"

definition tryParseVisualConfig :: "jstr \<Rightarrow> VisualConfig option" where
  "tryParseVisualConfig exprStr =
     (if exprStr = [] then None
      else
        let body = (case re_match VERSION_REGEX exprStr of Some m \<Rightarrow> cap_str 2 m | None \<Rightarrow> exprStr) in
        case re_match single_re body of
          Some simple \<Rightarrow> Some (normalizeVisualConfig (Some [matched_tier 1 [] simple]))
        | None \<Rightarrow>
            let tiers = map (\<lambda>m. matched_tier 2 (map input_condition (parse_tier_conditions (cap_str 1 m))) m)
                          (re_matches tier_re body) in
            if tiers = [] then None
            else
              let cfg = normalizeVisualConfig (Some tiers) in
              if no_ws (generateExprFromVisualConfig (Some cfg)) \<noteq> no_ws body then None else Some cfg)"

section \<open>The estimator\<close>

text \<open>
  \<open>js_eval\<close> stands for \<open>new Function\<close>: from the names bound to numbers and the source text it gives the
  message of the exception, or the result as \<open>Number\<close> reads it and the names \<open>tier\<close> was called with.
\<close>

definition ESTIMATOR_VARS :: "(jstr \<times> jstr) list" where
  "ESTIMATOR_VARS =
     [(js ''cr'', js ''cacheReadTokens''), (js ''cc'', js ''cacheCreateTokens''), (js ''cc1h'', js ''cacheCreate1hTokens''),
      (js ''img'', js ''imageTokens''), (js ''img_o'', js ''imageOutputTokens''), (js ''ai'', js ''audioInputTokens''),
      (js ''ao'', js ''audioOutputTokens'')]"

record EvalResult =
  est_cost :: jsnum
  matchedTier :: jstr
  est_error :: "jstr option"

definition estimator_env :: "jsnum \<Rightarrow> jsnum \<Rightarrow> (jstr \<times> jsnum) list \<Rightarrow> (jstr \<times> jsnum) list" where
  "estimator_env promptTokens completionTokens extraTokenValues =
     (let tokens = (\<lambda>k. num_or0 (map_of extraTokenValues (js k)));
          total = num_add (num_add (num_add promptTokens (tokens ''cacheReadTokens'')) (tokens ''cacheCreateTokens''))
                    (tokens ''cacheCreate1hTokens'') in
      [(js ''p'', promptTokens), (js ''c'', completionTokens), (js ''len'', total)] @
      map (\<lambda>v. (fst v, num_or0 (map_of extraTokenValues (snd v)))) ESTIMATOR_VARS)"

definition evalExprLocally ::
  "((jstr \<times> jsnum) list \<Rightarrow> jstr \<Rightarrow> jstr + jsnum \<times> jstr list) \<Rightarrow> jstr \<Rightarrow> jsnum \<Rightarrow> jsnum \<Rightarrow> (jstr \<times> jsnum) list \<Rightarrow> EvalResult" where
  \<open>evalExprLocally js_eval exprStr promptTokens completionTokens extraTokenValues =
     (if trim exprStr = [] then \<lparr>est_cost = Fin 0, matchedTier = [], est_error = None\<rparr>
      else case js_eval (estimator_env promptTokens completionTokens extraTokenValues)
                  (js ''"use strict"; return ('' @ exprStr @ js '');'') of
        Inl message \<Rightarrow> \<lparr>est_cost = Fin 0, matchedTier = [], est_error = Some message\<rparr>
      | Inr (v, calls) \<Rightarrow>
          \<lparr>est_cost = num_or0 (Some v), matchedTier = (if calls = [] then [] else last calls), est_error = None\<rparr>)\<close>

definition exprUsesExtraVars :: "jstr \<Rightarrow> bool" where
  "exprUsesExtraVars exprStr \<longleftrightarrow>
     exprStr \<noteq> [] \<and> re_search (cat [WordB, alts (map (\<lambda>v. Lit (fst v)) ESTIMATOR_VARS), WordB]) None exprStr \<noteq> None"

end
