(* ===== verification/TierText.thy ===== *)
theory TierText
  imports TierExpr
begin

text \<open>
  The text of tiers and its reading: how \<open>single_re\<close> and \<open>tier_re\<close> match what
  \<open>generateExprFromVisualConfig\<close> prints, part by part, and that \<open>tryParseVisualConfig\<close> returns the
  printed tiers.
\<close>

section \<open>The optional prices\<close>

definition number_ok :: "jsnum \<Rightarrow> bool" where
  "number_ok x \<longleftrightarrow> (case x of Fin q \<Rightarrow> js_Number (num_to_string x) = x | _ \<Rightarrow> False)"

definition name_ok :: "jstr \<Rightarrow> bool" where
  "name_ok v \<longleftrightarrow> v \<noteq> [] \<and> (\<forall>u\<in>set v. is_word u)"

definition cost_tail :: "jstr list \<Rightarrow> jsnum list \<Rightarrow> jstr" where
  "cost_tail vs xs = concat (map (\<lambda>(v, x). if x = Fin 0 then [] else js '' + '' @ cost_part v x) (zip vs xs))"

fun cost_caps :: "nat \<Rightarrow> jsnum list \<Rightarrow> (nat \<times> jstr) list \<Rightarrow> (nat \<times> jstr) list" where
  "cost_caps k [] cs = cs"
| "cost_caps k (x # xs) cs = cost_caps (Suc k) xs (if x = Fin 0 then cs else (k, num_to_string x) # cs)"

lemma cache_names:
  "cacheVarNames = [js ''cr'', js ''cc'', js ''cc1h'', js ''img'', js ''img_o'', js ''ai'', js ''ao'']"
  by (simp add: cacheVarNames_def BILLING_CACHE_VAR_MAP_def BILLING_EXTRA_VARS_def BILLING_VARS_def)

lemma cache_names_ok: "\<forall>v\<in>set cacheVarNames. name_ok v" "distinct cacheVarNames"
  by (simp_all add: cache_names name_ok_def js_def is_word_def is_digit_def)

lemma number_units: "number_ok x \<Longrightarrow> \<forall>u\<in>set (num_to_string x). num_unit u"
  using string_number_units by (cases x) (fastforce simp: number_ok_def num_unit_def simp del: num_to_string.simps)+

lemma cost_tail_Nil [simp]: "cost_tail [] xs = []"
  by (simp add: cost_tail_def)

lemma cost_tail_Cons [simp]:
  "cost_tail (v # vs) (x # xs) = (if x = Fin 0 then [] else js '' + '' @ cost_part v x) @ cost_tail vs xs"
  by (simp add: cost_tail_def)

lemma cost_tail_shape:
  "length xs = length vs \<Longrightarrow> cost_tail vs xs = [] \<or> (\<exists>w\<in>set vs. \<exists>y. cost_tail vs xs = js '' + '' @ w @ js '' * '' @ y)"
proof (induction vs arbitrary: xs)
  case (Cons v vs)
  then obtain x ys where xs: "xs = x # ys" "length ys = length vs" by (cases xs) auto
  show ?case
  proof (cases "x = Fin 0")
    case False
    then have "cost_tail (v # vs) xs = js '' + '' @ v @ js '' * '' @ num_to_string x @ cost_tail vs ys"
      by (simp add: xs cost_part_def)
    then show ?thesis by auto
  qed (use Cons.IH [OF xs(2)] xs in auto)
qed simp

lemma number_nonempty: "number_ok x \<Longrightarrow> num_to_string x \<noteq> []"
proof
  assume "number_ok x" "num_to_string x = []"
  then have "x = Fin 0" by (cases x) (auto simp: number_ok_def js_Number_def trim_def simp del: num_to_string.simps)
  moreover have "num_to_string (Fin 0) = dec 0" using num_to_string_nat [of 0] by simp
  ultimately show False using \<open>num_to_string x = []\<close> by simp
qed

abbreviation cost_res :: "nat \<Rightarrow> jstr \<Rightarrow> re list" where
  "cost_res i v \<equiv> [ws_star, Lit (js ''+''), ws_star, Lit v, ws_star, Lit (js ''*''), ws_star, Group i num_run]"

lemma word_not_ws: "is_word u \<Longrightarrow> \<not> is_ws u" "is_word u \<Longrightarrow> u \<noteq> 42" "is_word u \<Longrightarrow> u \<noteq> 32"
  by (auto simp: is_word_def is_digit_def is_ws_def)

lemma other_name_stuck:
  assumes "name_ok v" "name_ok w" "v \<noteq> w"
  shows "stuck (cat (Lit v # ws_star # Lit (js ''*'') # rs)) (w @ js '' * '' @ y)"
proof (cases "prefix v (w @ js '' * '' @ y)")
  case True
  have "prefix v w"
  proof (rule ccontr)
    assume "\<not> prefix v w"
    with True have "\<exists>z. v = w @ z \<and> z \<noteq> []"
      by (metis prefix_append prefix_order.refl self_append_conv)
    then obtain a z where "v = w @ a # z" by (metis neq_Nil_conv)
    with True have "a = 32" by (simp add: js_def)
    with assms(1) \<open>v = w @ a # z\<close> word_not_ws(3) [of a] show False by (simp add: name_ok_def)
  qed
  with assms(3) obtain a z where w: "w = v @ a # z" by (metis append_Nil2 neq_Nil_conv prefix_def)
  with assms(2) have a: "is_word a" by (simp add: name_ok_def)
  have "stuck (cat (ws_star # Lit (js ''*'') # rs)) ((a # z) @ js '' * '' @ y)"
  proof (rule stuck_no_blank)
    show "(a # z) @ js '' * '' @ y = [] \<or> \<not> is_ws (hd ((a # z) @ js '' * '' @ y))" using a word_not_ws(1) by simp
    show "stuck (cat (Lit (js ''*'') # rs)) ((a # z) @ js '' * '' @ y)"
      by (rule stuck_lit) (use a word_not_ws(2) in \<open>auto simp: js_def\<close>)
  qed
  then show ?thesis using stuck_lit_rest [of _ "(a # z) @ js '' * '' @ y" v] by (simp add: w)
qed (rule stuck_lit)

lemma other_cost_stuck:
  assumes "name_ok v" "name_ok w" "v \<noteq> w"
  shows "stuck (cat (cost_res i v)) (js '' + '' @ w @ js '' * '' @ y)"
proof -
  have hw: "w \<noteq> []" "\<not> is_ws (hd w)" using assms(2) word_not_ws(1) by (auto simp: name_ok_def)
  have hv: "v \<noteq> []" "hd v \<noteq> 32" using assms(1) word_not_ws(3) by (auto simp: name_ok_def)
  let ?t = "w @ js '' * '' @ y"
  have "stuck (cat (drop 3 (cost_res i v))) ?t" using other_name_stuck [OF assms] by (simp add: numeral_3_eq_3)
  moreover have "stuck (cat (drop 3 (cost_res i v))) (32 # ?t)"
    using hv by (auto simp: numeral_3_eq_3 prefix_Cons neq_Nil_conv intro!: stuck_lit)
  ultimately have "stuck (cat (drop 2 (cost_res i v))) (32 # ?t)"
    using hw by (simp add: numeral_3_eq_3 numeral_2_eq_2 del: cat_Cons) (rule stuck_blank, auto)
  then have "stuck (cat (drop 1 (cost_res i v))) (js ''+'' @ 32 # ?t)"
    by (simp add: numeral_2_eq_2 del: cat_Cons) (rule stuck_lit_rest)
  then have a: "stuck (cat (drop 1 (cost_res i v))) (43 # 32 # ?t)" by (simp add: js_def)
  have b: "stuck (cat (drop 1 (cost_res i v))) (32 # 43 # 32 # ?t)"
    by (simp del: cat_Cons) (rule stuck_lit, simp add: js_def)
  from a b have "stuck (cat (cost_res i v)) (32 # 43 # 32 # ?t)"
    by (simp del: cat_Cons) (rule stuck_blank, auto simp: is_ws_def)
  then show ?thesis by (simp add: js_def)
qed

lemma close_cost_stuck: "stuck (cat (cost_res i v)) (41 # t)"
  by (rule stuck_no_blank) (auto simp: is_ws_def js_def intro!: stuck_lit)


lemma cost_goes:
  assumes "name_ok v" "number_ok x" "s = [] \<or> \<not> num_unit (hd s)"
  shows "goes (cat (cost_res i v)) (js '' + '' @ cost_part v x @ s) cs s ((i, num_to_string x) # cs)"
proof -
  let ?n = "num_to_string x"
  have n: "?n \<noteq> []" "\<forall>u\<in>set ?n. num_unit u" using number_nonempty number_units assms(2) by auto
  have "num_unit (hd ?n)" using n by simp
  then have nw: "\<not> is_ws (hd ?n)" by (auto simp: num_unit_def is_digit_def is_ws_def)
  have vw: "v \<noteq> []" "\<not> is_ws (hd v)" using assms(1) word_not_ws(1) by (auto simp: name_ok_def)
  have "goes (cat (cost_res i v)) (32 # js ''+'' @ 32 # v @ 32 # js ''*'' @ 32 # ?n @ s) cs s ((i, ?n) # cs)"
    by (intro goes_blank goes_lit goes_run goes_nil n assms(3)) (use n nw vw in \<open>auto simp: is_ws_def js_def\<close>)
  then show ?thesis by (simp add: js_def cost_part_def)
qed

lemma tail_head: "length xs = length vs \<Longrightarrow> cost_tail vs xs @ 41 # t \<noteq> [] \<and> hd (cost_tail vs xs @ 41 # t) \<in> {32, 41}"
  using cost_tail_shape [of xs vs] by (auto simp: js_def)

lemma costs_go:
  assumes "goes (cat rs) (41 # t) (cost_caps k xs cs) u cs'"
    and "length xs = length vs" "\<forall>v\<in>set vs. name_ok v" "distinct vs" "\<forall>x\<in>set xs. number_ok x"
  shows "goes (cat (map (\<lambda>(j, v). opt_cost_re j v) (enumerate k vs) @ rs)) (cost_tail vs xs @ 41 # t) cs u cs'"
  using assms
proof (induction vs arbitrary: k xs cs)
  case Nil
  then show ?case by simp
next
  case (Cons v vs)
  then obtain x ys where xs: "xs = x # ys" "length ys = length vs" by (cases xs) auto
  let ?rest = "cost_tail vs ys @ 41 # t"
  have ih: "goes (cat (map (\<lambda>(j, v). opt_cost_re j v) (enumerate (Suc k) vs) @ rs)) ?rest
      (if x = Fin 0 then cs else (k, num_to_string x) # cs) u cs'"
    by (rule Cons.IH) (use Cons.prems xs in auto)
  show ?case
  proof (cases "x = Fin 0")
    case True
    have "stuck (cat (cost_res k v)) ?rest"
    proof (cases "cost_tail vs ys = []")
      case True
      then show ?thesis using close_cost_stuck by simp
    next
      case False
      then obtain w y where w: "w \<in> set vs" "cost_tail vs ys = js '' + '' @ w @ js '' * '' @ y"
        using cost_tail_shape [OF xs(2)] by auto
      have "stuck (cat (cost_res k v)) (js '' + '' @ w @ js '' * '' @ (y @ 41 # t))"
        by (rule other_cost_stuck) (use Cons.prems w(1) in auto)
      then show ?thesis by (simp add: w(2))
    qed
    then show ?thesis using ih True by (simp add: xs opt_cost_re_def goes_opt_none del: cat_Cons)
  next
    case False
    have "goes (cat (cost_res k v)) (js '' + '' @ cost_part v x @ ?rest) cs ?rest ((k, num_to_string x) # cs)"
      by (rule cost_goes) (use Cons.prems xs tail_head [OF xs(2), of t] in \<open>auto simp: num_unit_def is_digit_def\<close>)
    then show ?thesis using ih False by (simp add: xs opt_cost_re_def goes_opt del: cat_Cons)
  qed
qed

text \<open>What a tier of numbers prints.\<close>

definition tier_costs :: "VisualTier \<Rightarrow> jsnum list" where
  "tier_costs t = map (\<lambda>cv. num_or0 (map_of (extra_costs t) (fst cv))) BILLING_CACHE_VAR_MAP"

definition tier_numbers_ok :: "VisualTier \<Rightarrow> bool" where
  "tier_numbers_ok t \<longleftrightarrow> number_ok (input_unit_cost t) \<and> number_ok (output_unit_cost t) \<and>
     map fst (extra_costs t) = map fst BILLING_CACHE_VAR_MAP \<and> list_all number_ok (map snd (extra_costs t))"

lemma num_or0_ok [simp]: "number_ok x \<Longrightarrow> num_or0 (Some x) = x"
  by (cases x) (simp_all add: number_ok_def num_or0_def)

lemma fields_distinct: "distinct (map fst BILLING_CACHE_VAR_MAP)"
  by (simp add: BILLING_CACHE_VAR_MAP_def BILLING_EXTRA_VARS_def BILLING_VARS_def)

lemma map_of_zip_keys: "distinct (map fst ps) \<Longrightarrow> map (map_of ps) (map fst ps) = map (\<lambda>p. Some (snd p)) ps"
  by (auto intro: map_of_is_SomeI)

lemma tier_costs_eq: "tier_numbers_ok t \<Longrightarrow> tier_costs t = map snd (extra_costs t)"
proof -
  assume ok: "tier_numbers_ok t"
  let ?ps = "extra_costs t"
  have k: "map fst ?ps = map fst BILLING_CACHE_VAR_MAP" using ok by (simp add: tier_numbers_ok_def)
  have d: "distinct (map fst ?ps)" unfolding k by (rule fields_distinct)
  have "map (map_of ?ps) (map fst BILLING_CACHE_VAR_MAP) = map (\<lambda>p. Some (snd p)) ?ps"
    by (rule map_of_zip_keys [OF d, unfolded k])
  then have "map num_or0 (map (map_of ?ps) (map fst BILLING_CACHE_VAR_MAP)) = map num_or0 (map (\<lambda>p. Some (snd p)) ?ps)"
    by (rule arg_cong)
  moreover have "map num_or0 (map (\<lambda>p. Some (snd p)) ?ps) = map snd ?ps"
    using ok by (auto simp: tier_numbers_ok_def list_all_iff)
  ultimately show ?thesis by (simp add: tier_costs_def comp_def)
qed

lemma join_parts: "join sep (x # xs) = x @ concat (map (\<lambda>y. sep @ y) xs)"
  by (induction xs arbitrary: x) auto

lemma body_tail:
  "concat (map (\<lambda>y. js '' + '' @ y) (List.map_filter
     (\<lambda>cv. let v = f cv in if num_eq v (Fin 0) then None else Some (cost_part (snd cv) v)) ps))
   = cost_tail (map snd ps) (map f ps)"
  by (induction ps) (auto simp: List.map_filter_def Let_def num_eq_def)

lemma buildTierBodyExpr_eq:
  assumes "tier_numbers_ok t"
  shows "buildTierBodyExpr t = js ''p * '' @ num_to_string (input_unit_cost t) @ js '' + c * '' @
    num_to_string (output_unit_cost t) @ cost_tail cacheVarNames (tier_costs t)"
proof -
  have n: "num_or0 (Some (input_unit_cost t)) = input_unit_cost t" "num_or0 (Some (output_unit_cost t)) = output_unit_cost t"
    using assms by (simp_all add: tier_numbers_ok_def)
  show ?thesis
    using body_tail [of "\<lambda>cv. num_or0 (map_of (extra_costs t) (fst cv))" BILLING_CACHE_VAR_MAP]
    by (simp add: buildTierBodyExpr_def n join_parts tier_costs_def cacheVarNames_def cost_part_def js_def)
qed


section \<open>A tier's body\<close>

definition body_caps :: "nat \<Rightarrow> VisualTier \<Rightarrow> (nat \<times> jstr) list \<Rightarrow> (nat \<times> jstr) list" where
  "body_caps i t cs =
     cost_caps (i + 2) (tier_costs t)
       ((Suc i, num_to_string (output_unit_cost t)) # (i, num_to_string (input_unit_cost t)) # cs)"

lemma number_head: "number_ok x \<Longrightarrow> \<not> is_ws (hd (num_to_string x)) \<and> num_to_string x \<noteq> []"
proof -
  assume x: "number_ok x"
  then have "num_unit (hd (num_to_string x))" using number_nonempty number_units by simp
  then show ?thesis using number_nonempty [OF x] by (auto simp: num_unit_def is_digit_def is_ws_def)
qed

lemma run_head: "a \<noteq> [] \<Longrightarrow> \<forall>u\<in>set a. num_unit u \<Longrightarrow> \<not> is_ws (hd a)"
  by (cases a) (auto simp: num_unit_def is_digit_def is_ws_def)

lemma body_runs:
  assumes "a \<noteq> []" "\<forall>u\<in>set a. num_unit u" "b \<noteq> []" "\<forall>u\<in>set b. num_unit u"
    and "length xs = length cacheVarNames" "\<forall>x\<in>set xs. number_ok x"
    and "goes (cat rs) (41 # s) (cost_caps (i + 2) xs ((Suc i, b) # (i, a) # cs)) u cs'"
  shows "goes (cat (body_res i @ rs)) (js ''p * '' @ a @ js '' + c * '' @ b @ cost_tail cacheVarNames xs @ 41 # s) cs u cs'"
proof -
  let ?tail = "cost_tail cacheVarNames xs @ 41 # s"
  have tail: "goes (cat (map (\<lambda>(j, v). opt_cost_re j v) (enumerate (i + 2) cacheVarNames) @ rs)) ?tail
      ((Suc i, b) # (i, a) # cs) u cs'"
    by (rule costs_go [OF assms(7) assms(5) cache_names_ok assms(6)])
  have h: "?tail = [] \<or> \<not> num_unit (hd ?tail)" "?tail = [] \<or> hd ?tail \<in> {32, 41}"
    using tail_head [OF assms(5), of s] by (auto simp: num_unit_def is_digit_def)
  have "goes (cat ([Lit (js ''p''), ws_star, Lit (js ''*''), ws_star, Group i num_run, ws_star, Lit (js ''+''), ws_star,
      Lit (js ''c''), ws_star, Lit (js ''*''), ws_star, Group (Suc i) num_run] @
      map (\<lambda>(j, v). opt_cost_re j v) (enumerate (i + 2) cacheVarNames) @ rs))
    (js ''p'' @ 32 # js ''*'' @ 32 # a @ 32 # js ''+'' @ 32 # js ''c'' @ 32 # js ''*'' @ 32 # b @ ?tail) cs u cs'"
    unfolding append_Cons append_Nil
    by (intro goes_lit goes_blank goes_run tail h(1) assms(1-4))
       (use run_head [OF assms(1,2)] run_head [OF assms(3,4)] assms(1,3) in
         \<open>auto simp: js_def is_ws_def num_unit_def is_digit_def\<close>)
  then show ?thesis by (simp add: body_res_def js_def)
qed

lemma body_goes:
  assumes "tier_numbers_ok t" "goes (cat rs) (41 # s) (body_caps i t cs) u cs'"
  shows "goes (cat (body_res i @ rs)) (buildTierBodyExpr t @ 41 # s) cs u cs'"
proof -
  have ok: "number_ok (input_unit_cost t)" "number_ok (output_unit_cost t)" "\<forall>x\<in>set (tier_costs t). number_ok x"
    using assms(1) tier_costs_eq [OF assms(1)] by (auto simp: tier_numbers_ok_def list_all_iff)
  have len: "length (tier_costs t) = length cacheVarNames" by (simp add: tier_costs_def cacheVarNames_def)
  from body_runs [OF _ number_units [OF ok(1)] _ number_units [OF ok(2)] len ok(3) assms(2) [unfolded body_caps_def]]
  show ?thesis using number_nonempty [OF ok(1)] number_nonempty [OF ok(2)]
    by (simp add: buildTierBodyExpr_eq [OF assms(1)])
qed

definition tier_text_of :: "jstr \<Rightarrow> VisualTier \<Rightarrow> jstr" where
  \<open>tier_text_of l t = js ''tier("'' @ l @ js ''", '' @ buildTierBodyExpr t @ js '')''\<close>

definition tier_res :: "nat \<Rightarrow> re list" where
  \<open>tier_res i = [Lit (js ''tier("''), Group i (Star not_quote), Lit (js ''",''), ws_star] @ body_res (Suc i)\<close>

lemma tier_text_goes:
  assumes "tier_numbers_ok t" "34 \<notin> set l" "goes (cat rs) (41 # s) (body_caps (Suc i) t ((i, l) # cs)) u cs'"
  shows "goes (cat (tier_res i @ rs)) (tier_text_of l t @ s) cs u cs'"
proof -
  have b: "hd (buildTierBodyExpr t @ 41 # s) = 112"
    by (simp add: buildTierBodyExpr_eq [OF assms(1)] js_def)
  have \<open>goes (cat ([Lit (js ''tier("''), Group i (Star not_quote), Lit (js ''",''), ws_star] @ body_res (Suc i) @ rs))
      (js ''tier("'' @ l @ js ''",'' @ 32 # buildTierBodyExpr t @ 41 # s) cs u cs'\<close>
    unfolding append_Cons append_Nil
    by (intro goes_lit goes_star_group goes_blank body_goes assms(1,3))
       (use assms(2) in \<open>auto simp: b js_def is_ws_def\<close>)
  then show ?thesis by (simp add: tier_res_def tier_text_of_def js_def)
qed

section \<open>Conditions\<close>

definition condition_ok :: "TierConditionInput \<Rightarrow> bool" where
  "condition_ok c \<longleftrightarrow>
     (case ci_value c of
        NumValue x \<Rightarrow> number_ok x \<and> 45 \<notin> set (num_to_string x)
      | TextValue _ \<Rightarrow> False)"

abbreviation pos_run :: re where "pos_run \<equiv> Plus (Chr pos_num_unit)"
abbreviation clause_res :: "re list" where
  "clause_res \<equiv> [cond_var_re, ws_star, cond_op_re, ws_star, pos_run]"
abbreviation and_re :: re where
  "and_re \<equiv> cat ([ws_star, Lit (js ''&&''), ws_star] @ clause_res)"

lemma condition_number:
  assumes "condition_ok c"
  obtains n x where "cond_value_text (ci_value c) = n" "n \<noteq> []" "\<forall>u\<in>set n. pos_num_unit u" "js_Number n = x"
    "ci_value c = NumValue x"
proof -
  obtain x where x: "ci_value c = NumValue x" "number_ok x" "45 \<notin> set (num_to_string x)"
    using assms by (auto simp: condition_ok_def split: CondValue.splits)
  have "\<forall>u\<in>set (num_to_string x). pos_num_unit u"
  proof
    fix u
    assume u: "u \<in> set (num_to_string x)"
    with number_units [OF x(2)] have "num_unit u" by blast
    with u x(3) show "pos_num_unit u" by (auto simp: num_unit_def pos_num_unit_def)
  qed
  moreover have "js_Number (num_to_string x) = x" using x(2) by (cases x) (simp_all add: number_ok_def)
  ultimately show thesis using that number_nonempty [OF x(2)] x(1) by (simp add: cond_value_text_def)
qed

lemma pos_not_ws: "pos_num_unit u \<Longrightarrow> \<not> is_ws u \<and> u \<noteq> 38 \<and> u \<noteq> 61"
  by (auto simp: pos_num_unit_def is_digit_def is_ws_def)

lemma eq_stuck: "stuck (cat (ws_star # pos_run # rs)) (61 # s)"
  by (intro stuck_no_blank stuck_run) (auto simp: is_ws_def pos_num_unit_def is_digit_def)

lemma op_goes:
  assumes "goes (cat (ws_star # pos_run # rs)) (32 # s) cs u cs'"
  shows "goes (cat (cond_op_re # ws_star # pos_run # rs)) (cond_op_text x @ 32 # s) cs u cs'"
proof (cases x)
  case OpLt
  then show ?thesis using assms by (simp add: cond_op_text_def alts_def del: cat_Cons) (intro goes_alt goes_lit)
next
  case OpLe
  have "stuck (cat (Lit (js ''<'') # ws_star # pos_run # rs)) (js ''<'' @ 61 # 32 # s)"
    by (intro stuck_lit_rest eq_stuck)
  then have "stuck (cat (Lit (js ''<'') # ws_star # pos_run # rs)) (js ''<='' @ 32 # s)" by (simp add: js_def)
  then show ?thesis using assms OpLe
    by (simp add: cond_op_text_def alts_def del: cat_Cons) (intro goes_alt_right goes_alt goes_lit)
next
  case OpGt
  have "stuck (cat (Lit l # rs')) (js ''>'' @ 32 # s)" if "l \<in> {js ''<'', js ''<=''}" for l rs'
    by (rule stuck_lit) (use that in \<open>auto simp: js_def\<close>)
  then show ?thesis using assms OpGt
    by (simp add: cond_op_text_def alts_def del: cat_Cons)
       (rule goes_alt_right, simp del: cat_Cons, rule goes_alt_right, simp del: cat_Cons, intro goes_alt goes_lit)
next
  case OpGe
  have "stuck (cat (Lit l # rs')) (js ''>='' @ 32 # s)" if "l \<in> {js ''<'', js ''<=''}" for l rs'
    by (rule stuck_lit) (use that in \<open>auto simp: js_def\<close>)
  moreover have "stuck (cat (Lit (js ''>'') # ws_star # pos_run # rs)) (js ''>'' @ 61 # 32 # s)"
    by (intro stuck_lit_rest eq_stuck)
  then have "stuck (cat (Lit (js ''>'') # ws_star # pos_run # rs)) (js ''>='' @ 32 # s)" by (simp add: js_def)
  ultimately show ?thesis using assms OpGe
    by (simp add: cond_op_text_def alts_def del: cat_Cons) (intro goes_alt_right, simp_all del: cat_Cons, intro goes_lit)
qed

lemma var_goes:
  assumes "goes (cat rs) s cs u cs'"
  shows "goes (cat (cond_var_re # rs)) (cond_var_text v @ s) cs u cs'"
proof -
  have p: "stuck (cat (Lit (js ''p'') # rs')) (js ''c'' @ s)" "stuck (cat (Lit (js ''p'') # rs')) (js ''len'' @ s)"
    and c: "stuck (cat (Lit (js ''c'') # rs')) (js ''len'' @ s)" for rs'
    by (rule stuck_lit, simp add: js_def)+
  show ?thesis
  proof (cases v)
    case Vp
    then show ?thesis using assms by (simp add: cond_var_text_def alts_def del: cat_Cons) (intro goes_alt goes_lit)
  next
    case Vc
    then show ?thesis using assms p(1)
      by (simp add: cond_var_text_def alts_def del: cat_Cons) (rule goes_alt_right, simp del: cat_Cons, intro goes_alt goes_lit)
  next
    case Vlen
    then show ?thesis using assms p(2) c
      by (simp add: cond_var_text_def alts_def del: cat_Cons)
         (rule goes_alt_right, simp del: cat_Cons, rule goes_alt_right, simp del: cat_Cons, intro goes_lit)
  qed
qed

lemma var_head: "cond_var_text v \<noteq> [] \<and> \<not> is_ws (hd (cond_var_text v)) \<and> (\<forall>u\<in>set (cond_var_text v). is_word u)"
  by (cases v) (simp_all add: cond_var_text_def js_def is_ws_def is_word_def)

lemma op_head: "cond_op_text x \<noteq> [] \<and> (\<forall>u\<in>set (cond_op_text x). \<not> is_ws u \<and> u \<noteq> 38)"
  by (cases x) (simp_all add: cond_op_text_def js_def is_ws_def)

lemma clause_goes:
  assumes "condition_ok c" "s = [] \<or> \<not> pos_num_unit (hd s)" "goes (cat rs) s cs u cs'"
  shows "goes (cat (clause_res @ rs)) (condition_text c @ s) cs u cs'"
proof -
  obtain n x where n: "cond_value_text (ci_value c) = n" "n \<noteq> []" "\<forall>u\<in>set n. pos_num_unit u"
    using condition_number [OF assms(1)] by metis
  have hn: "\<not> is_ws (hd n)" using n pos_not_ws [of "hd n"] by simp
  have ho: "\<not> is_ws (hd (cond_op_text (ci_op c)))" using op_head [of "ci_op c"] by simp
  have "goes (cat (cond_var_re # ws_star # cond_op_re # ws_star # pos_run # rs))
      (cond_var_text (ci_var c) @ 32 # cond_op_text (ci_op c) @ 32 # n @ s) cs u cs'"
  proof (intro var_goes goes_blank op_goes goes_run_plain assms(2,3) n(2,3))
    show "cond_op_text (ci_op c) @ 32 # n @ s = [] \<or> \<not> is_ws (hd (cond_op_text (ci_op c) @ 32 # n @ s))"
      using ho op_head [of "ci_op c"] by simp
    show "n @ s = [] \<or> \<not> is_ws (hd (n @ s))" using hn n(2) by simp
  qed
  then show ?thesis by (simp add: condition_text_def n(1) js_def)
qed

section \<open>Several conditions\<close>

definition and_tail :: "TierConditionInput list \<Rightarrow> jstr" where
  "and_tail conds = concat (map (\<lambda>c. js '' && '' @ condition_text c) conds)"

lemma and_tail_simps [simp]:
  "and_tail [] = []" "and_tail (c # conds) = js '' && '' @ condition_text c @ and_tail conds"
  by (simp_all add: and_tail_def)

lemma buildConditionStr_eq:
  assumes "\<forall>c\<in>set conds. condition_ok c" "conds = c # cs"
  shows "buildConditionStr conds = condition_text c @ and_tail cs"
proof -
  have "filter (\<lambda>c. ci_value c \<noteq> TextValue []) conds = conds"
    using assms(1) by (intro filter_True) (auto simp: condition_ok_def)
  then show ?thesis by (simp add: buildConditionStr_def assms(2) join_parts and_tail_def comp_def)
qed

lemma condition_head: "condition_text c \<noteq> [] \<and> \<not> is_ws (hd (condition_text c))"
  using var_head [of "ci_var c"] by (simp add: condition_text_def)

lemma and_stuck: "t = [] \<or> \<not> is_ws (hd t) \<and> hd t \<noteq> 38 \<Longrightarrow> stuck and_re (32 # t)"
  by (cases t) (auto simp: js_def is_ws_def intro!: stuck_blank stuck_lit simp del: cat_Cons)

lemma and_goes:
  assumes "\<forall>c\<in>set cs. condition_ok c" "t = [] \<or> \<not> is_ws (hd t) \<and> hd t \<noteq> 38"
  shows "goes (Star and_re) (and_tail cs @ 32 # t) caps (32 # t) caps"
  using assms(1)
proof (induction cs)
  case Nil
  then show ?case using goes_star_stop [OF and_stuck [OF assms(2)]] by (simp del: cat_Cons)
next
  case (Cons c cs)
  let ?rest = "and_tail cs @ 32 # t"
  have r: "?rest = [] \<or> \<not> pos_num_unit (hd ?rest)"
    by (cases cs) (simp_all add: js_def pos_num_unit_def is_digit_def)
  have "goes and_re (32 # js ''&&'' @ 32 # condition_text c @ ?rest) caps ?rest caps"
    unfolding append_Cons append_Nil
    by (intro goes_blank goes_lit, simp add: js_def is_ws_def, simp add: condition_head)
       (use clause_goes [OF _ r goes_nil [of _ caps], of c] Cons.prems in simp)
  then have "goes and_re (and_tail (c # cs) @ 32 # t) caps ?rest caps" by (simp add: js_def)
  then show ?case
    by (rule goes_star_step) (use Cons in auto)
qed


lemma cond_group_goes:
  assumes "\<forall>c\<in>set conds. condition_ok c" "conds \<noteq> []" "goes (cat rs) (32 # 63 # t) ((1, buildConditionStr conds) # caps) u caps'"
  shows "goes (cat (cond_group_re # rs)) (buildConditionStr conds @ 32 # 63 # t) caps u caps'"
proof -
  obtain c cs where cs: "conds = c # cs" using assms(2) by (cases conds) auto
  have ok: "condition_ok c" "\<forall>c\<in>set cs. condition_ok c" using assms(1) cs by simp_all
  let ?rest = "and_tail cs @ 32 # 63 # t"
  have r: "?rest = [] \<or> \<not> pos_num_unit (hd ?rest)"
    by (cases cs) (simp_all add: js_def pos_num_unit_def is_digit_def)
  have "goes (cat [Star and_re]) ?rest caps (32 # 63 # t) caps"
    by (rule goes_cat [OF and_goes [OF ok(2)] goes_nil]) (simp add: is_ws_def)
  from clause_goes [OF ok(1) r this]
  have "goes (cat (clause_res @ [Star and_re])) ((condition_text c @ and_tail cs) @ 32 # 63 # t) caps (32 # 63 # t) caps"
    by (simp del: cat_Cons)
  then have "goes (cat (clause_res @ [Star and_re])) (buildConditionStr conds @ 32 # 63 # t) caps (32 # 63 # t) caps"
    by (simp only: buildConditionStr_eq [OF assms(1) cs])
  from goes_group [OF this assms(3)] show ?thesis by (simp add: cond_group_re_def del: cat_Cons)
qed

lemma cond_group_stuck: "s = [] \<or> hd s \<notin> {112, 99, 108} \<Longrightarrow> stuck cond_group_re s"
  by (cases s) (auto simp: cond_group_re_def stuck_def alts_def js_def)

text \<open>A tier as it stands in the printed expression, and the captures of its match.\<close>

definition tier_ok :: "VisualTier \<Rightarrow> bool" where
  "tier_ok t \<longleftrightarrow> tier_numbers_ok t \<and> 34 \<notin> set (v_label t) \<and> list_all condition_ok (v_conditions t)"

definition guarded_text :: "jstr \<Rightarrow> VisualTier \<Rightarrow> jstr" where
  "guarded_text l t =
     (if v_conditions t = [] then [] else buildConditionStr (v_conditions t) @ js '' ? '') @ tier_text_of l t"

definition guarded_caps :: "jstr \<Rightarrow> VisualTier \<Rightarrow> (nat \<times> jstr) list" where
  "guarded_caps l t =
     body_caps 3 t ((2, l) # (if v_conditions t = [] then [] else [(1, buildConditionStr (v_conditions t))]))"

lemma tier_re_eq:
  "tier_re = cat (Opt (cat [cond_group_re, ws_star, Lit (js ''?''), ws_star]) # tier_res 2 @ [Lit (js '')'')])"
  by (simp add: tier_re_def tier_res_def numeral_3_eq_3 numeral_2_eq_2)

lemma guarded_goes:
  assumes "tier_ok t" "34 \<notin> set l"
  shows "goes tier_re (guarded_text l t @ s) [] s (guarded_caps l t)"
proof -
  let ?cs = "if v_conditions t = [] then [] else [(1, buildConditionStr (v_conditions t))]"
  have ok: "tier_numbers_ok t" "\<forall>c\<in>set (v_conditions t). condition_ok c" using assms(1) by (auto simp: tier_ok_def list_all_iff)
  have tail: "goes (cat (tier_res 2 @ [Lit (js '')'')])) (tier_text_of l t @ s) ?cs s (guarded_caps l t)"
  proof (rule tier_text_goes [OF ok(1) assms(2)])
    show "goes (cat [Lit (js '')'')]) (41 # s) (body_caps (Suc 2) t ((2, l) # ?cs)) s (guarded_caps l t)"
    proof -
      have e: "Suc 2 = (3::nat)" "41 # s = js '')'' @ s" by (simp_all add: js_def)
      show ?thesis unfolding e guarded_caps_def by (rule goes_lit, rule goes_nil)
    qed
  qed
  have h: "tier_text_of l t @ s \<noteq> []" "hd (tier_text_of l t @ s) = 116" by (simp_all add: tier_text_of_def js_def)
  show ?thesis
  proof (cases "v_conditions t = []")
    case True
    have "stuck (cat [cond_group_re, ws_star, Lit (js ''?''), ws_star]) (tier_text_of l t @ s)"
      by (rule stuck_cat, rule cond_group_stuck) (use h in simp)
    from goes_opt_none [OF this tail] show ?thesis using True by (simp add: tier_re_eq guarded_text_def del: cat_Cons)
  next
    case False
    have "goes (cat [ws_star, Lit (js ''?''), ws_star]) (32 # js ''?'' @ 32 # tier_text_of l t @ s) ?cs (tier_text_of l t @ s) ?cs"
      by (intro goes_blank goes_lit goes_nil) (use h in \<open>auto simp: js_def is_ws_def\<close>)
    then have "goes (cat [cond_group_re, ws_star, Lit (js ''?''), ws_star])
        (buildConditionStr (v_conditions t) @ 32 # 63 # 32 # tier_text_of l t @ s) [] (tier_text_of l t @ s) ?cs"
      using False by (intro cond_group_goes ok(2)) (simp_all add: js_def del: cat_Cons)
    from goes_opt [OF this tail] show ?thesis using False by (simp add: tier_re_eq guarded_text_def js_def del: cat_Cons)
  qed
qed

section \<open>Reading the captures\<close>

lemma cap_skip: "j < k \<Longrightarrow> cap j (cost_caps k xs cs) = cap j cs"
  by (induction xs arbitrary: k cs) (auto simp: cap_def)

lemma cap_cost:
  "(\<And>j. k \<le> j \<Longrightarrow> cap j cs = None) \<Longrightarrow> i < length xs \<Longrightarrow>
    cap (k + i) (cost_caps k xs cs) = (if xs ! i = Fin 0 then None else Some (num_to_string (xs ! i)))"
proof (induction xs arbitrary: k cs i)
  case (Cons x xs)
  show ?case
  proof (cases i)
    case 0
    then show ?thesis using cap_skip [of k "Suc k" xs] Cons.prems(1) [of k] by (auto simp: cap_def)
  next
    case (Suc j)
    have "cap (Suc k + j) (cost_caps (Suc k) xs (if x = Fin 0 then cs else (k, num_to_string x) # cs)) =
        (if xs ! j = Fin 0 then None else Some (num_to_string (xs ! j)))"
      by (rule Cons.IH) (use Cons.prems Suc in \<open>auto simp: cap_def\<close>)
    then show ?thesis by (simp add: Suc)
  qed
qed simp

text \<open>The optional prices a match has read, as the tier had them; a price of zero is not printed.\<close>

lemma map_of_matched:
  "distinct (map fst ps) \<Longrightarrow> i < length ps \<Longrightarrow>
    map_of (List.map_filter (\<lambda>(j, cv). case cap j m of Some val \<Rightarrow> Some (fst cv, js_Number val) | None \<Rightarrow> None) (enumerate k ps))
      (fst (ps ! i)) = map_option js_Number (cap (k + i) m)"
proof (induction ps arbitrary: k i)
  case (Cons p ps)
  have none: "map_of (List.map_filter (\<lambda>(j, cv). case cap j m of Some val \<Rightarrow> Some (fst cv, js_Number val) | None \<Rightarrow> None) (enumerate n qs)) f = None"
    if "f \<notin> fst ` set qs" for f n qs
    using that by (induction qs arbitrary: n) (auto simp: List.map_filter_def split: option.splits)
  show ?case
  proof (cases i)
    case 0
    then show ?thesis using Cons.prems none [of "fst p" ps "Suc k"] by (auto simp: List.map_filter_def split: option.splits)
  next
    case (Suc j)
    moreover have "fst (ps ! j) \<noteq> fst p" using Cons.prems Suc by (auto simp: image_iff) (metis nth_mem)
    ultimately show ?thesis using Cons.IH [of j "Suc k"] Cons.prems by (auto simp: List.map_filter_def split: option.splits)
  qed
qed simp


lemma number_read: "number_ok x \<Longrightarrow> js_Number (num_to_string x) = x"
  by (cases x) (simp_all add: number_ok_def)

lemma num_or0_zero: "num_or0 None = Fin 0"
  by (simp add: num_or0_def)

lemma caps_extras:
  assumes "tier_numbers_ok t" "\<And>j. i + 2 \<le> j \<Longrightarrow> cap j cs = None"
  shows "map (\<lambda>cv. (fst cv, num_or0 (map_of (matched_extras (i + 2) (body_caps i t cs)) (fst cv)))) BILLING_CACHE_VAR_MAP
    = extra_costs t"
proof (rule nth_equalityI)
  have k: "map fst (extra_costs t) = map fst BILLING_CACHE_VAR_MAP" "\<forall>x\<in>set (map snd (extra_costs t)). number_ok x"
    using assms(1) by (auto simp: tier_numbers_ok_def list_all_iff)
  from arg_cong [OF k(1), of length] have len: "length (extra_costs t) = length BILLING_CACHE_VAR_MAP" by simp
  let ?m = "body_caps i t cs"
  let ?f = "\<lambda>cv. (fst cv, num_or0 (map_of (matched_extras (i + 2) ?m) (fst cv)))"
  show "length (map ?f BILLING_CACHE_VAR_MAP) = length (extra_costs t)" by (simp add: len)
  fix n
  assume "n < length (map ?f BILLING_CACHE_VAR_MAP)"
  then have n: "n < length BILLING_CACHE_VAR_MAP" "n < length (extra_costs t)" using len by simp_all
  let ?x = "snd (extra_costs t ! n)"
  have x: "tier_costs t ! n = ?x" "n < length (tier_costs t)" using tier_costs_eq [OF assms(1)] n(2) by simp_all
  have ok: "number_ok ?x" using k(2) n(2) by simp
  have "cap (i + 2 + n) ?m = (if ?x = Fin 0 then None else Some (num_to_string ?x))"
    unfolding body_caps_def x(1) [symmetric]
    by (rule cap_cost) (use assms(2) x(2) in \<open>auto simp: cap_def\<close>)
  then have "map_of (matched_extras (i + 2) ?m) (fst (BILLING_CACHE_VAR_MAP ! n)) = (if ?x = Fin 0 then None else Some ?x)"
    unfolding matched_extras_def using map_of_matched [OF fields_distinct n(1)] number_read [OF ok] by simp
  then have "num_or0 (map_of (matched_extras (i + 2) ?m) (fst (BILLING_CACHE_VAR_MAP ! n))) = ?x"
    using num_or0_ok [OF ok] num_or0_zero by simp
  moreover have "fst (BILLING_CACHE_VAR_MAP ! n) = fst (extra_costs t ! n)"
    using k(1) n by (metis nth_map)
  ultimately show "map ?f BILLING_CACHE_VAR_MAP ! n = extra_costs t ! n" using n(1) by (simp add: prod_eq_iff)
qed

text \<open>The tier read back: its name is the printed one, its cache mode follows from the one-hour price.\<close>

definition reread_tier :: "jstr \<Rightarrow> VisualTier \<Rightarrow> VisualTier" where
  "reread_tier l t =
     t\<lparr>v_label := l,
       cache_mode :=
         (case map_of (extra_costs t) (js ''cache_create_1h_unit_cost'') of
            Some x \<Rightarrow> if num_lt (Fin 0) x then CACHE_MODE_TIMED else CACHE_MODE_GENERIC
          | None \<Rightarrow> CACHE_MODE_GENERIC)\<rparr>"

lemma one_hour: "fst (BILLING_CACHE_VAR_MAP ! 2) = js ''cache_create_1h_unit_cost''" "2 < length BILLING_CACHE_VAR_MAP"
  by (simp_all add: BILLING_CACHE_VAR_MAP_def BILLING_EXTRA_VARS_def BILLING_VARS_def)

lemma matched_tier_eq:
  assumes "tier_numbers_ok t" "l = cap_str i m"
    "cap_str (i + 1) m = num_to_string (input_unit_cost t)" "cap_str (i + 2) m = num_to_string (output_unit_cost t)"
    "map (\<lambda>cv. (fst cv, num_or0 (map_of (matched_extras (i + 3) m) (fst cv)))) BILLING_CACHE_VAR_MAP = extra_costs t"
    "conds = v_conditions t"
  shows "matched_tier i conds m = reread_tier l t"
proof -
  let ?h = "js ''cache_create_1h_unit_cost''"
  let ?g = "\<lambda>cv. (fst cv, num_or0 (map_of (matched_extras (i + 3) m) (fst cv)))"
  have key: "?h \<in> set (map fst BILLING_CACHE_VAR_MAP)" using one_hour nth_mem by (metis length_map nth_map)
  have "map_of (map ?g BILLING_CACHE_VAR_MAP) ?h = Some (num_or0 (map_of (matched_extras (i + 3) m) ?h))"
  proof (rule map_of_is_SomeI)
    show "distinct (map fst (map ?g BILLING_CACHE_VAR_MAP))" using fields_distinct by (simp add: comp_def)
    from key show "(?h, num_or0 (map_of (matched_extras (i + 3) m) ?h)) \<in> set (map ?g BILLING_CACHE_VAR_MAP)" by auto
  qed
  then have h: "map_of (extra_costs t) ?h = Some (num_or0 (map_of (matched_extras (i + 3) m) ?h))" by (simp only: assms(5))
  have gt: "num_lt (Fin 0) (num_or0 y) \<longleftrightarrow> (\<exists>x. y = Some x \<and> num_lt (Fin 0) x)" for y
    by (auto simp: num_or0_def split: option.splits jsnum.splits)
  have mode: "getTierCacheMode \<lparr>pt_label = a, pt_conditions = b, pt_input = c, pt_output = d, pt_cache_mode = None,
      pt_extra = matched_extras (i + 3) m\<rparr> = cache_mode (reread_tier l t)" for a b c d
    using gt [of "map_of (matched_extras (i + 3) m) ?h"] h
    by (cases "map_of (matched_extras (i + 3) m) ?h") (auto simp: getTierCacheMode_def reread_tier_def)
  have n: "js_Number (num_to_string (input_unit_cost t)) = input_unit_cost t"
    "js_Number (num_to_string (output_unit_cost t)) = output_unit_cost t"
    using assms(1) by (simp_all add: tier_numbers_ok_def number_read)
  have e: "map ?g BILLING_CACHE_VAR_MAP = extra_costs (reread_tier l t)" by (simp add: assms(5) reread_tier_def)
  show ?thesis
    unfolding matched_tier_def normalizeVisualTier_def assms(3,4) n mode
    using e by (intro VisualTier.equality) (simp_all add: assms(2,6) reread_tier_def)
qed


section \<open>Reading the conditions\<close>

text \<open>\<open>calm s\<close>: no unit of \<open>s\<close> starts a match of \<open>AND_REGEX\<close>, whatever follows.\<close>

fun calm :: "jstr \<Rightarrow> bool" where
  "calm [] = True"
| "calm (a # s) = (a \<noteq> 38 \<and> (is_ws a \<longrightarrow> a = 32 \<and> s \<noteq> [] \<and> \<not> is_ws (hd s) \<and> hd s \<noteq> 38) \<and> calm s)"

lemma calm_solid: "\<forall>u\<in>set x. \<not> is_ws u \<and> u \<noteq> 38 \<Longrightarrow> calm (x @ s) = calm s"
  by (induction x) auto

lemma calm_stuck: "calm (a # s) \<Longrightarrow> stuck AND_REGEX ((a # s) @ t)"
proof -
  assume c: "calm (a # s)"
  show ?thesis
  proof (cases "is_ws a")
    case True
    with c obtain b y where "a = 32" "s = b # y" "\<not> is_ws b" "b \<noteq> 38" by (cases s) auto
    then have "stuck AND_REGEX (32 # b # y @ t)"
      unfolding AND_REGEX_def by (intro stuck_blank stuck_lit) (auto simp: js_def)
    then show ?thesis by (simp add: \<open>a = 32\<close> \<open>s = b # y\<close>)
  next
    case False
    with c show ?thesis unfolding AND_REGEX_def by (intro stuck_no_blank stuck_lit) (auto simp: js_def)
  qed
qed

lemma split_calm:
  "calm x \<Longrightarrow> length (x @ t) < n \<Longrightarrow>
    re_split AND_REGEX p cur n (x @ t) = re_split AND_REGEX (after p x) (cur @ x) (n - length x) t"
proof (induction x arbitrary: p cur n)
  case Nil
  then show ?case by (simp add: after_def)
next
  case (Cons a x)
  then obtain m where n: "n = Suc m" by (cases n) auto
  have "stuck AND_REGEX ((a # x) @ t)" by (rule calm_stuck) (rule Cons.prems(1))
  moreover have "re_split AND_REGEX (Some a) (cur @ [a]) m (x @ t) =
      re_split AND_REGEX (after (Some a) x) ((cur @ [a]) @ x) (m - length x) t"
    by (rule Cons.IH) (use Cons.prems n in auto)
  ultimately show ?case by (simp add: n stuck_def after_def)
qed

lemma condition_shape:
  assumes "condition_ok c"
  shows "calm (condition_text c)" "trimmed (condition_text c)"
proof -
  obtain n x where n: "cond_value_text (ci_value c) = n" "n \<noteq> []" "\<forall>u\<in>set n. pos_num_unit u"
    using condition_number [OF assms] by metis
  have nu: "\<forall>u\<in>set n. \<not> is_ws u \<and> u \<noteq> 38" using n(3) pos_not_ws by blast
  have vu: "\<forall>u\<in>set (cond_var_text (ci_var c)). \<not> is_ws u \<and> u \<noteq> 38"
    by (cases "ci_var c") (simp_all add: cond_var_text_def js_def is_ws_def)
  have t: "condition_text c = cond_var_text (ci_var c) @ 32 # cond_op_text (ci_op c) @ 32 # n"
    by (simp add: condition_text_def n(1) js_def)
  have hn: "\<not> is_ws (hd n)" "hd n \<noteq> 38" "\<not> is_ws (last n)" using nu n(2) by simp_all
  have ho: "\<not> is_ws (hd (cond_op_text (ci_op c) @ y))" "hd (cond_op_text (ci_op c) @ y) \<noteq> 38" for y
    using op_head [of "ci_op c"] by simp_all
  have "calm (32 # n)" using nu n(2) calm_solid [of n "[]"] hn by (simp add: is_ws_def)
  then have "calm (cond_op_text (ci_op c) @ 32 # n)" using op_head [of "ci_op c"] by (simp add: calm_solid)
  then have "calm (32 # cond_op_text (ci_op c) @ 32 # n)" using ho by simp
  then show "calm (condition_text c)" unfolding t using vu by (simp only: calm_solid)
  show "trimmed (condition_text c)" using hn(3) var_head [of "ci_var c"] n(2) by (auto simp: t trimmed_def)
qed

lemma and_goes_once: "\<not> is_ws (hd y) \<Longrightarrow> goes AND_REGEX (js '' && '' @ y) [] y []"
proof -
  assume "\<not> is_ws (hd y)"
  then have "goes AND_REGEX (32 # js ''&&'' @ 32 # y) [] y []"
    unfolding AND_REGEX_def by (intro goes_blank goes_lit goes_nil) (auto simp: js_def is_ws_def)
  then show ?thesis by (simp add: js_def)
qed

lemma split_conditions:
  "\<forall>c\<in>set (c # cs). condition_ok c \<Longrightarrow> length (condition_text c @ and_tail cs) < n \<Longrightarrow>
    re_split AND_REGEX p [] n (condition_text c @ and_tail cs) = map condition_text (c # cs)"
proof (induction cs arbitrary: c n p)
  case Nil
  then have "re_split AND_REGEX p [] n (condition_text c @ []) = re_split AND_REGEX (after p (condition_text c)) (condition_text c) (n - length (condition_text c)) []"
    by (subst split_calm) (auto intro: condition_shape)
  moreover obtain m where "n - length (condition_text c) = Suc m" using Nil by (cases "n - length (condition_text c)") auto
  ultimately show ?case by simp
next
  case (Cons d cs)
  let ?y = "condition_text d @ and_tail cs"
  have "re_split AND_REGEX p [] n (condition_text c @ js '' && '' @ ?y) =
      re_split AND_REGEX (after p (condition_text c)) (condition_text c) (n - length (condition_text c)) (js '' && '' @ ?y)"
    by (subst split_calm) (use Cons.prems condition_shape in auto)
  moreover obtain m where m: "n - length (condition_text c) = Suc m" "length ?y < m"
    using Cons.prems by (cases "n - length (condition_text c)") auto
  have "\<not> is_ws (hd ?y)" using condition_head [of d] by simp
  from goes_rm [OF and_goes_once [OF this], of "after p (condition_text c)"]
  obtain q ds where g: "rm AND_REGEX (after p (condition_text c), js '' && '' @ ?y, []) = (q, ?y, []) # ds" by blast
  have "re_split AND_REGEX (after p (condition_text c)) (condition_text c) (Suc m) (js '' && '' @ ?y)
      = condition_text c # re_split AND_REGEX q [] m ?y"
    using g by (simp add: js_def)
  moreover have "re_split AND_REGEX q [] m ?y = map condition_text (d # cs)"
    by (rule Cons.IH) (use Cons.prems m in auto)
  ultimately show ?case using m(1) by simp
qed


lemma op_group_goes:
  assumes "goes (cat (ws_star # Group j pos_run # rs)) (32 # s) ((i, cond_op_text x) # cs) u cs'"
  shows "goes (cat (Group i cond_op_re # ws_star # Group j pos_run # rs)) (cond_op_text x @ 32 # s) cs u cs'"
proof -
  have e: "stuck (cat (ws_star # Group j pos_run # rs')) (61 # s')" for rs' s'
  proof (rule stuck_no_blank)
    have "stuck pos_run (61 # s')" using stuck_run [of "61 # s'" pos_num_unit "[]"]
      by (simp add: stuck_one pos_num_unit_def is_digit_def del: cat_Cons)
    then show "stuck (cat (Group j pos_run # rs')) (61 # s')" by (rule stuck_group)
  qed (simp add: is_ws_def)
  have lt: "stuck (cat (Group i (Lit l) # rs')) (js ''>'' @ s')" "stuck (cat (Group i (Lit l) # rs')) (js ''>='' @ s')"
    if "l \<in> {js ''<'', js ''<=''}" for l rs' s'
    by (rule stuck_group_lit, use that in \<open>auto simp: js_def\<close>)+
  have eq: "stuck (cat (Group i (Lit (js ''<'')) # ws_star # Group j pos_run # rs)) (js ''<='' @ 32 # s)"
    "stuck (cat (Group i (Lit (js ''>'')) # ws_star # Group j pos_run # rs)) (js ''>='' @ 32 # s)"
    using stuck_group_lit_rest [OF e [of rs "32 # s"], of i "js ''<''"] stuck_group_lit_rest [OF e [of rs "32 # s"], of i "js ''>''"]
    by (simp_all add: js_def del: cat_Cons)
  show ?thesis
  proof (cases x)
    case OpLt
    then show ?thesis using assms
      by (simp add: cond_op_text_def alts_def del: cat_Cons) (intro goes_group_alt goes_group_lit)
  next
    case OpLe
    then show ?thesis using assms eq(1)
      by (simp add: cond_op_text_def alts_def del: cat_Cons)
         (rule goes_group_alt_right, simp del: cat_Cons, intro goes_group_alt goes_group_lit)
  next
    case OpGt
    then show ?thesis using assms lt(1)
      by (simp add: cond_op_text_def alts_def del: cat_Cons)
         (rule goes_group_alt_right, simp del: cat_Cons, rule goes_group_alt_right, simp del: cat_Cons,
          intro goes_group_alt goes_group_lit)
  next
    case OpGe
    then show ?thesis using assms lt(2) eq(2)
      by (simp add: cond_op_text_def alts_def del: cat_Cons)
         (rule goes_group_alt_right, simp del: cat_Cons, rule goes_group_alt_right, simp del: cat_Cons,
          rule goes_group_alt_right, simp del: cat_Cons, intro goes_group_lit)
  qed
qed

lemma var_group_goes:
  assumes "goes (cat rs) s ((i, cond_var_text v) # cs) u cs'"
  shows "goes (cat (Group i cond_var_re # rs)) (cond_var_text v @ s) cs u cs'"
proof (rule goes_group [OF _ assms])
  have "goes (cat [cond_var_re]) (cond_var_text v @ s) cs s cs" by (intro var_goes goes_nil)
  then show "goes cond_var_re (cond_var_text v @ s) cs s cs" by (simp only: goes_one)
qed

lemma condition_reads:
  assumes "condition_ok c"
  shows "re_match COND_REGEX (trim (condition_text c)) =
    Some [(3, cond_value_text (ci_value c)), (2, cond_op_text (ci_op c)), (1, cond_var_text (ci_var c))]"
proof -
  obtain n x where n: "cond_value_text (ci_value c) = n" "n \<noteq> []" "\<forall>u\<in>set n. pos_num_unit u"
    using condition_number [OF assms] by metis
  have hn: "\<not> is_ws (hd n)" using n pos_not_ws [of "hd n"] by simp
  have ho: "\<not> is_ws (hd (cond_op_text (ci_op c)))" using op_head [of "ci_op c"] by simp
  have "goes COND_REGEX (cond_var_text (ci_var c) @ 32 # cond_op_text (ci_op c) @ 32 # n @ []) [] []
      [(3, n), (2, cond_op_text (ci_op c)), (1, cond_var_text (ci_var c))]"
    unfolding COND_REGEX_def
  proof (intro var_group_goes goes_blank op_group_goes goes_run goes_eol n(2,3))
    show "cond_op_text (ci_op c) @ 32 # n @ [] = [] \<or> \<not> is_ws (hd (cond_op_text (ci_op c) @ 32 # n @ []))"
      using ho op_head [of "ci_op c"] by simp
    show "n @ [] = [] \<or> \<not> is_ws (hd (n @ []))" using hn n(2) by simp
  qed simp
  then have "goes COND_REGEX (condition_text c) [] [] [(3, n), (2, cond_op_text (ci_op c)), (1, cond_var_text (ci_var c))]"
    by (simp add: condition_text_def n(1) js_def)
  then show ?thesis using trim_id [OF condition_shape(2) [OF assms]] goes_match n(1) by simp
qed

lemma conditions_read:
  assumes "\<forall>c\<in>set conds. condition_ok c" "conds \<noteq> []"
  shows "map input_condition (parse_tier_conditions (buildConditionStr conds)) = conds"
proof -
  obtain c cs where cs: "conds = c # cs" using assms(2) by (cases conds) auto
  have ne: "buildConditionStr conds \<noteq> []"
    using buildConditionStr_eq [OF assms(1) cs] condition_head [of c] by simp
  have split: "re_splits AND_REGEX (buildConditionStr conds) = map condition_text conds"
    unfolding re_splits_def buildConditionStr_eq [OF assms(1) cs] unfolding cs
    by (rule split_conditions) (use assms(1) cs in auto)
  define f where "f = (\<lambda>cp. case re_match COND_REGEX (trim cp) of
          Some cs \<Rightarrow> [\<lparr>tc_var = cond_var_of (cap_str 1 cs), tc_op = cond_op_of (cap_str 2 cs),
                       tc_value = js_Number (cap_str 3 cs)\<rparr>]
        | None \<Rightarrow> [])"
  have one: "map input_condition (f (condition_text d)) = [d]" if d: "condition_ok d" for d
  proof -
    obtain n x where n: "cond_value_text (ci_value d) = n" "js_Number n = x" "ci_value d = NumValue x"
      using condition_number [OF d] by metis
    have "cond_var_of (cond_var_text (ci_var d)) = ci_var d" "cond_op_of (cond_op_text (ci_op d)) = ci_op d"
      by (cases "ci_var d"; simp add: cond_var_of_def cond_var_text_def) (cases "ci_op d"; simp add: cond_op_of_def cond_op_text_def)
    moreover have "NumValue (js_Number (cond_value_text (ci_value d))) = ci_value d" using n by simp
    ultimately show ?thesis by (simp add: f_def condition_reads [OF d] cap_str_def input_condition_def)
  qed
  have "map input_condition (concat (map f (map condition_text ds))) = ds" if "\<forall>d\<in>set ds. condition_ok d" for ds
    using that by (induction ds) (simp_all add: one)
  then show ?thesis using assms(1) ne split by (simp add: parse_tier_conditions_def f_def comp_def)
qed


section \<open>Whole expressions\<close>

definition printed_label :: "jstr \<Rightarrow> VisualTier \<Rightarrow> jstr" where
  "printed_label fallback t = (if v_label t = [] then fallback else v_label t)"

text \<open>
  The tiers as they are printed, with the names they get: of several tiers, the last loses its
  conditions.
\<close>

definition printed_tiers :: "VisualConfig \<Rightarrow> (jstr \<times> VisualTier) list" where
  "printed_tiers cfg =
     (case cfg of
        [t] \<Rightarrow> [(printed_label (js ''default'') t, t)]
      | _ \<Rightarrow> map (\<lambda>(i, t). (printed_label (js ''tier_'' @ dec (Suc i)) t,
                 if i < length cfg - 1 then t else t\<lparr>v_conditions := []\<rparr>)) (enumerate 0 cfg))"

definition else_text :: jstr where "else_text = js '' : p * 0 + c * 0''"

definition trailing :: "VisualConfig \<Rightarrow> jstr" where
  "trailing cfg = (case cfg of [t] \<Rightarrow> if v_conditions t = [] then [] else else_text | _ \<Rightarrow> [])"

lemma condition_str_Nil: "tier_ok t \<Longrightarrow> buildConditionStr (v_conditions t) = [] \<longleftrightarrow> v_conditions t = []"
proof (cases "v_conditions t")
  case (Cons c cs)
  moreover assume "tier_ok t"
  ultimately have "buildConditionStr (v_conditions t) = condition_text c @ and_tail cs"
    by (intro buildConditionStr_eq) (auto simp: tier_ok_def list_all_iff)
  then show ?thesis using condition_head [of c] Cons by simp
qed (simp add: buildConditionStr_def)

lemma tier_text_eq: "tier_text fb t = tier_text_of (printed_label fb t) t"
  by (simp add: tier_text_def tier_text_of_def printed_label_def)

lemma several_printed:
  assumes "length cfg \<noteq> 1"
  shows "printed_tiers cfg = map (\<lambda>(i, t). (printed_label (js ''tier_'' @ dec (Suc i)) t,
      if i < length cfg - 1 then t else t\<lparr>v_conditions := []\<rparr>)) (enumerate 0 cfg)"
    "trailing cfg = []"
  using assms by (auto simp: printed_tiers_def trailing_def split: list.splits)

lemma text_of_body: "tier_text_of l (t\<lparr>v_conditions := x\<rparr>) = tier_text_of l t"
  by (simp add: tier_text_of_def buildTierBodyExpr_def)

lemma generate_eq:
  assumes "cfg \<noteq> []" "list_all tier_ok cfg"
  shows "generateExprFromVisualConfig (Some cfg) =
    join (js '' : '') (map (\<lambda>(l, t). guarded_text l t) (printed_tiers cfg)) @ trailing cfg"
proof (cases "\<exists>t. cfg = [t]")
  case True
  then obtain t where t: "cfg = [t]" by blast
  then have "tier_ok t" using assms(2) by simp
  from condition_str_Nil [OF this] show ?thesis
    by (simp add: t generateExprFromVisualConfig_def printed_tiers_def trailing_def guarded_text_def tier_text_eq else_text_def Let_def)
next
  case False
  then obtain a b ts where c: "cfg = a # b # ts" using assms(1) by (metis neq_Nil_conv)
  then have pt: "printed_tiers cfg = map (\<lambda>(i, t). (printed_label (js ''tier_'' @ dec (Suc i)) t,
      if i < length cfg - 1 then t else t\<lparr>v_conditions := []\<rparr>)) (enumerate 0 cfg)"
    by (intro several_printed(1)) simp
  have g: "generateExprFromVisualConfig (Some cfg) = join (js '' : '') (map (\<lambda>(i, tier).
       let body = tier_text (js ''tier_'' @ dec (Suc i)) tier; cond = buildConditionStr (v_conditions tier) in
       if i < length cfg - 1 \<and> cond \<noteq> [] then cond @ js '' ? '' @ body else body) (enumerate 0 cfg))"
    unfolding generateExprFromVisualConfig_def c by simp
  have "map (\<lambda>(i, tier).
       let body = tier_text (js ''tier_'' @ dec (Suc i)) tier; cond = buildConditionStr (v_conditions tier) in
       if i < length cfg - 1 \<and> cond \<noteq> [] then cond @ js '' ? '' @ body else body) (enumerate 0 cfg)
    = map (\<lambda>(l, t). guarded_text l t) (printed_tiers cfg)"
    unfolding pt map_map
  proof (rule map_cong [OF refl])
    fix p
    assume "p \<in> set (enumerate 0 cfg)"
    then have "snd p \<in> set cfg" by (metis enumerate_eq_zip set_zip_rightD surjective_pairing)
    then have "tier_ok (snd p)" using assms(2) by (simp add: list_all_iff)
    from condition_str_Nil [OF this]
    show "(case p of (i, tier) \<Rightarrow>
         let body = tier_text (js ''tier_'' @ dec (Suc i)) tier; cond = buildConditionStr (v_conditions tier) in
         if i < length cfg - 1 \<and> cond \<noteq> [] then cond @ js '' ? '' @ body else body) =
      ((\<lambda>(l, t). guarded_text l t) \<circ> (\<lambda>(i, t). (printed_label (js ''tier_'' @ dec (Suc i)) t,
          if i < length cfg - 1 then t else t\<lparr>v_conditions := []\<rparr>))) p"
      by (cases p) (simp add: guarded_text_def tier_text_eq text_of_body Let_def)
  qed
  moreover have "trailing cfg = []" using c by (intro several_printed(2)) simp
  ultimately show ?thesis by (simp only: g append_Nil2)
qed

lemma printed_ok: "list_all tier_ok cfg \<Longrightarrow> p \<in> set (printed_tiers cfg) \<Longrightarrow> tier_ok (snd p) \<and> 34 \<notin> set (fst p)"
proof -
  assume ok: "list_all tier_ok cfg" and p: "p \<in> set (printed_tiers cfg)"
  have fb: "34 \<notin> set (js ''tier_'' @ dec i)" for i using dec_digits [of 34 i] by (auto simp: js_def is_digit_def)
  have l: "34 \<notin> set (printed_label x t)" if "tier_ok t" "34 \<notin> set x" for x t
    using that by (simp add: printed_label_def tier_ok_def)
  have drop: "tier_ok (t\<lparr>v_conditions := []\<rparr>)" if "tier_ok t" for t
    using that by (simp add: tier_ok_def tier_numbers_ok_def)
  show ?thesis
  proof (cases "\<exists>t. cfg = [t]")
    case True
    then show ?thesis using ok p l [of _ "js ''default''"] by (auto simp: printed_tiers_def js_def)
  next
    case False
    then have "length cfg \<noteq> 1" by (cases cfg) (auto simp: Suc_le_eq)
    then obtain i t where it: "(i, t) \<in> set (enumerate 0 cfg)" "p = (printed_label (js ''tier_'' @ dec (Suc i)) t,
        if i < length cfg - 1 then t else t\<lparr>v_conditions := []\<rparr>)"
      using p several_printed(1) by fastforce
    then have "tier_ok t" using ok by (metis enumerate_eq_zip set_zip_rightD list_all_iff)
    then show ?thesis using it(2) drop l [OF _ fb] by simp
  qed
qed

text \<open>Between two tiers there is nothing to find.\<close>

lemma not_tier: "s = [] \<or> hd s \<notin> {112, 99, 108, 116} \<Longrightarrow> stuck tier_re s"
proof -
  assume s: "s = [] \<or> hd s \<notin> {112, 99, 108, 116}"
  then have "stuck (cat [cond_group_re, ws_star, Lit (js ''?''), ws_star]) s" by (intro stuck_cat cond_group_stuck) auto
  moreover have "stuck (cat (tier_res 2 @ [Lit (js '')'')])) s"
    unfolding tier_res_def append_Cons by (rule stuck_lit) (use s in \<open>cases s; auto simp: js_def\<close>)
  ultimately show ?thesis unfolding tier_re_eq by (rule stuck_opt)
qed

lemma colon_skip: "re_search tier_re p (js '' : '' @ s) = re_search tier_re (after p (js '' : '')) s"
proof (rule search_skip)
  fix a y
  assume "js '' : '' = a @ y" "y \<noteq> []"
  then have "hd y \<in> set (js '' : '')" by (metis Un_iff list.set_sel(1) set_append)
  then have "hd y \<in> {32, 58}" by (auto simp: js_def)
  then show "stuck tier_re (y @ s)" using \<open>y \<noteq> []\<close> by (intro not_tier) auto
qed

lemma product_stuck: "v \<in> {112, 99} \<Longrightarrow> stuck tier_re (v # 32 # 42 # s)"
proof -
  assume v: "v \<in> {112, 99}"
  then have "stuck cond_group_re (v # 32 # 42 # s)"
    by (auto simp: cond_group_re_def stuck_def alts_def js_def is_ws_def)
  moreover have "stuck (cat (tier_res 2 @ [Lit (js '')'')])) (v # 32 # 42 # s)"
    unfolding tier_res_def append_Cons by (rule stuck_lit) (use v in \<open>auto simp: js_def\<close>)
  ultimately show ?thesis unfolding tier_re_eq by (intro stuck_opt stuck_cat)
qed

lemma stuck_rm: "stuck r s \<Longrightarrow> rm r (p, s, cs) = []"
  by (simp add: stuck_def)

definition zero_text :: jstr where "zero_text = js ''p * 0 + c * 0''"

lemma nothing_left: "re_search tier_re p [] = None" "re_search tier_re p else_text = None" "re_search tier_re p zero_text = None"
proof -
  show "re_search tier_re p [] = None" by (simp add: stuck_rm not_tier)
  show "re_search tier_re p else_text = None" by (simp add: else_text_def js_def stuck_rm not_tier product_stuck)
  show "re_search tier_re p zero_text = None" by (simp add: zero_text_def js_def stuck_rm not_tier product_stuck)
qed

lemma guarded_length: "0 < length (guarded_text l t)"
  by (simp add: guarded_text_def tier_text_of_def)

lemma all_tiers:
  assumes "\<forall>g\<in>set gs. tier_ok (snd g) \<and> 34 \<notin> set (fst g)" "ending = [] \<or> ending = else_text"
    and "length (concat (map (\<lambda>(l, t). js '' : '' @ guarded_text l t) gs) @ ending) < n"
  shows "re_all n tier_re p (concat (map (\<lambda>(l, t). js '' : '' @ guarded_text l t) gs) @ ending) = map (\<lambda>(l, t). guarded_caps l t) gs"
  using assms(1,3)
proof (induction gs arbitrary: n p)
  case Nil
  have "re_search tier_re p ending = None" using assms(2) nothing_left by auto
  then show ?case by (cases n) simp_all
next
  case (Cons g gs)
  obtain l t where g: "g = (l, t)" by (cases g)
  obtain m where n: "n = Suc m" using Cons.prems by (cases n) auto
  let ?rest = "concat (map (\<lambda>(l, t). js '' : '' @ guarded_text l t) gs) @ ending"
  have ok: "tier_ok t" "34 \<notin> set l" using Cons.prems g by auto
  obtain q where q: "re_search tier_re (after p (js '' : '')) (guarded_text l t @ ?rest) = Some (q, ?rest, guarded_caps l t)"
    using goes_search [OF guarded_goes [OF ok]] by blast
  have "re_all m tier_re q ?rest = map (\<lambda>(l, t). guarded_caps l t) gs"
    by (rule Cons.IH) (use Cons.prems n in \<open>auto simp: g\<close>)
  then show ?case using q colon_skip [of p "guarded_text l t @ ?rest"] by (simp add: g n)
qed

end
