(* ===== verification/TierReopen.thy ===== *)
theory TierReopen
  imports TierText
begin

text \<open>
  What reopening a printed price expression shows (\<open>generated_tiers_reopen\<close>), when the printed text
  is a conditional expression at all (\<open>balanced_expression\<close>), and prices the editor takes for zero.
\<close>

section \<open>The single expression\<close>

lemma single_re_eq: "single_re = cat (tier_res 1 @ [Lit (js '')''), EOL])"
  by (simp add: single_re_def tier_res_def numeral_2_eq_2)

lemma single_matches:
  assumes "tier_ok t" "34 \<notin> set l"
  shows "re_match single_re (tier_text_of l t) = Some (body_caps 2 t [(1, l)])"
proof -
  have ok: "tier_numbers_ok t" using assms(1) by (simp add: tier_ok_def)
  have "goes (cat (tier_res 1 @ [Lit (js '')''), EOL])) (tier_text_of l t @ []) [] [] (body_caps 2 t [(1, l)])"
  proof (rule tier_text_goes [OF ok assms(2)])
    have e: "Suc 1 = (2::nat)" "41 # [] = js '')'' @ []" by (simp_all add: js_def)
    show "goes (cat [Lit (js '')''), EOL]) (41 # []) (body_caps (Suc 1) t [(1, l)]) [] (body_caps 2 t [(1, l)])"
      unfolding e by (rule goes_lit, rule goes_eol)
  qed
  then have "goes single_re (tier_text_of l t) [] [] (body_caps 2 t [(1, l)])" by (simp only: single_re_eq append_Nil2)
  then show ?thesis by (rule goes_match)
qed

lemma in_cat: "d \<in> set (rm (cat (a # rs)) c) \<longleftrightarrow> (\<exists>e\<in>set (rm a c). d \<in> set (rm (cat rs) e))"
  by auto

lemma cat_end: "d \<in> set (rm (cat (rs @ [EOL])) c) \<Longrightarrow> fst (snd d) = []"
proof (induction rs arbitrary: c)
  case (Cons a rs)
  then show ?case by (auto simp only: append_Cons in_cat)
qed (auto split: if_splits)

text \<open>Two tiers one after the other are not one: the second brings quotes where none can be.\<close>

lemma quotes_refused:
  assumes "34 \<notin> set l" "34 \<in> set y"
  shows \<open>rm single_re (p, js ''tier("'' @ l @ js ''",'' @ y, []) = []\<close>
proof (rule ccontr)
  let ?R = "ws_star # body_res 2 @ [Lit (js '')''), EOL]"
  let ?s = \<open>l @ js ''",'' @ y\<close>
  have e: \<open>js ''tier("'' @ l @ js ''",'' @ y = (js ''tier('' @ [34]) @ ?s\<close> by (simp add: js_def)
  assume "\<not> ?thesis"
  then have "set (rm single_re (p, (js ''tier('' @ [34]) @ ?s, [])) \<noteq> {}" by (simp only: e set_empty not_False_eq_True)
  then obtain d where "d \<in> set (rm single_re (p, (js ''tier('' @ [34]) @ ?s, []))"
    unfolding ex_in_conv [symmetric] by (rule exE)
  then have "d \<in> set (rm (cat (Lit (js ''tier('' @ [34]) # Group 1 (Star not_quote) # Lit (34 # js '','') # ?R)) (p, (js ''tier('' @ [34]) @ ?s, []))"
    by (simp add: single_re_def js_def del: cat_Cons)
  then obtain e0 where "e0 \<in> set (rm (Lit (js ''tier('' @ [34])) (p, (js ''tier('' @ [34]) @ ?s, []))"
      and d0: "d \<in> set (rm (cat (Group 1 (Star not_quote) # Lit (34 # js '','') # ?R)) e0)"
    unfolding in_cat [of _ "Lit (js ''tier('' @ [34])"] by blast
  then obtain q where "e0 = (q, ?s, [])" by (simp only: rm.simps eat_append) simp
  with d0 have "d \<in> set (rm (cat (Group 1 (Star not_quote) # Lit (34 # js '','') # ?R)) (q, ?s, []))" by (simp only:)
  then obtain e where e: "e \<in> set (rm (Group 1 (Star not_quote)) (q, ?s, []))" "d \<in> set (rm (cat (Lit (34 # js '','') # ?R)) e)"
    unfolding in_cat [of _ "Group 1 (Star not_quote)"] by blast
  have "\<exists>x. ?s = x @ fst (snd e) \<and> (\<forall>u\<in>set x. alphabet (Group 1 (Star not_quote)) u)"
    using rm_consumes [OF e(1)] by (simp only: consumes_def fst_conv snd_conv)
  then obtain x where x: "?s = x @ fst (snd e)" "\<forall>u\<in>set x. u \<noteq> 34" by (simp only: alphabet.simps) blast
  define z where "z = fst (snd e)"
  have xz: "?s = x @ z" "34 \<notin> set x" "fst (snd e) = z" unfolding z_def using x by blast+
  from e(2) obtain f where f: "f \<in> set (rm (Lit (34 # js '','')) e)" "d \<in> set (rm (cat ?R) f)"
    unfolding in_cat [of _ "Lit (34 # js '','')"] by blast
  obtain q' cs' where e': "e = (q', z, cs')" using xz(3) by (cases e) auto
  from f(1) have "prefix (34 # js '','') z \<and> fst (snd f) = drop 2 z"
    unfolding e' rm.simps eat.simps by (simp add: numeral_2_eq_2 split: if_splits)
  then have z: "prefix (34 # js '','') z" "fst (snd f) = drop 2 z" by blast+
  then obtain w where w: "z = 34 # js '','' @ w" by (auto simp: prefix_def)
  have "x = l \<and> w = y"
  proof -
    have "takeWhile (\<lambda>u. u \<noteq> 34) ?s = l" using assms(1) by (subst takeWhile_append2) (auto simp: js_def)
    moreover have "takeWhile (\<lambda>u. u \<noteq> 34) (x @ z) = x" using xz(2) by (subst takeWhile_append2) (auto simp: w)
    ultimately have "x = l" using xz(1) by simp
    then show ?thesis using xz(1) by (simp add: w js_def)
  qed
  then have fy: "fst (snd f) = y" using z(2) by (simp add: w js_def)
  have "fst (snd d) = []" using cat_end [of d "ws_star # body_res 2 @ [Lit (js '')'')]"] f(2) by (simp del: cat_Cons)
  with rm_consumes [OF f(2)] fy have "\<forall>u\<in>set y. alphabet (cat ?R) u" by (auto simp: consumes_def)
  with assms(2) have "alphabet (cat ?R) 34" by blast
  then show False
    by (simp add: cat_def body_res_def opt_cost_re_def cache_names Plus_def js_def is_ws_def num_unit_def is_digit_def)
qed

section \<open>Reading back\<close>

definition reread_config :: "VisualConfig \<Rightarrow> VisualConfig" where
  "reread_config cfg = map (\<lambda>(l, t). reread_tier l t) (printed_tiers cfg)"

lemma caps_matched:
  assumes "tier_numbers_ok t" "\<And>j. i + 3 \<le> j \<Longrightarrow> cap j cs = None"
    and "conds = v_conditions t"
  shows "matched_tier i conds (body_caps (Suc i) t ((i, l) # cs)) = reread_tier l t"
proof (rule matched_tier_eq [OF assms(1) _ _ _ _ assms(3)])
  let ?m = "body_caps (Suc i) t ((i, l) # cs)"
  have low: "cap j ?m = cap j ((Suc (Suc i), num_to_string (output_unit_cost t)) # (Suc i, num_to_string (input_unit_cost t)) # (i, l) # cs)"
    if "j < i + 3" for j
    unfolding body_caps_def by (rule cap_skip) (use that in simp)
  show "l = cap_str i ?m" using low [of i] by (simp add: cap_str_def cap_def)
  show "cap_str (i + 1) ?m = num_to_string (input_unit_cost t)" using low [of "i + 1"] by (simp add: cap_str_def cap_def)
  show "cap_str (i + 2) ?m = num_to_string (output_unit_cost t)" using low [of "i + 2"] by (simp add: cap_str_def cap_def)
  have "map (\<lambda>cv. (fst cv, num_or0 (map_of (matched_extras (Suc i + 2) ?m) (fst cv)))) BILLING_CACHE_VAR_MAP = extra_costs t"
    by (rule caps_extras [OF assms(1)]) (use assms(2) in \<open>auto simp: cap_def\<close>)
  then show "map (\<lambda>cv. (fst cv, num_or0 (map_of (matched_extras (i + 3) ?m) (fst cv)))) BILLING_CACHE_VAR_MAP = extra_costs t"
    by (simp add: numeral_3_eq_3)
qed

lemma guarded_matched:
  assumes "tier_ok t"
  shows "matched_tier 2 (map input_condition (parse_tier_conditions (cap_str 1 (guarded_caps l t)))) (guarded_caps l t) = reread_tier l t"
proof -
  let ?cs = "if v_conditions t = [] then [] else [(1, buildConditionStr (v_conditions t))]"
  have ok: "tier_numbers_ok t" "\<forall>c\<in>set (v_conditions t). condition_ok c" using assms by (auto simp: tier_ok_def list_all_iff)
  have e: "guarded_caps l t = body_caps (Suc 2) t ((2, l) # ?cs)" by (simp add: guarded_caps_def numeral_3_eq_3 numeral_2_eq_2)
  have "cap 1 (guarded_caps l t) = cap 1 ?cs"
    unfolding guarded_caps_def body_caps_def by (subst cap_skip) (simp_all add: cap_def)
  then have "map input_condition (parse_tier_conditions (cap_str 1 (guarded_caps l t))) = v_conditions t"
    using conditions_read [OF ok(2)] by (cases "v_conditions t = []") (simp_all add: cap_str_def cap_def parse_tier_conditions_def)
  then show ?thesis unfolding e by (intro caps_matched ok(1)) (auto simp: cap_def)
qed

lemma normal_tier: "tier_numbers_ok t \<Longrightarrow> normalizeVisualTier (partial_of t) = t"
proof -
  assume ok: "tier_numbers_ok t"
  have "map (\<lambda>cv. (fst cv, num_or0 (map_of (extra_costs t) (fst cv)))) BILLING_CACHE_VAR_MAP
      = zip (map fst BILLING_CACHE_VAR_MAP) (tier_costs t)"
    by (simp add: tier_costs_def zip_map_map) (simp add: zip_same_conv_map)
  also have "\<dots> = zip (map fst (extra_costs t)) (map snd (extra_costs t))"
    using ok tier_costs_eq [OF ok] by (simp add: tier_numbers_ok_def)
  finally have "map (\<lambda>cv. (fst cv, num_or0 (map_of (extra_costs t) (fst cv)))) BILLING_CACHE_VAR_MAP = extra_costs t"
    by (simp add: zip_map_fst_snd)
  then show ?thesis by (simp add: normalizeVisualTier_def partial_of_def getTierCacheMode_def)
qed

lemma reread_ok: "tier_ok t \<Longrightarrow> 34 \<notin> set l \<Longrightarrow> tier_ok (reread_tier l t)"
  by (simp add: tier_ok_def tier_numbers_ok_def reread_tier_def)

lemma reread_text: "guarded_text l (reread_tier l t) = guarded_text l t" "v_label (reread_tier l t) = l"
  by (simp_all add: guarded_text_def tier_text_of_def buildTierBodyExpr_def reread_tier_def)

lemma version_none:
  assumes "s = [] \<or> hd s \<noteq> 118"
  shows "re_match VERSION_REGEX s = None"
  unfolding VERSION_REGEX_def by (intro stuck_match stuck_lit) (use assms in \<open>cases s; auto simp: js_def\<close>)

lemma guarded_head: "hd (guarded_text l t @ s) \<in> {112, 99, 108, 116}" if "tier_ok t"
proof (cases "v_conditions t")
  case Nil
  then show ?thesis by (simp add: guarded_text_def tier_text_of_def js_def)
next
  case (Cons c cs)
  then have e: "buildConditionStr (c # cs) = condition_text c @ and_tail cs"
    using that by (intro buildConditionStr_eq) (auto simp: tier_ok_def list_all_iff)
  have "hd (cond_var_text (ci_var c)) \<in> {112, 99, 108}" by (cases "ci_var c") (simp_all add: cond_var_text_def js_def)
  then show ?thesis using Cons var_head [of "ci_var c"] by (auto simp: guarded_text_def e condition_text_def)
qed

lemma guarded_hd_cond: "tier_ok t \<Longrightarrow> v_conditions t \<noteq> [] \<Longrightarrow> hd (guarded_text l t @ s) \<noteq> 116"
proof -
  assume t: "tier_ok t" and "v_conditions t \<noteq> []"
  then obtain c cs where Cons: "v_conditions t = c # cs" by (metis neq_Nil_conv)
  then have e: "buildConditionStr (c # cs) = condition_text c @ and_tail cs"
    using t by (intro buildConditionStr_eq) (auto simp: tier_ok_def list_all_iff)
  have "hd (cond_var_text (ci_var c)) \<noteq> 116" by (cases "ci_var c") (simp_all add: cond_var_text_def js_def)
  then show ?thesis using Cons var_head [of "ci_var c"] by (simp add: guarded_text_def e condition_text_def)
qed

lemma printed_rest:
  assumes "printed_tiers cfg = g # gs" "cfg \<noteq> []" "list_all tier_ok cfg"
  shows "generateExprFromVisualConfig (Some cfg) =
    guarded_text (fst g) (snd g) @ concat (map (\<lambda>(l, t). js '' : '' @ guarded_text l t) gs) @ trailing cfg"
  using generate_eq [OF assms(2,3)] assms(1) by (simp add: join_parts comp_def split_def)

lemma trailing_cases: "trailing cfg = [] \<or> trailing cfg = else_text"
  by (simp add: trailing_def split: list.splits)

lemma several_match:
  assumes "printed_tiers cfg = g # gs" "cfg \<noteq> []" "list_all tier_ok cfg"
  shows "re_matches tier_re (generateExprFromVisualConfig (Some cfg)) = map (\<lambda>(l, t). guarded_caps l t) (printed_tiers cfg)"
proof -
  obtain l t where g: "g = (l, t)" by (cases g)
  let ?rest = "concat (map (\<lambda>(l, t). js '' : '' @ guarded_text l t) gs) @ trailing cfg"
  have ok: "tier_ok t" "34 \<notin> set l" "\<forall>h\<in>set gs. tier_ok (snd h) \<and> 34 \<notin> set (fst h)"
    using printed_ok [OF assms(3), of g] printed_ok [OF assms(3)] by (simp_all add: assms(1) g)
  obtain q where "re_search tier_re None (guarded_text l t @ ?rest) = Some (q, ?rest, guarded_caps l t)"
    using goes_search [OF guarded_goes [OF ok(1,2)]] by blast
  moreover have "re_all (length (guarded_text l t @ ?rest)) tier_re q ?rest = map (\<lambda>(l, t). guarded_caps l t) gs"
    by (rule all_tiers [OF ok(3) trailing_cases]) (use guarded_length [of l t] in simp)
  ultimately show ?thesis unfolding re_matches_def printed_rest [OF assms] by (simp add: g assms(1))
qed

lemma prefix_hd: "prefix (a # l) s \<Longrightarrow> hd s = a"
  by (cases s) auto

lemma single_only:
  assumes "cfg \<noteq> []" "list_all tier_ok cfg" "\<not> (\<exists>t. cfg = [t] \<and> v_conditions t = [])"
  shows "re_match single_re (generateExprFromVisualConfig (Some cfg)) = None"
proof -
  have "printed_tiers cfg \<noteq> []" using assms(1) by (auto simp: printed_tiers_def split: list.splits)
  then obtain l t gs where p: "printed_tiers cfg = (l, t) # gs" by (metis neq_Nil_conv surj_pair)
  let ?rest = "concat (map (\<lambda>(l, t). js '' : '' @ guarded_text l t) gs) @ trailing cfg"
  have ok: "tier_ok t" "34 \<notin> set l" using printed_ok [OF assms(2), of "(l, t)"] by (simp_all add: p)
  have shown: "generateExprFromVisualConfig (Some cfg) = guarded_text l t @ ?rest"
    using printed_rest [OF p assms(1,2)] by simp
  show ?thesis
  proof (cases "v_conditions t = []")
    case False
    have "stuck single_re (guarded_text l t @ ?rest)"
      unfolding single_re_eq tier_res_def append_Cons
    proof (rule stuck_lit)
      show \<open>\<not> prefix (js ''tier("'') (guarded_text l t @ ?rest)\<close>
        using guarded_hd_cond [OF ok(1) False, of l ?rest] prefix_hd [of 116 \<open>js ''ier("''\<close> "guarded_text l t @ ?rest"]
        by (auto simp: js_def simp del: hd_append2)
    qed
    then show ?thesis unfolding shown by (rule stuck_match)
  next
    case True
    have "length cfg \<noteq> 1"
    proof
      assume "length cfg = 1"
      then obtain x where "cfg = [x]" by (cases cfg) auto
      with p True assms(3) show False by (simp add: printed_tiers_def)
    qed
    then obtain a b ts where "cfg = a # b # ts" using assms(1) by (metis One_nat_def length_Cons list.size(3) neq_Nil_conv)
    with p obtain h hs where "gs = h # hs" by (auto simp: printed_tiers_def)
    then have "34 \<in> set ?rest" by (cases h) (auto simp: guarded_text_def tier_text_of_def js_def)
    then have "34 \<in> set (js '' '' @ buildTierBodyExpr t @ js '')'' @ ?rest)" by simp
    from quotes_refused [OF ok(2) this]
    show ?thesis unfolding shown using True by (simp add: guarded_text_def tier_text_of_def re_match_def js_def)
  qed
qed

lemma map_reread:
  "f = (\<lambda>(l, t). g l t) \<Longrightarrow> \<forall>p\<in>set ps. F (f p) = h p \<Longrightarrow> map F (map f ps) = map h ps"
  by simp

lemma printed_reread:
  assumes "list_all tier_ok cfg" "cfg \<noteq> []"
  shows "printed_tiers (reread_config cfg) = map (\<lambda>(l, t). (l, reread_tier l t)) (printed_tiers cfg)"
    "trailing (reread_config cfg) = trailing cfg"
proof -
  have lab: "printed_label fb (reread_tier (printed_label fb' t) t') = printed_label fb' t" if "fb' \<noteq> []" for fb fb' t t'
    using that by (simp add: printed_label_def reread_tier_def)
  have cond: "v_conditions (reread_tier l t) = v_conditions t" for l t by (simp add: reread_tier_def)
  show "printed_tiers (reread_config cfg) = map (\<lambda>(l, t). (l, reread_tier l t)) (printed_tiers cfg)"
  proof (cases "\<exists>t. cfg = [t]")
    case True
    then show ?thesis using lab by (auto simp: reread_config_def printed_tiers_def)
  next
    case False
    then have n: "length cfg \<noteq> 1" by (cases cfg) (auto simp: Suc_le_eq)
    have len: "length (reread_config cfg) = length cfg" by (simp add: reread_config_def several_printed(1) [OF n])
    have m: "length (reread_config cfg) \<noteq> 1" using n len by simp
    show ?thesis
    proof (rule nth_equalityI)
      show "length (printed_tiers (reread_config cfg)) = length (map (\<lambda>(l, t). (l, reread_tier l t)) (printed_tiers cfg))"
        by (simp add: several_printed(1) [OF n] several_printed(1) [OF m] len)
      fix i
      assume "i < length (printed_tiers (reread_config cfg))"
      then have i: "i < length cfg" by (simp add: several_printed(1) [OF m] len)
      have e: "enumerate 0 xs ! i = (i, xs ! i)" if "i < length xs" for xs :: "VisualTier list" using that by (simp add: nth_enumerate_eq)
      have r: "reread_config cfg ! i = reread_tier (printed_label (js ''tier_'' @ dec (Suc i)) (cfg ! i))
          (if i < length cfg - 1 then cfg ! i else (cfg ! i)\<lparr>v_conditions := []\<rparr>)"
        using i by (simp add: reread_config_def several_printed(1) [OF n] e)
      show "printed_tiers (reread_config cfg) ! i = map (\<lambda>(l, t). (l, reread_tier l t)) (printed_tiers cfg) ! i"
        using i lab by (auto simp: several_printed(1) [OF n] several_printed(1) [OF m] len e r) (simp_all add: reread_tier_def)
    qed
  qed
  show "trailing (reread_config cfg) = trailing cfg"
    by (auto simp: trailing_def reread_config_def printed_tiers_def cond split: list.splits)
qed

lemma reread_generates:
  assumes "cfg \<noteq> []" "list_all tier_ok cfg"
  shows "generateExprFromVisualConfig (Some (reread_config cfg)) = generateExprFromVisualConfig (Some cfg)"
    "list_all tier_ok (reread_config cfg)" "reread_config cfg \<noteq> []"
proof -
  show ok: "list_all tier_ok (reread_config cfg)"
    using printed_ok [OF assms(2)] reread_ok by (fastforce simp: reread_config_def list_all_iff)
  show ne: "reread_config cfg \<noteq> []" using assms(1) by (auto simp: reread_config_def printed_tiers_def split: list.splits)
  have "map (\<lambda>(l, t). guarded_text l t) (map (\<lambda>(l, t). (l, reread_tier l t)) (printed_tiers cfg))
      = map (\<lambda>(l, t). guarded_text l t) (printed_tiers cfg)"
    by (simp add: reread_text split_def)
  then show "generateExprFromVisualConfig (Some (reread_config cfg)) = generateExprFromVisualConfig (Some cfg)"
    unfolding generate_eq [OF ne ok] generate_eq [OF assms] printed_reread [OF assms(2,1)] by (simp only:)
qed

lemma normal_config: "cfg \<noteq> [] \<Longrightarrow> list_all tier_ok cfg \<Longrightarrow> normalizeVisualConfig (Some cfg) = cfg"
  by (auto simp: normalizeVisualConfig_def list_all_iff tier_ok_def intro!: map_idI normal_tier)

lemma tiers_reopen:
  assumes "cfg \<noteq> []" "list_all tier_ok cfg"
  shows "tryParseVisualConfig (generateExprFromVisualConfig (Some cfg)) = Some (reread_config cfg)"
proof -
  let ?e = "generateExprFromVisualConfig (Some cfg)"
  have "printed_tiers cfg \<noteq> []" using assms(1) by (auto simp: printed_tiers_def split: list.splits)
  then obtain g gs where p: "printed_tiers cfg = g # gs" by (metis neq_Nil_conv)
  have okg: "tier_ok (snd g)" "34 \<notin> set (fst g)" using printed_ok [OF assms(2), of g] by (simp_all add: p)
  have ne: "?e \<noteq> []" using printed_rest [OF p assms] guarded_length [of "fst g" "snd g"] by simp
  have "hd ?e \<noteq> 118" 
    using printed_rest [OF p assms] guarded_head [OF okg(1), of "fst g" "concat (map (\<lambda>(l, t). js '' : '' @ guarded_text l t) gs) @ trailing cfg"]
    by (simp only:) auto
  then have v: "re_match VERSION_REGEX ?e = None" by (intro version_none) simp
  show ?thesis
  proof (cases "\<exists>t. cfg = [t] \<and> v_conditions t = []")
    case True
    then obtain t where t: "cfg = [t]" "v_conditions t = []" by blast
    let ?l = "printed_label (js ''default'') t"
    have pt: "printed_tiers cfg = [(?l, t)]" by (simp add: t printed_tiers_def)
    then have ok: "tier_ok t" "34 \<notin> set ?l" using okg p by simp_all
    have e: "?e = tier_text_of ?l t"
      using generate_eq [OF assms] by (simp add: pt) (simp add: t guarded_text_def trailing_def)
    have "matched_tier 1 [] (body_caps (Suc 1) t ((1, ?l) # [])) = reread_tier ?l t"
      using ok(1) t(2) by (intro caps_matched) (simp_all add: tier_ok_def cap_def)
    then have "matched_tier 1 [] (body_caps 2 t [(1, ?l)]) = reread_tier ?l t" by (simp add: numeral_2_eq_2)
    moreover have "normalizeVisualConfig (Some [reread_tier ?l t]) = [reread_tier ?l t]"
      using reread_ok [OF ok] by (intro normal_config) simp_all
    ultimately show ?thesis
      using ne v single_matches [OF ok] by (simp add: tryParseVisualConfig_def e reread_config_def pt)
  next
    case False
    have s: "re_match single_re ?e = None" by (rule single_only [OF assms False])
    have m: "re_matches tier_re ?e = map (\<lambda>(l, t). guarded_caps l t) (printed_tiers cfg)"
      by (rule several_match [OF p assms])
    have "map (\<lambda>m. matched_tier 2 (map input_condition (parse_tier_conditions (cap_str 1 m))) m) (re_matches tier_re ?e) = reread_config cfg"
      unfolding m reread_config_def map_map
      by (rule map_cong [OF refl]) (use guarded_matched printed_ok [OF assms(2)] in fastforce)
    with reread_generates [OF assms] normal_config [of "reread_config cfg"] ne v s
    show ?thesis by (simp add: tryParseVisualConfig_def Let_def)
  qed
qed

text \<open>
  C4. A printed price expression reads back as the tiers it was printed from, each with the name it was
  printed with; of several tiers the last has lost its conditions, and the cache mode is the one its
  one-hour price implies. Printing the result again gives the same expression.
\<close>

theorem generated_tiers_reopen:
  assumes "cfg \<noteq> []" "list_all tier_ok cfg"
  shows "tryParseVisualConfig (generateExprFromVisualConfig (Some cfg)) = Some (reread_config cfg) \<and>
    generateExprFromVisualConfig (Some (reread_config cfg)) = generateExprFromVisualConfig (Some cfg)"
  using tiers_reopen [OF assms] reread_generates(1) [OF assms] by blast

lemma number_ok_nat: "n \<le> 2 ^ 53 \<Longrightarrow> number_ok (Fin (of_nat n))"
proof -
  assume n: "n \<le> 2 ^ 53"
  have d: "\<forall>c\<in>set (dec n). is_digit c" using dec_digits by blast
  obtain c t where ct: "dec n = c # t" by (metis dec_ne neq_Nil_conv)
  have tr: "trim (dec n) = dec n" using d by (intro trim_id no_ws_trimmed) (auto simp: is_digit_def is_ws_def)
  have c: "is_digit c" "t = [] \<or> is_digit (hd t)" using d ct by (cases t; simp)+
  have "js_Number (dec n) = unsigned_decimal False (dec n)"
    using c by (auto simp: js_Number_def ct tr [unfolded ct] is_digit_def)
  also have "\<dots> = decimal_value False (dec n) [] 0"
  proof -
    have "takeWhile is_digit (dec n) = dec n" "dropWhile is_digit (dec n) = []" using d by (simp_all add: takeWhile_eq_all_conv)
    moreover have "dec n \<noteq> js ''Infinity''" using c(1) by (auto simp: ct js_def is_digit_def)
    ultimately show ?thesis by (simp add: unsigned_decimal_def exp_part_def del: takeWhile_eq_all_conv dropWhile_eq_Nil_conv)
  qed
  also have "\<dots> = num_of_nat n" by (simp add: decimal_value_def pow10_def num_of_nat_def)
  also have "\<dots> = Fin (of_nat n)" by (rule num_of_nat_small [OF n])
  finally show ?thesis using num_to_string_nat [OF n] by (simp add: number_ok_def)
qed

text \<open>A sample: a short-input price with a cached one, and a fallback that was given no name.\<close>

definition sample_costs :: "nat \<Rightarrow> (jstr \<times> jsnum) list" where
  "sample_costs n = map (\<lambda>cv. (fst cv, Fin (if snd cv = js ''cr'' then of_nat n else 0))) BILLING_CACHE_VAR_MAP"

definition sample_tier :: "jstr \<Rightarrow> nat \<Rightarrow> TierConditionInput list \<Rightarrow> VisualTier" where
  "sample_tier l n conds =
     \<lparr>v_label = l, v_conditions = conds, input_unit_cost = Fin (of_nat n), output_unit_cost = Fin (of_nat (Suc n)),
      cache_mode = CACHE_MODE_TIMED, extra_costs = sample_costs n\<rparr>"

definition sample_config :: VisualConfig where
  "sample_config =
     [sample_tier (js ''short'') 3 [\<lparr>ci_var = Vlen, ci_op = OpLe, ci_value = NumValue (Fin (of_nat 200000))\<rparr>,
        \<lparr>ci_var = Vc, ci_op = OpLt, ci_value = NumValue (Fin (of_nat 200))\<rparr>],
      sample_tier [] 6 []]"

lemma sample_numbers: "n \<le> 2 ^ 52 \<Longrightarrow> tier_numbers_ok (sample_tier l n conds)"
  using number_ok_nat [of n] number_ok_nat [of "Suc n"] number_ok_nat [of 0]
  by (auto simp: tier_numbers_ok_def sample_tier_def sample_costs_def list_all_iff)

lemma sample_ok: "list_all tier_ok sample_config"
proof -
  have c: "condition_ok \<lparr>ci_var = v, ci_op = x, ci_value = NumValue (Fin (of_nat n))\<rparr>" if "n \<le> 2 ^ 53" for v x n
    using number_ok_nat [OF that] num_to_string_nat [OF that] dec_digits [of 45 n]
    by (auto simp: condition_ok_def is_digit_def)
  have t: "tier_ok (sample_tier l n conds)" if "n \<le> 2 ^ 52" "34 \<notin> set l" "list_all condition_ok conds" for l n conds
    using that sample_numbers [OF that(1)] by (simp add: tier_ok_def) (simp add: sample_tier_def)
  let ?A = "\<lparr>ci_var = Vlen, ci_op = OpLe, ci_value = NumValue (Fin (of_nat 200000))\<rparr>"
  let ?B = "\<lparr>ci_var = Vc, ci_op = OpLt, ci_value = NumValue (Fin (of_nat 200))\<rparr>"
  have "condition_ok ?A" "condition_ok ?B" by (rule c, simp)+
  then have ab: "list_all condition_ok [?A, ?B]" by (simp only: list.pred_inject simp_thms)
  have "tier_ok (sample_tier (js ''short'') 3 [?A, ?B])" by (rule t [OF _ _ ab]) (simp_all add: js_def)
  moreover have "tier_ok (sample_tier [] 6 [])" by (rule t) simp_all
  ultimately show ?thesis unfolding sample_config_def by (simp only: list.pred_inject simp_thms)
qed

theorem generated_tiers_reopen_witness:
  "tryParseVisualConfig (generateExprFromVisualConfig (Some sample_config)) = Some (reread_config sample_config) \<and>
   map v_label (reread_config sample_config) = [js ''short'', js ''tier_2'']"
proof -
  have "dec (Suc (Suc 0)) = js ''2''" by (simp add: js_def dec.simps [of "Suc (Suc 0)"])
  then have "map v_label (reread_config sample_config) = [js ''short'', js ''tier_2'']"
    by (simp add: reread_config_def printed_tiers_def printed_label_def sample_config_def sample_tier_def reread_tier_def js_def)
  then show ?thesis using generated_tiers_reopen [OF _ sample_ok] by (simp add: sample_config_def)
qed

section \<open>Which expressions are conditional expressions\<close>

lemma count_number: "number_ok x \<Longrightarrow> c \<in> {40, 41, 42, 58, 63} \<Longrightarrow> count_list (num_to_string x) c = 0"
proof -
  assume x: "number_ok x" and c: "c \<in> {40, 41, 42, 58, 63}"
  have "c \<notin> set (num_to_string x)" using number_units [OF x] c by (auto simp: num_unit_def is_digit_def)
  then show ?thesis by (simp add: count_notin)
qed

lemma count_tail:
  "length xs = length vs \<Longrightarrow> \<forall>x\<in>set xs. number_ok x \<Longrightarrow> \<forall>v\<in>set vs. name_ok v \<Longrightarrow> c \<in> {40, 41, 58, 63} \<Longrightarrow>
    count_list (cost_tail vs xs) c = 0"
proof (induction vs arbitrary: xs)
  case (Cons v vs)
  then obtain x ys where xs: "xs = x # ys" by (cases xs) auto
  have "c \<notin> set v" using Cons.prems(3,4) by (auto simp: name_ok_def is_word_def is_digit_def)
  then have "count_list (cost_part v x) c = 0"
    using Cons.prems count_number [of x c] by (auto simp: cost_part_def xs js_def count_notin)
  then show ?case using Cons by (auto simp: xs js_def)
qed simp

lemma count_body: "tier_numbers_ok t \<Longrightarrow> c \<in> {40, 41, 58, 63} \<Longrightarrow> count_list (buildTierBodyExpr t) c = 0"
proof -
  assume ok: "tier_numbers_ok t" and c: "c \<in> {40, 41, 58, 63}"
  have n: "number_ok (input_unit_cost t)" "number_ok (output_unit_cost t)" "\<forall>x\<in>set (tier_costs t). number_ok x"
    using ok tier_costs_eq [OF ok] by (auto simp: tier_numbers_ok_def list_all_iff)
  have "count_list (cost_tail cacheVarNames (tier_costs t)) c = 0"
    by (rule count_tail [OF _ n(3) cache_names_ok(1) c]) (simp add: tier_costs_def cacheVarNames_def)
  then show ?thesis using c count_number [OF n(1), of c] count_number [OF n(2), of c]
    by (auto simp: buildTierBodyExpr_eq [OF ok] js_def)
qed

lemma count_condition: "condition_ok c \<Longrightarrow> u \<in> {40, 41, 42, 58, 63} \<Longrightarrow> count_list (condition_text c) u = 0"
proof -
  assume ok: "condition_ok c" and u: "u \<in> {40, 41, 42, 58, 63}"
  obtain n where n: "cond_value_text (ci_value c) = n" "\<forall>u\<in>set n. pos_num_unit u" using condition_number [OF ok] by metis
  have "u \<notin> set n" "u \<notin> set (cond_var_text (ci_var c))"
    using n(2) u var_head [of "ci_var c"] by (auto simp: pos_num_unit_def is_word_def is_digit_def)
  moreover have "u \<notin> set (cond_op_text (ci_op c))" using u by (cases "ci_op c") (auto simp: cond_op_text_def js_def)
  ultimately show ?thesis using u by (auto simp: condition_text_def n(1) js_def count_notin)
qed

lemma count_conditions: "\<forall>c\<in>set cs. condition_ok c \<Longrightarrow> u \<in> {40, 41, 42, 58, 63} \<Longrightarrow> count_list (and_tail cs) u = 0"
  by (induction cs) (auto simp: js_def count_condition)

lemma count_condition_str:
  assumes "\<forall>c\<in>set conds. condition_ok c" "u \<in> {40, 41, 42, 58, 63}"
  shows "count_list (buildConditionStr conds) u = 0"
proof (cases conds)
  case (Cons c cs)
  then have "count_list (condition_text c) u = 0" "count_list (and_tail cs) u = 0"
    using assms by (auto intro!: count_condition count_conditions simp del: insert_iff)
  then show ?thesis using buildConditionStr_eq [OF assms(1) Cons] by simp
qed (simp add: buildConditionStr_def)

lemma count_guarded:
  assumes "tier_ok t" "58 \<notin> set l" "63 \<notin> set l"
  shows "count_list (guarded_text l t) 58 = 0" "count_list (guarded_text l t) 63 = (if v_conditions t = [] then 0 else 1)"
proof -
  have ok: "tier_numbers_ok t" "\<forall>c\<in>set (v_conditions t). condition_ok c" using assms(1) by (auto simp: tier_ok_def list_all_iff)
  note cond = count_condition_str [OF ok(2)]
  have t: "count_list (tier_text_of l t) u = 0" if "u \<in> {58, 63}" "u \<notin> set l" for u
    using count_body [OF ok(1), of u] that by (auto simp: tier_text_of_def js_def count_notin)
  show "count_list (guarded_text l t) 58 = 0" "count_list (guarded_text l t) 63 = (if v_conditions t = [] then 0 else 1)"
    using cond [of 58] cond [of 63] t [of 58] t [of 63] assms(2,3) by (simp_all add: guarded_text_def js_def)
qed

definition plain_names :: "VisualConfig \<Rightarrow> bool" where
  "plain_names cfg \<longleftrightarrow> (\<forall>t\<in>set cfg. 58 \<notin> set (v_label t) \<and> 63 \<notin> set (v_label t))"

lemma count_texts:
  "\<forall>g\<in>set gs. tier_ok (snd g) \<and> 58 \<notin> set (fst g) \<and> 63 \<notin> set (fst g) \<Longrightarrow>
    count_list (concat (map (\<lambda>(l, t). js '' : '' @ guarded_text l t) gs)) 58 = length gs \<and>
    count_list (concat (map (\<lambda>(l, t). js '' : '' @ guarded_text l t) gs)) 63 = length (filter (\<lambda>g. v_conditions (snd g) \<noteq> []) gs)"
  by (induction gs) (auto simp: count_guarded js_def)

lemma printed_chars:
  assumes "u \<in> {40, 41, 58, 63}" "\<forall>t\<in>set cfg. u \<notin> set (v_label t)" "g \<in> set (printed_tiers cfg)"
  shows "u \<notin> set (fst g)"
proof -
  have fb: "u \<notin> set (js ''tier_'' @ dec i)" for i
    using dec_digits [of u i] assms(1) by (auto simp: js_def is_digit_def)
  have l: "u \<notin> set (printed_label x t)" if "u \<notin> set x" "u \<notin> set (v_label t)" for x t
    using that by (simp add: printed_label_def)
  show ?thesis
  proof (cases "\<exists>t. cfg = [t]")
    case True
    then show ?thesis using assms l [of "js ''default''"] by (auto simp: printed_tiers_def js_def)
  next
    case False
    then have "length cfg \<noteq> 1" by (cases cfg) (auto simp: Suc_le_eq)
    then obtain i t where it: "(i, t) \<in> set (enumerate 0 cfg)" "fst g = printed_label (js ''tier_'' @ dec (Suc i)) t"
      using assms(3) several_printed(1) by fastforce
    then have "t \<in> set cfg" by (metis enumerate_eq_zip set_zip_rightD)
    then show ?thesis using it(2) l [OF fb] assms(2) by simp
  qed
qed

lemma printed_names:
  assumes "plain_names cfg" "g \<in> set (printed_tiers cfg)"
  shows "58 \<notin> set (fst g) \<and> 63 \<notin> set (fst g)"
  using printed_chars [of 58 cfg g] printed_chars [of 63 cfg g] assms by (simp add: plain_names_def)

lemma several_conditions:
  assumes "length cfg \<noteq> 1" "cfg \<noteq> []"
  shows "map (\<lambda>g. v_conditions (snd g)) (printed_tiers cfg) = map v_conditions (butlast cfg) @ [[]]"
proof (rule nth_equalityI)
  show len: "length (map (\<lambda>g. v_conditions (snd g)) (printed_tiers cfg)) = length (map v_conditions (butlast cfg) @ [[]])"
    using assms(2) by (simp add: several_printed(1) [OF assms(1)])
  fix i
  assume "i < length (map (\<lambda>g. v_conditions (snd g)) (printed_tiers cfg))"
  then have i: "i < length cfg" by (simp add: several_printed(1) [OF assms(1)])
  then show "map (\<lambda>g. v_conditions (snd g)) (printed_tiers cfg) ! i = (map v_conditions (butlast cfg) @ [[]]) ! i"
    by (auto simp: several_printed(1) [OF assms(1)] nth_enumerate_eq nth_append nth_butlast)
qed

lemma filter_length: "length (filter (\<lambda>x. P (f x)) xs) = length (filter P (map f xs))"
  by (induction xs) auto

lemma filter_all: "length (filter P xs) = length xs \<longleftrightarrow> (\<forall>x\<in>set xs. P x)"
  using length_filter_less [of _ xs P] by (metis filter_True less_irrefl)

text \<open>
  The printed expression is a conditional expression, with a question mark for every colon, exactly
  when every tier before the last has a condition. Taking the conditions from an earlier tier prints a
  text no evaluator accepts, and the editor sends it on.
\<close>

theorem balanced_expression:
  assumes "cfg \<noteq> []" "list_all tier_ok cfg" "plain_names cfg"
  shows "count_list (generateExprFromVisualConfig (Some cfg)) 63 = count_list (generateExprFromVisualConfig (Some cfg)) 58
    \<longleftrightarrow> (\<forall>t\<in>set (butlast cfg). v_conditions t \<noteq> [])"
proof -
  have "printed_tiers cfg \<noteq> []" using assms(1) by (auto simp: printed_tiers_def split: list.splits)
  then obtain g gs where p: "printed_tiers cfg = g # gs" by (metis neq_Nil_conv)
  have ok: "\<forall>h\<in>set (g # gs). tier_ok (snd h) \<and> 58 \<notin> set (fst h) \<and> 63 \<notin> set (fst h)"
    using printed_ok [OF assms(2)] printed_names [OF assms(3)] p by metis
  let ?P = "\<lambda>cs. cs \<noteq> ([] :: TierConditionInput list)"
  let ?E = "generateExprFromVisualConfig (Some cfg)"
  have e: "count_list ?E 58 = length gs + count_list (trailing cfg) 58"
    "count_list ?E 63 = length (filter ?P (map (\<lambda>g. v_conditions (snd g)) (g # gs))) + count_list (trailing cfg) 63"
    unfolding printed_rest [OF p assms(1,2)] filter_length [symmetric, of ?P]
    using count_texts [of gs] count_guarded [of "snd g" "fst g"] ok by auto
  show ?thesis
  proof (cases "\<exists>t. cfg = [t]")
    case True
    then obtain t where t: "cfg = [t]" by blast
    then have "g = (printed_label (js ''default'') t, t)" "gs = []" using p by (simp_all add: printed_tiers_def)
    then show ?thesis using e by (simp add: t trailing_def else_text_def js_def)
  next
    case False
    then have n: "length cfg \<noteq> 1" by (cases cfg) (auto simp: Suc_le_eq)
    have "map (\<lambda>g. v_conditions (snd g)) (g # gs) = map v_conditions (butlast cfg) @ [[]]"
      using several_conditions [OF n assms(1)] p by simp
    moreover have "length gs = length (butlast cfg)"
      using arg_cong [OF p, of length] by (simp add: several_printed(1) [OF n])
    moreover have "trailing cfg = []" by (rule several_printed(2) [OF n])
    ultimately have "count_list ?E 58 = length (map v_conditions (butlast cfg))"
      "count_list ?E 63 = length (filter ?P (map v_conditions (butlast cfg)))" using e by simp_all
    then show ?thesis using filter_all [of ?P "map v_conditions (butlast cfg)"] by simp
  qed
qed

theorem balanced_expression_witness:
  "count_list (generateExprFromVisualConfig (Some sample_config)) 63 = count_list (generateExprFromVisualConfig (Some sample_config)) 58 \<and>
   \<not> count_list (generateExprFromVisualConfig (Some [hd sample_config\<lparr>v_conditions := []\<rparr>, hd sample_config])) 63
     = count_list (generateExprFromVisualConfig (Some [hd sample_config\<lparr>v_conditions := []\<rparr>, hd sample_config])) 58"
proof -
  let ?c = "[hd sample_config\<lparr>v_conditions := []\<rparr>, hd sample_config]"
  have h: "tier_ok (hd sample_config)" using sample_ok by (simp add: sample_config_def)
  then have "list_all tier_ok ?c" by (simp add: tier_ok_def tier_numbers_ok_def)
  moreover have "plain_names sample_config" "plain_names ?c" by (simp_all add: plain_names_def sample_config_def sample_tier_def js_def)
  ultimately show ?thesis
    using balanced_expression [of sample_config] balanced_expression [of ?c] sample_ok
    by (simp add: sample_config_def sample_tier_def)
qed

section \<open>Prices that are no numbers\<close>

lemma cost_caps_zero: "cost_caps k (replicate n (Fin 0)) cs = cs" "cost_tail vs (replicate n (Fin 0)) = []"
  by (induction n arbitrary: k) (auto simp: cost_tail_def dest!: set_zip_rightD)

lemma zero_map: "num_or0 (map_of (map (\<lambda>cv. (fst cv, Fin 0)) ps) f) = Fin 0"
  by (induction ps) (auto simp: num_or0_def)

definition free_extras :: "VisualTier \<Rightarrow> bool" where
  "free_extras t \<longleftrightarrow> (\<forall>f. num_or0 (map_of (extra_costs t) f) = Fin 0)"

lemma free_body:
  assumes "free_extras t"
  shows "buildTierBodyExpr t = js ''p * '' @ num_to_string (num_or0 (Some (input_unit_cost t))) @ js '' + c * '' @
    num_to_string (num_or0 (Some (output_unit_cost t)))"
proof -
  have "List.map_filter (\<lambda>cv. let v = num_or0 (map_of (extra_costs t) (fst cv)) in
      if num_eq v (Fin 0) then None else Some (cost_part (snd cv) v)) ps = []" for ps
    using assms by (simp add: free_extras_def List.map_filter_def num_eq_def)
  then show ?thesis by (simp add: buildTierBodyExpr_def cost_part_def js_def)
qed

lemma free_normal: "free_extras t \<Longrightarrow> free_extras (normalizeVisualTier (partial_of t))"
  by (simp add: free_extras_def normalizeVisualTier_def partial_of_def zero_map)

lemma zero_ok: "number_ok (Fin 0)"
  using number_ok_nat [of 0] by simp

lemma unread_single:
  assumes "34 \<notin> set l" "a \<noteq> []" "\<forall>u\<in>set a. num_unit u" "b \<noteq> []" "\<forall>u\<in>set b. num_unit u"
  shows \<open>re_match single_re (js ''tier("'' @ l @ js ''", p * '' @ a @ js '' + c * '' @ b @ js '')'') = Some [(3, b), (2, a), (1, l)]\<close>
proof -
  let ?z = "replicate (length cacheVarNames) (Fin 0)"
  have "goes (cat [Lit (js '')''), EOL]) (js '')'' @ []) [(3, b), (2, a), (1, l)] [] [(3, b), (2, a), (1, l)]"
    by (rule goes_lit, rule goes_eol)
  then have e: "goes (cat [Lit (js '')''), EOL]) (41 # []) (cost_caps (2 + 2) ?z ((Suc 2, b) # (2, a) # [(1, l)])) [] [(3, b), (2, a), (1, l)]"
    by (simp add: cost_caps_zero js_def del: cat_Cons)
  have "goes (cat (body_res 2 @ [Lit (js '')''), EOL])) (js ''p * '' @ a @ js '' + c * '' @ b @ 41 # []) [(1, l)] [] [(3, b), (2, a), (1, l)]"
    using body_runs [OF assms(2-5) _ _ e] zero_ok by (simp add: cost_caps_zero del: cat_Cons)
  then have \<open>goes (cat ([Lit (js ''tier("''), Group 1 (Star not_quote), Lit (js ''",''), ws_star] @ body_res 2 @ [Lit (js '')''), EOL]))
      (js ''tier("'' @ l @ js ''",'' @ 32 # js ''p * '' @ a @ js '' + c * '' @ b @ 41 # []) [] [] [(3, b), (2, a), (1, l)]\<close>
    unfolding append_Cons append_Nil
    by (intro goes_lit goes_star_group goes_blank) (use assms(1) in \<open>auto simp: js_def is_ws_def\<close>)
  then show ?thesis by (intro goes_match [of _ _ "[]"]) (simp add: single_re_def js_def del: cat_Cons)
qed

text \<open>
  C34. A single tier is taken over without printing it again and comparing. If what stands for its input
  price is made of the units of numbers but is none, such as \<open>1+2\<close>, the editor takes the expression
  and prints it with the price zero.
\<close>

theorem unread_price_zeroed:
  assumes "l \<noteq> []" "34 \<notin> set l" "a \<noteq> []" "\<forall>u\<in>set a. num_unit u" "js_Number a = NaN" "number_ok y"
  shows \<open>map_option (\<lambda>cfg. generateExprFromVisualConfig (Some cfg))
      (tryParseVisualConfig (js ''tier("'' @ l @ js ''", p * '' @ a @ js '' + c * '' @ num_to_string y @ js '')'')) =
    Some (js ''tier("'' @ l @ js ''", p * 0 + c * '' @ num_to_string y @ js '')'')\<close>
proof -
  let ?b = "num_to_string y"
  let ?e = \<open>js ''tier("'' @ l @ js ''", p * '' @ a @ js '' + c * '' @ ?b @ js '')''\<close>
  let ?m = "[(3, ?b), (2, a), (1, l)]"
  have m: "re_match single_re ?e = Some ?m"
    by (rule unread_single) (use assms number_nonempty number_units in auto)
  have v: "re_match VERSION_REGEX ?e = None" by (rule version_none) (simp add: js_def)
  have x: "matched_extras 4 ?m = []"
    by (simp add: matched_extras_def BILLING_CACHE_VAR_MAP_def BILLING_EXTRA_VARS_def BILLING_VARS_def List.map_filter_def cap_def)
  let ?t = "matched_tier 1 [] ?m"
  have t: "v_label ?t = l" "v_conditions ?t = []" "input_unit_cost ?t = NaN" "output_unit_cost ?t = y"
    "free_extras ?t"
    using x assms(5) number_read [OF assms(6)]
    by (simp_all add: zero_map matched_tier_def normalizeVisualTier_def cap_str_def num_or0_zero free_extras_def)
  let ?n = "normalizeVisualTier (partial_of ?t)"
  have n: "v_label ?n = l" "v_conditions ?n = []" "input_unit_cost ?n = NaN" "output_unit_cost ?n = y"
    using t by (simp_all add: normalizeVisualTier_def partial_of_def)
  have "num_or0 (Some NaN) = Fin 0" "num_to_string (Fin 0) = js ''0''"
    using num_to_string_nat [of 0] by (simp_all add: num_or0_def js_def dec.simps [of 0])
  then have "generateExprFromVisualConfig (Some [?n]) = js ''tier('' @ [34] @ l @ [34] @ js '', p * 0 + c * '' @ ?b @ js '')''"
    using assms(1,6) n free_body [OF free_normal [OF t(5)]]
    by (simp add: generateExprFromVisualConfig_def buildConditionStr_def tier_text_def js_def)
  then show ?thesis using m v by (simp add: tryParseVisualConfig_def normalizeVisualConfig_def js_def)
qed

theorem unread_price_zeroed_witness:
  \<open>map_option (\<lambda>cfg. generateExprFromVisualConfig (Some cfg))
      (tryParseVisualConfig (js ''tier("base", p * 1+2 + c * 3)'')) = Some (js ''tier("base", p * 0 + c * 3)'')\<close>
proof -
  have n: "js_Number (js ''1+2'') = NaN"
    by (simp add: js_Number_def js_def trim_def is_ws_def unsigned_decimal_def is_digit_def exp_part_def)
  have three: "num_to_string (Fin 3) = js ''3''" using num_to_string_nat [of 3] by (simp add: js_def dec.simps [of 3])
  have "number_ok (Fin 3)" using number_ok_nat [of 3] by simp
  then show ?thesis
    using unread_price_zeroed [of "js ''base''" "js ''1+2''" "Fin 3"] n three
    by (simp add: js_def num_unit_def is_digit_def)
qed

end
