(* ===== verification/TierEditor.thy ===== *)
theory TierEditor
  imports TierReopen BillingRules
begin

text \<open>
  \<open>features/system-settings/models/tiered-pricing-editor.tsx\<close>: the editor of a tiered price. Its state
  stands beside the two texts its parent keeps, \<open>billingExpr\<close> and \<open>requestRuleExpr\<close>, which it sets
  through callbacks.

  React runs the effects of a component after a render, in their order and with the values of that
  render, and applies the updates they ask for together before it renders again. \<open>commit\<close> is such a
  phase; an editor is settled when it changes nothing. The effects with an inequality as their guard
  change nothing when their dependencies have not changed, so only the first two have to remember what
  they have seen. \<open>None\<close> is an exception during a render.
\<close>

section \<open>Number fields\<close>

definition formatNumberDraft :: "CondValue \<Rightarrow> jstr" where
  "formatNumberDraft v =
     (case v of
        TextValue s \<Rightarrow> s
      | NumValue x \<Rightarrow> (case x of Fin q \<Rightarrow> num_to_string (Fin q) | _ \<Rightarrow> js ''0''))"

definition parseNumberDraft :: "jstr \<Rightarrow> jsnum" where
  "parseNumberDraft s =
     (if trim s = [] then Fin 0 else case js_Number s of Fin q \<Rightarrow> Fin q | _ \<Rightarrow> Fin 0)"

definition isZeroDraft :: "jstr \<Rightarrow> bool" where
  "isZeroDraft s \<longleftrightarrow> trim s \<noteq> [] \<and> parseNumberDraft s = Fin 0"

record DraftNumberInput =
  draft :: jstr
  focused :: bool

definition draft_opened :: "CondValue \<Rightarrow> DraftNumberInput" where
  "draft_opened v = \<lparr>draft = formatNumberDraft v, focused = False\<rparr>"

text \<open>The effect that follows the value while the field has no focus; the handlers return what they emit.\<close>

definition draft_sync :: "CondValue \<Rightarrow> DraftNumberInput \<Rightarrow> DraftNumberInput" where
  "draft_sync v d = (if focused d then d else d\<lparr>draft := formatNumberDraft v\<rparr>)"

definition draft_change :: "jstr \<Rightarrow> DraftNumberInput \<Rightarrow> DraftNumberInput \<times> jsnum" where
  "draft_change nextDraft d = (d\<lparr>draft := nextDraft\<rparr>, parseNumberDraft nextDraft)"

definition draft_focus :: "DraftNumberInput \<Rightarrow> DraftNumberInput" where
  "draft_focus d = d\<lparr>focused := True\<rparr>"

definition draft_blur :: "DraftNumberInput \<Rightarrow> DraftNumberInput \<times> jsnum" where
  "draft_blur d =
     (let normalized = parseNumberDraft (draft d) in
      (d\<lparr>focused := False, draft := num_to_string normalized\<rparr>, normalized))"

section \<open>A tier\<close>

definition remove_at :: "nat \<Rightarrow> 'a list \<Rightarrow> 'a list" where
  "remove_at i xs = take i xs @ drop (Suc i) xs"

datatype PriceField = InputPrice | OutputPrice | ExtraPrice jstr

definition unitCostToPrice :: "jsnum \<Rightarrow> jsnum" where
  "unitCostToPrice uc = num_or0 (Some uc)"

definition priceToUnitCost :: "jsnum \<Rightarrow> jsnum" where
  "priceToUnitCost price = num_or0 (Some price)"

definition handleConditionChange :: "nat \<Rightarrow> TierConditionInput \<Rightarrow> VisualTier \<Rightarrow> VisualTier" where
  "handleConditionChange i next tier = tier\<lparr>v_conditions := (v_conditions tier)[i := next]\<rparr>"

definition handleConditionRemove :: "nat \<Rightarrow> VisualTier \<Rightarrow> VisualTier" where
  "handleConditionRemove i tier = tier\<lparr>v_conditions := remove_at i (v_conditions tier)\<rparr>"

definition handlePriceChange :: "PriceField \<Rightarrow> jsnum \<Rightarrow> VisualTier \<Rightarrow> VisualTier" where
  "handlePriceChange f x tier =
     (case f of
        InputPrice \<Rightarrow> tier\<lparr>input_unit_cost := priceToUnitCost x\<rparr>
      | OutputPrice \<Rightarrow> tier\<lparr>output_unit_cost := priceToUnitCost x\<rparr>
      | ExtraPrice key \<Rightarrow> tier\<lparr>extra_costs := map_set key (priceToUnitCost x) (extra_costs tier)\<rparr>)"

definition handleCacheModeChange :: "CacheMode \<Rightarrow> VisualTier \<Rightarrow> VisualTier" where
  "handleCacheModeChange m tier =
     tier\<lparr>cache_mode := m,
       extra_costs := map_set (js ''cache_create_1h_unit_cost'')
         (if m = CACHE_MODE_TIMED
          then (case map_of (extra_costs tier) (js ''cache_create_1h_unit_cost'') of Some x \<Rightarrow> x | None \<Rightarrow> Fin 0)
          else Fin 0) (extra_costs tier)\<rparr>"

definition handleLabelChange :: "jstr \<Rightarrow> VisualTier \<Rightarrow> VisualTier" where
  "handleLabelChange l tier = tier\<lparr>v_label := l\<rparr>"

definition hasMediaPricing :: "VisualTier \<Rightarrow> bool" where
  "hasMediaPricing tier \<longleftrightarrow>
     list_ex (\<lambda>v. num_lt (Fin 0) (num_or0 (map_of (extra_costs tier) (case tierField v of Some f \<Rightarrow> f | None \<Rightarrow> []))))
       (filter (\<lambda>v. group v = Some (js ''media'')) BILLING_EXTRA_VARS)"

section \<open>The list of tiers\<close>

definition handleTierChange :: "nat \<Rightarrow> VisualTier \<Rightarrow> VisualConfig \<Rightarrow> VisualConfig" where
  "handleTierChange i next tiers = tiers[i := normalizeVisualTier (partial_of next)]"

definition first_condition :: TierConditionInput where
  "first_condition = \<lparr>ci_var = Vlen, ci_op = OpLt, ci_value = NumValue (Fin 200000)\<rparr>"

definition handleAddTier :: "VisualConfig \<Rightarrow> VisualConfig" where
  "handleAddTier tiers =
     (let tiers = (if tiers \<noteq> [] \<and> v_conditions (last tiers) = []
                   then butlast tiers @ [normalizeVisualTier (partial_of (last tiers\<lparr>v_conditions := [first_condition]\<rparr>))]
                   else tiers) in
      tiers @ [normalizeVisualTier \<lparr>pt_label = Some (js ''tier_'' @ dec (length tiers + 1)), pt_conditions = Some [],
                 pt_input = Some (Fin 0), pt_output = Some (Fin 0), pt_cache_mode = None, pt_extra = []\<rparr>])"

definition handleRemoveTier :: "nat \<Rightarrow> VisualConfig \<Rightarrow> VisualConfig" where
  "handleRemoveTier i tiers = (let rest = remove_at i tiers in if rest \<noteq> [] then rest else tiers)"

definition handleAddCondition :: "nat \<Rightarrow> VisualConfig \<Rightarrow> VisualConfig" where
  "handleAddCondition i tiers =
     (let tier = tiers ! i in
      if length (v_conditions tier) \<ge> 2 then tiers
      else
        let nextVar = (if Vlen \<in> ci_var ` set (v_conditions tier) then Vc else Vlen) in
        tiers[i := tier\<lparr>v_conditions := v_conditions tier @ [first_condition\<lparr>ci_var := nextVar\<rparr>]\<rparr>])"

text \<open>The events of the visual editor; the index is that of a card, which exists.\<close>

datatype TierEvent =
    ChangeCondition nat nat TierConditionInput
  | RemoveCondition nat nat
  | ChangePrice nat PriceField jstr
  | ChangeCacheMode nat CacheMode
  | ChangeLabel nat jstr
  | AddTier
  | RemoveTier nat
  | AddCondition nat

definition tier_event :: "TierEvent \<Rightarrow> VisualConfig option \<Rightarrow> VisualConfig" where
  "tier_event e visualConfig =
     (let tiers = normalizeVisualConfig visualConfig in
      case e of
        ChangeCondition i j c \<Rightarrow> handleTierChange i (handleConditionChange j c (tiers ! i)) tiers
      | RemoveCondition i j \<Rightarrow> handleTierChange i (handleConditionRemove j (tiers ! i)) tiers
      | ChangePrice i f s \<Rightarrow> handleTierChange i (handlePriceChange f (parseNumberDraft s) (tiers ! i)) tiers
      | ChangeCacheMode i m \<Rightarrow> handleTierChange i (handleCacheModeChange m (tiers ! i)) tiers
      | ChangeLabel i l \<Rightarrow> handleTierChange i (handleLabelChange l (tiers ! i)) tiers
      | AddTier \<Rightarrow> handleAddTier tiers
      | RemoveTier i \<Rightarrow> handleRemoveTier i tiers
      | AddCondition i \<Rightarrow> handleAddCondition i tiers)"

section \<open>Rule groups\<close>

datatype RuleSource = FromParam | FromHeader | FromTime

definition handleSourceChange :: "RuleSource \<Rightarrow> RequestCondition" where
  "handleSourceChange s =
     (case s of
        FromTime \<Rightarrow> TimeCond createEmptyTimeCondition
      | FromParam \<Rightarrow> PHCond (createEmptyCondition\<lparr>ph_source := SParam\<rparr>)
      | FromHeader \<Rightarrow> PHCond (createEmptyCondition\<lparr>ph_source := SHeader\<rparr>))"

definition handleRuleModeChange :: "jstr \<Rightarrow> RequestCondition \<Rightarrow> RequestCondition" where
  "handleRuleModeChange m c = (case c of PHCond ph \<Rightarrow> PHCond (ph\<lparr>ph_mode := m\<rparr>) | TimeCond tc \<Rightarrow> TimeCond (tc\<lparr>t_mode := m\<rparr>))"

datatype RuleFieldEdit =
    EditPath jstr | EditValue jstr | EditTimeFunc jstr | EditTimezone jstr | EditStart jstr | EditEnd jstr

text \<open>The number fields of a time condition emit a number, which is kept as its text.\<close>

definition number_text :: "jstr \<Rightarrow> jstr" where
  "number_text s = num_to_string (parseNumberDraft s)"

definition edit_rule_field :: "RuleFieldEdit \<Rightarrow> RequestCondition \<Rightarrow> RequestCondition" where
  "edit_rule_field e c =
     (case c of
        PHCond ph \<Rightarrow>
          PHCond (case e of EditPath s \<Rightarrow> ph\<lparr>path := s\<rparr> | EditValue s \<Rightarrow> ph\<lparr>ph_value := s\<rparr> | _ \<Rightarrow> ph)
      | TimeCond tc \<Rightarrow>
          TimeCond (case e of
            EditTimeFunc s \<Rightarrow> tc\<lparr>timeFunc := s\<rparr>
          | EditTimezone s \<Rightarrow> tc\<lparr>timezone := s\<rparr>
          | EditStart s \<Rightarrow> tc\<lparr>rangeStart := number_text s\<rparr>
          | EditEnd s \<Rightarrow> tc\<lparr>rangeEnd := number_text s\<rparr>
          | EditValue s \<Rightarrow> tc\<lparr>t_value := number_text s\<rparr>
          | EditPath s \<Rightarrow> tc))"

definition handleRuleConditionChange :: "nat \<Rightarrow> RequestCondition \<Rightarrow> RequestRuleGroup \<Rightarrow> RequestRuleGroup" where
  "handleRuleConditionChange i next g = g\<lparr>conditions := (conditions g)[i := next]\<rparr>"

definition handleAddRuleCondition :: "bool \<Rightarrow> RequestRuleGroup \<Rightarrow> RequestRuleGroup" where
  "handleAddRuleCondition timeMode g =
     g\<lparr>conditions := conditions g @ [if timeMode then TimeCond createEmptyTimeCondition else PHCond createEmptyCondition]\<rparr>"

definition removeRuleCondition :: "nat \<Rightarrow> RequestRuleGroup \<Rightarrow> RequestRuleGroup" where
  "removeRuleCondition i g = g\<lparr>conditions := remove_at i (conditions g)\<rparr>"

definition changeMultiplier :: "jstr \<Rightarrow> RequestRuleGroup \<Rightarrow> RequestRuleGroup" where
  "changeMultiplier s g = g\<lparr>multiplier := number_text s\<rparr>"

definition changeRuleGroup :: "nat \<Rightarrow> RequestRuleGroup \<Rightarrow> RequestRuleGroup list \<Rightarrow> RequestRuleGroup list" where
  "changeRuleGroup i g gs = gs[i := g]"

definition removeRuleGroup :: "nat \<Rightarrow> RequestRuleGroup list \<Rightarrow> RequestRuleGroup list" where
  "removeRuleGroup i gs = remove_at i gs"

definition addRuleGroup :: "RequestRuleGroup list \<Rightarrow> RequestRuleGroup list" where
  "addRuleGroup gs = gs @ [createEmptyRuleGroup]"

section \<open>The editor\<close>

datatype EditorMode = Mode_visual | Mode_raw

record TierEditor =
  modelName :: jstr
  currentExpr :: jstr
  currentRequestRuleExpr :: jstr
  editorMode :: EditorMode
  visualConfig :: "VisualConfig option"
  rawExpr :: jstr
  requestRuleGroups :: "RequestRuleGroup list"
  initRef :: bool
  seenExprs :: "(jstr \<times> jstr) option"
  seenModel :: "jstr option"

definition rule_groups_of :: "jstr \<Rightarrow> RequestRuleGroup list option" where
  "rule_groups_of s = (case tryParseRequestRuleExpr s of Parsed gs \<Rightarrow> Some gs | NoParse \<Rightarrow> Some [] | Threw \<Rightarrow> None)"

definition mounted :: "jstr \<Rightarrow> jstr \<Rightarrow> jstr \<Rightarrow> TierEditor option" where
  "mounted name e r =
     (case rule_groups_of r of
        None \<Rightarrow> None
      | Some gs \<Rightarrow>
          Some \<lparr>modelName = name, currentExpr = e, currentRequestRuleExpr = r, editorMode = Mode_visual,
            visualConfig = tryParseVisualConfig e, rawExpr = combineBillingExpr e r, requestRuleGroups = gs,
            initRef = False, seenExprs = None, seenModel = None\<rparr>)"

definition canUseVisualRules :: "TierEditor \<Rightarrow> bool option" where
  "canUseVisualRules st =
     (if currentRequestRuleExpr st = [] then Some True
      else case tryParseRequestRuleExpr (currentRequestRuleExpr st) of
        Parsed _ \<Rightarrow> Some True | NoParse \<Rightarrow> Some False | Threw \<Rightarrow> None)"

definition effectiveExpr :: "TierEditor \<Rightarrow> jstr option" where
  "effectiveExpr st =
     (case editorMode st of
        Mode_visual \<Rightarrow> Some (generateExprFromVisualConfig (visualConfig st))
      | Mode_raw \<Rightarrow> (case splitBillingExprAndRequestRules (rawExpr st) of Parsed (b, _) \<Rightarrow> Some b | _ \<Rightarrow> None))"

text \<open>The effect that takes over the stored texts, until it has done so once.\<close>

definition init_effect :: "TierEditor \<Rightarrow> TierEditor \<Rightarrow> TierEditor option" where
  "init_effect shown st =
     (if seenExprs shown = Some (currentExpr shown, currentRequestRuleExpr shown) \<or> initRef st then Some st
      else case rule_groups_of (currentRequestRuleExpr shown) of
        None \<Rightarrow> None
      | Some gs \<Rightarrow>
          let parsed = tryParseVisualConfig (currentExpr shown);
              st = (case parsed of
                      Some cfg \<Rightarrow> st\<lparr>visualConfig := Some cfg, editorMode := Mode_visual\<rparr>
                    | None \<Rightarrow>
                        if currentExpr shown \<noteq> [] then st\<lparr>visualConfig := None, editorMode := Mode_raw\<rparr>
                        else st\<lparr>visualConfig := Some createDefaultVisualConfig\<rparr>) in
          Some (st\<lparr>initRef := True, rawExpr := combineBillingExpr (currentExpr shown) (currentRequestRuleExpr shown),
            requestRuleGroups := gs\<rparr>))"

definition model_effect :: "TierEditor \<Rightarrow> TierEditor \<Rightarrow> TierEditor" where
  "model_effect shown st = (if seenModel shown = Some (modelName shown) then st else st\<lparr>initRef := False\<rparr>)"

definition expr_effect :: "TierEditor \<Rightarrow> TierEditor \<Rightarrow> TierEditor option" where
  "expr_effect shown st =
     (case effectiveExpr shown of
        None \<Rightarrow> None
      | Some e \<Rightarrow> Some (if e \<noteq> currentExpr shown then st\<lparr>currentExpr := e\<rparr> else st))"

definition rules_effect :: "TierEditor \<Rightarrow> TierEditor \<Rightarrow> TierEditor" where
  "rules_effect shown st =
     (if editorMode shown \<noteq> Mode_visual then st
      else
        let ruleExpr = buildRequestRuleExpr (requestRuleGroups shown) in
        if ruleExpr \<noteq> currentRequestRuleExpr shown then st\<lparr>currentRequestRuleExpr := ruleExpr\<rparr> else st)"

definition commit :: "TierEditor \<Rightarrow> TierEditor option" where
  "commit st =
     (case canUseVisualRules st of
        None \<Rightarrow> None
      | Some _ \<Rightarrow>
          (case init_effect st st of
             None \<Rightarrow> None
           | Some st1 \<Rightarrow>
               (case expr_effect st (model_effect st st1) of
                  None \<Rightarrow> None
                | Some st2 \<Rightarrow>
                    Some ((rules_effect st st2)
                      \<lparr>seenExprs := Some (currentExpr st, currentRequestRuleExpr st), seenModel := Some (modelName st)\<rparr>))))"

fun commits :: "nat \<Rightarrow> TierEditor \<Rightarrow> TierEditor option" where
  "commits 0 st = Some st"
| "commits (Suc n) st = (case commit st of None \<Rightarrow> None | Some st' \<Rightarrow> commits n st')"

definition settled :: "TierEditor \<Rightarrow> bool" where
  "settled st \<longleftrightarrow> commit st = Some st"

section \<open>Its handlers\<close>

definition handleVisualChange :: "VisualConfig \<Rightarrow> TierEditor \<Rightarrow> TierEditor" where
  "handleVisualChange next st = st\<lparr>visualConfig := Some next\<rparr>"

text \<open>An exception in a handler keeps the updates asked for before it.\<close>

definition handleRawChange :: "jstr \<Rightarrow> TierEditor \<Rightarrow> TierEditor" where
  "handleRawChange s st =
     (let st = st\<lparr>rawExpr := s\<rparr> in
      case splitBillingExprAndRequestRules s of
        Parsed (_, ruleStr) \<Rightarrow> st\<lparr>currentRequestRuleExpr := ruleStr\<rparr>
      | _ \<Rightarrow> st)"

definition handleModeChange :: "EditorMode \<Rightarrow> TierEditor \<Rightarrow> TierEditor" where
  "handleModeChange next st =
     (case next of
        Mode_visual \<Rightarrow>
          (case splitBillingExprAndRequestRules (rawExpr st) of
             Parsed (b, ruleStr) \<Rightarrow>
               (let st = st\<lparr>visualConfig := Some (case tryParseVisualConfig b of Some cfg \<Rightarrow> cfg | None \<Rightarrow> createDefaultVisualConfig)\<rparr> in
                case rule_groups_of ruleStr of
                  None \<Rightarrow> st
                | Some gs \<Rightarrow> st\<lparr>requestRuleGroups := gs, currentRequestRuleExpr := ruleStr, editorMode := Mode_visual\<rparr>)
           | _ \<Rightarrow> st)
      | Mode_raw \<Rightarrow>
          (let e = generateExprFromVisualConfig (visualConfig st);
               combined = combineBillingExpr e (buildRequestRuleExpr (requestRuleGroups st)) in
           st\<lparr>rawExpr := (if combined \<noteq> [] then combined else e), editorMode := Mode_raw\<rparr>))"

record Preset =
  preset_expr :: jstr
  preset_rules :: "RequestRuleGroup list"

definition applyPreset :: "Preset \<Rightarrow> TierEditor \<Rightarrow> TierEditor" where
  "applyPreset preset st =
     (let ruleExpr = buildRequestRuleExpr (preset_rules preset);
          combined = combineBillingExpr (preset_expr preset) ruleExpr;
          st = st\<lparr>rawExpr := (if combined \<noteq> [] then combined else preset_expr preset)\<rparr>;
          st = (case tryParseVisualConfig (preset_expr preset) of
                  Some cfg \<Rightarrow> st\<lparr>visualConfig := Some cfg, editorMode := Mode_visual\<rparr>
                | None \<Rightarrow> st\<lparr>editorMode := Mode_raw, visualConfig := None\<rparr>) in
      st\<lparr>requestRuleGroups := preset_rules preset, currentRequestRuleExpr := ruleExpr\<rparr>)"

definition handleRuleGroupsChange :: "RequestRuleGroup list \<Rightarrow> TierEditor \<Rightarrow> TierEditor" where
  "handleRuleGroupsChange next st = st\<lparr>requestRuleGroups := next\<rparr>"

end
