(* ===== verification/TierSession.thy ===== *)
theory TierSession
  imports TierEditor
begin

text \<open>
  What a session of the price editor does to the stored texts: what it shows is what it saves, switching
  its modes there and back keeps tiers and rules, and which stored texts it destroys by being opened.
\<close>

section \<open>Prices that are zero\<close>

lemma generate_none: "generateExprFromVisualConfig None = zero_text"
  by (simp add: generateExprFromVisualConfig_def zero_text_def)

lemma zero_unreadable: "tryParseVisualConfig zero_text = None"
proof -
  have v: "re_match VERSION_REGEX zero_text = None" by (rule version_none) (simp add: zero_text_def js_def)
  have "stuck single_re zero_text"
    unfolding single_re_eq tier_res_def append_Cons by (rule stuck_lit) (simp add: zero_text_def js_def)
  then have s: "re_match single_re zero_text = None" by (rule stuck_match)
  have "re_matches tier_re zero_text = []" using nothing_left(3) by (simp add: re_matches_def)
  with v s show ?thesis by (simp add: tryParseVisualConfig_def zero_text_def)
qed

lemma zero_split: "splitBillingExprAndRequestRules zero_text = Parsed (zero_text, [])"
proof -
  let ?ps = "[js ''p'', js ''0 + c'', js ''0'']"
  have "zero_text = join (js '' * '') ?ps" by (simp add: zero_text_def js_def)
  moreover have "splitBillingExprAndRequestRules (join (js '' * '') ?ps) = Parsed (join (js '' * '') ?ps, [])"
    by (rule split_no_rules) (simp_all add: js_def paren_depth_def trimmed_def is_ws_def suffix_def)
  ultimately show ?thesis by simp
qed

lemma zero_combine: "combineBillingExpr zero_text [] = zero_text" "zero_text \<noteq> []"
  by (simp_all add: combineBillingExpr_def zero_text_def js_def trim_def is_ws_def)

lemma no_rules: "tryParseRequestRuleExpr [] = Parsed []" "rule_groups_of [] = Some []" "buildRequestRuleExpr [] = []"
  by (simp_all add: tryParseRequestRuleExpr_def rule_groups_of_def buildRequestRuleExpr_def trim_def)

section \<open>Opening an expression the tiers cannot show\<close>

lemmas commit_simps = commit_def canUseVisualRules_def init_effect_def model_effect_def expr_effect_def rules_effect_def
  effectiveExpr_def Let_def

lemma opened_unreadable:
  assumes "e \<noteq> []" "tryParseVisualConfig e = None" "e \<noteq> zero_text"
    and "splitBillingExprAndRequestRules (combineBillingExpr e []) = Parsed (b, r)"
  shows "\<exists>st. Option.bind (mounted name e []) (commits 4) = Some st \<and> settled st \<and> currentExpr st = zero_text"
proof -
  define s0 where "s0 = \<lparr>modelName = name, currentExpr = e, currentRequestRuleExpr = [], editorMode = Mode_visual,
      visualConfig = None, rawExpr = combineBillingExpr e [], requestRuleGroups = [], initRef = False,
      seenExprs = None, seenModel = None\<rparr>"
  have m: "mounted name e [] = Some s0" by (simp add: mounted_def no_rules assms(2) s0_def)
  define s1 where "s1 = s0\<lparr>currentExpr := zero_text, editorMode := Mode_raw, seenExprs := Some (e, []), seenModel := Some name\<rparr>"
  have c1: "commit s0 = Some s1"
    using assms(1,3) by (simp add: commit_simps s0_def s1_def no_rules assms(2) generate_none)
  define s2 where "s2 = s1\<lparr>currentExpr := b, rawExpr := zero_text, initRef := True, seenExprs := Some (zero_text, [])\<rparr>"
  have c2: "commit s1 = Some s2"
    by (simp add: commit_simps s0_def s1_def s2_def no_rules assms(3,4) zero_unreadable zero_combine)
  define s3 where "s3 = s2\<lparr>currentExpr := zero_text, seenExprs := Some (b, [])\<rparr>"
  have c3: "commit s2 = Some s3"
    by (simp add: commit_simps s0_def s1_def s2_def s3_def no_rules zero_split)
  define s4 where "s4 = s3\<lparr>seenExprs := Some (zero_text, [])\<rparr>"
  have c4: "commit s3 = Some s4" "commit s4 = Some s4"
    by (simp_all add: commit_simps s0_def s1_def s2_def s3_def s4_def no_rules zero_split)
  have "commits 4 s0 = Some s4" by (simp add: numeral_eq_Suc c1 c2 c3 c4)
  moreover have "currentExpr s4 = zero_text" by (simp add: s4_def s3_def)
  ultimately show ?thesis using m c4(2) by (auto simp: settled_def)
qed

text \<open>
  C8. Opening the editor on an expression its tiers cannot show destroys it: the first effects still see
  the visual mode without tiers and send the price zero, the mode is changed to the text only after
  that, and the text is taken over once more from what was just sent. When nothing changes any more,
  the stored price is zero.
\<close>

theorem opening_erases_price:
  assumes "e \<noteq> []" "tryParseVisualConfig e = None" "e \<noteq> zero_text"
    and "splitBillingExprAndRequestRules (combineBillingExpr e []) = Parsed (b, r)"
  shows "\<exists>st. Option.bind (mounted name e []) (commits 4) = Some st \<and> settled st \<and> currentExpr st = zero_text"
  using assms by (rule opened_unreadable)

lemma max_unreadable:
  "tryParseVisualConfig (js ''max(1,2)'') = None"
  "splitBillingExprAndRequestRules (combineBillingExpr (js ''max(1,2)'') []) = Parsed (js ''max(1,2)'', [])"
proof -
  have v: "re_match VERSION_REGEX (js ''max(1,2)'') = None" by (rule version_none) (simp add: js_def)
  have "stuck single_re (js ''max(1,2)'')"
    unfolding single_re_eq tier_res_def append_Cons by (rule stuck_lit) (simp add: js_def)
  then have s: "re_match single_re (js ''max(1,2)'') = None" by (rule stuck_match)
  have "re_search tier_re None (js ''max(1,2)'') = None" by (simp add: js_def stuck_rm not_tier)
  then have "re_matches tier_re (js ''max(1,2)'') = []" by (simp add: re_matches_def)
  with v s show "tryParseVisualConfig (js ''max(1,2)'') = None" by (simp add: tryParseVisualConfig_def)
  have "combineBillingExpr (js ''max(1,2)'') [] = join (js '' * '') [js ''max(1,2)'']"
    by (simp add: combineBillingExpr_def js_def trim_def is_ws_def)
  moreover have "splitBillingExprAndRequestRules (join (js '' * '') [js ''max(1,2)'']) = Parsed (join (js '' * '') [js ''max(1,2)''], [])"
    by (rule split_no_rules) (simp_all add: js_def paren_depth_def trimmed_def is_ws_def suffix_def)
  ultimately show "splitBillingExprAndRequestRules (combineBillingExpr (js ''max(1,2)'') []) = Parsed (js ''max(1,2)'', [])"
    by simp
qed

theorem opening_erases_price_witness:
  "\<exists>st. Option.bind (mounted (js ''m'') (js ''max(1,2)'') []) (commits 4) = Some st \<and> settled st \<and> currentExpr st = zero_text"
  by (rule opening_erases_price [OF _ max_unreadable(1) _ max_unreadable(2)]) (simp_all add: zero_text_def)

text \<open>
  The rules have the same fate in the visual mode: stored rules that the rule groups cannot show are
  overwritten by no rules at the first effects, before anybody has touched the editor.
\<close>

lemma rules_erased:
  assumes "tryParseRequestRuleExpr r = NoParse" "r \<noteq> []"
  obtains st where "Option.bind (mounted name e r) commit = Some st" "currentRequestRuleExpr st = []"
proof -
  have m: "mounted name e r = Some \<lparr>modelName = name, currentExpr = e, currentRequestRuleExpr = r, editorMode = Mode_visual,
      visualConfig = tryParseVisualConfig e, rawExpr = combineBillingExpr e r, requestRuleGroups = [],
      initRef = False, seenExprs = None, seenModel = None\<rparr>"
    by (simp add: mounted_def rule_groups_of_def assms(1))
  have "rule_groups_of r = Some []" by (simp add: rule_groups_of_def assms(1))
  then have "\<exists>st. Option.bind (mounted name e r) commit = Some st \<and> currentRequestRuleExpr st = []"
    using assms by (simp add: m commit_simps no_rules split: option.split)
  then show thesis using that by blast
qed

section \<open>What is shown is what is saved\<close>

text \<open>
  C26. When the editor is settled, the stored price expression is the one it shows, and in the visual
  mode the stored rules are the ones it shows.
\<close>

theorem settled_saves_shown:
  assumes "settled st"
  shows "effectiveExpr st = Some (currentExpr st) \<and>
    (editorMode st = Mode_visual \<longrightarrow> currentRequestRuleExpr st = buildRequestRuleExpr (requestRuleGroups st))"
proof -
  obtain st1 e where st1: "init_effect st st = Some st1" "effectiveExpr st = Some e"
    and st: "st = (rules_effect st (if e \<noteq> currentExpr st then (model_effect st st1)\<lparr>currentExpr := e\<rparr> else model_effect st st1))
      \<lparr>seenExprs := Some (currentExpr st, currentRequestRuleExpr st), seenModel := Some (modelName st)\<rparr>"
    using assms by (auto simp: settled_def commit_def expr_effect_def split: option.splits)
  define st2 where "st2 = (if e \<noteq> currentExpr st then (model_effect st st1)\<lparr>currentExpr := e\<rparr> else model_effect st st1)"
  have same: "currentExpr (model_effect st st1) = currentExpr st" "currentRequestRuleExpr (model_effect st st1) = currentRequestRuleExpr st"
    using st1(1) by (auto simp: model_effect_def init_effect_def Let_def split: if_splits option.splits)
  have "currentExpr st = currentExpr (rules_effect st st2)" using arg_cong [OF st, of currentExpr] by (simp add: st2_def)
  also have "\<dots> = currentExpr st2" by (simp add: rules_effect_def Let_def)
  also have "\<dots> = e" by (simp add: st2_def same)
  finally have "effectiveExpr st = Some (currentExpr st)" using st1(2) by simp
  moreover have "currentRequestRuleExpr st = currentRequestRuleExpr (rules_effect st st2)"
    using arg_cong [OF st, of currentRequestRuleExpr] by (simp add: st2_def)
  moreover have "currentRequestRuleExpr st2 = currentRequestRuleExpr st" by (simp add: st2_def same)
  ultimately show ?thesis by (auto simp: rules_effect_def Let_def split: if_splits)
qed

theorem settled_saves_shown_witness:
  "\<exists>st. settled st \<and> effectiveExpr st = Some zero_text"
proof -
  have "js ''max(1,2)'' \<noteq> zero_text" by (simp add: zero_text_def)
  from opened_unreadable [OF _ max_unreadable(1) this max_unreadable(2), of "js ''m''"]
  obtain st where "settled st" "currentExpr st = zero_text" by auto
  with settled_saves_shown [of st] show ?thesis by auto
qed

section \<open>Switching modes\<close>

definition plain_parens :: "VisualConfig \<Rightarrow> bool" where
  "plain_parens cfg \<longleftrightarrow> (\<forall>t\<in>set cfg. 40 \<notin> set (v_label t) \<and> 41 \<notin> set (v_label t))"

lemma scan_flat: "40 \<notin> set x \<Longrightarrow> 41 \<notin> set x \<Longrightarrow> d \<noteq> 0 \<or> m \<notin> set x \<Longrightarrow> scan m d (x @ y) = scan m d y"
  by (induction x) (auto simp: paren_depth_def)

lemma nested_flat: "40 \<notin> set x \<Longrightarrow> 41 \<notin> set x \<Longrightarrow> 0 \<le> d \<Longrightarrow> nested d (x @ y) = nested d y"
  by (induction x) (auto simp: paren_depth_def)

lemma guarded_parts:
  assumes "tier_ok t" "40 \<notin> set l" "41 \<notin> set l"
  obtains a b where "guarded_text l t = a @ 40 # b @ [41]"
    "40 \<notin> set a" "41 \<notin> set a" "42 \<notin> set a" "40 \<notin> set b" "41 \<notin> set b" "a \<noteq> []" "hd a \<in> {112, 99, 108, 116}"
    "b = 34 # l @ js [CHR 0x22, CHR '','', CHR '' ''] @ buildTierBodyExpr t"
proof -
  have ok: "tier_numbers_ok t" "\<forall>c\<in>set (v_conditions t). condition_ok c" using assms(1) by (auto simp: tier_ok_def list_all_iff)
  define c where "c = (if v_conditions t = [] then [] else buildConditionStr (v_conditions t) @ js '' ? '')"
  have nc: "u \<notin> set (buildConditionStr (v_conditions t))" if "u \<in> {40, 41, 42}" for u
    using count_condition_str [OF ok(2), of u] that by (auto simp: count_list_0_iff)
  have nb: "u \<notin> set (buildTierBodyExpr t)" if "u \<in> {40, 41}" for u
    using count_body [OF ok(1), of u] that by (auto simp: count_list_0_iff)
  have "guarded_text l t = (c @ js ''tier'') @ 40 # (34 # l @ js [CHR 0x22, CHR '','', CHR '' ''] @ buildTierBodyExpr t) @ [41]"
    by (simp add: guarded_text_def tier_text_of_def c_def js_def)
  moreover have "u \<notin> set (c @ js ''tier'')" if "u \<in> {40, 41, 42}" for u
    using nc [OF that] that by (auto simp: c_def js_def)
  moreover have "u \<notin> set (34 # l @ js [CHR 0x22, CHR '','', CHR '' ''] @ buildTierBodyExpr t)" if "u \<in> {40, 41}" for u
    using nb [OF that] that assms(2,3) by (auto simp: js_def)
  moreover have "hd (c @ js ''tier'') \<in> {112, 99, 108, 116}"
  proof (cases "v_conditions t = []")
    case False
    then have "buildConditionStr (v_conditions t) \<noteq> []" using condition_str_Nil [OF assms(1)] by simp
    then have "hd (c @ js ''tier'') = hd (guarded_text l t @ [])" using False by (simp add: c_def guarded_text_def)
    then show ?thesis using guarded_head [OF assms(1), of l "[]"] by metis
  qed (simp add: c_def js_def)
  ultimately show thesis by (intro that) (auto simp: js_def)
qed

lemma guarded_scan:
  assumes "tier_ok t" "40 \<notin> set l" "41 \<notin> set l"
  shows "scan 42 0 (guarded_text l t @ y) = scan 42 0 y" "nested 0 (guarded_text l t @ y) = nested 0 y"
proof -
  obtain a b where ab: "guarded_text l t = a @ 40 # b @ [41]"
    "40 \<notin> set a" "41 \<notin> set a" "42 \<notin> set a" "40 \<notin> set b" "41 \<notin> set b" using guarded_parts [OF assms] by metis
  have "scan 42 0 (guarded_text l t @ y) = scan 42 0 (40 # b @ 41 # y)" using scan_flat [OF ab(2,3)] ab(4) by (simp add: ab(1))
  also have "\<dots> = scan 42 1 (b @ 41 # y)" by (simp add: paren_depth_def)
  also have "\<dots> = scan 42 1 (41 # y)" using scan_flat [OF ab(5,6), of 1 42] by simp
  finally show "scan 42 0 (guarded_text l t @ y) = scan 42 0 y" by (simp add: paren_depth_def)
  have "nested 0 (guarded_text l t @ y) = nested 0 (40 # b @ 41 # y)" using nested_flat [OF ab(2,3)] by (simp add: ab(1))
  also have "\<dots> = nested 1 (b @ 41 # y)" by (simp add: paren_depth_def)
  also have "\<dots> = nested 1 (41 # y)" using nested_flat [OF ab(5,6), of 1] by simp
  finally show "nested 0 (guarded_text l t @ y) = nested 0 y" by (simp add: paren_depth_def)
qed

lemma texts_scan:
  "\<forall>g\<in>set gs. tier_ok (snd g) \<and> 40 \<notin> set (fst g) \<and> 41 \<notin> set (fst g) \<Longrightarrow>
    scan 42 0 (concat (map (\<lambda>(l, t). js '' : '' @ guarded_text l t) gs) @ y) = scan 42 0 y \<and>
    nested 0 (concat (map (\<lambda>(l, t). js '' : '' @ guarded_text l t) gs) @ y) = nested 0 y"
  by (induction gs) (auto simp: guarded_scan js_def paren_depth_def)

lemma printed_parens:
  assumes "plain_parens cfg" "g \<in> set (printed_tiers cfg)"
  shows "40 \<notin> set (fst g) \<and> 41 \<notin> set (fst g)"
  using printed_chars [of 40 cfg g] printed_chars [of 41 cfg g] assms by (simp add: plain_parens_def)

text \<open>The shape of a whole expression: one that ends in a tier, followed by the else part or by nothing.\<close>

lemma expression_shape:
  assumes "cfg \<noteq> []" "list_all tier_ok cfg" "plain_parens cfg"
  obtains x where "generateExprFromVisualConfig (Some cfg) = x @ trailing cfg" "x \<noteq> []" "hd x \<in> {112, 99, 108, 116}"
    "last x = 41" "\<And>y. scan 42 0 (x @ y) = scan 42 0 y" "\<And>y. nested 0 (x @ y) = nested 0 y" "\<not> suffix (js '' : 1)'') x"
proof -
  have "printed_tiers cfg \<noteq> []" using assms(1) by (auto simp: printed_tiers_def split: list.splits)
  then obtain l t gs where p: "printed_tiers cfg = (l, t) # gs" by (metis neq_Nil_conv surj_pair)
  have ok: "tier_ok (snd h) \<and> 40 \<notin> set (fst h) \<and> 41 \<notin> set (fst h)" if "h \<in> set ((l, t) # gs)" for h
    using printed_ok [OF assms(2)] printed_parens [OF assms(3)] that p by metis
  define x where "x = guarded_text l t @ concat (map (\<lambda>(l, t). js '' : '' @ guarded_text l t) gs)"
  have "\<exists>z l' t'. x = z @ guarded_text l' t' \<and> (l', t') \<in> set ((l, t) # gs)"
  proof (cases gs rule: rev_cases)
    case Nil
    then have "x = [] @ guarded_text l t \<and> (l, t) \<in> set ((l, t) # gs)" by (simp add: x_def)
    then show ?thesis by blast
  next
    case (snoc ys h)
    obtain l' t' where h: "h = (l', t')" by (cases h)
    have "x = (guarded_text l t @ concat (map (\<lambda>(l, t). js '' : '' @ guarded_text l t) ys) @ js '' : '') @ guarded_text l' t'"
      by (simp add: x_def snoc h)
    then show ?thesis using snoc h by (metis in_set_conv_decomp list.set_intros(2))
  qed
  then obtain z l' t' where z: "x = z @ guarded_text l' t'" "(l', t') \<in> set ((l, t) # gs)" by blast
  have ok': "tier_ok t'" "40 \<notin> set l'" "41 \<notin> set l'" and okg: "tier_ok t" "40 \<notin> set l" "41 \<notin> set l"
    using ok [OF z(2)] ok [of "(l, t)"] by simp_all
  obtain a b where ab: "guarded_text l' t' = a @ 40 # b @ [41]"
      "b = 34 # l' @ js [CHR 0x22, CHR '','', CHR '' ''] @ buildTierBodyExpr t'"
    using guarded_parts [OF ok'] by metis
  have ns: "\<not> suffix (js '' : 1)'') x"
  proof
    let ?B = "buildTierBodyExpr t'"
    assume "suffix (js '' : 1)'') x"
    then have "suffix (js '' : 1'' @ [41]) ((z @ a @ 40 # 34 # l' @ js [CHR 0x22, CHR '','', CHR '' ''] @ ?B) @ [41])"
      by (simp add: z(1) ab js_def)
    then have "suffix (js '' : 1'') (z @ a @ 40 # 34 # l' @ js [CHR 0x22, CHR '','', CHR '' ''] @ ?B)"
      by (simp only: snoc_suffix_snoc)
    then have "suffix (js '' : 1'') ((z @ a @ 40 # 34 # l' @ js [CHR 0x22, CHR '','', CHR '' '']) @ ?B)" by simp
    moreover have "length (js '' : 1'') \<le> length ?B"
      using ok'(1) by (simp add: buildTierBodyExpr_eq tier_ok_def)
    ultimately have "suffix (js '' : 1'') ?B" by (metis suffix_appendI suffix_length_suffix suffix_order.refl)
    then have "58 \<in> set ?B" using set_mono_suffix by (fastforce simp: js_def)
    then show False using count_body [of t' 58] ok'(1) by (simp add: tier_ok_def count_list_0_iff)
  qed
  show thesis
  proof (rule that [of x])
    show "generateExprFromVisualConfig (Some cfg) = x @ trailing cfg"
      using printed_rest [OF p assms(1,2)] by (simp add: x_def)
    show "x \<noteq> []" "last x = 41" using z(1) ab(1) by simp_all
    have "hd (guarded_text l t @ concat (map (\<lambda>(l, t). js '' : '' @ guarded_text l t) gs)) \<in> {112, 99, 108, 116}"
      by (rule guarded_head [OF okg(1)])
    then show "hd x \<in> {112, 99, 108, 116}" by (simp only: x_def)
    show "scan 42 0 (x @ y) = scan 42 0 y" "nested 0 (x @ y) = nested 0 y" for y
      using texts_scan [of gs y] guarded_scan [OF okg] ok by (simp_all add: x_def)
  qed (rule ns)
qed

lemma expression_back:
  assumes "cfg \<noteq> []" "list_all tier_ok cfg" "plain_parens cfg" "\<forall>g\<in>set gs. canonical_group g"
  shows "splitBillingExprAndRequestRules
      (combineBillingExpr (generateExprFromVisualConfig (Some cfg)) (buildRequestRuleExpr gs)) =
    Parsed (generateExprFromVisualConfig (Some cfg), buildRequestRuleExpr gs)"
    "combineBillingExpr (generateExprFromVisualConfig (Some cfg)) (buildRequestRuleExpr gs) \<noteq> []"
proof -
  let ?e = "generateExprFromVisualConfig (Some cfg)"
  obtain x where x: "?e = x @ trailing cfg" "x \<noteq> []" "hd x \<in> {112, 99, 108, 116}" "last x = 41"
      "\<And>y. scan 42 0 (x @ y) = scan 42 0 y" "\<And>y. nested 0 (x @ y) = nested 0 y" "\<not> suffix (js '' : 1)'') x"
    using expression_shape [OF assms(1-3)] by metis
  have h: "hd ?e = hd x" "?e \<noteq> []" using x(1,2) by simp_all
  have l: "last ?e \<in> {41, 48}" using trailing_cases [of cfg] x(1,2,4) by (auto simp: else_text_def js_def)
  have "\<not> is_ws (hd x)" "\<not> is_ws (last ?e)" using x(3) l by (auto simp: is_ws_def)
  then have tr: "trimmed ?e" unfolding trimmed_def h(1) by simp
  have "nested 0 (trailing cfg)" using trailing_cases [of cfg] by (auto simp: else_text_def js_def paren_depth_def)
  then have n: "nested 0 ?e" unfolding x(1) x(6) .
  have outer: "\<not> hasFullOuterParens ?e" using h x(3) by (cases ?e) (auto simp: hasFullOuterParens_def)
  have s1: "\<not> suffix (js '' : 1'') ?e"
  proof
    assume "suffix (js '' : 1'') ?e"
    then have "last ?e = 49" by (auto simp: suffix_def js_def)
    with l show False by simp
  qed
  show "combineBillingExpr ?e (buildRequestRuleExpr gs) \<noteq> []"
    using tr h(2) by (simp add: combineBillingExpr_def trim_id Let_def js_def)
  show "splitBillingExprAndRequestRules (combineBillingExpr ?e (buildRequestRuleExpr gs)) = Parsed (?e, buildRequestRuleExpr gs)"
  proof (cases "gs = []")
    case False
    then show ?thesis by (intro combined_splits tr h(2) n outer s1 assms(4))
  next
    case True
    have c: "combineBillingExpr ?e (buildRequestRuleExpr gs) = ?e"
      using True trim_id [OF tr] trim_id [of "[]"] by (simp add: no_rules combineBillingExpr_def Let_def trimmed_def)
    show ?thesis
    proof (cases "trailing cfg = []")
      case True
      have "splitBillingExprAndRequestRules (join (js '' * '') [?e]) = Parsed (join (js '' * '') [?e], [])"
        using tr h(2) x(5) [of "[]"] x(7) True x(1) by (intro split_no_rules) simp_all
      then show ?thesis using c \<open>gs = []\<close> by (simp add: no_rules)
    next
      case False
      then have t: "trailing cfg = else_text" using trailing_cases by blast
      let ?ps = "[x @ js '' : p'', js ''0 + c'', js ''0'']"
      have e: "?e = join (js '' * '') ?ps" by (simp add: x(1) t else_text_def js_def)
      have "trimmed (x @ js '' : p'')" using x(2,3) by (auto simp: trimmed_def is_ws_def js_def)
      moreover have "\<not> suffix (js '' : 1)'') (x @ js '' : p'')"
        by (auto simp: js_def suffix_def)
      ultimately have "splitBillingExprAndRequestRules (join (js '' * '') ?ps) = Parsed (join (js '' * '') ?ps, [])"
        using x(5) by (intro split_no_rules) (auto simp: js_def paren_depth_def trimmed_def is_ws_def suffix_def)
      then show ?thesis using c \<open>gs = []\<close> e by (simp add: no_rules)
    qed
  qed
qed

text \<open>
  C14. Switching from the visual mode to the text and back, with canonical rule groups and tier names free
  of quotes and parentheses, keeps what is sold: the tiers come back as printed (with names for empty
  ones, and the last of several without its conditions), the rule groups come back exactly, and the shown
  expression is the same. Rules that compare a request parameter are not canonical; they and the tiers
  are not read back (\<open>guarded_rules_lost\<close>).
\<close>

theorem modes_roundtrip:
  assumes "visualConfig st = Some cfg" "cfg \<noteq> []" "list_all tier_ok cfg" "plain_parens cfg"
    "\<forall>g\<in>set (requestRuleGroups st). canonical_group g"
  shows "visualConfig (handleModeChange Mode_visual (handleModeChange Mode_raw st)) = Some (reread_config cfg) \<and>
    requestRuleGroups (handleModeChange Mode_visual (handleModeChange Mode_raw st)) = requestRuleGroups st \<and>
    editorMode (handleModeChange Mode_visual (handleModeChange Mode_raw st)) = Mode_visual \<and>
    effectiveExpr (handleModeChange Mode_visual (handleModeChange Mode_raw st)) = Some (generateExprFromVisualConfig (Some cfg))"
proof -
  let ?rules = "buildRequestRuleExpr (requestRuleGroups st)"
  note reread = expression_back [OF assms(2-5)]
  have rawtext: "rawExpr (handleModeChange Mode_raw st) = combineBillingExpr (generateExprFromVisualConfig (Some cfg)) ?rules"
    using reread(2) by (simp add: handleModeChange_def assms(1) Let_def)
  have grp: "rule_groups_of ?rules = Some (requestRuleGroups st)"
    using rules_back [OF assms(5)] by (simp add: rule_groups_of_def)
  have tiers: "tryParseVisualConfig (generateExprFromVisualConfig (Some cfg)) = Some (reread_config cfg)"
    by (rule tiers_reopen [OF assms(2,3)])
  let ?st' = "handleModeChange Mode_visual (handleModeChange Mode_raw st)"
  have "visualConfig ?st' = Some (reread_config cfg) \<and> requestRuleGroups ?st' = requestRuleGroups st \<and> editorMode ?st' = Mode_visual"
    unfolding handleModeChange_def [of Mode_visual] rawtext reread(1) by (simp add: grp tiers Let_def)
  then show ?thesis using reread_generates(1) [OF assms(2,3)] by (simp add: effectiveExpr_def)
qed

theorem modes_roundtrip_witness:
  "\<exists>st. visualConfig st = Some sample_config \<and> requestRuleGroups st = [sample_group] \<and>
    requestRuleGroups (handleModeChange Mode_visual (handleModeChange Mode_raw st)) = [sample_group]"
proof -
  define st :: TierEditor where "st = \<lparr>modelName = [], currentExpr = [], currentRequestRuleExpr = [], editorMode = Mode_visual,
      visualConfig = Some sample_config, rawExpr = [], requestRuleGroups = [sample_group], initRef = True,
      seenExprs = None, seenModel = None\<rparr>"
  have "plain_parens sample_config" by (simp add: plain_parens_def sample_config_def sample_tier_def js_def)
  then have "requestRuleGroups (handleModeChange Mode_visual (handleModeChange Mode_raw st)) = [sample_group]"
    using modes_roundtrip [of st sample_config] sample_ok sample_canonical by (simp add: st_def sample_config_def)
  then show ?thesis by (intro exI [of _ st]) (simp add: st_def)
qed

end
