(* ===== verification/ModelPricing.thy ===== *)
theory ModelPricing
  imports JsRegex TierReopen
begin

text \<open>
  \<open>features/system-settings/models/pricing-format.ts\<close> and \<open>model-pricing-sheet.tsx\<close>: the form for the
  price of one model. It stores ratios, a base ratio and one ratio for each lane, and shows prices; the
  handlers keep the two in step.

  A field of the stored data that is missing is the empty text here: the code reads both alike. The
  messages of the form and the switch of the preview are left out.
\<close>

section \<open>Printing prices\<close>

definition js_round :: "jsnum \<Rightarrow> jsnum" where
  "js_round x = (case x of Fin q \<Rightarrow> Fin (of_int \<lfloor>q + 1 / 2\<rfloor>) | _ \<Rightarrow> x)"

definition num_neg :: "jsnum \<Rightarrow> jsnum" where
  "num_neg x = (case x of Fin q \<Rightarrow> Fin (- q) | Infinity s \<Rightarrow> Infinity (\<not> s) | NaN \<Rightarrow> NaN)"

definition num_abs :: "jsnum \<Rightarrow> jsnum" where
  "num_abs x = (case x of Fin q \<Rightarrow> Fin \<bar>q\<bar> | Infinity s \<Rightarrow> Infinity False | NaN \<Rightarrow> NaN)"

text \<open>Division of finite numbers by one that is not zero.\<close>

definition num_div :: "rat \<Rightarrow> rat \<Rightarrow> jsnum" where
  "num_div a b = rnd (a / b)"

text \<open>\<open>parseFloat\<close>: the longest prefix that is a decimal numeral.\<close>

definition js_parseFloat :: "jstr \<Rightarrow> jsnum" where
  "js_parseFloat s =
     (let t = dropWhile is_ws s;
          neg = prefix [45] t;
          u = (if t \<noteq> [] \<and> hd t \<in> {43, 45} then tl t else t) in
      if prefix (js ''Infinity'') u then Infinity neg
      else
        let ip = takeWhile is_digit u; r = dropWhile is_digit u;
            dot = prefix [46] r;
            fp = (if dot then takeWhile is_digit (tl r) else []);
            r2 = (if dot then dropWhile is_digit (tl r) else r) in
        if ip = [] \<and> fp = [] then NaN
        else decimal_value neg ip fp (case exp_part r2 of Some (ex, _) \<Rightarrow> ex | None \<Rightarrow> 0))"

definition SNAP_EPSILON :: jsnum where "SNAP_EPSILON = rnd (pow10 (- 12))"

definition roundToDecimals :: "jsnum \<Rightarrow> nat \<Rightarrow> jsnum" where
  "roundToDecimals x decimals = num_div_pos (js_round (num_mul x (Fin (10 ^ decimals)))) (10 ^ decimals)"

definition snap_tolerance :: "jsnum \<Rightarrow> jsnum" where
  "snap_tolerance x =
     (let drift = num_mul (num_mul (num_abs x) (Fin (pow2 (- 52)))) (Fin 8) in
      if num_lt SNAP_EPSILON drift then drift else SNAP_EPSILON)"

definition snapFloatDrift :: "jsnum \<Rightarrow> jsnum" where
  "snapFloatDrift x =
     (case find (\<lambda>decimals. num_le (num_abs (num_add x (num_neg (roundToDecimals x decimals)))) (snap_tolerance x)) [0..<9] of
        Some decimals \<Rightarrow> roundToDecimals x decimals
      | None \<Rightarrow> x)"

definition formatPricingNumber :: "jsnum \<Rightarrow> jstr" where
  "formatPricingNumber x =
     (case x of
        Fin q \<Rightarrow> num_to_string (js_parseFloat (to_fixed 12 (snapFloatDrift (Fin q))))
      | _ \<Rightarrow> [])"

section \<open>Lanes\<close>

datatype PricingMode = Per_token | Per_request | Tiered_expr

datatype LaneKey = L_completion | L_cache | L_createCache | L_image | L_audioInput | L_audioOutput

definition laneConfigs :: "LaneKey list" where
  "laneConfigs = [L_completion, L_cache, L_createCache, L_image, L_audioInput, L_audioOutput]"

record ModelRatioData =
  d_name :: jstr
  d_price :: jstr
  d_ratio :: jstr
  d_ratios :: "LaneKey \<Rightarrow> jstr"
  d_mode :: "PricingMode option"
  d_expr :: jstr
  d_rules :: jstr

record FormValues =
  f_name :: jstr
  f_price :: jstr
  f_ratio :: jstr
  f_ratios :: "LaneKey \<Rightarrow> jstr"

definition EMPTY_FORM :: FormValues where
  "EMPTY_FORM = \<lparr>f_name = [], f_price = [], f_ratio = [], f_ratios = \<lambda>_. []\<rparr>"

definition toNumberOrNull :: "jstr \<Rightarrow> rat option" where
  "toNumberOrNull s = (if s = [] then None else case js_Number s of Fin q \<Rightarrow> Some q | _ \<Rightarrow> None)"

definition ratioToBasePrice :: "jstr \<Rightarrow> jstr" where
  "ratioToBasePrice ratio =
     (case toNumberOrNull ratio of None \<Rightarrow> [] | Some q \<Rightarrow> formatPricingNumber (num_mul (Fin q) (Fin 2)))"

definition deriveLanePrice :: "jstr \<Rightarrow> jstr \<Rightarrow> jstr" where
  "deriveLanePrice ratio denominator =
     (case (toNumberOrNull ratio, toNumberOrNull denominator) of
        (Some r, Some d) \<Rightarrow> formatPricingNumber (num_mul (Fin r) (Fin d))
      | _ \<Rightarrow> [])"

record LaneState =
  ls_prompt :: jstr
  ls_prices :: "LaneKey \<Rightarrow> jstr"
  ls_enabled :: "LaneKey \<Rightarrow> bool"

definition createInitialLaneState :: "ModelRatioData option \<Rightarrow> LaneState" where
  "createInitialLaneState data =
     (case data of
        None \<Rightarrow> \<lparr>ls_prompt = [], ls_prices = \<lambda>_. [], ls_enabled = \<lambda>_. False\<rparr>
      | Some d \<Rightarrow>
          (let prompt = ratioToBasePrice (d_ratio d);
               audioInputPrice = deriveLanePrice (d_ratios d L_audioInput) prompt in
           \<lparr>ls_prompt = prompt,
            ls_prices = (\<lambda>lane. if lane = L_audioOutput then deriveLanePrice (d_ratios d lane) audioInputPrice
                                else deriveLanePrice (d_ratios d lane) prompt),
            ls_enabled = (\<lambda>lane. d_ratios d lane \<noteq> [])\<rparr>))"

section \<open>The form\<close>

record PricingPanel =
  pricingMode :: PricingMode
  promptPrice :: jstr
  lanePrices :: "LaneKey \<Rightarrow> jstr"
  laneEnabled :: "LaneKey \<Rightarrow> bool"
  panelExpr :: jstr
  panelRules :: jstr
  form_values :: FormValues
  panelEdit :: "ModelRatioData option"

text \<open>The effect that runs when the panel opens and when its data change.\<close>

definition open_panel :: "ModelRatioData option \<Rightarrow> PricingPanel" where
  "open_panel data =
     (let next = createInitialLaneState data in
      \<lparr>pricingMode =
         (case data of
            None \<Rightarrow> Per_token
          | Some d \<Rightarrow> if d_mode d = Some Tiered_expr then Tiered_expr else if d_price d \<noteq> [] then Per_request else Per_token),
       promptPrice = ls_prompt next, lanePrices = ls_prices next, laneEnabled = ls_enabled next,
       panelExpr = (case data of None \<Rightarrow> [] | Some d \<Rightarrow> d_expr d),
       panelRules = (case data of None \<Rightarrow> [] | Some d \<Rightarrow> d_rules d),
       form_values =
         (case data of
            None \<Rightarrow> EMPTY_FORM
          | Some d \<Rightarrow> \<lparr>f_name = d_name d, f_price = d_price d, f_ratio = d_ratio d, f_ratios = d_ratios d\<rparr>),
       panelEdit = data\<rparr>)"

definition deriveLaneRatio :: "LaneKey \<Rightarrow> jstr \<Rightarrow> jstr \<Rightarrow> (LaneKey \<Rightarrow> jstr) \<Rightarrow> jstr" where
  "deriveLaneRatio lane price nextPromptPrice nextLanePrices =
     (case (toNumberOrNull price, toNumberOrNull (if lane = L_audioOutput then nextLanePrices L_audioInput else nextPromptPrice)) of
        (Some p, Some base) \<Rightarrow> if base = 0 then [] else formatPricingNumber (num_div p base)
      | _ \<Rightarrow> [])"

definition baseRatio :: "jstr \<Rightarrow> jstr" where
  "baseRatio prompt =
     (case toNumberOrNull prompt of Some p \<Rightarrow> formatPricingNumber (num_div p 2) | None \<Rightarrow> [])"

definition syncLaneRatios :: "jstr \<Rightarrow> (LaneKey \<Rightarrow> jstr) \<Rightarrow> (LaneKey \<Rightarrow> bool) \<Rightarrow> FormValues \<Rightarrow> FormValues" where
  "syncLaneRatios prompt lps enabled v =
     foldl (\<lambda>v lane. v\<lparr>f_ratios := (f_ratios v)(lane :=
         (if enabled lane then deriveLaneRatio lane (lps lane) prompt lps else []))\<rparr>)
       (v\<lparr>f_ratio := baseRatio prompt\<rparr>) laneConfigs"

definition set_lane_ratio :: "LaneKey \<Rightarrow> jstr \<Rightarrow> FormValues \<Rightarrow> FormValues" where
  "set_lane_ratio lane s v = v\<lparr>f_ratios := (f_ratios v)(lane := s)\<rparr>"

definition numericDraftRegex :: re where
  "numericDraftRegex =
     cat [Opt (Alt (cat [Plus (Chr is_digit), Opt (cat [Lit (js ''.''), Star (Chr is_digit)])])
                (cat [Lit (js ''.''), Star (Chr is_digit)])), EOL]"

definition numeric_draft :: "jstr \<Rightarrow> bool" where
  "numeric_draft s \<longleftrightarrow> re_match numericDraftRegex s \<noteq> None"

definition handlePromptPriceChange :: "jstr \<Rightarrow> PricingPanel \<Rightarrow> PricingPanel" where
  "handlePromptPriceChange s st =
     (if \<not> numeric_draft s then st
      else st\<lparr>promptPrice := s, form_values := syncLaneRatios s (lanePrices st) (laneEnabled st) (form_values st)\<rparr>)"

definition handleLanePriceChange :: "LaneKey \<Rightarrow> jstr \<Rightarrow> PricingPanel \<Rightarrow> PricingPanel" where
  "handleLanePriceChange lane s st =
     (if \<not> numeric_draft s then st
      else
        let next = (lanePrices st)(lane := s);
            v1 = (if laneEnabled st lane
                  then set_lane_ratio lane (deriveLaneRatio lane s (promptPrice st) next) (form_values st) else form_values st);
            v2 = (if lane = L_audioInput \<and> laneEnabled st L_audioOutput
                  then set_lane_ratio L_audioOutput
                         (deriveLaneRatio L_audioOutput (next L_audioOutput) (promptPrice st) next) v1
                  else v1) in
        st\<lparr>lanePrices := next, form_values := v2\<rparr>)"

definition handleLaneToggle :: "LaneKey \<Rightarrow> bool \<Rightarrow> PricingPanel \<Rightarrow> PricingPanel" where
  "handleLaneToggle lane checked st =
     (let enabled = (laneEnabled st)(lane := checked) in
      if checked then
        st\<lparr>laneEnabled := enabled,
           form_values := set_lane_ratio lane (deriveLaneRatio lane (lanePrices st lane) (promptPrice st) (lanePrices st)) (form_values st)\<rparr>
      else
        let lps = (lanePrices st)(lane := []); v = set_lane_ratio lane [] (form_values st) in
        if lane = L_audioInput then
          st\<lparr>laneEnabled := enabled(L_audioOutput := False), lanePrices := lps(L_audioOutput := []),
             form_values := set_lane_ratio L_audioOutput [] v\<rparr>
        else st\<lparr>laneEnabled := enabled, lanePrices := lps, form_values := v\<rparr>)"

definition DEFAULT_EXPR :: jstr where
  \<open>DEFAULT_EXPR = js ''tier("base", p * 0 + c * 0)''\<close>

definition handlePanelMode :: "PricingMode \<Rightarrow> PricingPanel \<Rightarrow> PricingPanel" where
  "handlePanelMode next st =
     (let st = st\<lparr>pricingMode := next\<rparr> in
      if next = Tiered_expr \<and> panelExpr st = [] then st\<lparr>panelExpr := DEFAULT_EXPR\<rparr> else st)"


text \<open>The values of \<open>handleSubmit\<close>: the data it saves, or \<open>None\<close> when the form has an error.\<close>

definition lane_set :: "PricingPanel \<Rightarrow> bool" where
  "lane_set st \<longleftrightarrow> list_ex (\<lambda>lane. laneEnabled st lane \<and> lanePrices st lane \<noteq> []) laneConfigs"

definition prices_lack_base :: "PricingPanel \<Rightarrow> bool" where
  "prices_lack_base st \<longleftrightarrow> pricingMode st = Per_token \<and> toNumberOrNull (promptPrice st) = None \<and> lane_set st"

definition output_lacks_input :: "PricingPanel \<Rightarrow> bool" where
  "output_lacks_input st \<longleftrightarrow>
     pricingMode st = Per_token \<and> laneEnabled st L_audioOutput \<and> lanePrices st L_audioInput = []"

definition handleSubmit :: "PricingPanel \<Rightarrow> ModelRatioData option" where
  "handleSubmit st =
     (if f_name (form_values st) = [] then None
      else if prices_lack_base st then None
      else if output_lacks_input st then None
      else Some \<lparr>d_name = trim (f_name (form_values st)), d_price = f_price (form_values st), d_ratio = f_ratio (form_values st),
             d_ratios = f_ratios (form_values st), d_mode = Some (pricingMode st),
             d_expr = (if pricingMode st = Tiered_expr then panelExpr st else []),
             d_rules = (if pricingMode st = Tiered_expr then panelRules st else [])\<rparr>)"

definition has_conflict :: "PricingPanel \<Rightarrow> bool" where
  "has_conflict st =
     (case panelEdit st of
        None \<Rightarrow> False
      | Some d \<Rightarrow> d_price d \<noteq> [] \<and> (d_ratio d \<noteq> [] \<or> list_ex (\<lambda>lane. d_ratios d lane \<noteq> []) laneConfigs))"

datatype Warning = Conflict_warning | Base_warning | Audio_warning

definition warnings :: "PricingPanel \<Rightarrow> Warning list" where
  "warnings st =
     (if has_conflict st then [Conflict_warning] else []) @
     (if prices_lack_base st then [Base_warning] else []) @
     (if output_lacks_input st then [Audio_warning] else [])"

text \<open>
  What the user can do. A control that is disabled does nothing: the name of an existing model, the
  price of a lane that is switched off, and the audio output without an audio input price.
\<close>

datatype PanelEvent =
    EditName jstr
  | EditPrice jstr
  | EditPromptPrice jstr
  | EditLanePrice LaneKey jstr
  | ToggleLane LaneKey bool
  | ChooseMode PricingMode
  | EditExpr jstr
  | EditRules jstr

definition lane_disabled :: "LaneKey \<Rightarrow> PricingPanel \<Rightarrow> bool" where
  "lane_disabled lane st \<longleftrightarrow>
     lane = L_audioOutput \<and> (\<not> laneEnabled st L_audioInput \<or> lanePrices st L_audioInput = [])"

fun panel_event :: "PanelEvent \<Rightarrow> PricingPanel \<Rightarrow> PricingPanel" where
  "panel_event (EditName s) st = (if panelEdit st \<noteq> None then st else st\<lparr>form_values := (form_values st)\<lparr>f_name := s\<rparr>\<rparr>)"
| "panel_event (EditPrice s) st = (if numeric_draft s then st\<lparr>form_values := (form_values st)\<lparr>f_price := s\<rparr>\<rparr> else st)"
| "panel_event (EditPromptPrice s) st = handlePromptPriceChange s st"
| "panel_event (EditLanePrice lane s) st =
     (if lane_disabled lane st \<or> \<not> laneEnabled st lane then st else handleLanePriceChange lane s st)"
| "panel_event (ToggleLane lane b) st = (if lane_disabled lane st then st else handleLaneToggle lane b st)"
| "panel_event (ChooseMode m) st = handlePanelMode m st"
| "panel_event (EditExpr s) st = st\<lparr>panelExpr := s\<rparr>"
| "panel_event (EditRules s) st = st\<lparr>panelRules := s\<rparr>"

definition panel_run :: "ModelRatioData option \<Rightarrow> PanelEvent list \<Rightarrow> PricingPanel" where
  "panel_run data es = foldl (\<lambda>st e. panel_event e st) (open_panel data) es"

lemma panel_run_Nil [simp]: "panel_run data [] = open_panel data"
  by (simp add: panel_run_def)

lemma panel_run_snoc [simp]: "panel_run data (es @ [e]) = panel_event e (panel_run data es)"
  by (simp add: panel_run_def)

section \<open>The ratios follow the prices\<close>

lemma lane_listed [simp]: "lane \<in> set laneConfigs"
  by (cases lane) (simp_all add: laneConfigs_def)

lemma number_or_null_Nil [simp]: "toNumberOrNull [] = None"
  by (simp add: toNumberOrNull_def)

lemma derive_Nil [simp]: "deriveLaneRatio lane [] prompt lps = []" "deriveLanePrice [] d = []"
  by (simp_all add: deriveLaneRatio_def deriveLanePrice_def)

lemma derive_lane_cong:
  "lps L_audioInput = lps' L_audioInput \<Longrightarrow> deriveLaneRatio lane p prompt lps = deriveLaneRatio lane p prompt lps'"
  "lane \<noteq> L_audioOutput \<Longrightarrow> deriveLaneRatio lane p prompt lps = deriveLaneRatio lane p prompt lps'"
  by (simp_all add: deriveLaneRatio_def cong: option.case_cong)

definition lane_ratio :: "PricingPanel \<Rightarrow> LaneKey \<Rightarrow> jstr" where
  "lane_ratio st lane =
     (if laneEnabled st lane then deriveLaneRatio lane (lanePrices st lane) (promptPrice st) (lanePrices st) else [])"

definition in_step :: "PricingPanel \<Rightarrow> bool" where
  "in_step st \<longleftrightarrow>
     f_ratio (form_values st) = baseRatio (promptPrice st) \<and> (\<forall>lane. f_ratios (form_values st) lane = lane_ratio st lane)"

lemma sync_values:
  "f_ratio (syncLaneRatios prompt lps enabled v) = baseRatio prompt"
  "f_ratios (syncLaneRatios prompt lps enabled v) lane =
     (if enabled lane then deriveLaneRatio lane (lps lane) prompt lps else [])"
  "f_price (syncLaneRatios prompt lps enabled v) = f_price v"
  by (cases lane; simp add: syncLaneRatios_def laneConfigs_def)+

lemma in_step_prompt: "numeric_draft s \<Longrightarrow> in_step (handlePromptPriceChange s st)"
  by (simp add: handlePromptPriceChange_def in_step_def lane_ratio_def sync_values)

lemma in_step_lane_price: "in_step st \<Longrightarrow> in_step (handleLanePriceChange lane s st)"
  by (auto simp: handleLanePriceChange_def in_step_def lane_ratio_def set_lane_ratio_def Let_def
      intro: derive_lane_cong)

lemma in_step_toggle: "in_step st \<Longrightarrow> in_step (handleLaneToggle lane b st)"
  by (auto simp: handleLaneToggle_def in_step_def lane_ratio_def set_lane_ratio_def Let_def
      intro: derive_lane_cong)

lemma in_step_event: "in_step st \<Longrightarrow> in_step (panel_event e st)"
  using in_step_prompt in_step_lane_price in_step_toggle
  by (cases e) (auto simp: in_step_def lane_ratio_def handlePanelMode_def Let_def handlePromptPriceChange_def)

lemma in_step_new: "in_step (open_panel None)"
  by (simp add: in_step_def lane_ratio_def open_panel_def createInitialLaneState_def EMPTY_FORM_def baseRatio_def)

lemma in_step_run:
  assumes "data = None \<or> (\<exists>s. EditPromptPrice s \<in> set es \<and> numeric_draft s)"
  shows "in_step (panel_run data es)"
  using assms
proof (induction es rule: rev_induct)
  case Nil
  then show ?case by (simp add: in_step_new)
next
  case (snoc e es)
  show ?case
  proof (cases "\<exists>s. e = EditPromptPrice s \<and> numeric_draft s")
    case True
    then show ?thesis using in_step_prompt by auto
  next
    case False
    with snoc have "in_step (panel_run data es)" by auto
    then show ?thesis by (simp add: in_step_event)
  qed
qed

text \<open>
  C20. Once the input price has been edited, and always for a new model, the stored ratios are those of
  the shown prices, whatever else the user does: the base ratio is half the input price, each lane that
  is switched on has its price divided by the input price, the audio output divided by the audio input,
  and the others have none.
\<close>

theorem ratios_follow_prices:
  assumes "data = None \<or> (\<exists>s. EditPromptPrice s \<in> set es \<and> numeric_draft s)"
    and "handleSubmit (panel_run data es) = Some d"
  shows "d_ratio d = baseRatio (promptPrice (panel_run data es)) \<and>
    d_ratios d = lane_ratio (panel_run data es)"
  using in_step_run [OF assms(1)] assms(2)
  by (auto simp: in_step_def handleSubmit_def fun_eq_iff split: if_splits)

lemma draft_2: "numeric_draft (js ''2'')" "numeric_draft (js ''4'')"
  by (simp_all add: numeric_draft_def numericDraftRegex_def re_match_def js_def Plus_def is_digit_def)

lemma number_2: "toNumberOrNull (js ''2'') = Some 2"
proof -
  have "undec [50] = 2" by (simp add: undec_def)
  moreover have "rnd 2 = Fin 2" using rnd_of_int [of 2] by simp
  ultimately show ?thesis
    by (simp add: toNumberOrNull_def js_Number_def trim_def is_ws_def js_def unsigned_decimal_def is_digit_def exp_part_def
        decimal_value_def pow10_def Let_def)
qed

theorem ratios_follow_prices_witness:
  "\<exists>d. handleSubmit (panel_run None [EditName (js ''m''), EditPromptPrice (js ''2''), ToggleLane L_completion True,
      EditLanePrice L_completion (js ''4'')]) = Some d \<and>
    d_ratio d = baseRatio (js ''2'') \<and> d_ratios d L_cache = []"
proof -
  let ?st = "panel_run None [EditName (js ''m''), EditPromptPrice (js ''2''), ToggleLane L_completion True,
      EditLanePrice L_completion (js ''4'')]"
  have st: "promptPrice ?st = js ''2''" "\<not> laneEnabled ?st L_cache" "f_name (form_values ?st) = js ''m''" "\<not> laneEnabled ?st L_audioOutput"
    by (simp_all add: panel_run_def open_panel_def createInitialLaneState_def handlePromptPriceChange_def draft_2 lane_disabled_def
        handleLaneToggle_def handleLanePriceChange_def set_lane_ratio_def syncLaneRatios_def laneConfigs_def Let_def)
  then have "\<exists>d. handleSubmit ?st = Some d"
    by (simp add: handleSubmit_def prices_lack_base_def output_lacks_input_def number_2)
  then obtain d where d: "handleSubmit ?st = Some d" by blast
  then show ?thesis using ratios_follow_prices [of None _ d] st by (auto simp: lane_ratio_def)
qed

section \<open>Lanes that are switched off\<close>

definition lanes_tidy :: "PricingPanel \<Rightarrow> bool" where
  "lanes_tidy st \<longleftrightarrow> (\<forall>lane. \<not> laneEnabled st lane \<longrightarrow> lanePrices st lane = [] \<and> f_ratios (form_values st) lane = [])"

lemma tidy_open: "lanes_tidy (open_panel data)"
  by (auto simp: lanes_tidy_def open_panel_def createInitialLaneState_def EMPTY_FORM_def Let_def split: option.splits)

lemma tidy_prompt: "lanes_tidy st \<Longrightarrow> lanes_tidy (handlePromptPriceChange s st)"
  by (simp add: lanes_tidy_def handlePromptPriceChange_def sync_values)

lemma tidy_lane_price: "lanes_tidy st \<Longrightarrow> laneEnabled st lane \<Longrightarrow> lanes_tidy (handleLanePriceChange lane s st)"
  by (auto simp: lanes_tidy_def handleLanePriceChange_def set_lane_ratio_def Let_def)

lemma tidy_toggle: "lanes_tidy st \<Longrightarrow> lanes_tidy (handleLaneToggle lane b st)"
  by (auto simp: lanes_tidy_def handleLaneToggle_def set_lane_ratio_def Let_def)

lemma tidy_event: "lanes_tidy st \<Longrightarrow> lanes_tidy (panel_event e st)"
  using tidy_prompt tidy_lane_price tidy_toggle
  by (cases e) (auto simp: lanes_tidy_def handlePanelMode_def Let_def)

lemma tidy_run: "lanes_tidy (panel_run data es)"
  by (induction es rule: rev_induct) (simp_all add: tidy_open tidy_event)

text \<open>The audio output is on only with the audio input, if that was so when the panel was opened.\<close>

definition audio_pair :: "PricingPanel \<Rightarrow> bool" where
  "audio_pair st \<longleftrightarrow> (laneEnabled st L_audioOutput \<longrightarrow> laneEnabled st L_audioInput)"

lemma audio_event: "audio_pair st \<Longrightarrow> audio_pair (panel_event e st)"
  by (cases e) (auto simp: audio_pair_def handlePanelMode_def handlePromptPriceChange_def
      handleLanePriceChange_def handleLaneToggle_def lane_disabled_def Let_def)

lemma audio_run: "audio_pair (open_panel data) \<Longrightarrow> audio_pair (panel_run data es)"
  by (induction es rule: rev_induct) (simp_all add: audio_event)

text \<open>
  A lane that is switched off is stored without a ratio and shows no price, in every state the
  panel can reach, and the audio output is on only while the audio input is, unless the stored data had
  it otherwise.
\<close>

lemma lanes_consistent:
  "(\<forall>lane. laneEnabled (panel_run data es) lane \<or>
      lanePrices (panel_run data es) lane = [] \<and> f_ratios (form_values (panel_run data es)) lane = []) \<and>
   (laneEnabled (panel_run data es) L_audioOutput \<and> \<not> laneEnabled (panel_run data es) L_audioInput \<longrightarrow>
      laneEnabled (open_panel data) L_audioOutput \<and> \<not> laneEnabled (open_panel data) L_audioInput)"
  using tidy_run [of data es] audio_run [of data es] by (auto simp: lanes_tidy_def audio_pair_def)

section \<open>What the events leave alone\<close>

lemma price_kept: "\<forall>e\<in>set es. \<forall>s. e \<noteq> EditPrice s \<Longrightarrow> f_price (form_values (panel_run data es)) = f_price (form_values (open_panel data))"
proof (induction es rule: rev_induct)
  case (snoc e es)
  then show ?case
    by (cases e) (auto simp: handlePanelMode_def handlePromptPriceChange_def handleLanePriceChange_def
        handleLaneToggle_def set_lane_ratio_def sync_values Let_def)
qed simp

text \<open>The expression a model starts with in the third mode is the one of the tiers it is shown as.\<close>

lemma default_expression: "DEFAULT_EXPR = generateExprFromVisualConfig (Some createDefaultVisualConfig)"
proof -
  have z: "pos_to_string 0 = [48]" by (simp add: pos_to_string_def dec.simps)
  have o: "num_or0 (Some (Fin 0)) = Fin 0" "num_or0 None = Fin 0" by (simp_all add: num_or0_def)
  have m: "List.map_filter (\<lambda>x. None) xs = []" for xs :: "(jstr \<times> jstr) list" by (simp add: List.map_filter_def)
  have "map_of (map (\<lambda>cv. (fst cv, Fin 0)) BILLING_CACHE_VAR_MAP) k = None \<or>
    map_of (map (\<lambda>cv. (fst cv, Fin 0)) BILLING_CACHE_VAR_MAP) k = Some (Fin 0)" for k
    by (cases "map_of (map (\<lambda>cv. (fst cv, Fin 0)) BILLING_CACHE_VAR_MAP) k") (auto dest: map_of_SomeD)
  then have "num_or0 (map_of (map (\<lambda>cv. (fst cv, Fin 0)) BILLING_CACHE_VAR_MAP) k) = Fin 0" for k
    using o by metis
  then show ?thesis
    by (simp add: DEFAULT_EXPR_def generateExprFromVisualConfig_def createDefaultVisualConfig_def normalizeVisualTier_def
        buildConditionStr_def buildTierBodyExpr_def tier_text_def cost_part_def o z num_eq_def m js_def)
qed

end
