(* ===== verification/ModelRatios.thy ===== *)
theory ModelRatios
  imports ModelPricing BillingRules JsPretty JsSort JsConvert
begin

text \<open>
  \<open>features/system-settings/models/model-ratio-visual-editor.tsx\<close>: the table of all model prices. The
  prices are ten JSON texts, each an object from model names to one part of the price; the editor reads
  them into rows, and writes them back when a model is saved, copied or deleted.

  A text that is JSON but no object is outside the model (\<open>None\<close>), as is a value that cannot be
  converted. A model named like a property of every object (\<open>constructor\<close>) is treated as any other.
  Filters, paging and the selection of rows belong to the table library.
\<close>

section \<open>The ten texts\<close>

datatype RatioField = F_price | F_ratio | F_lane LaneKey | F_mode | F_expr

definition price_fields :: "RatioField list" where
  "price_fields = [F_price, F_ratio, F_lane L_cache, F_lane L_createCache, F_lane L_completion, F_lane L_image,
     F_lane L_audioInput, F_lane L_audioOutput]"

definition all_fields :: "RatioField list" where
  "all_fields = price_fields @ [F_mode, F_expr]"

type_synonym RatioTexts = "RatioField \<Rightarrow> jstr"
type_synonym RatioMaps = "RatioField \<Rightarrow> (jstr \<times> jsval) list"

text \<open>\<open>safeJsonParse\<close> with the empty object as its fallback.\<close>

definition parse_map :: "jstr \<Rightarrow> (jstr \<times> jsval) list option" where
  "parse_map s =
     (if trim s = [] then Some []
      else case json_parse (trim s) of None \<Rightarrow> Some [] | Some (JObj ps) \<Rightarrow> Some ps | Some _ \<Rightarrow> None)"

definition parse_maps :: "RatioTexts \<Rightarrow> RatioMaps option" where
  "parse_maps t =
     (if list_all (\<lambda>f. parse_map (t f) \<noteq> None) all_fields
      then Some (\<lambda>f. case parse_map (t f) of Some m \<Rightarrow> m | None \<Rightarrow> [])
      else None)"

definition print_maps :: "RatioMaps \<Rightarrow> RatioTexts" where
  "print_maps m = (\<lambda>f. json_pretty (JObj (m f)))"

section \<open>Rows\<close>

record ModelRow =
  r_data :: ModelRatioData
  r_conflict :: bool

definition modelNames :: "RatioMaps \<Rightarrow> jstr list" where
  "modelNames m = js_set (concat (map (\<lambda>f. map fst (m f)) all_fields))"

text \<open>\<open>map[name]?.toString() || ''\<close>.\<close>

definition entry_text :: "(jstr \<times> jsval) list \<Rightarrow> jstr \<Rightarrow> jstr option" where
  "entry_text m name = (let v = obj_get name m in if is_nullish v then Some [] else as_string v)"

definition is_tiered :: "RatioMaps \<Rightarrow> jstr \<Rightarrow> bool" where
  "is_tiered m name \<longleftrightarrow> obj_get name (m F_mode) = JStr (js ''tiered_expr'')"

text \<open>The price expression and the rules of a tiered model.\<close>

definition expr_parts :: "RatioMaps \<Rightarrow> jstr \<Rightarrow> (jstr \<times> jstr) option" where
  "expr_parts m name =
     (case js_or (obj_get name (m F_expr)) (JStr []) of
        JStr s \<Rightarrow> (case splitBillingExprAndRequestRules s of Parsed p \<Rightarrow> Some p | _ \<Rightarrow> None)
      | _ \<Rightarrow> None)"

definition model_row :: "RatioMaps \<Rightarrow> jstr \<Rightarrow> ModelRow option" where
  "model_row m name =
     (if list_all (\<lambda>f. entry_text (m f) name \<noteq> None) price_fields then
        let shown = (\<lambda>f. case entry_text (m f) name of Some s \<Rightarrow> s | None \<Rightarrow> []);
            d = \<lparr>d_name = name, d_price = shown F_price, d_ratio = shown F_ratio, d_ratios = (\<lambda>lane. shown (F_lane lane)),
                 d_mode = None, d_expr = [], d_rules = []\<rparr> in
        if is_tiered m name then
          (case expr_parts m name of
             None \<Rightarrow> None
           | Some (e, r) \<Rightarrow> Some \<lparr>r_data = d\<lparr>d_mode := Some Tiered_expr, d_expr := e, d_rules := r\<rparr>, r_conflict = False\<rparr>)
        else
          Some \<lparr>r_data = d\<lparr>d_mode := Some (if d_price d \<noteq> [] then Per_request else Per_token)\<rparr>,
                r_conflict = (d_price d \<noteq> [] \<and> (d_ratio d \<noteq> [] \<or> list_ex (\<lambda>lane. d_ratios d lane \<noteq> []) laneConfigs))\<rparr>
      else None)"

definition model_rows :: "(jstr \<Rightarrow> jstr \<Rightarrow> int) \<Rightarrow> RatioMaps \<Rightarrow> ModelRow list option" where
  "model_rows cmp m =
     map_option (sort_by (\<lambda>a b. cmp (d_name (r_data a)) (d_name (r_data b)))) (those (map (model_row m) (modelNames m)))"

definition modeCounts :: "ModelRow list \<Rightarrow> PricingMode \<Rightarrow> nat" where
  "modeCounts rows = foldl (\<lambda>acc row.
     let mode = (case d_mode (r_data row) of Some Per_request \<Rightarrow> Per_request | Some Tiered_expr \<Rightarrow> Tiered_expr | _ \<Rightarrow> Per_token) in
     acc(mode := acc mode + 1)) (\<lambda>_. 0) rows"

section \<open>Writing\<close>

text \<open>\<open>setIfPresent\<close>, as the value it sets.\<close>

definition set_if_present :: "jstr \<Rightarrow> jsval option" where
  "set_if_present s =
     (if s = [] then None else case js_parseFloat s of Fin q \<Rightarrow> Some (JNum (Fin q)) | _ \<Rightarrow> None)"

text \<open>What one save sets in each of the maps, after it has deleted the model from all of them.\<close>

definition saved_entry :: "ModelRatioData \<Rightarrow> RatioField \<Rightarrow> jsval option" where
  "saved_entry d f =
     (let combined = combineBillingExpr (d_expr d) (d_rules d); tiered = (d_mode d = Some Tiered_expr) in
      case f of
        F_mode \<Rightarrow> if tiered \<and> combined \<noteq> [] then Some (JStr (js ''tiered_expr'')) else None
      | F_expr \<Rightarrow> if tiered \<and> combined \<noteq> [] then Some (JStr combined) else None
      | F_price \<Rightarrow> if tiered \<or> d_price d \<noteq> [] then set_if_present (d_price d) else None
      | F_ratio \<Rightarrow> if tiered \<or> d_price d = [] then set_if_present (d_ratio d) else None
      | F_lane lane \<Rightarrow> if tiered \<or> d_price d = [] then set_if_present (d_ratios d lane) else None)"

definition write_name :: "ModelRatioData \<Rightarrow> RatioMaps \<Rightarrow> jstr \<Rightarrow> RatioMaps" where
  "write_name d m name =
     (\<lambda>f. case saved_entry d f of
            None \<Rightarrow> obj_delete name (m f)
          | Some v \<Rightarrow> obj_set name v (obj_delete name (m f)))"

definition persistPricingData :: "ModelRatioData \<Rightarrow> jstr list \<Rightarrow> RatioTexts \<Rightarrow> RatioTexts option" where
  "persistPricingData d targetNames t =
     map_option (\<lambda>m. print_maps (foldl (write_name d) m targetNames)) (parse_maps t)"

definition delete_model :: "jstr \<Rightarrow> RatioTexts \<Rightarrow> RatioTexts option" where
  "delete_model name t = map_option (\<lambda>m. print_maps (\<lambda>f. obj_delete name (m f))) (parse_maps t)"

section \<open>The editor\<close>

record RatioEditor =
  texts :: RatioTexts
  editData :: "ModelRatioData option"
  editorOpen :: bool
  sheetOpen :: bool
  globalFilter :: jstr

definition handleEdit :: "bool \<Rightarrow> ModelRow \<Rightarrow> RatioEditor \<Rightarrow> RatioEditor" where
  "handleEdit isMobile row st =
     (let d = r_data row in
      st\<lparr>editData := Some (d\<lparr>d_mode := Some (if d_mode d = Some Tiered_expr then Tiered_expr
                                            else if d_price d \<noteq> [] then Per_request else Per_token)\<rparr>),
         editorOpen := True, sheetOpen := (isMobile \<or> sheetOpen st)\<rparr>)"

definition handleAdd :: "bool \<Rightarrow> RatioEditor \<Rightarrow> RatioEditor" where
  "handleAdd isMobile st = st\<lparr>editData := None, editorOpen := True, sheetOpen := (isMobile \<or> sheetOpen st)\<rparr>"

definition handleCancel :: "RatioEditor \<Rightarrow> RatioEditor" where
  "handleCancel st = st\<lparr>editData := None, editorOpen := False, sheetOpen := False\<rparr>"

definition handleGlobalFilterChange :: "jstr \<Rightarrow> RatioEditor \<Rightarrow> RatioEditor" where
  "handleGlobalFilterChange next st =
     (if next \<noteq> globalFilter st then (handleCancel st)\<lparr>globalFilter := next\<rparr> else st)"

definition handleDelete :: "jstr \<Rightarrow> RatioEditor \<Rightarrow> RatioEditor option" where
  "handleDelete name st = map_option (\<lambda>t. st\<lparr>texts := t\<rparr>) (delete_model name (texts st))"

definition handleSave :: "ModelRatioData \<Rightarrow> RatioEditor \<Rightarrow> RatioEditor option" where
  "handleSave d st =
     map_option (\<lambda>t. st\<lparr>texts := t, editData := Some d, editorOpen := True\<rparr>) (persistPricingData d [d_name d] (texts st))"

definition handleBatchCopy :: "jstr list \<Rightarrow> RatioEditor \<Rightarrow> RatioEditor option" where
  "handleBatchCopy targetNames st =
     (case editData st of
        None \<Rightarrow> Some st
      | Some d \<Rightarrow>
          if targetNames = [] then Some st
          else map_option (\<lambda>t. st\<lparr>texts := t\<rparr>) (persistPricingData d targetNames (texts st)))"

text \<open>Submitting the panel: it saves and then closes.\<close>

definition submit_panel :: "PricingPanel \<Rightarrow> RatioEditor \<Rightarrow> RatioEditor option" where
  "submit_panel panel st =
     (case handleSubmit panel of
        None \<Rightarrow> Some st
      | Some d \<Rightarrow> map_option handleCancel (handleSave d st))"

section \<open>Reading what was written\<close>

lemma trim_pretty_object: "trim (json_pretty (JObj ps)) = json_pretty (JObj ps)"
  by (rule trim_id) (use pretty_list_last in \<open>simp add: json_pretty_def trimmed_def is_ws_def\<close>)

lemma parse_map_pretty: "json_ok (JObj ps) \<Longrightarrow> parse_map (json_pretty (JObj ps)) = Some ps"
  using pretty_roundtrip [of "JObj ps"] pretty_nonblank [of "JObj ps"] by (simp add: parse_map_def trim_pretty_object)

lemma field_listed [simp]: "f \<in> set all_fields"
proof (cases f)
  case (F_lane lane)
  then show ?thesis by (cases lane) (simp_all add: all_fields_def price_fields_def)
qed (simp_all add: all_fields_def price_fields_def)

lemma parse_maps_iff: "parse_maps t = Some m \<longleftrightarrow> (\<forall>f. parse_map (t f) = Some (m f))"
proof
  assume "parse_maps t = Some m"
  then have "\<forall>f\<in>set all_fields. parse_map (t f) \<noteq> None" "m = (\<lambda>f. case parse_map (t f) of Some m \<Rightarrow> m | None \<Rightarrow> [])"
    by (auto simp: parse_maps_def list_all_iff split: if_splits)
  then have "parse_map (t f) \<noteq> None" "m f = (case parse_map (t f) of Some m \<Rightarrow> m | None \<Rightarrow> [])" for f
    using field_listed [of f] by auto
  then show "\<forall>f. parse_map (t f) = Some (m f)" by (auto split: option.splits)
qed (auto simp: parse_maps_def list_all_iff)

definition maps_ok :: "RatioMaps \<Rightarrow> bool" where
  "maps_ok m \<longleftrightarrow> (\<forall>f. json_ok (JObj (m f)))"

lemma parse_print: "maps_ok m \<Longrightarrow> parse_maps (print_maps m) = Some m"
  unfolding parse_maps_iff by (auto simp: maps_ok_def print_maps_def intro: parse_map_pretty)

lemma json_ok_delete: "json_ok (JObj ps) \<Longrightarrow> json_ok (JObj (obj_delete k ps))"
  by (simp add: obj_wf_delete) (simp add: obj_delete_def)

definition data_ok :: "ModelRatioData \<Rightarrow> bool" where
  "data_ok d \<longleftrightarrow> (\<forall>f v. saved_entry d f = Some v \<longrightarrow> json_ok v)"

lemma write_ok: "maps_ok m \<Longrightarrow> data_ok d \<Longrightarrow> maps_ok (write_name d m name)"
  unfolding maps_ok_def data_ok_def write_name_def
  by (auto simp del: json_ok.simps intro: json_ok_delete json_ok_obj_set split: option.split)

lemma writes_ok: "maps_ok m \<Longrightarrow> data_ok d \<Longrightarrow> maps_ok (foldl (write_name d) m names)"
  by (induction names arbitrary: m) (simp_all add: write_ok)

lemma map_of_delete: "map_of (obj_delete k ps) = (map_of ps)(k := None)"
  by (induction ps) (auto simp: obj_delete_def fun_eq_iff)

lemma write_lookup: "map_of (write_name d m name f) = (map_of (m f))(name := saved_entry d f)"
  by (auto simp: write_name_def map_of_delete fun_eq_iff split: option.split)

lemma writes_lookup:
  "map_of (foldl (write_name d) m names f) n = (if n \<in> set names then saved_entry d f else map_of (m f) n)"
  by (induction names arbitrary: m) (auto simp: write_lookup)

lemma persist_lookup:
  assumes "parse_maps t = Some m" "maps_ok m" "data_ok d"
  obtains t' m' where "persistPricingData d names t = Some t'" "parse_maps t' = Some m'"
    "\<And>f n. map_of (m' f) n = (if n \<in> set names then saved_entry d f else map_of (m f) n)"
  using that [of "print_maps (foldl (write_name d) m names)" "foldl (write_name d) m names"] assms
  by (simp add: persistPricingData_def parse_print writes_ok writes_lookup)

text \<open>
  C19. Saving or copying a price writes exactly its parts under the chosen models, in all ten texts at
  once, and leaves every other model as it was.
\<close>

theorem saves_only_targets:
  assumes "parse_maps t = Some m" "maps_ok m" "data_ok d"
  shows "\<exists>t' m'. persistPricingData d names t = Some t' \<and> parse_maps t' = Some m' \<and>
    (\<forall>f n. map_of (m' f) n = (if n \<in> set names then saved_entry d f else map_of (m f) n))"
proof -
  obtain t' m' where "persistPricingData d names t = Some t'" "parse_maps t' = Some m'"
    "\<And>f n. map_of (m' f) n = (if n \<in> set names then saved_entry d f else map_of (m f) n)"
    using persist_lookup [OF assms, of names] by metis
  then show ?thesis by auto
qed

definition sample_maps :: RatioMaps where
  "sample_maps = (\<lambda>f. case f of F_ratio \<Rightarrow> [(js ''m'', JNum (Fin 1))] | _ \<Rightarrow> [])"

definition sample_data :: ModelRatioData where
  "sample_data = \<lparr>d_name = js ''n'', d_price = [], d_ratio = js ''1'', d_ratios = \<lambda>_. [], d_mode = Some Per_token, d_expr = [], d_rules = []\<rparr>"

lemma one_printed: "num_ok (Fin 1)" "num_to_string (Fin 1) = js ''1''"
  using num_ok_nat [of 1] num_to_string_nat [of 1] by (simp_all add: dec.simps js_def)

lemma sample_maps_ok: "maps_ok sample_maps" "parse_maps (print_maps sample_maps) = Some sample_maps"
proof -
  show "maps_ok sample_maps" by (simp add: maps_ok_def sample_maps_def one_printed(1) obj_wf_def split: RatioField.split)
  then show "parse_maps (print_maps sample_maps) = Some sample_maps" by (rule parse_print)
qed

lemma one_present: "set_if_present (js ''1'') = Some (JNum (Fin 1))"
proof -
  have "undec [49] = 1" by (simp add: undec_def)
  moreover have "rnd 1 = Fin 1" using rnd_of_int [of 1] by simp
  ultimately show ?thesis
    by (simp add: set_if_present_def js_parseFloat_def is_ws_def js_def is_digit_def exp_part_def decimal_value_def pow10_def Let_def)
qed

lemma sample_data_ok: "data_ok sample_data" "saved_entry sample_data F_ratio = Some (JNum (Fin 1))"
proof -
  have "json_ok v" if "saved_entry sample_data f = Some v" for f v
    using that by (cases f) (auto simp: sample_data_def saved_entry_def one_present one_printed(1) set_if_present_def [of "[]"])
  then show "data_ok sample_data" by (simp add: data_ok_def)
qed (simp add: sample_data_def saved_entry_def one_present)

theorem saves_only_targets_witness:
  "\<exists>t' m'. persistPricingData sample_data [js ''n''] (print_maps sample_maps) = Some t' \<and> parse_maps t' = Some m' \<and>
    map_of (m' F_ratio) (js ''n'') = Some (JNum (Fin 1)) \<and> map_of (m' F_ratio) (js ''m'') = Some (JNum (Fin 1))"
proof -
  have "js ''m'' \<noteq> js ''n''" "map_of (sample_maps F_ratio) (js ''m'') = Some (JNum (Fin 1))"
    by (simp_all add: js_def sample_maps_def)
  then show ?thesis
    using saves_only_targets [OF sample_maps_ok(2,1) sample_data_ok(1), of "[js ''n'']"] sample_data_ok(2) by fastforce
qed

lemma delete_lookup:
  assumes "parse_maps t = Some m" "maps_ok m"
  obtains t' m' where "delete_model name t = Some t'" "parse_maps t' = Some m'"
    "\<And>f n. map_of (m' f) n = (if n = name then None else map_of (m f) n)"
proof -
  have "maps_ok (\<lambda>f. obj_delete name (m f))" using assms(2) json_ok_delete by (simp add: maps_ok_def del: json_ok.simps)
  then show thesis using that [of "print_maps (\<lambda>f. obj_delete name (m f))" "\<lambda>f. obj_delete name (m f)"] assms(1)
    by (simp add: delete_model_def parse_print map_of_delete)
qed

section \<open>Numbers that were printed\<close>

lemma digits_hd: "takeWhile is_digit u = [] \<longleftrightarrow> u = [] \<or> \<not> is_digit (hd u)"
  by (cases u) auto

lemma int_part_all:
  assumes "int_part s = Some (ip, r)" "r = [] \<or> \<not> is_digit (hd r)"
  shows "ip = takeWhile is_digit s \<and> r = dropWhile is_digit s \<and> ip \<noteq> []"
proof (cases s)
  case (Cons c t)
  show ?thesis
  proof (cases "c = 48")
    case True
    then have "ip = [48]" "r = t" using assms(1) Cons by (simp_all add: int_part_def)
    then show ?thesis using assms(2) True Cons by (cases t) (auto simp: is_digit_def)
  qed (use assms Cons in \<open>auto simp: int_part_def split: if_splits\<close>)
qed (use assms in \<open>simp add: int_part_def\<close>)

lemma frac_part_all:
  assumes "frac_part s = Some (fp, r)"
  shows "fp = (if prefix [46] s then takeWhile is_digit (tl s) else []) \<and>
    r = (if prefix [46] s then dropWhile is_digit (tl s) else s)"
  using assms by (cases s) (auto simp: frac_part_def split: if_splits)

lemma exp_part_hd: "exp_part s = Some (ex, []) \<Longrightarrow> s = [] \<or> hd s \<in> {101, 69}"
  by (cases s) (auto simp: exp_part_def split: if_splits)

lemma frac_part_hd: "frac_part s = Some (fp, r) \<Longrightarrow> r = [] \<or> hd r \<in> {101, 69} \<Longrightarrow> s = [] \<or> hd s \<in> {46, 101, 69}"
  by (cases s) (auto simp: frac_part_def split: if_splits)

lemma parseFloat_numeral:
  assumes "pnum s = Some (x, [])"
  shows "js_parseFloat s = x"
proof -
  define neg where "neg = prefix [45] s"
  define u where "u = (if neg then tl s else s)"
  have split: "(case s of c # t \<Rightarrow> if c = 45 then (True, t) else (False, s) | [] \<Rightarrow> (False, s)) = (neg, u)"
    by (cases s) (auto simp: neg_def u_def)
  obtain ip s2 fp s3 ex where p: "int_part u = Some (ip, s2)" "frac_part s2 = Some (fp, s3)" "exp_part s3 = Some (ex, [])"
    "x = decimal_value neg ip fp ex"
    using assms by (auto simp: pnum_def split bind_eq_Some_conv)
  have "s2 = [] \<or> hd s2 \<in> {46, 101, 69}" using frac_part_hd [OF p(2)] exp_part_hd [OF p(3)] by blast
  then have "s2 = [] \<or> \<not> is_digit (hd s2)" by (auto simp: is_digit_def)
  then have i: "ip = takeWhile is_digit u" "s2 = dropWhile is_digit u" "ip \<noteq> []" using int_part_all [OF p(1)] by blast+
  then have u: "u \<noteq> []" "is_digit (hd u)" by (auto simp: digits_hd)
  have "s \<noteq> []" "hd s = 45 \<or> is_digit (hd s)" using u by (auto simp: u_def neg_def split: if_splits) (cases s; simp)
  then have ws: "dropWhile is_ws s = s" by (cases s) (auto simp: is_ws_def is_digit_def)
  have sign: "(if s \<noteq> [] \<and> hd s \<in> {43, 45} then tl s else s) = u"
    using \<open>s \<noteq> []\<close> \<open>hd s = 45 \<or> is_digit (hd s)\<close> by (cases s) (auto simp: u_def neg_def is_digit_def)
  have inf: "\<not> prefix (js ''Infinity'') u" using u by (cases u) (auto simp: js_def is_digit_def)
  have f: "(if prefix [46] s2 then takeWhile is_digit (tl s2) else []) = fp"
    "(if prefix [46] s2 then dropWhile is_digit (tl s2) else s2) = s3"
    using frac_part_all [OF p(2)] by simp_all
  show ?thesis
    unfolding js_parseFloat_def ws Let_def sign neg_def [symmetric] i(1) [symmetric] i(2) [symmetric] f
    using p(3,4) i(3) by (simp add: inf)
qed

lemma printed_number: "num_ok x \<Longrightarrow> js_parseFloat (num_to_string x) = x"
  using parseFloat_numeral [of "num_to_string x" x] by (auto simp: num_ok_def num_stop_def)

lemma printed_present:
  assumes "num_ok x"
  shows "num_to_string x \<noteq> []" "set_if_present (num_to_string x) = Some (JNum x)"
proof -
  show "num_to_string x \<noteq> []" using num_ok_hd [OF assms] by (metis list.distinct(1))
  then show "set_if_present (num_to_string x) = Some (JNum x)"
    using printed_number [OF assms] assms by (auto simp: set_if_present_def num_ok_def)
qed

section \<open>Saving without a change\<close>

definition numeric_entries :: "RatioMaps \<Rightarrow> jstr \<Rightarrow> bool" where
  "numeric_entries m name \<longleftrightarrow> (\<forall>f\<in>set price_fields. \<forall>v. map_of (m f) name = Some v \<longrightarrow> (\<exists>x. v = JNum x))"

lemma entry_ok: "maps_ok m \<Longrightarrow> map_of (m f) name = Some v \<Longrightarrow> json_ok v"
  by (fastforce simp: maps_ok_def dest: map_of_SomeD)

lemma numeric_text:
  assumes "maps_ok m" "numeric_entries m name" "f \<in> set price_fields"
  obtains "map_of (m f) name = None" "entry_text (m f) name = Some []"
  | x where "map_of (m f) name = Some (JNum x)" "num_ok x" "entry_text (m f) name = Some (num_to_string x)"
proof (cases "map_of (m f) name")
  case None
  then show thesis using that(1) by (simp add: entry_text_def obj_get_def)
next
  case (Some v)
  then obtain x where x: "v = JNum x" using assms(2,3) by (auto simp: numeric_entries_def)
  have "num_ok x" using entry_ok [OF assms(1) Some] x by simp
  then show thesis using that(2) [of x] Some x by (simp add: entry_text_def obj_get_def as_string_def)
qed

lemma numeric_present:
  assumes "maps_ok m" "numeric_entries m name" "f \<in> set price_fields"
  obtains s where "entry_text (m f) name = Some s" "set_if_present s = map_of (m f) name" "s = [] \<longleftrightarrow> map_of (m f) name = None"
  using numeric_text [OF assms] printed_present by (metis option.distinct(1) set_if_present_def)

text \<open>The row of a model that is not tiered.\<close>

lemma plain_row:
  assumes "maps_ok m" "numeric_entries m name" "\<not> is_tiered m name"
  obtains row where "model_row m name = Some row"
    "d_name (r_data row) = name"
    "set_if_present (d_price (r_data row)) = map_of (m F_price) name"
    "d_price (r_data row) = [] \<longleftrightarrow> map_of (m F_price) name = None"
    "set_if_present (d_ratio (r_data row)) = map_of (m F_ratio) name"
    "\<And>lane. set_if_present (d_ratios (r_data row) lane) = map_of (m (F_lane lane)) name"
    "d_mode (r_data row) = Some (if d_price (r_data row) \<noteq> [] then Per_request else Per_token)"
    "r_conflict row \<longleftrightarrow> map_of (m F_price) name \<noteq> None \<and>
      (map_of (m F_ratio) name \<noteq> None \<or> (\<exists>lane. map_of (m (F_lane lane)) name \<noteq> None))"
proof -
  define shown where "shown f = (case entry_text (m f) name of Some s \<Rightarrow> s | None \<Rightarrow> [])" for f
  have "entry_text (m f) name = Some (shown f) \<and> set_if_present (shown f) = map_of (m f) name \<and>
    (shown f = [] \<longleftrightarrow> map_of (m f) name = None)" if f: "f \<in> set price_fields" for f
  proof -
    obtain s where "entry_text (m f) name = Some s" "set_if_present s = map_of (m f) name" "s = [] \<longleftrightarrow> map_of (m f) name = None"
      by (rule numeric_present [OF assms(1,2) f])
    then show ?thesis by (simp add: shown_def)
  qed
  then have t: "entry_text (m f) name = Some (shown f)" "set_if_present (shown f) = map_of (m f) name"
    "shown f = [] \<longleftrightarrow> map_of (m f) name = None" if "f \<in> set price_fields" for f
    using that by simp_all
  have l: "F_lane lane \<in> set price_fields" for lane by (cases lane) (simp_all add: price_fields_def)
  have p: "F_price \<in> set price_fields" "F_ratio \<in> set price_fields" by (simp_all add: price_fields_def)
  have "list_all (\<lambda>f. entry_text (m f) name \<noteq> None) price_fields" using t(1) by (simp add: list_all_iff)
  then have "model_row m name = Some \<lparr>r_data = \<lparr>d_name = name, d_price = shown F_price, d_ratio = shown F_ratio,
      d_ratios = (\<lambda>lane. shown (F_lane lane)), d_mode = Some (if shown F_price \<noteq> [] then Per_request else Per_token),
      d_expr = [], d_rules = []\<rparr>,
      r_conflict = (shown F_price \<noteq> [] \<and> (shown F_ratio \<noteq> [] \<or> list_ex (\<lambda>lane. shown (F_lane lane) \<noteq> []) laneConfigs))\<rparr>"
    using assms(3) by (simp add: model_row_def shown_def)
  then show thesis
    by (rule that) (use t(2,3) [OF p(1)] t(2,3) [OF p(2)] t(2,3) [OF l] lane_listed in \<open>auto simp: list_ex_iff\<close>)
qed

text \<open>What the panel saves when nothing was edited.\<close>

lemma submit_unchanged:
  assumes "handleSubmit (open_panel (Some d)) = Some d'" "d_mode d \<noteq> Some Tiered_expr" "trim (d_name d) = d_name d"
  shows "d_name d' = d_name d" "d_price d' = d_price d" "d_ratio d' = d_ratio d" "d_ratios d' = d_ratios d"
    "d_mode d' \<noteq> Some Tiered_expr"
  using assms by (auto simp: handleSubmit_def open_panel_def Let_def split: if_splits)

lemma present_ok: "set_if_present s = map_of (m f) n \<Longrightarrow> maps_ok m \<Longrightarrow> set_if_present s = Some v \<Longrightarrow> json_ok v"
  using entry_ok by metis

lemma unchanged_entries:
  assumes "maps_ok m" "numeric_entries m name" "\<not> is_tiered m name" "model_row m name = Some row" "\<not> r_conflict row"
    and "trim name = name" "handleSubmit (open_panel (Some (r_data row))) = Some d"
  shows "data_ok d \<and> d_name d = name \<and> (\<forall>f\<in>set price_fields. saved_entry d f = map_of (m f) name)"
proof -
  obtain row' where r: "model_row m name = Some row'" "d_name (r_data row') = name"
    "set_if_present (d_price (r_data row')) = map_of (m F_price) name"
    "d_price (r_data row') = [] \<longleftrightarrow> map_of (m F_price) name = None"
    "set_if_present (d_ratio (r_data row')) = map_of (m F_ratio) name"
    "\<And>lane. set_if_present (d_ratios (r_data row') lane) = map_of (m (F_lane lane)) name"
    "d_mode (r_data row') = Some (if d_price (r_data row') \<noteq> [] then Per_request else Per_token)"
    "r_conflict row' \<longleftrightarrow> map_of (m F_price) name \<noteq> None \<and>
      (map_of (m F_ratio) name \<noteq> None \<or> (\<exists>lane. map_of (m (F_lane lane)) name \<noteq> None))"
    using plain_row [OF assms(1-3)] by metis
  have row: "row' = row" using r(1) assms(4) by simp
  have d: "d_name d = name" "d_price d = d_price (r_data row)" "d_ratio d = d_ratio (r_data row)"
    "d_ratios d = d_ratios (r_data row)" "d_mode d \<noteq> Some Tiered_expr"
    using submit_unchanged [OF assms(7)] assms(6) r(2,7) by (auto simp: row split: if_splits)
  have e: "saved_entry d f = map_of (m f) name" if "f \<in> set price_fields" for f
    using that d(5) r(3-6,8) assms(5) unfolding row
    by (cases f) (auto simp: saved_entry_def d price_fields_def)
  have "saved_entry d f = None" if "f \<notin> set price_fields" for f
  proof (cases f)
    case (F_lane lane)
    then show ?thesis using that by (cases lane) (simp_all add: price_fields_def)
  qed (use that d(5) in \<open>simp_all add: saved_entry_def price_fields_def\<close>)
  then have "data_ok d" unfolding data_ok_def using e entry_ok [OF assms(1)] by (metis option.distinct(1))
  with d(1) e show ?thesis by simp
qed

text \<open>
  C5. Opening a model that is not tiered and has no conflicting entries, and saving it unchanged, leaves
  every price and ratio of every model as it was.
\<close>

theorem unchanged_save_keeps_prices:
  assumes "parse_maps t = Some m" "maps_ok m" "numeric_entries m name" "\<not> is_tiered m name"
    and "model_row m name = Some row" "\<not> r_conflict row" "trim name = name"
    and "handleSubmit (open_panel (Some (r_data row))) = Some d"
  shows "\<exists>t' m'. persistPricingData d [d_name d] t = Some t' \<and> parse_maps t' = Some m' \<and>
    (\<forall>f\<in>set price_fields. map_of (m' f) = map_of (m f))"
proof -
  have u: "data_ok d" "d_name d = name" "\<forall>f\<in>set price_fields. saved_entry d f = map_of (m f) name"
    using unchanged_entries [OF assms(2-8)] by simp_all
  obtain t' m' where "persistPricingData d [name] t = Some t'" "parse_maps t' = Some m'"
    "\<And>f n. map_of (m' f) n = (if n \<in> set [name] then saved_entry d f else map_of (m f) n)"
    using persist_lookup [OF assms(1,2) u(1)] by metis
  then show ?thesis using u(2,3) by (intro exI [of _ t'] exI [of _ m']) (auto simp: fun_eq_iff)
qed

theorem unchanged_save_keeps_prices_witness:
  "\<exists>row d t' m'. model_row sample_maps (js ''m'') = Some row \<and> handleSubmit (open_panel (Some (r_data row))) = Some d \<and>
    persistPricingData d [d_name d] (print_maps sample_maps) = Some t' \<and> parse_maps t' = Some m' \<and>
    map_of (m' F_ratio) = map_of (sample_maps F_ratio)"
proof -
  let ?row = "\<lparr>r_data = \<lparr>d_name = js ''m'', d_price = [], d_ratio = js ''1'', d_ratios = \<lambda>_. [], d_mode = Some Per_token,
      d_expr = [], d_rules = []\<rparr>, r_conflict = False\<rparr>"
  have t: "\<not> is_tiered sample_maps (js ''m'')" by (simp add: is_tiered_def sample_maps_def obj_get_def)
  have n: "numeric_entries sample_maps (js ''m'')"
    by (auto simp: numeric_entries_def price_fields_def sample_maps_def)
  have row: "model_row sample_maps (js ''m'') = Some ?row"
    using t one_printed(2) by (simp add: model_row_def price_fields_def entry_text_def sample_maps_def obj_get_def as_string_def)
  have "\<exists>d. handleSubmit (open_panel (Some (r_data ?row))) = Some d"
    by (simp add: handleSubmit_def open_panel_def createInitialLaneState_def prices_lack_base_def output_lacks_input_def
        lane_set_def list_ex_iff Let_def)
  then obtain d where d: "handleSubmit (open_panel (Some (r_data ?row))) = Some d" by blast
  have "trim (js ''m'') = js ''m''" by (simp add: trim_def js_def is_ws_def)
  from unchanged_save_keeps_prices [OF sample_maps_ok(2,1) n t row _ this d]
  show ?thesis using row d by (fastforce simp: price_fields_def)
qed

section \<open>A fixed price stays\<close>

text \<open>
  C9. A model with a fixed price cannot be changed to prices per token by choosing that mode: whatever
  lanes and input price are entered there, the form still holds the fixed price, and saving stores it
  alone and deletes every ratio of the model.
\<close>

theorem token_prices_discarded:
  assumes "d_price d0 \<noteq> []" "\<forall>e\<in>set es. \<forall>s. e \<noteq> EditPrice s"
    and "handleSubmit (panel_run (Some d0) es) = Some d" "d_mode d = Some Per_token"
    and "parse_maps t = Some m" "maps_ok m" "data_ok d"
  shows "\<exists>t' m'. persistPricingData d [d_name d] t = Some t' \<and> parse_maps t' = Some m' \<and>
    map_of (m' F_price) (d_name d) = set_if_present (d_price d0) \<and>
    map_of (m' F_ratio) (d_name d) = None \<and> (\<forall>lane. map_of (m' (F_lane lane)) (d_name d) = None)"
proof -
  have "d_price d = d_price d0"
    using price_kept [OF assms(2), of "Some d0"] assms(3) by (auto simp: handleSubmit_def open_panel_def Let_def split: if_splits)
  then have s: "saved_entry d F_price = set_if_present (d_price d0)" "saved_entry d F_ratio = None"
    "saved_entry d (F_lane lane) = None" for lane
    using assms(1,4) by (simp_all add: saved_entry_def)
  obtain t' m' where "persistPricingData d [d_name d] t = Some t'" "parse_maps t' = Some m'"
    "\<And>f n. map_of (m' f) n = (if n \<in> set [d_name d] then saved_entry d f else map_of (m f) n)"
    using persist_lookup [OF assms(5-7)] by metis
  then show ?thesis using s by (intro exI [of _ t'] exI [of _ m']) auto
qed

theorem token_prices_discarded_witness:
  "\<exists>d t' m'. handleSubmit (panel_run (Some (sample_data\<lparr>d_price := js ''1'', d_ratio := []\<rparr>))
      [ChooseMode Per_token, EditPromptPrice (js ''2'')]) = Some d \<and>
    persistPricingData d [d_name d] (print_maps sample_maps) = Some t' \<and> parse_maps t' = Some m' \<and>
    map_of (m' F_ratio) (js ''n'') = None \<and> map_of (m' F_price) (js ''n'') = Some (JNum (Fin 1))"
proof -
  let ?d0 = "sample_data\<lparr>d_price := js ''1'', d_ratio := []\<rparr>"
  let ?es = "[ChooseMode Per_token, EditPromptPrice (js ''2'')]"
  let ?st = "panel_run (Some ?d0) ?es"
  have st: "pricingMode ?st = Per_token" "f_name (form_values ?st) = js ''n''" "f_price (form_values ?st) = js ''1''"
    "\<not> laneEnabled ?st lane" for lane
    by (simp_all add: panel_run_def open_panel_def createInitialLaneState_def handlePanelMode_def sample_data_def
        handlePromptPriceChange_def draft_2 syncLaneRatios_def laneConfigs_def Let_def)
  then have "\<exists>d. handleSubmit ?st = Some d"
    by (simp add: handleSubmit_def prices_lack_base_def output_lacks_input_def lane_set_def list_ex_iff)
  then obtain d where d: "handleSubmit ?st = Some d" by blast
  have n: "trim (js ''n'') = js ''n''" by (simp add: trim_def js_def is_ws_def)
  have e: "d_mode d = Some Per_token" "d_name d = js ''n''" "d_price d = js ''1''"
    using d st n by (auto simp: handleSubmit_def split: if_splits)
  have "json_ok v" if "saved_entry d f = Some v" for f v
    using that e(1,3) by (cases f) (auto simp: saved_entry_def one_present one_printed(1))
  then have "data_ok d" by (simp add: data_ok_def)
  from token_prices_discarded [OF _ _ d e(1) sample_maps_ok(2,1) this]
  show ?thesis using d e(2) one_present by fastforce
qed

section \<open>The table\<close>

lemma row_name: "model_row m name = Some row \<Longrightarrow> d_name (r_data row) = name"
  by (auto simp: model_row_def Let_def split: if_splits option.splits)

lemma rows_named: "those (map (model_row m) names) = Some rs \<Longrightarrow> map (\<lambda>r. d_name (r_data r)) rs = names"
  by (induction names arbitrary: rs) (auto simp: row_name split: option.splits)

text \<open>
  The table has exactly one row for every model that occurs in any of the ten texts.
\<close>

lemma one_row_per_model:
  assumes "model_rows cmp m = Some rows"
  shows "distinct (map (\<lambda>r. d_name (r_data r)) rows) \<and>
    set (map (\<lambda>r. d_name (r_data r)) rows) = (\<Union>f. dom (map_of (m f)))"
proof -
  obtain rs where rs: "those (map (model_row m) (modelNames m)) = Some rs"
    "rows = sort_by (\<lambda>a b. cmp (d_name (r_data a)) (d_name (r_data b))) rs"
    using assms by (auto simp: model_rows_def)
  have "mset (map (\<lambda>r. d_name (r_data r)) rows) = mset (modelNames m)"
    by (simp add: rs(2) flip: rows_named [OF rs(1)])
  moreover have "distinct (modelNames m)" by (simp add: modelNames_def)
  moreover have "set (modelNames m) = (\<Union>f. dom (map_of (m f)))"
    using field_listed by (auto simp: modelNames_def dom_map_of_conv_image_fst)
  ultimately show ?thesis by (metis mset_eq_imp_distinct_iff mset_eq_setD)
qed

end
