(* ===== verification/UpstreamSync.thy ===== *)
theory UpstreamSync
  imports ModelRatios
begin

text \<open>
  \<open>upstream-ratio-sync.tsx\<close>, \<open>upstream-ratio-sync-helpers.ts\<close> and \<open>upstream-ratio-sync-table.tsx\<close> in
  \<open>features/system-settings/models\<close>: prices fetched from other gateways. The server reports, for each
  model and field, the values that differ; the administrator selects some of them, and they are written
  into the ten texts of \<open>ModelRatios\<close>, one request after the other.

  A field is a \<open>RatioField\<close>; \<open>sync_name\<close> is its name in the answers and \<open>option_name\<close> the one of its
  text, and \<open>optionKeyBySyncField\<close> leads from one to the other (\<open>option_key_name\<close>). The answers have
  the type they declare: other fields do not occur in them.
\<close>

section \<open>Fields\<close>

definition sync_name :: "RatioField \<Rightarrow> jstr" where
  "sync_name f =
     (case f of
        F_price \<Rightarrow> js ''model_price'' | F_ratio \<Rightarrow> js ''model_ratio'' | F_mode \<Rightarrow> js ''billing_mode'' | F_expr \<Rightarrow> js ''billing_expr''
      | F_lane lane \<Rightarrow>
          (case lane of
             L_completion \<Rightarrow> js ''completion_ratio'' | L_cache \<Rightarrow> js ''cache_ratio'' | L_createCache \<Rightarrow> js ''create_cache_ratio''
           | L_image \<Rightarrow> js ''image_ratio'' | L_audioInput \<Rightarrow> js ''audio_ratio'' | L_audioOutput \<Rightarrow> js ''audio_completion_ratio''))"

definition option_name :: "RatioField \<Rightarrow> jstr" where
  "option_name f =
     (case f of
        F_price \<Rightarrow> js ''ModelPrice'' | F_ratio \<Rightarrow> js ''ModelRatio''
      | F_mode \<Rightarrow> js ''billing_setting.billing_mode'' | F_expr \<Rightarrow> js ''billing_setting.billing_expr''
      | F_lane lane \<Rightarrow>
          (case lane of
             L_completion \<Rightarrow> js ''CompletionRatio'' | L_cache \<Rightarrow> js ''CacheRatio'' | L_createCache \<Rightarrow> js ''CreateCacheRatio''
           | L_image \<Rightarrow> js ''ImageRatio'' | L_audioInput \<Rightarrow> js ''AudioRatio'' | L_audioOutput \<Rightarrow> js ''AudioCompletionRatio''))"

definition optionKeyBySyncField :: "jstr \<Rightarrow> jstr" where
  "optionKeyBySyncField ratioType =
     (if ratioType = js ''billing_mode'' then js ''billing_setting.billing_mode''
      else if ratioType = js ''billing_expr'' then js ''billing_setting.billing_expr''
      else concat (map (\<lambda>word. ascii_upper (take 1 word) @ drop 1 word) (split_on 95 ratioType)))"

definition RATIO_SYNC_FIELDS :: "RatioField list" where
  "RATIO_SYNC_FIELDS = [F_ratio, F_lane L_completion, F_lane L_cache, F_lane L_createCache, F_lane L_image,
     F_lane L_audioInput, F_lane L_audioOutput]"

definition SYNC_FIELD_ORDER :: "RatioField list" where
  "SYNC_FIELD_ORDER = RATIO_SYNC_FIELDS @ [F_price, F_mode, F_expr]"

definition NUMERIC_SYNC_FIELDS :: "RatioField list" where
  "NUMERIC_SYNC_FIELDS = RATIO_SYNC_FIELDS @ [F_price]"

datatype Category = Cat_price | Cat_ratio | Cat_tiered

definition getBillingCategory :: "RatioField \<Rightarrow> Category" where
  "getBillingCategory f = (if f = F_price then Cat_price else if f = F_mode \<or> f = F_expr then Cat_tiered else Cat_ratio)"

section \<open>Differences and selections\<close>

record RatioDifference =
  rd_current :: jsval
  rd_upstreams :: "(jstr \<times> jsval) list"
  rd_confidence :: "(jstr \<times> bool) list"

type_synonym ModelDiffs = "(RatioField \<times> RatioDifference) list"
type_synonym DifferencesMap = "(jstr \<times> ModelDiffs) list"
type_synonym Selection = "(RatioField \<times> jsval) list"
type_synonym ResolutionsMap = "(jstr \<times> Selection) list"

definition lookup_or :: "'b list \<Rightarrow> jstr \<Rightarrow> (jstr \<times> 'b list) list \<Rightarrow> 'b list" where
  "lookup_or d k m = (case map_of m k of Some x \<Rightarrow> x | None \<Rightarrow> d)"

abbreviation of_model :: "jstr \<Rightarrow> (jstr \<times> 'b list) list \<Rightarrow> 'b list" where
  "of_model \<equiv> lookup_or []"

text \<open>\<open>ds[field]?.upstreams?.[source]\<close>.\<close>

definition upstream_value :: "ModelDiffs \<Rightarrow> RatioField \<Rightarrow> jstr \<Rightarrow> jsval" where
  "upstream_value ds f source = (case map_of ds f of None \<Rightarrow> JUndef | Some d \<Rightarrow> obj_get source (rd_upstreams d))"

definition isSelectableUpstreamValue :: "jsval \<Rightarrow> bool" where
  "isSelectableUpstreamValue v \<longleftrightarrow> \<not> is_nullish v \<and> v \<noteq> JStr (js ''same'')"

definition getOrderedRatioTypes :: "RatioField option \<Rightarrow> ModelDiffs \<Rightarrow> RatioField list" where
  "getOrderedRatioTypes filt ds =
     (let ks = map fst ds;
          ordered = List.filter (\<lambda>f. f \<in> set ks) SYNC_FIELD_ORDER @ List.filter (\<lambda>f. f \<notin> set SYNC_FIELD_ORDER) ks in
      case filt of None \<Rightarrow> ordered | Some g \<Rightarrow> List.filter (\<lambda>f. f = g) ordered)"

definition getPreferredSyncField :: "ModelDiffs \<Rightarrow> RatioField \<Rightarrow> jstr \<Rightarrow> RatioField" where
  "getPreferredSyncField ds f source =
     (if f \<noteq> F_expr \<and> isSelectableUpstreamValue (upstream_value ds F_expr source) then F_expr else f)"

text \<open>Selecting a field of another category drops the fixed price or the ratios selected before.\<close>

definition clear_conflicting :: "Category \<Rightarrow> Selection \<Rightarrow> Selection" where
  "clear_conflicting kind sel =
     List.filter (\<lambda>p. \<not> (kind \<noteq> Cat_tiered \<and> getBillingCategory (fst p) \<noteq> Cat_tiered \<and> getBillingCategory (fst p) \<noteq> kind)) sel"

definition add_tiered :: "ModelDiffs \<Rightarrow> RatioField \<Rightarrow> jstr \<Rightarrow> Selection \<Rightarrow> Selection" where
  "add_tiered ds final source sel =
     (let modeVal = upstream_value ds F_mode source; exprVal = upstream_value ds F_expr source;
          sel = (if isSelectableUpstreamValue modeVal then map_set F_mode modeVal sel
                 else if final = F_expr then map_set F_mode (JStr (js ''tiered_expr'')) sel else sel) in
      if isSelectableUpstreamValue exprVal then map_set F_expr exprVal sel else sel)"

definition handleSelectValue :: "DifferencesMap \<Rightarrow> jstr \<Rightarrow> RatioField \<Rightarrow> jsval \<Rightarrow> jstr \<Rightarrow> ResolutionsMap \<Rightarrow> ResolutionsMap" where
  "handleSelectValue differences model ratioType v sourceName prev =
     (let modelDiffs = of_model model differences;
          final = (if sourceName \<noteq> [] then getPreferredSyncField modelDiffs ratioType sourceName else ratioType);
          finalValue = (if final = ratioType then v
                        else let u = upstream_value modelDiffs final sourceName in if is_nullish u then v else u);
          category = getBillingCategory final;
          sel = map_set final finalValue (clear_conflicting category (of_model model prev));
          sel = (if category = Cat_tiered \<and> sourceName \<noteq> [] \<and> map_of differences model \<noteq> None
                 then add_tiered modelDiffs final sourceName sel else sel) in
      obj_set model sel prev)"

text \<open>The two fields of a tiered price go together.\<close>

definition without_field :: "RatioField \<Rightarrow> Selection \<Rightarrow> Selection" where
  "without_field f sel =
     List.filter (\<lambda>p. fst p \<noteq> f \<and> \<not> (f = F_expr \<and> fst p = F_mode) \<and> \<not> (f = F_mode \<and> fst p = F_expr)) sel"

definition deleteResolutionField :: "ResolutionsMap \<Rightarrow> jstr \<Rightarrow> RatioField \<Rightarrow> ResolutionsMap" where
  "deleteResolutionField res model ratioType =
     (case map_of res model of
        None \<Rightarrow> res
      | Some sel \<Rightarrow>
          (let sel = without_field ratioType sel in
           if sel = [] then obj_delete model res else obj_set model sel res))"

definition handleBulkSelect :: "RatioField option \<Rightarrow> DifferencesMap \<Rightarrow> jstr \<Rightarrow> (jstr \<times> ModelDiffs) list \<Rightarrow> ResolutionsMap \<Rightarrow> ResolutionsMap" where
  "handleBulkSelect filt differences upstream rows res =
     foldl (\<lambda>res (model, ds).
         foldl (\<lambda>res f.
             let v = upstream_value ds f upstream in
             if getPreferredSyncField ds f upstream = f \<and> isSelectableUpstreamValue v
             then handleSelectValue differences model f v upstream res else res)
           res (getOrderedRatioTypes filt ds))
       res rows"

definition handleBulkUnselect :: "RatioField option \<Rightarrow> jstr \<Rightarrow> (jstr \<times> ModelDiffs) list \<Rightarrow> ResolutionsMap \<Rightarrow> ResolutionsMap" where
  "handleBulkUnselect filt upstream rows res =
     foldl (\<lambda>res (model, ds).
         foldl (\<lambda>res f. if upstream_value ds f upstream \<noteq> JUndef then deleteResolutionField res model f else res)
           res (getOrderedRatioTypes filt ds))
       res rows"

text \<open>The box of an upstream: how many of its values can be selected, and how many are.\<close>

definition selection_counts :: "RatioField option \<Rightarrow> jstr \<Rightarrow> ResolutionsMap \<Rightarrow> (jstr \<times> ModelDiffs) list \<Rightarrow> nat \<times> nat" where
  "selection_counts filt upstream res rows =
     foldl (\<lambda>acc (model, ds).
         foldl (\<lambda>(able, chosen) f.
             let v = upstream_value ds f upstream in
             if getPreferredSyncField ds f upstream = f \<and> isSelectableUpstreamValue v
             then (able + 1, if map_of (of_model model res) f = Some v then chosen + 1 else chosen) else (able, chosen))
           acc (getOrderedRatioTypes filt ds))
       (0, 0) rows"

text \<open>The rows of the table; \<open>lower\<close> is \<open>toLowerCase\<close>.\<close>

definition billing_conflict :: "ModelDiffs \<Rightarrow> bool" where
  "billing_conflict ds \<longleftrightarrow> F_price \<in> set (map fst ds) \<and> list_ex (\<lambda>f. f \<in> set (map fst ds)) RATIO_SYNC_FIELDS"

definition filteredData :: "(jstr \<Rightarrow> jstr) \<Rightarrow> jstr \<Rightarrow> RatioField option \<Rightarrow> DifferencesMap \<Rightarrow> DifferencesMap" where
  "filteredData lower search filt differences =
     (let data = (if trim search \<noteq> [] then List.filter (\<lambda>r. contains (lower (fst r)) (lower search)) differences
                  else differences) in
      case filt of None \<Rightarrow> data | Some f \<Rightarrow> List.filter (\<lambda>r. f \<in> set (map fst (snd r))) data)"

definition upstreamNames :: "RatioField option \<Rightarrow> DifferencesMap \<Rightarrow> jstr list" where
  "upstreamNames filt rows =
     js_set (concat (map (\<lambda>r. concat (map (\<lambda>f. case map_of (snd r) f of Some d \<Rightarrow> map fst (rd_upstreams d) | None \<Rightarrow> [])
       (getOrderedRatioTypes filt (snd r)))) rows))"

section \<open>Writing the selection\<close>

definition parse_record :: "jstr \<Rightarrow> (jstr \<times> jsval) list option" where
  "parse_record s =
     (case json_parse (if s = [] then js ''{}'' else s) of None \<Rightarrow> Some [] | Some (JObj ps) \<Rightarrow> Some ps | Some _ \<Rightarrow> None)"

definition parsedRatios :: "RatioTexts \<Rightarrow> RatioMaps option" where
  "parsedRatios t =
     (if list_all (\<lambda>f. parse_record (t f) \<noteq> None) all_fields
      then Some (\<lambda>f. case parse_record (t f) of Some m \<Rightarrow> m | None \<Rightarrow> [])
      else None)"

definition getLocalBillingCategory :: "RatioMaps \<Rightarrow> jstr \<Rightarrow> Category option" where
  "getLocalBillingCategory m model =
     (if obj_has model (m F_price) then Some Cat_price
      else if list_ex (\<lambda>f. obj_has model (m f)) RATIO_SYNC_FIELDS then Some Cat_ratio else None)"

definition has_price :: "Selection \<Rightarrow> bool" where
  "has_price sel \<longleftrightarrow> F_price \<in> set (map fst sel)"

definition has_ratio :: "Selection \<Rightarrow> bool" where
  "has_ratio sel \<longleftrightarrow> list_ex (\<lambda>f. f \<in> set RATIO_SYNC_FIELDS) (map fst sel)"

definition synced_value :: "RatioField \<Rightarrow> jsval \<Rightarrow> jsval" where
  "synced_value f v = (if f \<in> set NUMERIC_SYNC_FIELDS then JNum (js_to_number v) else v)"

definition set_synced :: "jstr \<Rightarrow> RatioMaps \<Rightarrow> RatioField \<times> jsval \<Rightarrow> RatioMaps" where
  "set_synced model m p = m(fst p := obj_set model (synced_value (fst p) (snd p)) (m (fst p)))"

definition sync_model :: "RatioMaps \<Rightarrow> jstr \<times> Selection \<Rightarrow> RatioMaps" where
  "sync_model m r =
     (let model = fst r; sel = snd r;
          m = (\<lambda>f. if has_price sel \<and> f \<in> set RATIO_SYNC_FIELDS \<or> has_ratio sel \<and> f = F_price
                   then obj_delete model (m f) else m f) in
      foldl (set_synced model) m sel)"

definition finalRatios :: "ResolutionsMap \<Rightarrow> RatioMaps \<Rightarrow> RatioMaps" where
  "finalRatios res m = foldl sync_model m res"

text \<open>The requests of a synchronisation, in their order.\<close>

definition sync_order :: "RatioField list" where
  "sync_order = [F_ratio, F_lane L_completion, F_lane L_cache, F_lane L_createCache, F_lane L_image, F_lane L_audioInput,
     F_lane L_audioOutput, F_price, F_mode, F_expr]"

definition sync_updates :: "ResolutionsMap \<Rightarrow> RatioMaps \<Rightarrow> (RatioField \<times> jstr) list" where
  "sync_updates res m = map (\<lambda>f. (f, print_maps (finalRatios res m) f)) sync_order"

section \<open>Conflicts\<close>

record ConflictItem =
  ci_channel :: jstr
  ci_model :: jstr
  ci_current :: jstr
  ci_new :: jstr

definition new_category :: "Selection \<Rightarrow> Category" where
  "new_category sel = (if has_price sel then Cat_price else if has_ratio sel then Cat_ratio else Cat_tiered)"

definition findSourceChannel :: "DifferencesMap \<Rightarrow> jstr \<Rightarrow> RatioField \<Rightarrow> jsval \<Rightarrow> jstr" where
  "findSourceChannel differences model f v =
     (case map_of (of_model model differences) f of
        None \<Rightarrow> js ''Unknown''
      | Some d \<Rightarrow> (case find (\<lambda>p. snd p = v) (rd_upstreams d) of Some p \<Rightarrow> fst p | None \<Rightarrow> js ''Unknown''))"

definition or_dash :: "jsval \<Rightarrow> jstr" where
  "or_dash v = (if is_nullish v then js ''-'' else to_str v)"

definition ratio_desc :: "(jstr \<Rightarrow> jstr) \<Rightarrow> jsval \<Rightarrow> jsval \<Rightarrow> jstr" where
  "ratio_desc t r c = t (js ''Model ratio'') @ js '': '' @ or_dash r @ [10] @ t (js ''Completion ratio'') @ js '': '' @ or_dash c"

definition selected :: "Selection \<Rightarrow> RatioField \<Rightarrow> jsval" where
  "selected sel f = (case map_of sel f of Some v \<Rightarrow> v | None \<Rightarrow> JUndef)"

definition category_conflict :: "RatioMaps \<Rightarrow> jstr \<times> Selection \<Rightarrow> bool" where
  "category_conflict m r \<longleftrightarrow>
     (case getLocalBillingCategory m (fst r) of
        None \<Rightarrow> False
      | Some localCat \<Rightarrow> new_category (snd r) \<noteq> Cat_tiered \<and> localCat \<noteq> new_category (snd r))"

definition conflict_item :: "(jstr \<Rightarrow> jstr) \<Rightarrow> DifferencesMap \<Rightarrow> RatioMaps \<Rightarrow> jstr \<times> Selection \<Rightarrow> ConflictItem" where
  "conflict_item t differences m r =
     (let model = fst r; sel = snd r; price = (\<lambda>v. t (js ''Fixed price'') @ js '': '' @ to_str v) in
      \<lparr>ci_channel = join (js '', '') (js_set (map (\<lambda>(f, v). findSourceChannel differences model f v) sel)),
       ci_model = model,
       ci_current = (if getLocalBillingCategory m model = Some Cat_price then price (obj_get model (m F_price))
                     else ratio_desc t (obj_get model (m F_ratio)) (obj_get model (m (F_lane L_completion)))),
       ci_new = (if new_category sel = Cat_price then price (selected sel F_price)
                 else ratio_desc t (selected sel F_ratio) (selected sel (F_lane L_completion)))\<rparr>)"

definition conflicts :: "(jstr \<Rightarrow> jstr) \<Rightarrow> DifferencesMap \<Rightarrow> ResolutionsMap \<Rightarrow> RatioMaps \<Rightarrow> ConflictItem list" where
  "conflicts t differences res m = map (conflict_item t differences m) (List.filter (category_conflict m) res)"

text \<open>After a successful synchronisation the fields that were written are no longer shown as different.\<close>

definition drop_resolved :: "ResolutionsMap \<Rightarrow> DifferencesMap \<Rightarrow> DifferencesMap" where
  "drop_resolved res differences =
     foldl (\<lambda>d (model, sel).
         foldl (\<lambda>d f.
             case map_of d model of
               None \<Rightarrow> d
             | Some fs \<Rightarrow>
                 if map_of fs f = None then d
                 else
                   let rest = List.filter (\<lambda>p. fst p \<noteq> f) fs in
                   if rest = [] then obj_delete model d else obj_set model rest d)
           d (map fst sel))
       differences res"

section \<open>Channels\<close>

record UpstreamChannel =
  uc_id :: int
  uc_name :: jstr
  uc_base_url :: jstr
  uc_type :: "nat option"

record UpstreamConfig =
  cfg_id :: int
  cfg_name :: jstr
  cfg_base_url :: jstr
  cfg_endpoint :: jstr

definition DEFAULT_ENDPOINT :: jstr where "DEFAULT_ENDPOINT = js ''/api/pricing''"
definition OFFICIAL_CHANNEL_ID :: int where "OFFICIAL_CHANNEL_ID = -100"
definition OFFICIAL_CHANNEL_ENDPOINT :: jstr where
  "OFFICIAL_CHANNEL_ENDPOINT = js ''/llm-metadata/api/newapi/ratio_config-v1-base.json''"
definition MODELS_DEV_PRESET_ID :: int where "MODELS_DEV_PRESET_ID = -101"
definition MODELS_DEV_PRESET_ENDPOINT :: jstr where "MODELS_DEV_PRESET_ENDPOINT = js ''https://models.dev/api.json''"
definition OPENROUTER_ENDPOINT :: jstr where "OPENROUTER_ENDPOINT = js ''openrouter''"
definition OPENROUTER_CHANNEL_TYPE :: nat where "OPENROUTER_CHANNEL_TYPE = 20"

definition getDefaultEndpointForChannel :: "UpstreamChannel \<Rightarrow> jstr" where
  "getDefaultEndpointForChannel ch =
     (if uc_id ch = MODELS_DEV_PRESET_ID then MODELS_DEV_PRESET_ENDPOINT
      else if uc_id ch = OFFICIAL_CHANNEL_ID then OFFICIAL_CHANNEL_ENDPOINT
      else if uc_type ch = Some OPENROUTER_CHANNEL_TYPE then OPENROUTER_ENDPOINT
      else DEFAULT_ENDPOINT)"

text \<open>The effect that gives every listed channel an endpoint, keeping those already chosen.\<close>

definition default_endpoints :: "UpstreamChannel list \<Rightarrow> (int \<times> jstr) list \<Rightarrow> (int \<times> jstr) list" where
  "default_endpoints channels prev =
     foldl (\<lambda>next ch. case map_of next (uc_id ch) of
         Some (c # s) \<Rightarrow> next
       | _ \<Rightarrow> map_set (uc_id ch) (getDefaultEndpointForChannel ch) next) prev channels"

definition selected_upstreams :: "UpstreamChannel list \<Rightarrow> (int \<times> jstr) list \<Rightarrow> int list \<Rightarrow> UpstreamConfig list" where
  "selected_upstreams channels endpoints ids =
     map (\<lambda>ch. \<lparr>cfg_id = uc_id ch, cfg_name = uc_name ch, cfg_base_url = uc_base_url ch,
          cfg_endpoint = (case map_of endpoints (uc_id ch) of Some (c # s) \<Rightarrow> c # s | _ \<Rightarrow> DEFAULT_ENDPOINT)\<rparr>)
       (List.filter (\<lambda>ch. uc_id ch \<in> set ids) channels)"

section \<open>The page\<close>

text \<open>
  \<open>stored\<close> is what the server holds, \<open>shown_texts\<close> the page's copy, which is fetched again after a
  success; \<open>writing\<close> are the requests of a synchronisation that is under way, \<open>fetching\<close> a query of
  the upstreams. While one of the two runs every control is disabled.
\<close>

record SyncPage =
  stored :: RatioTexts
  shown_texts :: RatioTexts
  differences :: DifferencesMap
  resolutions :: ResolutionsMap
  conflictItems :: "ConflictItem list"
  conflictDialogOpen :: bool
  writing :: "(RatioField \<times> jstr) list option"
  fetching :: bool

definition is_loading :: "SyncPage \<Rightarrow> bool" where
  "is_loading st \<longleftrightarrow> fetching st \<or> writing st \<noteq> None"

definition opened_page :: "RatioTexts \<Rightarrow> SyncPage" where
  "opened_page t = \<lparr>stored = t, shown_texts = t, differences = [], resolutions = [], conflictItems = [],
     conflictDialogOpen = False, writing = None, fetching = False\<rparr>"

definition handleConfirmChannelSelection :: "UpstreamConfig list \<Rightarrow> SyncPage \<Rightarrow> SyncPage" where
  "handleConfirmChannelSelection upstreams st = (if upstreams = [] then st else st\<lparr>fetching := True\<rparr>)"

text \<open>The answer of the query; \<open>None\<close> is a failure.\<close>

definition fetch_ended :: "DifferencesMap option \<Rightarrow> SyncPage \<Rightarrow> SyncPage" where
  "fetch_ended answer st =
     (case answer of
        None \<Rightarrow> st\<lparr>fetching := False\<rparr>
      | Some ds \<Rightarrow> st\<lparr>fetching := False, differences := ds, resolutions := []\<rparr>)"

definition performSync :: "RatioMaps \<Rightarrow> SyncPage \<Rightarrow> SyncPage" where
  "performSync m st = st\<lparr>writing := Some (sync_updates (resolutions st) m)\<rparr>"

definition handleApplySync :: "(jstr \<Rightarrow> jstr) \<Rightarrow> SyncPage \<Rightarrow> SyncPage option" where
  "handleApplySync t st =
     (case parsedRatios (shown_texts st) of
        None \<Rightarrow> None
      | Some m \<Rightarrow>
          (let cs = conflicts t (differences st) (resolutions st) m in
           Some (if cs \<noteq> [] then st\<lparr>conflictItems := cs, conflictDialogOpen := True\<rparr> else performSync m st)))"

definition handleConfirmConflict :: "SyncPage \<Rightarrow> SyncPage option" where
  "handleConfirmConflict st = map_option (\<lambda>m. performSync m st) (parsedRatios (shown_texts st))"

text \<open>The server has taken the first \<open>k\<close> requests; the synchronisation succeeds when these are all.\<close>

definition written :: "(RatioField \<times> jstr) list \<Rightarrow> RatioTexts \<Rightarrow> RatioTexts" where
  "written us t = foldl (\<lambda>t (f, s). t(f := s)) t us"

definition sync_ended :: "nat \<Rightarrow> SyncPage \<Rightarrow> SyncPage" where
  "sync_ended k st =
     (case writing st of
        None \<Rightarrow> st
      | Some us \<Rightarrow>
          (let st = st\<lparr>stored := written (take k us) (stored st), writing := None\<rparr> in
           if k < length us then st
           else st\<lparr>shown_texts := stored st, differences := drop_resolved (resolutions st) (differences st),
             resolutions := [], conflictDialogOpen := False\<rparr>))"

section \<open>What can be selected\<close>

lemma option_key_name: "optionKeyBySyncField (sync_name f) = option_name f"
proof (cases f)
  case (F_lane lane)
  then show ?thesis
    by (cases lane) (simp_all add: optionKeyBySyncField_def sync_name_def option_name_def js_def ascii_upper_def)
qed (simp_all add: optionKeyBySyncField_def sync_name_def option_name_def js_def ascii_upper_def)

definition known_model :: "DifferencesMap \<Rightarrow> jstr \<Rightarrow> bool" where
  "known_model ds model \<longleftrightarrow> map_of ds model \<noteq> None"

inductive selections :: "DifferencesMap \<Rightarrow> ResolutionsMap \<Rightarrow> bool" for ds where
  nothing: "selections ds []"
| select: "selections ds (handleSelectValue ds model f (upstream_value (of_model model ds) f source) source res)"
    if "selections ds res" "known_model ds model" "source \<noteq> []"
      "isSelectableUpstreamValue (upstream_value (of_model model ds) f source)"
| unselect: "selections ds (deleteResolutionField res model f)" if "selections ds res"

definition reported :: "ModelDiffs \<Rightarrow> RatioField \<Rightarrow> jsval \<Rightarrow> bool" where
  "reported fs f v \<longleftrightarrow> (\<exists>source. upstream_value fs f source = v \<and> isSelectableUpstreamValue v) \<or>
     (f = F_mode \<and> v = JStr (js ''tiered_expr''))"

definition selection_ok :: "ModelDiffs \<Rightarrow> Selection \<Rightarrow> bool" where
  "selection_ok fs sel \<longleftrightarrow>
     \<not> (has_price sel \<and> has_ratio sel) \<and> distinct (map fst sel) \<and> (\<forall>(f, v)\<in>set sel. reported fs f v)"

definition mode_selected :: "Selection \<Rightarrow> bool" where
  "mode_selected sel \<longleftrightarrow> (F_expr \<in> fst ` set sel \<longrightarrow> F_mode \<in> fst ` set sel)"

lemma keys_map_set: "fst ` set (map_set k v m) = insert k (fst ` set m)"
  by (rule set_fst_map_set)

lemma has_simps: "has_price sel \<longleftrightarrow> F_price \<in> fst ` set sel"
  "has_ratio sel \<longleftrightarrow> (\<exists>f\<in>fst ` set sel. getBillingCategory f = Cat_ratio)"
proof -
  have "f \<in> set RATIO_SYNC_FIELDS \<longleftrightarrow> getBillingCategory f = Cat_ratio" for f
  proof (cases f)
    case (F_lane lane)
    then show ?thesis by (cases lane) (simp_all add: RATIO_SYNC_FIELDS_def getBillingCategory_def)
  qed (simp_all add: RATIO_SYNC_FIELDS_def getBillingCategory_def)
  then show "has_price sel \<longleftrightarrow> F_price \<in> fst ` set sel"
    "has_ratio sel \<longleftrightarrow> (\<exists>f\<in>fst ` set sel. getBillingCategory f = Cat_ratio)"
    by (simp_all add: has_price_def has_ratio_def list_ex_iff)
qed

lemma clear_keys:
  "fst ` set (clear_conflicting kind sel) =
     {f \<in> fst ` set sel. kind = Cat_tiered \<or> getBillingCategory f = Cat_tiered \<or> getBillingCategory f = kind}"
  by (auto simp: clear_conflicting_def)

lemma category_cases [simp]: "getBillingCategory F_price = Cat_price" "getBillingCategory F_mode = Cat_tiered"
  "getBillingCategory F_expr = Cat_tiered" "getBillingCategory F_ratio = Cat_ratio" "getBillingCategory (F_lane lane) = Cat_ratio"
  by (simp_all add: getBillingCategory_def)

lemma category_price: "getBillingCategory f = Cat_price \<longleftrightarrow> f = F_price"
  by (cases f) simp_all

lemma clear_ok: "selection_ok fs sel \<Longrightarrow> selection_ok fs (clear_conflicting kind sel)"
  unfolding selection_ok_def has_simps clear_keys
  by (auto simp: clear_conflicting_def distinct_map inj_on_def)

lemma set_ok:
  assumes "selection_ok fs sel" "reported fs f v"
    "f = F_price \<Longrightarrow> \<not> has_ratio sel" "getBillingCategory f = Cat_ratio \<Longrightarrow> \<not> has_price sel"
  shows "selection_ok fs (map_set f v sel)"
  using assms set_map_set [of f v sel] unfolding selection_ok_def has_simps keys_map_set
  by (auto simp: distinct_map_set category_price)

lemma tiered_ok: "selection_ok fs sel \<Longrightarrow> selection_ok fs (add_tiered fs final source sel)"
  by (auto simp: add_tiered_def Let_def reported_def intro!: set_ok)

lemma tiered_keys:
  "fst ` set sel \<subseteq> fst ` set (add_tiered fs final source sel)"
  "final = F_expr \<Longrightarrow> F_mode \<in> fst ` set (add_tiered fs final source sel)"
  "F_mode \<in> fst ` set sel \<Longrightarrow> F_mode \<in> fst ` set (add_tiered fs final source sel)"
  by (auto simp: add_tiered_def Let_def)

text \<open>The selection of one model after a click.\<close>

definition clicked :: "ModelDiffs \<Rightarrow> RatioField \<Rightarrow> jstr \<Rightarrow> Selection \<Rightarrow> Selection" where
  "clicked fs f source sel =
     (let final = getPreferredSyncField fs f source;
          sel = map_set final (upstream_value fs final source) (clear_conflicting (getBillingCategory final) sel) in
      if getBillingCategory final = Cat_tiered then add_tiered fs final source sel else sel)"

lemma preferred_selectable:
  "isSelectableUpstreamValue (upstream_value fs f source) \<Longrightarrow>
     isSelectableUpstreamValue (upstream_value fs (getPreferredSyncField fs f source) source)"
  by (simp add: getPreferredSyncField_def)

lemma select_clicked:
  assumes "known_model ds model" "source \<noteq> []" "isSelectableUpstreamValue (upstream_value (of_model model ds) f source)"
  shows "handleSelectValue ds model f (upstream_value (of_model model ds) f source) source res =
    obj_set model (clicked (of_model model ds) f source (of_model model res)) res"
proof -
  let ?g = "getPreferredSyncField (of_model model ds) f source"
  have "\<not> is_nullish (upstream_value (of_model model ds) ?g source)"
    using preferred_selectable [OF assms(3)] by (simp add: isSelectableUpstreamValue_def)
  then have "(if ?g = f then upstream_value (of_model model ds) f source
      else let u = upstream_value (of_model model ds) ?g source in
        if is_nullish u then upstream_value (of_model model ds) f source else u) = upstream_value (of_model model ds) ?g source"
    by (simp add: Let_def)
  then show ?thesis using assms(1,2) by (simp add: handleSelectValue_def clicked_def known_model_def Let_def)
qed

lemma clicked_ok:
  assumes "selection_ok fs sel" "isSelectableUpstreamValue (upstream_value fs f source)"
  shows "selection_ok fs (clicked fs f source sel)"
proof -
  let ?g = "getPreferredSyncField fs f source"
  let ?sel = "clear_conflicting (getBillingCategory ?g) sel"
  have "reported fs ?g (upstream_value fs ?g source)"
    using preferred_selectable [OF assms(2)] by (auto simp: reported_def)
  moreover have "?g = F_price \<Longrightarrow> \<not> has_ratio ?sel" "getBillingCategory ?g = Cat_ratio \<Longrightarrow> \<not> has_price ?sel"
    unfolding has_simps clear_keys by auto
  ultimately have "selection_ok fs (map_set ?g (upstream_value fs ?g source) ?sel)"
    using clear_ok [OF assms(1)] by (intro set_ok)
  then show ?thesis
    by (cases "getBillingCategory ?g = Cat_tiered") (simp_all add: clicked_def Let_def tiered_ok)
qed

lemma clicked_mode:
  assumes "mode_selected sel"
  shows "mode_selected (clicked fs f source sel)"
proof (cases "getBillingCategory (getPreferredSyncField fs f source) = Cat_tiered")
  case True
  let ?g = "getPreferredSyncField fs f source"
  let ?sel = "map_set ?g (upstream_value fs ?g source) (clear_conflicting Cat_tiered sel)"
  have "?g = F_expr \<or> ?g = F_mode" using True by (cases ?g) simp_all
  then have "F_mode \<in> fst ` set (add_tiered fs ?g source ?sel)"
    using tiered_keys(2) [of ?g fs source ?sel] tiered_keys(3) [of ?sel fs ?g source] by auto
  then show ?thesis using True by (simp add: mode_selected_def clicked_def Let_def)
next
  case False
  then have "getPreferredSyncField fs f source \<noteq> F_expr" by auto
  then show ?thesis using False assms by (auto simp: mode_selected_def clicked_def Let_def clear_keys)
qed

lemma unselect_cases:
  obtains "deleteResolutionField res model f = res"
  | "deleteResolutionField res model f = obj_delete model res"
  | sel where "(model, sel) \<in> set res" "deleteResolutionField res model f =
      obj_set model (without_field f sel) res"
proof (cases "map_of res model")
  case None
  then show thesis using that(1) by (simp add: deleteResolutionField_def)
next
  case (Some sel)
  then show thesis using that(2) that(3) [of sel] map_of_SomeD [OF Some]
    by (cases "without_field f sel = []") (simp_all add: deleteResolutionField_def)
qed

lemma without_ok: "selection_ok fs sel \<Longrightarrow> selection_ok fs (without_field f sel)"
  unfolding selection_ok_def has_simps without_field_def by (auto simp: distinct_map inj_on_def)

lemma unselect_mode:
  "mode_selected sel \<Longrightarrow> mode_selected (without_field f sel)"
  by (force simp: mode_selected_def without_field_def image_iff)

lemma keys_distinct_set: "distinct (map fst res) \<Longrightarrow> distinct (map fst (obj_set k v res))"
proof (cases "k \<in> fst ` set res")
  case False
  moreover assume "distinct (map fst res)"
  moreover have "set (map fst (obj_insert k v res)) = insert k (set (map fst res))" for k :: jstr and v :: 'a and res
    by (simp add: set_obj_insert)
  moreover have "k \<notin> fst ` set res \<Longrightarrow> distinct (map fst res) \<Longrightarrow> distinct (map fst (obj_insert k v res))"
    by (induction res) (auto simp: set_obj_insert)
  ultimately show ?thesis by (simp add: obj_set_def)
qed (simp add: obj_set_def distinct_update)

lemma selections_ok:
  assumes "selections ds res"
  shows "distinct (map fst res) \<and> (\<forall>(model, sel)\<in>set res. selection_ok (of_model model ds) sel \<and> mode_selected sel)"
  using assms
proof (induction rule: selections.induct)
  case nothing
  then show ?case by simp
next
  case (select res model source f)
  have "selection_ok (of_model model ds) (of_model model res) \<and> mode_selected (of_model model res)"
  proof (cases "map_of res model")
    case None
    then show ?thesis by (simp add: lookup_or_def selection_ok_def mode_selected_def has_simps)
  next
    case (Some sel)
    then have "(model, sel) \<in> set res" by (rule map_of_SomeD)
    then show ?thesis using select.IH Some by (auto simp: lookup_or_def)
  qed
  then have "selection_ok (of_model model ds) (clicked (of_model model ds) f source (of_model model res)) \<and>
      mode_selected (clicked (of_model model ds) f source (of_model model res))"
    using clicked_ok clicked_mode select.hyps(4) by blast
  then show ?case
    using select.IH set_obj_set [of model "clicked (of_model model ds) f source (of_model model res)" res]
    unfolding select_clicked [OF select.hyps(2-4)] by (auto simp: keys_distinct_set)
next
  case (unselect res model f)
  show ?case
  proof (rule unselect_cases [of res model f])
    fix sel
    assume sel: "(model, sel) \<in> set res" "deleteResolutionField res model f =
      obj_set model (without_field f sel) res"
    have "selection_ok (of_model model ds) sel \<and> mode_selected sel" using unselect.IH sel(1) by auto
    then show ?thesis
      using unselect.IH without_ok unselect_mode unfolding sel(2) by (fastforce simp: keys_distinct_set dest: subsetD [OF set_obj_set])
  qed (use unselect.IH in \<open>auto simp: obj_delete_def distinct_map inj_on_def\<close>)
qed

text \<open>The boxes of a whole column are clicks on its values.\<close>

lemma bulk_select_selections:
  assumes "distinct (map fst ds)" "set rows \<subseteq> set ds" "upstream \<noteq> []" "selections ds res"
  shows "selections ds (handleBulkSelect filt ds upstream rows res)"
  using assms(2,4) unfolding handleBulkSelect_def
proof (induction rows arbitrary: res)
  case (Cons r rows)
  obtain model fs where r: "r = (model, fs)" by (cases r)
  have m: "map_of ds model = Some fs" using Cons.prems(1) r assms(1) by simp
  have "selections ds (foldl (\<lambda>res f.
      let v = upstream_value fs f upstream in
      if getPreferredSyncField fs f upstream = f \<and> isSelectableUpstreamValue v
      then handleSelectValue ds model f v upstream res else res) res gs)" if "selections ds res" for gs res
    using that
  proof (induction gs arbitrary: res)
    case (Cons g gs)
    have "selections ds (handleSelectValue ds model g (upstream_value fs g upstream) upstream res)"
      if "isSelectableUpstreamValue (upstream_value fs g upstream)"
      using selections.select [OF Cons.prems, of model upstream g] that assms(3) m
      by (simp add: known_model_def lookup_or_def)
    then show ?case using Cons by (simp add: Let_def)
  qed simp
  then show ?case using Cons by (simp add: r)
qed simp

lemma bulk_unselect_selections: "selections ds res \<Longrightarrow> selections ds (handleBulkUnselect filt upstream rows res)"
  unfolding handleBulkUnselect_def
proof (induction rows arbitrary: res)
  case (Cons r rows)
  have "selections ds (foldl (\<lambda>res f. if upstream_value fs f upstream \<noteq> JUndef
      then deleteResolutionField res model f else res) res gs)" if "selections ds res" for gs res model fs
    using that by (induction gs arbitrary: res) (simp_all add: selections.unselect)
  then show ?case using Cons by (cases r) simp
qed simp

text \<open>
  C17. Whatever is clicked, also through the boxes of whole columns, the selection of a model never mixes
  a fixed price with ratios, contains the billing mode with every expression, and holds only values some
  upstream reported (or the mode that belongs to an expression).
\<close>

theorem selections_consistent:
  assumes "selections ds res" "(model, sel) \<in> set res"
  shows "\<not> (has_price sel \<and> has_ratio sel) \<and> mode_selected sel \<and> (\<forall>(f, v)\<in>set sel. reported (of_model model ds) f v)"
  using selections_ok [OF assms(1)] assms(2) by (auto simp: selection_ok_def)

definition sample_ds :: DifferencesMap where
  "sample_ds = [(js ''m'', [(F_price, \<lparr>rd_current = JNull, rd_upstreams = [(js ''u'', JNum (Fin 1))], rd_confidence = []\<rparr>)])]"

definition sample_selection :: ResolutionsMap where
  "sample_selection = [(js ''m'', [(F_price, JNum (Fin 1))])]"

lemma sample_selections: "selections sample_ds sample_selection"
proof -
  have v: "upstream_value (of_model (js ''m'') sample_ds) F_price (js ''u'') = JNum (Fin 1)"
    by (simp add: upstream_value_def lookup_or_def sample_ds_def obj_get_def)
  have e: "upstream_value (of_model (js ''m'') sample_ds) F_expr (js ''u'') = JUndef"
    by (simp add: upstream_value_def lookup_or_def sample_ds_def)
  have k: "known_model sample_ds (js ''m'')" by (simp add: known_model_def sample_ds_def)
  have "selections sample_ds (handleSelectValue sample_ds (js ''m'') F_price (JNum (Fin 1)) (js ''u'') [])"
    using selections.select [OF selections.nothing k, of "js ''u''" F_price] by (simp add: v isSelectableUpstreamValue_def)
  moreover have "handleSelectValue sample_ds (js ''m'') F_price (JNum (Fin 1)) (js ''u'') [] = sample_selection"
    by (simp add: handleSelectValue_def getPreferredSyncField_def e isSelectableUpstreamValue_def getBillingCategory_def
        clear_conflicting_def lookup_or_def [of _ _ "[]"] sample_selection_def obj_set_def Let_def)
  ultimately show ?thesis by simp
qed

theorem selections_consistent_witness:
  "mode_selected [(F_price, JNum (Fin 1))] \<and> (js ''m'', [(F_price, JNum (Fin 1))]) \<in> set sample_selection"
  using selections_consistent [OF sample_selections, of "js ''m''" "[(F_price, JNum (Fin 1))]"]
  by (simp add: sample_selection_def)

section \<open>What is written\<close>

definition dropped :: "Selection \<Rightarrow> RatioField \<Rightarrow> bool" where
  "dropped sel f \<longleftrightarrow> has_price sel \<and> f \<in> set RATIO_SYNC_FIELDS \<or> has_ratio sel \<and> f = F_price"

definition synced :: "Selection \<Rightarrow> RatioField \<Rightarrow> jsval option \<Rightarrow> jsval option" where
  "synced sel f old =
     (case map_of sel f of Some v \<Rightarrow> Some (synced_value f v) | None \<Rightarrow> if dropped sel f then None else old)"

lemma set_values_lookup:
  "distinct (map fst sel) \<Longrightarrow>
     map_of (foldl (set_synced model) m sel f) n =
     (if n = model \<and> map_of sel f \<noteq> None then map_option (synced_value f) (map_of sel f) else map_of (m f) n)"
proof (induction sel arbitrary: m)
  case (Cons p sel)
  have "map_of sel (fst p) = None" using Cons.prems by (simp add: map_of_eq_None_iff)
  then show ?case using Cons by (cases p) (auto simp: set_synced_def split: if_splits)
qed simp

lemma sync_model_lookup:
  assumes "distinct (map fst sel)"
  shows "map_of (sync_model m (model, sel) f) n = (if n = model then synced sel f (map_of (m f) n) else map_of (m f) n)"
  unfolding sync_model_def Let_def fst_conv snd_conv set_values_lookup [OF assms]
  by (auto simp: synced_def dropped_def map_of_delete split: option.splits)

lemma final_lookup:
  assumes "distinct (map fst res)" "\<forall>(model, sel)\<in>set res. distinct (map fst sel)"
  shows "map_of (finalRatios res m f) n =
    (case map_of res n of None \<Rightarrow> map_of (m f) n | Some sel \<Rightarrow> synced sel f (map_of (m f) n))"
  using assms unfolding finalRatios_def
proof (induction res arbitrary: m)
  case (Cons r res)
  obtain model sel where r: "r = (model, sel)" by (cases r)
  have "map_of res model = None" "distinct (map fst sel)" using Cons.prems r by (auto simp: map_of_eq_None_iff)
  then show ?case using Cons by (auto simp: r sync_model_lookup split: option.splits)
qed simp

lemma written_lookup:
  assumes "selections ds res"
  shows "map_of (finalRatios res m f) n =
    (case map_of res n of None \<Rightarrow> map_of (m f) n | Some sel \<Rightarrow> synced sel f (map_of (m f) n))"
  using selections_ok [OF assms] by (intro final_lookup) (auto simp: selection_ok_def)

lemma ratio_field_iff: "f \<in> set RATIO_SYNC_FIELDS \<longleftrightarrow> f = F_ratio \<or> (\<exists>lane. f = F_lane lane)"
proof (cases f)
  case (F_lane lane)
  then show ?thesis by (cases lane) (simp_all add: RATIO_SYNC_FIELDS_def)
qed (simp_all add: RATIO_SYNC_FIELDS_def)

lemma no_ratio_selected: "\<not> has_ratio sel \<Longrightarrow> f \<in> set RATIO_SYNC_FIELDS \<Longrightarrow> map_of sel f = None"
  by (auto simp: has_ratio_def list_ex_iff map_of_eq_None_iff)

lemma priced_only:
  assumes "selections ds res" "map_of res n = Some sel"
  shows "has_price sel \<Longrightarrow> f \<in> set RATIO_SYNC_FIELDS \<Longrightarrow> map_of (finalRatios res m f) n = None"
    "has_ratio sel \<Longrightarrow> map_of (finalRatios res m F_price) n = None"
proof -
  have one: "\<not> (has_price sel \<and> has_ratio sel)"
    using selections_ok [OF assms(1)] map_of_SomeD [OF assms(2)] by (auto simp: selection_ok_def)
  show "map_of (finalRatios res m f) n = None" if "has_price sel" "f \<in> set RATIO_SYNC_FIELDS"
    using one that no_ratio_selected [of sel f] by (simp add: written_lookup [OF assms(1)] assms(2) synced_def dropped_def)
  have "map_of sel F_price = None" if "has_ratio sel"
    using one that by (auto simp: has_price_def map_of_eq_None_iff)
  then show "map_of (finalRatios res m F_price) n = None" if "has_ratio sel"
    using that by (simp add: written_lookup [OF assms(1)] assms(2) synced_def dropped_def)
qed

text \<open>
  C12. A synchronisation gives every selected field of every model exactly the selected value, deletes
  the ratios of a model whose fixed price was selected and the fixed price of one with a selected ratio,
  and leaves everything else, and every other model, as it was.
\<close>

theorem sync_writes_selection:
  assumes "selections ds res"
  shows "map_of (finalRatios res m f) n =
    (case map_of res n of
       None \<Rightarrow> map_of (m f) n
     | Some sel \<Rightarrow>
         (case map_of sel f of
            Some v \<Rightarrow> Some (synced_value f v)
          | None \<Rightarrow> if dropped sel f then None else map_of (m f) n))"
  using written_lookup [OF assms] by (simp add: synced_def cong: option.case_cong)

theorem sync_writes_selection_witness:
  "map_of (finalRatios sample_selection sample_maps F_ratio) (js ''m'') = None \<and>
   map_of (finalRatios sample_selection sample_maps F_price) (js ''m'') = Some (JNum (Fin 1))"
  unfolding sync_writes_selection [OF sample_selections]
  by (simp add: sample_selection_def synced_value_def NUMERIC_SYNC_FIELDS_def dropped_def has_price_def RATIO_SYNC_FIELDS_def)

text \<open>The table then shows no conflict for the models that were synchronised.\<close>

lemma synced_no_conflict:
  assumes "selections ds res" "map_of res n = Some sel" "new_category sel \<noteq> Cat_tiered"
    and "model_row (finalRatios res m) n = Some row"
  shows "\<not> r_conflict row"
proof -
  let ?m = "finalRatios res m"
  have t: "entry_text (?m f) n = Some []" if "map_of (?m f) n = None" for f
    using that by (simp add: entry_text_def obj_get_def)
  have "has_price sel \<or> has_ratio sel" using assms(3) by (auto simp: new_category_def split: if_splits)
  then have "entry_text (?m F_price) n = Some [] \<or> (\<forall>f\<in>set RATIO_SYNC_FIELDS. entry_text (?m f) n = Some [])"
    using priced_only [OF assms(1,2)] t by blast
  moreover have "F_ratio \<in> set RATIO_SYNC_FIELDS" "F_lane lane \<in> set RATIO_SYNC_FIELDS" for lane
    by (simp_all add: ratio_field_iff)
  ultimately show ?thesis using assms(4)
    by (auto simp: model_row_def Let_def list_ex_iff split: if_splits option.splits)
qed

section \<open>Requests that fail\<close>

definition values_ok :: "ResolutionsMap \<Rightarrow> bool" where
  "values_ok res \<longleftrightarrow> (\<forall>(model, sel)\<in>set res. \<forall>(f, v)\<in>set sel. json_ok (synced_value f v))"

lemma set_values_ok:
  "maps_ok m \<Longrightarrow> \<forall>(f, v)\<in>set sel. json_ok (synced_value f v) \<Longrightarrow>
     maps_ok (foldl (set_synced model) m sel)"
proof (induction sel arbitrary: m)
  case (Cons p sel)
  have "maps_ok (set_synced model m p)"
    using Cons.prems by (auto simp: maps_ok_def set_synced_def simp del: json_ok.simps intro: json_ok_obj_set)
  then show ?case using Cons by simp
qed simp

lemma sync_model_ok:
  assumes "maps_ok m" "\<forall>(f, v)\<in>set (snd r). json_ok (synced_value f v)"
  shows "maps_ok (sync_model m r)"
  unfolding sync_model_def Let_def
  by (rule set_values_ok) (use assms in \<open>auto simp: maps_ok_def simp del: json_ok.simps intro: json_ok_delete\<close>)

lemma final_ok: "maps_ok m \<Longrightarrow> values_ok res \<Longrightarrow> maps_ok (finalRatios res m)"
  unfolding finalRatios_def
proof (induction res arbitrary: m)
  case (Cons r res)
  have "maps_ok (sync_model m r)" using Cons.prems by (intro sync_model_ok) (auto simp: values_ok_def)
  then show ?case using Cons by (simp add: values_ok_def)
qed simp

lemma first_seven:
  "written (take 7 (sync_updates res m)) t f = (if f \<in> set RATIO_SYNC_FIELDS then print_maps (finalRatios res m) f else t f)"
proof (cases f)
  case (F_lane lane)
  then show ?thesis by (cases lane) (simp_all add: written_def sync_updates_def sync_order_def RATIO_SYNC_FIELDS_def)
qed (simp_all add: written_def sync_updates_def sync_order_def RATIO_SYNC_FIELDS_def)

lemma all_ten: "written (sync_updates res m) t = print_maps (finalRatios res m)"
proof
  fix f
  show "written (sync_updates res m) t f = print_maps (finalRatios res m) f"
  proof (cases f)
    case (F_lane lane)
    then show ?thesis by (cases lane) (simp_all add: written_def sync_updates_def sync_order_def)
  qed (simp_all add: written_def sync_updates_def sync_order_def)
qed

text \<open>When all requests succeed, the server and the page hold exactly the result.\<close>

lemma sync_succeeds:
  assumes "writing st = Some (sync_updates (resolutions st) m)" "maps_ok m" "values_ok (resolutions st)"
  shows "parse_maps (stored (sync_ended 10 st)) = Some (finalRatios (resolutions st) m) \<and>
    shown_texts (sync_ended 10 st) = stored (sync_ended 10 st) \<and> resolutions (sync_ended 10 st) = []"
proof -
  have "length (sync_updates (resolutions st) m) = 10" by (simp add: sync_updates_def sync_order_def)
  then show ?thesis using assms(1) parse_print [OF final_ok [OF assms(2,3)]]
    by (simp add: sync_ended_def all_ten Let_def)
qed

text \<open>
  C23. The ten texts are written one after the other, the deletion of the ratios before the fixed price:
  when the eighth request fails, a model that was to change from ratios to a fixed price is left on the
  server without any price.
\<close>

theorem interrupted_sync_unpriced:
  assumes "selections ds (resolutions st)" "map_of (resolutions st) n = Some sel" "has_price sel"
    and "parse_maps (stored st) = Some m" "maps_ok m" "values_ok (resolutions st)" "map_of (m F_price) n = None"
    and "writing st = Some (sync_updates (resolutions st) m)"
  shows "\<exists>m'. parse_maps (stored (sync_ended 7 st)) = Some m' \<and> (\<forall>f\<in>set price_fields. map_of (m' f) n = None)"
proof -
  let ?final = "finalRatios (resolutions st) m"
  define m' where "m' f = (if f \<in> set RATIO_SYNC_FIELDS then ?final f else m f)" for f
  have "length (sync_updates (resolutions st) m) = 10" by (simp add: sync_updates_def sync_order_def)
  then have s: "stored (sync_ended 7 st) = written (take 7 (sync_updates (resolutions st) m)) (stored st)"
    using assms(8) by (simp add: sync_ended_def Let_def)
  have "parse_map (print_maps ?final f) = Some (?final f)" "parse_map (stored st f) = Some (m f)" for f
    using parse_print [OF final_ok [OF assms(5,6)]] assms(4) by (simp_all add: parse_maps_iff)
  then have "parse_maps (stored (sync_ended 7 st)) = Some m'"
    unfolding parse_maps_iff by (simp add: s first_seven m'_def)
  moreover have "map_of (m' f) n = None" if "f \<in> set price_fields" for f
    using that priced_only(1) [OF assms(1-3)] assms(7)
    by (auto simp: m'_def price_fields_def ratio_field_iff)
  ultimately show ?thesis by blast
qed

theorem interrupted_sync_unpriced_witness:
  "\<exists>st m'. map_of (sample_maps F_ratio) (js ''m'') \<noteq> None \<and> stored st = print_maps sample_maps \<and>
    parse_maps (stored (sync_ended 7 st)) = Some m' \<and> (\<forall>f\<in>set price_fields. map_of (m' f) (js ''m'') = None)"
proof -
  define st where "st = (opened_page (print_maps sample_maps))
    \<lparr>differences := sample_ds, resolutions := sample_selection, writing := Some (sync_updates sample_selection sample_maps)\<rparr>"
  have st: "resolutions st = sample_selection" "stored st = print_maps sample_maps"
    "writing st = Some (sync_updates sample_selection sample_maps)"
    by (simp_all add: st_def opened_page_def)
  have "values_ok sample_selection"
    by (simp add: values_ok_def sample_selection_def synced_value_def NUMERIC_SYNC_FIELDS_def one_printed(1))
  then have "\<exists>m'. parse_maps (stored (sync_ended 7 st)) = Some m' \<and> (\<forall>f\<in>set price_fields. map_of (m' f) (js ''m'') = None)"
    using interrupted_sync_unpriced [of sample_ds st "js ''m''" "[(F_price, JNum (Fin 1))]" sample_maps]
      sample_selections sample_maps_ok st
    by (simp add: sample_selection_def has_price_def sample_maps_def)
  then show ?thesis using st(2) by (auto simp: sample_maps_def)
qed

text \<open>Confirmation is asked for exactly when a model with one kind of price is to get the other.\<close>

lemma asks_on_conflict:
  assumes "parsedRatios (shown_texts st) = Some m" "writing st = None" "handleApplySync t st = Some st'"
  shows "writing st' = None \<longleftrightarrow> (\<exists>r\<in>set (resolutions st). category_conflict m r)"
  using assms by (auto simp: handleApplySync_def conflicts_def performSync_def Let_def filter_empty_conv split: if_splits)

text \<open>Clearing the box of one upstream also drops what was selected from another.\<close>

lemma bulk_unselect_any_source:
  assumes "obj_get upstream (rd_upstreams d) \<noteq> JUndef"
  shows "handleBulkUnselect None upstream [(model, [(F_price, d)])] [(model, [(F_price, v)])] = []"
  using assms
  by (simp add: handleBulkUnselect_def getOrderedRatioTypes_def SYNC_FIELD_ORDER_def RATIO_SYNC_FIELDS_def upstream_value_def
      deleteResolutionField_def without_field_def obj_delete_def Let_def)

end
