(* ===== verification/Spec2Isabelle.thy ===== *)
theory Spec2Isabelle
  imports JsSort StatusCodeRules PlaygroundChat BillingRules ModelMapping StatusCodeGuard ChannelUtils
    ChannelForm SiteSettings ImageStore SecureVerification ParamOverrideServer
    TierSession UpstreamSync
begin

text \<open>
  A verification library of the TypeScript logic of two web applications of the repository: the
  administration site of the API gateway (\<open>src/newapi/web/default/src\<close>) and the image workbench
  (\<open>src/chatgpt2api-setup/chatgpt2api/web/src\<close>).

  \<^bold>\<open>The program\<close>

  The gateway forwards requests to upstream channels, bills them and relays the answers. Its site is
  where the administrator edits channels, price expressions and status code rules, and where users try
  models in the playground. What the server stores is mostly text: lists joined by commas, JSON
  objects, and price expressions in a small language. The logic modelled here reads and writes these
  texts, keeps copies of state in the browser's storage, and follows streams of events. The workbench
  keeps the history of generated images in a database of the browser.

  \<^bold>\<open>The language\<close>

  \<^item> \<open>Prelude\<close>: generic facts, insertion-ordered maps, and the locale \<open>simulation\<close>.
  \<^item> \<open>JsString\<close>: strings are lists of UTF-16 code units; \<open>trim\<close>, \<open>split\<close>, \<open>join\<close>, \<open>indexOf\<close>,
    numerals; the locale \<open>csv_codec\<close> of lists printed with a separator.
  \<^item> \<open>JsNumber\<close>: a number is \<open>NaN\<close>, an infinity or a rational; results are rounded to binary64.
  \<^item> \<open>JsValue\<close>: values, objects in property order, \<open>JSON.parse\<close>, \<open>JSON.stringify\<close> and their round trip.
    The parser's fuel is twice the length of the text plus two, and more never changes a result.
  \<^item> \<open>JsPretty\<close>: \<open>JSON.stringify\<close> with an indent of two blanks, which parses back to the same value.
  \<^item> \<open>JsConvert\<close>: \<open>String\<close> and \<open>Number\<close> of values that may throw. \<open>JsSort\<close>: the stable sort.
    \<open>JsStorage\<close>: \<open>localStorage\<close>, with the locales \<open>storage_slot\<close> and \<open>two_slots\<close>.
  \<^item> \<open>JsRegex\<close>: regular expressions as data with a backtracking matcher; an iteration of a star
    consumes input, so the length of the text bounds it. \<open>JsRegexLead\<close> composes matches: where an
    expression leads first, and where it is stuck, piece by piece.

  \<^bold>\<open>The gateway's site\<close>

  \<^item> \<open>StatusCodeRules\<close> (\<open>lib/http-status-code-rules.ts\<close>): rule texts such as \<open>400-404,500\<close>. Accepted
    texts have a normal form, equal sets of codes have equal normal forms, refused ones name every bad
    token.
  \<^item> \<open>PlaygroundMessage\<close> (\<open>features/playground/lib/message-utils.ts\<close>): messages, and the \<open>think\<close> tags
    that divide an answer into text and reasoning.
  \<^item> \<open>PlaygroundStore\<close> (\<open>lib/storage.ts\<close>, \<open>lib/payload-builder.ts\<close>, \<open>hooks/use-playground-state.ts\<close>):
    the page's state and its stored copy, a simulation between them under reload, and the request.
  \<^item> \<open>PlaygroundChat\<close> (\<open>hooks/use-chat-handler.ts\<close>, \<open>hooks/use-stream-request.ts\<close>, \<open>index.tsx\<close>): the
    conversation as a step relation over user actions and stream events, with its invariants by rule
    induction, and two schedules on which an answer stays loading for ever.
  \<^item> \<open>BillingExpr\<close> and \<open>BillingRules\<close> (\<open>features/pricing/lib/billing-expr.ts\<close>): the price expressions,
    printing and parsing of request rules, and which rules survive the round trip.
  \<^item> \<open>TierExpr\<close>, \<open>TierText\<close> and \<open>TierReopen\<close> (\<open>features/pricing/lib/tier-expr.ts\<close>): price tiers, the
    expression printed for them and the regular expressions that read it back. \<open>TierText\<close> gives the
    matches on printed texts, \<open>TierReopen\<close> the round trip and what it loses.
  \<^item> \<open>TierEditor\<close> and \<open>TierSession\<close> (\<open>features/system-settings/models/tiered-pricing-editor.tsx\<close>): the
    editor of tiers and request rules. \<open>commit\<close> runs the effects of one render with the values of that
    render; an editor is settled when they change nothing. A settled editor has stored what it shows,
    changing modes there and back keeps it when the rules are canonical, and opening a price the tiers cannot show erases it.
  \<^item> \<open>ModelPricing\<close> and \<open>ModelRatios\<close> (\<open>pricing-format.ts\<close>, \<open>model-pricing-sheet.tsx\<close> and
    \<open>model-ratio-visual-editor.tsx\<close> in \<open>features/system-settings/models\<close>): the form for the price of one
    model, which shows prices and stores ratios, and the table that keeps all prices in ten JSON texts.
    The ratios follow the prices, a save touches only the models it is for and keeps what was not
    edited, and a fixed price cannot be replaced by prices per token.
  \<^item> \<open>UpstreamSync\<close> (\<open>upstream-ratio-sync.tsx\<close> and its helpers there): prices taken over from other
    gateways into the same ten texts. The clicks form an inductive relation whose selections stay
    consistent, a synchronisation writes exactly the selection, and what a failure in the middle of its
    ten requests leaves behind is stated.
  \<^item> \<open>ParamOverride\<close>, \<open>ParamOverrideText\<close>, \<open>ParamOverrideDrafts\<close>, \<open>ParamOverrideEditor\<close>
    (\<open>features/channels/components/dialogs/param-override-editor-dialog.tsx\<close>): the editor of the
    changes made to requests: reading and writing the stored text, the forms for single values, and the
    state and handlers of the dialog with its invariant. \<open>ParamOverrideServer\<close>
    (\<open>relay/common/override.go\<close>): how the server reads the same text, and where the two differ.
  \<^item> \<open>ModelMapping\<close>, \<open>StatusCodeGuard\<close> (\<open>features/channels/lib\<close>): checks of the two JSON mappings of
    a channel.
  \<^item> \<open>ChannelTypes\<close>, \<open>ChannelUtils\<close>, \<open>ChannelForm\<close> (\<open>features/channels\<close>): the channel record, its
    display and grouping by tag, and the form: schema, opening a channel, the payloads it sends. The
    form and the editors of \<open>ModelMapping\<close> and \<open>StatusCodeGuard\<close> check the same texts, and how their
    verdicts compare is proved in \<open>ChannelForm\<close>.
  \<^item> \<open>NavModules\<close> and \<open>SidebarConfig\<close> (\<open>lib/nav-modules.ts\<close>, \<open>hooks/use-sidebar-config.ts\<close>): which
    pages exist for whom. Route guards and menu read the same text by different code; a guard lets in where
    the menu shows the page, and also where a switch is neither true nor false.
  \<^item> \<open>SiteSettings\<close> (\<open>features/system-settings/maintenance/config.ts\<close>): the administrator's editor of
    the same texts. What it shows and saves is what guards and menu apply.
  \<^item> \<open>SecureVerification\<close> (\<open>features/auth/secure-verification\<close>, \<open>lib/secure-verification.ts\<close>): the
    second check before a sensitive request, as a step relation over the dialog's actions, the calls a
    page may make of the hook's functions and the answers still under way. The hook runs a request only
    after a successful check, and only one that was refused before or that the page handed over for
    verification; also when the dialog was dismissed meanwhile.

  \<^bold>\<open>The workbench\<close>

  \<^item> \<open>ImageConversations\<close> and \<open>ImageStore\<close> (\<open>store/image-conversations.ts\<close>): normalisation of stored
    conversations, with the fields on which the types of the result depend, and the write queue as a step relation with failing reads and writes. The queue
    implements a map from ids to conversations and always drains.

  \<^bold>\<open>Interfaces\<close>

  A locale states each contract between components, and is interpreted where the model provides it:
  \<open>csv_codec\<close> for models, keys and groups; \<open>storage_slot\<close> for the playground's three values and the
  cached status; \<open>simulation\<close> for the image database.

  \<^bold>\<open>Conventions and hypotheses\<close>

  An exception is \<open>None\<close>, or the error value a component names. Loops are structural recursion, or
  functions with a termination proof. What JavaScript leaves to the environment is an argument:
  \<open>localeCompare\<close> (assumed to be a consistent order where a theorem needs one), the Unicode case map,
  date parsing, the clock, identifiers. Theorems on texts assume that the numbers inside print to a text
  that reads back as the same number, as the language guarantees. A theorem about storage assumes
  storage that works; the models themselves include storage that refuses. A closed event source
  delivers nothing more, as the documentation of the stream library says.

  \<^bold>\<open>Not modelled\<close>

  The React components and styles, routing tables and translations; the API wrappers, which only call
  the HTTP client; formatting of dates, balances and quotas, which only calls the internationalisation
  library; charts; the older site \<open>src/newapi/web/classic\<close>, whose logic repeats that of the new one in
  JavaScript; the Go server, except its parsing of parameter overrides, and the Python services, which
  are not in the language covered here.
\<close>

end
